(* ===== verification/Prelude.thy ===== *)
theory Prelude
  imports Main "HOL-Library.Word" "HOL-Library.State_Monad"
begin

text \<open>
  Shared ground of the development: the machine integers of the C sources, in-place
  buffer writes (\<open>memcpy\<close> into a buffer that is a HOL list), big- and little-endian byte
  encodings, C's truncating division, and the lemma collections the component theories use.
\<close>

unbundle bit_operations_syntax

named_theorems buf_simps "reading a buffer after an in-place write"
named_theorems emit_intros "composition rules for programs that only append to a serializer"
named_theorems tables_simps "sums over the sample tables of a track"

section \<open>Machine integers\<close>

type_synonym byte = "8 word"
type_synonym u8 = "8 word"
type_synonym u16 = "16 word"
type_synonym u32 = "32 word"
type_synonym u64 = "64 word"
type_synonym s32 = "32 word"
type_synonym s64 = "64 word"

text \<open>
  \<open>int32_t\<close> and \<open>int64_t\<close> are words read through \<^const>\<open>sint\<close>; C division truncates
  towards zero.
\<close>

definition trunc_div :: "int \<Rightarrow> int \<Rightarrow> int" where
  "trunc_div a b = sgn a * sgn b * (\<bar>a\<bar> div \<bar>b\<bar>)"

definition s64_div :: "s64 \<Rightarrow> s64 \<Rightarrow> s64" where
  "s64_div a b = word_of_int (trunc_div (sint a) (sint b))"

definition s64_less :: "s64 \<Rightarrow> s64 \<Rightarrow> bool" where
  "s64_less a b \<longleftrightarrow> sint a < sint b"

lemma trunc_div_nonneg: "0 \<le> a \<Longrightarrow> 0 < b \<Longrightarrow> trunc_div a b = a div b"
  by (auto simp: trunc_div_def sgn_if)

text \<open>Bit fields that do not overlap are added.\<close>

lemma or_push_bit_nat:
  assumes "a < (2 :: nat) ^ k"
  shows "a OR push_bit k b = a + push_bit k b"
proof -
  have "take_bit k a = a" using assms by (simp add: take_bit_nat_eq_self)
  then have "bit a i \<Longrightarrow> i < k" for i by (metis bit_take_bit_iff)
  then have "a AND push_bit k b = 0" by (intro bit_eqI) (force simp: bit_simps)
  then show ?thesis by (simp add: disjunctive_add_eq_or)
qed

section \<open>In-place writes into a buffer\<close>

text \<open>
  \<open>memcpy(buf + off, ys, len)\<close> for \<open>off + len \<le> length buf\<close>; a write that starts at
  the end of the buffer extends it.
\<close>

definition write_at :: "'a list \<Rightarrow> nat \<Rightarrow> 'a list \<Rightarrow> 'a list" where
  "write_at xs off ys = take off xs @ ys @ drop (off + length ys) xs"

lemma length_write_at [buf_simps]:
  "off \<le> length xs \<Longrightarrow> length (write_at xs off ys) = max (length xs) (off + length ys)"
  by (auto simp: write_at_def)

lemma nth_write_at [buf_simps]:
  "off + length ys \<le> length xs \<Longrightarrow> i < length xs \<Longrightarrow> write_at xs off ys ! i =
    (if i < off then xs ! i else if i < off + length ys then ys ! (i - off) else xs ! i)"
  by (auto simp: write_at_def nth_append min_def)

lemma write_at_end [simp]: "write_at xs (length xs) ys = xs @ ys"
  by (simp add: write_at_def)

lemma write_at_Nil [simp]: "write_at xs off [] = xs"
  by (simp add: write_at_def)

lemma write_at_append:
  assumes "off \<le> length xs"
  shows "write_at (write_at xs off ys) (off + length ys) zs = write_at xs off (ys @ zs)"
  using assms by (auto simp: write_at_def min_def ac_simps)

lemma write_at_prefix:
  assumes "off \<le> length xs" and "length zs \<le> length ys"
  shows "write_at (write_at xs off ys) off zs = write_at xs off (zs @ drop (length zs) ys)"
  using assms by (simp add: write_at_def min_def)

lemma take_write_at [buf_simps]:
  "off \<le> length xs \<Longrightarrow> n \<le> off \<Longrightarrow> take n (write_at xs off ys) = take n xs"
  by (simp add: write_at_def min_def)

lemma drop_write_at [buf_simps]:
  "off \<le> length xs \<Longrightarrow> off + length ys \<le> n \<Longrightarrow> drop n (write_at xs off ys) = drop n xs"
  by (simp add: write_at_def)

section \<open>Loops over arrays\<close>

fun for_each :: "('a \<Rightarrow> ('s, unit) state) \<Rightarrow> 'a list \<Rightarrow> ('s, unit) state" where
  "for_each f [] = State_Monad.return ()"
| "for_each f (x # xs) = do { f x; for_each f xs }"

section \<open>Byte encodings\<close>

definition be16 :: "u16 \<Rightarrow> byte list" where
  "be16 w = [ucast (drop_bit 8 w), ucast w]"

definition be24 :: "u32 \<Rightarrow> byte list" where
  "be24 w = be16 (ucast (drop_bit 8 w)) @ [ucast w]"

definition be32 :: "u32 \<Rightarrow> byte list" where
  "be32 w = be16 (ucast (drop_bit 16 w)) @ be16 (ucast w)"

definition be64 :: "u64 \<Rightarrow> byte list" where
  "be64 w = be32 (ucast (drop_bit 32 w)) @ be32 (ucast w)"

definition le16 :: "u16 \<Rightarrow> byte list" where
  "le16 w = [ucast w, ucast (drop_bit 8 w)]"

definition le24 :: "u32 \<Rightarrow> byte list" where
  "le24 w = ucast w # le16 (ucast (drop_bit 8 w))"

definition le32 :: "u32 \<Rightarrow> byte list" where
  "le32 w = le16 (ucast w) @ le16 (ucast (drop_bit 16 w))"

definition le64 :: "u64 \<Rightarrow> byte list" where
  "le64 w = le32 (ucast w) @ le32 (ucast (drop_bit 32 w))"

lemma length_be [simp]:
  "length (be16 a) = 2" "length (be24 b) = 3" "length (be32 b) = 4" "length (be64 c) = 8"
  by (simp_all add: be16_def be24_def be32_def be64_def)

lemma length_le [simp]:
  "length (le16 a) = 2" "length (le24 b) = 3" "length (le32 b) = 4" "length (le64 c) = 8"
  by (simp_all add: le16_def le24_def le32_def le64_def)

lemma be_neq_Nil [simp]: "be16 a \<noteq> []" "be24 b \<noteq> []" "be32 b \<noteq> []" "be64 c \<noteq> []"
  by (simp_all add: be16_def be24_def be32_def be64_def)

text \<open>Reading an unsigned big-endian number back.\<close>

definition from_be :: "byte list \<Rightarrow> nat" where
  "from_be bs = foldl (\<lambda>n b. 256 * n + unat b) 0 bs"

lemma from_be_snoc: "from_be (bs @ [b]) = 256 * from_be bs + unat b"
  by (simp add: from_be_def)

lemma from_be_append: "from_be (as @ bs) = 256 ^ length bs * from_be as + from_be bs"
proof (induction bs rule: rev_induct)
  case Nil
  then show ?case by (simp add: from_be_def)
next
  case (snoc b bs)
  then show ?case
    by (simp add: from_be_snoc algebra_simps flip: append_assoc)
qed

lemma from_be_be16: "from_be (be16 w) = unat w"
proof -
  have "256 * (unat w div 256 mod 256) + unat w mod 256 = unat w"
    using unsigned_less [where ?'a = nat and w = w] by (simp add: div_mult_mod_eq)
  then show ?thesis
    by (simp add: from_be_def be16_def unsigned_ucast_eq take_bit_eq_mod drop_bit_eq_div unat_div)
qed

lemma from_be_be32: "from_be (be32 w) = unat w"
proof -
  have "65536 * (unat w div 65536 mod 65536) + unat w mod 65536 = unat w"
    using unsigned_less [where ?'a = nat and w = w] by (simp add: div_mult_mod_eq)
  then show ?thesis
    by (simp add: be32_def from_be_append from_be_be16 unsigned_ucast_eq take_bit_eq_mod drop_bit_eq_div unat_div)
qed

lemma from_be_be64: "from_be (be64 w) = unat w"
proof -
  have "4294967296 * (unat w div 4294967296 mod 4294967296) + unat w mod 4294967296 = unat w"
    using unsigned_less [where ?'a = nat and w = w] by (simp add: div_mult_mod_eq)
  then show ?thesis
    by (simp add: be64_def from_be_append from_be_be32 unsigned_ucast_eq take_bit_eq_mod drop_bit_eq_div unat_div)
qed

lemma from_be_be32_of_nat: "n < 2 ^ 32 \<Longrightarrow> from_be (be32 (word_of_nat n)) = n"
  by (simp add: from_be_be32 unat_of_nat)

lemma from_be_be64_of_nat: "n < 2 ^ 64 \<Longrightarrow> from_be (be64 (word_of_nat n)) = n"
  by (simp add: from_be_be64 unat_of_nat)

text \<open>Four-character codes and other C string literals as bytes.\<close>

definition bytes_of_string :: "string \<Rightarrow> byte list" where
  "bytes_of_string cs = map (\<lambda>c. word_of_nat (of_char c)) cs"

lemma length_bytes_of_string [simp]: "length (bytes_of_string cs) = length cs"
  by (simp add: bytes_of_string_def)

lemma bytes_of_string_append [simp]:
  "bytes_of_string (as @ bs) = bytes_of_string as @ bytes_of_string bs"
  by (simp add: bytes_of_string_def)

end
