(* ===== verification/Deque.thy ===== *)
theory Deque
  imports Prelude
begin

text \<open>
  The double-ended queue of \<open>libobs/util/deque.h\<close>: a growable ring buffer in which the
  queue may wrap around the end of the allocation.  A cell is \<open>None\<close> while it holds
  memory that was allocated and never written, so that a read of uninitialised memory is
  visible in the model.  The cell type is a parameter: sizes and positions count cells, which
  are bytes for a byte queue and whole structures for a queue whose operations all move
  \<open>sizeof(struct encoder_packet)\<close> bytes (every size, position and capacity of such a queue
  is a multiple of that size, and all operations are linear in it).

  The operations are followed by the representation invariant, the refinement of every
  operation to the corresponding operation on lists, and the interface \<open>fifo\<close> that
  the muxers rely on.
\<close>

section \<open>The data structure\<close>

record 'a deque =
  dq_data :: "'a option list"
  dq_size :: nat
  dq_start_pos :: nat
  dq_end_pos :: nat
  dq_capacity :: nat

definition slice :: "'a list \<Rightarrow> nat \<Rightarrow> nat \<Rightarrow> 'a list" where
  "slice xs off n = take n (drop off xs)"

definition brealloc :: "'a option list \<Rightarrow> nat \<Rightarrow> 'a option list" where
  "brealloc xs n = take n xs @ replicate (n - length xs) None"

definition deque_init :: "'a deque" where
  "deque_init = \<lparr>dq_data = [], dq_size = 0, dq_start_pos = 0, dq_end_pos = 0, dq_capacity = 0\<rparr>"

definition deque_free :: "'a deque \<Rightarrow> 'a deque" where
  "deque_free dq = \<lparr>dq_data = [], dq_size = 0, dq_start_pos = 0, dq_end_pos = 0, dq_capacity = 0\<rparr>"

definition deque_reorder_data :: "'a deque \<Rightarrow> nat \<Rightarrow> 'a deque" where
  "deque_reorder_data dq new_capacity =
    (if dq_size dq = 0 \<or> dq_start_pos dq = 0 \<or> dq_end_pos dq > dq_start_pos dq then dq
     else
       (let difference = new_capacity - dq_capacity dq;
            moved = slice (dq_data dq) (dq_start_pos dq) (dq_capacity dq - dq_start_pos dq)
        in dq\<lparr>dq_data := write_at (dq_data dq) (dq_start_pos dq + difference) moved,
              dq_start_pos := dq_start_pos dq + difference\<rparr>))"

definition deque_ensure_capacity :: "'a deque \<Rightarrow> 'a deque" where
  "deque_ensure_capacity dq =
    (if dq_size dq \<le> dq_capacity dq then dq
     else
       (let doubled = dq_capacity dq * 2;
            new_capacity = (if dq_size dq > doubled then dq_size dq else doubled);
            dq1 = dq\<lparr>dq_data := brealloc (dq_data dq) new_capacity\<rparr>;
            dq2 = deque_reorder_data dq1 new_capacity
        in dq2\<lparr>dq_capacity := new_capacity\<rparr>))"

definition deque_reserve :: "'a deque \<Rightarrow> nat \<Rightarrow> 'a deque" where
  "deque_reserve dq capacity =
    (if capacity \<le> dq_capacity dq then dq
     else
       (let dq1 = dq\<lparr>dq_data := brealloc (dq_data dq) capacity\<rparr>;
            dq2 = deque_reorder_data dq1 capacity
        in dq2\<lparr>dq_capacity := capacity\<rparr>))"

definition deque_push_back :: "'a deque \<Rightarrow> 'a list \<Rightarrow> 'a deque" where
  "deque_push_back dq xs =
    (let sz = length xs;
         new_end_pos = dq_end_pos dq + sz;
         dq1 = deque_ensure_capacity (dq\<lparr>dq_size := dq_size dq + sz\<rparr>)
     in if new_end_pos > dq_capacity dq1 then
          (let back_size = dq_capacity dq1 - dq_end_pos dq1;
               d1 = write_at (dq_data dq1) (dq_end_pos dq1) (map Some (take back_size xs));
               d2 = write_at d1 0 (map Some (drop back_size xs))
           in dq1\<lparr>dq_data := d2, dq_end_pos := new_end_pos - dq_capacity dq1\<rparr>)
        else
          dq1\<lparr>dq_data := write_at (dq_data dq1) (dq_end_pos dq1) (map Some xs),
              dq_end_pos := new_end_pos\<rparr>)"

definition deque_push_front :: "'a deque \<Rightarrow> 'a list \<Rightarrow> 'a deque" where
  "deque_push_front dq xs =
    (let sz = length xs;
         dq1 = deque_ensure_capacity (dq\<lparr>dq_size := dq_size dq + sz\<rparr>)
     in if dq_size dq1 = sz then
          dq1\<lparr>dq_start_pos := 0, dq_end_pos := sz,
              dq_data := write_at (dq_data dq1) 0 (map Some xs)\<rparr>
        else if dq_start_pos dq1 < sz then
          (let back_size = sz - dq_start_pos dq1;
               d1 = write_at (dq_data dq1) 0 (map Some (drop back_size xs));
               start = dq_capacity dq1 - back_size
           in dq1\<lparr>dq_start_pos := start,
                  dq_data := write_at d1 start (map Some (take back_size xs))\<rparr>)
        else
          (let start = dq_start_pos dq1 - sz
           in dq1\<lparr>dq_start_pos := start, dq_data := write_at (dq_data dq1) start (map Some xs)\<rparr>))"

text \<open>The \<open>_zero\<close> variants fill with \<open>memset(.., 0, ..)\<close> instead of copying.\<close>

definition deque_push_back_zero :: "'a::zero deque \<Rightarrow> nat \<Rightarrow> 'a deque" where
  "deque_push_back_zero dq sz =
    (let new_end_pos = dq_end_pos dq + sz;
         dq1 = deque_ensure_capacity (dq\<lparr>dq_size := dq_size dq + sz\<rparr>)
     in if new_end_pos > dq_capacity dq1 then
          (let back_size = dq_capacity dq1 - dq_end_pos dq1;
               loop_size = sz - back_size;
               d1 = write_at (dq_data dq1) (dq_end_pos dq1) (replicate back_size (Some 0));
               d2 = write_at d1 0 (replicate loop_size (Some 0))
           in dq1\<lparr>dq_data := d2, dq_end_pos := new_end_pos - dq_capacity dq1\<rparr>)
        else
          dq1\<lparr>dq_data := write_at (dq_data dq1) (dq_end_pos dq1) (replicate sz (Some 0)),
              dq_end_pos := new_end_pos\<rparr>)"

definition deque_push_front_zero :: "'a::zero deque \<Rightarrow> nat \<Rightarrow> 'a deque" where
  "deque_push_front_zero dq sz =
    (let dq1 = deque_ensure_capacity (dq\<lparr>dq_size := dq_size dq + sz\<rparr>)
     in if dq_size dq1 = sz then
          dq1\<lparr>dq_start_pos := 0, dq_end_pos := sz,
              dq_data := write_at (dq_data dq1) 0 (replicate sz (Some 0))\<rparr>
        else if dq_start_pos dq1 < sz then
          (let back_size = sz - dq_start_pos dq1;
               d1 = write_at (dq_data dq1) 0 (replicate (dq_start_pos dq1) (Some 0));
               start = dq_capacity dq1 - back_size
           in dq1\<lparr>dq_start_pos := start,
                  dq_data := write_at d1 start (replicate back_size (Some 0))\<rparr>)
        else
          (let start = dq_start_pos dq1 - sz
           in dq1\<lparr>dq_start_pos := start,
                  dq_data := write_at (dq_data dq1) start (replicate sz (Some 0))\<rparr>))"

definition deque_upsize :: "'a::zero deque \<Rightarrow> nat \<Rightarrow> 'a deque" where
  "deque_upsize dq sz =
    (if sz \<le> dq_size dq then dq
     else
       (let add_size = sz - dq_size dq;
            new_end_pos = dq_end_pos dq + add_size;
            dq1 = deque_ensure_capacity (dq\<lparr>dq_size := sz\<rparr>)
        in if new_end_pos > dq_capacity dq1 then
             (let back_size = dq_capacity dq1 - dq_end_pos dq1;
                  loop_size = add_size - back_size;
                  d1 = write_at (dq_data dq1) (dq_end_pos dq1) (replicate back_size (Some 0));
                  d2 = write_at d1 0 (replicate loop_size (Some 0))
              in dq1\<lparr>dq_data := d2, dq_end_pos := new_end_pos - dq_capacity dq1\<rparr>)
           else
             dq1\<lparr>dq_data := write_at (dq_data dq1) (dq_end_pos dq1) (replicate add_size (Some 0)),
                 dq_end_pos := new_end_pos\<rparr>))"

definition deque_place :: "'a::zero deque \<Rightarrow> nat \<Rightarrow> 'a list \<Rightarrow> 'a deque" where
  "deque_place dq position xs =
    (let sz = length xs;
         end_point = position + sz;
         dq1 = (if end_point > dq_size dq then deque_upsize dq end_point else dq);
         p0 = position + dq_start_pos dq1;
         p = (if p0 \<ge> dq_capacity dq1 then p0 - dq_capacity dq1 else p0);
         data_end_pos = p + sz
     in if data_end_pos > dq_capacity dq1 then
          (let back_size = data_end_pos - dq_capacity dq1;
               loop_size = sz - back_size;
               d1 = write_at (dq_data dq1) p (map Some (take loop_size xs));
               d2 = write_at d1 0 (map Some (drop loop_size xs))
           in dq1\<lparr>dq_data := d2\<rparr>)
        else dq1\<lparr>dq_data := write_at (dq_data dq1) p (map Some xs)\<rparr>)"

definition deque_peek_front :: "'a deque \<Rightarrow> nat \<Rightarrow> 'a option list" where
  "deque_peek_front dq sz =
    (let start_size = dq_capacity dq - dq_start_pos dq
     in if start_size < sz
        then slice (dq_data dq) (dq_start_pos dq) start_size @ slice (dq_data dq) 0 (sz - start_size)
        else slice (dq_data dq) (dq_start_pos dq) sz)"

definition deque_peek_back :: "'a deque \<Rightarrow> nat \<Rightarrow> 'a option list" where
  "deque_peek_back dq sz =
    (let back_size = (if dq_end_pos dq \<noteq> 0 then dq_end_pos dq else dq_capacity dq)
     in if back_size < sz then
          (let front_size = sz - back_size;
               new_end_pos = dq_capacity dq - front_size
           in slice (dq_data dq) new_end_pos front_size @ slice (dq_data dq) 0 back_size)
        else slice (dq_data dq) (dq_end_pos dq - sz) sz)"

definition deque_pop_front :: "'a deque \<Rightarrow> nat \<Rightarrow> 'a option list \<times> 'a deque" where
  "deque_pop_front dq sz =
    (let out = deque_peek_front dq sz;
         dq1 = dq\<lparr>dq_size := dq_size dq - sz\<rparr>
     in if dq_size dq1 = 0 then (out, dq1\<lparr>dq_start_pos := 0, dq_end_pos := 0\<rparr>)
        else
          (let s = dq_start_pos dq1 + sz;
               s' = (if s \<ge> dq_capacity dq1 then s - dq_capacity dq1 else s)
           in (out, dq1\<lparr>dq_start_pos := s'\<rparr>)))"

definition deque_pop_back :: "'a deque \<Rightarrow> nat \<Rightarrow> 'a option list \<times> 'a deque" where
  "deque_pop_back dq sz =
    (let out = deque_peek_back dq sz;
         dq1 = dq\<lparr>dq_size := dq_size dq - sz\<rparr>
     in if dq_size dq1 = 0 then (out, dq1\<lparr>dq_start_pos := 0, dq_end_pos := 0\<rparr>)
        else if dq_end_pos dq1 \<le> sz then
          (out, dq1\<lparr>dq_end_pos := dq_capacity dq1 - (sz - dq_end_pos dq1)\<rparr>)
        else (out, dq1\<lparr>dq_end_pos := dq_end_pos dq1 - sz\<rparr>))"

text \<open>\<open>deque_data\<close> returns a pointer into the buffer, here the offset, or \<open>NULL\<close>.\<close>

definition deque_data :: "'a deque \<Rightarrow> nat \<Rightarrow> nat option" where
  "deque_data dq idx =
    (let offset = dq_start_pos dq + idx
     in if idx \<ge> dq_size dq then None
        else Some (if offset \<ge> dq_capacity dq then offset - dq_capacity dq else offset))"

section \<open>Representation invariant\<close>

definition ring_index :: "nat \<Rightarrow> nat \<Rightarrow> nat \<Rightarrow> nat" where
  "ring_index c st i = (if st + i < c then st + i else st + i - c)"

text \<open>
  \<open>deque_lay dq xs\<close>: the cells from the start position on, wrapping at the capacity, hold
  \<open>xs\<close>, and the end position is where they stop.
\<close>

definition deque_lay :: "'a deque \<Rightarrow> 'a list \<Rightarrow> bool" where
  "deque_lay dq xs \<longleftrightarrow>
     length (dq_data dq) = dq_capacity dq \<and> length xs \<le> dq_capacity dq \<and>
     (\<forall>i < length xs. dq_data dq ! ring_index (dq_capacity dq) (dq_start_pos dq) i = Some (xs ! i)) \<and>
     (xs = [] \<longrightarrow> dq_start_pos dq = 0 \<and> dq_end_pos dq = 0) \<and>
     (xs \<noteq> [] \<longrightarrow> dq_start_pos dq < dq_capacity dq \<and> 0 < dq_end_pos dq \<and>
        dq_end_pos dq \<le> dq_capacity dq \<and>
        (dq_start_pos dq + length xs = dq_end_pos dq \<or>
         dq_start_pos dq + length xs = dq_end_pos dq + dq_capacity dq))"

definition deque_rep :: "'a deque \<Rightarrow> 'a list \<Rightarrow> bool" where
  "deque_rep dq xs \<longleftrightarrow> deque_lay dq xs \<and> dq_size dq = length xs"

definition deque_elems :: "'a deque \<Rightarrow> 'a list" where
  "deque_elems dq = map the (deque_peek_front dq (dq_size dq))"

definition deque_wf :: "'a deque \<Rightarrow> bool" where
  "deque_wf dq \<longleftrightarrow> deque_rep dq (deque_elems dq)"

lemma nth_slice [buf_simps]: "i < n \<Longrightarrow> off + n \<le> length xs \<Longrightarrow> slice xs off n ! i = xs ! (off + i)"
  by (simp add: slice_def)

lemma length_slice [buf_simps]: "off + n \<le> length xs \<Longrightarrow> length (slice xs off n) = n"
  by (simp add: slice_def)

lemma length_brealloc [buf_simps]: "length xs \<le> n \<Longrightarrow> length (brealloc xs n) = n"
  by (simp add: brealloc_def)

lemma nth_brealloc [buf_simps]: "length xs \<le> n \<Longrightarrow> i < length xs \<Longrightarrow> brealloc xs n ! i = xs ! i"
  by (simp add: brealloc_def nth_append)

lemma deque_layD:
  assumes "deque_lay dq xs"
  shows "length (dq_data dq) = dq_capacity dq" and "length xs \<le> dq_capacity dq"
    and "i < length xs \<Longrightarrow> dq_data dq ! ring_index (dq_capacity dq) (dq_start_pos dq) i = Some (xs ! i)"
    and "xs \<noteq> [] \<Longrightarrow> dq_start_pos dq < dq_capacity dq"
    and "dq_end_pos dq \<le> dq_capacity dq"
    and "xs = [] \<Longrightarrow> dq_start_pos dq = 0" and "xs = [] \<Longrightarrow> dq_end_pos dq = 0"
    and "xs \<noteq> [] \<Longrightarrow> 0 < dq_end_pos dq"
    and "dq_start_pos dq + length xs = dq_end_pos dq \<or>
         dq_start_pos dq + length xs = dq_end_pos dq + dq_capacity dq"
  using assms by (auto simp: deque_lay_def)

lemmas deque_bounds = deque_layD(1,2,4-9)

text \<open>
  Writing \<open>ys\<close> from cell \<open>p\<close> on, wrapping at the capacity \<open>c\<close>: the two-part copy that
  every operation that stores data performs.
\<close>

definition ring_put :: "'a list \<Rightarrow> nat \<Rightarrow> nat \<Rightarrow> 'a list \<Rightarrow> 'a list" where
  "ring_put d c p ys =
    (if p + length ys > c then write_at (write_at d p (take (c - p) ys)) 0 (drop (c - p) ys)
     else write_at d p ys)"

lemma length_ring_put [buf_simps]:
  "length d = c \<Longrightarrow> p \<le> c \<Longrightarrow> length ys \<le> c \<Longrightarrow> length (ring_put d c p ys) = c"
  by (auto simp: ring_put_def buf_simps)

lemma nth_ring_put:
  assumes "length d = c" "p \<le> c" "length ys \<le> c" "k < c"
  shows "ring_put d c p ys ! k =
    (if p \<le> k \<and> k < p + length ys then ys ! (k - p)
     else if k + c < p + length ys then ys ! (k + c - p) else d ! k)"
  using assms by (auto simp: ring_put_def buf_simps add.commute)

lemma ring_put_front_first:
  assumes "length d = c" "length ys \<le> c" "b \<le> length ys"
  shows "write_at (write_at d 0 (drop b ys)) (c - b) (take b ys) = ring_put d c (c - b) ys"
  using assms by (intro nth_equalityI) (auto simp: nth_ring_put buf_simps add.commute)

text \<open>The cells of a laid-out queue: storing after, before, or inside \<open>xs\<close>.\<close>

definition ring_holds :: "'a option list \<Rightarrow> nat \<Rightarrow> nat \<Rightarrow> 'a list \<Rightarrow> bool" where
  "ring_holds d c st xs \<longleftrightarrow> (\<forall>i < length xs. d ! ring_index c st i = Some (xs ! i))"

lemma ring_holdsD: "ring_holds d c st xs \<Longrightarrow> i < length xs \<Longrightarrow> d ! ring_index c st i = Some (xs ! i)"
  by (simp add: ring_holds_def)

lemma deque_lay_ring: "deque_lay dq xs \<Longrightarrow> ring_holds (dq_data dq) (dq_capacity dq) (dq_start_pos dq) xs"
  by (simp add: ring_holds_def deque_lay_def)

lemma ring_append:
  assumes len: "length d = c" "length xs + length ys \<le> c" and st: "st < c"
    and p: "p \<le> c" "st + length xs = p \<or> st + length xs = p + c"
    and old: "ring_holds d c st xs"
  shows "ring_holds (ring_put d c p (map Some ys)) c st (xs @ ys)"
  unfolding ring_holds_def
proof (intro allI impI)
  fix i assume i: "i < length (xs @ ys)"
  show "ring_put d c p (map Some ys) ! ring_index c st i = Some ((xs @ ys) ! i)"
  proof (cases "i < length xs")
    case True
    have "ring_put d c p (map Some ys) ! ring_index c st i = d ! ring_index c st i"
      using len st p True by (subst nth_ring_put) (auto simp: ring_index_def)
    then show ?thesis using ring_holdsD [OF old True] True by (simp add: nth_append)
  next
    case False
    then show ?thesis
      using len st p i
      by (subst nth_ring_put) (auto simp: ring_index_def nth_append intro!: arg_cong [where f = "nth ys"])
  qed
qed

lemma ring_prepend:
  assumes len: "length d = c" "length xs + length ys \<le> c" and st: "st < c" "st' < c"
    and p: "st' + length ys = st \<or> st' + length ys = st + c"
    and old: "ring_holds d c st xs"
  shows "ring_holds (ring_put d c st' (map Some ys)) c st' (ys @ xs)"
  unfolding ring_holds_def
proof (intro allI impI)
  fix i assume i: "i < length (ys @ xs)"
  show "ring_put d c st' (map Some ys) ! ring_index c st' i = Some ((ys @ xs) ! i)"
  proof (cases "i < length ys")
    case True
    then show ?thesis
      using len st p by (subst nth_ring_put) (auto simp: ring_index_def nth_append)
  next
    case False
    let ?j = "i - length ys"
    have j: "?j < length xs" using False i by auto
    have "ring_put d c st' (map Some ys) ! ring_index c st' i = d ! ring_index c st ?j"
      using len st p False i
      by (subst nth_ring_put) (auto simp: ring_index_def intro!: arg_cong [where f = "nth d"])
    then show ?thesis using ring_holdsD [OF old j] False by (simp add: nth_append)
  qed
qed

lemma ring_overwrite:
  assumes len: "length d = c" "k + length ys \<le> length xs" "length xs \<le> c" and st: "st < c"
    and old: "ring_holds d c st xs"
  shows "ring_holds (ring_put d c (ring_index c st k) (map Some ys)) c st (write_at xs k ys)"
  unfolding ring_holds_def
proof (intro allI impI)
  fix i assume "i < length (write_at xs k ys)"
  then have i: "i < length xs" using len by (simp add: buf_simps)
  show "ring_put d c (ring_index c st k) (map Some ys) ! ring_index c st i = Some (write_at xs k ys ! i)"
    using len st i ring_holdsD [OF old i]
    by (subst nth_ring_put)
       (auto simp: ring_index_def nth_write_at split: if_splits intro!: arg_cong [where f = "nth ys"])
qed

section \<open>Growing the allocation\<close>

lemma ring_grow:
  assumes len: "length d = c" "length xs \<le> c" and st: "st < c" and nc: "c \<le> nc"
    and wrapped: "c < st + length xs" and old: "ring_holds d c st xs"
  shows "ring_holds (write_at (brealloc d nc) (st + (nc - c)) (slice (brealloc d nc) st (c - st)))
           nc (st + (nc - c)) xs"
  unfolding ring_holds_def
proof (intro allI impI)
  fix i assume i: "i < length xs"
  have "write_at (brealloc d nc) (st + (nc - c)) (slice (brealloc d nc) st (c - st)) !
      ring_index nc (st + (nc - c)) i = d ! ring_index c st i"
    using len st nc wrapped i by (auto simp: ring_index_def buf_simps)
  then show "write_at (brealloc d nc) (st + (nc - c)) (slice (brealloc d nc) st (c - st)) !
      ring_index nc (st + (nc - c)) i = Some (xs ! i)"
    using ring_holdsD [OF old i] by simp
qed

lemma grow_lay:
  assumes lay: "deque_lay dq xs" and nc: "dq_capacity dq \<le> nc" and sz: "xs \<noteq> [] \<Longrightarrow> dq_size dq \<noteq> 0"
  defines "dq2 \<equiv> deque_reorder_data (dq\<lparr>dq_data := brealloc (dq_data dq) nc\<rparr>) nc"
  shows "deque_lay (dq2\<lparr>dq_capacity := nc\<rparr>) xs"
proof (cases "xs = [] \<or> dq_start_pos dq = 0 \<or> dq_end_pos dq > dq_start_pos dq")
  case True
  have same: "dq2 = dq\<lparr>dq_data := brealloc (dq_data dq) nc\<rparr>"
    using True deque_bounds [OF lay] by (auto simp: dq2_def deque_reorder_data_def)
  show ?thesis
    using True deque_layD [OF lay] nc
    by (auto simp: deque_lay_def same ring_index_def buf_simps split: if_splits)
next
  case False
  let ?c = "dq_capacity dq" and ?s = "dq_start_pos dq"
  have wrapped: "?s + length xs = dq_end_pos dq + ?c"
    using deque_layD(9) [OF lay] False by (cases xs) auto
  have dq2: "dq2 = dq\<lparr>dq_data := write_at (brealloc (dq_data dq) nc) (?s + (nc - ?c))
      (slice (brealloc (dq_data dq) nc) ?s (?c - ?s)), dq_start_pos := ?s + (nc - ?c)\<rparr>"
    using False sz by (simp add: dq2_def deque_reorder_data_def Let_def)
  have "ring_holds (dq_data dq2) nc (dq_start_pos dq2) xs"
    using ring_grow [OF deque_layD(1,2) [OF lay] _ nc _ deque_lay_ring [OF lay]]
      deque_bounds [OF lay] False wrapped
    by (simp add: dq2)
  then show ?thesis
    using deque_bounds [OF lay] False nc wrapped
    by (auto simp: deque_lay_def dq2 buf_simps ring_holds_def)
qed

lemma reorder_data_frame [simp]:
  "dq_size (deque_reorder_data dq n) = dq_size dq"
  "dq_end_pos (deque_reorder_data dq n) = dq_end_pos dq"
  by (simp_all add: deque_reorder_data_def Let_def)

lemma ensure_capacity_frame [simp]:
  "dq_size (deque_ensure_capacity dq) = dq_size dq"
  "dq_end_pos (deque_ensure_capacity dq) = dq_end_pos dq"
  by (simp_all add: deque_ensure_capacity_def Let_def)

lemma ensure_capacity_lay:
  assumes "deque_lay dq xs" and "length xs \<le> n"
  defines "dq1 \<equiv> deque_ensure_capacity (dq\<lparr>dq_size := n\<rparr>)"
  shows "deque_lay dq1 xs" and "n \<le> dq_capacity dq1" and "dq_size dq1 = n"
    and "dq_end_pos dq1 = dq_end_pos dq"
proof -
  let ?d = "dq\<lparr>dq_size := n\<rparr>"
  have lay: "deque_lay ?d xs" using assms(1) by (simp add: deque_lay_def)
  have "deque_lay dq1 xs \<and> n \<le> dq_capacity dq1 \<and> dq_size dq1 = n \<and> dq_end_pos dq1 = dq_end_pos dq"
  proof (cases "n \<le> dq_capacity dq")
    case True
    then show ?thesis using lay by (simp add: dq1_def deque_ensure_capacity_def)
  next
    case False
    define nc where "nc = (if n > dq_capacity dq * 2 then n else dq_capacity dq * 2)"
    have "deque_lay ((deque_reorder_data (?d\<lparr>dq_data := brealloc (dq_data ?d) nc\<rparr>) nc)\<lparr>dq_capacity := nc\<rparr>) xs"
      using lay assms(2) False by (intro grow_lay) (auto simp: nc_def)
    then show ?thesis
      using False by (auto simp: dq1_def deque_ensure_capacity_def Let_def nc_def)
  qed
  then show "deque_lay dq1 xs" "n \<le> dq_capacity dq1" "dq_size dq1 = n"
    "dq_end_pos dq1 = dq_end_pos dq" by auto
qed

lemma deque_reserve_rep: "deque_rep dq xs \<Longrightarrow> deque_rep (deque_reserve dq n) xs"
proof -
  assume rep: "deque_rep dq xs"
  show ?thesis
  proof (cases "n \<le> dq_capacity dq")
    case True
    then show ?thesis using rep by (simp add: deque_reserve_def)
  next
    case False
    let ?d2 = "deque_reorder_data (dq\<lparr>dq_data := brealloc (dq_data dq) n\<rparr>) n"
    have "deque_lay (?d2\<lparr>dq_capacity := n\<rparr>) xs"
      using rep False by (intro grow_lay) (auto simp: deque_rep_def)
    then show ?thesis
      using rep False by (simp add: deque_reserve_def deque_rep_def Let_def)
  qed
qed

section \<open>Every operation refines the list operation\<close>

text \<open>Storing data after growing: the step that the pushing operations share.\<close>

lemma push_lay:
  assumes "deque_lay dq1 xs" and "length xs + length ys \<le> dq_capacity dq1"
  shows "deque_lay (dq1\<lparr>dq_data := ring_put (dq_data dq1) (dq_capacity dq1) (dq_end_pos dq1) (map Some ys),
     dq_end_pos := (if dq_end_pos dq1 + length ys > dq_capacity dq1
       then dq_end_pos dq1 + length ys - dq_capacity dq1 else dq_end_pos dq1 + length ys)\<rparr>) (xs @ ys)"
proof (cases "xs @ ys = []")
  case True
  then show ?thesis using assms by (auto simp: deque_lay_def ring_put_def)
next
  case False
  have st: "dq_start_pos dq1 < dq_capacity dq1"
    using False assms deque_bounds [OF assms(1)] by (cases "xs = []"; cases ys) auto
  have "ring_holds (ring_put (dq_data dq1) (dq_capacity dq1) (dq_end_pos dq1) (map Some ys))
      (dq_capacity dq1) (dq_start_pos dq1) (xs @ ys)"
    using ring_append [OF deque_layD(1) [OF assms(1)] assms(2) st deque_layD(5) [OF assms(1)]
      deque_layD(9) [OF assms(1)] deque_lay_ring [OF assms(1)]] .
  then show ?thesis
    using assms(2) st False deque_bounds [OF assms(1)]
    by (cases "xs = []"; cases ys) (auto simp: deque_lay_def ring_holds_def buf_simps)
qed

lemma push_back_rep:
  assumes "deque_rep dq xs"
  shows "deque_rep (deque_push_back dq ys) (xs @ ys)"
proof -
  let ?n = "length xs + length ys"
  define dq1 where "dq1 = deque_ensure_capacity (dq\<lparr>dq_size := ?n\<rparr>)"
  have lay: "deque_lay dq1 xs" and cap: "?n \<le> dq_capacity dq1" and sz: "dq_size dq1 = ?n"
    and e: "dq_end_pos dq1 = dq_end_pos dq"
    using ensure_capacity_lay [of dq xs ?n] assms unfolding deque_rep_def dq1_def by auto
  have "deque_push_back dq ys =
    dq1\<lparr>dq_data := ring_put (dq_data dq1) (dq_capacity dq1) (dq_end_pos dq1) (map Some ys),
     dq_end_pos := (if dq_end_pos dq1 + length ys > dq_capacity dq1
       then dq_end_pos dq1 + length ys - dq_capacity dq1 else dq_end_pos dq1 + length ys)\<rparr>"
    using assms e by (simp add: deque_push_back_def Let_def dq1_def deque_rep_def ring_put_def take_map drop_map)
  then show ?thesis
    using push_lay [OF lay cap] sz by (simp add: deque_rep_def)
qed

lemma push_front_rep:
  assumes "deque_rep dq xs"
  shows "deque_rep (deque_push_front dq ys) (ys @ xs)"
proof -
  let ?n = "length xs + length ys"
  define dq1 where "dq1 = deque_ensure_capacity (dq\<lparr>dq_size := ?n\<rparr>)"
  have lay: "deque_lay dq1 xs" and cap: "?n \<le> dq_capacity dq1" and sz: "dq_size dq1 = ?n"
    using ensure_capacity_lay [of dq xs ?n] assms unfolding deque_rep_def dq1_def by auto
  note B = deque_bounds [OF lay]
  show ?thesis
  proof (cases "xs = []")
    case True
    have "deque_push_front dq ys = dq1\<lparr>dq_start_pos := 0, dq_end_pos := length ys,
        dq_data := ring_put (dq_data dq1) (dq_capacity dq1) 0 (map Some ys)\<rparr>"
      using assms sz cap True
      by (simp add: deque_push_front_def Let_def dq1_def deque_rep_def ring_put_def)
    moreover have "ys \<noteq> [] \<Longrightarrow> 0 < dq_capacity dq1" using cap by (cases ys) auto
    ultimately show ?thesis
      using True B cap sz
      by (cases "ys = []") (auto simp: deque_rep_def deque_lay_def buf_simps nth_ring_put ring_index_def)
  next
    case False
    define st where "st = (if dq_start_pos dq1 < length ys
      then dq_capacity dq1 - (length ys - dq_start_pos dq1) else dq_start_pos dq1 - length ys)"
    have eq: "deque_push_front dq ys = dq1\<lparr>dq_start_pos := st,
        dq_data := ring_put (dq_data dq1) (dq_capacity dq1) st (map Some ys)\<rparr>"
    proof (cases "dq_start_pos dq1 < length ys")
      case True
      let ?b = "length ys - dq_start_pos dq1"
      have "write_at (write_at (dq_data dq1) 0 (map Some (drop ?b ys))) (dq_capacity dq1 - ?b)
          (map Some (take ?b ys)) = ring_put (dq_data dq1) (dq_capacity dq1) st (map Some ys)"
        using ring_put_front_first [of "dq_data dq1" "dq_capacity dq1" "map Some ys" ?b] B cap True
        by (simp add: st_def take_map drop_map)
      then show ?thesis
        using assms sz False True
        by (simp add: deque_push_front_def Let_def dq1_def deque_rep_def st_def)
    next
      case nowrap: False
      then show ?thesis
        using assms sz False B
        by (simp add: deque_push_front_def Let_def dq1_def deque_rep_def st_def ring_put_def)
    qed
    have st: "st < dq_capacity dq1" "st + length ys = dq_start_pos dq1 \<or>
        st + length ys = dq_start_pos dq1 + dq_capacity dq1"
      using B cap False by (auto simp: st_def)
    have "ring_holds (ring_put (dq_data dq1) (dq_capacity dq1) st (map Some ys))
        (dq_capacity dq1) st (ys @ xs)"
      using B False by (intro ring_prepend [OF _ cap _ st deque_lay_ring [OF lay]]) auto
    then show ?thesis
      using eq B cap sz st False
      by (auto simp: deque_rep_def deque_lay_def ring_holds_def buf_simps)
  qed
qed

lemma push_back_zero_eq: "deque_push_back_zero dq n = deque_push_back dq (replicate n 0)"
  by (auto simp: deque_push_back_zero_def deque_push_back_def Let_def map_replicate take_replicate
      drop_replicate min_def)

lemma push_front_zero_eq:
  assumes "deque_rep dq xs"
  shows "deque_push_front_zero dq n = deque_push_front dq (replicate n 0)"
proof -
  have "min (n - k) n = n - k" "k < n \<Longrightarrow> n - (n - k) = k" for k :: nat by auto
  then show ?thesis
    by (simp add: deque_push_front_zero_def deque_push_front_def Let_def map_replicate
        take_replicate drop_replicate)
qed

lemma upsize_eq:
  "deque_upsize dq n = (if n \<le> dq_size dq then dq else deque_push_back dq (replicate (n - dq_size dq) 0))"
  by (auto simp: deque_upsize_def deque_push_back_def Let_def map_replicate take_replicate
      drop_replicate min_def)

lemma upsize_rep:
  "deque_rep dq xs \<Longrightarrow> deque_rep (deque_upsize dq n) (xs @ replicate (n - length xs) 0)"
  by (auto simp: upsize_eq push_back_rep deque_rep_def [of dq xs])

lemma place_rep:
  assumes "deque_rep dq xs" and "ys \<noteq> []"
  shows "deque_rep (deque_place dq k ys) (write_at (xs @ replicate (k + length ys - length xs) 0) k ys)"
proof -
  define zs where "zs = xs @ replicate (k + length ys - length xs) 0"
  define dq1 where "dq1 = (if k + length ys > dq_size dq then deque_upsize dq (k + length ys) else dq)"
  have rep: "deque_rep dq1 zs"
    using assms upsize_rep [OF assms(1), of "k + length ys"]
    by (auto simp: dq1_def zs_def deque_rep_def [of dq xs] deque_rep_def [of dq "_ @ _"])
  have len: "k + length ys \<le> length zs" by (auto simp: zs_def)
  have lay: "deque_lay dq1 zs" and sz: "dq_size dq1 = length zs" using rep by (auto simp: deque_rep_def)
  have ne: "zs \<noteq> []" using len assms(2) by (cases zs) auto
  note B = deque_bounds [OF lay]
  have eq: "deque_place dq k ys = dq1\<lparr>dq_data :=
      ring_put (dq_data dq1) (dq_capacity dq1) (ring_index (dq_capacity dq1) (dq_start_pos dq1) k) (map Some ys)\<rparr>"
  proof -
    have "(if k + dq_start_pos dq1 \<ge> dq_capacity dq1 then k + dq_start_pos dq1 - dq_capacity dq1
        else k + dq_start_pos dq1) = ring_index (dq_capacity dq1) (dq_start_pos dq1) k" (is "?p = ?r")
      by (auto simp: ring_index_def)
    moreover have "length ys - (?r + length ys - dq_capacity dq1) = dq_capacity dq1 - ?r"
      if "?r + length ys > dq_capacity dq1"
      using that B ne len by (auto simp: ring_index_def)
    ultimately show ?thesis
      unfolding deque_place_def dq1_def [symmetric] Let_def ring_put_def
      by (simp add: take_map drop_map)
  qed
  have "ring_holds (dq_data (deque_place dq k ys)) (dq_capacity dq1) (dq_start_pos dq1) (write_at zs k ys)"
    using B ne by (simp add: eq, intro ring_overwrite [OF _ len _ _ deque_lay_ring [OF lay]]) auto
  then show ?thesis
    using eq B ne len sz unfolding zs_def [symmetric]
    by (auto simp: deque_rep_def deque_lay_def ring_holds_def buf_simps ring_index_def write_at_def)
qed

lemma peek_front_rep:
  assumes "deque_rep dq xs" and "n \<le> length xs"
  shows "deque_peek_front dq n = map Some (take n xs)"
proof (cases "n = 0")
  case True
  then show ?thesis by (simp add: deque_peek_front_def slice_def)
next
  case False
  have lay: "deque_lay dq xs" using assms(1) by (simp add: deque_rep_def)
  have ne: "xs \<noteq> []" using False assms(2) by auto
  note B = deque_bounds [OF lay]
  show ?thesis
  proof (rule nth_equalityI)
    show "length (deque_peek_front dq n) = length (map Some (take n xs))"
      using B ne assms(2) by (auto simp: deque_peek_front_def Let_def slice_def)
  next
    fix i assume "i < length (deque_peek_front dq n)"
    then have i: "i < n" using B ne assms(2) by (auto simp: deque_peek_front_def Let_def slice_def split: if_splits)
    have "deque_peek_front dq n ! i = dq_data dq ! ring_index (dq_capacity dq) (dq_start_pos dq) i"
      using B ne assms(2) i
      by (auto simp: deque_peek_front_def Let_def ring_index_def nth_append buf_simps
          intro!: arg_cong [where f = "nth (dq_data dq)"])
    then show "deque_peek_front dq n ! i = map Some (take n xs) ! i"
      using ring_holdsD [OF deque_lay_ring [OF lay], of i] i assms(2) by simp
  qed
qed

lemma peek_back_rep:
  assumes "deque_rep dq xs" and "n \<le> length xs"
  shows "deque_peek_back dq n = map Some (drop (length xs - n) xs)"
proof (cases "n = 0")
  case True
  then show ?thesis by (simp add: deque_peek_back_def slice_def)
next
  case False
  have lay: "deque_lay dq xs" using assms(1) by (simp add: deque_rep_def)
  have ne: "xs \<noteq> []" using False assms(2) by auto
  note B = deque_bounds [OF lay]
  have len: "length (deque_peek_back dq n) = n"
    using B ne assms(2) by (auto simp: deque_peek_back_def Let_def slice_def)
  show ?thesis
  proof (rule nth_equalityI)
    show "length (deque_peek_back dq n) = length (map Some (drop (length xs - n) xs))"
      using len assms(2) by simp
  next
    fix i assume "i < length (deque_peek_back dq n)"
    then have i: "i < n" using len by simp
    have "deque_peek_back dq n ! i =
        dq_data dq ! ring_index (dq_capacity dq) (dq_start_pos dq) (length xs - n + i)"
      using B ne assms(2) i
      by (auto simp: deque_peek_back_def Let_def ring_index_def nth_append buf_simps
          intro!: arg_cong [where f = "nth (dq_data dq)"])
    then show "deque_peek_back dq n ! i = map Some (drop (length xs - n) xs) ! i"
      using ring_holdsD [OF deque_lay_ring [OF lay], of "length xs - n + i"] i assms(2) by simp
  qed
qed

lemma pop_front_rep:
  assumes "deque_rep dq xs" and "n \<le> length xs"
  shows "fst (deque_pop_front dq n) = map Some (take n xs)"
    and "deque_rep (snd (deque_pop_front dq n)) (drop n xs)"
proof -
  show "fst (deque_pop_front dq n) = map Some (take n xs)"
    using peek_front_rep [OF assms] by (simp add: deque_pop_front_def Let_def)
  have lay: "deque_lay dq xs" and sz: "dq_size dq = length xs" using assms(1) by (auto simp: deque_rep_def)
  note B = deque_bounds [OF lay]
  show "deque_rep (snd (deque_pop_front dq n)) (drop n xs)"
  proof (cases "n = length xs")
    case True
    then show ?thesis using B sz by (simp add: deque_pop_front_def Let_def deque_rep_def deque_lay_def)
  next
    case False
    then have less: "n < length xs" and ne: "xs \<noteq> []" using assms(2) by auto
    have cell: "dq_data dq ! ring_index (dq_capacity dq)
        (ring_index (dq_capacity dq) (dq_start_pos dq) n) i = Some (xs ! (n + i))" if "i < length xs - n" for i
    proof -
      have "ring_index (dq_capacity dq) (ring_index (dq_capacity dq) (dq_start_pos dq) n) i =
          ring_index (dq_capacity dq) (dq_start_pos dq) (n + i)"
        using B ne that by (auto simp: ring_index_def)
      then show ?thesis using ring_holdsD [OF deque_lay_ring [OF lay], of "n + i"] that by simp
    qed
    have eq: "snd (deque_pop_front dq n) = dq\<lparr>dq_size := dq_size dq - n,
        dq_start_pos := ring_index (dq_capacity dq) (dq_start_pos dq) n\<rparr>"
      using less sz by (auto simp: deque_pop_front_def Let_def ring_index_def)
    show ?thesis
      using B ne less sz cell
      by (auto simp: eq deque_rep_def deque_lay_def) (auto simp: ring_index_def)
  qed
qed

lemma pop_back_rep:
  assumes "deque_rep dq xs" and "n \<le> length xs"
  shows "fst (deque_pop_back dq n) = map Some (drop (length xs - n) xs)"
    and "deque_rep (snd (deque_pop_back dq n)) (take (length xs - n) xs)"
proof -
  show "fst (deque_pop_back dq n) = map Some (drop (length xs - n) xs)"
    using peek_back_rep [OF assms] by (simp add: deque_pop_back_def Let_def)
  have lay: "deque_lay dq xs" and sz: "dq_size dq = length xs" using assms(1) by (auto simp: deque_rep_def)
  note B = deque_bounds [OF lay]
  show "deque_rep (snd (deque_pop_back dq n)) (take (length xs - n) xs)"
  proof (cases "n = length xs")
    case True
    then show ?thesis using B sz by (simp add: deque_pop_back_def Let_def deque_rep_def deque_lay_def)
  next
    case False
    then have less: "n < length xs" and ne: "xs \<noteq> []" using assms(2) by auto
    then show ?thesis
      using B sz ring_holdsD [OF deque_lay_ring [OF lay]]
      by (auto simp: deque_pop_back_def Let_def deque_rep_def deque_lay_def)
  qed
qed

lemma deque_data_rep:
  assumes "deque_rep dq xs"
  shows "deque_data dq i = (if i < length xs then Some (ring_index (dq_capacity dq) (dq_start_pos dq) i) else None)"
    and "i < length xs \<Longrightarrow> dq_data dq ! the (deque_data dq i) = Some (xs ! i)"
  using assms ring_holdsD [OF deque_lay_ring, of dq xs i]
  by (auto simp: deque_rep_def deque_data_def Let_def ring_index_def)

lemma deque_elems_rep: "deque_rep dq xs \<Longrightarrow> deque_elems dq = xs"
  using peek_front_rep [of dq xs "length xs"] by (simp add: deque_elems_def deque_rep_def comp_def)

lemma deque_wf_rep: "deque_wf dq \<longleftrightarrow> (\<exists>xs. deque_rep dq xs)"
  by (auto simp: deque_wf_def deque_elems_rep)

lemma deque_init_rep: "deque_rep deque_init []"
  by (simp add: deque_rep_def deque_lay_def deque_init_def)

section \<open>The queue interface of the clients\<close>

text \<open>What a client that keeps packets in a queue relies on.\<close>

fun drain :: "('q \<Rightarrow> nat \<Rightarrow> 'a option list \<times> 'q) \<Rightarrow> nat \<Rightarrow> 'q \<Rightarrow> 'a option list \<times> 'q" where
  "drain pop 0 q = ([], q)"
| "drain pop (Suc n) q =
     (let (x, q1) = pop q 1; (xs, q2) = drain pop n q1 in (x @ xs, q2))"

locale fifo =
  fixes wf :: "'q \<Rightarrow> bool"
    and elems :: "'q \<Rightarrow> 'a list"
    and push :: "'q \<Rightarrow> 'a list \<Rightarrow> 'q"
    and pop :: "'q \<Rightarrow> nat \<Rightarrow> 'a option list \<times> 'q"
    and get :: "'q \<Rightarrow> nat \<Rightarrow> 'a option"
    and count :: "'q \<Rightarrow> nat"
  assumes push_wf: "wf q \<Longrightarrow> wf (push q ys)"
    and push_elems: "wf q \<Longrightarrow> elems (push q ys) = elems q @ ys"
    and pop_wf: "wf q \<Longrightarrow> n \<le> length (elems q) \<Longrightarrow> wf (snd (pop q n))"
    and pop_out: "wf q \<Longrightarrow> n \<le> length (elems q) \<Longrightarrow> fst (pop q n) = map Some (take n (elems q))"
    and pop_elems: "wf q \<Longrightarrow> n \<le> length (elems q) \<Longrightarrow> elems (snd (pop q n)) = drop n (elems q)"
    and get_nth: "wf q \<Longrightarrow> i < length (elems q) \<Longrightarrow> get q i = Some (elems q ! i)"
    and count_elems: "wf q \<Longrightarrow> count q = length (elems q)"
begin

lemma push_all: "wf q \<Longrightarrow> wf (fold (\<lambda>x q. push q [x]) xs q) \<and> elems (fold (\<lambda>x q. push q [x]) xs q) = elems q @ xs"
  by (induction xs arbitrary: q) (auto simp: push_wf push_elems)

lemma drain_take:
  assumes "wf q" and "n \<le> length (elems q)"
  shows "fst (drain pop n q) = map Some (take n (elems q))"
    and "wf (snd (drain pop n q))" and "elems (snd (drain pop n q)) = drop n (elems q)"
proof -
  have "fst (drain pop n q) = map Some (take n (elems q)) \<and> wf (snd (drain pop n q)) \<and>
      elems (snd (drain pop n q)) = drop n (elems q)"
    using assms
  proof (induction n arbitrary: q)
    case 0
    then show ?case by simp
  next
    case (Suc n)
    have le: "1 \<le> length (elems q)" using Suc.prems by simp
    note P = pop_wf [OF Suc.prems(1) le] pop_out [OF Suc.prems(1) le] pop_elems [OF Suc.prems(1) le]
    have "n \<le> length (elems (snd (pop q 1)))" using P(3) Suc.prems by simp
    from Suc.IH [OF P(1) this] P show ?case
      by (cases "elems q") (auto simp: split_beta Let_def)
  qed
  then show "fst (drain pop n q) = map Some (take n (elems q))"
    and "wf (snd (drain pop n q))" and "elems (snd (drain pop n q)) = drop n (elems q)" by auto
qed

lemma pop_after_push:
  "wf q \<Longrightarrow> n \<le> length (elems q) \<Longrightarrow> fst (pop (push q ys) n) = fst (pop q n)"
  by (simp add: pop_out push_wf push_elems)

end

definition deque_get :: "'a deque \<Rightarrow> nat \<Rightarrow> 'a option" where
  "deque_get dq i = (case deque_data dq i of None \<Rightarrow> None | Some off \<Rightarrow> dq_data dq ! off)"

lemma deque_get_rep: "deque_rep dq xs \<Longrightarrow> deque_get dq i = (if i < length xs then Some (xs ! i) else None)"
  using deque_data_rep [of dq xs i] by (simp add: deque_get_def)

interpretation dqf: fifo deque_wf deque_elems deque_push_back deque_pop_front deque_get dq_size
proof unfold_locales
  fix dq :: "'a deque" and ys :: "'a list"
  assume "deque_wf dq"
  then have "deque_rep (deque_push_back dq ys) (deque_elems dq @ ys)"
    unfolding deque_wf_def by (rule push_back_rep)
  then show "deque_wf (deque_push_back dq ys)" "deque_elems (deque_push_back dq ys) = deque_elems dq @ ys"
    by (auto simp: deque_wf_rep deque_elems_rep)
next
  fix dq :: "'a deque" and n
  assume wf: "deque_wf dq" and n: "n \<le> length (deque_elems dq)"
  note P = pop_front_rep [OF wf [unfolded deque_wf_def] n]
  show "deque_wf (snd (deque_pop_front dq n))" "fst (deque_pop_front dq n) = map Some (take n (deque_elems dq))"
    "deque_elems (snd (deque_pop_front dq n)) = drop n (deque_elems dq)"
    using P by (auto simp: deque_wf_rep deque_elems_rep)
qed (auto simp: deque_wf_def deque_get_rep deque_rep_def)

section \<open>Runs of arbitrary operations\<close>

datatype 'a deque_op = PushBack "'a list" | PushFront "'a list" | PopFront nat | PopBack nat
  | PushBackZero nat | PushFrontZero nat | Upsize nat | Place nat "'a list" | Reserve nat | PeekFront nat | PeekBack nat

fun deque_step :: "'a::zero deque_op \<Rightarrow> 'a deque \<Rightarrow> 'a option list \<times> 'a deque" where
  "deque_step (PushBack xs) dq = ([], deque_push_back dq xs)"
| "deque_step (PushFront xs) dq = ([], deque_push_front dq xs)"
| "deque_step (PopFront n) dq = deque_pop_front dq n"
| "deque_step (PopBack n) dq = deque_pop_back dq n"
| "deque_step (PushBackZero n) dq = ([], deque_push_back_zero dq n)"
| "deque_step (PushFrontZero n) dq = ([], deque_push_front_zero dq n)"
| "deque_step (Upsize n) dq = ([], deque_upsize dq n)"
| "deque_step (Place k xs) dq = ([], deque_place dq k xs)"
| "deque_step (Reserve n) dq = ([], deque_reserve dq n)"
| "deque_step (PeekFront n) dq = (deque_peek_front dq n, dq)"
| "deque_step (PeekBack n) dq = (deque_peek_back dq n, dq)"

text \<open>The specification: the same operations on a list.\<close>

fun list_step :: "'a::zero deque_op \<Rightarrow> 'a list \<Rightarrow> 'a list \<times> 'a list" where
  "list_step (PushBack ys) xs = ([], xs @ ys)"
| "list_step (PushFront ys) xs = ([], ys @ xs)"
| "list_step (PopFront n) xs = (take n xs, drop n xs)"
| "list_step (PopBack n) xs = (drop (length xs - n) xs, take (length xs - n) xs)"
| "list_step (PushBackZero n) xs = ([], xs @ replicate n 0)"
| "list_step (PushFrontZero n) xs = ([], replicate n 0 @ xs)"
| "list_step (Upsize n) xs = ([], xs @ replicate (n - length xs) 0)"
| "list_step (Place k ys) xs = ([], write_at (xs @ replicate (k + length ys - length xs) 0) k ys)"
| "list_step (Reserve n) xs = ([], xs)"
| "list_step (PeekFront n) xs = (take n xs, xs)"
| "list_step (PeekBack n) xs = (drop (length xs - n) xs, xs)"

text \<open>The callers' obligation: the \<open>assert\<close>s of the source, and a non-empty placement.\<close>

fun op_pre :: "'a deque_op \<Rightarrow> nat \<Rightarrow> bool" where
  "op_pre (PopFront n) k = (n \<le> k)"
| "op_pre (PopBack n) k = (n \<le> k)"
| "op_pre (PeekFront n) k = (n \<le> k)"
| "op_pre (PeekBack n) k = (n \<le> k)"
| "op_pre (Place _ xs) k = (xs \<noteq> [])"
| "op_pre _ k = True"

fun deque_run :: "'a::zero deque_op list \<Rightarrow> 'a deque \<Rightarrow> 'a option list list \<times> 'a deque" where
  "deque_run [] dq = ([], dq)"
| "deque_run (p # ps) dq =
     (let (out, dq1) = deque_step p dq; (outs, dq2) = deque_run ps dq1 in (out # outs, dq2))"

fun list_run :: "'a::zero deque_op list \<Rightarrow> 'a list \<Rightarrow> 'a list list \<times> 'a list" where
  "list_run [] xs = ([], xs)"
| "list_run (p # ps) xs =
     (let (out, xs1) = list_step p xs; (outs, xs2) = list_run ps xs1 in (out # outs, xs2))"

fun run_pre :: "'a::zero deque_op list \<Rightarrow> 'a list \<Rightarrow> bool" where
  "run_pre [] xs = True"
| "run_pre (p # ps) xs = (op_pre p (length xs) \<and> run_pre ps (snd (list_step p xs)))"

lemma deque_step_refines:
  assumes "deque_rep dq xs" and "op_pre p (length xs)"
  shows "fst (deque_step p dq) = map Some (fst (list_step p xs))"
    and "deque_rep (snd (deque_step p dq)) (snd (list_step p xs))"
  using assms
  by (cases p; simp add: push_back_rep push_front_rep pop_front_rep pop_back_rep push_back_zero_eq
      push_front_zero_eq upsize_rep place_rep deque_reserve_rep peek_front_rep peek_back_rep)+

lemma deque_run_refines:
  assumes "deque_rep dq xs" and "run_pre ps xs"
  shows "fst (deque_run ps dq) = map (map Some) (fst (list_run ps xs)) \<and>
    deque_rep (snd (deque_run ps dq)) (snd (list_run ps xs))"
  using assms
proof (induction ps arbitrary: dq xs)
  case Nil
  then show ?case by simp
next
  case (Cons p ps)
  then show ?case
    using deque_step_refines [of dq xs p] Cons.IH [of "snd (deque_step p dq)" "snd (list_step p xs)"]
    by (auto simp: split_beta Let_def)
qed

text \<open>
  C1. The ring buffer is a list: from an empty queue, any sequence of pushes, zero-filling
  pushes, resizes, placements, reservations, peeks and pops that never takes more than the
  queue holds reads exactly what the same operations on a list read (so never uninitialised
  memory), and leaves a well-formed queue holding exactly the list's elements, however often
  the buffer wrapped or was reallocated in between.
\<close>

theorem deque_refines_list:
  assumes "run_pre ps []"
  shows "fst (deque_run ps deque_init) = map (map Some) (fst (list_run ps [])) \<and>
    deque_wf (snd (deque_run ps deque_init)) \<and>
    deque_elems (snd (deque_run ps deque_init)) = snd (list_run ps [])"
  using deque_run_refines [OF deque_init_rep assms] by (auto simp: deque_wf_rep deque_elems_rep)

theorem deque_refines_list_witness:
  "fst (deque_run [PushBack [1, 2, 3], PopFront 2, PushBack [4, 5], PushFront [6, 7 :: nat], PopBack 2] deque_init)
     = [[], [Some 1, Some 2], [], [], [Some 4, Some 5]] \<and>
   deque_wf (snd (deque_run [PushBack [1, 2, 3], PopFront 2, PushBack [4, 5], PushFront [6, 7 :: nat], PopBack 2] deque_init))"
  using deque_refines_list [of "[PushBack [1, 2, 3], PopFront 2, PushBack [4, 5], PushFront [6, 7 :: nat], PopBack 2]"]
  by simp

end
