(* ===== verification/Serializer.thy ===== *)
theory Serializer
  imports Prelude
begin

text \<open>
  The serializer interface of \<open>libobs/util/serializer.h\<close>, a record of function pointers
  over some private data, with its formatted writers, and two implementations: the growing
  byte array of \<open>libobs/util/array-serializer.c\<close> and the plain file of
  \<open>libobs/util/file-serializer.c\<close>.  Code that writes through a serializer is a program of
  the state monad over the record, polymorphic in the private data, as the C code is.

  The interface \<open>output_serializer\<close> states what a writer relies on: a content, a
  cursor, and laws for write, seek and position.  Its predicate \<open>emits\<close> says that a program
  stores a given byte string at the cursor, whatever the implementation.
\<close>

section \<open>The interface record\<close>

datatype serialize_seek_type = SERIALIZE_SEEK_START | SERIALIZE_SEEK_CURRENT | SERIALIZE_SEEK_END

record 's serializer =
  ser_data :: 's
  ser_read :: "('s \<Rightarrow> nat \<Rightarrow> byte list \<times> 's) option"
  ser_write :: "('s \<Rightarrow> byte list \<Rightarrow> nat \<times> 's) option"
  ser_seek :: "('s \<Rightarrow> int \<Rightarrow> serialize_seek_type \<Rightarrow> int \<times> 's) option"
  ser_get_pos :: "('s \<Rightarrow> int) option"

definition s_read :: "nat \<Rightarrow> ('s serializer, byte list) state" where
  "s_read n = State (\<lambda>s. case ser_read s of
      None \<Rightarrow> ([], s)
    | Some rd \<Rightarrow> if n = 0 then ([], s) else (let (bs, d) = rd (ser_data s) n in (bs, s\<lparr>ser_data := d\<rparr>)))"

definition s_write :: "byte list \<Rightarrow> ('s serializer, nat) state" where
  "s_write bs = State (\<lambda>s. case ser_write s of
      None \<Rightarrow> (0, s)
    | Some wr \<Rightarrow> if bs = [] then (0, s) else (let (n, d) = wr (ser_data s) bs in (n, s\<lparr>ser_data := d\<rparr>)))"

definition serialize :: "byte list \<Rightarrow> ('s serializer, nat) state" where
  "serialize bs = State (\<lambda>s. case ser_write s of
      Some wr \<Rightarrow> (let (n, d) = wr (ser_data s) bs in (n, s\<lparr>ser_data := d\<rparr>))
    | None \<Rightarrow> (case ser_read s of
        None \<Rightarrow> (0, s)
      | Some rd \<Rightarrow> (let (out, d) = rd (ser_data s) (length bs) in (length out, s\<lparr>ser_data := d\<rparr>))))"

definition serializer_seek :: "int \<Rightarrow> serialize_seek_type \<Rightarrow> ('s serializer, int) state" where
  "serializer_seek off st = State (\<lambda>s. case ser_seek s of
      None \<Rightarrow> (-1, s)
    | Some sk \<Rightarrow> (let (r, d) = sk (ser_data s) off st in (r, s\<lparr>ser_data := d\<rparr>)))"

definition serializer_get_pos :: "('s serializer, int) state" where
  "serializer_get_pos = State (\<lambda>s. case ser_get_pos s of None \<Rightarrow> (-1, s) | Some gp \<Rightarrow> (gp (ser_data s), s))"

text \<open>The formatted writers, in the source's order of calls.\<close>

definition s_w8 :: "u8 \<Rightarrow> ('s serializer, unit) state" where
  "s_w8 w = do { s_write [w]; State_Monad.return () }"

definition s_wl16 :: "u16 \<Rightarrow> ('s serializer, unit) state" where
  "s_wl16 w = do { s_w8 (ucast w); s_w8 (ucast (drop_bit 8 w)) }"

definition s_wl24 :: "u32 \<Rightarrow> ('s serializer, unit) state" where
  "s_wl24 w = do { s_w8 (ucast w); s_wl16 (ucast (drop_bit 8 w)) }"

definition s_wl32 :: "u32 \<Rightarrow> ('s serializer, unit) state" where
  "s_wl32 w = do { s_wl16 (ucast w); s_wl16 (ucast (drop_bit 16 w)) }"

definition s_wl64 :: "u64 \<Rightarrow> ('s serializer, unit) state" where
  "s_wl64 w = do { s_wl32 (ucast w); s_wl32 (ucast (drop_bit 32 w)) }"

definition s_wb16 :: "u16 \<Rightarrow> ('s serializer, unit) state" where
  "s_wb16 w = do { s_w8 (ucast (drop_bit 8 w)); s_w8 (ucast w) }"

definition s_wb24 :: "u32 \<Rightarrow> ('s serializer, unit) state" where
  "s_wb24 w = do { s_wb16 (ucast (drop_bit 8 w)); s_w8 (ucast w) }"

definition s_wb32 :: "u32 \<Rightarrow> ('s serializer, unit) state" where
  "s_wb32 w = do { s_wb16 (ucast (drop_bit 16 w)); s_wb16 (ucast w) }"

definition s_wb64 :: "u64 \<Rightarrow> ('s serializer, unit) state" where
  "s_wb64 w = do { s_wb32 (ucast (drop_bit 32 w)); s_wb32 (ucast w) }"

section \<open>Array output\<close>

record array_output_data =
  ao_bytes :: "byte list"
  ao_cur_pos :: nat

definition array_output_write :: "array_output_data \<Rightarrow> byte list \<Rightarrow> nat \<times> array_output_data" where
  "array_output_write out d =
    (if ao_cur_pos out < length (ao_bytes out) then
       (length d, out\<lparr>ao_bytes := write_at (ao_bytes out) (ao_cur_pos out) d,
                      ao_cur_pos := ao_cur_pos out + length d\<rparr>)
     else (length d, out\<lparr>ao_bytes := ao_bytes out @ d, ao_cur_pos := ao_cur_pos out + length d\<rparr>))"

definition array_output_get_pos :: "array_output_data \<Rightarrow> int" where
  "array_output_get_pos out = int (length (ao_bytes out))"

text \<open>
  The position is computed in \<open>size_t\<close>: a negative one wraps to a value above the number of
  bytes and is refused, as one past the end is.  With positions as integers this is one
  test; \<open>array_output_seek_size_t\<close> shows it is the wrapped one for every offset of 64 bits.
\<close>

definition array_output_seek ::
  "array_output_data \<Rightarrow> int \<Rightarrow> serialize_seek_type \<Rightarrow> int \<times> array_output_data" where
  "array_output_seek out offset seek_type =
    (let new_pos = (case seek_type of
            SERIALIZE_SEEK_START \<Rightarrow> offset
          | SERIALIZE_SEEK_CURRENT \<Rightarrow> int (ao_cur_pos out) + offset
          | SERIALIZE_SEEK_END \<Rightarrow> int (length (ao_bytes out)) - offset)
     in if new_pos < 0 \<or> new_pos > int (length (ao_bytes out)) then (-1, out)
        else (new_pos, out\<lparr>ao_cur_pos := nat new_pos\<rparr>))"

definition array_output_serializer_init :: "array_output_data serializer" where
  "array_output_serializer_init =
    \<lparr>ser_data = \<lparr>ao_bytes = [], ao_cur_pos = 0\<rparr>, ser_read = None, ser_write = Some array_output_write,
     ser_seek = Some array_output_seek, ser_get_pos = Some array_output_get_pos\<rparr>"

definition array_output_serializer_free :: "array_output_data \<Rightarrow> array_output_data" where
  "array_output_serializer_free out = out\<lparr>ao_bytes := []\<rparr>"

definition array_output_serializer_reset :: "array_output_data \<Rightarrow> array_output_data" where
  "array_output_serializer_reset out = out\<lparr>ao_bytes := [], ao_cur_pos := 0\<rparr>"

section \<open>File output\<close>

text \<open>
  An open \<open>FILE\<close> of the C library: its bytes and its position.  A write past the end leaves
  a gap of zero bytes; a seek before the start fails.  Writes that the operating system
  refuses are not part of the model.
\<close>

record c_file =
  f_bytes :: "byte list"
  f_pos :: nat

definition fwrite :: "c_file \<Rightarrow> byte list \<Rightarrow> nat \<times> c_file" where
  "fwrite f d =
    (if d = [] then (0, f)
     else (length d, f\<lparr>f_bytes := write_at (f_bytes f @ replicate (f_pos f - length (f_bytes f)) 0) (f_pos f) d,
                       f_pos := f_pos f + length d\<rparr>))"

definition os_fseeki64 :: "c_file \<Rightarrow> int \<Rightarrow> serialize_seek_type \<Rightarrow> int \<times> c_file" where
  "os_fseeki64 f offset origin =
    (let target = (case origin of
            SERIALIZE_SEEK_START \<Rightarrow> offset
          | SERIALIZE_SEEK_CURRENT \<Rightarrow> int (f_pos f) + offset
          | SERIALIZE_SEEK_END \<Rightarrow> int (length (f_bytes f)) + offset)
     in if target < 0 then (-1, f) else (0, f\<lparr>f_pos := nat target\<rparr>))"

definition os_ftelli64 :: "c_file \<Rightarrow> int" where
  "os_ftelli64 f = int (f_pos f)"

record file_output_data =
  fo_file :: c_file
  fo_temp_name :: "string option"
  fo_file_name :: "string option"

definition file_output_write :: "file_output_data \<Rightarrow> byte list \<Rightarrow> nat \<times> file_output_data" where
  "file_output_write out d = (let (n, f) = fwrite (fo_file out) d in (n, out\<lparr>fo_file := f\<rparr>))"

definition file_output_seek ::
  "file_output_data \<Rightarrow> int \<Rightarrow> serialize_seek_type \<Rightarrow> int \<times> file_output_data" where
  "file_output_seek out offset seek_type =
    (let (r, f) = os_fseeki64 (fo_file out) offset seek_type
     in if r = -1 then (-1, out\<lparr>fo_file := f\<rparr>) else (os_ftelli64 f, out\<lparr>fo_file := f\<rparr>))"

definition file_output_get_pos :: "file_output_data \<Rightarrow> int" where
  "file_output_get_pos out = os_ftelli64 (fo_file out)"

text \<open>
  The file system a serializer is opened on: file names to contents.  \<open>can_open\<close> says for
  which names \<open>os_fopen(.., "wb")\<close> succeeds; an opened file is truncated.
\<close>

type_synonym file_system = "string \<rightharpoonup> byte list"

definition file_output_serializer_init ::
  "(string \<Rightarrow> bool) \<Rightarrow> string \<Rightarrow> file_system \<Rightarrow> file_output_data serializer option \<times> file_system" where
  "file_output_serializer_init can_open path fs =
    (if \<not> can_open path then (None, fs)
     else (Some \<lparr>ser_data = \<lparr>fo_file = \<lparr>f_bytes = [], f_pos = 0\<rparr>, fo_temp_name = None, fo_file_name = None\<rparr>,
                 ser_read = None, ser_write = Some file_output_write,
                 ser_seek = Some file_output_seek, ser_get_pos = Some file_output_get_pos\<rparr>,
           fs(path \<mapsto> [])))"

definition file_output_serializer_init_safe ::
  "(string \<Rightarrow> bool) \<Rightarrow> string \<Rightarrow> string \<Rightarrow> file_system \<Rightarrow> file_output_data serializer option \<times> file_system" where
  "file_output_serializer_init_safe can_open path temp_ext fs =
    (if temp_ext = [] then (None, fs)
     else
       (let temp_name = path @ (if hd temp_ext \<noteq> CHR ''.'' then ''.'' else []) @ temp_ext
        in if \<not> can_open temp_name then (None, fs)
           else (Some \<lparr>ser_data = \<lparr>fo_file = \<lparr>f_bytes = [], f_pos = 0\<rparr>,
                                   fo_temp_name = Some temp_name, fo_file_name = Some path\<rparr>,
                       ser_read = None, ser_write = Some file_output_write,
                       ser_seek = Some file_output_seek, ser_get_pos = Some file_output_get_pos\<rparr>,
                 fs(temp_name \<mapsto> []))))"

text \<open>
  Closing: the stream's bytes reach the file it was opened on (\<open>open_name\<close>, which the C
  \<open>FILE\<close> keeps), and a temporary file is moved over the target.
\<close>

definition file_output_serializer_free ::
  "string \<Rightarrow> file_output_data serializer \<Rightarrow> file_system \<Rightarrow> file_system" where
  "file_output_serializer_free open_name s fs =
    (let out = ser_data s;
         fs1 = fs(open_name \<mapsto> f_bytes (fo_file out))
     in case fo_temp_name out of
          None \<Rightarrow> fs1
        | Some tmp \<Rightarrow>
            (case fo_file_name out of
               None \<Rightarrow> fs1
             | Some path \<Rightarrow> (let fs2 = fs1(path := None) in fs2(path := fs2 tmp, tmp := None))))"

section \<open>What a writer relies on\<close>

lemma run_s_write_Nil [simp]: "run_state (s_write []) s = (0, s)"
  by (simp add: s_write_def split: option.split)

locale output_serializer =
  fixes valid :: "'s serializer \<Rightarrow> bool"
    and content :: "'s serializer \<Rightarrow> byte list"
    and cursor :: "'s serializer \<Rightarrow> nat"
    and settled :: "nat \<Rightarrow> nat \<Rightarrow> bool"
  assumes write_law: "valid s \<Longrightarrow> cursor s \<le> length (content s) \<Longrightarrow> d \<noteq> [] \<Longrightarrow>
      \<exists>s'. run_state (s_write d) s = (length d, s') \<and> valid s' \<and>
        content s' = write_at (content s) (cursor s) d \<and> cursor s' = cursor s + length d"
    and seek_law: "valid s \<Longrightarrow> p \<le> length (content s) \<Longrightarrow>
      \<exists>s'. run_state (serializer_seek (int p) SERIALIZE_SEEK_START) s = (int p, s') \<and> valid s' \<and>
        content s' = content s \<and> cursor s' = p"
    and get_pos_law: "valid s \<Longrightarrow> settled (length (content s)) (cursor s) \<Longrightarrow>
      run_state serializer_get_pos s = (int (cursor s), s)"
    and settled_le: "settled n c \<Longrightarrow> c \<le> n"
    and settled_write: "settled n c \<Longrightarrow> settled (max n (c + k)) (c + k)"
begin

text \<open>
  \<open>ready\<close>: the reported position is the cursor.  \<open>stored s bs s'\<close>: \<open>s'\<close> is \<open>s\<close> with
  \<open>bs\<close> written at the cursor.
\<close>

definition ready :: "'s serializer \<Rightarrow> bool" where
  "ready s \<longleftrightarrow> valid s \<and> settled (length (content s)) (cursor s)"

definition stored :: "'s serializer \<Rightarrow> byte list \<Rightarrow> 's serializer \<Rightarrow> bool" where
  "stored s bs s' \<longleftrightarrow> ready s' \<and> content s' = write_at (content s) (cursor s) bs \<and>
     cursor s' = cursor s + length bs"

definition emits :: "('s serializer, 'a) state \<Rightarrow> byte list \<Rightarrow> 'a \<Rightarrow> bool" where
  "emits m bs r \<longleftrightarrow> (\<forall>s. ready s \<longrightarrow>
     (\<exists>s'. run_state m s = (r, s') \<and> stored s bs s'))"

lemma ready_le: "ready s \<Longrightarrow> cursor s \<le> length (content s)"
  by (auto simp: ready_def intro: settled_le)

lemma storedI:
  assumes "ready s" "valid s'" "content s' = write_at (content s) (cursor s) bs"
    "cursor s' = cursor s + length bs"
  shows "stored s bs s'"
  using assms settled_write [of "length (content s)" "cursor s" "length bs"] ready_le [OF assms(1)]
  by (simp add: stored_def ready_def length_write_at)

lemma stored_trans:
  assumes "ready s" "stored s as s1" "stored s1 bs s2"
  shows "stored s (as @ bs) s2"
  using assms ready_le [OF assms(1)] by (simp add: stored_def write_at_append)

lemma emitsD:
  assumes "emits m bs r" "ready s"
  obtains s' where "run_state m s = (r, s')" "stored s bs s'"
  using assms unfolding emits_def by blast

lemma emits_return [emit_intros]: "emits (State_Monad.return r) [] r"
  by (simp add: emits_def stored_def)

lemma emits_bind [emit_intros]:
  assumes "emits m as a" and "emits (f a) bs b"
  shows "emits (m \<bind> f) (as @ bs) b"
  unfolding emits_def
proof (intro allI impI)
  fix s assume s: "ready s"
  obtain s1 where 1: "run_state m s = (a, s1)" "stored s as s1"
    using emitsD [OF assms(1)] s by force
  have "ready s1" using 1(2) s by (auto simp: stored_def)
  with emitsD [OF assms(2)] obtain s2 where "run_state (f a) s1 = (b, s2)" "stored s1 bs s2"
    by blast
  then show "\<exists>s'. run_state (m \<bind> f) s = (b, s') \<and> stored s (as @ bs) s'"
    using 1 stored_trans s by auto
qed

lemma emits_s_write [emit_intros]: "emits (s_write d) d (length d)"
proof (cases "d = []")
  case True
  then show ?thesis by (simp add: emits_def stored_def)
next
  case False
  then show ?thesis
    unfolding emits_def using write_law ready_le ready_def by (blast intro: storedI)
qed

lemma emits_cong: "emits m as a \<Longrightarrow> as = bs \<Longrightarrow> a = b \<Longrightarrow> emits m bs b"
  by simp

lemma emits_then: "emits m as a \<Longrightarrow> emits n bs b \<Longrightarrow> emits (m \<bind> (\<lambda>_. n)) (as @ bs) b"
  by (rule emits_bind)

lemma emits_s_w8 [emit_intros]: "emits (s_w8 w) [w] ()"
  using emits_bind [OF emits_s_write emits_return] unfolding s_w8_def by fastforce

lemma emits_s_wb16 [emit_intros]: "emits (s_wb16 w) (be16 w) ()"
  unfolding s_wb16_def be16_def by (rule emits_cong [OF emits_then [OF emits_s_w8 emits_s_w8]]) simp_all

lemma emits_s_wb24 [emit_intros]: "emits (s_wb24 w) (be24 w) ()"
  unfolding s_wb24_def be24_def by (rule emits_then [OF emits_s_wb16 emits_s_w8])

lemma emits_s_wb32 [emit_intros]: "emits (s_wb32 w) (be32 w) ()"
  unfolding s_wb32_def be32_def by (rule emits_then [OF emits_s_wb16 emits_s_wb16])

lemma emits_s_wb64 [emit_intros]: "emits (s_wb64 w) (be64 w) ()"
  unfolding s_wb64_def be64_def by (rule emits_then [OF emits_s_wb32 emits_s_wb32])

lemma emits_s_wl16 [emit_intros]: "emits (s_wl16 w) (le16 w) ()"
  unfolding s_wl16_def le16_def by (rule emits_cong [OF emits_then [OF emits_s_w8 emits_s_w8]]) simp_all

lemma emits_s_wl24 [emit_intros]: "emits (s_wl24 w) (le24 w) ()"
  unfolding s_wl24_def le24_def by (rule emits_cong [OF emits_then [OF emits_s_w8 emits_s_wl16]]) simp_all

lemma emits_s_wl32 [emit_intros]: "emits (s_wl32 w) (le32 w) ()"
  unfolding s_wl32_def le32_def by (rule emits_then [OF emits_s_wl16 emits_s_wl16])

lemma emits_s_wl64 [emit_intros]: "emits (s_wl64 w) (le64 w) ()"
  unfolding s_wl64_def le64_def by (rule emits_then [OF emits_s_wl32 emits_s_wl32])

lemma emits_if [emit_intros]:
  "(b \<Longrightarrow> emits m as x) \<Longrightarrow> (\<not> b \<Longrightarrow> emits n bs y) \<Longrightarrow>
    emits (if b then m else n) (if b then as else bs) (if b then x else y)"
  by simp

lemma emits_for_each [emit_intros]:
  "(\<And>x. x \<in> set xs \<Longrightarrow> emits (f x) (g x) ()) \<Longrightarrow> emits (for_each f xs) (concat (map g xs)) ()"
  by (induction xs) (auto intro!: emit_intros)

end

section \<open>The two implementations keep the contract\<close>

definition array_valid :: "array_output_data serializer \<Rightarrow> bool" where
  "array_valid s \<longleftrightarrow> ser_write s = Some array_output_write \<and> ser_seek s = Some array_output_seek \<and>
     ser_get_pos s = Some array_output_get_pos"

definition array_content :: "array_output_data serializer \<Rightarrow> byte list" where
  "array_content s = ao_bytes (ser_data s)"

definition array_cursor :: "array_output_data serializer \<Rightarrow> nat" where
  "array_cursor s = ao_cur_pos (ser_data s)"

interpretation arr: output_serializer array_valid array_content array_cursor "\<lambda>n c. c = n"
proof unfold_locales
  fix s and d :: "byte list"
  assume "array_valid s" "array_cursor s \<le> length (array_content s)" "d \<noteq> []"
  then show "\<exists>s'. run_state (s_write d) s = (length d, s') \<and> array_valid s' \<and>
      array_content s' = write_at (array_content s) (array_cursor s) d \<and> array_cursor s' = array_cursor s + length d"
    by (auto simp: s_write_def array_valid_def array_content_def array_cursor_def array_output_write_def)
next
  fix s p
  assume "array_valid s" "p \<le> length (array_content s)"
  then show "\<exists>s'. run_state (serializer_seek (int p) SERIALIZE_SEEK_START) s = (int p, s') \<and>
      array_valid s' \<and> array_content s' = array_content s \<and> array_cursor s' = p"
    by (auto simp: serializer_seek_def array_valid_def array_content_def array_cursor_def
        array_output_seek_def Let_def)
qed (auto simp: serializer_get_pos_def array_valid_def array_content_def array_cursor_def
      array_output_get_pos_def)

lemma array_output_seek_size_t:
  assumes "length (ao_bytes out) < 2 ^ 63" and "ao_cur_pos out \<le> length (ao_bytes out)"
    and "- (2 ^ 63) \<le> offset" and "offset < 2 ^ 63"
  shows "array_output_seek out offset seek_type =
    (let new_pos = nat ((case seek_type of
            SERIALIZE_SEEK_START \<Rightarrow> offset
          | SERIALIZE_SEEK_CURRENT \<Rightarrow> int (ao_cur_pos out) + offset
          | SERIALIZE_SEEK_END \<Rightarrow> int (length (ao_bytes out)) - offset) mod 2 ^ 64)
     in if new_pos > length (ao_bytes out) then (-1, out)
        else (int new_pos, out\<lparr>ao_cur_pos := new_pos\<rparr>))"
proof -
  have wrap: "(if x < 0 \<or> x > int n then (-1, out) else (x, out\<lparr>ao_cur_pos := nat x\<rparr>)) =
      (let y = nat (x mod 2 ^ 64) in if y > n then (-1, out) else (int y, out\<lparr>ao_cur_pos := y\<rparr>))"
    if x: "- (2 ^ 63) \<le> x" "x < 2 ^ 64" and n: "n < 2 ^ 63" for x :: int and n :: nat
  proof (cases "x < 0")
    case True
    have "x mod 2 ^ 64 = (x + 2 ^ 64) mod 2 ^ 64" by simp
    also have "\<dots> = x + 2 ^ 64" using x True by (intro mod_pos_pos_trivial) simp_all
    finally show ?thesis using True x n by (simp add: Let_def nat_less_iff zless_nat_eq_int_zless)
  next
    case False
    then have "x mod 2 ^ 64 = x" using x by (intro mod_pos_pos_trivial) simp_all
    then show ?thesis using False by (auto simp: Let_def)
  qed
  have "int (length (ao_bytes out)) < 2 ^ 63" using assms(1) by simp
  then show ?thesis
    unfolding array_output_seek_def Let_def [of "case seek_type of SERIALIZE_SEEK_START \<Rightarrow> offset
          | SERIALIZE_SEEK_CURRENT \<Rightarrow> int (ao_cur_pos out) + offset
          | SERIALIZE_SEEK_END \<Rightarrow> int (length (ao_bytes out)) - offset"]
    using assms by (intro wrap) (simp_all split: serialize_seek_type.split)
qed

definition file_valid :: "file_output_data serializer \<Rightarrow> bool" where
  "file_valid s \<longleftrightarrow> ser_write s = Some file_output_write \<and> ser_seek s = Some file_output_seek \<and>
     ser_get_pos s = Some file_output_get_pos"

definition file_content :: "file_output_data serializer \<Rightarrow> byte list" where
  "file_content s = f_bytes (fo_file (ser_data s))"

definition file_cursor :: "file_output_data serializer \<Rightarrow> nat" where
  "file_cursor s = f_pos (fo_file (ser_data s))"

interpretation fil: output_serializer file_valid file_content file_cursor "\<lambda>n c. c \<le> n"
proof unfold_locales
  fix s and d :: "byte list"
  assume "file_valid s" "file_cursor s \<le> length (file_content s)" "d \<noteq> []"
  then show "\<exists>s'. run_state (s_write d) s = (length d, s') \<and> file_valid s' \<and>
      file_content s' = write_at (file_content s) (file_cursor s) d \<and> file_cursor s' = file_cursor s + length d"
    by (auto simp: s_write_def file_valid_def file_content_def file_cursor_def file_output_write_def
        fwrite_def)
next
  fix s p
  assume "file_valid s" "p \<le> length (file_content s)"
  then show "\<exists>s'. run_state (serializer_seek (int p) SERIALIZE_SEEK_START) s = (int p, s') \<and>
      file_valid s' \<and> file_content s' = file_content s \<and> file_cursor s' = p"
    by (auto simp: serializer_seek_def file_valid_def file_content_def file_cursor_def
        file_output_seek_def os_fseeki64_def os_ftelli64_def Let_def)
qed (auto simp: serializer_get_pos_def file_valid_def file_content_def file_cursor_def
      file_output_get_pos_def os_ftelli64_def)

end
