(* ===== verification/Encoder.thy ===== *)
theory Encoder
  imports Prelude
begin

text \<open>
  What the muxers see of encoders and encoded packets: the enumerations of
  \<open>media-io/audio-io.h\<close>, \<open>media-io/video-io.h\<close> and \<open>obs-encoder.h\<close>, the encoder object
  with the query functions of \<open>libobs/obs-encoder.c\<close>, the packet structure, and the 64-bit
  multiply-and-divide of \<open>util/util_uint64.h\<close>.  An encoder reference that may be
  \<open>NULL\<close> is an \<open>option\<close>.
\<close>

section \<open>Enumerations and media information\<close>

datatype obs_encoder_type = OBS_ENCODER_AUDIO | OBS_ENCODER_VIDEO

datatype speaker_layout = SPEAKERS_UNKNOWN | SPEAKERS_MONO | SPEAKERS_STEREO | SPEAKERS_2POINT1
  | SPEAKERS_4POINT0 | SPEAKERS_4POINT1 | SPEAKERS_5POINT1 | SPEAKERS_7POINT1

datatype video_colorspace = VIDEO_CS_DEFAULT | VIDEO_CS_601 | VIDEO_CS_709 | VIDEO_CS_SRGB
  | VIDEO_CS_2100_PQ | VIDEO_CS_2100_HLG

datatype video_format = VIDEO_FORMAT_NONE | VIDEO_FORMAT_I420 | VIDEO_FORMAT_NV12 | VIDEO_FORMAT_YVYU
  | VIDEO_FORMAT_YUY2 | VIDEO_FORMAT_UYVY | VIDEO_FORMAT_RGBA | VIDEO_FORMAT_BGRA | VIDEO_FORMAT_BGRX
  | VIDEO_FORMAT_Y800 | VIDEO_FORMAT_I444 | VIDEO_FORMAT_BGR3 | VIDEO_FORMAT_I422 | VIDEO_FORMAT_I40A
  | VIDEO_FORMAT_I42A | VIDEO_FORMAT_YUVA | VIDEO_FORMAT_AYUV | VIDEO_FORMAT_I010 | VIDEO_FORMAT_P010
  | VIDEO_FORMAT_I210 | VIDEO_FORMAT_I412 | VIDEO_FORMAT_YA2L | VIDEO_FORMAT_P216 | VIDEO_FORMAT_P416
  | VIDEO_FORMAT_V210 | VIDEO_FORMAT_R10L

datatype video_range_type = VIDEO_RANGE_DEFAULT | VIDEO_RANGE_PARTIAL | VIDEO_RANGE_FULL

record video_output_info =
  vo_format :: video_format
  vo_fps_num :: u32
  vo_fps_den :: u32
  vo_width :: u32
  vo_height :: u32
  vo_colorspace :: video_colorspace
  vo_range :: video_range_type

record audio_output_info =
  au_samples_per_sec :: u32
  au_speakers :: speaker_layout

definition get_audio_channels :: "speaker_layout \<Rightarrow> u32" where
  "get_audio_channels speakers = (case speakers of
      SPEAKERS_MONO \<Rightarrow> 1
    | SPEAKERS_STEREO \<Rightarrow> 2
    | SPEAKERS_2POINT1 \<Rightarrow> 3
    | SPEAKERS_4POINT0 \<Rightarrow> 4
    | SPEAKERS_4POINT1 \<Rightarrow> 5
    | SPEAKERS_5POINT1 \<Rightarrow> 6
    | SPEAKERS_7POINT1 \<Rightarrow> 8
    | SPEAKERS_UNKNOWN \<Rightarrow> 0)"

text \<open>
  Settings objects (\<open>obs-data.c\<close>) are read through three queries only: integer values and
  numbers (as the bits of a \<open>double\<close>) by name, and the JSON text with defaults.
\<close>

record obs_settings =
  set_int :: "string \<Rightarrow> s64"
  set_double :: "string \<Rightarrow> u64"
  set_json :: string

section \<open>The encoder object\<close>

text \<open>
  \<open>e_ptr\<close> is the object's identity (packets and tracks compare encoder pointers);
  \<open>e_extra_data\<close> is what the encoder plugin's \<open>get_extra_data\<close> callback yields.
\<close>

record obs_encoder =
  e_ptr :: nat
  e_type :: obs_encoder_type
  e_codec :: string
  e_id :: string
  e_name :: string
  e_extra_data :: "byte list option"
  e_settings :: obs_settings
  e_scaled_width :: u32
  e_scaled_height :: u32
  e_samplerate :: u32
  e_framesize :: nat
  e_video :: "video_output_info option"
  e_fps_override :: "video_output_info option"
  e_audio :: "audio_output_info option"

definition obs_encoder_get_name :: "obs_encoder option \<Rightarrow> string option" where
  "obs_encoder_get_name enc = map_option e_name enc"

definition obs_encoder_get_id :: "obs_encoder option \<Rightarrow> string option" where
  "obs_encoder_get_id enc = map_option e_id enc"

definition obs_encoder_get_codec :: "obs_encoder option \<Rightarrow> string option" where
  "obs_encoder_get_codec enc = map_option e_codec enc"

definition obs_encoder_get_settings :: "obs_encoder option \<Rightarrow> obs_settings option" where
  "obs_encoder_get_settings enc = map_option e_settings enc"

definition obs_encoder_get_extra_data :: "obs_encoder option \<Rightarrow> byte list option" where
  "obs_encoder_get_extra_data enc = (case enc of None \<Rightarrow> None | Some e \<Rightarrow> e_extra_data e)"

definition obs_encoder_get_type :: "obs_encoder option \<Rightarrow> obs_encoder_type" where
  "obs_encoder_get_type enc = (case enc of None \<Rightarrow> OBS_ENCODER_AUDIO | Some e \<Rightarrow> e_type e)"

definition obs_encoder_get_width :: "obs_encoder option \<Rightarrow> u32" where
  "obs_encoder_get_width enc = (case enc of
      None \<Rightarrow> 0
    | Some e \<Rightarrow>
        if e_type e \<noteq> OBS_ENCODER_VIDEO then 0
        else (case e_video e of
            None \<Rightarrow> 0
          | Some v \<Rightarrow> if e_scaled_width e \<noteq> 0 then e_scaled_width e else vo_width v))"

definition obs_encoder_get_height :: "obs_encoder option \<Rightarrow> u32" where
  "obs_encoder_get_height enc = (case enc of
      None \<Rightarrow> 0
    | Some e \<Rightarrow>
        if e_type e \<noteq> OBS_ENCODER_VIDEO then 0
        else (case e_video e of
            None \<Rightarrow> 0
          | Some v \<Rightarrow> if e_scaled_height e \<noteq> 0 then e_scaled_height e else vo_height v))"

definition obs_encoder_get_sample_rate :: "obs_encoder option \<Rightarrow> u32" where
  "obs_encoder_get_sample_rate enc = (case enc of
      None \<Rightarrow> 0
    | Some e \<Rightarrow>
        if e_type e \<noteq> OBS_ENCODER_AUDIO then 0
        else (case e_audio e of
            None \<Rightarrow> 0
          | Some a \<Rightarrow> if e_samplerate e \<noteq> 0 then e_samplerate e else au_samples_per_sec a))"

definition obs_encoder_get_frame_size :: "obs_encoder option \<Rightarrow> nat" where
  "obs_encoder_get_frame_size enc = (case enc of
      None \<Rightarrow> 0
    | Some e \<Rightarrow> if e_type e \<noteq> OBS_ENCODER_AUDIO then 0 else e_framesize e)"

definition obs_encoder_video :: "obs_encoder option \<Rightarrow> video_output_info option" where
  "obs_encoder_video enc = (case enc of
      None \<Rightarrow> None
    | Some e \<Rightarrow>
        if e_type e \<noteq> OBS_ENCODER_VIDEO then None
        else (case e_fps_override e of Some v \<Rightarrow> Some v | None \<Rightarrow> e_video e))"

definition obs_encoder_audio :: "obs_encoder option \<Rightarrow> audio_output_info option" where
  "obs_encoder_audio enc = (case enc of
      None \<Rightarrow> None
    | Some e \<Rightarrow> if e_type e \<noteq> OBS_ENCODER_AUDIO then None else e_audio e)"

text \<open>
  \<open>audio_output_get_channels\<close> and its kin dereference their argument.  The muxer asks them
  only for tracks whose encoder has been given its audio or video; for a missing one the
  model returns the all-zero structure.
\<close>

definition audio_info :: "audio_output_info option \<Rightarrow> audio_output_info" where
  "audio_info a = (case a of Some i \<Rightarrow> i | None \<Rightarrow> \<lparr>au_samples_per_sec = 0, au_speakers = SPEAKERS_UNKNOWN\<rparr>)"

definition video_info :: "video_output_info option \<Rightarrow> video_output_info" where
  "video_info v = (case v of Some i \<Rightarrow> i
    | None \<Rightarrow> \<lparr>vo_format = VIDEO_FORMAT_NONE, vo_fps_num = 0, vo_fps_den = 0, vo_width = 0, vo_height = 0,
               vo_colorspace = VIDEO_CS_DEFAULT, vo_range = VIDEO_RANGE_DEFAULT\<rparr>)"

definition audio_output_get_channels :: "audio_output_info option \<Rightarrow> u32" where
  "audio_output_get_channels a = get_audio_channels (au_speakers (audio_info a))"

definition audio_output_get_sample_rate :: "audio_output_info option \<Rightarrow> u32" where
  "audio_output_get_sample_rate a = au_samples_per_sec (audio_info a)"

section \<open>Encoded packets\<close>

text \<open>
  The reference count in front of the data governs deallocation only; the data pointer and
  size are the byte list \<open>p_data\<close>.
\<close>

record encoder_packet =
  p_data :: "byte list"
  p_pts :: s64
  p_dts :: s64
  p_timebase_num :: s32
  p_timebase_den :: s32
  p_type :: obs_encoder_type
  p_keyframe :: bool
  p_dts_usec :: s64
  p_sys_dts_usec :: s64
  p_priority :: int
  p_drop_priority :: int
  p_track_idx :: nat
  p_encoder :: "nat option"

definition obs_encoder_packet_ref :: "encoder_packet \<Rightarrow> encoder_packet" where
  "obs_encoder_packet_ref src = src"

section \<open>64-bit multiply and divide\<close>

definition util_mul_div64 :: "u64 \<Rightarrow> u64 \<Rightarrow> u64 \<Rightarrow> u64" where
  "util_mul_div64 num mul dv = (let rem = num mod dv in (num div dv) * mul + (rem * mul) div dv)"

lemma mul_div_split:
  assumes "0 < (d::nat)"
  shows "(n div d) * m + (n mod d * m) div d = n * m div d"
proof -
  have "n * m = n mod d * m + d * ((n div d) * m)"
    by (metis add.commute distrib_right div_mult_mod_eq mult.assoc mult.commute)
  then have "n * m div d = (n mod d * m + d * ((n div d) * m)) div d" by simp
  also have "\<dots> = (n mod d * m) div d + (n div d) * m"
    using assms by (simp only: div_mult_self2 less_irrefl not_False_eq_True)
  finally show ?thesis by simp
qed



end
