(* ===== verification/Nal.thy ===== *)
theory Nal
  imports Serializer
begin

text \<open>
  Start-code scanning of \<open>libobs/obs-nal.c\<close> and the loop over the NAL units of an Annex B
  byte stream that the AVC and HEVC parsers share.

  A pointer into the buffer is an index into the byte list; \<open>base\<close> is the address of the
  buffer, on which the scanner's alignment prologue depends.  The scanner is shown to return
  the first start code for every alignment, and the loop to visit exactly the units of a
  well-formed stream.
\<close>

section \<open>The scanner\<close>

definition is_startcode :: "byte list \<Rightarrow> nat \<Rightarrow> bool" where
  "is_startcode d p \<longleftrightarrow> d ! p = 0 \<and> d ! (p + 1) = 0 \<and> d ! (p + 2) = 1"

text \<open>The byte-wise loops (\<open>Inl\<close>: found, \<open>Inr\<close>: the loop ran out at this position).\<close>

function ff_scan :: "byte list \<Rightarrow> nat \<Rightarrow> nat \<Rightarrow> nat + nat" where
  "ff_scan d p lim =
    (if p < lim then if is_startcode d p then Inl p else ff_scan d (p + 1) lim else Inr p)"
  by pat_completeness auto
termination by (relation "measure (\<lambda>(d, p, lim). lim - p)") auto

text \<open>The word loop: a little-endian load, the zero-byte test, then at most four candidates.\<close>

definition load32 :: "byte list \<Rightarrow> nat \<Rightarrow> u32" where
  "load32 d p = word_of_nat (unat (d ! p) + 256 * unat (d ! (p + 1)) + 65536 * unat (d ! (p + 2)) +
     16777216 * unat (d ! (p + 3)))"

definition maybe_zero_byte :: "u32 \<Rightarrow> bool" where
  "maybe_zero_byte x \<longleftrightarrow> (x - 0x01010101) AND (NOT x) AND 0x80808080 \<noteq> 0"

definition ff_probe4 :: "byte list \<Rightarrow> nat \<Rightarrow> nat option" where
  "ff_probe4 d p =
    (if maybe_zero_byte (load32 d p) then
       if d ! (p + 1) = 0 \<and> d ! p = 0 \<and> d ! (p + 2) = 1 then Some p
       else if d ! (p + 1) = 0 \<and> d ! (p + 2) = 0 \<and> d ! (p + 3) = 1 then Some (p + 1)
       else if d ! (p + 3) = 0 \<and> d ! (p + 2) = 0 \<and> d ! (p + 4) = 1 then Some (p + 2)
       else if d ! (p + 3) = 0 \<and> d ! (p + 4) = 0 \<and> d ! (p + 5) = 1 then Some (p + 3)
       else None
     else None)"

function ff_scan4 :: "byte list \<Rightarrow> nat \<Rightarrow> nat \<Rightarrow> nat + nat" where
  "ff_scan4 d p lim =
    (if p < lim then (case ff_probe4 d p of Some q \<Rightarrow> Inl q | None \<Rightarrow> ff_scan4 d (p + 4) lim) else Inr p)"
  by pat_completeness auto
termination by (relation "measure (\<lambda>(d, p, lim). lim - p)") auto

declare ff_scan.simps [simp del] ff_scan4.simps [simp del]

text \<open>
  The limits \<open>end - 3\<close> and \<open>end - 6\<close> are natural-number differences: for a shorter buffer
  the pointer limit lies before the buffer and the loop does not run either.
\<close>

definition ff_avc_find_startcode_internal :: "nat \<Rightarrow> byte list \<Rightarrow> nat \<Rightarrow> nat \<Rightarrow> nat" where
  "ff_avc_find_startcode_internal base d p e =
    (let a = p + 4 - (base + p) mod 4 in
     case ff_scan d p (min a (e - 3)) of
       Inl q \<Rightarrow> q
     | Inr p1 \<Rightarrow>
         (case ff_scan4 d p1 (e - 6) of
            Inl q \<Rightarrow> q
          | Inr p2 \<Rightarrow> (case ff_scan d p2 (e - 3) of Inl q \<Rightarrow> q | Inr _ \<Rightarrow> e)))"

definition obs_nal_find_startcode :: "nat \<Rightarrow> byte list \<Rightarrow> nat \<Rightarrow> nat \<Rightarrow> nat" where
  "obs_nal_find_startcode base d p e =
    (let out = ff_avc_find_startcode_internal base d p e
     in if p < out \<and> out < e \<and> d ! (out - 1) = 0 then out - 1 else out)"

section \<open>The scanner returns the first start code\<close>

lemma word_bit_iff_mod: "bit (w :: u32) n \<longleftrightarrow> 2 ^ n \<le> unat w mod 2 ^ Suc n"
proof -
  have "bit w n \<longleftrightarrow> odd (unat w div 2 ^ n)"
    by (metis bit_iff_odd bit_unsigned_iff possible_bit_nat bit_imp_le_length possible_bit_word)
  also have "unat w mod 2 ^ Suc n = 2 ^ n * (unat w div 2 ^ n mod 2) + unat w mod 2 ^ n"
    by (metis mod_mult2_eq mult.commute power_Suc)
  then have "odd (unat w div 2 ^ n) \<longleftrightarrow> 2 ^ n \<le> unat w mod 2 ^ Suc n"
    by (cases "odd (unat w div 2 ^ n)") (simp_all add: odd_iff_mod_2_eq_one even_iff_mod_2_eq_zero not_le)
  finally show ?thesis .
qed

lemma maybe_zero_byte_bit:
  assumes "bit (x - 0x01010101 :: u32) k" and "\<not> bit x k" and "k \<in> {7, 15, 23, 31}"
  shows "maybe_zero_byte x"
proof -
  have "bit (0x80808080 :: u32) k" using assms(3) by auto
  moreover have "k < 32" using assms(3) by auto
  ultimately have "bit ((x - 0x01010101) AND (NOT x) AND 0x80808080) k"
    using assms by (simp add: bit_and_iff bit_not_iff)
  then show ?thesis unfolding maybe_zero_byte_def by (metis bit_0_eq bot_apply bot_bool_def)
qed

lemma minus_pattern_mod:
  assumes "k < 32"
  shows "unat (word_of_nat v - 0x01010101 :: u32) mod 2 ^ Suc k = (v + 4278124287) mod 2 ^ Suc k"
proof -
  have eq: "(word_of_nat v - 0x01010101 :: u32) = word_of_nat (v + 4278124287)"
    by simp
  have "(2::nat) ^ Suc k dvd 2 ^ LENGTH(32)"
    using assms by (intro le_imp_power_dvd) simp
  then show ?thesis
    unfolding eq unat_of_nat by (rule mod_mod_cancel)
qed

text \<open>
  The subtraction turns a zero byte into \<open>0xFF\<close>, or \<open>0xFE\<close> after a borrow from below:
  its top bit is set, while the byte's own top bit is clear.
\<close>

lemma zero_byte_mask:
  assumes k: "k \<in> {7, 15, 23, 31}" and lo: "lo < 2 ^ (k - 7)" and v: "v = lo + 2 ^ Suc k * hi"
  shows "maybe_zero_byte (word_of_nat v)"
proof (rule maybe_zero_byte_bit [OF _ _ k])
  have k32: "k < 32" using k by auto
  have less: "lo < 2 ^ k" using lo by (rule less_le_trans) simp
  have "(2::nat) ^ Suc k dvd 2 ^ LENGTH(32)"
    using k32 by (intro le_imp_power_dvd) simp
  then have "unat (word_of_nat v :: u32) mod 2 ^ Suc k = lo"
    using less by (simp only: unat_of_nat mod_mod_cancel v) simp
  with less show "\<not> bit (word_of_nat v :: u32) k"
    by (simp only: word_bit_iff_mod not_le)
  have "v + 4278124287 = lo + 4278124287 + 2 ^ Suc k * hi" using v by (simp only: ac_simps)
  then have "(v + 4278124287) mod 2 ^ Suc k = (lo + 4278124287 mod 2 ^ Suc k) mod 2 ^ Suc k"
    by (simp only: mod_mult_self2 mod_add_right_eq)
  also have "2 ^ k \<le> \<dots>"
    using k lo by auto
  finally show "bit (word_of_nat v - 0x01010101 :: u32) k"
    by (simp only: word_bit_iff_mod minus_pattern_mod [OF k32])
qed

text \<open>A word with a zero byte passes the zero-byte test: no start code is ever skipped.\<close>

lemma zero_byte_detected:
  assumes z: "d ! (p + i) = 0" and i: "i < 4"
  shows "maybe_zero_byte (load32 d p)"
proof -
  define b where "b j = unat (d ! (p + j))" for j
  have b: "b j < 256" for j using unsigned_less [of "d ! (p + j)", where ?'a = nat] by (simp add: b_def)
  note bs = b [of 0] b [of 1] b [of 2] b [of 3]
  have ld: "load32 d p = word_of_nat (b 0 + 256 * b 1 + 65536 * b 2 + 16777216 * b 3)"
    by (simp add: load32_def b_def)
  have bi: "b i = 0" using z by (simp add: b_def)
  from i consider "i = 0" | "i = 1" | "i = 2" | "i = 3" by linarith
  then show ?thesis
  proof cases
    case 1
    then show ?thesis unfolding ld using bi by (intro zero_byte_mask [of 7 0 _ "b 1 + 256 * b 2 + 65536 * b 3"]) auto
  next
    case 2
    then show ?thesis unfolding ld using bi bs by (intro zero_byte_mask [of 15 "b 0" _ "b 2 + 256 * b 3"]) auto
  next
    case 3
    then show ?thesis unfolding ld using bi bs by (intro zero_byte_mask [of 23 "b 0 + 256 * b 1" _ "b 3"]) auto
  next
    case 4
    then show ?thesis unfolding ld using bi bs
      by (intro zero_byte_mask [of 31 "b 0 + 256 * b 1 + 65536 * b 2" _ 0]) auto
  qed
qed

text \<open>
  \<open>scanned d p r lim\<close>: from \<open>p\<close> on, the scan found the first start code before \<open>lim\<close>, or
  there is none up to the position where it stopped.
\<close>

definition no_startcode :: "byte list \<Rightarrow> nat \<Rightarrow> nat \<Rightarrow> bool" where
  "no_startcode d p q \<longleftrightarrow> (\<forall>i. p \<le> i \<and> i < q \<longrightarrow> \<not> is_startcode d i)"

lemma no_startcode_trans: "no_startcode d p q \<Longrightarrow> no_startcode d q r \<Longrightarrow> no_startcode d p r"
  unfolding no_startcode_def by (meson not_le)

lemma no_startcode_refl [simp]: "no_startcode d p p"
  unfolding no_startcode_def by auto

definition scanned :: "byte list \<Rightarrow> nat \<Rightarrow> nat \<Rightarrow> nat + nat \<Rightarrow> bool" where
  "scanned d p lim r = (case r of
      Inl q \<Rightarrow> p \<le> q \<and> q < lim \<and> is_startcode d q \<and> no_startcode d p q
    | Inr q \<Rightarrow> p \<le> q \<and> no_startcode d p q)"

lemma ff_scan_scanned: "scanned d p lim (ff_scan d p lim)"
proof (induction d p lim rule: ff_scan.induct)
  case (1 d p lim)
  have step: "\<not> is_startcode d p \<Longrightarrow> no_startcode d p (p + 1)"
    by (auto simp: no_startcode_def le_less_Suc_eq)
  show ?case
  proof (cases "p < lim \<and> \<not> is_startcode d p")
    case True
    then have "ff_scan d p lim = ff_scan d (p + 1) lim" by (subst ff_scan.simps) simp
    then show ?thesis
      using 1 True no_startcode_trans [OF step] by (auto simp: scanned_def split: sum.splits)
  next
    case False
    then show ?thesis by (subst ff_scan.simps) (auto simp: scanned_def)
  qed
qed

lemma ff_scan_end: "ff_scan d p lim = Inr q \<Longrightarrow> lim \<le> q"
  by (induction d p lim rule: ff_scan.induct) (subst (asm) ff_scan.simps, auto split: if_splits)

lemma ff_probe4_Some:
  "ff_probe4 d p = Some q \<Longrightarrow> p \<le> q \<and> q \<le> p + 3 \<and> is_startcode d q \<and> no_startcode d p q"
  by (auto simp: ff_probe4_def is_startcode_def no_startcode_def less_Suc_eq numeral_eq_Suc
      le_less_Suc_eq split: if_splits)

lemma ff_probe4_None:
  assumes "ff_probe4 d p = None"
  shows "no_startcode d p (p + 4)"
  unfolding no_startcode_def
proof (intro allI impI notI)
  fix j assume j: "p \<le> j \<and> j < p + 4" and sc: "is_startcode d j"
  obtain i where i: "j = p + i" "i < 4" using j by (metis le_add_diff_inverse nat_add_left_cancel_less)
  have "maybe_zero_byte (load32 d p)"
    using sc i by (intro zero_byte_detected [of d p i]) (auto simp: is_startcode_def)
  note mz = this
  from i(2) consider "i = 0" | "i = 1" | "i = 2" | "i = 3" by linarith
  then show False
  proof cases
    case 1 then show ?thesis using assms sc i mz by (simp add: ff_probe4_def is_startcode_def)
  next
    case 2 then show ?thesis using assms sc i mz
      by (simp add: ff_probe4_def is_startcode_def numeral_eq_Suc split: if_splits)
  next
    case 3 then show ?thesis using assms sc i mz
      by (simp add: ff_probe4_def is_startcode_def numeral_eq_Suc split: if_splits)
  next
    case 4 then show ?thesis using assms sc i mz
      by (simp add: ff_probe4_def is_startcode_def numeral_eq_Suc split: if_splits)
  qed
qed

lemma ff_scan4_scanned: "scanned d p (lim + 3) (ff_scan4 d p lim)"
proof (induction d p lim rule: ff_scan4.induct)
  case (1 d p lim)
  show ?case
  proof (cases "p < lim")
    case False
    then show ?thesis by (subst ff_scan4.simps) (simp add: scanned_def)
  next
    case True
    show ?thesis
    proof (cases "ff_probe4 d p")
      case None
      then have "ff_scan4 d p lim = ff_scan4 d (p + 4) lim" using True by (subst ff_scan4.simps) simp
      then show ?thesis
        using 1 [OF True None] no_startcode_trans [OF ff_probe4_None [OF None]]
        by (auto simp: scanned_def split: sum.splits)
    next
      case (Some q)
      then have "ff_scan4 d p lim = Inl q" using True by (subst ff_scan4.simps) simp
      then show ?thesis using ff_probe4_Some [OF Some] True by (auto simp: scanned_def)
    qed
  qed
qed

text \<open>The reference: the first start code from \<open>p\<close> on that is followed by a byte, or the end.\<close>

definition first_startcode :: "byte list \<Rightarrow> nat \<Rightarrow> nat \<Rightarrow> nat" where
  "first_startcode d p e = (case List.find (is_startcode d) [p..<e - 3] of Some q \<Rightarrow> q | None \<Rightarrow> e)"

lemma find_upt_Some:
  assumes "a \<le> q" "q < b" "P q" "\<And>i. a \<le> i \<Longrightarrow> i < q \<Longrightarrow> \<not> P i"
  shows "List.find P [a..<b] = Some q"
  using assms by (auto simp: find_Some_iff intro!: exI [of _ "q - a"])

lemma first_startcode_found:
  "p \<le> q \<Longrightarrow> q < e - 3 \<Longrightarrow> is_startcode d q \<Longrightarrow> no_startcode d p q \<Longrightarrow> first_startcode d p e = q"
  using find_upt_Some [of p q "e - 3" "is_startcode d"] by (simp add: first_startcode_def no_startcode_def)

lemma first_startcode_none: "no_startcode d p (e - 3) \<Longrightarrow> first_startcode d p e = e"
  using find_None_iff [of "is_startcode d" "[p..<e - 3]"] by (simp add: first_startcode_def no_startcode_def)

lemma first_startcode_cases:
  obtains "first_startcode d p e = e" "no_startcode d p (e - 3)"
  | "p \<le> first_startcode d p e" "first_startcode d p e < e - 3" "is_startcode d (first_startcode d p e)"
    "no_startcode d p (first_startcode d p e)"
proof (cases "no_startcode d p (e - 3)")
  case True
  then show ?thesis using that(1) first_startcode_none by blast
next
  case False
  then obtain i where i: "p \<le> i" "i < e - 3" "is_startcode d i" by (auto simp: no_startcode_def)
  define q where "q = (LEAST i. p \<le> i \<and> is_startcode d i)"
  have q: "p \<le> q" "is_startcode d q" using LeastI [of "\<lambda>i. p \<le> i \<and> is_startcode d i" i] i by (auto simp: q_def)
  have "q \<le> i" using Least_le [of "\<lambda>i. p \<le> i \<and> is_startcode d i" i] i by (simp add: q_def)
  moreover have "no_startcode d p q"
    unfolding q_def no_startcode_def using not_less_Least by blast
  ultimately have "first_startcode d p e = q" using first_startcode_found i q by simp
  then show ?thesis using that(2) q i \<open>q \<le> i\<close> \<open>no_startcode d p q\<close> by simp
qed

lemma ff_internal_eq: "ff_avc_find_startcode_internal base d p e = first_startcode d p e"
proof -
  define r1 where "r1 = ff_scan d p (min (p + 4 - (base + p) mod 4) (e - 3))"
  have 1: "scanned d p (min (p + 4 - (base + p) mod 4) (e - 3)) r1"
    unfolding r1_def by (rule ff_scan_scanned)
  show ?thesis
  proof (cases r1)
    case (Inl q)
    then show ?thesis using 1 first_startcode_found [of p q e d]
      by (simp add: ff_avc_find_startcode_internal_def r1_def [symmetric] scanned_def)
  next
    case r1: (Inr p1)
    define r2 where "r2 = ff_scan4 d p1 (e - 6)"
    have 2: "scanned d p1 (e - 6 + 3) r2" unfolding r2_def by (rule ff_scan4_scanned)
    note p1 = 1 [unfolded r1 scanned_def, simplified]
    show ?thesis
    proof (cases r2)
      case (Inl q)
      have "p1 < e - 6" using Inl unfolding r2_def by (subst (asm) ff_scan4.simps) (auto split: if_splits)
      then have "q < e - 3" using 2 Inl by (auto simp: scanned_def)
      then show ?thesis using p1 2 Inl first_startcode_found [of p q e d] no_startcode_trans [of d p p1 q] r1
        by (simp add: ff_avc_find_startcode_internal_def r1_def [symmetric] r2_def [symmetric] scanned_def)
    next
      case r2: (Inr p2)
      note p2 = 2 [unfolded r2 scanned_def, simplified]
      have pp2: "p \<le> p2" "no_startcode d p p2" using p1 p2 no_startcode_trans by auto
      have 3: "scanned d p2 (e - 3) (ff_scan d p2 (e - 3))" by (rule ff_scan_scanned)
      have "(case ff_scan d p2 (e - 3) of Inl q \<Rightarrow> q | Inr _ \<Rightarrow> e) = first_startcode d p e"
      proof (cases "ff_scan d p2 (e - 3)")
        case (Inl q)
        then show ?thesis
          using 3 pp2 first_startcode_found [of p q e d] no_startcode_trans [of d p p2 q] by (simp add: scanned_def)
      next
        case (Inr q)
        then have "no_startcode d p q" "e - 3 \<le> q"
          using 3 pp2 no_startcode_trans ff_scan_end by (auto simp: scanned_def)
        then show ?thesis using Inr first_startcode_none [of d p e] by (simp add: no_startcode_def)
      qed
      then show ?thesis
        using r1 r2 by (simp add: ff_avc_find_startcode_internal_def r1_def [symmetric] r2_def [symmetric])
    qed
  qed
qed

lemma find_startcode_eq:
  "obs_nal_find_startcode base d p e =
    (let q = first_startcode d p e in if p < q \<and> q < e \<and> d ! (q - 1) = 0 then q - 1 else q)"
  by (simp add: obs_nal_find_startcode_def ff_internal_eq)

lemma find_startcode_le: "obs_nal_find_startcode base d p e \<le> e"
  by (cases rule: first_startcode_cases [of d p e]) (auto simp: find_startcode_eq Let_def)

lemma find_startcode_ge: "p \<le> e \<Longrightarrow> p \<le> obs_nal_find_startcode base d p e"
  by (cases rule: first_startcode_cases [of d p e]) (auto simp: find_startcode_eq Let_def)

lemma find_startcode_beyond: "e \<le> p \<Longrightarrow> obs_nal_find_startcode base d p e = e"
  by (cases rule: first_startcode_cases [of d p e]) (auto simp: find_startcode_eq Let_def)

section \<open>The loop over NAL units\<close>

text \<open>\<open>while (nal_start < end && !*(nal_start++));\<close>\<close>

function skip_zeros :: "byte list \<Rightarrow> nat \<Rightarrow> nat \<Rightarrow> nat" where
  "skip_zeros d i e = (if i < e then if d ! i = 0 then skip_zeros d (i + 1) e else i + 1 else i)"
  by pat_completeness auto
termination by (relation "measure (\<lambda>(d, i, e). e - i)") auto

declare skip_zeros.simps [simp del]

lemma skip_zeros_bounds: "i < e \<Longrightarrow> i < skip_zeros d i e \<and> skip_zeros d i e \<le> e"
proof (induction d i e rule: skip_zeros.induct)
  case (1 d i e)
  have eq: "skip_zeros d i e = (if d ! i = 0 then skip_zeros d (i + 1) e else i + 1)"
    using 1(2) by (subst skip_zeros.simps) simp
  have "i + 1 = e \<Longrightarrow> skip_zeros d (i + 1) e = e" by (simp add: skip_zeros.simps)
  then show ?case
    using 1 unfolding eq by (cases "i + 1 < e") auto
qed

lemma skip_zeros_beyond: "e \<le> i \<Longrightarrow> skip_zeros d i e = i"
  by (simp add: skip_zeros.simps)

text \<open>
  The common loop: skip to the byte after the start code, leave when that is the end of the
  buffer, find the end of the unit, run the body with the position of the start code, the
  start of the unit and its end, and go on from there unless the body says to leave.
\<close>

function nal_loop ::
  "nat \<Rightarrow> byte list \<Rightarrow> (nat \<Rightarrow> nat \<Rightarrow> nat \<Rightarrow> 's \<Rightarrow> bool \<times> 's) \<Rightarrow> nat \<Rightarrow> 's \<Rightarrow> 's" where
  "nal_loop base d body codestart st =
    (let e = length d; nal_start = skip_zeros d codestart e
     in if nal_start = e then st
        else
          (let nal_end = obs_nal_find_startcode base d nal_start e
           in case body codestart nal_start nal_end st of
                (True, st') \<Rightarrow> st'
              | (False, st') \<Rightarrow> nal_loop base d body nal_end st'))"
  by pat_completeness auto
termination
proof (relation "measure (\<lambda>(base, d, body, c, st). if length d < c then 1 else length d - c)", goal_cases)
  case 1
  show ?case by simp
next
  case (2 base d body c st e ns ne st')
  have le: "ne \<le> length d" using 2 find_startcode_le by simp
  show ?case
  proof (cases "c < length d")
    case True
    then have "c < ns" "ns \<le> length d" using 2 skip_zeros_bounds by auto
    then have "c < ne" using 2 find_startcode_ge [of ns "length d" base d] by simp
    with True le show ?thesis by simp
  next
    case False
    then have "ns = c" "length d < c" using 2 skip_zeros_beyond [of "length d" c d] by auto
    then show ?thesis using 2 find_startcode_beyond [of "length d" c base d] by simp
  qed
qed

declare nal_loop.simps [simp del]

text \<open>The bytes between two pointers.\<close>

definition bytes_between :: "byte list \<Rightarrow> nat \<Rightarrow> nat \<Rightarrow> byte list" where
  "bytes_between d i j = take (j - i) (drop i d)"

lemma length_bytes_between: "j \<le> length d \<Longrightarrow> length (bytes_between d i j) = j - i"
  by (simp add: bytes_between_def)

section \<open>Well-formed streams\<close>

text \<open>
  An Annex B stream: units behind three- or four-byte start codes.  A unit (section 7.4.1 of
  H.264, with emulation prevention) is not empty, contains no start code and does not end in
  a zero byte.
\<close>

definition start_code :: "byte list \<Rightarrow> bool" where
  "start_code sc \<longleftrightarrow> sc = [0, 0, 1] \<or> sc = [0, 0, 0, 1]"

definition unit_ok :: "byte list \<Rightarrow> bool" where
  "unit_ok u \<longleftrightarrow> u \<noteq> [] \<and> last u \<noteq> 0 \<and> (\<forall>i < length u - 2. \<not> is_startcode u i)"

definition stream_ok :: "(byte list \<times> byte list) list \<Rightarrow> bool" where
  "stream_ok us \<longleftrightarrow> (\<forall>(sc, u) \<in> set us. start_code sc \<and> unit_ok u)"

definition annexb :: "(byte list \<times> byte list) list \<Rightarrow> byte list" where
  "annexb us = concat (map (\<lambda>(sc, u). sc @ u) us)"

lemma annexb_simps [simp]:
  "annexb [] = []" "annexb ((sc, u) # us) = sc @ u @ annexb us"
  by (simp_all add: annexb_def)

lemma stream_ok_simps [simp]:
  "stream_ok []" "stream_ok ((sc, u) # us) \<longleftrightarrow> start_code sc \<and> unit_ok u \<and> stream_ok us"
  by (auto simp: stream_ok_def)

lemma start_code_cases:
  assumes "start_code sc"
  obtains "sc = [0, 0, 1]" | "sc = [0, 0, 0, 1]"
  using assms by (auto simp: start_code_def)

lemma is_startcode_append:
  "is_startcode (pre @ xs) (length pre + i) \<longleftrightarrow> is_startcode xs i"
  by (simp add: is_startcode_def nth_append add.assoc)

lemma no_startcode_in_unit:
  assumes "unit_ok u"
  shows "no_startcode (pre @ u @ rest) (length pre) (length pre + length u)"
  unfolding no_startcode_def
proof (intro allI impI)
  fix j assume j: "length pre \<le> j \<and> j < length pre + length u"
  then obtain i where i: "j = length pre + i" "i < length u" by (metis le_add_diff_inverse nat_add_left_cancel_less)
  have "\<not> is_startcode (u @ rest) i"
  proof (cases "i + 2 < length u")
    case True
    then have "\<not> is_startcode u i" using assms by (simp add: unit_ok_def)
    then show ?thesis using True by (simp add: is_startcode_def nth_append)
  next
    case False
    have "u ! (length u - 1) \<noteq> 0" using assms last_conv_nth [of u] by (auto simp: unit_ok_def)
    moreover have "length u - 1 = i \<or> length u - 1 = i + 1" using False i(2) by linarith
    ultimately show ?thesis using i(2) by (auto simp: is_startcode_def nth_append split: if_splits)
  qed
  then show "\<not> is_startcode (pre @ u @ rest) j" by (simp add: i(1) is_startcode_append)
qed

lemma startcode_at_stream:
  assumes "stream_ok us" and "us \<noteq> []" and "xs = pre @ annexb us"
  obtains (short) "is_startcode xs (length pre)" "length pre + 3 < length xs"
  | (long) "\<not> is_startcode xs (length pre)" "is_startcode xs (length pre + 1)"
    "length pre + 4 < length xs" "xs ! length pre = 0"
proof -
  obtain sc u us' where us: "us = (sc, u) # us'" using assms(2) by (metis list.exhaust surj_pair)
  have u: "start_code sc" "u \<noteq> []" using assms(1) us by (auto simp: unit_ok_def)
  have at: "is_startcode xs (length pre + i) \<longleftrightarrow> is_startcode (sc @ u @ annexb us') i" for i
    using assms(3) us by (simp add: is_startcode_append)
  from u(1) show thesis
  proof (cases rule: start_code_cases)
    case 1
    then show thesis using short at [of 0] u(2) assms(3) us by (simp add: is_startcode_def)
  next
    case 2
    then show thesis using long at [of 0] at [of 1] u(2) assms(3) us
      by (simp add: is_startcode_def nth_append)
  qed
qed

lemma find_unit_end:
  assumes "unit_ok u" and "stream_ok us" and "d = pre @ u @ annexb us"
  shows "obs_nal_find_startcode base d (length pre) (length d) = length pre + length u"
proof -
  let ?n = "length pre + length u"
  have none: "no_startcode d (length pre) ?n"
    using no_startcode_in_unit [OF assms(1)] assms(3) by simp
  have u: "u \<noteq> []" "last u \<noteq> 0" using assms(1) by (auto simp: unit_ok_def)
  have lastb: "d ! (?n - 1) = last u"
    using u(1) assms(3) by (auto simp: nth_append last_conv_nth not_less_eq length_greater_0_conv [symmetric]
        simp del: length_greater_0_conv)
  show ?thesis
  proof (cases "us = []")
    case True
    then have e: "length d = ?n" using assms(3) by simp
    then have "first_startcode d (length pre) (length d) = length d"
      using none by (intro first_startcode_none) (auto simp: no_startcode_def)
    then show ?thesis using e by (simp add: find_startcode_eq)
  next
    case False
    have d: "d = (pre @ u) @ annexb us" using assms(3) by simp
    show ?thesis
      using assms(2) False d
    proof (cases rule: startcode_at_stream)
      case short
      then have "first_startcode d (length pre) (length d) = ?n"
        using none by (intro first_startcode_found) auto
      then show ?thesis using lastb u by (simp add: find_startcode_eq)
    next
      case long
      then have "no_startcode d (length pre) (?n + 1)"
        using none by (auto simp: no_startcode_def less_Suc_eq)
      then have "first_startcode d (length pre) (length d) = ?n + 1"
        using long by (intro first_startcode_found) auto
      then show ?thesis using long by (simp add: find_startcode_eq)
    qed
  qed
qed

lemma find_first_unit:
  assumes "stream_ok us"
  shows "obs_nal_find_startcode base (annexb us) 0 (length (annexb us)) = 0"
proof (cases "us = []")
  case True
  then show ?thesis by (simp add: find_startcode_beyond)
next
  case False
  have d: "annexb us = [] @ annexb us" by simp
  show ?thesis
    using assms False d
  proof (cases rule: startcode_at_stream)
    case short
    then have "first_startcode (annexb us) 0 (length (annexb us)) = 0"
      by (intro first_startcode_found) auto
    then show ?thesis by (simp add: find_startcode_eq)
  next
    case long
    then have "first_startcode (annexb us) 0 (length (annexb us)) = 1"
      by (intro first_startcode_found) (auto simp: no_startcode_def)
    then show ?thesis using long by (simp add: find_startcode_eq)
  qed
qed

lemma skip_start_code:
  assumes "start_code sc" and "d = pre @ sc @ rest"
  shows "skip_zeros d (length pre) (length d) = length pre + length sc"
  using assms(1)
proof (cases rule: start_code_cases)
  case 1
  then show ?thesis using assms(2) by (simp add: skip_zeros.simps nth_append)
next
  case 2
  then show ?thesis using assms(2) by (simp add: skip_zeros.simps nth_append)
qed

text \<open>On a well-formed stream the loop runs its body once for each unit, at its position.\<close>

fun unit_fold :: "(nat \<Rightarrow> nat \<Rightarrow> nat \<Rightarrow> 's \<Rightarrow> bool \<times> 's) \<Rightarrow> nat \<Rightarrow> (byte list \<times> byte list) list \<Rightarrow> 's \<Rightarrow> 's" where
  "unit_fold body off [] st = st"
| "unit_fold body off ((sc, u) # us) st =
    (let s = off + length sc; n = s + length u
     in case body off s n st of (True, st') \<Rightarrow> st' | (False, st') \<Rightarrow> unit_fold body n us st')"

lemma nal_loop_stream:
  assumes "stream_ok us" and "d = pre @ annexb us"
  shows "nal_loop base d body (length pre) st = unit_fold body (length pre) us st"
  using assms
proof (induction us arbitrary: pre st)
  case Nil
  then show ?case by (subst nal_loop.simps) (simp add: skip_zeros_beyond)
next
  case (Cons scu us)
  obtain sc u where scu: "scu = (sc, u)" by (cases scu)
  have ok: "start_code sc" "unit_ok u" "stream_ok us" using Cons.prems(1) scu by simp_all
  have skip: "skip_zeros d (length pre) (length d) = length (pre @ sc)"
    using skip_start_code [OF ok(1), of d pre "u @ annexb us"] Cons.prems(2) scu by simp
  have fin: "obs_nal_find_startcode base d (length (pre @ sc)) (length d) = length (pre @ sc @ u)"
    using find_unit_end [OF ok(2,3), of d "pre @ sc"] Cons.prems(2) scu by simp
  have "u \<noteq> []" using ok(2) by (simp add: unit_ok_def)
  then have ne: "length (pre @ sc) \<noteq> length d" using Cons.prems(2) scu by simp
  have "nal_loop base d body (length (pre @ sc @ u)) st' = unit_fold body (length (pre @ sc @ u)) us st'" for st'
    using Cons.IH [OF ok(3), of "pre @ sc @ u"] Cons.prems(2) scu by simp
  then show ?case
    using skip fin ne by (subst nal_loop.simps) (simp add: scu Let_def add.assoc split: prod.split bool.split)
qed

lemma nal_loop_annexb:
  assumes "stream_ok us"
  shows "nal_loop base (annexb us) body (obs_nal_find_startcode base (annexb us) 0 (length (annexb us))) st =
    unit_fold body 0 us st"
  using nal_loop_stream [OF assms, of "annexb us" "[]"] by (simp add: find_first_unit [OF assms])

lemma bytes_between_unit:
  "bytes_between (pre @ sc @ u @ rest) (length pre + length sc) (length pre + length sc + length u) = u"
  "bytes_between (pre @ sc @ u @ rest) (length pre) (length pre + length sc + length u) = sc @ u"
  by (simp_all add: bytes_between_def add.assoc)

section \<open>From start codes to length prefixes\<close>

text \<open>
  The conversion loop of the AVC and HEVC packet parsers: each unit is written behind its
  32-bit length, and the codec's function of the unit's first byte updates the key-frame
  flag and the priority.
\<close>

definition write_nal :: "(byte \<Rightarrow> bool \<Rightarrow> int \<Rightarrow> bool \<times> int) \<Rightarrow> byte list \<Rightarrow>
    nat \<Rightarrow> nat \<Rightarrow> nat \<Rightarrow> 's serializer \<times> bool \<times> int \<Rightarrow> bool \<times> 's serializer \<times> bool \<times> int" where
  "write_nal compute d codestart nal_start nal_end st =
    (let (ser, kf, pr) = st;
         (kf1, pr1) = compute (d ! nal_start) kf pr;
         (_, ser1) = run_state (do { s_wb32 (word_of_nat (nal_end - nal_start));
                                     s_write (bytes_between d nal_start nal_end) }) ser
     in (False, (ser1, kf1, pr1)))"

definition serialize_nals ::
  "(byte \<Rightarrow> bool \<Rightarrow> int \<Rightarrow> bool \<times> int) \<Rightarrow> nat \<Rightarrow> byte list \<Rightarrow> bool \<Rightarrow> int \<Rightarrow> ('s serializer, bool \<times> int) state" where
  "serialize_nals compute base d is_keyframe priority = State (\<lambda>ser.
     let (ser', kf', pr') =
       nal_loop base d (write_nal compute d)
         (obs_nal_find_startcode base d 0 (length d)) (ser, is_keyframe, priority)
     in ((kf', pr'), ser'))"

definition length_prefixed :: "byte list list \<Rightarrow> byte list" where
  "length_prefixed us = concat (map (\<lambda>u. be32 (word_of_nat (length u)) @ u) us)"

fun compute_all :: "(byte \<Rightarrow> bool \<Rightarrow> int \<Rightarrow> bool \<times> int) \<Rightarrow> byte list list \<Rightarrow> bool \<Rightarrow> int \<Rightarrow> bool \<times> int" where
  "compute_all compute [] kf pr = (kf, pr)"
| "compute_all compute (u # us) kf pr = (let (kf1, pr1) = compute (hd u) kf pr in compute_all compute us kf1 pr1)"

context output_serializer
begin

lemma emits_unit_fold:
  assumes "stream_ok us" and "d = pre @ annexb us"
  shows "emits (State (\<lambda>ser. let (ser', kf', pr') =
      unit_fold (write_nal compute d) (length pre) us (ser, kf, pr)
      in ((kf', pr'), ser')))
    (length_prefixed (map snd us)) (compute_all compute (map snd us) kf pr)"
  using assms
proof (induction us arbitrary: pre kf pr)
  case Nil
  then show ?case by (simp add: length_prefixed_def emits_def stored_def)
next
  case (Cons scu us)
  obtain sc u where scu: "scu = (sc, u)" by (cases scu)
  have ok: "start_code sc" "unit_ok u" "stream_ok us" using Cons.prems(1) scu by simp_all
  have d: "d = pre @ sc @ u @ annexb us" using Cons.prems(2) scu by simp
  have hd: "d ! (length pre + length sc) = hd u"
    using ok(2) d by (simp add: nth_append unit_ok_def hd_conv_nth)
  have bb: "bytes_between d (length pre + length sc) (length pre + (length sc + length u)) = u"
    using bytes_between_unit(1) [of pre sc u "annexb us"] d by (simp add: add.assoc)
  let ?w = "s_wb32 (word_of_nat (length u)) \<bind> (\<lambda>_. s_write u)"
  have w: "emits ?w (be32 (word_of_nat (length u)) @ u) (length u)"
    by (rule emits_then emits_s_wb32 emits_s_write)+
  obtain kf1 pr1 where c: "compute (hd u) kf pr = (kf1, pr1)" by fastforce
  have wn: "write_nal compute d (length pre) (length pre + length sc) (length pre + (length sc + length u)) (ser, kf, pr) =
      (False, snd (run_state ?w ser), kf1, pr1)" for ser :: "'s serializer"
    using hd bb c by (simp add: write_nal_def split_beta)
  note IH = Cons.IH [OF ok(3), of "pre @ sc @ u" kf1 pr1]
  let ?m = "State (\<lambda>ser. let (ser', kf', pr') =
      unit_fold (write_nal compute d) (length (pre @ sc @ u)) us (ser, kf1, pr1)
      in ((kf', pr'), ser'))"
  have "emits (?w \<bind> (\<lambda>_. ?m)) ((be32 (word_of_nat (length u)) @ u) @ length_prefixed (map snd us))
      (compute_all compute (map snd us) kf1 pr1)"
    using w by (rule emits_then) (rule IH, use d in simp)
  then show ?case
    unfolding scu
    by (simp add: emits_def wn c length_prefixed_def Let_def split_beta add.assoc)
qed

lemma emits_serialize_nals:
  assumes "stream_ok us"
  shows "emits (serialize_nals compute base (annexb us) kf pr) (length_prefixed (map snd us))
    (compute_all compute (map snd us) kf pr)"
  unfolding serialize_nals_def nal_loop_annexb [OF assms]
  using emits_unit_fold [OF assms, of "annexb us" "[]"] by simp

end

text \<open>
  C3. The vectorised start-code scanner, with its alignment prologue, its word loop guarded
  by the zero-byte bit trick and its byte-wise tail, returns for every address of the buffer
  the first position of \<open>00 00 01\<close> that is followed by at least one byte, and the end of
  the buffer when there is none.
\<close>

theorem find_startcode_internal_first:
  "ff_avc_find_startcode_internal base d p e =
    (case List.find (\<lambda>i. d ! i = 0 \<and> d ! (i + 1) = 0 \<and> d ! (i + 2) = 1) [p..<e - 3] of
       Some q \<Rightarrow> q | None \<Rightarrow> e)"
  unfolding ff_internal_eq first_startcode_def is_startcode_def [abs_def] ..

end
