(* ===== verification/Avc.thy ===== *)
theory Avc
  imports Nal Encoder
begin

text \<open>
  AVC and HEVC elementary streams: the bit reader of \<open>libobs/util/bitstream.c\<close>, the packet
  and header parsers of \<open>libobs/obs-avc.c\<close> and the packet parsers of \<open>libobs/obs-hevc.c\<close>.
  On a well-formed stream the packet parsers replace every start code by a length and keep
  the units' bytes, and header extraction splits the stream by unit type.
\<close>

section \<open>Bit reader\<close>

record bitstream_reader =
  br_pos :: nat
  br_subPos :: u8
  br_buf :: "byte list"
  br_len :: nat

definition bitstream_reader_init :: "byte list \<Rightarrow> nat \<Rightarrow> bitstream_reader" where
  "bitstream_reader_init data len = \<lparr>br_pos = 0, br_subPos = 0x80, br_buf = data, br_len = len\<rparr>"

definition bitstream_reader_read_bit :: "bitstream_reader \<Rightarrow> u8 \<times> bitstream_reader" where
  "bitstream_reader_read_bit r =
    (if br_pos r \<ge> br_len r then (0, r)
     else
       (let bt = (if (br_buf r ! br_pos r) AND br_subPos r = br_subPos r then 1 else 0);
            sp = drop_bit 1 (br_subPos r)
        in if sp = 0 then (bt, r\<lparr>br_subPos := 0x80, br_pos := br_pos r + 1\<rparr>)
           else (bt, r\<lparr>br_subPos := sp\<rparr>)))"

fun read_bits_loop :: "nat \<Rightarrow> u8 \<Rightarrow> bitstream_reader \<Rightarrow> u8 \<times> bitstream_reader" where
  "read_bits_loop 0 res r = (res, r)"
| "read_bits_loop (Suc n) res r =
    (let (b, r1) = bitstream_reader_read_bit r in read_bits_loop n (push_bit 1 res OR b) r1)"

definition bitstream_reader_read_bits :: "bitstream_reader \<Rightarrow> nat \<Rightarrow> u8 \<times> bitstream_reader" where
  "bitstream_reader_read_bits r bits = read_bits_loop bits 0 r"

definition bitstream_reader_r8 :: "bitstream_reader \<Rightarrow> u8 \<times> bitstream_reader" where
  "bitstream_reader_r8 r = bitstream_reader_read_bits r 8"

definition bitstream_reader_r16 :: "bitstream_reader \<Rightarrow> u16 \<times> bitstream_reader" where
  "bitstream_reader_r16 r =
    (let (b, r1) = bitstream_reader_read_bits r 8; (c, r2) = bitstream_reader_read_bits r1 8
     in (push_bit 8 (ucast b) OR ucast c, r2))"

section \<open>AVC\<close>

definition OBS_NAL_SLICE :: u8 where "OBS_NAL_SLICE = 1"
definition OBS_NAL_SLICE_IDR :: u8 where "OBS_NAL_SLICE_IDR = 5"
definition OBS_NAL_SEI :: u8 where "OBS_NAL_SEI = 6"
definition OBS_NAL_SPS :: u8 where "OBS_NAL_SPS = 7"
definition OBS_NAL_PPS :: u8 where "OBS_NAL_PPS = 8"

lemmas avc_types = OBS_NAL_SLICE_def OBS_NAL_SLICE_IDR_def OBS_NAL_SEI_def OBS_NAL_SPS_def OBS_NAL_PPS_def

definition avc_type :: "byte \<Rightarrow> u8" where
  "avc_type b = b AND 0x1F"

definition obs_avc_keyframe :: "nat \<Rightarrow> byte list \<Rightarrow> bool" where
  "obs_avc_keyframe base data =
    nal_loop base data (\<lambda>codestart nal_start nal_end found.
        let type = avc_type (data ! nal_start)
        in if type = OBS_NAL_SLICE_IDR \<or> type = OBS_NAL_SLICE then (True, type = OBS_NAL_SLICE_IDR)
           else (False, found))
      (obs_nal_find_startcode base data 0 (length data)) False"

definition obs_avc_find_startcode :: "nat \<Rightarrow> byte list \<Rightarrow> nat \<Rightarrow> nat \<Rightarrow> nat" where
  "obs_avc_find_startcode base d p e = obs_nal_find_startcode base d p e"

definition compute_avc_keyframe_priority :: "byte \<Rightarrow> bool \<Rightarrow> int \<Rightarrow> bool \<times> int" where
  "compute_avc_keyframe_priority b is_keyframe priority =
    (let is_keyframe' = (if avc_type b = OBS_NAL_SLICE_IDR then True else is_keyframe);
         new_priority = uint (drop_bit 5 b)
     in (is_keyframe', if priority < new_priority then new_priority else priority))"

definition serialize_avc_data :: "nat \<Rightarrow> byte list \<Rightarrow> bool \<Rightarrow> int \<Rightarrow> ('s serializer, bool \<times> int) state" where
  "serialize_avc_data base data is_keyframe priority =
    serialize_nals compute_avc_keyframe_priority base data is_keyframe priority"

text \<open>The reference count in front of the packet data is a \<open>long\<close> of eight bytes.\<close>

definition obs_parse_avc_packet :: "nat \<Rightarrow> encoder_packet \<Rightarrow> encoder_packet" where
  "obs_parse_avc_packet base src =
    (let ref = le64 1;
         ((kf, pr), s) = run_state (do { serialize ref;
             serialize_avc_data base (p_data src) (p_keyframe src) (p_priority src) }) array_output_serializer_init
     in src\<lparr>p_data := drop (length ref) (ao_bytes (ser_data s)), p_keyframe := kf, p_priority := pr,
            p_drop_priority := pr\<rparr>)"

definition obs_parse_avc_packet_priority :: "nat \<Rightarrow> encoder_packet \<Rightarrow> int" where
  "obs_parse_avc_packet_priority base packet =
    (let data = p_data packet in
     nal_loop base data (\<lambda>codestart nal_start nal_end priority.
         (False, snd (compute_avc_keyframe_priority (data ! nal_start) False priority)))
       (obs_nal_find_startcode base data 0 (length data)) (p_priority packet))"

definition has_start_code :: "byte list \<Rightarrow> bool" where
  "has_start_code data =
    (if data ! 0 \<noteq> 0 \<or> data ! 1 \<noteq> 0 then False else data ! 2 = 1 \<or> (data ! 2 = 0 \<and> data ! 3 = 1))"

text \<open>The parameter sets: the last of each kind, as the bytes the returned pointer and size span.\<close>

definition get_sps_pps :: "nat \<Rightarrow> byte list \<Rightarrow> byte list option \<times> byte list option" where
  "get_sps_pps base data =
    nal_loop base data (\<lambda>codestart nal_start nal_end (sps, pps).
        let type = avc_type (data ! nal_start); u = bytes_between data nal_start nal_end
        in (False, if type = OBS_NAL_SPS then (Some u, pps)
                   else if type = OBS_NAL_PPS then (sps, Some u) else (sps, pps)))
      (obs_nal_find_startcode base data 0 (length data)) (None, None)"

text \<open>
  Exponential Golomb codes.  The result is cut to eight bits; \<open>1 << i\<close> at \<open>i = 32\<close>, which
  only a reader at the end of its buffer reaches and C leaves undefined, is taken as the
  hardware shifts, modulo 32.
\<close>

fun golomb_zeros :: "nat \<Rightarrow> nat \<Rightarrow> bitstream_reader \<Rightarrow> nat \<times> bitstream_reader" where
  "golomb_zeros 0 i gb = (i, gb)"
| "golomb_zeros (Suc k) i gb =
    (let (b, gb1) = bitstream_reader_read_bits gb 1 in if b = 0 then golomb_zeros k (i + 1) gb1 else (i, gb1))"

definition get_ue_golomb :: "bitstream_reader \<Rightarrow> u8 \<times> bitstream_reader" where
  "get_ue_golomb gb =
    (let (i, gb1) = golomb_zeros 32 0 gb; (v, gb2) = bitstream_reader_read_bits gb1 i
     in (v + ucast (push_bit (i mod 32) 1 :: u32) - 1, gb2))"

fun extract_rbsp :: "byte list \<Rightarrow> byte list" where
  "extract_rbsp (a # b # c # xs) =
    (if a = 0 \<and> b = 0 \<and> c = 3 then a # b # extract_rbsp xs else a # extract_rbsp (b # c # xs))"
| "extract_rbsp xs = xs"

definition get_sps_high_params :: "byte list \<Rightarrow> u8 \<times> u8 \<times> u8" where
  "get_sps_high_params sps =
    (let rbsp = extract_rbsp sps;
         gb0 = bitstream_reader_init rbsp (length rbsp);
         (_, gb1) = bitstream_reader_read_bits gb0 24;
         (_, gb2) = get_ue_golomb gb1;
         (chroma_format_idc, gb3) = get_ue_golomb gb2;
         gb4 = (if chroma_format_idc = 3 then snd (bitstream_reader_read_bits gb3 1) else gb3);
         (bit_depth_luma, gb5) = get_ue_golomb gb4;
         (bit_depth_chroma, _) = get_ue_golomb gb5
     in (chroma_format_idc, bit_depth_luma, bit_depth_chroma))"

text \<open>The returned header; a returned size of zero is the empty list.\<close>

definition write_avc_header :: "byte list \<Rightarrow> byte list \<Rightarrow> ('s serializer, unit) state" where
  "write_avc_header sps pps = do {
     s_w8 0x01;
     s_write (take 3 (drop 1 sps));
     s_w8 0xff;
     s_w8 0xe1;
     s_wb16 (word_of_nat (length sps));
     s_write sps;
     s_w8 0x01;
     s_wb16 (word_of_nat (length pps));
     s_write pps;
     let profile_idc = sps ! 1;
     if profile_idc = 100 \<or> profile_idc = 110 \<or> profile_idc = 122 \<or> profile_idc = 244 then
       (let (chroma_format_idc, bit_depth_luma, bit_depth_chroma) = get_sps_high_params (drop 1 sps)
        in do {
          s_w8 (0xfc OR chroma_format_idc);
          s_w8 (0xf8 OR bit_depth_luma);
          s_w8 (0xf8 OR bit_depth_chroma);
          s_w8 0 })
     else State_Monad.return () }"

definition obs_parse_avc_header :: "nat \<Rightarrow> byte list \<Rightarrow> byte list" where
  "obs_parse_avc_header base data =
    (if length data \<le> 6 then []
     else if \<not> has_start_code data then data
     else (case get_sps_pps base data of
         (Some sps, Some pps) \<Rightarrow>
           if length sps < 4 then []
           else ao_bytes (ser_data (snd (run_state (write_avc_header sps pps) array_output_serializer_init)))
       | _ \<Rightarrow> []))"

text \<open>New packet, header and SEI data, in the order of the output parameters.\<close>

definition obs_extract_avc_headers :: "nat \<Rightarrow> byte list \<Rightarrow> byte list \<times> byte list \<times> byte list" where
  "obs_extract_avc_headers base packet =
    (let e = length packet in
     nal_loop base packet (\<lambda>nal_codestart nal_start nal_end (new_packet, header, sei).
         let type = avc_type (packet ! nal_start); u = bytes_between packet nal_codestart nal_end
         in (nal_end = e,
             if type = OBS_NAL_SPS \<or> type = OBS_NAL_PPS then (new_packet, header @ u, sei)
             else if type = OBS_NAL_SEI then (new_packet, header, sei @ u)
             else (new_packet @ u, header, sei)))
       (obs_nal_find_startcode base packet 0 e) ([], [], []))"

section \<open>HEVC\<close>

definition hevc_type :: "byte \<Rightarrow> nat" where
  "hevc_type b = unat (drop_bit 1 (b AND 0x7F))"

definition obs_hevc_keyframe :: "nat \<Rightarrow> byte list \<Rightarrow> bool" where
  "obs_hevc_keyframe base data =
    nal_loop base data (\<lambda>codestart nal_start nal_end found.
        let type = hevc_type (data ! nal_start)
        in if type \<le> 23 then (True, 16 \<le> type) else (False, found))
      (obs_nal_find_startcode base data 0 (length data)) False"

definition compute_hevc_keyframe_priority :: "byte \<Rightarrow> bool \<Rightarrow> int \<Rightarrow> bool \<times> int" where
  "compute_hevc_keyframe_priority b is_keyframe priority =
    (let type = hevc_type b;
         (is_keyframe', new_priority) =
           (if type \<in> {16, 17, 18, 19, 20, 21, 22, 23} then (True, 3)
            else if type \<in> {1, 3, 5, 7, 9} then (is_keyframe, 2)
            else (is_keyframe, 0))
     in (is_keyframe', if priority > new_priority then priority else new_priority))"

definition serialize_hevc_data :: "nat \<Rightarrow> byte list \<Rightarrow> bool \<Rightarrow> int \<Rightarrow> ('s serializer, bool \<times> int) state" where
  "serialize_hevc_data base data is_keyframe priority =
    serialize_nals compute_hevc_keyframe_priority base data is_keyframe priority"

definition obs_parse_hevc_packet :: "nat \<Rightarrow> encoder_packet \<Rightarrow> encoder_packet" where
  "obs_parse_hevc_packet base src =
    (let ref = le64 1;
         ((kf, pr), s) = run_state (do { serialize ref;
             serialize_hevc_data base (p_data src) (p_keyframe src) (p_priority src) }) array_output_serializer_init
     in src\<lparr>p_data := drop (length ref) (ao_bytes (ser_data s)), p_keyframe := kf, p_priority := pr,
            p_drop_priority := pr\<rparr>)"

definition obs_parse_hevc_packet_priority :: "nat \<Rightarrow> encoder_packet \<Rightarrow> int" where
  "obs_parse_hevc_packet_priority base packet =
    (let data = p_data packet in
     nal_loop base data (\<lambda>codestart nal_start nal_end priority.
         (False, snd (compute_hevc_keyframe_priority (data ! nal_start) False priority)))
       (obs_nal_find_startcode base data 0 (length data)) (p_priority packet))"

definition obs_extract_hevc_headers :: "nat \<Rightarrow> byte list \<Rightarrow> byte list \<times> byte list \<times> byte list" where
  "obs_extract_hevc_headers base packet =
    (let e = length packet in
     nal_loop base packet (\<lambda>nal_codestart nal_start nal_end (new_packet, header, sei).
         let type = hevc_type (packet ! nal_start); u = bytes_between packet nal_codestart nal_end
         in (nal_end = e,
             if type = 32 \<or> type = 33 \<or> type = 34 then (new_packet, header @ u, sei)
             else if type = 39 \<or> type = 40 then (new_packet, header, sei @ u)
             else (new_packet @ u, header, sei)))
       (obs_nal_find_startcode base packet 0 e) ([], [], []))"

section \<open>Packet conversion\<close>

lemma run_serialize_ref:
  "run_state (serialize d) array_output_serializer_init =
    (length d, array_output_serializer_init\<lparr>ser_data := \<lparr>ao_bytes = d, ao_cur_pos = length d\<rparr>\<rparr>)"
  by (simp add: serialize_def array_output_serializer_init_def array_output_write_def)

lemma serialize_after_ref:
  assumes "arr.emits m bs r" and "length bs < 2 ^ 62"
  shows "\<exists>s. run_state (serialize (le64 1) \<bind> (\<lambda>_. m)) array_output_serializer_init = (r, s) \<and>
    ao_bytes (ser_data s) = le64 1 @ bs"
proof -
  let ?s = "array_output_serializer_init\<lparr>ser_data := \<lparr>ao_bytes = le64 1, ao_cur_pos = 8\<rparr>\<rparr>"
  have "arr.ready ?s" "array_cursor ?s + length bs < 2 ^ 63"
    using assms(2) by (simp_all add: arr.ready_def array_valid_def array_content_def array_cursor_def
        array_output_serializer_init_def)
  then obtain s where "run_state m ?s = (r, s)" "arr.stored ?s bs s"
    using arr.emitsD [OF assms(1)] by blast
  then show ?thesis
    by (auto simp: run_serialize_ref arr.stored_def array_content_def array_cursor_def write_at_def)
qed

lemma compute_all_avc:
  "compute_all compute_avc_keyframe_priority us kf pr =
    (kf \<or> (\<exists>u \<in> set us. avc_type (hd u) = OBS_NAL_SLICE_IDR),
     fold (\<lambda>u p. max p (uint (drop_bit 5 (hd u)))) us pr)"
  by (induction us arbitrary: kf pr)
    (auto simp: compute_avc_keyframe_priority_def Let_def max_def)

lemma compute_all_hevc:
  assumes "0 \<le> pr"
  shows "compute_all compute_hevc_keyframe_priority us kf pr =
    (kf \<or> (\<exists>u \<in> set us. 16 \<le> hevc_type (hd u) \<and> hevc_type (hd u) \<le> 23),
     fold (\<lambda>u p. max p (if 16 \<le> hevc_type (hd u) \<and> hevc_type (hd u) \<le> 23 then 3
                        else if hevc_type (hd u) \<in> {1, 3, 5, 7, 9} then 2 else 0)) us pr)"
  using assms
proof (induction us arbitrary: kf pr)
  case (Cons u us)
  have irap: "hevc_type (hd u) \<in> {16, 17, 18, 19, 20, 21, 22, 23} \<longleftrightarrow> 16 \<le> hevc_type (hd u) \<and> hevc_type (hd u) \<le> 23"
    by auto
  show ?case
    using Cons by (auto simp only: compute_all.simps compute_hevc_keyframe_priority_def Let_def irap split: if_splits)
      (auto simp: max_def)
qed simp

text \<open>
  C4. On a well-formed Annex B stream the AVC packet parser yields exactly the stream's
  units, each behind its 32-bit big-endian length, marks the packet as a key frame when it
  was one or contains an IDR slice, and raises the priority to the highest \<open>nal_ref_idc\<close>.
\<close>

theorem avc_packet_converted:
  assumes "stream_ok us" and "p_data src = annexb us" and "length (length_prefixed (map snd us)) < 2 ^ 62"
  shows "obs_parse_avc_packet base src =
    src\<lparr>p_data := length_prefixed (map snd us),
        p_keyframe := p_keyframe src \<or> (\<exists>u \<in> set (map snd us). avc_type (hd u) = OBS_NAL_SLICE_IDR),
        p_priority := fold (\<lambda>u p. max p (uint (drop_bit 5 (hd u)))) (map snd us) (p_priority src),
        p_drop_priority := fold (\<lambda>u p. max p (uint (drop_bit 5 (hd u)))) (map snd us) (p_priority src)\<rparr>"
  using serialize_after_ref [OF arr.emits_serialize_nals [OF assms(1)] assms(3),
      of compute_avc_keyframe_priority base "p_keyframe src" "p_priority src"] assms(2)
  by (auto simp: obs_parse_avc_packet_def serialize_avc_data_def compute_all_avc Let_def)

definition sample_stream :: "(byte list \<times> byte list) list" where
  "sample_stream = [([0, 0, 0, 1], [0x67, 1, 2]), ([0, 0, 1], [0x68, 0, 3]), ([0, 0, 1], [0x65, 0, 0, 2, 7])]"

definition sample_packet :: encoder_packet where
  "sample_packet = \<lparr>p_data = annexb sample_stream, p_pts = 0, p_dts = 0, p_timebase_num = 1, p_timebase_den = 60,
     p_type = OBS_ENCODER_VIDEO, p_keyframe = False, p_dts_usec = 0, p_sys_dts_usec = 0, p_priority = 0,
     p_drop_priority = 0, p_track_idx = 0, p_encoder = None\<rparr>"

lemma sample_stream_ok: "stream_ok sample_stream"
  by (auto simp: sample_stream_def start_code_def unit_ok_def is_startcode_def less_Suc_eq)

theorem avc_packet_converted_witness:
  "p_data (obs_parse_avc_packet 1 sample_packet) =
     [0, 0, 0, 3, 0x67, 1, 2, 0, 0, 0, 3, 0x68, 0, 3, 0, 0, 0, 5, 0x65, 0, 0, 2, 7] \<and>
   p_keyframe (obs_parse_avc_packet 1 sample_packet) \<and> p_priority (obs_parse_avc_packet 1 sample_packet) = 3"
proof -
  have "length (length_prefixed (map snd sample_stream)) < 2 ^ 62"
    by (simp add: sample_stream_def length_prefixed_def)
  from avc_packet_converted [OF sample_stream_ok _ this, of sample_packet 1]
  show ?thesis
    by (simp add: sample_packet_def sample_stream_def length_prefixed_def be32_def be16_def avc_type_def avc_types)
qed



section \<open>Header extraction\<close>

text \<open>The common shape of the two extraction loops, over the codec's two unit classes.\<close>

definition split_body :: "(byte \<Rightarrow> bool) \<Rightarrow> (byte \<Rightarrow> bool) \<Rightarrow> byte list \<Rightarrow> nat \<Rightarrow> nat \<Rightarrow> nat \<Rightarrow>
    byte list \<times> byte list \<times> byte list \<Rightarrow> bool \<times> byte list \<times> byte list \<times> byte list" where
  "split_body is_hdr is_sei d c s n st = (case st of (new_packet, header, sei) \<Rightarrow>
     (n = length d,
      if is_hdr (d ! s) then (new_packet, header @ bytes_between d c n, sei)
      else if is_sei (d ! s) then (new_packet, header, sei @ bytes_between d c n)
      else (new_packet @ bytes_between d c n, header, sei)))"

lemma annexb_Nil_iff: "stream_ok us \<Longrightarrow> annexb us = [] \<longleftrightarrow> us = []"
  by (cases us) (auto simp: unit_ok_def)

lemma unit_fold_split:
  assumes "stream_ok us" and "d = pre @ annexb us"
  shows "unit_fold (split_body is_hdr is_sei d) (length pre) us (a, b, c) =
    (a @ annexb (filter (\<lambda>(sc, u). \<not> is_hdr (hd u) \<and> \<not> is_sei (hd u)) us),
     b @ annexb (filter (\<lambda>(sc, u). is_hdr (hd u)) us),
     c @ annexb (filter (\<lambda>(sc, u). \<not> is_hdr (hd u) \<and> is_sei (hd u)) us))"
  using assms
proof (induction us arbitrary: pre a b c)
  case (Cons scu us)
  obtain sc u where scu: "scu = (sc, u)" by (cases scu)
  have ok: "unit_ok u" "stream_ok us" using Cons.prems(1) scu by simp_all
  have d: "d = pre @ sc @ u @ annexb us" using Cons.prems(2) scu by simp
  have hd: "d ! (length pre + length sc) = hd u"
    using ok(1) d by (simp add: nth_append unit_ok_def hd_conv_nth)
  have bb: "bytes_between d (length pre) (length pre + (length sc + length u)) = sc @ u"
    using bytes_between_unit(2) [of pre sc u "annexb us"] d by (simp add: add.assoc)
  have stop: "length pre + (length sc + length u) = length d \<longleftrightarrow> us = []"
    using d annexb_Nil_iff [OF ok(2)] by simp
  have IH: "unit_fold (split_body is_hdr is_sei d) (length pre + (length sc + length u)) us (a, b, c) =
    (a @ annexb (filter (\<lambda>(sc, u). \<not> is_hdr (hd u) \<and> \<not> is_sei (hd u)) us),
     b @ annexb (filter (\<lambda>(sc, u). is_hdr (hd u)) us),
     c @ annexb (filter (\<lambda>(sc, u). \<not> is_hdr (hd u) \<and> is_sei (hd u)) us))" for a b c
    using Cons.IH [OF ok(2), of "pre @ sc @ u" a b c] d by simp
  have step: "split_body is_hdr is_sei d (length pre) (length pre + length sc) (length pre + (length sc + length u)) (a, b, c) =
    (us = [], if is_hdr (hd u) then (a, b @ sc @ u, c) else if is_sei (hd u) then (a, b, c @ sc @ u)
              else (a @ sc @ u, b, c))" for a b c
    by (simp add: split_body_def hd bb stop)
  show ?case
    by (cases "us = []") (simp_all add: scu step IH add.assoc)
qed simp

lemma obs_extract_avc_headers_split:
  "obs_extract_avc_headers base d = nal_loop base d
     (split_body (\<lambda>b. avc_type b \<in> {OBS_NAL_SPS, OBS_NAL_PPS}) (\<lambda>b. avc_type b = OBS_NAL_SEI) d)
     (obs_nal_find_startcode base d 0 (length d)) ([], [], [])"
  unfolding obs_extract_avc_headers_def Let_def
  by (rule arg_cong [where f = "\<lambda>f. nal_loop base d f _ _"]) (auto simp: fun_eq_iff split_body_def)

lemma obs_extract_hevc_headers_split:
  "obs_extract_hevc_headers base d = nal_loop base d
     (split_body (\<lambda>b. hevc_type b \<in> {32, 33, 34}) (\<lambda>b. hevc_type b \<in> {39, 40}) d)
     (obs_nal_find_startcode base d 0 (length d)) ([], [], [])"
  unfolding obs_extract_hevc_headers_def Let_def
  by (rule arg_cong [where f = "\<lambda>f. nal_loop base d f _ _"]) (auto simp: fun_eq_iff split_body_def)

text \<open>
  C6. Header extraction partitions a well-formed AVC or HEVC stream by unit type: parameter
  sets to the header, SEI messages to the SEI data, everything else to the packet, each with
  its start codes and in its original order.
\<close>

theorem extract_headers_partition:
  assumes "stream_ok us"
  shows "obs_extract_avc_headers base (annexb us) =
      (annexb (filter (\<lambda>(sc, u). avc_type (hd u) \<notin> {OBS_NAL_SPS, OBS_NAL_PPS, OBS_NAL_SEI}) us),
       annexb (filter (\<lambda>(sc, u). avc_type (hd u) \<in> {OBS_NAL_SPS, OBS_NAL_PPS}) us),
       annexb (filter (\<lambda>(sc, u). avc_type (hd u) = OBS_NAL_SEI) us)) \<and>
    obs_extract_hevc_headers base (annexb us) =
      (annexb (filter (\<lambda>(sc, u). hevc_type (hd u) \<notin> {32, 33, 34, 39, 40}) us),
       annexb (filter (\<lambda>(sc, u). hevc_type (hd u) \<in> {32, 33, 34}) us),
       annexb (filter (\<lambda>(sc, u). hevc_type (hd u) \<in> {39, 40}) us))"
proof -
  have filt: "annexb (filter P us) = annexb (filter Q us)" if "\<And>x. P x = Q x" for P Q
    using that by (metis filter_cong)
  show ?thesis
    unfolding obs_extract_avc_headers_split obs_extract_hevc_headers_split nal_loop_annexb [OF assms]
    using unit_fold_split [OF assms, of "annexb us" "[]"]
    by (simp, intro conjI filt) (auto simp: avc_types)
qed

theorem extract_headers_partition_witness:
  "obs_extract_avc_headers 2 (annexb sample_stream) =
    ([0, 0, 1, 0x65, 0, 0, 2, 7], [0, 0, 0, 1, 0x67, 1, 2, 0, 0, 1, 0x68, 0, 3], [])"
proof -
  have "stream_ok sample_stream" by (rule sample_stream_ok)
  from extract_headers_partition [OF this, of 2] show ?thesis
    by (simp add: sample_stream_def avc_type_def avc_types)
qed

section \<open>The decoder configuration record\<close>

definition last_of_type :: "u8 \<Rightarrow> byte list list \<Rightarrow> byte list option" where
  "last_of_type t us = List.find (\<lambda>u. avc_type (hd u) = t) (rev us)"

lemma last_of_type_Cons:
  "last_of_type t (u # us) = (case last_of_type t us of Some v \<Rightarrow> Some v
     | None \<Rightarrow> if avc_type (hd u) = t then Some u else None)"
proof -
  have "List.find P (xs @ [y]) = (case List.find P xs of Some v \<Rightarrow> Some v | None \<Rightarrow> if P y then Some y else None)"
    for P and xs :: "byte list list" and y by (induction xs) auto
  then show ?thesis by (simp add: last_of_type_def)
qed

definition sps_body :: "byte list \<Rightarrow> nat \<Rightarrow> nat \<Rightarrow> nat \<Rightarrow> byte list option \<times> byte list option \<Rightarrow>
    bool \<times> byte list option \<times> byte list option" where
  "sps_body data c s n st = (case st of (sps, pps) \<Rightarrow>
     let type = avc_type (data ! s); u = bytes_between data s n
     in (False, if type = OBS_NAL_SPS then (Some u, pps)
                else if type = OBS_NAL_PPS then (sps, Some u) else (sps, pps)))"

lemma unit_fold_sps:
  assumes "stream_ok us" and "d = pre @ annexb us"
  shows "unit_fold (sps_body d) (length pre) us (x, y) =
    (case last_of_type OBS_NAL_SPS (map snd us) of Some v \<Rightarrow> Some v | None \<Rightarrow> x,
     case last_of_type OBS_NAL_PPS (map snd us) of Some v \<Rightarrow> Some v | None \<Rightarrow> y)"
  using assms
proof (induction us arbitrary: pre x y)
  case (Cons scu us)
  obtain sc u where scu: "scu = (sc, u)" by (cases scu)
  have ok: "unit_ok u" "stream_ok us" using Cons.prems(1) scu by simp_all
  have d: "d = pre @ sc @ u @ annexb us" using Cons.prems(2) scu by simp
  have hd: "d ! (length pre + length sc) = hd u"
    using ok(1) d by (simp add: nth_append unit_ok_def hd_conv_nth)
  have bb: "bytes_between d (length pre + length sc) (length pre + (length sc + length u)) = u"
    using bytes_between_unit(1) [of pre sc u "annexb us"] d by (simp add: add.assoc)
  have IH: "unit_fold (sps_body d) (length pre + (length sc + length u)) us (x, y) =
    (case last_of_type OBS_NAL_SPS (map snd us) of Some v \<Rightarrow> Some v | None \<Rightarrow> x,
     case last_of_type OBS_NAL_PPS (map snd us) of Some v \<Rightarrow> Some v | None \<Rightarrow> y)" for x y
    using Cons.IH [OF ok(2), of "pre @ sc @ u" x y] d by simp
  have step: "sps_body d (length pre) (length pre + length sc) (length pre + (length sc + length u)) (x, y) =
    (False, if avc_type (hd u) = OBS_NAL_SPS then (Some u, y)
            else if avc_type (hd u) = OBS_NAL_PPS then (x, Some u) else (x, y))" for x y
    by (simp add: sps_body_def hd bb Let_def)
  show ?case
    by (simp add: scu step IH add.assoc last_of_type_Cons avc_types split: option.split)
qed (simp add: last_of_type_def)

lemma get_sps_pps_stream:
  assumes "stream_ok us"
  shows "get_sps_pps base (annexb us) =
    (last_of_type OBS_NAL_SPS (map snd us), last_of_type OBS_NAL_PPS (map snd us))"
proof -
  have eq: "get_sps_pps base d = nal_loop base d (sps_body d) (obs_nal_find_startcode base d 0 (length d)) (None, None)" for d
    unfolding get_sps_pps_def
    by (rule arg_cong [where f = "\<lambda>f. nal_loop base d f _ _"]) (auto simp: fun_eq_iff sps_body_def)
  show ?thesis
    unfolding eq nal_loop_annexb [OF assms] using unit_fold_sps [OF assms, of "annexb us" "[]" None None]
    by (simp split: option.split)
qed

definition high_profile :: "byte \<Rightarrow> bool" where
  "high_profile b \<longleftrightarrow> b \<in> {100, 110, 122, 244}"

definition avc_record :: "byte list \<Rightarrow> byte list \<Rightarrow> byte list" where
  "avc_record sps pps = [1] @ take 3 (drop 1 sps) @ [0xff, 0xe1] @ be16 (word_of_nat (length sps)) @ sps @
     [1] @ be16 (word_of_nat (length pps)) @ pps @
     (if high_profile (sps ! 1) then
        (case get_sps_high_params (drop 1 sps) of (c, l, k) \<Rightarrow> [0xfc OR c, 0xf8 OR l, 0xf8 OR k, 0])
      else [])"

lemma emits_write_avc_header: "arr.emits (write_avc_header sps pps) (avc_record sps pps) ()"
proof -
  obtain c l k where p: "get_sps_high_params (drop 1 sps) = (c, l, k)" by (cases "get_sps_high_params (drop 1 sps)")
  let ?tl = "if high_profile (sps ! 1) then do { s_w8 (0xfc OR c); s_w8 (0xf8 OR l); s_w8 (0xf8 OR k); s_w8 0 }
    else State_Monad.return ()"
  have "arr.emits ?tl (if high_profile (sps ! 1) then [0xfc OR c] @ [0xf8 OR l] @ [0xf8 OR k] @ [0] else []) ()"
    using arr.emits_then [OF arr.emits_s_w8 arr.emits_then [OF arr.emits_s_w8 arr.emits_then [OF arr.emits_s_w8 arr.emits_s_w8]]]
      arr.emits_return [of "()"] by simp
  note tl = this
  have "arr.emits (do { s_w8 0x01; s_write (take 3 (drop 1 sps)); s_w8 0xff; s_w8 0xe1;
      s_wb16 (word_of_nat (length sps)); s_write sps; s_w8 0x01; s_wb16 (word_of_nat (length pps)); s_write pps; ?tl })
    ([0x01] @ take 3 (drop 1 sps) @ [0xff] @ [0xe1] @ be16 (word_of_nat (length sps)) @ sps @ [0x01] @
     be16 (word_of_nat (length pps)) @ pps @
     (if high_profile (sps ! 1) then [0xfc OR c] @ [0xf8 OR l] @ [0xf8 OR k] @ [0] else [])) ()"
    by (rule arr.emits_then arr.emits_s_w8 arr.emits_s_write arr.emits_s_wb16 tl)+
  then show ?thesis
    by (cases "high_profile (sps ! 1)")
      (simp_all add: write_avc_header_def avc_record_def high_profile_def p [unfolded One_nat_def])
qed

text \<open>
  C7. From a well-formed start-code header the AVC parser builds the decoder configuration
  record of the last SPS and the last PPS: version, the three profile bytes, both parameter
  sets behind their 16-bit lengths, and the chroma and bit-depth extension exactly for the
  high profiles.
\<close>

theorem avc_header_record:
  assumes "stream_ok us"
    and "last_of_type OBS_NAL_SPS (map snd us) = Some sps"
    and "last_of_type OBS_NAL_PPS (map snd us) = Some pps"
    and "4 \<le> length sps" and "length (avc_record sps pps) < 2 ^ 62"
  shows "obs_parse_avc_header base (annexb us) = avc_record sps pps"
proof -
  obtain sc u vs where us: "us = (sc, u) # vs"
    using assms(2) by (cases us) (auto simp: last_of_type_def)
  have sc: "start_code sc" "u \<noteq> []" using assms(1) us by (auto simp: unit_ok_def)
  then have hs: "has_start_code (annexb us)"
    using us by (auto simp: has_start_code_def start_code_def nth_append)
  have "sps \<in> set (map snd us)"
    using assms(2) unfolding last_of_type_def find_Some_iff by (metis nth_mem set_rev)
  then have "length sps \<le> length (concat (map snd us))"
    unfolding length_concat by (intro member_le_sum_list) auto
  moreover have "length (concat (map snd us)) + 3 \<le> length (annexb us)"
  proof -
    have "length (concat (map snd ws)) \<le> length (annexb ws)" for ws by (induction ws) (auto simp: annexb_def)
    from this [of vs] show ?thesis using us sc by (auto simp: start_code_def)
  qed
  ultimately have len: "6 < length (annexb us)" using assms(4) by simp
  let ?s = "array_output_serializer_init"
  have "arr.ready ?s" "array_cursor ?s + length (avc_record sps pps) < 2 ^ 63"
    using assms(5) by (simp_all add: arr.ready_def array_valid_def array_content_def array_cursor_def
        array_output_serializer_init_def)
  then obtain s where "run_state (write_avc_header sps pps) ?s = ((), s)" "arr.stored ?s (avc_record sps pps) s"
    using arr.emitsD [OF emits_write_avc_header] by blast
  then have "ao_bytes (ser_data (snd (run_state (write_avc_header sps pps) ?s))) = avc_record sps pps"
    by (simp add: arr.stored_def array_content_def array_cursor_def array_output_serializer_init_def write_at_def)
  then show ?thesis
    using len hs assms(2-4) by (simp add: obs_parse_avc_header_def get_sps_pps_stream [OF assms(1)])
qed

theorem avc_header_record_witness:
  "obs_parse_avc_header 0 (annexb [([0, 0, 0, 1], [0x67, 66, 0, 30, 5]), ([0, 0, 1], [0x68, 2])]) =
    [1, 66, 0, 30, 0xff, 0xe1, 0, 5, 0x67, 66, 0, 30, 5, 1, 0, 2, 0x68, 2]"
proof -
  let ?us = "[([0::byte, 0, 0, 1], [0x67::byte, 66, 0, 30, 5]), ([0, 0, 1], [0x68, 2])]"
  have "stream_ok ?us" by (auto simp: start_code_def unit_ok_def is_startcode_def less_Suc_eq)
  moreover have "last_of_type OBS_NAL_SPS (map snd ?us) = Some [0x67, 66, 0, 30, 5]"
    "last_of_type OBS_NAL_PPS (map snd ?us) = Some [0x68, 2]"
    by (simp_all add: last_of_type_def avc_type_def avc_types)
  ultimately show ?thesis
    using avc_header_record [of ?us "[0x67, 66, 0, 30, 5]" "[0x68, 2]" 0]
    by (simp add: avc_record_def be16_def high_profile_def)
qed

end
