(* ===== verification/Obu.thy ===== *)
theory Obu
  imports Prelude
begin

text \<open>
  AV1 open bitstream units as \<open>libobs/obs-av1.c\<close> reads and writes them: the variable-length
  integers, the unit header, metadata units, the key frame test and header extraction.

  The C code shifts an \<open>int\<close> by up to 49 bits and trusts the sizes found in the data; where
  that leaves the language's defined behaviour or the given buffer, the model yields
  \<open>None\<close>.  The theorems show on which inputs the functions are defined and what they
  compute there.
\<close>

section \<open>Variable-length integers\<close>

fun leb128_loop :: "nat \<Rightarrow> byte list \<Rightarrow> u64 \<Rightarrow> nat \<Rightarrow> (u64 \<times> nat) option" where
  "leb128_loop i buf value len =
    (if 8 \<le> i then Some (value, len)
     else (case buf of
         [] \<Rightarrow> Some (value, len)
       | leb128_byte # rest \<Rightarrow>
           (let shifted = push_bit (i * 7) (unat (leb128_byte AND 0x7F))
            in if 32 \<le> i * 7 \<or> 2 ^ 31 \<le> shifted then None
               else
                 (let value1 = value OR word_of_nat shifted
                  in if leb128_byte AND 0x80 = 0 then Some (value1, len + 1)
                     else leb128_loop (i + 1) rest value1 (len + 1)))))"

declare leb128_loop.simps [simp del]

definition leb128 :: "byte list \<Rightarrow> (u64 \<times> nat) option" where
  "leb128 buf = leb128_loop 0 buf 0 0"

function encode_uleb128_loop :: "u64 \<Rightarrow> u8 \<Rightarrow> byte list" where
  "encode_uleb128_loop val b =
    (if val > 0 then (b OR 0x80) # encode_uleb128_loop (drop_bit 7 val) (ucast (val AND 0x7F)) else [b])"
  by pat_completeness auto
termination
proof (relation "measure (\<lambda>(val, b). unat val)")
  fix val :: u64 assume "val > 0"
  then have "0 < unat val" by (simp add: unat_gt_0)
  then show "((drop_bit 7 val, ucast (val AND 0x7F)), val, b) \<in> measure (\<lambda>(val, b). unat val)" for b :: u8
    by (simp add: drop_bit_eq_div unat_div)
qed simp

declare encode_uleb128_loop.simps [simp del]

definition encode_uleb128 :: "u64 \<Rightarrow> byte list" where
  "encode_uleb128 val = encode_uleb128_loop (drop_bit 7 val) (ucast (val AND 0x7F))"

section \<open>Unit headers\<close>

definition get_bits :: "u8 \<Rightarrow> nat \<Rightarrow> nat \<Rightarrow> nat" where
  "get_bits val n count = drop_bit (8 - n - count) (unat val) AND (2 ^ (count - 1) * 2 - 1)"

record obu_header =
  obu_start :: nat
  obu_size :: nat
  obu_type :: nat

definition parse_obu_header :: "byte list \<Rightarrow> obu_header option" where
  "parse_obu_header buf = (case buf of
      [] \<Rightarrow> Some \<lparr>obu_start = 0, obu_size = 0, obu_type = 0\<rparr>
    | b # _ \<Rightarrow>
        (let ty = get_bits b 1 4;
             extension_flag = get_bits b 5 1;
             has_size_field = get_bits b 6 1;
             start = (if extension_flag \<noteq> 0 then 2 else 1)
         in if has_size_field \<noteq> 0 then
              if length buf < start then None
              else map_option (\<lambda>(value, size_len). \<lparr>obu_start = start + size_len, obu_size = unat value, obu_type = ty\<rparr>)
                (leb128 (drop start buf))
            else Some \<lparr>obu_start = start, obu_size = length buf - 1, obu_type = ty\<rparr>))"

definition OBS_OBU_SEQUENCE_HEADER :: nat where "OBS_OBU_SEQUENCE_HEADER = 1"
definition OBS_OBU_FRAME_HEADER :: nat where "OBS_OBU_FRAME_HEADER = 3"
definition OBS_OBU_METADATA :: nat where "OBS_OBU_METADATA = 5"
definition OBS_OBU_FRAME :: nat where "OBS_OBU_FRAME = 6"
definition METADATA_TYPE_ITUT_T35 :: u8 where "METADATA_TYPE_ITUT_T35 = 4"

lemmas obu_types = OBS_OBU_SEQUENCE_HEADER_def OBS_OBU_FRAME_HEADER_def OBS_OBU_METADATA_def OBS_OBU_FRAME_def

definition metadata_obu :: "byte list \<Rightarrow> u8 \<Rightarrow> byte list" where
  "metadata_obu source_buffer metadata_type =
    (let obu_header_byte = word_of_nat (push_bit 3 OBS_OBU_METADATA OR push_bit 1 1);
         size_field = (1 + word_of_nat (length source_buffer) + 1 :: u64)
     in [obu_header_byte] @ encode_uleb128 size_field @ [metadata_type] @ source_buffer @ [0x80])"

definition metadata_obu_itu_t35 :: "byte list \<Rightarrow> byte list" where
  "metadata_obu_itu_t35 itut_t35_buffer = metadata_obu itut_t35_buffer METADATA_TYPE_ITUT_T35"

section \<open>Walking the units of a packet\<close>

text \<open>Every step moves on by at least the header byte.\<close>

lemma parse_obu_header_start: "parse_obu_header buf = Some h \<Longrightarrow> buf \<noteq> [] \<Longrightarrow> 1 \<le> obu_start h"
  by (auto simp: parse_obu_header_def Let_def split: list.splits if_splits)

function obs_av1_keyframe :: "byte list \<Rightarrow> bool option" where
  "obs_av1_keyframe data =
    (if data = [] then Some False
     else (case parse_obu_header data of
         None \<Rightarrow> None
       | Some h \<Rightarrow>
           if obu_size h \<noteq> 0 \<and> (obu_type h = OBS_OBU_FRAME \<or> obu_type h = OBS_OBU_FRAME_HEADER) then
             if length data \<le> obu_start h then None
             else
               (let val = data ! obu_start h
                in Some (get_bits val 0 1 = 0 \<and> get_bits val 1 2 = 0))
           else obs_av1_keyframe (drop (obu_start h + obu_size h) data)))"
  by pat_completeness auto
termination
  by (relation "measure length") (use parse_obu_header_start in \<open>fastforce simp: Suc_le_eq\<close>)+

declare obs_av1_keyframe.simps [simp del]

function extract_av1_loop :: "byte list \<Rightarrow> byte list \<Rightarrow> byte list \<Rightarrow> (byte list \<times> byte list) option" where
  "extract_av1_loop data new_packet header =
    (if data = [] then Some (new_packet, header)
     else (case parse_obu_header data of
         None \<Rightarrow> None
       | Some h \<Rightarrow>
           (let n = obu_start h + obu_size h
            in if length data < n then None
               else extract_av1_loop (drop n data) (new_packet @ take n data)
                 (if obu_type h = OBS_OBU_METADATA \<or> obu_type h = OBS_OBU_SEQUENCE_HEADER then header @ take n data
                  else header))))"
  by pat_completeness auto
termination
  by (relation "measure (\<lambda>(data, _, _). length data)") (use parse_obu_header_start in \<open>fastforce simp: Suc_le_eq\<close>)+

declare extract_av1_loop.simps [simp del]

definition obs_extract_av1_headers :: "byte list \<Rightarrow> (byte list \<times> byte list) option" where
  "obs_extract_av1_headers packet = extract_av1_loop packet [] []"

section \<open>Round trips\<close>

text \<open>The encoding in terms of natural numbers: groups of seven bits, lowest first.\<close>

function uleb :: "nat \<Rightarrow> byte list" where
  "uleb n = (if n < 128 then [word_of_nat n] else word_of_nat (n mod 128 + 128) # uleb (n div 128))"
  by pat_completeness auto
termination by (relation "measure id") auto

declare uleb.simps [simp del]

lemma or_high_bit:
  assumes "n < 128"
  shows "(word_of_nat n :: u8) OR 0x80 = word_of_nat (n + 128)"
proof -
  have "n OR 128 = n + 128" using or_push_bit_nat [of n 7 1] assms by simp
  then show ?thesis by (metis of_nat_numeral of_nat_or_eq)
qed

lemma encode_uleb128_uleb: "encode_uleb128 v = uleb (unat v)"
proof -
  have "encode_uleb128_loop (drop_bit 7 v) (ucast (v AND 0x7F)) = uleb (unat v)" for v
  proof (induction "unat v" arbitrary: v rule: less_induct)
    case less
    have low: "(ucast (v AND 0x7F) :: u8) = word_of_nat (unat v mod 128)"
    proof -
      have "v AND 0x7F = take_bit 7 v" by (simp add: take_bit_eq_mask mask_eq_exp_minus_1)
      then have "unat (v AND 0x7F) = unat v mod 128" by (simp add: take_bit_eq_mod unat_mod)
      then show ?thesis by (metis of_nat_unat)
    qed
    have high: "unat (drop_bit 7 v) = unat v div 128" by (simp add: drop_bit_eq_div unat_div)
    show ?case
    proof (cases "unat v < 128")
      case True
      then have "drop_bit 7 v = 0" using high by (simp add: unat_eq_zero flip: unat_eq_zero)
      then show ?thesis using True low by (simp add: encode_uleb128_loop.simps [of 0] uleb.simps [of "unat v"])
    next
      case False
      then have "unat (drop_bit 7 v) \<noteq> 0" using high by simp
      then have nz: "drop_bit 7 v > 0" by (simp add: word_gt_0 unat_eq_0)
      have "unat (drop_bit 7 v) < unat v" using False high by simp
      from less [OF this] nz False show ?thesis
        using low or_high_bit [of "unat v mod 128"] high
        by (simp add: encode_uleb128_loop.simps [of "drop_bit 7 v"] uleb.simps [of "unat v"])
    qed
  qed
  then show ?thesis by (simp add: encode_uleb128_def)
qed

text \<open>Number of groups, and the bytes read back one by one.\<close>

lemma uleb_neq_Nil [simp]: "uleb n \<noteq> []"
  by (subst uleb.simps) simp

lemma length_uleb: "n < 128 ^ k \<Longrightarrow> 0 < k \<Longrightarrow> length (uleb n) \<le> k"
proof (induction k arbitrary: n)
  case (Suc k)
  show ?case
  proof (cases "n < 128")
    case True
    then show ?thesis by (subst uleb.simps) simp
  next
    case False
    then have "0 < k" using Suc.prems by (cases k) auto
    moreover have "n div 128 < 128 ^ k" using Suc.prems by (simp add: less_mult_imp_div_less mult.commute)
    ultimately show ?thesis using Suc.IH False by (subst uleb.simps) simp
  qed
qed simp

lemma and_low_bits: "unat ((word_of_nat n :: u8) AND 0x7F) = n mod 128"
proof -
  have "(word_of_nat n :: u8) AND 0x7F = take_bit 7 (word_of_nat n)" by (simp add: take_bit_eq_mask mask_eq_exp_minus_1)
  moreover have "n mod 256 mod 128 = n mod 128" by (simp add: mod_mod_cancel)
  ultimately show ?thesis by (simp add: unat_mod unat_of_nat take_bit_eq_mod)
qed

lemma and_high_bit: "n < 128 \<Longrightarrow> (word_of_nat n :: u8) AND 0x80 = 0" "n < 128 \<Longrightarrow> (word_of_nat (n + 128) :: u8) AND 0x80 \<noteq> 0"
proof -
  assume n: "n < 128"
  have eq: "(w AND 0x80 = 0) = (\<not> bit w 7)" for w :: u8
  proof -
    have "(0x80 :: u8) = push_bit 7 1" by simp
    then show ?thesis by (metis and_exp_eq_0_iff_not_bit push_bit_of_1)
  qed
  have "\<not> bit n 7" using n by (simp add: bit_iff_odd)
  moreover have "(n + 128) div 128 = 1" using n by simp
  then have "bit (n + 128) 7" by (simp add: bit_iff_odd)
  ultimately show "(word_of_nat n :: u8) AND 0x80 = 0" "(word_of_nat (n + 128) :: u8) AND 0x80 \<noteq> 0"
    unfolding eq by (simp_all add: bit_of_nat_iff del: of_nat_add)
qed

lemma leb128_loop_uleb:
  assumes "n * 2 ^ (i * 7) < 2 ^ 31" and "0 < n \<or> i = 0" and "a < 2 ^ (i * 7)"
  shows "leb128_loop i (uleb n @ rest) (word_of_nat a) len = Some (word_of_nat (a + n * 2 ^ (i * 7)), len + length (uleb n))"
  using assms
proof (induction n arbitrary: i a len rule: less_induct)
  case (less n)
  have i: "i * 7 < 31"
  proof (rule ccontr)
    assume "\<not> i * 7 < 31"
    then have "(2 :: nat) ^ 31 \<le> 2 ^ (i * 7)" by (intro power_increasing) simp_all
    moreover have "0 < n" using less.prems(2) \<open>\<not> i * 7 < 31\<close> by auto
    ultimately show False using less.prems(1) by (metis One_nat_def Suc_leI leD mult_le_mono nat_mult_1 order_trans)
  qed
  let ?m = "n mod 128"
  have m: "push_bit (i * 7) ?m = ?m * 2 ^ (i * 7)" by (simp add: push_bit_eq_mult)
  have "?m * 2 ^ (i * 7) \<le> n * 2 ^ (i * 7)" by simp
  then have small: "push_bit (i * 7) ?m < 2 ^ 31" using less.prems(1) m by linarith
  have add: "(word_of_nat a :: u64) OR word_of_nat (push_bit (i * 7) ?m) = word_of_nat (a + ?m * 2 ^ (i * 7))"
    by (metis m of_nat_or_eq or_push_bit_nat [OF less.prems(3)])
  show ?case
  proof (cases "n < 128")
    case True
    then have u: "uleb n = [word_of_nat n]" by (simp add: uleb.simps)
    show ?thesis
      using i small add and_low_bits [of n] and_high_bit(1) [OF True] True
      by (simp add: u leb128_loop.simps [of i] Let_def)
  next
    case False
    then have u: "uleb n = word_of_nat (?m + 128) # uleb (n div 128)" by (subst uleb.simps) simp
    have low: "unat ((word_of_nat (?m + 128) :: u8) AND 0x7F) = ?m" using and_low_bits [of "?m + 128"] by simp
    have hi: "(word_of_nat (?m + 128) :: u8) AND 0x80 \<noteq> 0" by (rule and_high_bit) simp
    have dist: "x = m + 128 * q \<Longrightarrow> x * p = m * p + q * (128 * p)" for x m q p :: nat by (simp add: algebra_simps)
    have split: "n * 2 ^ (i * 7) = ?m * 2 ^ (i * 7) + (n div 128) * 2 ^ ((i + 1) * 7)"
      using dist [of n ?m "n div 128" "2 ^ (i * 7)"] by (simp add: power_add)
    have "?m \<le> 127" by simp
    then have "?m * 2 ^ (i * 7) \<le> 127 * 2 ^ (i * 7)" by (rule mult_le_mono1)
    moreover have "(2 :: nat) ^ ((i + 1) * 7) = 128 * 2 ^ (i * 7)" by (simp add: power_add)
    ultimately have "a + ?m * 2 ^ (i * 7) < 2 ^ ((i + 1) * 7)" using less.prems(3) by linarith
    moreover have "(n div 128) * 2 ^ ((i + 1) * 7) < 2 ^ 31" using split less.prems(1) by linarith
    moreover have "0 < n div 128" "n div 128 < n" using False by simp_all
    ultimately have IH: "leb128_loop (i + 1) (uleb (n div 128) @ rest) (word_of_nat (a + ?m * 2 ^ (i * 7))) (len + 1) =
        Some (word_of_nat (a + ?m * 2 ^ (i * 7) + (n div 128) * 2 ^ ((i + 1) * 7)), len + 1 + length (uleb (n div 128)))"
      by (intro less.IH) simp_all
    have "leb128_loop i (uleb n @ rest) (word_of_nat a) len =
        leb128_loop (i + 1) (uleb (n div 128) @ rest) (word_of_nat (a + ?m * 2 ^ (i * 7))) (len + 1)"
      using i small add low hi unfolding u by (simp add: leb128_loop.simps [of i] Let_def del: of_nat_add)
    then show ?thesis using IH split by (simp add: u add.assoc del: of_nat_add)
  qed
qed

lemma leb128_uleb: "n < 2 ^ 31 \<Longrightarrow> leb128 (uleb n @ rest) = Some (word_of_nat n, length (uleb n))"
  using leb128_loop_uleb [of n 0 0 rest 0] by (simp add: leb128_def)

text \<open>
  C15. Variable-length integers survive the round trip as long as the reader's arithmetic is
  defined: any value below \<open>2 ^ 31\<close> is read back from its encoding, whatever follows it,
  together with the number of bytes it took.
\<close>

theorem uleb128_roundtrip:
  assumes "unat v < 2 ^ 31"
  shows "leb128 (encode_uleb128 v @ rest) = Some (v, length (encode_uleb128 v))"
  unfolding encode_uleb128_uleb using leb128_uleb [OF assms] by simp

theorem uleb128_roundtrip_witness:
  "leb128 (encode_uleb128 300 @ [7]) = Some (300, length (encode_uleb128 300))"
  by (rule uleb128_roundtrip) simp

text \<open>Beyond four groups the shift leaves the width of an \<open>int\<close>.\<close>

lemma leb128_loop_undefined:
  assumes "128 ^ (5 - i) \<le> n" and "i \<le> 5"
  shows "leb128_loop i (uleb n @ rest) v len = None"
  using assms
proof (induction "5 - i" arbitrary: i n v len)
  case 0
  then have "i = 5" by simp
  moreover obtain b bs where "uleb n = b # bs" by (cases "uleb n") auto
  ultimately show ?case by (simp add: leb128_loop.simps [of 5] Let_def)
next
  case (Suc k)
  have k: "5 - (i + 1) = k" "i + 1 \<le> 5" using Suc.hyps(2) by simp_all
  have n: "128 * 128 ^ k \<le> n" using Suc.prems(1) Suc.hyps(2) [symmetric] by simp
  then have "128 ^ k \<le> n div 128" by (simp add: less_eq_div_iff_mult_less_eq mult.commute)
  then have IH: "leb128_loop (i + 1) (uleb (n div 128) @ rest) v1 len1 = None" for v1 len1
    using Suc.hyps(1) [of "i + 1"] k by simp
  have "(1 :: nat) \<le> 128 ^ k" by simp
  then have "128 \<le> n" using n by linarith
  then have u: "uleb n = word_of_nat (n mod 128 + 128) # uleb (n div 128)" by (subst uleb.simps) simp
  have hi: "(word_of_nat (n mod 128 + 128) :: u8) AND 0x80 \<noteq> 0" by (rule and_high_bit) simp
  show ?case using IH hi k unfolding u by (simp add: leb128_loop.simps [of i] Let_def del: of_nat_add)
qed

text \<open>
  From five groups on the reader shifts an \<open>int\<close> beyond its width: every encoding of a
  value of at least \<open>2 ^ 35\<close> leaves the defined behaviour of the language, although the
  writer produces such encodings and the reader's loop provides for eight groups.
\<close>

theorem leb128_undefined:
  assumes "2 ^ 35 \<le> unat v"
  shows "leb128 (encode_uleb128 v @ rest) = None"
  unfolding encode_uleb128_uleb leb128_def using leb128_loop_undefined [of 0 "unat v"] assms by simp

theorem leb128_undefined_witness: "leb128 (encode_uleb128 (2 ^ 40) @ [1]) = None"
  by (rule leb128_undefined) simp

section \<open>Metadata units\<close>

text \<open>A unit with a size field: header byte, size, payload.\<close>

definition sized_obu :: "u8 \<Rightarrow> byte list \<Rightarrow> byte list" where
  "sized_obu b payload = b # encode_uleb128 (word_of_nat (length payload)) @ payload"

definition plain_header :: "u8 \<Rightarrow> bool" where
  "plain_header b = (get_bits b 5 1 = 0 \<and> get_bits b 6 1 \<noteq> 0)"

lemma parse_sized_obu:
  assumes "plain_header b" and "length payload < 2 ^ 31"
  shows "parse_obu_header (sized_obu b payload @ rest) =
    Some \<lparr>obu_start = 1 + length (encode_uleb128 (word_of_nat (length payload))), obu_size = length payload, obu_type = get_bits b 1 4\<rparr>"
proof -
  have u: "unat (word_of_nat (length payload) :: u64) = length payload"
    using assms(2) by (simp add: unat_of_nat)
  then have "leb128 (encode_uleb128 (word_of_nat (length payload)) @ payload @ rest) =
      Some (word_of_nat (length payload), length (encode_uleb128 (word_of_nat (length payload))))"
    unfolding encode_uleb128_uleb using leb128_uleb [OF assms(2)] by simp
  then show ?thesis using assms(1) u by (simp add: sized_obu_def parse_obu_header_def plain_header_def Let_def)
qed

lemma metadata_obu_sized:
  "metadata_obu src ty = sized_obu 0x2A ([ty] @ src @ [0x80])"
proof -
  have "(1 + word_of_nat (length src) + 1 :: u64) = word_of_nat (length ([ty] @ src @ [0x80]))" by simp
  moreover have "(word_of_nat (push_bit 3 OBS_OBU_METADATA OR push_bit 1 1) :: u8) = 0x2A"
    by (simp add: OBS_OBU_METADATA_def push_bit_eq_mult)
  ultimately show ?thesis unfolding metadata_obu_def sized_obu_def Let_def by simp
qed

text \<open>
  A metadata unit built by \<open>metadata_obu\<close> reads back as one: whatever follows it, the
  parser sees type 5, the unit's exact extent, and as its content the metadata type, the given
  buffer and the trailing bits.
\<close>

theorem metadata_obu_parsed:
  assumes "length src + 2 < 2 ^ 31"
  shows "\<exists>h. parse_obu_header (metadata_obu src ty @ rest) = Some h \<and> obu_type h = OBS_OBU_METADATA \<and>
    obu_start h + obu_size h = length (metadata_obu src ty) \<and>
    drop (obu_start h) (metadata_obu src ty) = ty # src @ [0x80]"
proof -
  have "plain_header 0x2A" "get_bits 0x2A 1 4 = OBS_OBU_METADATA"
    by (simp_all add: plain_header_def get_bits_def OBS_OBU_METADATA_def drop_bit_eq_div)
  then show ?thesis
    using parse_sized_obu [of "0x2A" "[ty] @ src @ [0x80]" rest] assms
    unfolding metadata_obu_sized by (simp add: sized_obu_def)
qed

theorem metadata_obu_parsed_witness:
  "\<exists>h. parse_obu_header (metadata_obu [1, 2, 3] 4 @ [9]) = Some h \<and> obu_type h = OBS_OBU_METADATA \<and>
    obu_start h + obu_size h = length (metadata_obu [1, 2, 3] 4) \<and>
    drop (obu_start h) (metadata_obu [1, 2, 3] 4) = 4 # [1, 2, 3] @ [0x80]"
  by (rule metadata_obu_parsed) simp

section \<open>Streams of units\<close>

definition sized_unit :: "u8 \<times> byte list \<Rightarrow> bool" where
  "sized_unit u = (plain_header (fst u) \<and> length (snd u) < 2 ^ 31)"

definition obu_stream :: "(u8 \<times> byte list) list \<Rightarrow> byte list" where
  "obu_stream us = concat (map (\<lambda>(b, payload). sized_obu b payload) us)"

definition header_unit :: "u8 \<times> byte list \<Rightarrow> bool" where
  "header_unit u = (get_bits (fst u) 1 4 \<in> {OBS_OBU_METADATA, OBS_OBU_SEQUENCE_HEADER})"

definition frame_unit :: "u8 \<times> byte list \<Rightarrow> bool" where
  "frame_unit u = (snd u \<noteq> [] \<and> get_bits (fst u) 1 4 \<in> {OBS_OBU_FRAME, OBS_OBU_FRAME_HEADER})"

lemma obu_stream_Cons [simp]: "obu_stream ((b, p) # us) = sized_obu b p @ obu_stream us"
  by (simp add: obu_stream_def)

lemma obu_stream_Nil [simp]: "obu_stream [] = []"
  by (simp add: obu_stream_def)

lemma sized_obu_neq_Nil [simp]: "sized_obu b p \<noteq> []"
  by (simp add: sized_obu_def)

lemma extract_av1_loop_stream:
  assumes "list_all sized_unit us"
  shows "extract_av1_loop (obu_stream us) new header = Some (new @ obu_stream us, header @ obu_stream (filter header_unit us))"
  using assms
proof (induction us arbitrary: new header)
  case Nil
  then show ?case by (simp add: extract_av1_loop.simps)
next
  case (Cons u us)
  obtain b p where u: "u = (b, p)" by (cases u)
  have n: "length (encode_uleb128 (word_of_nat (length p))) + length p + 1 = length (sized_obu b p)" by (simp add: sized_obu_def)
  show ?case
    using Cons.prems parse_sized_obu [of b p "obu_stream us"] n
    unfolding u by (subst extract_av1_loop.simps) (simp add: Cons.IH sized_unit_def [of "(b, p)"] header_unit_def [of "(b, p)"] Let_def)
qed

lemma obs_av1_keyframe_stream:
  assumes "list_all sized_unit us"
  shows "obs_av1_keyframe (obu_stream us) = Some (case filter frame_unit us of [] \<Rightarrow> False
    | u # _ \<Rightarrow> get_bits (hd (snd u)) 0 1 = 0 \<and> get_bits (hd (snd u)) 1 2 = 0)"
  using assms
proof (induction us)
  case Nil
  then show ?case by (simp add: obs_av1_keyframe.simps)
next
  case (Cons u us)
  obtain b p where u: "u = (b, p)" by (cases u)
  let ?n = "length (encode_uleb128 (word_of_nat (length p)))"
  have n: "?n + length p + 1 = length (sized_obu b p)" by (simp add: sized_obu_def)
  have nth: "p \<noteq> [] \<Longrightarrow> (sized_obu b p @ obu_stream us) ! Suc ?n = hd p"
    by (simp add: sized_obu_def nth_append hd_conv_nth)
  have "\<not> length (sized_obu b p) + length (obu_stream us) \<le> Suc ?n" if "p \<noteq> []"
    using that n by (cases p) auto
  then show ?case
    using Cons.prems parse_sized_obu [of b p "obu_stream us"] n nth
    unfolding u by (subst obs_av1_keyframe.simps) (auto simp: Cons.IH sized_unit_def [of "(b, p)"] frame_unit_def [of "(b, p)"] Let_def)
qed

text \<open>
  C18. On a stream of units with size fields, header extraction keeps the whole packet and copies
  exactly the metadata and sequence header units, in order, and the key frame test looks at the
  first non-empty frame unit only.
\<close>

theorem av1_stream_walk:
  assumes "list_all sized_unit us"
  shows "obs_extract_av1_headers (obu_stream us) = Some (obu_stream us, obu_stream (filter header_unit us)) \<and>
    obs_av1_keyframe (obu_stream us) = Some (case filter frame_unit us of [] \<Rightarrow> False
      | u # _ \<Rightarrow> get_bits (hd (snd u)) 0 1 = 0 \<and> get_bits (hd (snd u)) 1 2 = 0)"
  using extract_av1_loop_stream [OF assms] obs_av1_keyframe_stream [OF assms]
  by (simp add: obs_extract_av1_headers_def)

theorem av1_stream_walk_witness:
  "obs_extract_av1_headers (obu_stream [(0x12, []), (0x0A, [5, 6]), (0x32, [0x10, 1])]) =
      Some (obu_stream [(0x12, []), (0x0A, [5, 6]), (0x32, [0x10, 1])], obu_stream [(0x0A, [5, 6])]) \<and>
    obs_av1_keyframe (obu_stream [(0x12, []), (0x0A, [5, 6]), (0x32, [0x10, 1])]) = Some True"
  using av1_stream_walk [of "[(0x12, []), (0x0A, [5, 6]), (0x32, [0x10, 1])]"]
  by (simp add: sized_unit_def plain_header_def header_unit_def frame_unit_def get_bits_def obu_types drop_bit_eq_div)

end
