(* ===== verification/Rtmp_Av1.thy ===== *)
theory Rtmp_Av1
  imports Serializer Encoder Obu
begin

text \<open>
  AV1 packets and decoder configuration records as \<open>plugins/obs-outputs/rtmp-av1.c\<close> makes
  them for the muxers: a bit reader, the unit and sequence header parsers, the configuration record
  and the packet filter.

  A function yields \<open>None\<close> where the C code reads outside the bytes it was given, fails an
  assertion or does not return; the inner option or list tells its own errors (a negative result,
  or size 0) from success.  A buffer is the bytes from the pointer to the end of the data.
\<close>

definition INT_MAX :: nat where
  "INT_MAX = 2147483647"

section \<open>Bit reader\<close>

record Av1GetBitContext =
  gb_buffer :: "byte list"
  gb_index :: nat
  gb_size_in_bits :: nat
  gb_size_in_bits_plus8 :: nat

type_synonym 'a av1_read = "('a \<times> Av1GetBitContext) option"

text \<open>The pair is the return code and the initialised context.\<close>

definition init_get_bits :: "byte list \<Rightarrow> int \<Rightarrow> int \<times> Av1GetBitContext" where
  "init_get_bits buffer bit_size =
    (if bit_size \<ge> int INT_MAX - 64 * 8 \<or> bit_size < 0
     then (-1, \<lparr>gb_buffer = [], gb_index = 0, gb_size_in_bits = 0, gb_size_in_bits_plus8 = 8\<rparr>)
     else (0, \<lparr>gb_buffer = buffer, gb_index = 0, gb_size_in_bits = nat bit_size, gb_size_in_bits_plus8 = nat bit_size + 8\<rparr>))"

definition init_get_bits8 :: "byte list \<Rightarrow> int \<Rightarrow> int \<times> Av1GetBitContext" where
  "init_get_bits8 buffer byte_size =
    (let byte_size = (if byte_size > int (INT_MAX div 8) \<or> byte_size < 0 then -1 else byte_size)
     in init_get_bits buffer (byte_size * 8))"

definition get_bit1 :: "Av1GetBitContext \<Rightarrow> nat av1_read" where
  "get_bit1 s =
    (let index = gb_index s
     in if length (gb_buffer s) \<le> index div 8 then None
        else
          (let result = drop_bit 7 (push_bit (index mod 8) (gb_buffer s ! (index div 8)))
           in Some (unat result, s\<lparr>gb_index := (if index < gb_size_in_bits_plus8 s then index + 1 else index)\<rparr>)))"

fun get_bits_loop :: "nat \<Rightarrow> u32 \<Rightarrow> Av1GetBitContext \<Rightarrow> u32 av1_read" where
  "get_bits_loop 0 out s = Some (out, s)"
| "get_bits_loop (Suc n) out s = do {
     (b, s) \<leftarrow> get_bit1 s;
     get_bits_loop n (push_bit 1 out OR word_of_nat b) s }"

definition get_bits :: "nat \<Rightarrow> Av1GetBitContext \<Rightarrow> nat av1_read" where
  "get_bits n s = do { (out, s) \<leftarrow> get_bits_loop n 0 s; Some (unat out, s) }"

definition skip_bits :: "nat \<Rightarrow> Av1GetBitContext \<Rightarrow> Av1GetBitContext option" where
  "skip_bits n s = map_option snd (get_bits n s)"

definition get_bits_count :: "Av1GetBitContext \<Rightarrow> nat" where
  "get_bits_count s = gb_index s"

definition get_bits_left :: "Av1GetBitContext \<Rightarrow> int" where
  "get_bits_left gb = int (gb_size_in_bits gb) - int (get_bits_count gb)"

section \<open>Variable-length integers\<close>

fun leb128_bytes :: "nat \<Rightarrow> nat \<Rightarrow> nat \<Rightarrow> Av1GetBitContext \<Rightarrow> nat av1_read" where
  "leb128_bytes 0 i ret gb = Some (ret, gb)"
| "leb128_bytes (Suc fuel) i ret gb = do {
     (b, gb) \<leftarrow> get_bits 8 gb;
     let ret = ret OR push_bit (i * 7) (b AND 0x7F);
     if b AND 0x80 = 0 then Some (ret, gb) else leb128_bytes fuel (i + 1) ret gb }"

definition leb128 :: "Av1GetBitContext \<Rightarrow> nat av1_read" where
  "leb128 gb = leb128_bytes 8 0 0 gb"

text \<open>The loop counts the leading zeros; it has no bound of its own.\<close>

partial_function (option) uvlc_zeros :: "nat \<Rightarrow> Av1GetBitContext \<Rightarrow> nat av1_read" where
  "uvlc_zeros leading_zeros gb =
    (if get_bits_left gb = 0 then Some (leading_zeros, gb)
     else do {
       (b, gb) \<leftarrow> get_bits 1 gb;
       if b \<noteq> 0 then Some (leading_zeros, gb) else uvlc_zeros (leading_zeros + 1) gb })"

definition uvlc :: "Av1GetBitContext \<Rightarrow> Av1GetBitContext option" where
  "uvlc gb = do {
     (leading_zeros, gb) \<leftarrow> uvlc_zeros 0 gb;
     if leading_zeros \<ge> 32 then Some gb else skip_bits leading_zeros gb }"

section \<open>Unit headers\<close>

definition AV1_OBU_SEQUENCE_HEADER :: nat where "AV1_OBU_SEQUENCE_HEADER = 1"
definition AV1_OBU_TEMPORAL_DELIMITER :: nat where "AV1_OBU_TEMPORAL_DELIMITER = 2"
definition AV1_OBU_FRAME_HEADER :: nat where "AV1_OBU_FRAME_HEADER = 3"
definition AV1_OBU_TILE_GROUP :: nat where "AV1_OBU_TILE_GROUP = 4"
definition AV1_OBU_METADATA :: nat where "AV1_OBU_METADATA = 5"
definition AV1_OBU_FRAME :: nat where "AV1_OBU_FRAME = 6"
definition AV1_OBU_REDUNDANT_FRAME_HEADER :: nat where "AV1_OBU_REDUNDANT_FRAME_HEADER = 7"
definition AV1_OBU_TILE_LIST :: nat where "AV1_OBU_TILE_LIST = 8"

lemmas av1_obu_types = AV1_OBU_SEQUENCE_HEADER_def AV1_OBU_TEMPORAL_DELIMITER_def AV1_OBU_FRAME_HEADER_def
  AV1_OBU_TILE_GROUP_def AV1_OBU_METADATA_def AV1_OBU_FRAME_def AV1_OBU_REDUNDANT_FRAME_HEADER_def
  AV1_OBU_TILE_LIST_def

definition MAX_OBU_HEADER_SIZE :: int where
  "MAX_OBU_HEADER_SIZE = 2 + 8"

record av1_obu =
  ob_len :: nat
  ob_size :: int
  ob_start_pos :: nat
  ob_type :: nat
  ob_temporal_id :: nat
  ob_spatial_id :: nat

text \<open>Reading the fields of a unit header after the forbidden bit.\<close>

definition obu_flags :: "Av1GetBitContext \<Rightarrow> (nat \<times> nat \<times> nat) av1_read" where
  "obu_flags gb = do {
     (type, gb) \<leftarrow> get_bits 4 gb;
     (extension_flag, gb) \<leftarrow> get_bits 1 gb;
     (has_size_flag, gb) \<leftarrow> get_bits 1 gb;
     gb \<leftarrow> skip_bits 1 gb;
     Some ((type, extension_flag, has_size_flag), gb) }"

text \<open>The temporal and spatial layer, when the unit has an extension byte.\<close>

definition obu_layers :: "nat \<Rightarrow> Av1GetBitContext \<Rightarrow> (nat \<times> nat) av1_read" where
  "obu_layers extension_flag gb =
    (if extension_flag \<noteq> 0 then do {
       (temporal_id, gb) \<leftarrow> get_bits 3 gb;
       (spatial_id, gb) \<leftarrow> get_bits 2 gb;
       gb \<leftarrow> skip_bits 3 gb;
       Some ((temporal_id, spatial_id), gb) }
     else Some ((0, 0), gb))"

text \<open>\<open>Some None\<close> is the result -1.\<close>

definition obu_size_field :: "byte list \<Rightarrow> nat \<Rightarrow> nat \<Rightarrow> Av1GetBitContext \<Rightarrow> int av1_read" where
  "obu_size_field buf extension_flag has_size_flag gb =
    (if has_size_flag \<noteq> 0 then map_option (apfst int) (leb128 gb)
     else Some (int (length buf) - 1 - int extension_flag, gb))"

definition obu_extent :: "byte list \<Rightarrow> nat \<Rightarrow> nat \<times> nat \<Rightarrow> int \<Rightarrow> Av1GetBitContext \<Rightarrow> av1_obu option option" where
  "obu_extent buf type ids sz gb =
    (if get_bits_left gb < 0 then Some None
     else
       (let start_pos = get_bits_count gb div 8;
            size = nat ((sz + int start_pos) mod 2 ^ 64)
        in if size > length buf then Some None
           else if INT_MAX < size then None
           else Some (Some \<lparr>ob_len = size, ob_size = sz, ob_start_pos = start_pos, ob_type = type,
             ob_temporal_id = fst ids, ob_spatial_id = snd ids\<rparr>)))"

definition parse_obu_fields :: "byte list \<Rightarrow> Av1GetBitContext \<Rightarrow> av1_obu option option" where
  "parse_obu_fields buf gb = do {
     (forbidden, gb) \<leftarrow> get_bits 1 gb;
     if forbidden \<noteq> 0 then Some None
     else do {
       ((type, extension_flag, has_size_flag), gb) \<leftarrow> obu_flags gb;
       (ids, gb) \<leftarrow> obu_layers extension_flag gb;
       (obu_size, gb) \<leftarrow> obu_size_field buf extension_flag has_size_flag gb;
       obu_extent buf type ids obu_size gb } }"

definition parse_obu_header :: "byte list \<Rightarrow> av1_obu option option" where
  "parse_obu_header buf =
    (let (ret, gb) = init_get_bits8 buf (min (int (length buf)) MAX_OBU_HEADER_SIZE)
     in if ret < 0 then Some None else parse_obu_fields buf gb)"

fun strip_zero_bytes :: "byte list \<Rightarrow> nat \<Rightarrow> nat" where
  "strip_zero_bytes buf 0 = 0"
| "strip_zero_bytes buf (Suc n) = (if buf ! n = 0 then strip_zero_bytes buf n else Suc n)"

fun ctz_bits :: "nat \<Rightarrow> nat \<Rightarrow> nat" where
  "ctz_bits 0 v = 0"
| "ctz_bits (Suc k) v = (if odd v then 0 else Suc (ctz_bits k (v div 2)))"

text \<open>The number of trailing zero bits of a non-zero 32-bit value.\<close>

definition ctz32 :: "nat \<Rightarrow> nat" where
  "ctz32 v = ctz_bits 32 v"

definition get_obu_bit_length :: "byte list \<Rightarrow> nat \<Rightarrow> nat \<Rightarrow> int" where
  "get_obu_bit_length buf sz type =
    (if type = AV1_OBU_TILE_GROUP \<or> type = AV1_OBU_TILE_LIST \<or> type = AV1_OBU_FRAME then
       if sz > INT_MAX div 8 then -1 else int (sz * 8)
     else
       (let sz = strip_zero_bytes buf sz
        in if sz = 0 then 0
           else
             (let v = unat (buf ! (sz - 1))
              in if sz > INT_MAX div 8 then -1
                 else int (sz * 8) - (if v \<noteq> 0 then int (ctz32 v) + 1 else 0))))"

section \<open>Sequence headers\<close>

record AV1SequenceParameters =
  sq_profile :: nat
  sq_level :: nat
  sq_tier :: nat
  sq_bitdepth :: nat
  sq_monochrome :: nat
  sq_chroma_subsampling_x :: nat
  sq_chroma_subsampling_y :: nat
  sq_chroma_sample_position :: nat
  sq_color_description_present_flag :: nat
  sq_color_primaries :: nat
  sq_transfer_characteristics :: nat
  sq_matrix_coefficients :: nat
  sq_color_range :: nat

text \<open>The structure cleared by \<open>memset\<close>.\<close>

definition seq_params_zero :: AV1SequenceParameters where
  "seq_params_zero = \<lparr>sq_profile = 0, sq_level = 0, sq_tier = 0, sq_bitdepth = 0, sq_monochrome = 0,
    sq_chroma_subsampling_x = 0, sq_chroma_subsampling_y = 0, sq_chroma_sample_position = 0,
    sq_color_description_present_flag = 0, sq_color_primaries = 0, sq_transfer_characteristics = 0,
    sq_matrix_coefficients = 0, sq_color_range = 0\<rparr>"

definition FF_PROFILE_AV1_MAIN :: nat where "FF_PROFILE_AV1_MAIN = 0"
definition FF_PROFILE_AV1_HIGH :: nat where "FF_PROFILE_AV1_HIGH = 1"
definition FF_PROFILE_AV1_PROFESSIONAL :: nat where "FF_PROFILE_AV1_PROFESSIONAL = 2"

lemmas av1_profiles = FF_PROFILE_AV1_MAIN_def FF_PROFILE_AV1_HIGH_def FF_PROFILE_AV1_PROFESSIONAL_def

text \<open>The colour description: primaries, transfer and matrix, or their defaults.\<close>

definition parse_color_description :: "AV1SequenceParameters \<Rightarrow> Av1GetBitContext \<Rightarrow> AV1SequenceParameters av1_read" where
  "parse_color_description sq gb = do {
     (present, gb) \<leftarrow> get_bits 1 gb;
     let sq = sq\<lparr>sq_color_description_present_flag := present\<rparr>;
     if present \<noteq> 0 then do {
       (p, gb) \<leftarrow> get_bits 8 gb;
       (t, gb) \<leftarrow> get_bits 8 gb;
       (m, gb) \<leftarrow> get_bits 8 gb;
       Some (sq\<lparr>sq_color_primaries := p, sq_transfer_characteristics := t, sq_matrix_coefficients := m\<rparr>, gb) }
     else Some (sq\<lparr>sq_color_primaries := 2, sq_transfer_characteristics := 2, sq_matrix_coefficients := 2\<rparr>, gb) }"

text \<open>Chroma subsampling by profile, for colour that is neither monochrome nor sRGB.\<close>

definition parse_subsampling :: "AV1SequenceParameters \<Rightarrow> nat \<Rightarrow> Av1GetBitContext \<Rightarrow> AV1SequenceParameters av1_read" where
  "parse_subsampling sq twelve_bit gb =
    (if sq_profile sq = FF_PROFILE_AV1_MAIN then
       Some (sq\<lparr>sq_chroma_subsampling_x := 1, sq_chroma_subsampling_y := 1\<rparr>, gb)
     else if sq_profile sq = FF_PROFILE_AV1_HIGH then
       Some (sq\<lparr>sq_chroma_subsampling_x := 0, sq_chroma_subsampling_y := 0\<rparr>, gb)
     else if twelve_bit \<noteq> 0 then do {
       (x, gb) \<leftarrow> get_bits 1 gb;
       (y, gb) \<leftarrow> (if x \<noteq> 0 then get_bits 1 gb else Some (0, gb));
       Some (sq\<lparr>sq_chroma_subsampling_x := x, sq_chroma_subsampling_y := y\<rparr>, gb) }
     else Some (sq\<lparr>sq_chroma_subsampling_x := 1, sq_chroma_subsampling_y := 0\<rparr>, gb))"

definition parse_color_config :: "AV1SequenceParameters \<Rightarrow> Av1GetBitContext \<Rightarrow> AV1SequenceParameters av1_read" where
  "parse_color_config sq gb = do {
     (high_bitdepth, gb) \<leftarrow> get_bits 1 gb;
     (twelve_bit, gb) \<leftarrow>
       (if sq_profile sq = FF_PROFILE_AV1_PROFESSIONAL \<and> high_bitdepth \<noteq> 0 then get_bits 1 gb else Some (0, gb));
     let sq = sq\<lparr>sq_bitdepth := 8 + high_bitdepth * 2 + twelve_bit * 2\<rparr>;
     (mono, gb) \<leftarrow> (if sq_profile sq = FF_PROFILE_AV1_HIGH then Some (0, gb) else get_bits 1 gb);
     let sq = sq\<lparr>sq_monochrome := mono\<rparr>;
     (sq, gb) \<leftarrow> parse_color_description sq gb;
     if sq_monochrome sq \<noteq> 0 then do {
       (range, gb) \<leftarrow> get_bits 1 gb;
       Some (sq\<lparr>sq_color_range := range, sq_chroma_subsampling_x := 1, sq_chroma_subsampling_y := 1,
         sq_chroma_sample_position := 0\<rparr>, gb) }
     else do {
       (sq, gb) \<leftarrow>
         (if sq_color_primaries sq = 1 \<and> sq_transfer_characteristics sq = 13 \<and> sq_matrix_coefficients sq = 0 then
            Some (sq\<lparr>sq_chroma_subsampling_x := 0, sq_chroma_subsampling_y := 0\<rparr>, gb)
          else do {
            (range, gb) \<leftarrow> get_bits 1 gb;
            (sq, gb) \<leftarrow> parse_subsampling (sq\<lparr>sq_color_range := range\<rparr>) twelve_bit gb;
            if sq_chroma_subsampling_x sq \<noteq> 0 \<and> sq_chroma_subsampling_y sq \<noteq> 0 then do {
              (pos, gb) \<leftarrow> get_bits 2 gb;
              Some (sq\<lparr>sq_chroma_sample_position := pos\<rparr>, gb) }
            else Some (sq, gb) });
       gb \<leftarrow> skip_bits 1 gb;
       Some (sq, gb) } }"

text \<open>
  Timing information; the result is the decoder model flag and \<open>buffer_delay_length_minus_1\<close>,
  which is only read when the flag is set.
\<close>

definition parse_timing_info :: "Av1GetBitContext \<Rightarrow> (nat \<times> nat) av1_read" where
  "parse_timing_info gb = do {
     (timing_info_present_flag, gb) \<leftarrow> get_bits 1 gb;
     if timing_info_present_flag \<noteq> 0 then do {
       gb \<leftarrow> skip_bits 32 gb;
       gb \<leftarrow> skip_bits 32 gb;
       (equal_picture_interval, gb) \<leftarrow> get_bits 1 gb;
       gb \<leftarrow> (if equal_picture_interval \<noteq> 0 then uvlc gb else Some gb);
       (decoder_model_info_present_flag, gb) \<leftarrow> get_bits 1 gb;
       if decoder_model_info_present_flag \<noteq> 0 then do {
         (buffer_delay_length_minus_1, gb) \<leftarrow> get_bits 5 gb;
         gb \<leftarrow> skip_bits 32 gb;
         gb \<leftarrow> skip_bits 10 gb;
         Some ((decoder_model_info_present_flag, buffer_delay_length_minus_1), gb) }
       else Some ((0, 0), gb) }
     else Some ((0, 0), gb) }"

text \<open>One operating point: its level and tier.\<close>

definition parse_operating_point :: "nat \<Rightarrow> nat \<Rightarrow> nat \<Rightarrow> Av1GetBitContext \<Rightarrow> (nat \<times> nat) av1_read" where
  "parse_operating_point decoder_model buffer_delay display_delay gb = do {
     gb \<leftarrow> skip_bits 12 gb;
     (seq_level_idx, gb) \<leftarrow> get_bits 5 gb;
     (seq_tier, gb) \<leftarrow> (if seq_level_idx > 7 then get_bits 1 gb else Some (0, gb));
     gb \<leftarrow>
       (if decoder_model \<noteq> 0 then do {
          (present, gb) \<leftarrow> get_bits 1 gb;
          if present \<noteq> 0 then do {
            gb \<leftarrow> skip_bits (buffer_delay + 1) gb;
            gb \<leftarrow> skip_bits (buffer_delay + 1) gb;
            skip_bits 1 gb }
          else Some gb }
        else Some gb);
     gb \<leftarrow>
       (if display_delay \<noteq> 0 then do {
          (present, gb) \<leftarrow> get_bits 1 gb;
          if present \<noteq> 0 then skip_bits 4 gb else Some gb }
        else Some gb);
     Some ((seq_level_idx, seq_tier), gb) }"

fun skip_operating_points :: "nat \<Rightarrow> nat \<Rightarrow> nat \<Rightarrow> nat \<Rightarrow> Av1GetBitContext \<Rightarrow> Av1GetBitContext option" where
  "skip_operating_points 0 dm bd dd gb = Some gb"
| "skip_operating_points (Suc n) dm bd dd gb = do {
     (_, gb) \<leftarrow> parse_operating_point dm bd dd gb;
     skip_operating_points n dm bd dd gb }"

text \<open>The first of the operating points gives level and tier; the others are only skipped.\<close>

definition parse_operating_points :: "Av1GetBitContext \<Rightarrow> (nat \<times> nat) av1_read" where
  "parse_operating_points gb = do {
     ((decoder_model, buffer_delay), gb) \<leftarrow> parse_timing_info gb;
     (display_delay, gb) \<leftarrow> get_bits 1 gb;
     (cnt_minus_1, gb) \<leftarrow> get_bits 5 gb;
     (level_tier, gb) \<leftarrow> parse_operating_point decoder_model buffer_delay display_delay gb;
     gb \<leftarrow> skip_operating_points cnt_minus_1 decoder_model buffer_delay display_delay gb;
     Some (level_tier, gb) }"

text \<open>The tools of a sequence that is not a reduced still picture.\<close>

definition skip_sequence_tools :: "Av1GetBitContext \<Rightarrow> Av1GetBitContext option" where
  "skip_sequence_tools gb = do {
     gb \<leftarrow> skip_bits 4 gb;
     (enable_order_hint, gb) \<leftarrow> get_bits 1 gb;
     gb \<leftarrow> (if enable_order_hint \<noteq> 0 then skip_bits 2 gb else Some gb);
     (seq_choose, gb) \<leftarrow> get_bits 1 gb;
     (seq_force_screen_content_tools, gb) \<leftarrow> (if seq_choose \<noteq> 0 then Some (2, gb) else get_bits 1 gb);
     gb \<leftarrow>
       (if seq_force_screen_content_tools \<noteq> 0 then do {
          (choose_mv, gb) \<leftarrow> get_bits 1 gb;
          if choose_mv = 0 then skip_bits 1 gb else Some gb }
        else Some gb);
     if enable_order_hint \<noteq> 0 then skip_bits 3 gb else Some gb }"

text \<open>The buffer starts at the unit's content and runs on to the end of the data.\<close>

definition parse_sequence_header :: "byte list \<Rightarrow> nat \<Rightarrow> AV1SequenceParameters option option" where
  "parse_sequence_header buf sz =
    (let size_bits = get_obu_bit_length buf sz AV1_OBU_SEQUENCE_HEADER; (ret, gb) = init_get_bits buf size_bits
     in if size_bits < 0 \<or> ret < 0 then Some None
        else do {
          (profile, gb) \<leftarrow> get_bits 3 gb;
          gb \<leftarrow> skip_bits 1 gb;
          (reduced_still_picture_header, gb) \<leftarrow> get_bits 1 gb;
          ((level, tier), gb) \<leftarrow>
            (if reduced_still_picture_header \<noteq> 0 then do { (level, gb) \<leftarrow> get_bits 5 gb; Some ((level, 0), gb) }
             else parse_operating_points gb);
          let sq = seq_params_zero\<lparr>sq_profile := profile, sq_level := level, sq_tier := tier\<rparr>;
          (frame_width_bits_minus_1, gb) \<leftarrow> get_bits 4 gb;
          (frame_height_bits_minus_1, gb) \<leftarrow> get_bits 4 gb;
          gb \<leftarrow> skip_bits (frame_width_bits_minus_1 + 1) gb;
          gb \<leftarrow> skip_bits (frame_height_bits_minus_1 + 1) gb;
          gb \<leftarrow>
            (if reduced_still_picture_header = 0 then do {
               (frame_id_numbers_present_flag, gb) \<leftarrow> get_bits 1 gb;
               if frame_id_numbers_present_flag \<noteq> 0 then skip_bits 7 gb else Some gb }
             else Some gb);
          gb \<leftarrow> skip_bits 3 gb;
          gb \<leftarrow> (if reduced_still_picture_header = 0 then skip_sequence_tools gb else Some gb);
          gb \<leftarrow> skip_bits 3 gb;
          (sq, gb) \<leftarrow> parse_color_config sq gb;
          gb \<leftarrow> skip_bits 1 gb;
          if get_bits_left gb \<noteq> 0 then Some None else Some (Some sq) })"

section \<open>Position of the reader\<close>

lemma get_bit1_Some:
  assumes "get_bit1 s = Some (b, s')"
  shows "gb_index s div 8 < length (gb_buffer s)" "b < 2"
    "s' = s\<lparr>gb_index := (if gb_index s < gb_size_in_bits_plus8 s then gb_index s + 1 else gb_index s)\<rparr>"
proof -
  have "unat (drop_bit 7 w) < 2" for w :: u8
    using unsigned_less [of w, where ?'a = nat] by (simp add: drop_bit_eq_div unat_div)
  then show "gb_index s div 8 < length (gb_buffer s)" "b < 2"
    "s' = s\<lparr>gb_index := (if gb_index s < gb_size_in_bits_plus8 s then gb_index s + 1 else gb_index s)\<rparr>"
    using assms by (auto simp: get_bit1_def Let_def split: if_splits)
qed

lemma get_bits_loop_frame:
  assumes "get_bits_loop n out s = Some (v, s')" and "gb_index s \<le> gb_size_in_bits_plus8 s"
  shows "s' = s\<lparr>gb_index := min (gb_index s + n) (gb_size_in_bits_plus8 s)\<rparr>"
  using assms
proof (induction n arbitrary: out s)
  case (Suc n)
  then obtain b s1 where s1: "get_bit1 s = Some (b, s1)" and rest: "get_bits_loop n (push_bit 1 out OR word_of_nat b) s1 = Some (v, s')"
    by (auto simp: bind_eq_Some_conv)
  have eq: "s1 = s\<lparr>gb_index := min (gb_index s + 1) (gb_size_in_bits_plus8 s)\<rparr>"
    using get_bit1_Some(3) [OF s1] Suc.prems(2) by (auto simp: min_def)
  then show ?case using Suc.IH [OF rest] by (simp add: min_def)
qed simp

lemma get_bits_frame:
  assumes "get_bits n s = Some (v, s')" and "gb_index s \<le> gb_size_in_bits_plus8 s"
  shows "s' = s\<lparr>gb_index := min (gb_index s + n) (gb_size_in_bits_plus8 s)\<rparr>"
  using assms get_bits_loop_frame [of n 0 s] by (auto simp: get_bits_def bind_eq_Some_conv)

lemma skip_bits_frame:
  assumes "skip_bits n s = Some s'" and "gb_index s \<le> gb_size_in_bits_plus8 s"
  shows "s' = s\<lparr>gb_index := min (gb_index s + n) (gb_size_in_bits_plus8 s)\<rparr>"
  using assms get_bits_frame [of n s] by (auto simp: skip_bits_def)

lemma get_bits_in_buffer:
  assumes "get_bits (Suc n) s = Some (v, s')"
  shows "gb_index s div 8 < length (gb_buffer s)"
  using assms get_bit1_Some(1) [of s] by (auto simp: get_bits_def bind_eq_Some_conv)

text \<open>A value of \<open>leb128\<close> fits in 56 bits, and the reader never moves back.\<close>

lemma leb128_bytes_bound:
  assumes "leb128_bytes fuel i ret gb = Some (v, gb')" and "ret < 2 ^ (i * 7)"
    and "gb_index gb \<le> gb_size_in_bits_plus8 gb"
  shows "v < 2 ^ ((i + fuel) * 7) \<and>
    (\<exists>j. gb' = gb\<lparr>gb_index := j\<rparr> \<and> gb_index gb \<le> j \<and> j \<le> gb_size_in_bits_plus8 gb)"
  using assms
proof (induction fuel arbitrary: i ret gb)
  case 0
  then show ?case by (intro conjI exI [of _ "gb_index gb"]) auto
next
  case (Suc fuel)
  obtain b gb1 where b: "get_bits 8 gb = Some (b, gb1)"
    and rest: "(let ret = ret OR push_bit (i * 7) (b AND 0x7F) in
       if b AND 0x80 = 0 then Some (ret, gb1) else leb128_bytes fuel (i + 1) ret gb1) = Some (v, gb')"
    using Suc.prems(1) by (auto simp: bind_eq_Some_conv)
  have gb1: "gb1 = gb\<lparr>gb_index := min (gb_index gb + 8) (gb_size_in_bits_plus8 gb)\<rparr>"
    by (rule get_bits_frame [OF b Suc.prems(3)])
  have "b AND 0x7F = take_bit 7 b" by (simp add: take_bit_eq_mask mask_eq_exp_minus_1)
  then have "b AND 0x7F < 128" by (simp add: take_bit_eq_mod)
  then have "(b AND 0x7F) * 2 ^ (i * 7) \<le> 127 * 2 ^ (i * 7)" by (intro mult_le_mono1) simp
  moreover have "ret OR push_bit (i * 7) (b AND 0x7F) = ret + (b AND 0x7F) * 2 ^ (i * 7)"
    unfolding or_push_bit_nat [OF Suc.prems(2)] by (simp only: push_bit_eq_mult)
  moreover have "(2 :: nat) ^ ((i + 1) * 7) = 128 * 2 ^ (i * 7)" by (simp add: power_add)
  ultimately have lt: "ret OR push_bit (i * 7) (b AND 0x7F) < 2 ^ ((i + 1) * 7)" using Suc.prems(2) by linarith
  show ?case
  proof (cases "b AND 0x80 = 0")
    case True
    have "(2 :: nat) ^ ((i + 1) * 7) \<le> 2 ^ ((i + Suc fuel) * 7)" by (rule power_increasing) simp_all
    note less = order_less_le_trans [OF lt this]
    have v: "v = ret OR push_bit (i * 7) (b AND 0x7F)" and "gb' = gb1" using True rest by (simp_all add: Let_def)
    have "v < 2 ^ ((i + Suc fuel) * 7)" unfolding v by (rule less)
    then show ?thesis using \<open>gb' = gb1\<close> gb1 Suc.prems(3) by (intro conjI exI [of _ "gb_index gb1"]) simp_all
  next
    case False
    then have "leb128_bytes fuel (i + 1) (ret OR push_bit (i * 7) (b AND 0x7F)) gb1 = Some (v, gb')"
      using rest by (simp add: Let_def)
    from Suc.IH [OF this lt] show ?thesis using gb1 Suc.prems(3) by auto
  qed
qed

lemma leb128_bound:
  assumes "leb128 gb = Some (v, gb')" and "gb_index gb \<le> gb_size_in_bits_plus8 gb"
  shows "v < 2 ^ 56" "\<exists>j. gb' = gb\<lparr>gb_index := j\<rparr> \<and> gb_index gb \<le> j \<and> j \<le> gb_size_in_bits_plus8 gb"
  using leb128_bytes_bound [of 8 0 0 gb v gb'] assms by (simp_all add: leb128_def)


lemma obu_flags_frame:
  assumes "obu_flags gb = Some (r, gb')" and "gb_index gb \<le> gb_size_in_bits_plus8 gb"
  shows "gb' = gb\<lparr>gb_index := min (gb_index gb + 7) (gb_size_in_bits_plus8 gb)\<rparr>"
  using assms by (auto simp: obu_flags_def bind_eq_Some_conv dest!: get_bits_frame skip_bits_frame)


lemma get_bits_le: "get_bits 1 s = Some (v, s') \<Longrightarrow> v \<le> 1"
  using get_bit1_Some(2) [of s v] get_bit1_Some(2) [of s] by (fastforce simp: get_bits_def bind_eq_Some_conv unat_of_nat)

lemma obu_flags_ext: "obu_flags gb = Some ((t, ext, hs), gb') \<Longrightarrow> ext \<le> 1"
  by (auto simp: obu_flags_def bind_eq_Some_conv simp del: One_nat_def dest: get_bits_le)

lemma obu_layers_frame:
  assumes "obu_layers ext gb = Some (r, gb')" and "gb_index gb \<le> gb_size_in_bits_plus8 gb"
  shows "gb' = gb\<lparr>gb_index := (if ext \<noteq> 0 then min (gb_index gb + 8) (gb_size_in_bits_plus8 gb) else gb_index gb)\<rparr>"
  using assms by (auto simp: obu_layers_def bind_eq_Some_conv split: if_splits dest!: get_bits_frame skip_bits_frame)

lemma obu_layers_in_buffer:
  assumes "obu_layers ext gb = Some (r, gb')" and "ext \<noteq> 0"
  shows "gb_index gb div 8 < length (gb_buffer gb)"
  using assms get_bits_in_buffer [of 2 gb] by (auto simp: obu_layers_def bind_eq_Some_conv numeral_3_eq_3)


definition obu_context :: "byte list \<Rightarrow> nat \<Rightarrow> Av1GetBitContext" where
  "obu_context buf i = \<lparr>gb_buffer = buf, gb_index = i, gb_size_in_bits = min (length buf) 10 * 8,
    gb_size_in_bits_plus8 = min (length buf) 10 * 8 + 8\<rparr>"

lemma obu_context_simps [simp]:
  "gb_index (obu_context buf i) = i" "gb_buffer (obu_context buf i) = buf"
  "gb_size_in_bits (obu_context buf i) = min (length buf) 10 * 8"
  "gb_size_in_bits_plus8 (obu_context buf i) = min (length buf) 10 * 8 + 8"
  "(obu_context buf i)\<lparr>gb_index := j\<rparr> = obu_context buf j"
  by (simp_all add: obu_context_def)

lemma parse_obu_header_fields:
  "parse_obu_header buf = parse_obu_fields buf (obu_context buf 0)"
proof -
  have eq: "min (int (length buf)) MAX_OBU_HEADER_SIZE = int (min (length buf) 10)"
    by (simp add: MAX_OBU_HEADER_SIZE_def)
  have "init_get_bits8 buf (int n) = (0, \<lparr>gb_buffer = buf, gb_index = 0, gb_size_in_bits = n * 8, gb_size_in_bits_plus8 = n * 8 + 8\<rparr>)"
    if "n \<le> 10" for n
    using that by (simp add: init_get_bits8_def init_get_bits_def INT_MAX_def nat_mult_distrib)
  then show ?thesis unfolding parse_obu_header_def eq by (simp add: obu_context_def)
qed

lemma obu_extent_Some:
  assumes "obu_extent buf ty ids osz gb = Some (Some h)" and "0 \<le> osz" and "osz < 2 ^ 60" and "gb_index gb < 2 ^ 60"
  shows "ob_start_pos h = gb_index gb div 8" "ob_size h = osz" "int (ob_len h) = osz + int (gb_index gb div 8)" "ob_len h \<le> length buf"
    "ob_type h = ty" "gb_index gb \<le> gb_size_in_bits gb"
proof -
  have "int (gb_index gb div 8) < 1152921504606846976" using assms(4) by simp
  moreover have "osz < 1152921504606846976" using assms(3) by simp
  ultimately have "(osz + int (gb_index gb div 8)) mod 2 ^ 64 = osz + int (gb_index gb div 8)"
    using assms(2) by (intro mod_pos_pos_trivial) simp_all
  then show "ob_start_pos h = gb_index gb div 8" "ob_size h = osz" "int (ob_len h) = osz + int (gb_index gb div 8)" "ob_len h \<le> length buf"
    "ob_type h = ty" "gb_index gb \<le> gb_size_in_bits gb"
    using assms(1,2)
    by (auto simp: obu_extent_def Let_def get_bits_count_def get_bits_left_def simp del: One_nat_def split: if_splits)
qed


lemma parse_obu_fields_Some:
  assumes "parse_obu_fields buf gb = Some (Some h)"
  obtains f gb1 ty ext hs gb2 ids gb3 osz gb4 where
    "get_bits 1 gb = Some (f, gb1)" "obu_flags gb1 = Some ((ty, ext, hs), gb2)" "obu_layers ext gb2 = Some (ids, gb3)"
    "obu_size_field buf ext hs gb3 = Some (osz, gb4)"
    "obu_extent buf ty ids osz gb4 = Some (Some h)"
  using assms unfolding parse_obu_fields_def bind_eq_Some_conv by (auto split: if_splits simp: bind_eq_Some_conv)

lemma obu_size_field_Some:
  assumes "obu_size_field buf ext hs gb = Some (v, gb')" and "gb_index gb \<le> gb_size_in_bits_plus8 gb" and "length buf \<le> INT_MAX"
  shows "v < 2 ^ 60 \<and> (0 \<le> v \<or> length buf < ext + 1) \<and>
    (\<exists>j. gb' = gb\<lparr>gb_index := j\<rparr> \<and> gb_index gb \<le> j \<and> j \<le> gb_size_in_bits_plus8 gb)"
proof (cases "hs = 0")
  case True
  then have v: "v = int (length buf) - 1 - int ext" and "gb' = gb" using assms(1) by (simp_all add: obu_size_field_def)
  then have "\<exists>j. gb' = gb\<lparr>gb_index := j\<rparr> \<and> gb_index gb \<le> j \<and> j \<le> gb_size_in_bits_plus8 gb"
    using assms(2) by (intro exI [of _ "gb_index gb"]) simp
  then show ?thesis using v assms(3) by (simp add: INT_MAX_def) linarith
next
  case False
  then obtain n where n: "leb128 gb = Some (n, gb')" "v = int n" using assms(1) by (auto simp: obu_size_field_def)
  then show ?thesis using leb128_bound [OF n(1) assms(2)] by simp
qed

lemma parse_obu_header_progress:
  assumes "parse_obu_header buf = Some (Some h)" and "buf \<noteq> []" and "length buf \<le> INT_MAX"
  shows "1 \<le> ob_start_pos h \<and> 0 \<le> ob_size h \<and> ob_len h \<le> length buf \<and> int (ob_len h) = ob_size h + int (ob_start_pos h)"
  using assms(1) unfolding parse_obu_header_fields
proof (rule parse_obu_fields_Some)
  fix f gb1 ty ext hs gb2 ids gb3 osz gb4
  assume f: "get_bits 1 (obu_context buf 0) = Some (f, gb1)" and fl: "obu_flags gb1 = Some ((ty, ext, hs), gb2)"
    and la: "obu_layers ext gb2 = Some (ids, gb3)" and sz: "obu_size_field buf ext hs gb3 = Some (osz, gb4)"
    and ex: "obu_extent buf ty ids osz gb4 = Some (Some h)"
  have len: "1 \<le> length buf" using assms(2) by (cases buf) auto
  have gb1: "gb1 = obu_context buf 1" using get_bits_frame [OF f] len by simp
  then have gb2: "gb2 = obu_context buf 8" using obu_flags_frame [OF fl] len by (simp add: min_def)
  have gb3: "gb3 = obu_context buf (if ext \<noteq> 0 then 16 else 8)" using obu_layers_frame [OF la] len gb2 by (simp add: min_def)
  have ext: "ext \<noteq> 0 \<Longrightarrow> 2 \<le> length buf" "ext \<le> 1" using obu_layers_in_buffer [OF la] gb2 obu_flags_ext [OF fl] by simp_all
  then have idx3: "gb_index gb3 \<le> gb_size_in_bits_plus8 gb3" using gb3 len by (simp add: min_def)
  from obu_size_field_Some [OF sz idx3 assms(3)] obtain j where
    osz: "osz < 2 ^ 60" "0 \<le> osz \<or> length buf < ext + 1" and j: "gb4 = obu_context buf j" "8 \<le> j" "j \<le> 88"
    using gb3 by (auto split: if_splits simp: min_def)
  have "0 \<le> osz" using osz(2) ext len by linarith
  with obu_extent_Some [OF ex _ osz(1)] j show ?thesis by auto
qed

section \<open>Decoder configuration record\<close>

text \<open>
  The walk over the units: the number of sequence headers, the parameters and bytes of the last
  one, and the bytes of the last metadata unit.  \<open>Some None\<close> is the early return of 0.
\<close>

record av1_scan =
  sc_nb_seq :: nat
  sc_params :: AV1SequenceParameters
  sc_seq :: "byte list"
  sc_meta :: "byte list"

definition scan_unit :: "byte list \<Rightarrow> av1_obu \<Rightarrow> av1_scan \<Rightarrow> av1_scan option option" where
  "scan_unit buf h sc =
    (if ob_type h = AV1_OBU_SEQUENCE_HEADER then
       (let sc = sc\<lparr>sc_nb_seq := sc_nb_seq sc + 1\<rparr>
        in if ob_size h = 0 \<or> sc_nb_seq sc > 1 then Some None
           else if int INT_MAX < ob_size h then None
           else
             (case parse_sequence_header (drop (ob_start_pos h) buf) (nat (ob_size h)) of
                None \<Rightarrow> None
              | Some None \<Rightarrow> Some None
              | Some (Some params) \<Rightarrow> Some (Some (sc\<lparr>sc_params := params, sc_seq := take (ob_len h) buf\<rparr>))))
     else if ob_type h = AV1_OBU_METADATA then
       if ob_size h = 0 then Some None else Some (Some (sc\<lparr>sc_meta := take (ob_len h) buf\<rparr>))
     else Some (Some sc))"

function scan_units :: "byte list \<Rightarrow> av1_scan \<Rightarrow> av1_scan option option" where
  "scan_units buf sc =
    (if buf = [] then Some (Some sc)
     else if INT_MAX < length buf then None
     else
       (case parse_obu_header buf of
          None \<Rightarrow> None
        | Some None \<Rightarrow> Some None
        | Some (Some h) \<Rightarrow>
            (case scan_unit buf h sc of
               None \<Rightarrow> None
             | Some None \<Rightarrow> Some None
             | Some (Some sc) \<Rightarrow> scan_units (drop (ob_len h) buf) sc)))"
  by pat_completeness auto
termination
proof (relation "measure (\<lambda>(buf, _). length buf)")
  fix buf sc o1 h o2 sc1
  assume "buf \<noteq> []" "\<not> INT_MAX < length buf" "parse_obu_header buf = Some o1" "o1 = Some h"
  then have "1 \<le> ob_len h" using parse_obu_header_progress [of buf h] by simp
  then show "((drop (ob_len h) buf, sc1), buf, sc) \<in> measure (\<lambda>(buf, _). length buf)"
    using \<open>buf \<noteq> []\<close> by simp
qed simp

declare scan_units.simps [simp del]

text \<open>The four bytes in front of the units.\<close>

definition av1_record_head :: "AV1SequenceParameters \<Rightarrow> byte list" where
  "av1_record_head sq =
    [0x81,
     word_of_nat (push_bit 5 (sq_profile sq) OR sq_level sq),
     word_of_nat (push_bit 7 (sq_tier sq) OR push_bit 6 (of_bool (sq_bitdepth sq > 8)) OR
       push_bit 5 (of_bool (sq_bitdepth sq = 12)) OR push_bit 4 (sq_monochrome sq) OR
       push_bit 3 (sq_chroma_subsampling_x sq) OR push_bit 2 (sq_chroma_subsampling_y sq) OR sq_chroma_sample_position sq),
     0]"

definition write_av1_header :: "av1_scan \<Rightarrow> ('s serializer, unit) state" where
  "write_av1_header sc = do {
     _ \<leftarrow> s_write (av1_record_head (sc_params sc));
     _ \<leftarrow> (if sc_seq sc \<noteq> [] then s_write (sc_seq sc) else State_Monad.return 0);
     _ \<leftarrow> (if sc_meta sc \<noteq> [] then s_write (sc_meta sc) else State_Monad.return 0);
     State_Monad.return () }"

text \<open>The empty list is a result of size 0; nothing was allocated then.\<close>

definition obs_parse_av1_header :: "byte list \<Rightarrow> byte list option" where
  "obs_parse_av1_header data =
    (if data = [] then None
     else if data ! 0 AND 0x80 \<noteq> 0 then
       Some (if data ! 0 AND 0x7F \<noteq> 1 \<or> length data < 4 then [] else data)
     else
       (case scan_units data \<lparr>sc_nb_seq = 0, sc_params = seq_params_zero, sc_seq = [], sc_meta = []\<rparr> of
          None \<Rightarrow> None
        | Some None \<Rightarrow> Some []
        | Some (Some sc) \<Rightarrow>
            if sc_nb_seq sc = 0 then Some []
            else Some (ao_bytes (ser_data (snd (run_state (write_av1_header sc) array_output_serializer_init))))))"

section \<open>Packets\<close>

definition compute_av1_keyframe_priority :: "byte list \<Rightarrow> bool \<Rightarrow> int \<Rightarrow> (bool \<times> int) option" where
  "compute_av1_keyframe_priority buf is_keyframe priority =
    (if priority \<noteq> 0 then Some (is_keyframe, priority)
     else do {
       let gb = snd (init_get_bits8 buf 1);
       (show_existing_frame, gb) \<leftarrow> get_bit1 gb;
       if show_existing_frame \<noteq> 0 then Some (is_keyframe, priority)
       else do {
         (type, gb) \<leftarrow> get_bits 2 gb;
         (show_frame, gb) \<leftarrow> get_bit1 gb;
         Some (if type = 0 then (True, 3)
               else if type = 1 then (is_keyframe, if show_frame \<noteq> 0 then 1 else 2)
               else if type = 2 then (is_keyframe, 3)
               else (is_keyframe, 2)) } })"

text \<open>What a frame unit does to the flags of its packet.\<close>

definition av1_unit_flags :: "byte list \<Rightarrow> av1_obu \<Rightarrow> bool \<Rightarrow> int \<Rightarrow> (bool \<times> int) option" where
  "av1_unit_flags buf h is_keyframe priority =
    (if ob_type h = AV1_OBU_FRAME \<or> ob_type h = AV1_OBU_FRAME_HEADER
     then compute_av1_keyframe_priority (drop (ob_start_pos h) buf) is_keyframe priority
     else Some (is_keyframe, priority))"

definition av1_dropped :: "nat \<Rightarrow> bool" where
  "av1_dropped type \<longleftrightarrow> type = AV1_OBU_TEMPORAL_DELIMITER \<or> type = AV1_OBU_REDUNDANT_FRAME_HEADER \<or> type = AV1_OBU_TILE_LIST"

function serialize_av1_data :: "byte list \<Rightarrow> bool \<Rightarrow> int \<Rightarrow> 's serializer \<Rightarrow> ((bool \<times> int) \<times> 's serializer) option" where
  "serialize_av1_data buf is_keyframe priority s =
    (if buf = [] then Some ((is_keyframe, priority), s)
     else if INT_MAX < length buf then None
     else
       (case parse_obu_header buf of
          None \<Rightarrow> None
        | Some None \<Rightarrow> Some ((is_keyframe, priority), s)
        | Some (Some h) \<Rightarrow>
            if av1_dropped (ob_type h) then serialize_av1_data (drop (ob_len h) buf) is_keyframe priority s
            else
              (case av1_unit_flags buf h is_keyframe priority of
                 None \<Rightarrow> None
               | Some (kf, pr) \<Rightarrow>
                   serialize_av1_data (drop (ob_len h) buf) kf pr (snd (run_state (s_write (take (ob_len h) buf)) s)))))"
  by pat_completeness auto
termination
proof (relation "measure (\<lambda>(buf, _). length buf)")
  fix buf is_keyframe priority and s :: "'s serializer" and o1 h
  assume *: "buf \<noteq> []" "\<not> INT_MAX < length buf" "parse_obu_header buf = Some o1" "o1 = Some h"
  then have "1 \<le> ob_len h" using parse_obu_header_progress [of buf h] by simp
  then have less: "((drop (ob_len h) buf, r), buf, is_keyframe, priority, s) \<in> measure (\<lambda>(buf, _). length buf)" for r
    using *(1) by simp
  show "((drop (ob_len h) buf, is_keyframe, priority, s), buf, is_keyframe, priority, s) \<in> measure (\<lambda>(buf, _). length buf)"
    by (rule less)
  show "((drop (ob_len h) buf, kf, pr, snd (run_state (s_write (take (ob_len h) buf)) s)), buf, is_keyframe, priority, s)
      \<in> measure (\<lambda>(buf, _). length buf)" for kf pr
    by (rule less)
qed simp

declare serialize_av1_data.simps [simp del]

definition obs_parse_av1_packet :: "encoder_packet \<Rightarrow> encoder_packet option" where
  "obs_parse_av1_packet src =
    (let ref = le64 1; s = snd (run_state (serialize ref) array_output_serializer_init)
     in map_option (\<lambda>((kf, pr), s). src\<lparr>p_data := drop (length ref) (ao_bytes (ser_data s)), p_keyframe := kf,
          p_priority := pr, p_drop_priority := pr\<rparr>)
        (serialize_av1_data (p_data src) (p_keyframe src) (p_priority src) s))"

end
