(* ===== verification/Bits.thy ===== *)
theory Bits
  imports Prelude
begin

text \<open>
  Byte sequences as bit strings, most significant bit first, and the number a bit string stands
  for: the reference that the bit readers of the header parsers are measured against.
\<close>

definition byte_bits :: "byte \<Rightarrow> bool list" where
  "byte_bits b = map (bit b) (rev [0..<8])"

definition buffer_bits :: "byte list \<Rightarrow> bool list" where
  "buffer_bits buf = concat (map byte_bits buf)"

definition bits_value :: "bool list \<Rightarrow> nat" where
  "bits_value bs = horner_sum of_bool 2 (rev bs)"

definition bits_at :: "byte list \<Rightarrow> nat \<Rightarrow> nat \<Rightarrow> nat" where
  "bits_at buf i n = bits_value (take n (drop i (buffer_bits buf)))"

lemma length_byte_bits [simp]: "length (byte_bits b) = 8"
  by (simp add: byte_bits_def)

lemma length_buffer_bits [simp]: "length (buffer_bits buf) = 8 * length buf"
  by (induction buf) (simp_all add: buffer_bits_def)

lemma buffer_bits_append [simp]: "buffer_bits (xs @ ys) = buffer_bits xs @ buffer_bits ys"
  by (simp add: buffer_bits_def)

lemma buffer_bits_Cons [simp]: "buffer_bits (x # xs) = byte_bits x @ buffer_bits xs"
  by (simp add: buffer_bits_def)

lemma buffer_bits_Nil [simp]: "buffer_bits [] = []"
  by (simp add: buffer_bits_def)

lemma bits_value_Nil [simp]: "bits_value [] = 0"
  by (simp add: bits_value_def)

lemma bits_value_append: "bits_value (xs @ ys) = bits_value xs * 2 ^ length ys + bits_value ys"
  by (simp add: bits_value_def horner_sum_append)

lemma bits_value_snoc [simp]: "bits_value (xs @ [b]) = 2 * bits_value xs + of_bool b"
  by (simp add: bits_value_append) (simp add: bits_value_def)

lemma bits_value_less: "bits_value bs < 2 ^ length bs"
  by (induction bs rule: rev_induct) (auto simp: of_bool_def)

lemma byte_bits_nth: "i < 8 \<Longrightarrow> byte_bits b ! i = bit b (7 - i)"
  by (simp add: byte_bits_def rev_nth)

lemma buffer_bits_nth: "i < 8 * length buf \<Longrightarrow> buffer_bits buf ! i = bit (buf ! (i div 8)) (7 - i mod 8)"
proof (induction buf arbitrary: i)
  case (Cons b buf)
  show ?case
  proof (cases "i < 8")
    case True
    then show ?thesis by (simp add: nth_append byte_bits_nth)
  next
    case False
    then have "i div 8 = Suc ((i - 8) div 8)" "(i - 8) mod 8 = i mod 8"
      by (simp_all add: le_div_geq le_mod_geq)
    then show ?thesis using False Cons by (simp add: nth_append)
  qed
qed simp

text \<open>A field within one byte.\<close>

lemma bits_value_byte:
  assumes "n + k \<le> 8"
  shows "bits_value (take k (drop n (byte_bits b))) = take_bit k (drop_bit (8 - n - k) (unat b))"
proof -
  have "rev (take k (drop n (byte_bits b))) = map (bit b) (take k (drop (8 - n - k) [0..<8]))"
    using assms by (simp add: byte_bits_def rev_map [symmetric] rev_take rev_drop drop_take drop_map take_map)
  also have "\<dots> = map (bit (drop_bit (8 - n - k) b)) [0..<k]"
    using assms by (intro nth_equalityI) (simp_all add: bit_drop_bit_eq)
  also have "\<dots> = map (bit (drop_bit (8 - n - k) (unat b))) [0..<k]"
  proof (rule map_cong [OF refl])
    fix i assume "i \<in> set [0..<k]"
    then have "8 - n - k + i < 8" using assms by simp
    then show "bit (drop_bit (8 - n - k) b) i = bit (drop_bit (8 - n - k) (unat b)) i"
      by (simp add: bit_drop_bit_eq bit_unsigned_iff)
  qed
  finally show ?thesis by (simp add: bits_value_def horner_sum_bit_eq_take_bit)
qed

lemma bits_value_whole_byte: "bits_value (byte_bits b) = unat b"
proof -
  have "bits_value (take 8 (drop 0 (byte_bits b))) = take_bit 8 (unat b)" by (subst bits_value_byte) simp_all
  moreover have "unat b < 2 ^ 8" using unsigned_less [of b, where ?'a = nat] by simp
  ultimately show ?thesis by (simp add: take_bit_nat_eq_self)
qed

lemma bits_at_Cons_byte: "n + k \<le> 8 \<Longrightarrow> bits_at (b # bs) n k = take_bit k (drop_bit (8 - n - k) (unat b))"
  by (simp add: bits_at_def bits_value_byte)

lemma bits_at_skip: "8 * length xs \<le> i \<Longrightarrow> bits_at (xs @ ys) i n = bits_at ys (i - 8 * length xs) n"
  by (simp add: bits_at_def)

lemma bits_at_less: "bits_at buf i n < 2 ^ n"
proof -
  have "bits_at buf i n < 2 ^ length (take n (drop i (buffer_bits buf)))" unfolding bits_at_def by (rule bits_value_less)
  also have "\<dots> \<le> 2 ^ n" by (rule power_increasing) simp_all
  finally show ?thesis .
qed

lemma bits_at_byte: "i < length buf \<Longrightarrow> bits_at buf (8 * i) 8 = unat (buf ! i)"
proof -
  assume i: "i < length buf"
  have "bits_at (take i buf @ buf ! i # drop (Suc i) buf) (8 * i) 8 = unat (buf ! i)"
    using i by (subst bits_at_skip) (simp_all add: bits_at_def bits_value_whole_byte)
  then show ?thesis using i by (simp add: id_take_nth_drop [symmetric])
qed

text \<open>Reading one more bit, and two fields in a row.\<close>

lemma bits_at_Suc:
  assumes "i + n < 8 * length buf"
  shows "bits_at buf i (Suc n) = 2 * bits_at buf i n + of_bool (bit (buf ! ((i + n) div 8)) (7 - (i + n) mod 8))"
proof -
  have "take (Suc n) (drop i (buffer_bits buf)) = take n (drop i (buffer_bits buf)) @ [buffer_bits buf ! (i + n)]"
    using assms by (simp add: take_Suc_conv_app_nth)
  then show ?thesis using assms by (simp add: bits_at_def buffer_bits_nth)
qed

lemma bits_at_0 [simp]: "bits_at buf i 0 = 0"
  by (simp add: bits_at_def)

lemma bits_at_add:
  assumes "i + m + n \<le> 8 * length buf"
  shows "bits_at buf i (m + n) = bits_at buf i m * 2 ^ n + bits_at buf (i + m) n"
proof -
  have "take (m + n) (drop i (buffer_bits buf)) = take m (drop i (buffer_bits buf)) @ take n (drop (i + m) (buffer_bits buf))"
    by (simp add: take_add add.commute)
  moreover have "length (take n (drop (i + m) (buffer_bits buf))) = n" using assms by simp
  ultimately show ?thesis unfolding bits_at_def by (simp only: bits_value_append)
qed

end
