(* ===== verification/Rtmp_Av1_Stream.thy ===== *)
theory Rtmp_Av1_Stream
  imports Rtmp_Av1 Bits
begin

text \<open>
  What the AV1 parsers compute: the bit reader against bit strings, unit headers of well-formed
  units, the packet filter and the configuration record on streams of units, and when the
  unbounded loop of the sequence header parser ends.
\<close>

section \<open>The bit reader reads bit strings\<close>

lemma get_bit1_spec:
  assumes "gb_index s < 8 * length (gb_buffer s)" and "gb_index s < gb_size_in_bits_plus8 s"
  shows "get_bit1 s = Some (of_bool (bit (gb_buffer s ! (gb_index s div 8)) (7 - gb_index s mod 8)), s\<lparr>gb_index := gb_index s + 1\<rparr>)"
proof -
  have "unat (drop_bit 7 (push_bit k w)) = of_bool (bit w (7 - k))" if "k < 8" for k and w :: u8
  proof -
    have "drop_bit 7 (push_bit k w) = of_bool (bit w (7 - k))"
      using that by (intro bit_word_eqI) (auto simp: bit_drop_bit_eq bit_push_bit_iff bit_of_bool_iff bit_0)
    then show ?thesis by simp
  qed
  moreover have "gb_index s div 8 < length (gb_buffer s)" using assms(1) by simp
  ultimately show ?thesis using assms(2) by (simp add: get_bit1_def Let_def)
qed

lemma get_bits_loop_spec:
  assumes "i + n + m \<le> 8 * length (gb_buffer s)" and "i + n + m \<le> gb_size_in_bits_plus8 s" and "n + m \<le> 32"
    and "gb_index s = i + n"
  shows "get_bits_loop m (word_of_nat (bits_at (gb_buffer s) i n)) s =
    Some (word_of_nat (bits_at (gb_buffer s) i (n + m)), s\<lparr>gb_index := i + n + m\<rparr>)"
  using assms
proof (induction m arbitrary: n s)
  case (Suc m)
  let ?b = "of_bool (bit (gb_buffer s ! ((i + n) div 8)) (7 - (i + n) mod 8)) :: nat"
  have "get_bit1 s = Some (?b, s\<lparr>gb_index := i + n + 1\<rparr>)" using get_bit1_spec [of s] Suc.prems by simp
  moreover have "push_bit 1 (word_of_nat a :: u32) OR word_of_nat (of_bool c) = word_of_nat (2 * a + of_bool c)" for a c
  proof -
    have "push_bit 1 (word_of_nat a :: u32) = word_of_nat (push_bit 1 a)" by (simp add: push_bit_eq_mult)
    moreover have "push_bit 1 a OR of_bool c = 2 * a + of_bool c"
      using or_push_bit_nat [of "of_bool c" 1 a] by (simp add: or.commute push_bit_eq_mult)
    ultimately show ?thesis by (metis of_nat_or_eq)
  qed
  ultimately have "get_bits_loop (Suc m) (word_of_nat (bits_at (gb_buffer s) i n)) s =
      get_bits_loop m (word_of_nat (bits_at (gb_buffer s) i (Suc n))) (s\<lparr>gb_index := i + n + 1\<rparr>)"
    using Suc.prems by (simp add: bits_at_Suc del: of_nat_add of_nat_mult of_nat_of_bool)
  also have "\<dots> = Some (word_of_nat (bits_at (gb_buffer s) i (n + Suc m)), s\<lparr>gb_index := i + n + Suc m\<rparr>)"
    using Suc.IH [of "Suc n" "s\<lparr>gb_index := i + n + 1\<rparr>"] Suc.prems by simp
  finally show ?case .
qed simp

text \<open>
  Within its buffer up to 32 bits at any position come back as the number they stand for, most
  significant bit first, and the position moves by as many.
\<close>

lemma get_bits_spec:
  assumes "gb_index s + n \<le> 8 * length (gb_buffer s)" and "gb_index s + n \<le> gb_size_in_bits_plus8 s" and "n \<le> 32"
  shows "get_bits n s = Some (bits_at (gb_buffer s) (gb_index s) n, s\<lparr>gb_index := gb_index s + n\<rparr>)"
proof -
  have "bits_at (gb_buffer s) (gb_index s) n < 2 ^ n" by (rule bits_at_less)
  also have "(2 :: nat) ^ n \<le> 2 ^ 32" using assms(3) by (intro power_increasing) simp_all
  finally have "unat (word_of_nat (bits_at (gb_buffer s) (gb_index s) n) :: u32) = bits_at (gb_buffer s) (gb_index s) n"
    by (simp add: unat_of_nat)
  then show ?thesis using get_bits_loop_spec [of "gb_index s" 0 n s] assms by (simp add: get_bits_def)
qed

lemma skip_bits_spec:
  assumes "gb_index s + n \<le> 8 * length (gb_buffer s)" and "gb_index s + n \<le> gb_size_in_bits_plus8 s" and "n \<le> 32"
  shows "skip_bits n s = Some (s\<lparr>gb_index := gb_index s + n\<rparr>)"
  using get_bits_spec [OF assms] by (simp add: skip_bits_def)

text \<open>Obu units as the other reader of the program sees them have the same fields.\<close>

lemma bits_at_field: "n + k \<le> 8 \<Longrightarrow> 0 < k \<Longrightarrow> bits_at (b # bs) n k = Obu.get_bits b n k"
proof -
  assume "n + k \<le> 8" "0 < k"
  then have "(2 :: nat) ^ (k - 1) * 2 - 1 = mask k" by (cases k) (simp_all add: mask_eq_exp_minus_1 mult.commute)
  then show ?thesis using \<open>n + k \<le> 8\<close> by (simp add: bits_at_Cons_byte Obu.get_bits_def take_bit_eq_mask)
qed

section \<open>Unit headers\<close>

text \<open>Variable-length integers of whole bytes, read at a byte position.\<close>

lemma leb128_bytes_uleb:
  assumes "drop k buf = uleb n @ rest" and "a < 2 ^ (i * 7)" and "length (uleb n) \<le> fuel" and "8 * (k + length (uleb n)) \<le> plus8"
  shows "leb128_bytes fuel i a \<lparr>gb_buffer = buf, gb_index = 8 * k, gb_size_in_bits = sz, gb_size_in_bits_plus8 = plus8\<rparr> =
    Some (a + n * 2 ^ (i * 7), \<lparr>gb_buffer = buf, gb_index = 8 * (k + length (uleb n)), gb_size_in_bits = sz, gb_size_in_bits_plus8 = plus8\<rparr>)"
  using assms
proof (induction n arbitrary: k i a fuel rule: less_induct)
  case (less n)
  let ?m = "n mod 128" and ?gb = "\<lambda>i. \<lparr>gb_buffer = buf, gb_index = i, gb_size_in_bits = sz, gb_size_in_bits_plus8 = plus8\<rparr>"
  obtain f where f: "fuel = Suc f" using less.prems(3) by (cases fuel) auto
  let ?b = "if n < 128 then n else ?m + 128"
  have u: "uleb n = word_of_nat ?b # (if n < 128 then [] else uleb (n div 128))" by (subst uleb.simps) simp
  have b: "?b < 256" by simp
  have "k < length buf" using less.prems(1) by (cases "k < length buf") (auto simp: u)
  moreover from this have "buf ! k = word_of_nat ?b" using less.prems(1) u by (metis append_Cons nth_via_drop)
  ultimately have "bits_at buf (8 * k) 8 = ?b" using b by (simp add: bits_at_byte unat_of_nat del: of_nat_add)
  then have get: "get_bits 8 (?gb (8 * k)) = Some (?b, ?gb (8 * (k + 1)))"
    using get_bits_spec [of "?gb (8 * k)" 8] \<open>k < length buf\<close> less.prems(4) u by simp
  have low: "?b AND 0x7F = ?m"
  proof -
    have "?b AND 0x7F = take_bit 7 ?b" by (simp add: take_bit_eq_mask mask_eq_exp_minus_1)
    then show ?thesis by (simp add: take_bit_eq_mod)
  qed
  have hi: "(?b AND 0x80 = 0) = (n < 128)"
  proof -
    have "(?b AND 0x80 = 0) = (\<not> bit ?b 7)" using and_exp_eq_0_iff_not_bit [of ?b 7] by simp
    moreover have "(?m + 128) div 128 = 1" by simp
    ultimately show ?thesis by (auto simp: bit_iff_odd)
  qed
  have or: "a OR push_bit (i * 7) ?m = a + ?m * 2 ^ (i * 7)"
    unfolding or_push_bit_nat [OF less.prems(2)] by (simp only: push_bit_eq_mult)
  have step: "leb128_bytes fuel i a (?gb (8 * k)) =
      (if n < 128 then Some (a + ?m * 2 ^ (i * 7), ?gb (8 * (k + 1))) else leb128_bytes f (i + 1) (a + ?m * 2 ^ (i * 7)) (?gb (8 * (k + 1))))"
    unfolding f leb128_bytes.simps get by (simp only: bind.bind_lunit prod.case Let_def low hi or)
  show ?case
  proof (cases "n < 128")
    case True
    then show ?thesis using step u by simp
  next
    case False
    have dist: "x = m + 128 * q \<Longrightarrow> x * p = m * p + q * (128 * p)" for x m q p :: nat by (simp add: algebra_simps)
    have rest: "drop (k + 1) buf = uleb (n div 128) @ rest" using less.prems(1) u False by (simp add: drop_Suc tl_drop [symmetric])
    have "?m * 2 ^ (i * 7) \<le> 127 * 2 ^ (i * 7)" by (intro mult_le_mono1) simp
    moreover have "(2 :: nat) ^ ((i + 1) * 7) = 128 * 2 ^ (i * 7)" by (simp add: power_add)
    ultimately have "a + ?m * 2 ^ (i * 7) < 2 ^ ((i + 1) * 7)" using less.prems(2) by linarith
    with rest have "leb128_bytes f (i + 1) (a + ?m * 2 ^ (i * 7)) (?gb (8 * (k + 1))) =
        Some (a + ?m * 2 ^ (i * 7) + (n div 128) * 2 ^ ((i + 1) * 7), ?gb (8 * (k + 1 + length (uleb (n div 128)))))"
      using less.prems(3,4) f u False by (intro less.IH) auto
    moreover have "n * 2 ^ (i * 7) = ?m * 2 ^ (i * 7) + (n div 128) * 2 ^ ((i + 1) * 7)"
      using dist [of n ?m "n div 128" "2 ^ (i * 7)"] by (simp add: power_add)
    ultimately show ?thesis using step u False by simp
  qed
qed


lemma leb128_obu:
  assumes "drop k buf = uleb n @ rest" and "k + length (uleb n) \<le> 10" and "2 \<le> k \<or> length (uleb n) \<le> 8"
  shows "leb128 (obu_context buf (8 * k)) = Some (n, obu_context buf (8 * (k + length (uleb n))))"
proof -
  have "length buf - k = length (uleb n) + length rest" using arg_cong [OF assms(1), of length] by simp
  moreover have "0 < length (uleb n)" by simp
  ultimately have "k + length (uleb n) \<le> length buf" by linarith
  then have "8 * (k + length (uleb n)) \<le> min (length buf) 10 * 8 + 8" using assms(2) by simp
  then show ?thesis
    unfolding leb128_def obu_context_def using leb128_bytes_uleb [OF assms(1), of 0 0 8] assms(2,3) by auto
qed

lemma obu_extent_ok:
  assumes "gb_index gb = 8 * k" and "8 * k \<le> gb_size_in_bits gb" and "n + k \<le> length buf" and "length buf \<le> INT_MAX"
  shows "obu_extent buf ty ids (int n) gb = Some (Some \<lparr>ob_len = n + k, ob_size = int n, ob_start_pos = k, ob_type = ty,
    ob_temporal_id = fst ids, ob_spatial_id = snd ids\<rparr>)"
proof -
  have "n + k < 2 ^ 64" using assms(3,4) by (simp add: INT_MAX_def)
  then have "int (n + k) mod 2 ^ 64 = int (n + k)" by (intro mod_pos_pos_trivial) simp_all
  then have "nat ((int n + int k) mod 2 ^ 64) = n + k" by (metis nat_int of_nat_add)
  then show ?thesis using assms unfolding obu_extent_def by (simp add: get_bits_left_def get_bits_count_def Let_def nat_int_add)
qed

definition sound_unit :: "u8 \<times> byte list \<Rightarrow> bool" where
  "sound_unit u \<longleftrightarrow> sized_unit u \<and> Obu.get_bits (fst u) 0 1 = 0"

lemma get_bits_obu:
  assumes "j + n \<le> 8 * length buf" and "j + n \<le> 8 * min (length buf) 10" and "n \<le> 32"
  shows "get_bits n (obu_context buf j) = Some (bits_at buf j n, obu_context buf (j + n))"
    "skip_bits n (obu_context buf j) = Some (obu_context buf (j + n))"
  using get_bits_spec [of "obu_context buf j" n] skip_bits_spec [of "obu_context buf j" n] assms by simp_all

lemma parse_sized_unit:
  assumes "sound_unit (b, payload)" and "length (sized_obu b payload @ rest) \<le> INT_MAX"
  shows "parse_obu_header (sized_obu b payload @ rest) =
    Some (Some \<lparr>ob_len = length (sized_obu b payload), ob_size = int (length payload),
      ob_start_pos = length (sized_obu b payload) - length payload, ob_type = Obu.get_bits b 1 4,
      ob_temporal_id = 0, ob_spatial_id = 0\<rparr>)"
proof -
  let ?n = "length payload" and ?buf = "sized_obu b payload @ rest"
  have len: "?n < 2 ^ 31" using assms(1) by (simp add: sound_unit_def sized_unit_def)
  let ?u = "uleb ?n"
  have u: "encode_uleb128 (word_of_nat ?n) = ?u" using len by (simp add: encode_uleb128_uleb unat_of_nat)
  have buf: "?buf = b # ?u @ payload @ rest" by (simp add: sized_obu_def u)
  have "?n < 128 ^ 5" using len by simp
  then have ulen: "length ?u \<le> 5" by (rule length_uleb) simp
  have "0 < length ?u" by simp
  have fields: "get_bits 1 (obu_context ?buf 0) = Some (0, obu_context ?buf 1)"
    "obu_flags (obu_context ?buf 1) = Some ((Obu.get_bits b 1 4, 0, Obu.get_bits b 6 1), obu_context ?buf 8)"
    using assms(1) unfolding buf
    by (simp_all add: obu_flags_def get_bits_obu bits_at_field sound_unit_def sized_unit_def plain_header_def)
  have "obu_size_field ?buf 0 (Obu.get_bits b 6 1) (obu_context ?buf 8) = Some (int ?n, obu_context ?buf (8 * (1 + length ?u)))"
    using leb128_obu [of 1 ?buf ?n "payload @ rest"] ulen assms(1)
    by (simp add: obu_size_field_def buf sound_unit_def sized_unit_def plain_header_def)
  moreover have "obu_extent ?buf (Obu.get_bits b 1 4) (0, 0) (int ?n) (obu_context ?buf (8 * (1 + length ?u))) =
      Some (Some \<lparr>ob_len = length (sized_obu b payload), ob_size = int ?n,
        ob_start_pos = length (sized_obu b payload) - ?n, ob_type = Obu.get_bits b 1 4, ob_temporal_id = 0, ob_spatial_id = 0\<rparr>)"
    using obu_extent_ok [of "obu_context ?buf (8 * (1 + length ?u))" "1 + length ?u" ?n ?buf] ulen assms(2)
    by (simp add: sized_obu_def u)
  ultimately show ?thesis unfolding parse_obu_header_fields parse_obu_fields_def using fields by (simp add: obu_layers_def)
qed


section \<open>Packets\<close>

text \<open>What the first byte of a frame unit says of its packet.\<close>

definition frame_flags :: "byte \<Rightarrow> bool \<times> int \<Rightarrow> bool \<times> int" where
  "frame_flags b = (\<lambda>(kf, pr).
    if pr \<noteq> 0 \<or> Obu.get_bits b 0 1 \<noteq> 0 then (kf, pr)
    else if Obu.get_bits b 1 2 = 0 then (True, 3)
    else if Obu.get_bits b 1 2 = 1 then (kf, if Obu.get_bits b 3 1 \<noteq> 0 then 1 else 2)
    else if Obu.get_bits b 1 2 = 2 then (kf, 3)
    else (kf, 2))"

definition unit_flags :: "u8 \<times> byte list \<Rightarrow> bool \<times> int \<Rightarrow> bool \<times> int" where
  "unit_flags u = (if Obu.get_bits (fst u) 1 4 \<in> {AV1_OBU_FRAME, AV1_OBU_FRAME_HEADER} then frame_flags (hd (snd u)) else id)"

definition kept_unit :: "u8 \<times> byte list \<Rightarrow> bool" where
  "kept_unit u \<longleftrightarrow> Obu.get_bits (fst u) 1 4 \<notin> {AV1_OBU_TEMPORAL_DELIMITER, AV1_OBU_REDUNDANT_FRAME_HEADER, AV1_OBU_TILE_LIST}"

definition packet_unit :: "u8 \<times> byte list \<Rightarrow> bool" where
  "packet_unit u \<longleftrightarrow> sound_unit u \<and> (Obu.get_bits (fst u) 1 4 \<in> {AV1_OBU_FRAME, AV1_OBU_FRAME_HEADER} \<longrightarrow> snd u \<noteq> [])"

lemma compute_av1_keyframe_priority_spec:
  "compute_av1_keyframe_priority (b # bs) kf pr = Some (frame_flags b (kf, pr))"
proof -
  define gb where "gb i = \<lparr>gb_buffer = b # bs, gb_index = i, gb_size_in_bits = 8, gb_size_in_bits_plus8 = 16\<rparr>" for i
  have gb: "gb_index (gb i) = i" "gb_buffer (gb i) = b # bs" "gb_size_in_bits_plus8 (gb i) = 16" "(gb i)\<lparr>gb_index := j\<rparr> = gb j" for i j
    by (simp_all add: gb_def)
  have init: "snd (init_get_bits8 (b # bs) 1) = gb 0" by (simp add: init_get_bits8_def init_get_bits_def INT_MAX_def gb_def)
  have bit1: "get_bit1 (gb i) = Some (Obu.get_bits b i 1, gb (i + 1))" if "i < 8" for i
  proof -
    have "get_bits 1 (gb i) = Some (Obu.get_bits b i 1, gb (i + 1))" using get_bits_spec [of "gb i" 1] that by (simp add: gb bits_at_field)
    moreover have "get_bit1 (gb i) = Some (of_bool (bit b (7 - i)), gb (i + 1))" using get_bit1_spec [of "gb i"] that by (simp add: gb)
    ultimately show ?thesis by (cases "bit b (7 - i)") (simp_all add: get_bits_def)
  qed
  have "get_bits 2 (gb 1) = Some (Obu.get_bits b 1 2, gb 3)" using get_bits_spec [of "gb 1" 2] by (simp add: gb bits_at_field numeral_3_eq_3)
  then show ?thesis
    using bit1 [of 0] bit1 [of 3] by (simp add: compute_av1_keyframe_priority_def init frame_flags_def)
qed


lemma arr_write_appends:
  assumes "arr.ready s"
  shows "arr.ready (snd (run_state (s_write d) s))" "array_content (snd (run_state (s_write d) s)) = array_content s @ d"
proof -
  obtain s' where "run_state (s_write d) s = (length d, s')" "arr.stored s d s'"
    by (rule arr.emitsD [OF arr.emits_s_write assms])
  moreover have "array_cursor s = length (array_content s)" using assms by (simp add: arr.ready_def)
  ultimately show "arr.ready (snd (run_state (s_write d) s))" "array_content (snd (run_state (s_write d) s)) = array_content s @ d"
    by (simp_all add: arr.stored_def write_at_def)
qed

lemma serialize_av1_data_stream:
  assumes "list_all packet_unit us" and "length (obu_stream us) \<le> INT_MAX" and "arr.ready s"
  shows "\<exists>s'. serialize_av1_data (obu_stream us) kf pr s = Some (fold unit_flags us (kf, pr), s') \<and> arr.ready s' \<and>
    array_content s' = array_content s @ obu_stream (filter kept_unit us)"
  using assms
proof (induction us arbitrary: kf pr s)
  case Nil
  then show ?case by (simp add: serialize_av1_data.simps)
next
  case (Cons u us)
  obtain b p where u: "u = (b, p)" by (cases u)
  let ?d = "sized_obu b p" and ?s = "snd (run_state (s_write (sized_obu b p)) s)"
  let ?h = "\<lparr>ob_len = length ?d, ob_size = int (length p), ob_start_pos = length ?d - length p,
    ob_type = Obu.get_bits b 1 4, ob_temporal_id = 0, ob_spatial_id = 0\<rparr>"
  have parse: "parse_obu_header (?d @ obu_stream us) = Some (Some ?h)"
    using Cons.prems u by (intro parse_sized_unit) (simp_all add: packet_unit_def)
  have "drop (length ?d - length p) (?d @ obu_stream us) = p @ obu_stream us" by (simp add: sized_obu_def)
  then have flags: "av1_unit_flags (?d @ obu_stream us) ?h kf pr = Some (unit_flags u (kf, pr))"
    using Cons.prems(1) compute_av1_keyframe_priority_spec
    by (cases p) (auto simp: av1_unit_flags_def unit_flags_def u packet_unit_def)
  have step: "serialize_av1_data (obu_stream (u # us)) kf pr s =
      (if kept_unit u then serialize_av1_data (obu_stream us) (fst (unit_flags u (kf, pr))) (snd (unit_flags u (kf, pr))) ?s
       else serialize_av1_data (obu_stream us) kf pr s)"
    using Cons.prems(2) parse flags
    by (subst serialize_av1_data.simps) (auto simp: u av1_dropped_def kept_unit_def split: prod.splits)
  show ?case
  proof (cases "kept_unit u")
    case True
    then show ?thesis
      using step Cons.IH [of ?s "fst (unit_flags u (kf, pr))" "snd (unit_flags u (kf, pr))"] Cons.prems arr_write_appends [of s ?d] u
      by auto
  next
    case False
    then have "unit_flags u = id" by (auto simp: kept_unit_def unit_flags_def av1_obu_types)
    then show ?thesis using step False Cons.IH [of s kf pr] Cons.prems u by auto
  qed
qed

text \<open>
  C19. On a stream of units the AV1 packet parser keeps every unit but temporal delimiters,
  redundant frame headers and tile lists, byte for byte and in order, and sets key frame flag and
  priority from the frame units, where the first priority that is set wins.
\<close>

theorem av1_packet_converted:
  assumes "list_all packet_unit us" and "p_data src = obu_stream us" and "length (obu_stream us) \<le> INT_MAX"
  shows "obs_parse_av1_packet src = Some (let (kf, pr) = fold unit_flags us (p_keyframe src, p_priority src)
    in src\<lparr>p_data := obu_stream (filter kept_unit us), p_keyframe := kf, p_priority := pr, p_drop_priority := pr\<rparr>)"
proof -
  let ?s = "snd (run_state (serialize (le64 1)) array_output_serializer_init)"
  have "arr.ready ?s" "array_content ?s = le64 1"
    by (simp_all add: arr.ready_def array_valid_def array_content_def array_cursor_def array_output_serializer_init_def
      serialize_def array_output_write_def)
  then obtain s' where "serialize_av1_data (p_data src) (p_keyframe src) (p_priority src) ?s =
      Some (fold unit_flags us (p_keyframe src, p_priority src), s')"
      "array_content s' = le64 1 @ obu_stream (filter kept_unit us)"
    using serialize_av1_data_stream [OF assms(1,3), of ?s "p_keyframe src" "p_priority src"] assms(2) by auto
  then show ?thesis by (simp add: obs_parse_av1_packet_def Let_def array_content_def split: prod.split)
qed


definition sample_av1_units :: "(u8 \<times> byte list) list" where
  "sample_av1_units = [(0x12, []), (0x0A, [5, 6]), (0x32, [0x10, 1])]"

definition sample_av1_packet :: encoder_packet where
  "sample_av1_packet = \<lparr>p_data = obu_stream sample_av1_units, p_pts = 0, p_dts = 0, p_timebase_num = 1, p_timebase_den = 60,
     p_type = OBS_ENCODER_VIDEO, p_keyframe = False, p_dts_usec = 0, p_sys_dts_usec = 0, p_priority = 0,
     p_drop_priority = 0, p_track_idx = 0, p_encoder = None\<rparr>"

lemma sample_av1_units_ok:
  "list_all packet_unit sample_av1_units" "length (obu_stream sample_av1_units) \<le> INT_MAX"
  by (simp_all add: sample_av1_units_def packet_unit_def sound_unit_def sized_unit_def plain_header_def Obu.get_bits_def
      av1_obu_types drop_bit_eq_div INT_MAX_def sized_obu_def encode_uleb128_uleb uleb.simps)

theorem av1_packet_converted_witness:
  "map_option (\<lambda>p. (p_data p, p_keyframe p, p_priority p)) (obs_parse_av1_packet sample_av1_packet) =
    Some (obu_stream [(0x0A, [5, 6]), (0x32, [0x10, 1])], True, 3)"
  using av1_packet_converted [OF sample_av1_units_ok(1), of sample_av1_packet] sample_av1_units_ok(2)
  by (simp add: sample_av1_packet_def sample_av1_units_def kept_unit_def unit_flags_def frame_flags_def
      Obu.get_bits_def av1_obu_types drop_bit_eq_div)


section \<open>Decoder configuration record\<close>

definition seq_unit :: "u8 \<times> byte list \<Rightarrow> bool" where
  "seq_unit u \<longleftrightarrow> Obu.get_bits (fst u) 1 4 = AV1_OBU_SEQUENCE_HEADER"

definition meta_unit :: "u8 \<times> byte list \<Rightarrow> bool" where
  "meta_unit u \<longleftrightarrow> Obu.get_bits (fst u) 1 4 = AV1_OBU_METADATA"

definition header_units :: "(u8 \<times> byte list) list \<Rightarrow> bool" where
  "header_units us \<longleftrightarrow> list_all (\<lambda>u. sound_unit u \<and> (meta_unit u \<longrightarrow> snd u \<noteq> [])) us"

text \<open>The last metadata unit of a stream, or the given bytes if there is none.\<close>

definition last_meta :: "(u8 \<times> byte list) list \<Rightarrow> byte list \<Rightarrow> byte list" where
  "last_meta us d = (case filter meta_unit us of [] \<Rightarrow> d | ms \<Rightarrow> obu_stream [last ms])"

lemma last_meta_simps [simp]:
  "last_meta [] d = d"
  "meta_unit (b, p) \<Longrightarrow> last_meta ((b, p) # us) d = last_meta us (sized_obu b p)"
  "\<not> meta_unit u \<Longrightarrow> last_meta (u # us) d = last_meta us d"
  by (simp_all add: last_meta_def split: list.split)

lemma scan_units_step:
  assumes "sound_unit (b, p)" and "length (sized_obu b p @ rest) \<le> INT_MAX"
  shows "scan_units (sized_obu b p @ rest) sc =
    (case scan_unit (sized_obu b p @ rest) \<lparr>ob_len = length (sized_obu b p), ob_size = int (length p),
        ob_start_pos = length (sized_obu b p) - length p, ob_type = Obu.get_bits b 1 4, ob_temporal_id = 0, ob_spatial_id = 0\<rparr> sc of
       None \<Rightarrow> None | Some None \<Rightarrow> Some None | Some (Some sc) \<Rightarrow> scan_units rest sc)"
  using assms parse_sized_unit [OF assms] by (subst scan_units.simps) (simp split: option.split)

lemma scan_units_plain:
  assumes "header_units us" and "list_all (\<lambda>u. \<not> seq_unit u) us" and "length (obu_stream us @ rest) \<le> INT_MAX"
  shows "scan_units (obu_stream us @ rest) sc = scan_units rest (sc\<lparr>sc_meta := last_meta us (sc_meta sc)\<rparr>)"
  using assms
proof (induction us arbitrary: sc)
  case (Cons u us)
  obtain b p where u: "u = (b, p)" by (cases u)
  have "scan_units (sized_obu b p @ obu_stream us @ rest) sc =
      scan_units (obu_stream us @ rest) (if meta_unit u then sc\<lparr>sc_meta := sized_obu b p\<rparr> else sc)"
    using Cons.prems scan_units_step [of b p "obu_stream us @ rest" sc]
    by (simp add: u header_units_def scan_unit_def seq_unit_def meta_unit_def)
  then show ?case using Cons.IH [of "if meta_unit u then sc\<lparr>sc_meta := sized_obu b p\<rparr> else sc"] Cons.prems
    by (simp add: u header_units_def)
qed simp

lemma write_av1_header_bytes:
  "ao_bytes (ser_data (snd (run_state (write_av1_header sc) array_output_serializer_init))) =
    av1_record_head (sc_params sc) @ sc_seq sc @ sc_meta sc"
  by (cases "sc_seq sc = []"; cases "sc_meta sc = []")
    (simp_all add: write_av1_header_def s_write_def array_output_serializer_init_def array_output_write_def write_at_def
      av1_record_head_def)

lemma last_meta_append: "last_meta (xs @ ys) d = last_meta ys (last_meta xs d)"
proof (induction xs arbitrary: d)
  case (Cons u xs)
  then show ?case by (cases u; cases "meta_unit u") simp_all
qed simp

lemma scan_units_Nil [simp]: "scan_units [] sc = Some (Some sc)"
  by (simp add: scan_units.simps)

lemma obu_stream_append [simp]: "obu_stream (xs @ ys) = obu_stream xs @ obu_stream ys"
  by (simp add: obu_stream_def)

lemma obu_stream_first:
  assumes "header_units us" and "us \<noteq> []"
  shows "obu_stream us \<noteq> []" "obu_stream us ! 0 AND 0x80 = 0"
proof -
  obtain c q vs where us: "us = (c, q) # vs" using assms(2) by (cases us) auto
  have "Obu.get_bits c 0 1 = 0" using assms(1) by (simp add: us header_units_def sound_unit_def)
  then have "unat c < 128"
    using unsigned_less [of c, where ?'a = nat] by (simp add: Obu.get_bits_def drop_bit_eq_div and_one_eq odd_iff_mod_2_eq_one)
  then have "(word_of_nat (unat c) :: u8) AND 0x80 = 0" by (rule and_high_bit(1))
  then show "obu_stream us \<noteq> []" "obu_stream us ! 0 AND 0x80 = 0" by (simp_all add: us sized_obu_def)
qed

lemma scan_units_header:
  assumes "header_units (xs @ (b, p) # ys)" and "seq_unit (b, p)" and "list_all (\<lambda>u. \<not> seq_unit u) (xs @ ys)"
    and "length (obu_stream (xs @ (b, p) # ys)) \<le> INT_MAX" and "p \<noteq> []"
    and "parse_sequence_header (p @ obu_stream ys) (length p) = Some (Some params)" and "sc_nb_seq sc = 0"
  shows "scan_units (obu_stream (xs @ (b, p) # ys)) sc =
    Some (Some (sc\<lparr>sc_nb_seq := 1, sc_params := params, sc_seq := sized_obu b p, sc_meta := last_meta (xs @ ys) (sc_meta sc)\<rparr>))"
proof -
  let ?d = "sized_obu b p" and ?sc = "sc\<lparr>sc_meta := last_meta xs (sc_meta sc)\<rparr>"
  have "scan_units (obu_stream (xs @ (b, p) # ys)) sc = scan_units (?d @ obu_stream ys) ?sc"
    using scan_units_plain [of xs "?d @ obu_stream ys" sc] assms(1,3,4) by (simp add: header_units_def)
  also have "\<dots> = scan_units (obu_stream ys) (?sc\<lparr>sc_nb_seq := 1, sc_params := params, sc_seq := ?d\<rparr>)"
  proof -
    have "drop (length ?d - length p) (?d @ obu_stream ys) = p @ obu_stream ys" by (simp add: sized_obu_def)
    moreover have "length p \<le> INT_MAX" using assms(4) by (simp add: sized_obu_def)
    ultimately show ?thesis
      using assms by (subst scan_units_step) (simp_all add: header_units_def scan_unit_def seq_unit_def)
  qed
  also have "\<dots> = Some (Some (?sc\<lparr>sc_nb_seq := 1, sc_params := params, sc_seq := ?d, sc_meta := last_meta (xs @ ys) (sc_meta sc)\<rparr>))"
    using scan_units_plain [of ys "[]" "?sc\<lparr>sc_nb_seq := 1, sc_params := params, sc_seq := ?d\<rparr>"] assms(1,3,4)
    by (simp add: header_units_def last_meta_append)
  finally show ?thesis by simp
qed

text \<open>
  C20. On a stream with exactly one sequence header, which parses, the configuration record is the
  four bytes made of the sequence parameters, the sequence header unit and the last metadata
  unit, byte for byte.
\<close>

theorem av1_header_record:
  assumes "header_units (xs @ (b, p) # ys)" and "seq_unit (b, p)" and "list_all (\<lambda>u. \<not> seq_unit u) (xs @ ys)"
    and "length (obu_stream (xs @ (b, p) # ys)) \<le> INT_MAX" and "p \<noteq> []"
    and "parse_sequence_header (p @ obu_stream ys) (length p) = Some (Some params)"
  shows "obs_parse_av1_header (obu_stream (xs @ (b, p) # ys)) =
    Some (av1_record_head params @ sized_obu b p @ last_meta (xs @ ys) [])"
  using obu_stream_first [OF assms(1)] scan_units_header [OF assms]
  by (simp add: obs_parse_av1_header_def write_av1_header_bytes)


lemma sample_header_bits:
  "buffer_bits [0x1A, 0, 0, 1, 0x20] = [False, False, False, True, True, False, True, False, False, False, False, False, False, False, False, False, False, False, False, False, False, False, False, False, False, False, False, False, False, False, False, True, False, False, True, False, False, False, False, False]"
  by (simp add: buffer_bits_def byte_bits_def upt_rec bit_numeral_word_iff)

definition sample_context :: "nat \<Rightarrow> Av1GetBitContext" where
  "sample_context i = \<lparr>gb_buffer = [0x1A, 0, 0, 1, 0x20], gb_index = i, gb_size_in_bits = 34, gb_size_in_bits_plus8 = 42\<rparr>"

lemma sample_get_bits:
  assumes "i + n \<le> 40" and "n \<le> 32"
  shows "get_bits n (sample_context i) = Some (bits_at [0x1A, 0, 0, 1, 0x20] i n, sample_context (i + n))"
    "skip_bits n (sample_context i) = Some (sample_context (i + n))"
  using get_bits_spec [of "sample_context i" n] skip_bits_spec [of "sample_context i" n] assms by (simp_all add: sample_context_def)

lemma sample_bit_length: "get_obu_bit_length [0x1A, 0, 0, 1, 0x20] 5 AV1_OBU_SEQUENCE_HEADER = 34"
proof -
  have "strip_zero_bytes [0x1A, 0, 0, 1, 0x20] (Suc 4) = Suc 4" unfolding strip_zero_bytes.simps by simp
  then have "strip_zero_bytes [0x1A, 0, 0, 1, 0x20] 5 = 5" by simp
  moreover have "ctz32 32 = 5" by code_simp
  ultimately show ?thesis by (simp add: get_obu_bit_length_def av1_obu_types INT_MAX_def)
qed

lemma sample_sequence_header:
  "parse_sequence_header [0x1A, 0, 0, 1, 0x20] 5 = Some (Some \<lparr>sq_profile = 0, sq_level = 8, sq_tier = 0, sq_bitdepth = 8,
    sq_monochrome = 0, sq_chroma_subsampling_x = 1, sq_chroma_subsampling_y = 1, sq_chroma_sample_position = 1,
    sq_color_description_present_flag = 0, sq_color_primaries = 2, sq_transfer_characteristics = 2,
    sq_matrix_coefficients = 2, sq_color_range = 0\<rparr>)"
proof -
  have "init_get_bits [0x1A, 0, 0, 1, 0x20] 34 = (0, sample_context 0)"
    by (simp add: init_get_bits_def INT_MAX_def sample_context_def)
  moreover have "get_bits_left (sample_context 34) = 0" by (simp add: get_bits_left_def get_bits_count_def sample_context_def)
  ultimately show ?thesis
    by (simp add: parse_sequence_header_def sample_bit_length sample_get_bits bits_at_def sample_header_bits bits_value_def
        parse_color_config_def parse_color_description_def parse_subsampling_def av1_profiles seq_params_zero_def del: buffer_bits_Cons)
qed


theorem av1_header_record_witness:
  "obs_parse_av1_header (obu_stream ([(0x12, []), (0x2A, [4, 9, 0x80])] @ (0x0A, [0x1A, 0, 0, 1, 0x20]) # [])) =
    Some ([0x81, 0x08, 0x0D, 0] @ sized_obu 0x0A [0x1A, 0, 0, 1, 0x20] @ sized_obu 0x2A [4, 9, 0x80])"
proof -
  note unit_defs = header_units_def sound_unit_def sized_unit_def plain_header_def seq_unit_def meta_unit_def Obu.get_bits_def
    av1_obu_types drop_bit_eq_div
  let ?p = "[0x1A, 0, 0, 1, 0x20] :: byte list" and ?xs = "[(0x12, []), (0x2A, [4, 9, 0x80])] :: (u8 \<times> byte list) list"
  have "obs_parse_av1_header (obu_stream (?xs @ (0x0A, ?p) # [])) =
      Some (av1_record_head \<lparr>sq_profile = 0, sq_level = 8, sq_tier = 0, sq_bitdepth = 8,
        sq_monochrome = 0, sq_chroma_subsampling_x = 1, sq_chroma_subsampling_y = 1, sq_chroma_sample_position = 1,
        sq_color_description_present_flag = 0, sq_color_primaries = 2, sq_transfer_characteristics = 2,
        sq_matrix_coefficients = 2, sq_color_range = 0\<rparr> @ sized_obu 0x0A ?p @ last_meta (?xs @ []) [])"
  proof (rule av1_header_record)
    show "header_units (?xs @ (0x0A, ?p) # [])" "seq_unit (0x0A, ?p)" "list_all (\<lambda>u. \<not> seq_unit u) (?xs @ [])"
      by (simp_all add: unit_defs)
    show "length (obu_stream (?xs @ (0x0A, ?p) # [])) \<le> INT_MAX"
      by (simp add: INT_MAX_def sized_obu_def encode_uleb128_uleb uleb.simps)
    have "length ?p = 5" by simp
    then show "parse_sequence_header (?p @ obu_stream []) (length ?p) = Some (Some \<lparr>sq_profile = 0, sq_level = 8,
        sq_tier = 0, sq_bitdepth = 8, sq_monochrome = 0, sq_chroma_subsampling_x = 1, sq_chroma_subsampling_y = 1,
        sq_chroma_sample_position = 1, sq_color_description_present_flag = 0, sq_color_primaries = 2,
        sq_transfer_characteristics = 2, sq_matrix_coefficients = 2, sq_color_range = 0\<rparr>)"
      by (simp only: obu_stream_Nil append_Nil2 sample_sequence_header)
  qed simp
  moreover have "last_meta (?xs @ []) [] = sized_obu 0x2A [4, 9, 0x80]" by (simp add: last_meta_def unit_defs)
  ultimately show ?thesis by (simp add: av1_record_head_def push_bit_eq_mult)
qed

section \<open>The unbounded loop\<close>

text \<open>A reader all of whose positions lie in the buffer; it stops moving at its last position.\<close>

definition inside :: "Av1GetBitContext \<Rightarrow> bool" where
  "inside gb \<longleftrightarrow> gb_size_in_bits_plus8 gb = gb_size_in_bits gb + 8 \<and> gb_index gb \<le> gb_size_in_bits gb + 8 \<and>
     gb_size_in_bits gb + 8 < 8 * length (gb_buffer gb)"

definition bit_at :: "Av1GetBitContext \<Rightarrow> nat \<Rightarrow> bool" where
  "bit_at gb i \<longleftrightarrow> bit (gb_buffer gb ! (i div 8)) (7 - i mod 8)"

lemma get_bit1_inside:
  assumes "inside gb"
  shows "get_bit1 gb = Some (of_bool (bit_at gb (gb_index gb)), gb\<lparr>gb_index := min (gb_index gb + 1) (gb_size_in_bits gb + 8)\<rparr>)"
proof -
  let ?gb = "gb\<lparr>gb_size_in_bits_plus8 := gb_size_in_bits gb + 9\<rparr>"
  have "get_bit1 ?gb = Some (of_bool (bit_at gb (gb_index gb)), ?gb\<lparr>gb_index := gb_index gb + 1\<rparr>)"
    using get_bit1_spec [of ?gb] assms by (simp add: inside_def bit_at_def)
  then show ?thesis using assms by (auto simp: get_bit1_def Let_def inside_def split: if_splits)
qed

lemma get_bits_1_inside:
  assumes "inside gb"
  shows "get_bits 1 gb = Some (of_bool (bit_at gb (gb_index gb)), gb\<lparr>gb_index := min (gb_index gb + 1) (gb_size_in_bits gb + 8)\<rparr>)"
  using get_bit1_inside [OF assms] by (simp add: get_bits_def)

lemma uvlc_zeros_step:
  assumes "inside gb" and "gb_index gb \<noteq> gb_size_in_bits gb"
  shows "uvlc_zeros n gb =
    (let gb' = gb\<lparr>gb_index := min (gb_index gb + 1) (gb_size_in_bits gb + 8)\<rparr>
     in if bit_at gb (gb_index gb) then Some (n, gb') else uvlc_zeros (n + 1) gb')"
  using assms get_bits_1_inside [OF assms(1)]
  by (subst uvlc_zeros.simps) (simp add: get_bits_left_def get_bits_count_def Let_def)

text \<open>The loop ends at the end of the header, or at a one past it.\<close>

definition uvlc_exit :: "Av1GetBitContext \<Rightarrow> bool" where
  "uvlc_exit gb \<longleftrightarrow> gb_index gb \<le> gb_size_in_bits gb \<or> (\<exists>j \<in> {gb_index gb .. gb_size_in_bits gb + 8}. bit_at gb j)"

lemma uvlc_zeros_returns:
  assumes "inside gb" and "uvlc_exit gb"
  shows "\<exists>m gb'. uvlc_zeros n gb = Some (m, gb') \<and> inside gb'"
  using assms
proof (induction "gb_size_in_bits gb + 8 - gb_index gb" arbitrary: gb n rule: less_induct)
  case less
  let ?gb = "gb\<lparr>gb_index := min (gb_index gb + 1) (gb_size_in_bits gb + 8)\<rparr>"
  have inside: "inside ?gb" using less.prems(1) by (simp add: inside_def)
  show ?case
  proof (cases "gb_index gb = gb_size_in_bits gb \<or> bit_at gb (gb_index gb)")
    case True
    then show ?thesis
      using uvlc_zeros_step [OF less.prems(1)] less.prems(1) inside by (cases "gb_index gb = gb_size_in_bits gb")
        (simp_all add: uvlc_zeros.simps [of n gb] get_bits_left_def get_bits_count_def Let_def)
  next
    case False
    then have lt: "gb_index gb < gb_size_in_bits gb + 8" using less.prems(2) by (auto simp: uvlc_exit_def le_less)
    have "uvlc_exit ?gb" unfolding uvlc_exit_def
    proof (cases "gb_index gb \<le> gb_size_in_bits gb")
      case True
      then show "gb_index ?gb \<le> gb_size_in_bits ?gb \<or> (\<exists>j \<in> {gb_index ?gb .. gb_size_in_bits ?gb + 8}. bit_at ?gb j)"
        using False by simp
    next
      case past: False
      then obtain j where j: "gb_index gb \<le> j" "j \<le> gb_size_in_bits gb + 8" "bit_at gb j"
        using less.prems(2) by (auto simp: uvlc_exit_def)
      with False have "gb_index gb \<noteq> j" by auto
      then show "gb_index ?gb \<le> gb_size_in_bits ?gb \<or> (\<exists>j \<in> {gb_index ?gb .. gb_size_in_bits ?gb + 8}. bit_at ?gb j)"
        using j by (intro disjI2 bexI [of _ j]) (auto simp: bit_at_def)
    qed
    then have "\<exists>m gb'. uvlc_zeros (n + 1) ?gb = Some (m, gb') \<and> inside gb'" using lt inside by (intro less.hyps) simp_all
    then show ?thesis using uvlc_zeros_step [OF less.prems(1)] False by (simp add: Let_def)
  qed
qed

lemma uvlc_zeros_diverges:
  assumes "uvlc_zeros n gb = Some r"
  shows "inside gb \<longrightarrow> uvlc_exit gb"
proof (rule uvlc_zeros.raw_induct [OF _ assms], rule impI)
  fix f :: "nat \<Rightarrow> Av1GetBitContext \<Rightarrow> nat av1_read" and n and gb :: Av1GetBitContext and r
  let ?gb = "gb\<lparr>gb_index := min (gb_index gb + 1) (gb_size_in_bits gb + 8)\<rparr>"
  assume IH: "\<And>n gb r. f n gb = Some r \<Longrightarrow> inside gb \<longrightarrow> uvlc_exit gb"
    and body: "(if get_bits_left gb = 0 then Some (n, gb) else get_bits 1 gb \<bind>
      (\<lambda>(b, gb). if b \<noteq> 0 then Some (n, gb) else f (n + 1) gb)) = Some r" and gb: "inside gb"
  show "uvlc_exit gb"
  proof (cases "gb_index gb \<le> gb_size_in_bits gb \<or> bit_at gb (gb_index gb)")
    case True
    then show ?thesis using gb by (auto simp: uvlc_exit_def inside_def)
  next
    case False
    then have "f (n + 1) ?gb = Some r"
      using body get_bits_1_inside [OF gb] by (simp add: get_bits_left_def get_bits_count_def)
    then have "uvlc_exit ?gb" using gb IH by (simp add: inside_def)
    then show ?thesis using False gb by (force simp: uvlc_exit_def bit_at_def inside_def)
  qed
qed

lemma get_bits_loop_inside:
  "inside gb \<Longrightarrow> \<exists>v gb'. get_bits_loop n out gb = Some (v, gb')"
proof (induction n arbitrary: out gb)
  case (Suc n)
  let ?gb = "gb\<lparr>gb_index := min (gb_index gb + 1) (gb_size_in_bits gb + 8)\<rparr>"
  have "get_bit1 gb = Some (of_bool (bit_at gb (gb_index gb)), ?gb)"
    by (rule get_bit1_inside [OF Suc.prems])
  moreover have "inside ?gb" using Suc.prems by (simp add: inside_def)
  ultimately show ?case using Suc.IH [of ?gb] by simp
qed simp

text \<open>
  C21. The loop of \<open>uvlc\<close> has no bound of its own.  A reader whose positions all lie in its
  buffer returns from it exactly when it enters at or before the end of the header, or when a one
  follows before the position where the reader stops; otherwise it reads the same zero for ever.
\<close>

theorem uvlc_returns_iff:
  assumes "inside gb"
  shows "uvlc gb \<noteq> None \<longleftrightarrow> uvlc_exit gb"
proof
  assume "uvlc gb \<noteq> None"
  then obtain r where "uvlc_zeros 0 gb = Some r" by (cases "uvlc_zeros 0 gb") (auto simp: uvlc_def)
  then show "uvlc_exit gb" using assms uvlc_zeros_diverges by blast
next
  assume "uvlc_exit gb"
  from uvlc_zeros_returns [OF assms this] obtain m gb' where "uvlc_zeros 0 gb = Some (m, gb')" "inside gb'" by blast
  then show "uvlc gb \<noteq> None"
    using get_bits_loop_inside [of gb' m 0] by (auto simp: uvlc_def skip_bits_def get_bits_def)
qed

theorem uvlc_returns_iff_witness:
  "uvlc \<lparr>gb_buffer = [2, 0, 0], gb_index = 7, gb_size_in_bits = 6, gb_size_in_bits_plus8 = 14\<rparr> = None"
proof -
  let ?gb = "\<lparr>gb_buffer = [2, 0, 0], gb_index = 7, gb_size_in_bits = 6, gb_size_in_bits_plus8 = 14\<rparr> :: Av1GetBitContext"
  have "{7 .. 14 :: nat} = {7, 8, 9, 10, 11, 12, 13, 14}" by auto
  then have "inside ?gb" "\<not> uvlc_exit ?gb" by (simp_all add: inside_def uvlc_exit_def bit_at_def bit_iff_odd)
  then show ?thesis using uvlc_returns_iff [of ?gb] by simp
qed


text \<open>A sequence header whose trailing one is taken for \<open>equal_picture_interval\<close>.\<close>

definition short_timing_header :: "byte list" where
  "short_timing_header = [4, 0, 0, 0, 0, 0, 0, 0, 2, 0]"

definition short_context :: "nat \<Rightarrow> Av1GetBitContext" where
  "short_context i = \<lparr>gb_buffer = short_timing_header, gb_index = i, gb_size_in_bits = 70, gb_size_in_bits_plus8 = 78\<rparr>"

lemma short_get_bits:
  assumes "i + n \<le> 78" and "n \<le> 32"
  shows "get_bits n (short_context i) = Some (bits_at short_timing_header i n, short_context (i + n))"
    "skip_bits n (short_context i) = Some (short_context (i + n))"
  using get_bits_spec [of "short_context i" n] skip_bits_spec [of "short_context i" n] assms
  by (simp_all add: short_context_def short_timing_header_def)

lemma short_header_bits:
  "buffer_bits short_timing_header = replicate 5 False @ [True] @ replicate 64 False @ [True] @ replicate 9 False"
  unfolding short_timing_header_def
  by (simp add: buffer_bits_def byte_bits_def upt_rec bit_numeral_word_iff numeral_eq_Suc)

lemma short_bit_length: "get_obu_bit_length short_timing_header 10 AV1_OBU_SEQUENCE_HEADER = 70"
proof -
  have "strip_zero_bytes short_timing_header (Suc (Suc 8)) = Suc 8"
    unfolding strip_zero_bytes.simps short_timing_header_def by simp
  then have "strip_zero_bytes short_timing_header 10 = 9" by simp
  moreover have "ctz32 2 = 1" by code_simp
  ultimately show ?thesis by (simp add: get_obu_bit_length_def av1_obu_types INT_MAX_def short_timing_header_def)
qed

lemma short_uvlc: "uvlc_zeros 0 (short_context 71) = None"
proof -
  have "inside (short_context 71)" by (simp add: inside_def short_context_def short_timing_header_def)
  moreover have "\<not> bit_at (short_context 71) j" if "71 \<le> j" "j \<le> 78" for j
  proof -
    have "j \<in> {71, 72, 73, 74, 75, 76, 77, 78}" using that by auto
    then show ?thesis by (auto simp: bit_at_def short_context_def short_timing_header_def bit_iff_odd)
  qed
  then have "\<not> uvlc_exit (short_context 71)" by (simp add: uvlc_exit_def short_context_def)
  ultimately show ?thesis using uvlc_zeros_diverges [of 0 "short_context 71"] by (cases "uvlc_zeros 0 (short_context 71)") auto
qed

lemma short_sequence_header: "parse_sequence_header short_timing_header 10 = None"
proof -
  have "init_get_bits short_timing_header 70 = (0, short_context 0)"
    by (simp add: init_get_bits_def INT_MAX_def short_context_def)
  moreover have "uvlc (short_context 71) = None" by (simp add: uvlc_def short_uvlc)
  moreover have "bits_at short_timing_header 0 3 = 0" "bits_at short_timing_header 4 1 = 0" "bits_at short_timing_header 5 1 = 1"
    "bits_at short_timing_header 70 1 = 1"
    by (simp_all add: bits_at_def short_header_bits bits_value_def numeral_3_eq_3)
  ultimately show ?thesis
    by (simp add: parse_sequence_header_def short_bit_length short_get_bits parse_operating_points_def parse_timing_info_def)
qed

text \<open>
  Twelve bytes of extra data on which the configuration record parser never returns: the
  header ends after the time scale, its trailing one is read as a flag, and \<open>uvlc\<close> starts past
  the end, where only zeros follow.  Every byte it reads lies within the data.
\<close>

theorem av1_header_no_return:
  "obs_parse_av1_header [0x0A, 10, 4, 0, 0, 0, 0, 0, 0, 0, 2, 0] = None"
proof -
  let ?d = "sized_obu 0x0A short_timing_header"
  have d: "[0x0A, 10, 4, 0, 0, 0, 0, 0, 0, 0, 2, 0] = ?d"
    by (simp add: sized_obu_def short_timing_header_def encode_uleb128_uleb uleb.simps)
  have "sound_unit (0x0A, short_timing_header)"
    by (simp add: sound_unit_def sized_unit_def plain_header_def Obu.get_bits_def drop_bit_eq_div short_timing_header_def)
  moreover have "length (?d @ []) \<le> INT_MAX" by (simp add: d [symmetric] INT_MAX_def)
  ultimately have "scan_units ?d sc = None" if "sc_nb_seq sc = 0" for sc
  proof -
    have "drop (length ?d - length short_timing_header) ?d = short_timing_header" by (simp add: sized_obu_def)
    moreover have "length short_timing_header = 10" by (simp add: short_timing_header_def)
    ultimately show ?thesis
      using scan_units_step [OF \<open>sound_unit (0x0A, short_timing_header)\<close>, of "[]" sc] \<open>length (?d @ []) \<le> INT_MAX\<close> that short_sequence_header
      by (simp add: scan_unit_def Obu.get_bits_def av1_obu_types drop_bit_eq_div INT_MAX_def)
  qed
  moreover have "?d ! 0 AND 0x80 = 0" "?d \<noteq> []" by (simp_all add: sized_obu_def)
  ultimately show ?thesis by (simp add: obs_parse_av1_header_def d)
qed

end
