(* ===== verification/Rtmp_Hevc.thy ===== *)
theory Rtmp_Hevc
  imports Avc
begin

text \<open>
  The HEVC decoder configuration record as \<open>plugins/obs-outputs/rtmp-hevc.c\<close> makes it from
  the parameter sets of a stream header: a bit reader with a 64-bit cache, the parsers of the
  video, sequence and picture parameter sets, and the record writer.

  A function yields \<open>None\<close> where the C code reads outside its buffer, dereferences a null
  pointer, fails an assertion or shifts out of range; an inner \<open>None\<close> is a negative result.
\<close>

section \<open>Bit reader\<close>

record HevcGetBitContext =
  hb_buffer :: "byte list"
  hb_cache :: u64
  hb_bits_left :: nat
  hb_index :: nat
  hb_size_in_bits :: nat

type_synonym 'a hevc_read = "('a \<times> HevcGetBitContext) option"

definition rb32 :: "byte list \<Rightarrow> nat \<Rightarrow> u32" where
  "rb32 buf i = push_bit 24 (ucast (buf ! i)) + push_bit 16 (ucast (buf ! (i + 1))) + push_bit 8 (ucast (buf ! (i + 2))) +
     ucast (buf ! (i + 3))"

definition refill_32 :: "HevcGetBitContext \<Rightarrow> HevcGetBitContext option" where
  "refill_32 s =
    (if length (hb_buffer s) < hb_index s div 8 + 4 then None
     else Some (s\<lparr>hb_cache := hb_cache s OR push_bit (32 - hb_bits_left s) (ucast (rb32 (hb_buffer s) (hb_index s div 8))),
       hb_index := hb_index s + 32, hb_bits_left := hb_bits_left s + 32\<rparr>))"

definition get_val :: "nat \<Rightarrow> HevcGetBitContext \<Rightarrow> u64 hevc_read" where
  "get_val n s =
    (if n = 0 \<or> 64 < n \<or> hb_bits_left s < n then None
     else Some (drop_bit (64 - n) (hb_cache s), s\<lparr>hb_cache := push_bit n (hb_cache s), hb_bits_left := hb_bits_left s - n\<rparr>))"

text \<open>Too large a buffer makes the pointer null, and the first refill reads through it.\<close>

definition init_get_bits8 :: "byte list \<Rightarrow> nat \<Rightarrow> HevcGetBitContext option" where
  "init_get_bits8 buffer byte_size =
    (if 2147483647 div 8 < byte_size \<or> 2147483647 - 64 * 8 \<le> byte_size * 8 then None
     else refill_32 \<lparr>hb_buffer = buffer, hb_cache = 0, hb_bits_left = 0, hb_index = 0, hb_size_in_bits = byte_size * 8\<rparr>)"

definition get_bits :: "nat \<Rightarrow> HevcGetBitContext \<Rightarrow> u32 hevc_read" where
  "get_bits n s = do {
     s \<leftarrow> (if n > hb_bits_left s then refill_32 s else Some s);
     (v, s) \<leftarrow> get_val n s;
     Some (ucast v, s) }"

definition skip_bits :: "nat \<Rightarrow> HevcGetBitContext \<Rightarrow> HevcGetBitContext option" where
  "skip_bits n s = map_option snd (get_bits n s)"

definition get_bits_count :: "HevcGetBitContext \<Rightarrow> int" where
  "get_bits_count s = int (hb_index s) - int (hb_bits_left s)"

definition get_bits_left :: "HevcGetBitContext \<Rightarrow> int" where
  "get_bits_left gb = int (hb_size_in_bits gb) - get_bits_count gb"

definition get_bits_long :: "nat \<Rightarrow> HevcGetBitContext \<Rightarrow> u32 hevc_read" where
  "get_bits_long n s = (if n = 0 then Some (0, s) else get_bits n s)"

definition skip_bits_long :: "nat \<Rightarrow> HevcGetBitContext \<Rightarrow> HevcGetBitContext option" where
  "skip_bits_long n s = map_option snd (get_bits_long n s)"

definition get_bits64 :: "nat \<Rightarrow> HevcGetBitContext \<Rightarrow> u64 hevc_read" where
  "get_bits64 n s =
    (if n \<le> 32 then do { (v, s) \<leftarrow> get_bits_long n s; Some (ucast v, s) }
     else do {
       (hi, s) \<leftarrow> get_bits_long (n - 32) s;
       (lo, s) \<leftarrow> get_bits_long 32 s;
       Some (push_bit 32 (ucast hi) OR ucast lo, s) })"

section \<open>Exponential Golomb codes\<close>

text \<open>The number of leading zeros of a non-zero 32-bit word.\<close>

fun clz_bits :: "nat \<Rightarrow> u32 \<Rightarrow> nat" where
  "clz_bits 0 x = 0"
| "clz_bits (Suc k) x = (if bit x k then 0 else Suc (clz_bits k x))"

definition clz32 :: "u32 \<Rightarrow> nat" where
  "clz32 x = clz_bits 32 x"

definition ilog2 :: "u32 \<Rightarrow> nat" where
  "ilog2 x = 31 - clz32 (x OR 1)"

definition show_val :: "nat \<Rightarrow> HevcGetBitContext \<Rightarrow> u32" where
  "show_val n s = ucast (hb_cache s AND (push_bit n 1 - 1))"

definition show_bits :: "nat \<Rightarrow> HevcGetBitContext \<Rightarrow> u32 hevc_read" where
  "show_bits n s = do {
     s \<leftarrow> (if n > hb_bits_left s then refill_32 s else Some s);
     Some (show_val n s, s) }"

text \<open>For more than 25 bits a copy of the context is read, and the context itself stays.\<close>

definition show_bits_long :: "nat \<Rightarrow> HevcGetBitContext \<Rightarrow> u32 hevc_read" where
  "show_bits_long n s =
    (if n \<le> 25 then show_bits n s else map_option (\<lambda>(v, _). (v, s)) (get_bits_long n s))"

definition get_ue_golomb_long :: "HevcGetBitContext \<Rightarrow> u32 hevc_read" where
  "get_ue_golomb_long gb = do {
     (buf, gb) \<leftarrow> show_bits_long 32 gb;
     let log = 31 - ilog2 buf;
     gb \<leftarrow> skip_bits_long log gb;
     (v, gb) \<leftarrow> get_bits_long (log + 1) gb;
     Some (v - 1, gb) }"

definition get_se_golomb_long :: "HevcGetBitContext \<Rightarrow> u32 hevc_read" where
  "get_se_golomb_long gb = do {
     (buf, gb) \<leftarrow> get_ue_golomb_long gb;
     let sign = (buf AND 1) - 1;
     Some ((drop_bit 1 buf XOR sign) + 1, gb) }"

definition skip_ue :: "HevcGetBitContext \<Rightarrow> HevcGetBitContext option" where
  "skip_ue gb = map_option snd (get_ue_golomb_long gb)"

definition skip_se :: "HevcGetBitContext \<Rightarrow> HevcGetBitContext option" where
  "skip_se gb = map_option snd (get_se_golomb_long gb)"

text \<open>A counted loop over the reader.\<close>

fun repeat_read :: "nat \<Rightarrow> (HevcGetBitContext \<Rightarrow> HevcGetBitContext option) \<Rightarrow> HevcGetBitContext \<Rightarrow> HevcGetBitContext option" where
  "repeat_read 0 f gb = Some gb"
| "repeat_read (Suc n) f gb = do { gb \<leftarrow> f gb; repeat_read n f gb }"

text \<open>A flag that guards reading something else.\<close>

definition when_flag :: "(HevcGetBitContext \<Rightarrow> HevcGetBitContext option) \<Rightarrow> HevcGetBitContext \<Rightarrow> HevcGetBitContext option" where
  "when_flag f gb = do { (b, gb) \<leftarrow> get_bits 1 gb; if b \<noteq> 0 then f gb else Some gb }"

section \<open>Units\<close>

definition has_start_code :: "byte list \<Rightarrow> bool" where
  "has_start_code data \<longleftrightarrow>
    (3 < length data \<and> data ! 0 = 0 \<and> data ! 1 = 0 \<and> data ! 2 = 1) \<or>
    (4 < length data \<and> data ! 0 = 0 \<and> data ! 1 = 0 \<and> data ! 2 = 0 \<and> data ! 3 = 1)"

fun rbsp_body :: "byte list \<Rightarrow> byte list" where
  "rbsp_body (a # b # c # src) =
    (if a = 0 \<and> b = 0 \<and> c = 3 then a # b # rbsp_body src else a # rbsp_body (b # c # src))"
| "rbsp_body src = src"

definition ff_nal_unit_extract_rbsp :: "byte list \<Rightarrow> nat \<Rightarrow> byte list" where
  "ff_nal_unit_extract_rbsp src header_len = take header_len src @ rbsp_body (drop header_len src)"

record HVCCNALUnitArray =
  na_completeness :: u8
  na_type :: u8
  na_num :: u16
  na_unit :: "array_output_data serializer"

record HEVCDecoderConfigurationRecord =
  hv_profile_space :: u8
  hv_tier_flag :: u8
  hv_profile_idc :: u8
  hv_profile_compatibility_flags :: u32
  hv_constraint_indicator_flags :: u64
  hv_level_idc :: u8
  hv_min_spatial_segmentation_idc :: u16
  hv_parallelismType :: u8
  hv_chromaFormat :: u8
  hv_bitDepthLumaMinus8 :: u8
  hv_bitDepthChromaMinus8 :: u8
  hv_avgFrameRate :: u16
  hv_constantFrameRate :: u8
  hv_numTemporalLayers :: u8
  hv_temporalIdNested :: u8
  hv_lengthSizeMinusOne :: u8
  hv_numOfArrays :: u8
  hv_arrays :: "HVCCNALUnitArray list"

record HVCCProfileTierLevel =
  pt_profile_space :: u8
  pt_tier_flag :: u8
  pt_profile_idc :: u8
  pt_profile_compatibility_flags :: u32
  pt_constraint_indicator_flags :: u64
  pt_level_idc :: u8

definition OBS_HEVC_NAL_VPS :: u8 where "OBS_HEVC_NAL_VPS = 32"
definition OBS_HEVC_NAL_SPS :: u8 where "OBS_HEVC_NAL_SPS = 33"
definition OBS_HEVC_NAL_PPS :: u8 where "OBS_HEVC_NAL_PPS = 34"
definition OBS_HEVC_NAL_SEI_PREFIX :: u8 where "OBS_HEVC_NAL_SEI_PREFIX = 39"
definition OBS_HEVC_NAL_SEI_SUFFIX :: u8 where "OBS_HEVC_NAL_SEI_SUFFIX = 40"

lemmas hevc_types = OBS_HEVC_NAL_VPS_def OBS_HEVC_NAL_SPS_def OBS_HEVC_NAL_PPS_def OBS_HEVC_NAL_SEI_PREFIX_def
  OBS_HEVC_NAL_SEI_SUFFIX_def

definition hvcc_array_add_nal_unit :: "byte list \<Rightarrow> u8 \<Rightarrow> u8 \<Rightarrow> HVCCNALUnitArray \<Rightarrow> HVCCNALUnitArray" where
  "hvcc_array_add_nal_unit nal nal_type ps_array_completeness arr =
    (let (_, u) = run_state (do { s_wb16 (word_of_nat (length nal)); s_write nal }) (na_unit arr)
     in arr\<lparr>na_unit := u, na_type := nal_type, na_num := na_num arr + 1,
          na_completeness := (if nal_type = OBS_HEVC_NAL_VPS \<or> nal_type = OBS_HEVC_NAL_SPS \<or> nal_type = OBS_HEVC_NAL_PPS
            then ps_array_completeness else na_completeness arr)\<rparr>)"

definition nal_unit_parse_header :: "HevcGetBitContext \<Rightarrow> u8 hevc_read" where
  "nal_unit_parse_header gb = do {
     gb \<leftarrow> skip_bits 1 gb;
     (nal_type, gb) \<leftarrow> get_bits 6 gb;
     gb \<leftarrow> skip_bits 9 gb;
     Some (ucast nal_type, gb) }"

section \<open>Profile, tier and level\<close>

definition hvcc_update_ptl :: "HEVCDecoderConfigurationRecord \<Rightarrow> HVCCProfileTierLevel \<Rightarrow> HEVCDecoderConfigurationRecord" where
  "hvcc_update_ptl hvcc ptl = hvcc\<lparr>
     hv_profile_space := pt_profile_space ptl,
     hv_level_idc := (if hv_tier_flag hvcc < pt_tier_flag ptl then pt_level_idc ptl else max (hv_level_idc hvcc) (pt_level_idc ptl)),
     hv_tier_flag := max (hv_tier_flag hvcc) (pt_tier_flag ptl),
     hv_profile_idc := max (hv_profile_idc hvcc) (pt_profile_idc ptl),
     hv_profile_compatibility_flags := hv_profile_compatibility_flags hvcc AND pt_profile_compatibility_flags ptl,
     hv_constraint_indicator_flags := hv_constraint_indicator_flags hvcc AND pt_constraint_indicator_flags ptl\<rparr>"

fun read_sub_layer_flags :: "nat \<Rightarrow> HevcGetBitContext \<Rightarrow> (bool \<times> bool) list hevc_read" where
  "read_sub_layer_flags 0 gb = Some ([], gb)"
| "read_sub_layer_flags (Suc n) gb = do {
     (profile_present, gb) \<leftarrow> get_bits 1 gb;
     (level_present, gb) \<leftarrow> get_bits 1 gb;
     (flags, gb) \<leftarrow> read_sub_layer_flags n gb;
     Some ((profile_present \<noteq> 0, level_present \<noteq> 0) # flags, gb) }"

fun skip_sub_layers :: "(bool \<times> bool) list \<Rightarrow> HevcGetBitContext \<Rightarrow> HevcGetBitContext option" where
  "skip_sub_layers [] gb = Some gb"
| "skip_sub_layers ((profile_present, level_present) # flags) gb = do {
     gb \<leftarrow> (if profile_present then do { gb \<leftarrow> skip_bits_long 32 gb; gb \<leftarrow> skip_bits_long 32 gb; skip_bits 24 gb }
            else Some gb);
     gb \<leftarrow> (if level_present then skip_bits 8 gb else Some gb);
     skip_sub_layers flags gb }"

definition hvcc_parse_ptl :: "HEVCDecoderConfigurationRecord \<Rightarrow> nat \<Rightarrow> HevcGetBitContext \<Rightarrow> HEVCDecoderConfigurationRecord hevc_read" where
  "hvcc_parse_ptl hvcc max_sub_layers_minus1 gb = do {
     (profile_space, gb) \<leftarrow> get_bits 2 gb;
     (tier_flag, gb) \<leftarrow> get_bits 1 gb;
     (profile_idc, gb) \<leftarrow> get_bits 5 gb;
     (compat, gb) \<leftarrow> get_bits_long 32 gb;
     (constraint, gb) \<leftarrow> get_bits64 48 gb;
     (level_idc, gb) \<leftarrow> get_bits 8 gb;
     let hvcc = hvcc_update_ptl hvcc \<lparr>pt_profile_space = ucast profile_space, pt_tier_flag = ucast tier_flag,
       pt_profile_idc = ucast profile_idc, pt_profile_compatibility_flags = compat,
       pt_constraint_indicator_flags = constraint, pt_level_idc = ucast level_idc\<rparr>;
     (flags, gb) \<leftarrow> read_sub_layer_flags max_sub_layers_minus1 gb;
     gb \<leftarrow> (if max_sub_layers_minus1 > 0 then repeat_read (8 - max_sub_layers_minus1) (skip_bits 2) gb else Some gb);
     gb \<leftarrow> skip_sub_layers flags gb;
     Some (hvcc, gb) }"

definition hvcc_parse_vps :: "HEVCDecoderConfigurationRecord \<Rightarrow> HevcGetBitContext \<Rightarrow> HEVCDecoderConfigurationRecord option option" where
  "hvcc_parse_vps hvcc gb = do {
     gb \<leftarrow> skip_bits 12 gb;
     (vps_max_sub_layers_minus1, gb) \<leftarrow> get_bits 3 gb;
     let hvcc = hvcc\<lparr>hv_numTemporalLayers := max (hv_numTemporalLayers hvcc) (ucast (vps_max_sub_layers_minus1 + 1))\<rparr>;
     gb \<leftarrow> skip_bits 17 gb;
     (hvcc, gb) \<leftarrow> hvcc_parse_ptl hvcc (unat vps_max_sub_layers_minus1) gb;
     Some (Some hvcc) }"


section \<open>Sequence parameter set\<close>

definition skip_scaling_list :: "nat \<Rightarrow> HevcGetBitContext \<Rightarrow> HevcGetBitContext option" where
  "skip_scaling_list i gb = do {
     (pred_mode, gb) \<leftarrow> get_bits 1 gb;
     if pred_mode = 0 then skip_ue gb
     else do {
       let num_coeffs = min 64 (2 ^ (4 + 2 * i));
       gb \<leftarrow> (if i > 1 then skip_se gb else Some gb);
       repeat_read num_coeffs skip_se gb } }"

definition skip_scaling_list_data :: "HevcGetBitContext \<Rightarrow> HevcGetBitContext option" where
  "skip_scaling_list_data gb = do {
     gb \<leftarrow> repeat_read 6 (skip_scaling_list 0) gb;
     gb \<leftarrow> repeat_read 6 (skip_scaling_list 1) gb;
     gb \<leftarrow> repeat_read 6 (skip_scaling_list 2) gb;
     repeat_read 2 (skip_scaling_list 3) gb }"

definition HEVC_MAX_SHORT_TERM_REF_PIC_SETS :: u32 where
  "HEVC_MAX_SHORT_TERM_REF_PIC_SETS = 64"

text \<open>The flags of a predicted set; the result counts the pictures that are kept.\<close>

fun read_rps_flags :: "nat \<Rightarrow> u32 \<Rightarrow> HevcGetBitContext \<Rightarrow> u32 hevc_read" where
  "read_rps_flags 0 num_delta_pocs gb = Some (num_delta_pocs, gb)"
| "read_rps_flags (Suc n) num_delta_pocs gb = do {
     (used_by_curr_pic_flag, gb) \<leftarrow> get_bits 1 gb;
     (use_delta_flag, gb) \<leftarrow> (if used_by_curr_pic_flag = 0 then get_bits 1 gb else Some (0, gb));
     read_rps_flags n (if used_by_curr_pic_flag \<noteq> 0 \<or> use_delta_flag \<noteq> 0 then num_delta_pocs + 1 else num_delta_pocs) gb }"

definition skip_rps_pic :: "HevcGetBitContext \<Rightarrow> HevcGetBitContext option" where
  "skip_rps_pic gb = do { gb \<leftarrow> skip_ue gb; skip_bits 1 gb }"

text \<open>
  One reference picture set: its entry of \<open>num_delta_pocs\<close>, given the entry of the set before
  it.  Sets are numbered from 0.
\<close>

definition parse_rps :: "nat \<Rightarrow> nat \<Rightarrow> u32 \<Rightarrow> HevcGetBitContext \<Rightarrow> u32 option hevc_read" where
  "parse_rps rps_idx num_rps prev gb = do {
     (pred, gb) \<leftarrow> (if rps_idx \<noteq> 0 then get_bits 1 gb else Some (0, gb));
     if pred \<noteq> 0 then
       if rps_idx \<ge> num_rps then Some (None, gb)
       else do {
         gb \<leftarrow> skip_bits 1 gb;
         gb \<leftarrow> skip_ue gb;
         (n, gb) \<leftarrow> read_rps_flags (unat prev + 1) 0 gb;
         Some (Some n, gb) }
     else do {
       (num_negative_pics, gb) \<leftarrow> get_ue_golomb_long gb;
       (num_positive_pics, gb) \<leftarrow> get_ue_golomb_long gb;
       if (ucast num_positive_pics + ucast num_negative_pics :: u64) * 2 > word_of_int (get_bits_left gb) then Some (None, gb)
       else do {
         gb \<leftarrow> repeat_read (unat num_negative_pics) skip_rps_pic gb;
         gb \<leftarrow> repeat_read (unat num_positive_pics) skip_rps_pic gb;
         Some (Some (num_negative_pics + num_positive_pics), gb) } } }"

fun parse_rps_sets :: "nat \<Rightarrow> nat \<Rightarrow> nat \<Rightarrow> u32 \<Rightarrow> HevcGetBitContext \<Rightarrow> bool hevc_read" where
  "parse_rps_sets 0 i num_rps prev gb = Some (True, gb)"
| "parse_rps_sets (Suc n) i num_rps prev gb = do {
     (r, gb) \<leftarrow> parse_rps i num_rps prev gb;
     case r of None \<Rightarrow> Some (False, gb) | Some d \<Rightarrow> parse_rps_sets n (i + 1) num_rps d gb }"

definition skip_sub_layer_hrd :: "bool \<Rightarrow> HevcGetBitContext \<Rightarrow> HevcGetBitContext option" where
  "skip_sub_layer_hrd sub_pic_hrd_params_present_flag gb = do {
     gb \<leftarrow> skip_ue gb;
     gb \<leftarrow> skip_ue gb;
     gb \<leftarrow> (if sub_pic_hrd_params_present_flag then do { gb \<leftarrow> skip_ue gb; skip_ue gb } else Some gb);
     skip_bits 1 gb }"

definition skip_sub_layer_hrd_parameters :: "u32 \<Rightarrow> bool \<Rightarrow> HevcGetBitContext \<Rightarrow> HevcGetBitContext option" where
  "skip_sub_layer_hrd_parameters cpb_cnt_minus1 sub_pic_hrd_params_present_flag gb =
    repeat_read (unat cpb_cnt_minus1 + 1) (skip_sub_layer_hrd sub_pic_hrd_params_present_flag) gb"

text \<open>The parameters of the sub-layers; \<open>False\<close> is the return of -1, at the position reached.\<close>

fun skip_hrd_sub_layers :: "nat \<Rightarrow> bool \<Rightarrow> bool \<Rightarrow> bool \<Rightarrow> HevcGetBitContext \<Rightarrow> bool hevc_read" where
  "skip_hrd_sub_layers 0 nal_hrd vcl_hrd sub_pic gb = Some (True, gb)"
| "skip_hrd_sub_layers (Suc n) nal_hrd vcl_hrd sub_pic gb = do {
     (fixed_pic_rate_general_flag, gb) \<leftarrow> get_bits 1 gb;
     (fixed_pic_rate_within_cvs_flag, gb) \<leftarrow> (if fixed_pic_rate_general_flag = 0 then get_bits 1 gb else Some (0, gb));
     (low_delay_hrd_flag, gb) \<leftarrow>
       (if fixed_pic_rate_within_cvs_flag \<noteq> 0 then do { gb \<leftarrow> skip_ue gb; Some (0, gb) } else get_bits 1 gb);
     (cpb_cnt_minus1, gb) \<leftarrow> (if low_delay_hrd_flag = 0 then get_ue_golomb_long gb else Some (0, gb));
     if cpb_cnt_minus1 > 31 then Some (False, gb)
     else do {
       gb \<leftarrow> (if nal_hrd then skip_sub_layer_hrd_parameters cpb_cnt_minus1 sub_pic gb else Some gb);
       gb \<leftarrow> (if vcl_hrd then skip_sub_layer_hrd_parameters cpb_cnt_minus1 sub_pic gb else Some gb);
       skip_hrd_sub_layers n nal_hrd vcl_hrd sub_pic gb } }"

definition skip_hrd_parameters :: "bool \<Rightarrow> nat \<Rightarrow> HevcGetBitContext \<Rightarrow> bool hevc_read" where
  "skip_hrd_parameters cprms_present_flag max_sub_layers_minus1 gb = do {
     ((nal_hrd, vcl_hrd, sub_pic), gb) \<leftarrow>
       (if cprms_present_flag then do {
          (nal_hrd, gb) \<leftarrow> get_bits 1 gb;
          (vcl_hrd, gb) \<leftarrow> get_bits 1 gb;
          if nal_hrd \<noteq> 0 \<or> vcl_hrd \<noteq> 0 then do {
            (sub_pic, gb) \<leftarrow> get_bits 1 gb;
            gb \<leftarrow> (if sub_pic \<noteq> 0 then skip_bits 19 gb else Some gb);
            gb \<leftarrow> skip_bits 8 gb;
            gb \<leftarrow> (if sub_pic \<noteq> 0 then skip_bits 4 gb else Some gb);
            gb \<leftarrow> skip_bits 15 gb;
            Some ((nal_hrd \<noteq> 0, vcl_hrd \<noteq> 0, sub_pic \<noteq> 0), gb) }
          else Some ((False, False, False), gb) }
        else Some ((False, False, False), gb));
     skip_hrd_sub_layers (max_sub_layers_minus1 + 1) nal_hrd vcl_hrd sub_pic gb }"

definition skip_timing_info :: "nat \<Rightarrow> HevcGetBitContext \<Rightarrow> HevcGetBitContext option" where
  "skip_timing_info max_sub_layers_minus1 gb = do {
     gb \<leftarrow> skip_bits_long 32 gb;
     gb \<leftarrow> skip_bits_long 32 gb;
     gb \<leftarrow> when_flag skip_ue gb;
     when_flag (\<lambda>gb. map_option snd (skip_hrd_parameters True max_sub_layers_minus1 gb)) gb }"

text \<open>The usability information before the bitstream restrictions.\<close>

definition skip_vui_head :: "nat \<Rightarrow> HevcGetBitContext \<Rightarrow> HevcGetBitContext option" where
  "skip_vui_head max_sub_layers_minus1 gb = do {
     gb \<leftarrow> when_flag (\<lambda>gb. do {
       (aspect_ratio_idc, gb) \<leftarrow> get_bits 8 gb;
       if aspect_ratio_idc = 255 then skip_bits_long 32 gb else Some gb }) gb;
     gb \<leftarrow> when_flag (skip_bits 1) gb;
     gb \<leftarrow> when_flag (\<lambda>gb. do { gb \<leftarrow> skip_bits 4 gb; when_flag (skip_bits 24) gb }) gb;
     gb \<leftarrow> when_flag (repeat_read 2 skip_ue) gb;
     gb \<leftarrow> skip_bits 3 gb;
     gb \<leftarrow> when_flag (repeat_read 4 skip_ue) gb;
     when_flag (skip_timing_info max_sub_layers_minus1) gb }"

definition hvcc_parse_vui :: "HEVCDecoderConfigurationRecord \<Rightarrow> nat \<Rightarrow> HevcGetBitContext \<Rightarrow> HEVCDecoderConfigurationRecord hevc_read" where
  "hvcc_parse_vui hvcc max_sub_layers_minus1 gb = do {
     gb \<leftarrow> skip_vui_head max_sub_layers_minus1 gb;
     (bitstream_restriction_flag, gb) \<leftarrow> get_bits 1 gb;
     if bitstream_restriction_flag \<noteq> 0 then do {
       gb \<leftarrow> skip_bits 3 gb;
       (min_spatial_segmentation_idc, gb) \<leftarrow> get_ue_golomb_long gb;
       gb \<leftarrow> repeat_read 4 skip_ue gb;
       Some (hvcc\<lparr>hv_min_spatial_segmentation_idc :=
         min (hv_min_spatial_segmentation_idc hvcc) (ucast min_spatial_segmentation_idc)\<rparr>, gb) }
     else Some (hvcc, gb) }"

text \<open>The fields up to the bit depths, the coding block sizes and tools, and the reference pictures.\<close>

definition parse_sps_format :: "HEVCDecoderConfigurationRecord \<Rightarrow> HevcGetBitContext \<Rightarrow> (HEVCDecoderConfigurationRecord \<times> u32) hevc_read" where
  "parse_sps_format hvcc gb = do {
     gb \<leftarrow> skip_ue gb;
     (chroma, gb) \<leftarrow> get_ue_golomb_long gb;
     let hvcc = hvcc\<lparr>hv_chromaFormat := ucast chroma\<rparr>;
     gb \<leftarrow> (if hv_chromaFormat hvcc = 3 then skip_bits 1 gb else Some gb);
     gb \<leftarrow> repeat_read 2 skip_ue gb;
     gb \<leftarrow> when_flag (repeat_read 4 skip_ue) gb;
     (luma, gb) \<leftarrow> get_ue_golomb_long gb;
     (depth, gb) \<leftarrow> get_ue_golomb_long gb;
     let hvcc = hvcc\<lparr>hv_bitDepthLumaMinus8 := ucast luma, hv_bitDepthChromaMinus8 := ucast depth\<rparr>;
     (log2_max_pic_order_cnt_lsb_minus4, gb) \<leftarrow> get_ue_golomb_long gb;
     Some ((hvcc, log2_max_pic_order_cnt_lsb_minus4), gb) }"

definition skip_sps_tools :: "nat \<Rightarrow> HevcGetBitContext \<Rightarrow> HevcGetBitContext option" where
  "skip_sps_tools sps_max_sub_layers_minus1 gb = do {
     (ordering_info_present, gb) \<leftarrow> get_bits 1 gb;
     gb \<leftarrow> repeat_read (if ordering_info_present \<noteq> 0 then sps_max_sub_layers_minus1 + 1 else 1) (repeat_read 3 skip_ue) gb;
     gb \<leftarrow> repeat_read 6 skip_ue gb;
     gb \<leftarrow> when_flag (when_flag skip_scaling_list_data) gb;
     gb \<leftarrow> repeat_read 2 (skip_bits 1) gb;
     when_flag (\<lambda>gb. do {
       gb \<leftarrow> repeat_read 2 (skip_bits 4) gb;
       gb \<leftarrow> repeat_read 2 skip_ue gb;
       skip_bits 1 gb }) gb }"

text \<open>The long-term pictures; a negative width makes the read undefined.\<close>

definition skip_long_term_pic :: "u32 \<Rightarrow> HevcGetBitContext \<Rightarrow> HevcGetBitContext option" where
  "skip_long_term_pic log2_max_pic_order_cnt_lsb_minus4 gb =
    (let len = min (sint (log2_max_pic_order_cnt_lsb_minus4 + 4)) 16
     in if len < 0 then None else do { gb \<leftarrow> skip_bits (nat len) gb; skip_bits 1 gb })"

definition parse_ref_pics :: "u32 \<Rightarrow> HevcGetBitContext \<Rightarrow> bool hevc_read" where
  "parse_ref_pics log2_max_pic_order_cnt_lsb_minus4 gb = do {
     (num_short_term_ref_pic_sets, gb) \<leftarrow> get_ue_golomb_long gb;
     if num_short_term_ref_pic_sets > HEVC_MAX_SHORT_TERM_REF_PIC_SETS then Some (False, gb)
     else do {
       (ok, gb) \<leftarrow> parse_rps_sets (unat num_short_term_ref_pic_sets) 0 (unat num_short_term_ref_pic_sets) 0 gb;
       if \<not> ok then Some (False, gb)
       else do {
         (long_term_ref_pics_present_flag, gb) \<leftarrow> get_bits 1 gb;
         if long_term_ref_pics_present_flag \<noteq> 0 then do {
           (num_long_term_ref_pics_sps, gb) \<leftarrow> get_ue_golomb_long gb;
           if num_long_term_ref_pics_sps > 31 then Some (False, gb)
           else do {
             gb \<leftarrow> repeat_read (unat num_long_term_ref_pics_sps) (skip_long_term_pic log2_max_pic_order_cnt_lsb_minus4) gb;
             Some (True, gb) } }
         else Some (True, gb) } } }"

definition hvcc_parse_sps :: "HEVCDecoderConfigurationRecord \<Rightarrow> HevcGetBitContext \<Rightarrow> HEVCDecoderConfigurationRecord option option" where
  "hvcc_parse_sps hvcc gb = do {
     gb \<leftarrow> skip_bits 4 gb;
     (sps_max_sub_layers_minus1, gb) \<leftarrow> get_bits 3 gb;
     let hvcc = hvcc\<lparr>hv_numTemporalLayers := max (hv_numTemporalLayers hvcc) (ucast (sps_max_sub_layers_minus1 + 1))\<rparr>;
     (nested, gb) \<leftarrow> get_bits 1 gb;
     let hvcc = hvcc\<lparr>hv_temporalIdNested := ucast nested\<rparr>;
     (hvcc, gb) \<leftarrow> hvcc_parse_ptl hvcc (unat sps_max_sub_layers_minus1) gb;
     ((hvcc, log2_max), gb) \<leftarrow> parse_sps_format hvcc gb;
     gb \<leftarrow> skip_sps_tools (unat sps_max_sub_layers_minus1) gb;
     (ok, gb) \<leftarrow> parse_ref_pics log2_max gb;
     if \<not> ok then Some None
     else do {
       gb \<leftarrow> repeat_read 2 (skip_bits 1) gb;
       (vui_parameters_present_flag, gb) \<leftarrow> get_bits 1 gb;
       if vui_parameters_present_flag \<noteq> 0 then do {
         (hvcc, gb) \<leftarrow> hvcc_parse_vui hvcc (unat sps_max_sub_layers_minus1) gb;
         Some (Some hvcc) }
       else Some (Some hvcc) } }"

section \<open>Picture parameter set\<close>

definition hvcc_parse_pps :: "HEVCDecoderConfigurationRecord \<Rightarrow> HevcGetBitContext \<Rightarrow> HEVCDecoderConfigurationRecord option option" where
  "hvcc_parse_pps hvcc gb = do {
     gb \<leftarrow> repeat_read 2 skip_ue gb;
     gb \<leftarrow> skip_bits 7 gb;
     gb \<leftarrow> repeat_read 2 skip_ue gb;
     gb \<leftarrow> skip_se gb;
     gb \<leftarrow> skip_bits 2 gb;
     gb \<leftarrow> when_flag skip_ue gb;
     gb \<leftarrow> repeat_read 2 skip_se gb;
     gb \<leftarrow> skip_bits 4 gb;
     (tiles_enabled_flag, gb) \<leftarrow> get_bits 1 gb;
     (entropy_coding_sync_enabled_flag, gb) \<leftarrow> get_bits 1 gb;
     Some (Some (hvcc\<lparr>hv_parallelismType :=
       (if entropy_coding_sync_enabled_flag \<noteq> 0 \<and> tiles_enabled_flag \<noteq> 0 then 0
        else if entropy_coding_sync_enabled_flag \<noteq> 0 then 3
        else if tiles_enabled_flag \<noteq> 0 then 2 else 1)\<rparr>)) }"


section \<open>The record\<close>

definition hvcc_parse_unit :: "u8 \<Rightarrow> HEVCDecoderConfigurationRecord \<Rightarrow> HevcGetBitContext \<Rightarrow>
    HEVCDecoderConfigurationRecord option option" where
  "hvcc_parse_unit nal_type hvcc gbc =
    (if nal_type = OBS_HEVC_NAL_VPS then hvcc_parse_vps hvcc gbc
     else if nal_type = OBS_HEVC_NAL_SPS then hvcc_parse_sps hvcc gbc
     else if nal_type = OBS_HEVC_NAL_PPS then hvcc_parse_pps hvcc gbc
     else Some (Some hvcc))"

text \<open>The extracted unit is followed by 64 zero bytes.\<close>

definition hvcc_add_nal_unit :: "byte list \<Rightarrow> u8 \<Rightarrow> HEVCDecoderConfigurationRecord \<Rightarrow> nat \<Rightarrow>
    HEVCDecoderConfigurationRecord option option" where
  "hvcc_add_nal_unit nal ps_array_completeness hvcc array_idx =
    (let rbsp = ff_nal_unit_extract_rbsp nal 2
     in do {
       gbc \<leftarrow> init_get_bits8 (rbsp @ replicate 64 0) (length rbsp);
       (nal_type, gbc) \<leftarrow> nal_unit_parse_header gbc;
       let arr = hvcc_array_add_nal_unit nal nal_type ps_array_completeness (hv_arrays hvcc ! array_idx);
       let hvcc = hvcc\<lparr>hv_arrays := (hv_arrays hvcc)[array_idx := arr]\<rparr>;
       let hvcc = (if na_num arr = 1 then hvcc\<lparr>hv_numOfArrays := hv_numOfArrays hvcc + 1\<rparr> else hvcc);
       hvcc_parse_unit nal_type hvcc gbc })"

definition array_idx_to_type :: "u8 list" where
  "array_idx_to_type = [OBS_HEVC_NAL_VPS, OBS_HEVC_NAL_SPS, OBS_HEVC_NAL_PPS, OBS_HEVC_NAL_SEI_PREFIX, OBS_HEVC_NAL_SEI_SUFFIX]"

fun array_index :: "u8 list \<Rightarrow> u8 \<Rightarrow> nat \<Rightarrow> nat option" where
  "array_index [] type i = None"
| "array_index (t # ts) type i = (if type = t then Some i else array_index ts type (i + 1))"

text \<open>The walk over the units behind their lengths.\<close>

function hvcc_scan :: "byte list \<Rightarrow> HEVCDecoderConfigurationRecord \<Rightarrow> HEVCDecoderConfigurationRecord option option" where
  "hvcc_scan buf hvcc =
    (if length buf \<le> 4 then Some (Some hvcc)
     else
       (let len = min (unat (rb32 buf 0)) (length buf - 4);
            type = drop_bit 1 (buf ! 4) AND 0x3F;
            rest = drop 4 buf
        in case array_index array_idx_to_type type 0 of
             None \<Rightarrow> hvcc_scan (drop len rest) hvcc
           | Some i \<Rightarrow>
               (case hvcc_add_nal_unit (take len rest) 1 hvcc i of
                  None \<Rightarrow> None
                | Some None \<Rightarrow> Some None
                | Some (Some hvcc) \<Rightarrow> hvcc_scan (drop len rest) hvcc)))"
  by pat_completeness auto
termination by (relation "measure (\<lambda>(buf, _). length buf)") auto

declare hvcc_scan.simps [simp del]

definition hvcc_init :: HEVCDecoderConfigurationRecord where
  "hvcc_init = \<lparr>hv_profile_space = 0, hv_tier_flag = 0, hv_profile_idc = 0, hv_profile_compatibility_flags = 0xFFFFFFFF,
     hv_constraint_indicator_flags = 0xFFFFFFFFFFFF, hv_level_idc = 0, hv_min_spatial_segmentation_idc = 4096 + 1,
     hv_parallelismType = 0, hv_chromaFormat = 0, hv_bitDepthLumaMinus8 = 0, hv_bitDepthChromaMinus8 = 0, hv_avgFrameRate = 0,
     hv_constantFrameRate = 0, hv_numTemporalLayers = 0, hv_temporalIdNested = 0, hv_lengthSizeMinusOne = 3, hv_numOfArrays = 0,
     hv_arrays = replicate 5 \<lparr>na_completeness = 0, na_type = 0, na_num = 0, na_unit = array_output_serializer_init\<rparr>\<rparr>"

definition hvcc_adjust :: "HEVCDecoderConfigurationRecord \<Rightarrow> HEVCDecoderConfigurationRecord" where
  "hvcc_adjust hvcc =
    (let hvcc = (if hv_min_spatial_segmentation_idc hvcc > 4096 then hvcc\<lparr>hv_min_spatial_segmentation_idc := 0\<rparr> else hvcc);
         hvcc = (if hv_min_spatial_segmentation_idc hvcc = 0 then hvcc\<lparr>hv_parallelismType := 0\<rparr> else hvcc)
     in hvcc\<lparr>hv_avgFrameRate := 0, hv_constantFrameRate := 0\<rparr>)"

definition OBS_HEVC_MAX_VPS_COUNT :: u16 where "OBS_HEVC_MAX_VPS_COUNT = 16"
definition OBS_HEVC_MAX_SPS_COUNT :: u16 where "OBS_HEVC_MAX_SPS_COUNT = 16"
definition OBS_HEVC_MAX_PPS_COUNT :: u16 where "OBS_HEVC_MAX_PPS_COUNT = 64"

definition hvcc_complete :: "HEVCDecoderConfigurationRecord \<Rightarrow> bool" where
  "hvcc_complete hvcc =
    (let vps_count = na_num (hv_arrays hvcc ! 0); sps_count = na_num (hv_arrays hvcc ! 1); pps_count = na_num (hv_arrays hvcc ! 2)
     in \<not> (vps_count = 0 \<or> vps_count > OBS_HEVC_MAX_VPS_COUNT \<or> sps_count = 0 \<or> sps_count > OBS_HEVC_MAX_SPS_COUNT \<or>
           pps_count = 0 \<or> pps_count > OBS_HEVC_MAX_PPS_COUNT))"

definition write_hvcc_array :: "HVCCNALUnitArray \<Rightarrow> ('s serializer, unit) state" where
  "write_hvcc_array arr =
    (if na_num arr = 0 then State_Monad.return ()
     else do {
       s_w8 (push_bit 7 (na_completeness arr) OR (na_type arr AND 0x3F));
       s_wb16 (na_num arr);
       _ \<leftarrow> s_write (ao_bytes (ser_data (na_unit arr)));
       State_Monad.return () })"

definition write_hvcc :: "HEVCDecoderConfigurationRecord \<Rightarrow> ('s serializer, unit) state" where
  "write_hvcc hvcc = do {
     s_w8 1;
     s_w8 (push_bit 6 (hv_profile_space hvcc) OR push_bit 5 (hv_tier_flag hvcc) OR hv_profile_idc hvcc);
     s_wb32 (hv_profile_compatibility_flags hvcc);
     s_wb32 (ucast (drop_bit 16 (hv_constraint_indicator_flags hvcc)));
     s_wb16 (ucast (hv_constraint_indicator_flags hvcc));
     s_w8 (hv_level_idc hvcc);
     s_wb16 (hv_min_spatial_segmentation_idc hvcc OR 0xF000);
     s_w8 (hv_parallelismType hvcc OR 0xFC);
     s_w8 (hv_chromaFormat hvcc OR 0xFC);
     s_w8 (hv_bitDepthLumaMinus8 hvcc OR 0xF8);
     s_w8 (hv_bitDepthChromaMinus8 hvcc OR 0xF8);
     s_wb16 (hv_avgFrameRate hvcc);
     s_w8 (push_bit 6 (hv_constantFrameRate hvcc) OR push_bit 3 (hv_numTemporalLayers hvcc) OR
       push_bit 2 (hv_temporalIdNested hvcc) OR hv_lengthSizeMinusOne hvcc);
     s_w8 (hv_numOfArrays hvcc);
     for_each write_hvcc_array (hv_arrays hvcc) }"

text \<open>The units of the header behind their lengths, and the \<open>size\<close> that counts them.\<close>

definition header_nal :: "byte list \<Rightarrow> nat \<Rightarrow> nat \<Rightarrow> nat \<Rightarrow> array_output_data serializer \<times> nat \<Rightarrow>
    bool \<times> array_output_data serializer \<times> nat" where
  "header_nal data codestart nal_start nal_end st =
    (let (sn, size) = st;
         (_, sn) = run_state (do { s_wb32 (word_of_nat (nal_end - nal_start)); s_write (bytes_between data nal_start nal_end) }) sn
     in (False, (sn, size + 4 + (nal_end - nal_start))))"

text \<open>
  The result is what the header pointer was set to, if it was, and the returned size.  When a
  parameter set is refused or missing the function still returns the size of the collected units.
\<close>

definition obs_parse_hevc_header :: "nat \<Rightarrow> byte list \<Rightarrow> (byte list option \<times> nat) option" where
  "obs_parse_hevc_header base data =
    (if \<not> has_start_code data then Some (Some data, length data)
     else if length data < 6 then Some (None, 0)
     else if data ! 0 = 1 then Some (Some data, length data)
     else if 2147483647 < length data then None
     else
       (let (sn, size) = nal_loop base data (header_nal data) (obs_nal_find_startcode base data 0 (length data))
              (array_output_serializer_init, 0)
        in if size = 0 then Some (None, 0)
           else
             (case hvcc_scan (ao_bytes (ser_data sn)) hvcc_init of
                None \<Rightarrow> None
              | Some None \<Rightarrow> Some (None, size)
              | Some (Some hvcc) \<Rightarrow>
                  (let hvcc = hvcc_adjust hvcc
                   in if \<not> hvcc_complete hvcc then Some (None, size)
                      else
                        (let out = ao_bytes (ser_data (snd (run_state (write_hvcc hvcc) array_output_serializer_init)))
                         in Some (Some out, length out))))))"

end
