(* ===== verification/Hevc_Config.thy ===== *)
theory Hevc_Config
  imports Rtmp_Hevc Bits
begin

text \<open>
  What the HEVC configuration parser computes: its cached bit reader against bit strings, its
  Golomb decoder against the code's definition, and the record against the units of the header.
\<close>

section \<open>The cached reader\<close>

definition hb_pos :: "HevcGetBitContext \<Rightarrow> nat" where
  "hb_pos s = hb_index s - hb_bits_left s"

text \<open>The cache holds the bits between the position and the index, left-aligned.\<close>

definition hb_ok :: "HevcGetBitContext \<Rightarrow> bool" where
  "hb_ok s \<longleftrightarrow> 8 dvd hb_index s \<and> hb_bits_left s \<le> hb_index s \<and> hb_bits_left s \<le> 64 \<and> hb_index s \<le> 8 * length (hb_buffer s) \<and>
     unat (hb_cache s) = bits_at (hb_buffer s) (hb_pos s) (hb_bits_left s) * 2 ^ (64 - hb_bits_left s)"

lemma rb32_value:
  "unat (rb32 buf i) = unat (buf ! i) * 16777216 + unat (buf ! (i + 1)) * 65536 + unat (buf ! (i + 2)) * 256 + unat (buf ! (i + 3))"
proof -
  define a b c d where "a = unat (buf ! i)" and "b = unat (buf ! (i + 1))" and "c = unat (buf ! (i + 2))" and "d = unat (buf ! (i + 3))"
  have lt: "a < 256" "b < 256" "c < 256" "d < 256"
    using unsigned_less [of "buf ! i", where ?'a = nat] unsigned_less [of "buf ! (i + 1)", where ?'a = nat]
      unsigned_less [of "buf ! (i + 2)", where ?'a = nat] unsigned_less [of "buf ! (i + 3)", where ?'a = nat]
    by (simp_all add: a_def b_def c_def d_def)
  have cast: "ucast (w :: u8) = (word_of_nat (unat w) :: u32)" for w by simp
  have "rb32 buf i = word_of_nat (a * 16777216 + b * 65536 + c * 256 + d)"
    unfolding rb32_def cast a_def b_def c_def d_def by (simp add: push_bit_eq_mult mult.commute)
  then have "unat (rb32 buf i) = a * 16777216 + b * 65536 + c * 256 + d"
    using lt by (simp only: unat_of_nat) simp
  then show ?thesis by (simp only: a_def b_def c_def d_def)
qed

lemma rb32_be32: "rb32 (be32 w @ rest) 0 = w"
proof -
  obtain a b c d where abcd: "be32 w = [a, b, c, d]" by (auto simp: be32_def be16_def)
  have "unat (rb32 ([a, b, c, d] @ rest) 0) = from_be [a, b, c, d]" by (simp add: rb32_value from_be_def numeral_3_eq_3)
  then have "unat (rb32 (be32 w @ rest) 0) = unat w" using abcd from_be_be32 [of w] by simp
  then show ?thesis by (simp only: word_unat_eq_iff)
qed

lemma rb32_bits:
  assumes "i + 4 \<le> length buf"
  shows "unat (rb32 buf i) = bits_at buf (8 * i) 32"
proof -
  have "bits_at buf (8 * i + 8) 8 = unat (buf ! (i + 1))" "bits_at buf (8 * i + 16) 8 = unat (buf ! (i + 2))"
    "bits_at buf (8 * i + 24) 8 = unat (buf ! (i + 3))" "bits_at buf (8 * i) 8 = unat (buf ! i)"
    using assms bits_at_byte [of i buf] bits_at_byte [of "i + 1" buf] bits_at_byte [of "i + 2" buf] bits_at_byte [of "i + 3" buf]
    by (simp_all add: add.commute)
  then have "bits_at buf (8 * i) (8 + (8 + (8 + 8))) = unat (rb32 buf i)"
    using assms by (simp only: bits_at_add rb32_value) (simp add: add.assoc)
  then show ?thesis by simp
qed

lemma refill_32_ok:
  assumes "hb_ok s" and "hb_bits_left s < 32" and "hb_index s + 32 \<le> 8 * length (hb_buffer s)"
  shows "\<exists>s'. refill_32 s = Some s' \<and> hb_ok s' \<and> hb_bits_left s' = hb_bits_left s + 32 \<and> hb_pos s' = hb_pos s \<and>
    hb_buffer s' = hb_buffer s \<and> hb_size_in_bits s' = hb_size_in_bits s"
proof -
  let ?l = "hb_bits_left s" and ?b = "hb_buffer s" and ?i = "hb_index s div 8"
  define V R where "V = bits_at ?b (hb_pos s) ?l" and "R = bits_at ?b (hb_index s) 32"
  have idx: "8 * ?i = hb_index s" "hb_bits_left s \<le> hb_index s" using assms(1) by (simp_all add: hb_ok_def)
  then have i: "?i + 4 \<le> length ?b" using assms(3) by simp
  have c: "hb_cache s = word_of_nat (push_bit (64 - ?l) V)"
  proof -
    have "hb_cache s = word_of_nat (unat (hb_cache s))" by simp
    also have "unat (hb_cache s) = V * 2 ^ (64 - ?l)" using assms(1) by (simp only: hb_ok_def V_def)
    finally show ?thesis by (simp only: push_bit_eq_mult)
  qed
  have r: "push_bit (32 - ?l) (ucast (rb32 ?b ?i) :: u64) = word_of_nat (R * 2 ^ (32 - ?l))"
  proof -
    have "(ucast (rb32 ?b ?i) :: u64) = word_of_nat R" using rb32_bits [OF i] idx(1) by (simp add: R_def) (metis of_nat_unat)
    then show ?thesis by (simp add: push_bit_eq_mult)
  qed
  have "64 - ?l = 32 + (32 - ?l)" using assms(2) by simp
  then have pow: "(2 :: nat) ^ (64 - ?l) = 2 ^ 32 * 2 ^ (32 - ?l)" by (simp only: power_add)
  have "R < 2 ^ 32" unfolding R_def by (rule bits_at_less)
  then have "R * 2 ^ (32 - ?l) < 2 ^ 32 * 2 ^ (32 - ?l)" by simp
  also have "\<dots> = 2 ^ (64 - ?l)" by (simp only: pow)
  finally have small: "R * 2 ^ (32 - ?l) < 2 ^ (64 - ?l)" .
  have new: "hb_cache s OR push_bit (32 - ?l) (ucast (rb32 ?b ?i)) = word_of_nat ((V * 2 ^ 32 + R) * 2 ^ (32 - ?l))"
  proof -
    have "push_bit (64 - ?l) V OR R * 2 ^ (32 - ?l) = R * 2 ^ (32 - ?l) + V * 2 ^ (64 - ?l)"
      using or_push_bit_nat [OF small, of V] by (simp add: or.commute push_bit_eq_mult)
    also note pow
    finally have "push_bit (64 - ?l) V OR R * 2 ^ (32 - ?l) = (V * 2 ^ 32 + R) * 2 ^ (32 - ?l)" by (simp only: algebra_simps)
    then show ?thesis unfolding c r by (metis of_nat_or_eq)
  qed
  have bits: "bits_at ?b (hb_pos s) (?l + 32) = V * 2 ^ 32 + R"
    using assms(3) idx(2) by (subst bits_at_add) (simp_all add: V_def R_def hb_pos_def)
  have "V * 2 ^ 32 + R < 2 ^ (?l + 32)" unfolding bits [symmetric] by (rule bits_at_less)
  then have "(V * 2 ^ 32 + R) * 2 ^ (32 - ?l) < 2 ^ (?l + 32) * 2 ^ (32 - ?l)" by simp
  also have "(2 :: nat) ^ (?l + 32) * 2 ^ (32 - ?l) = 2 ^ (?l + 32 + (32 - ?l))" by (simp only: power_add)
  also have "?l + 32 + (32 - ?l) = 64" using assms(2) by simp
  finally have val: "unat (word_of_nat ((V * 2 ^ 32 + R) * 2 ^ (32 - ?l)) :: u64) = (V * 2 ^ 32 + R) * 2 ^ (32 - ?l)"
    by (simp only: unat_of_nat) simp
  let ?s = "s\<lparr>hb_cache := word_of_nat ((V * 2 ^ 32 + R) * 2 ^ (32 - ?l)), hb_index := hb_index s + 32, hb_bits_left := ?l + 32\<rparr>"
  have "refill_32 s = Some ?s" using i unfolding refill_32_def new by simp
  moreover have "hb_pos ?s = hb_pos s" using idx(2) by (simp add: hb_pos_def)
  moreover from this have "hb_ok ?s" using assms bits val by (simp add: hb_ok_def del: of_nat_add of_nat_mult)
  ultimately show ?thesis by simp
qed


lemma get_val_ok:
  assumes "hb_ok s" and "0 < n" and "n \<le> hb_bits_left s"
  shows "\<exists>s'. get_val n s = Some (word_of_nat (bits_at (hb_buffer s) (hb_pos s) n), s') \<and> hb_ok s' \<and>
    hb_bits_left s' = hb_bits_left s - n \<and> hb_pos s' = hb_pos s + n \<and>
    hb_buffer s' = hb_buffer s \<and> hb_size_in_bits s' = hb_size_in_bits s"
proof -
  let ?l = "hb_bits_left s" and ?b = "hb_buffer s" and ?p = "hb_pos s"
  define A B where "A = bits_at ?b ?p n" and "B = bits_at ?b (?p + n) (?l - n)"
  have ok: "?l \<le> hb_index s" "?l \<le> 64" "hb_index s \<le> 8 * length ?b"
    and c: "unat (hb_cache s) = bits_at ?b ?p ?l * 2 ^ (64 - ?l)" using assms(1) by (simp_all add: hb_ok_def)
  have "bits_at ?b ?p (n + (?l - n)) = A * 2 ^ (?l - n) + B"
    using ok assms(3) unfolding A_def B_def by (intro bits_at_add) (simp add: hb_pos_def)
  then have V: "bits_at ?b ?p ?l = A * 2 ^ (?l - n) + B" using assms(3) by simp
  have B: "B < 2 ^ (?l - n)" unfolding B_def by (rule bits_at_less)
  have e1: "?l - n + (64 - ?l) = 64 - n" and e2: "64 - ?l + n = 64 - (?l - n)" using ok assms(3) by simp_all
  have cache: "unat (hb_cache s) = A * 2 ^ (64 - n) + B * 2 ^ (64 - ?l)"
    unfolding c V e1 [symmetric] by (simp only: power_add algebra_simps)
  have "B * 2 ^ (64 - ?l) < 2 ^ (?l - n) * 2 ^ (64 - ?l)" using B by simp
  then have low: "B * 2 ^ (64 - ?l) < 2 ^ (64 - n)" unfolding e1 [symmetric] by (simp only: power_add)
  have "unat (drop_bit (64 - n) (hb_cache s)) = (A * 2 ^ (64 - n) + B * 2 ^ (64 - ?l)) div 2 ^ (64 - n)"
    by (simp only: unat_drop_bit_eq cache) (simp only: drop_bit_eq_div)
  then have "unat (drop_bit (64 - n) (hb_cache s)) = A" using low by simp
  then have val: "drop_bit (64 - n) (hb_cache s) = word_of_nat A" by (metis of_nat_unat ucast_id)
  have "2 ^ (64 - n) * 2 ^ n = (2 :: nat) ^ (64 - n + n)" by (simp only: power_add)
  then have full: "2 ^ (64 - n) * 2 ^ n = (2 :: nat) ^ 64" using assms(3) ok(2) by simp
  have "unat (hb_cache s) * 2 ^ n = A * (2 ^ (64 - n) * 2 ^ n) + B * (2 ^ (64 - ?l) * 2 ^ n)"
    unfolding cache by (simp only: algebra_simps)
  also have "2 ^ (64 - ?l) * 2 ^ n = (2 :: nat) ^ (64 - (?l - n))" unfolding e2 [symmetric] by (simp only: power_add)
  finally have sh: "unat (hb_cache s) * 2 ^ n = A * 2 ^ 64 + B * 2 ^ (64 - (?l - n))" unfolding full .
  have "B * 2 ^ (64 - (?l - n)) < 2 ^ (?l - n) * 2 ^ (64 - (?l - n))" using B by simp
  also have "\<dots> = 2 ^ (?l - n + (64 - (?l - n)))" by (simp only: power_add)
  also have "?l - n + (64 - (?l - n)) = 64" using ok(2) by simp
  finally have "(A * 2 ^ 64 + B * 2 ^ (64 - (?l - n))) mod 2 ^ 64 = B * 2 ^ (64 - (?l - n))" by simp
  then have "unat (push_bit n (hb_cache s)) = B * 2 ^ (64 - (?l - n))"
    unfolding sh [symmetric] by (simp add: unsigned_push_bit_eq) (simp add: push_bit_eq_mult take_bit_eq_mod)
  moreover let ?s = "s\<lparr>hb_cache := push_bit n (hb_cache s), hb_bits_left := ?l - n\<rparr>"
  have pos: "hb_pos ?s = hb_pos s + n" using ok assms(3) by (simp add: hb_pos_def)
  ultimately have "hb_ok ?s" using assms(1) unfolding hb_ok_def pos by (auto simp: B_def)
  moreover have "get_val n s = Some (word_of_nat A, ?s)" using val assms ok by (simp add: get_val_def)
  ultimately show ?thesis using pos by (intro exI [of _ ?s]) (simp add: A_def)
qed

lemma get_bits_ok:
  assumes "hb_ok s" and "0 < n" and "n \<le> 32" and "hb_pos s + n + 32 \<le> 8 * length (hb_buffer s)"
  shows "\<exists>s'. get_bits n s = Some (word_of_nat (bits_at (hb_buffer s) (hb_pos s) n), s') \<and> hb_ok s' \<and>
    hb_pos s' = hb_pos s + n \<and> hb_buffer s' = hb_buffer s \<and> hb_size_in_bits s' = hb_size_in_bits s"
proof -
  obtain s1 where s1: "(if n > hb_bits_left s then refill_32 s else Some s) = Some s1" "hb_ok s1" "n \<le> hb_bits_left s1"
    "hb_pos s1 = hb_pos s" "hb_buffer s1 = hb_buffer s" "hb_size_in_bits s1 = hb_size_in_bits s"
  proof (cases "n > hb_bits_left s")
    case True
    have "hb_bits_left s \<le> hb_index s" using assms(1) by (simp add: hb_ok_def)
    then have "hb_index s + 32 \<le> 8 * length (hb_buffer s)" using True assms(4) by (simp add: hb_pos_def)
    with refill_32_ok [OF assms(1)] True assms(3) that show ?thesis by fastforce
  qed (use assms that in auto)
  have "(ucast (word_of_nat v :: u64) :: u32) = word_of_nat v" for v
    by (simp add: unsigned_of_nat word_of_nat_eq_iff)
  then show ?thesis
    using get_val_ok [OF s1(2) assms(2) s1(3)] s1 by (auto simp: get_bits_def)
qed


lemma get_bits_long_ok:
  assumes "hb_ok s" and "n \<le> 32" and "hb_pos s + n + 32 \<le> 8 * length (hb_buffer s)"
  shows "\<exists>s'. get_bits_long n s = Some (word_of_nat (bits_at (hb_buffer s) (hb_pos s) n), s') \<and> hb_ok s' \<and>
    hb_pos s' = hb_pos s + n \<and> hb_buffer s' = hb_buffer s \<and> hb_size_in_bits s' = hb_size_in_bits s"
  using get_bits_ok [OF assms(1) _ assms(2,3)] assms(1) by (cases "n = 0") (simp_all add: get_bits_long_def)

lemma unat_of_bits_at: "n \<le> 32 \<Longrightarrow> unat (word_of_nat (bits_at buf i n) :: u32) = bits_at buf i n"
proof -
  assume "n \<le> 32"
  then have "(2 :: nat) ^ n \<le> 2 ^ 32" by (intro power_increasing) simp_all
  then have "bits_at buf i n < 2 ^ 32" using bits_at_less [of buf i n] by (rule order_less_le_trans [rotated])
  then show ?thesis by (simp add: unat_of_nat)
qed

section \<open>Golomb codes\<close>

lemma bit_unat: "bit (x :: u32) k = bit (unat x) k"
  by (simp add: bit_unsigned_iff)

lemma clz_bits_log:
  assumes "2 ^ m \<le> unat x" and "unat x < 2 ^ Suc m" and "m < k"
  shows "clz_bits k x = k - 1 - m"
  using assms
proof (induction k)
  case (Suc k)
  have "unat x div 2 ^ k = (if k = m then 1 else 0)"
  proof (cases "k = m")
    case True
    have "unat x div 2 ^ m = 1" using Suc.prems(1,2) by (intro div_nat_eqI) simp_all
    then show ?thesis using True by simp
  next
    case False
    then have "(2 :: nat) ^ Suc m \<le> 2 ^ k" using Suc.prems(3) by (intro power_increasing) simp_all
    then show ?thesis using False Suc.prems(2) by simp
  qed
  then have "bit x k = (k = m)" unfolding bit_unat by (simp add: bit_iff_odd)
  then show ?case using Suc by (auto simp: less_Suc_eq)
qed simp

lemma ilog2_log:
  assumes "2 ^ m \<le> unat x" and "unat x < 2 ^ Suc m" and "m \<le> 31"
  shows "ilog2 x = m"
proof -
  have "unat (x OR 1) = unat x OR 1" by (simp add: unsigned_or_eq)
  also have "\<dots> = (if even (unat x) then unat x + 1 else unat x)" by (simp add: or_Suc_0_eq)
  finally have eq: "unat (x OR 1) = (if even (unat x) then unat x + 1 else unat x)" .
  have "even ((2 :: nat) ^ Suc m)" by simp
  then have "unat x + 1 < 2 ^ Suc m" if "even (unat x)" using that assms(2) by (metis Suc_eq_plus1 Suc_lessI even_Suc)
  then have "unat (x OR 1) < 2 ^ Suc m" using assms(2) eq by simp
  moreover have "2 ^ m \<le> unat (x OR 1)" using assms(1) eq by simp
  ultimately have "clz32 (x OR 1) = 31 - m" unfolding clz32_def using assms(3) by (subst clz_bits_log) simp_all
  then show ?thesis using assms(3) by (simp add: ilog2_def)
qed


lemma golomb_prefix:
  assumes "2 ^ k \<le> x" and "x < 2 ^ Suc k" and "k \<le> 31" and "bits_at buf p (k + Suc k) = x"
    and "p + k + 32 \<le> 8 * length buf"
  shows "bits_at buf (p + k) (Suc k) = x" "2 ^ (31 - k) \<le> bits_at buf p 32" "bits_at buf p 32 < 2 ^ Suc (31 - k)"
proof -
  have split: "bits_at buf p (k + Suc k) = bits_at buf p k * 2 ^ Suc k + bits_at buf (p + k) (Suc k)"
    using assms(3,5) by (intro bits_at_add) simp
  have zero: "bits_at buf p k = 0"
  proof (rule ccontr)
    assume "bits_at buf p k \<noteq> 0"
    then have "1 * 2 ^ Suc k \<le> bits_at buf p k * 2 ^ Suc k" by (intro mult_le_mono1) simp
    then show False using split assms(2,4) by linarith
  qed
  with split assms(4) show x: "bits_at buf (p + k) (Suc k) = x" by simp
  have one: "bits_at buf (p + k) (1 + k) = bits_at buf (p + k) 1 * 2 ^ k + bits_at buf (p + k + 1) k"
    using assms(3,5) by (intro bits_at_add) simp
  have "bits_at buf (p + k) 1 \<noteq> 0" using one x assms(1) bits_at_less [of buf "p + k + 1" k] by (metis Suc_eq_plus1_left add_0 leD mult_0)
  moreover have "bits_at buf (p + k) 1 < 2" using bits_at_less [of buf "p + k" 1] by simp
  ultimately have b: "bits_at buf (p + k) 1 = 1" by linarith
  have "bits_at buf p (k + (1 + (31 - k))) = bits_at buf p k * 2 ^ (1 + (31 - k)) + bits_at buf (p + k) (1 + (31 - k))"
    using assms(3,5) by (intro bits_at_add) simp
  also have "bits_at buf (p + k) (1 + (31 - k)) = bits_at buf (p + k) 1 * 2 ^ (31 - k) + bits_at buf (p + k + 1) (31 - k)"
    using assms(3,5) by (intro bits_at_add) simp
  finally have "bits_at buf p 32 = 2 ^ (31 - k) + bits_at buf (p + k + 1) (31 - k)"
    using zero b assms(3) by simp
  then show "2 ^ (31 - k) \<le> bits_at buf p 32" "bits_at buf p 32 < 2 ^ Suc (31 - k)"
    using bits_at_less [of buf "p + k + 1" "31 - k"] by simp_all
qed

lemma init_get_bits8_Some:
  assumes "init_get_bits8 buf n = Some s" and "4 \<le> length buf"
  shows "hb_ok s \<and> hb_pos s = 0 \<and> hb_buffer s = buf"
proof -
  let ?s = "\<lparr>hb_buffer = buf, hb_cache = 0, hb_bits_left = 0, hb_index = 0, hb_size_in_bits = n * 8\<rparr>"
  have "hb_ok ?s" by (simp add: hb_ok_def)
  moreover have "hb_pos ?s = 0" by (simp add: hb_pos_def)
  ultimately show ?thesis using refill_32_ok [of ?s] assms by (auto simp: init_get_bits8_def split: if_splits)
qed

lemma init_get_bits8_ok:
  assumes "4 \<le> length buf" and "n \<le> 200000000"
  shows "\<exists>s. init_get_bits8 buf n = Some s \<and> hb_ok s \<and> hb_pos s = 0 \<and> hb_buffer s = buf"
proof -
  have "\<exists>s. init_get_bits8 buf n = Some s" using assms by (simp add: init_get_bits8_def refill_32_def)
  then show ?thesis using init_get_bits8_Some assms(1) by blast
qed

text \<open>
  C23. The Golomb decoder inverts the code: where the next bits are \<open>k\<close> zeros and the
  \<open>k + 1\<close> bits of \<open>v + 1\<close>, it returns \<open>v\<close> and stands behind them.
\<close>

theorem golomb_decodes:
  assumes "hb_ok s" and "2 ^ k \<le> v + 1" and "v + 1 < 2 ^ Suc k" and "k \<le> 31"
    and "bits_at (hb_buffer s) (hb_pos s) (k + Suc k) = v + 1" and "hb_pos s + k + Suc k + 64 \<le> 8 * length (hb_buffer s)"
  shows "\<exists>s'. get_ue_golomb_long s = Some (word_of_nat v, s') \<and> hb_ok s' \<and> hb_pos s' = hb_pos s + k + Suc k \<and>
    hb_buffer s' = hb_buffer s"
proof -
  let ?b = "hb_buffer s" and ?p = "hb_pos s"
  note prefix = golomb_prefix [OF assms(2,3,4,5)]
  obtain s0 where s0: "get_bits_long 32 s = Some (word_of_nat (bits_at ?b ?p 32), s0)"
    using get_bits_long_ok [OF assms(1), of 32] assms(6) by auto
  then have show_bits: "show_bits_long 32 s = Some (word_of_nat (bits_at ?b ?p 32), s)" by (simp add: show_bits_long_def)
  have "ilog2 (word_of_nat (bits_at ?b ?p 32)) = 31 - k"
    using prefix assms(6) by (intro ilog2_log) (simp_all add: unat_of_bits_at)
  then have log: "31 - ilog2 (word_of_nat (bits_at ?b ?p 32)) = k" using assms(4) by simp
  obtain s1 where s1: "skip_bits_long k s = Some s1" "hb_ok s1" "hb_pos s1 = ?p + k" "hb_buffer s1 = ?b"
    using get_bits_long_ok [OF assms(1), of k] assms(4,6) by (auto simp: skip_bits_long_def)
  obtain s2 where "get_bits_long (k + 1) s1 = Some (word_of_nat (bits_at ?b (?p + k) (Suc k)), s2)" "hb_ok s2"
    "hb_pos s2 = ?p + k + Suc k" "hb_buffer s2 = ?b"
    using get_bits_long_ok [OF s1(2), of "Suc k"] s1 assms(4,6) by auto
  then show ?thesis using prefix(1) assms(6) show_bits log s1(1) by (simp add: get_ue_golomb_long_def)
qed


theorem golomb_decodes_witness:
  "\<exists>s s'. init_get_bits8 (0x28 # replicate 15 0) 1 = Some s \<and> get_ue_golomb_long s = Some (4, s') \<and> hb_pos s' = 5"
proof -
  obtain s where s: "init_get_bits8 (0x28 # replicate 15 0) 1 = Some s" "hb_ok s" "hb_pos s = 0"
    "hb_buffer s = 0x28 # replicate 15 0"
    using init_get_bits8_ok [of "0x28 # replicate 15 0" 1] by auto
  have "bits_at (0x28 # replicate 15 0) 0 5 = 5" by (simp add: bits_at_Cons_byte drop_bit_eq_div take_bit_eq_mod)
  then have "\<exists>s'. get_ue_golomb_long s = Some (word_of_nat 4, s') \<and> hb_ok s' \<and> hb_pos s' = hb_pos s + 2 + Suc 2 \<and> hb_buffer s' = hb_buffer s"
    using s by (intro golomb_decodes) simp_all
  then show ?thesis using s by auto
qed

section \<open>The record\<close>

text \<open>Parsing a parameter set leaves the collected units alone.\<close>

lemma hvcc_update_ptl_arrays [simp]:
  "hv_arrays (hvcc_update_ptl h p) = hv_arrays h" "hv_numOfArrays (hvcc_update_ptl h p) = hv_numOfArrays h"
  by (simp_all add: hvcc_update_ptl_def)

lemma hvcc_parse_ptl_arrays:
  "hvcc_parse_ptl h n gb = Some (h', gb') \<Longrightarrow> hv_arrays h' = hv_arrays h \<and> hv_numOfArrays h' = hv_numOfArrays h"
  by (auto simp: hvcc_parse_ptl_def bind_eq_Some_conv Let_def)

lemma hvcc_parse_vui_arrays:
  "hvcc_parse_vui h n gb = Some (h', gb') \<Longrightarrow> hv_arrays h' = hv_arrays h \<and> hv_numOfArrays h' = hv_numOfArrays h"
  by (auto simp: hvcc_parse_vui_def bind_eq_Some_conv split: if_splits)

lemma parse_sps_format_arrays:
  "parse_sps_format h gb = Some ((h', l), gb') \<Longrightarrow> hv_arrays h' = hv_arrays h \<and> hv_numOfArrays h' = hv_numOfArrays h"
  by (auto simp: parse_sps_format_def bind_eq_Some_conv Let_def)

lemma hvcc_parse_vps_arrays:
  "hvcc_parse_vps h gb = Some (Some h') \<Longrightarrow> hv_arrays h' = hv_arrays h \<and> hv_numOfArrays h' = hv_numOfArrays h"
  by (auto simp: hvcc_parse_vps_def bind_eq_Some_conv Let_def dest!: hvcc_parse_ptl_arrays)

lemma hvcc_parse_pps_arrays:
  "hvcc_parse_pps h gb = Some (Some h') \<Longrightarrow> hv_arrays h' = hv_arrays h \<and> hv_numOfArrays h' = hv_numOfArrays h"
  by (auto simp: hvcc_parse_pps_def bind_eq_Some_conv)

lemma hvcc_parse_sps_arrays:
  "hvcc_parse_sps h gb = Some (Some h') \<Longrightarrow> hv_arrays h' = hv_arrays h \<and> hv_numOfArrays h' = hv_numOfArrays h"
  by (auto simp: hvcc_parse_sps_def bind_eq_Some_conv Let_def split: if_splits
      dest!: hvcc_parse_ptl_arrays parse_sps_format_arrays hvcc_parse_vui_arrays)

lemma hvcc_parse_unit_arrays:
  "hvcc_parse_unit t h gb = Some (Some h') \<Longrightarrow> hv_arrays h' = hv_arrays h \<and> hv_numOfArrays h' = hv_numOfArrays h"
  using hvcc_parse_vps_arrays [of h gb h'] hvcc_parse_sps_arrays [of h gb h'] hvcc_parse_pps_arrays [of h gb h']
  by (auto simp: hvcc_parse_unit_def split: if_splits)


definition unit_type :: "byte list \<Rightarrow> u8" where
  "unit_type u = drop_bit 1 (hd u) AND 0x3F"

text \<open>The array of one type after the given units, and its bytes in the record.\<close>

definition sized_units :: "byte list list \<Rightarrow> byte list" where
  "sized_units us = concat (map (\<lambda>u. be16 (word_of_nat (length u)) @ u) us)"

definition of_type :: "u8 \<Rightarrow> byte list list \<Rightarrow> byte list list" where
  "of_type t us = filter (\<lambda>u. unit_type u = t) us"

definition filled :: "byte list \<Rightarrow> array_output_data serializer" where
  "filled bs = array_output_serializer_init\<lparr>ser_data := \<lparr>ao_bytes = bs, ao_cur_pos = length bs\<rparr>\<rparr>"

definition array_of :: "byte list list \<Rightarrow> u8 \<Rightarrow> HVCCNALUnitArray" where
  "array_of us t = \<lparr>na_completeness = (if of_type t us \<noteq> [] \<and> t \<in> {OBS_HEVC_NAL_VPS, OBS_HEVC_NAL_SPS, OBS_HEVC_NAL_PPS} then 1 else 0),
     na_type = (if of_type t us \<noteq> [] then t else 0), na_num = word_of_nat (length (of_type t us)),
     na_unit = filled (sized_units (of_type t us))\<rparr>"

lemma run_s_write_filled: "run_state (s_write d) (filled bs) = (length d, filled (bs @ d))"
  by (cases "d = []") (simp_all add: filled_def s_write_def array_output_serializer_init_def array_output_write_def write_at_def)

lemma run_s_wb16_filled: "run_state (s_wb16 n) (filled bs) = ((), filled (bs @ be16 n))"
  by (simp add: s_wb16_def s_w8_def be16_def run_s_write_filled)

lemma run_s_w8_filled: "run_state (s_w8 n) (filled bs) = ((), filled (bs @ [n]))"
  by (simp add: s_w8_def run_s_write_filled)

lemma run_s_wb32_filled: "run_state (s_wb32 n) (filled bs) = ((), filled (bs @ be32 n))"
  by (simp add: s_wb32_def be32_def run_s_wb16_filled)

lemma hvcc_array_add_array_of:
  assumes "unit_type u = t"
  shows "hvcc_array_add_nal_unit u t 1 (array_of us t) = array_of (us @ [u]) t"
  using assms by (simp add: hvcc_array_add_nal_unit_def array_of_def of_type_def sized_units_def Let_def
      run_s_write_filled run_s_wb16_filled)

lemma array_of_other: "unit_type u \<noteq> t \<Longrightarrow> array_of (us @ [u]) t = array_of us t"
  by (simp add: array_of_def of_type_def)

lemma parsed_nal_type:
  assumes "u \<noteq> []" and "init_get_bits8 (ff_nal_unit_extract_rbsp u 2 @ replicate 64 0) (length (ff_nal_unit_extract_rbsp u 2)) = Some gb"
    and "nal_unit_parse_header gb = Some (t, gb')"
  shows "t = unit_type u"
proof -
  obtain bs where bs: "ff_nal_unit_extract_rbsp u 2 @ replicate 64 0 = hd u # bs" "64 \<le> length bs"
    using assms(1) by (cases u) (auto simp: ff_nal_unit_extract_rbsp_def)
  have gb: "hb_ok gb" "hb_pos gb = 0" "hb_buffer gb = hd u # bs"
    using init_get_bits8_Some [OF assms(2)] bs by simp_all
  obtain g1 where g1: "skip_bits 1 gb = Some g1" "hb_ok g1" "hb_pos g1 = 1" "hb_buffer g1 = hd u # bs"
    using get_bits_ok [OF gb(1), of 1] gb bs(2) by (auto simp: skip_bits_def)
  obtain g2 where g2: "get_bits 6 g1 = Some (word_of_nat (bits_at (hd u # bs) 1 6), g2)"
    using get_bits_ok [OF g1(2), of 6] g1 bs(2) by auto
  have "t = ucast (word_of_nat (bits_at (hd u # bs) 1 6) :: u32)"
    using assms(3) g1(1) g2 by (auto simp: nal_unit_parse_header_def bind_eq_Some_conv)
  also have "\<dots> = word_of_nat (bits_at (hd u # bs) 1 6)" by (simp add: unsigned_of_nat word_of_nat_eq_iff)
  also have "bits_at (hd u # bs) 1 6 = unat (unit_type u)"
  proof -
    have "unit_type u = take_bit 6 (drop_bit 1 (hd u))" by (simp add: unit_type_def take_bit_eq_mask mask_eq_exp_minus_1)
    then show ?thesis by (simp add: bits_at_Cons_byte unsigned_take_bit_eq unat_drop_bit_eq)
  qed
  finally show ?thesis by simp
qed


definition collected :: "byte list list \<Rightarrow> HEVCDecoderConfigurationRecord \<Rightarrow> bool" where
  "collected us hvcc \<longleftrightarrow> hv_arrays hvcc = map (array_of us) array_idx_to_type \<and>
     hv_numOfArrays hvcc = word_of_nat (length (filter (\<lambda>t. of_type t us \<noteq> []) array_idx_to_type))"

lemma distinct_array_idx_to_type: "distinct array_idx_to_type" "length array_idx_to_type = 5"
  by (simp_all add: array_idx_to_type_def hevc_types)

lemma array_index_Some: "array_index ts t k = Some i \<Longrightarrow> k \<le> i \<and> i - k < length ts \<and> ts ! (i - k) = t"
  by (induction ts arbitrary: k) (fastforce simp: Suc_diff_le split: if_splits)+

lemma array_index_None: "array_index ts t k = None \<longleftrightarrow> t \<notin> set ts"
  by (induction ts arbitrary: k) auto

lemma of_type_append: "of_type t (us @ [u]) = of_type t us @ (if unit_type u = t then [u] else [])"
  by (simp add: of_type_def)

lemma collected_skip:
  assumes "collected us h" and "unit_type u \<notin> set array_idx_to_type"
  shows "collected (us @ [u]) h"
proof -
  have "array_of (us @ [u]) t = array_of us t" "of_type t (us @ [u]) = of_type t us" if "t \<in> set array_idx_to_type" for t
    using that assms(2) array_of_other [of u t us] by (auto simp: of_type_append)
  then show ?thesis using assms(1) by (auto simp: collected_def cong: map_cong filter_cong)
qed

lemma collected_arrays:
  assumes "i < 5" and "array_idx_to_type ! i = unit_type u"
  shows "(map (array_of us) array_idx_to_type)[i := array_of (us @ [u]) (unit_type u)] = map (array_of (us @ [u])) array_idx_to_type"
proof (rule nth_equalityI)
  fix j assume "j < length ((map (array_of us) array_idx_to_type)[i := array_of (us @ [u]) (unit_type u)])"
  then have j: "j < 5" using distinct_array_idx_to_type by simp
  show "(map (array_of us) array_idx_to_type)[i := array_of (us @ [u]) (unit_type u)] ! j = map (array_of (us @ [u])) array_idx_to_type ! j"
  proof (cases "i = j")
    case False
    then have "array_idx_to_type ! j \<noteq> unit_type u"
      using assms j distinct_array_idx_to_type by (metis nth_eq_iff_index_eq)
    then show ?thesis using False j distinct_array_idx_to_type by (simp add: array_of_other)
  qed (use j assms distinct_array_idx_to_type in simp)
qed simp

lemma length_filter_update:
  assumes "distinct ts" and "t \<in> set ts" and "\<And>x. P' x = (P x \<or> x = t)"
  shows "length (filter P' ts) = length (filter P ts) + (if P t then 0 else 1)"
proof -
  have "set (filter P' ts) = (if P t then set (filter P ts) else insert t (set (filter P ts)))" using assms(2,3) by auto
  moreover have "length (filter Q ts) = card (set (filter Q ts))" for Q using assms(1) by (metis distinct_card distinct_filter)
  ultimately show ?thesis by simp
qed

lemma collected_add:
  assumes "collected us h" and "u \<noteq> []" and "i < 5" and "array_idx_to_type ! i = unit_type u" and "length us < 65535"
    and "hvcc_add_nal_unit u 1 h i = Some (Some h')"
  shows "collected (us @ [u]) h'"
proof -
  let ?t = "unit_type u" and ?arr = "array_of (us @ [u]) (unit_type u)"
  have mem: "?t \<in> set array_idx_to_type" using assms(3,4) distinct_array_idx_to_type by (metis nth_mem)
  have "hv_arrays h ! i = array_of us ?t" using assms(1,3,4) distinct_array_idx_to_type by (simp add: collected_def)
  then have arr: "hvcc_array_add_nal_unit u ?t 1 (hv_arrays h ! i) = ?arr" by (simp add: hvcc_array_add_array_of)
  have "length (of_type ?t us) \<le> length us" by (simp add: of_type_def)
  then have "(word_of_nat (length (of_type ?t us) + 1) :: u16) = 1 \<longleftrightarrow> of_type ?t us = []"
    using assms(5) by (simp add: word_of_nat_eq_iff take_bit_nat_eq_self flip: of_nat_Suc of_nat_1)
  then have num: "na_num ?arr = 1 \<longleftrightarrow> of_type ?t us = []" by (simp add: array_of_def of_type_append)
  let ?h = "h\<lparr>hv_arrays := (hv_arrays h)[i := ?arr]\<rparr>"
  let ?h1 = "if na_num ?arr = 1 then ?h\<lparr>hv_numOfArrays := hv_numOfArrays ?h + 1\<rparr> else ?h"
  obtain gb gb' where "hvcc_parse_unit ?t ?h1 gb' = Some (Some h')"
  proof -
    from assms(6) obtain gb t gb' where
      init: "init_get_bits8 (ff_nal_unit_extract_rbsp u 2 @ replicate 64 0) (length (ff_nal_unit_extract_rbsp u 2)) = Some gb" and
      hdr: "nal_unit_parse_header gb = Some (t, gb')" and
      parse: "(let arr = hvcc_array_add_nal_unit u t 1 (hv_arrays h ! i); hvcc = h\<lparr>hv_arrays := (hv_arrays h)[i := arr]\<rparr>;
          hvcc = (if na_num arr = 1 then hvcc\<lparr>hv_numOfArrays := hv_numOfArrays hvcc + 1\<rparr> else hvcc)
        in hvcc_parse_unit t hvcc gb') = Some (Some h')"
      unfolding hvcc_add_nal_unit_def by (auto simp: bind_eq_Some_conv Let_def)
    have "t = ?t" by (rule parsed_nal_type [OF assms(2) init hdr])
    with parse arr have "hvcc_parse_unit ?t ?h1 gb' = Some (Some h')" by (simp only: Let_def)
    then show ?thesis by (rule that)
  qed
  from hvcc_parse_unit_arrays [OF this] have
    "hv_arrays h' = (hv_arrays h)[i := ?arr]" "hv_numOfArrays h' = (if of_type ?t us = [] then hv_numOfArrays h + 1 else hv_numOfArrays h)"
    by (simp_all add: num)
  moreover have "length (filter (\<lambda>t. of_type t (us @ [u]) \<noteq> []) array_idx_to_type) =
      length (filter (\<lambda>t. of_type t us \<noteq> []) array_idx_to_type) + (if of_type ?t us \<noteq> [] then 0 else 1)"
    by (rule length_filter_update [OF distinct_array_idx_to_type(1) mem]) (auto simp: of_type_append)
  ultimately show ?thesis
    using collected_arrays [OF assms(3,4)] assms(1) by (simp add: collected_def)
qed

lemma hvcc_scan_step:
  assumes "u \<noteq> []" and "length u < 2 ^ 32"
  shows "hvcc_scan (length_prefixed (u # us)) h = (case array_index array_idx_to_type (unit_type u) 0 of
      None \<Rightarrow> hvcc_scan (length_prefixed us) h
    | Some i \<Rightarrow> (case hvcc_add_nal_unit u 1 h i of
         None \<Rightarrow> None | Some None \<Rightarrow> Some None | Some (Some h1) \<Rightarrow> hvcc_scan (length_prefixed us) h1))"
proof -
  let ?buf = "be32 (word_of_nat (length u)) @ u @ length_prefixed us"
  have buf: "length_prefixed (u # us) = ?buf" by (simp add: length_prefixed_def)
  have len: "min (unat (rb32 ?buf 0)) (length ?buf - 4) = length u"
    using assms(2) by (simp add: rb32_be32 unat_of_nat)
  have ty: "drop_bit 1 (?buf ! 4) AND 0x3F = unit_type u" using assms(1) by (simp add: unit_type_def nth_append hd_conv_nth)
  show ?thesis
    using assms len ty unfolding buf by (subst hvcc_scan.simps) (simp add: Let_def split: option.split)
qed

lemma hvcc_scan_collected:
  assumes "list_all (\<lambda>u. u \<noteq> [] \<and> length u < 2 ^ 32) us" and "collected vs h" and "length (vs @ us) \<le> 65535"
    and "hvcc_scan (length_prefixed us) h = Some (Some h')"
  shows "collected (vs @ us) h'"
  using assms
proof (induction us arbitrary: vs h)
  case Nil
  then show ?case by (simp add: length_prefixed_def hvcc_scan.simps)
next
  case (Cons u us)
  have u: "u \<noteq> []" "length u < 2 ^ 32" using Cons.prems(1) by simp_all
  note step = hvcc_scan_step [OF u, of us h]
  show ?case
  proof (cases "array_index array_idx_to_type (unit_type u) 0")
    case None
    then have "collected (vs @ [u]) h" using Cons.prems(2) by (intro collected_skip) (simp_all add: array_index_None)
    then show ?thesis using Cons.IH [of "vs @ [u]" h] Cons.prems None step by simp
  next
    case (Some i)
    then have i: "i < 5" "array_idx_to_type ! i = unit_type u"
      using array_index_Some [OF Some] distinct_array_idx_to_type by simp_all
    obtain h1 where h1: "hvcc_add_nal_unit u 1 h i = Some (Some h1)" "hvcc_scan (length_prefixed us) h1 = Some (Some h')"
      using Cons.prems(4) step Some by (simp split: option.splits)
    have "collected (vs @ [u]) h1" using Cons.prems(2,3) u(1) i h1(1) by (intro collected_add) simp_all
    then show ?thesis using Cons.IH [of "vs @ [u]" h1] Cons.prems h1(2) by simp
  qed
qed

lemma collected_init: "collected [] hvcc_init"
  by (simp add: collected_def hvcc_init_def array_idx_to_type_def array_of_def of_type_def sized_units_def filled_def
      array_output_serializer_init_def numeral_eq_Suc)


text \<open>The first pass leaves the units behind their lengths, and counts their bytes.\<close>

lemma header_nal_fold:
  assumes "stream_ok us" and "d = pre @ annexb us"
  shows "unit_fold (header_nal d) (length pre) us (filled bs, n) =
    (filled (bs @ length_prefixed (map snd us)), n + length (length_prefixed (map snd us)))"
  using assms
proof (induction us arbitrary: pre bs n)
  case Nil
  then show ?case by (simp add: length_prefixed_def)
next
  case (Cons scu us)
  obtain sc u where scu: "scu = (sc, u)" by (cases scu)
  have ok: "stream_ok us" using Cons.prems(1) scu by simp
  have d: "d = pre @ sc @ u @ annexb us" using Cons.prems(2) scu by simp
  have bb: "bytes_between d (length pre + length sc) (length pre + (length sc + length u)) = u"
    using bytes_between_unit(1) [of pre sc u "annexb us"] d by (simp add: add.assoc)
  have "header_nal d (length pre) (length pre + length sc) (length pre + (length sc + length u)) (filled bs, n) =
      (False, filled (bs @ be32 (word_of_nat (length u)) @ u), n + 4 + length u)"
    using bb by (simp add: header_nal_def run_s_write_filled run_s_wb32_filled)
  moreover have "unit_fold (header_nal d) (length (pre @ sc @ u)) us (filled (bs @ be32 (word_of_nat (length u)) @ u), n + 4 + length u) =
      (filled ((bs @ be32 (word_of_nat (length u)) @ u) @ length_prefixed (map snd us)), n + 4 + length u + length (length_prefixed (map snd us)))"
    using Cons.IH [OF ok, of "pre @ sc @ u"] d by simp
  ultimately show ?case unfolding scu by (simp add: length_prefixed_def add.assoc)
qed

definition record_array :: "byte list list \<Rightarrow> u8 \<Rightarrow> byte list" where
  "record_array us t =
    (if of_type t us = [] then []
     else (if t \<in> {OBS_HEVC_NAL_VPS, OBS_HEVC_NAL_SPS, OBS_HEVC_NAL_PPS} then 0x80 OR t else t) #
       be16 (word_of_nat (length (of_type t us))) @ sized_units (of_type t us))"

lemma write_hvcc_array_run:
  assumes "length us \<le> 65535" and "t \<in> set array_idx_to_type"
  shows "run_state (write_hvcc_array (array_of us t)) (filled bs) = ((), filled (bs @ record_array us t))"
proof -
  have "length (of_type t us) \<le> length us" by (simp add: of_type_def)
  then have "(word_of_nat (length (of_type t us)) :: u16) = 0 \<longleftrightarrow> of_type t us = []"
    using assms(1) by (simp add: word_of_nat_eq_0_iff) (auto dest: dvd_imp_le)
  moreover have "ao_bytes (ser_data (filled ds)) = ds" for ds by (simp add: filled_def)
  ultimately show ?thesis using assms(2)
    by (auto simp: write_hvcc_array_def array_of_def record_array_def run_s_write_filled run_s_wb16_filled run_s_w8_filled
        array_idx_to_type_def hevc_types)
qed

lemma write_hvcc_arrays_run:
  assumes "length us \<le> 65535" and "set ts \<subseteq> set array_idx_to_type"
  shows "run_state (for_each write_hvcc_array (map (array_of us) ts)) (filled bs) = ((), filled (bs @ concat (map (record_array us) ts)))"
  using assms(2) by (induction ts arbitrary: bs) (simp_all add: write_hvcc_array_run [OF assms(1)])

text \<open>The fields in front of the arrays.\<close>

definition hvcc_head :: "HEVCDecoderConfigurationRecord \<Rightarrow> byte list" where
  "hvcc_head h = [1, push_bit 6 (hv_profile_space h) OR push_bit 5 (hv_tier_flag h) OR hv_profile_idc h] @
     be32 (hv_profile_compatibility_flags h) @ be32 (ucast (drop_bit 16 (hv_constraint_indicator_flags h))) @
     be16 (ucast (hv_constraint_indicator_flags h)) @ [hv_level_idc h] @ be16 (hv_min_spatial_segmentation_idc h OR 0xF000) @
     [hv_parallelismType h OR 0xFC, hv_chromaFormat h OR 0xFC, hv_bitDepthLumaMinus8 h OR 0xF8, hv_bitDepthChromaMinus8 h OR 0xF8] @
     be16 (hv_avgFrameRate h) @ [push_bit 6 (hv_constantFrameRate h) OR push_bit 3 (hv_numTemporalLayers h) OR
       push_bit 2 (hv_temporalIdNested h) OR hv_lengthSizeMinusOne h]"

lemma length_hvcc_head [simp]: "length (hvcc_head h) = 22"
  by (simp add: hvcc_head_def)

lemma write_hvcc_run:
  assumes "collected us h" and "length us \<le> 65535"
  shows "run_state (write_hvcc h) (filled []) =
    ((), filled (hvcc_head h @ hv_numOfArrays h # concat (map (record_array us) array_idx_to_type)))"
proof -
  have "run_state (for_each write_hvcc_array (hv_arrays h)) (filled bs) = ((), filled (bs @ concat (map (record_array us) array_idx_to_type)))" for bs
    using write_hvcc_arrays_run [OF assms(2), of array_idx_to_type] assms(1) by (simp add: collected_def)
  then show ?thesis
    by (simp add: write_hvcc_def hvcc_head_def run_s_wb16_filled run_s_w8_filled run_s_wb32_filled)
qed


lemma hvcc_adjust_collected: "collected us (hvcc_adjust h) = collected us h"
  by (simp add: collected_def hvcc_adjust_def Let_def)

text \<open>Streams the parser takes apart, with few and short enough units for its counters.\<close>

definition header_stream :: "(byte list \<times> byte list) list \<Rightarrow> bool" where
  "header_stream us \<longleftrightarrow> stream_ok us \<and> has_start_code (annexb us) \<and> 6 \<le> length (annexb us) \<and>
     length (annexb us) < 2 ^ 31 \<and> length us \<le> 65535"

lemma length_unit_le: "(sc, u) \<in> set us \<Longrightarrow> length u \<le> length (annexb us)"
  by (induction us) auto

lemma header_stream_units:
  assumes "header_stream us"
  shows "list_all (\<lambda>u. u \<noteq> [] \<and> length u < 2 ^ 32) (map snd us)"
  unfolding list_all_iff
proof
  fix u assume "u \<in> set (map snd us)"
  then obtain sc where sc: "(sc, u) \<in> set us" by auto
  have "stream_ok us" "length (annexb us) < 2 ^ 31" using assms by (simp_all add: header_stream_def)
  moreover from this sc have "unit_ok u" by (induction us) auto
  ultimately show "u \<noteq> [] \<and> length u < 2 ^ 32" using length_unit_le [OF sc] by (auto simp: unit_ok_def)
qed

lemma obs_parse_hevc_header_stream:
  assumes "header_stream us"
  shows "obs_parse_hevc_header base (annexb us) =
    (case hvcc_scan (length_prefixed (map snd us)) hvcc_init of
       None \<Rightarrow> None
     | Some None \<Rightarrow> Some (None, length (length_prefixed (map snd us)))
     | Some (Some h) \<Rightarrow>
         if \<not> hvcc_complete (hvcc_adjust h) then Some (None, length (length_prefixed (map snd us)))
         else (let out = ao_bytes (ser_data (snd (run_state (write_hvcc (hvcc_adjust h)) (filled [])))) in Some (Some out, length out)))"
proof -
  have ok: "stream_ok us" "has_start_code (annexb us)" "6 \<le> length (annexb us)" "length (annexb us) < 2 ^ 31"
    using assms by (simp_all add: header_stream_def)
  have init: "array_output_serializer_init = filled []" by (simp add: filled_def array_output_serializer_init_def)
  have "unit_fold (header_nal (annexb us)) 0 us (filled [], 0) =
      (filled (length_prefixed (map snd us)), length (length_prefixed (map snd us)))"
    using header_nal_fold [OF ok(1), of "annexb us" "[]" "[]" 0] by simp
  then have loop: "nal_loop base (annexb us) (header_nal (annexb us)) (obs_nal_find_startcode base (annexb us) 0 (length (annexb us)))
      (filled [], 0) = (filled (length_prefixed (map snd us)), length (length_prefixed (map snd us)))"
    by (simp add: nal_loop_annexb [OF ok(1)])
  have "us \<noteq> []" using ok(3) by auto
  then have "length (length_prefixed (map snd us)) \<noteq> 0" by (cases us) (auto simp: length_prefixed_def)
  moreover have "annexb us ! 0 \<noteq> 1" using ok(2) by (auto simp: has_start_code_def)
  moreover have "ao_bytes (ser_data (filled bs)) = bs" for bs by (simp add: filled_def)
  ultimately show ?thesis
    using ok loop unfolding obs_parse_hevc_header_def init by (simp add: Let_def split: option.split)
qed

lemma header_scan_collected:
  assumes "header_stream us" and "hvcc_scan (length_prefixed (map snd us)) hvcc_init = Some (Some h)"
  shows "collected (map snd us) (hvcc_adjust h)"
proof -
  have "length ([] @ map snd us) \<le> 65535" using assms(1) by (simp add: header_stream_def)
  from hvcc_scan_collected [OF header_stream_units [OF assms(1)] collected_init this assms(2)]
  show ?thesis by (simp add: hvcc_adjust_collected)
qed

definition sets_ok :: "byte list list \<Rightarrow> bool" where
  "sets_ok us \<longleftrightarrow> length (of_type OBS_HEVC_NAL_VPS us) \<in> {1..16} \<and> length (of_type OBS_HEVC_NAL_SPS us) \<in> {1..16} \<and>
     length (of_type OBS_HEVC_NAL_PPS us) \<in> {1..64}"

lemma hvcc_complete_sets:
  assumes "collected us h" and "length us \<le> 65535"
  shows "hvcc_complete h \<longleftrightarrow> sets_ok us"
proof -
  have le: "length (of_type t us) \<le> length us" for t by (simp add: of_type_def)
  have "unat (word_of_nat (length (of_type t us)) :: u16) = length (of_type t us)" for t
    using le [of t] assms(2) by (simp add: unat_of_nat)
  then show ?thesis using assms(1)
    by (auto simp: hvcc_complete_def collected_def array_idx_to_type_def array_of_def sets_ok_def Let_def word_less_nat_alt
        OBS_HEVC_MAX_VPS_COUNT_def OBS_HEVC_MAX_SPS_COUNT_def OBS_HEVC_MAX_PPS_COUNT_def unat_eq_0 [symmetric] Suc_le_eq)
qed

section \<open>Running the reader\<close>

text \<open>The context of a reader at a position is determined by how much it has cached.\<close>

definition hctx :: "byte list \<Rightarrow> nat \<Rightarrow> nat \<Rightarrow> nat \<Rightarrow> HevcGetBitContext" where
  "hctx buf sz idx left = \<lparr>hb_buffer = buf, hb_cache = word_of_nat (bits_at buf (idx - left) left * 2 ^ (64 - left)),
     hb_bits_left = left, hb_index = idx, hb_size_in_bits = sz\<rparr>"

lemma hb_ok_hctx: "hb_ok s \<Longrightarrow> s = hctx (hb_buffer s) (hb_size_in_bits s) (hb_index s) (hb_bits_left s)"
proof -
  assume "hb_ok s"
  then have "word_of_nat (unat (hb_cache s)) = (word_of_nat (bits_at (hb_buffer s) (hb_index s - hb_bits_left s) (hb_bits_left s) * 2 ^ (64 - hb_bits_left s)) :: u64)"
    by (simp only: hb_ok_def hb_pos_def)
  then show ?thesis by (simp add: hctx_def)
qed

lemma hctx_ok:
  assumes "8 dvd idx" and "left \<le> idx" and "left \<le> 63" and "idx \<le> 8 * length buf"
  shows "hb_ok (hctx buf sz idx left)"
proof -
  have "bits_at buf (idx - left) left * 2 ^ (64 - left) < 2 ^ left * 2 ^ (64 - left)" using bits_at_less by simp
  also have "\<dots> = 2 ^ (left + (64 - left))" by (simp only: power_add)
  also have "left + (64 - left) = 64" using assms(3) by simp
  finally have "unat (word_of_nat (bits_at buf (idx - left) left * 2 ^ (64 - left)) :: u64) = bits_at buf (idx - left) left * 2 ^ (64 - left)"
    by (simp only: unat_of_nat) simp
  then show ?thesis using assms by (simp add: hb_ok_def hb_pos_def hctx_def del: of_nat_mult)
qed

definition hb_next :: "nat \<Rightarrow> nat \<Rightarrow> nat \<Rightarrow> nat \<times> nat" where
  "hb_next n idx left = (if left < n then (idx + 32, left + 32 - n) else (idx, left - n))"

lemma get_bits_index:
  assumes "get_bits n s = Some (v, s')"
  shows "(hb_index s', hb_bits_left s') = hb_next n (hb_index s) (hb_bits_left s)"
  using assms by (auto simp: get_bits_def get_val_def refill_32_def hb_next_def bind_eq_Some_conv split: if_splits)

lemma get_bits_hctx:
  assumes "0 < n" and "n \<le> 32" and "8 dvd idx" and "left \<le> idx" and "left \<le> 32" and "idx + 64 \<le> 8 * length buf"
  shows "get_bits n (hctx buf sz idx left) = Some (word_of_nat (bits_at buf (idx - left) n),
    case hb_next n idx left of (i, l) \<Rightarrow> hctx buf sz i l)"
proof -
  let ?s = "hctx buf sz idx left"
  have f: "hb_pos ?s = idx - left" "hb_buffer ?s = buf" "hb_index ?s = idx" "hb_bits_left ?s = left" "hb_size_in_bits ?s = sz"
    by (simp_all add: hctx_def hb_pos_def)
  have avail: "hb_pos ?s + n + 32 \<le> 8 * length (hb_buffer ?s)" unfolding f using assms(2,4,6) by linarith
  have ok: "hb_ok ?s" using assms by (intro hctx_ok) simp_all
  obtain s' where s': "get_bits n ?s = Some (word_of_nat (bits_at buf (idx - left) n), s')" "hb_ok s'" "hb_buffer s' = buf" "hb_size_in_bits s' = sz"
    using get_bits_ok [OF ok assms(1,2) avail] f by auto
  have "(hb_index s', hb_bits_left s') = hb_next n idx left" using get_bits_index [OF s'(1)] f by simp
  then have "s' = (case hb_next n idx left of (i, l) \<Rightarrow> hctx buf sz i l)"
    using hb_ok_hctx [OF s'(2)] s'(3,4) by (auto split: prod.split)
  then show ?thesis using s'(1) by simp
qed

lemma skip_bits_hctx:
  assumes "0 < n" and "n \<le> 32" and "8 dvd idx" and "left \<le> idx" and "left \<le> 32" and "idx + 64 \<le> 8 * length buf"
  shows "skip_bits n (hctx buf sz idx left) = Some (case hb_next n idx left of (i, l) \<Rightarrow> hctx buf sz i l)"
  using get_bits_hctx [OF assms] by (simp add: skip_bits_def)

lemma get_ue_hctx:
  assumes "8 dvd idx" and "left \<le> idx" and "left \<le> 32" and "idx + 64 \<le> 8 * length buf"
    and "bit (buf ! ((idx - left) div 8)) (7 - (idx - left) mod 8)"
  shows "get_ue_golomb_long (hctx buf sz idx left) = Some (0, case hb_next 1 idx left of (i, l) \<Rightarrow> hctx buf sz i l)"
proof -
  let ?s = "hctx buf sz idx left" and ?p = "idx - left"
  have one: "bits_at buf ?p 1 = 1" using bits_at_Suc [of ?p 0 buf] assms by simp
  have "2 ^ 31 \<le> bits_at buf ?p 32" using golomb_prefix [of 0 1 buf ?p] one assms(4) by simp
  then have "ilog2 (word_of_nat (bits_at buf ?p 32)) = 31"
    using bits_at_less [of buf ?p 32] by (intro ilog2_log) (simp_all add: unat_of_bits_at)
  then show ?thesis
    using get_bits_hctx [of 32 idx left buf sz] get_bits_hctx [of 1 idx left buf sz] assms one
    by (simp add: get_ue_golomb_long_def show_bits_long_def get_bits_long_def skip_bits_long_def)
qed

lemma bits_at_1: "i < 8 * length buf \<Longrightarrow> bits_at buf i (Suc 0) = of_bool (bit (buf ! (i div 8)) (7 - i mod 8))"
  using bits_at_Suc [of i 0 buf] by simp


lemma init_hctx:
  assumes "8 \<le> length buf" and "n \<le> 1000"
  shows "init_get_bits8 buf n = Some (hctx buf (n * 8) 32 32)"
proof -
  obtain s where s: "init_get_bits8 buf n = Some s" using init_get_bits8_ok [of buf n] assms by auto
  then have "hb_ok s" "hb_buffer s = buf" using init_get_bits8_Some [OF s] assms by simp_all
  moreover have "hb_index s = 32" "hb_bits_left s = 32" "hb_size_in_bits s = n * 8"
    using s assms by (auto simp: init_get_bits8_def refill_32_def)
  ultimately show ?thesis using s hb_ok_hctx [of s] by simp
qed

lemma bits_at_3: "i + 2 < 8 * length buf \<Longrightarrow> bits_at buf i 3 =
    4 * bits_at buf i (Suc 0) + 2 * bits_at buf (i + 1) (Suc 0) + bits_at buf (i + 2) (Suc 0)"
  by (simp add: numeral_3_eq_3 bits_at_Suc bits_at_1)

lemma repeat_read_numeral: "repeat_read (numeral k) f gb = do { gb \<leftarrow> f gb; repeat_read (pred_numeral k) f gb }"
  by (simp add: numeral_eq_Suc)

lemmas reader_run = repeat_read_numeral get_bits_hctx skip_bits_hctx get_ue_hctx hb_next_def get_bits_long_def skip_bits_long_def get_bits64_def
  bits_at_3 bits_at_1 bits_at_Cons_byte skip_ue_def skip_se_def get_se_golomb_long_def when_flag_def bit_numeral_word_iff
  drop_bit_eq_div take_bit_eq_mod

definition sample_vps :: "byte list" where
  "sample_vps = [0x40, 1, 0xFF, 0xF1, 0xFF, 0xFF, 0xFF, 0xFF, 0xFF, 0xFF, 0xFF, 0xFF, 0xFF, 0xFF, 0xFF, 0xFF, 0xFF, 0xFF, 0x80]"

definition sample_sps :: "byte list" where
  "sample_sps = [0x42, 1, 0xF1, 0xFF, 0xFF, 0xFF, 0xFF, 0xFF, 0xFF, 0xFF, 0xFF, 0xFF, 0xFF, 0xFF, 0xFF, 0xF7, 0x7F, 0xDA, 0xD0]"

definition sample_pps :: "byte list" where
  "sample_pps = [0x44, 1, 0xFF, 0xFD, 0xF9]"

lemma sample_vps_parses: "\<exists>h'. hvcc_add_nal_unit sample_vps 1 h 0 = Some (Some h')"
  by (simp add: hvcc_add_nal_unit_def ff_nal_unit_extract_rbsp_def sample_vps_def init_hctx nal_unit_parse_header_def
      hvcc_parse_unit_def hevc_types hvcc_parse_vps_def hvcc_parse_ptl_def reader_run Let_def)

lemma sample_sps_parses: "\<exists>h'. hvcc_add_nal_unit sample_sps 1 h 1 = Some (Some h')"
  by (simp add: hvcc_add_nal_unit_def ff_nal_unit_extract_rbsp_def sample_sps_def init_hctx nal_unit_parse_header_def
      hvcc_parse_unit_def hevc_types hvcc_parse_sps_def parse_sps_format_def skip_sps_tools_def parse_ref_pics_def
      hvcc_parse_ptl_def HEVC_MAX_SHORT_TERM_REF_PIC_SETS_def reader_run Let_def)

lemma sample_pps_parses: "\<exists>h'. hvcc_add_nal_unit sample_pps 1 h 2 = Some (Some h')"
  by (simp add: hvcc_add_nal_unit_def ff_nal_unit_extract_rbsp_def sample_pps_def init_hctx nal_unit_parse_header_def
      hvcc_parse_unit_def hevc_types hvcc_parse_pps_def reader_run Let_def)

section \<open>Properties of the record\<close>

text \<open>
  C24. When the parser makes a record from a stream, the record is version 1 with 22 bytes of
  fields, then the number of arrays, then for each of the five kinds of unit that occur an array
  with all units of that kind, in stream order, each behind its length and byte for byte; no other
  unit is in it.
\<close>

theorem hevc_header_record:
  assumes "header_stream us" and "obs_parse_hevc_header base (annexb us) = Some (Some out, n)"
  shows "\<exists>h. n = length out \<and>
    out = hvcc_head h @ word_of_nat (length (filter (\<lambda>t. of_type t (map snd us) \<noteq> []) array_idx_to_type)) #
      concat (map (record_array (map snd us)) array_idx_to_type)"
proof -
  from assms(2) obtain h where h: "hvcc_scan (length_prefixed (map snd us)) hvcc_init = Some (Some h)"
    and out: "out = ao_bytes (ser_data (snd (run_state (write_hvcc (hvcc_adjust h)) (filled []))))" "n = length out"
    unfolding obs_parse_hevc_header_stream [OF assms(1)] by (auto simp: Let_def split: option.splits if_splits)
  have c: "collected (map snd us) (hvcc_adjust h)" by (rule header_scan_collected [OF assms(1) h])
  moreover have "length (map snd us) \<le> 65535" using assms(1) by (simp add: header_stream_def)
  ultimately show ?thesis using out write_hvcc_run [OF c] by (auto simp: collected_def filled_def)
qed

definition sample_hevc_header :: "(byte list \<times> byte list) list" where
  "sample_hevc_header = [([0, 0, 0, 1], sample_vps), ([0, 0, 0, 1], sample_sps), ([0, 0, 1], sample_pps)]"

lemma sample_hevc_header_ok: "header_stream sample_hevc_header"
proof -
  have "unit_ok sample_vps" "unit_ok sample_sps" "unit_ok sample_pps"
    by (auto simp: unit_ok_def is_startcode_def sample_vps_def sample_sps_def sample_pps_def less_Suc_eq)
  then show ?thesis
    by (simp add: header_stream_def sample_hevc_header_def start_code_def has_start_code_def sample_vps_def sample_sps_def sample_pps_def)
qed


theorem hevc_header_record_witness:
  "\<exists>out n h. obs_parse_hevc_header 0 (annexb sample_hevc_header) = Some (Some out, n) \<and> n = length out \<and>
    out = hvcc_head h @ 3 # ([0xA0] @ be16 1 @ be16 19 @ sample_vps) @ ([0xA1] @ be16 1 @ be16 19 @ sample_sps) @
      ([0xA2] @ be16 1 @ be16 5 @ sample_pps)"
proof -
  let ?us = "map snd sample_hevc_header"
  have us: "?us = [sample_vps, sample_sps, sample_pps]" by (simp add: sample_hevc_header_def)
  have ty: "unit_type sample_vps = 32" "unit_type sample_sps = 33" "unit_type sample_pps = 34"
    by (simp_all add: unit_type_def sample_vps_def sample_sps_def sample_pps_def drop_bit_eq_div)
  have ne: "sample_vps \<noteq> []" "sample_sps \<noteq> []" "sample_pps \<noteq> []" and
    len: "length sample_vps = 19" "length sample_sps = 19" "length sample_pps = 5"
    by (simp_all add: sample_vps_def sample_sps_def sample_pps_def)
  have idx: "array_index array_idx_to_type 32 0 = Some 0" "array_index array_idx_to_type 33 0 = Some 1"
    "array_index array_idx_to_type 34 0 = Some 2" by (simp_all add: array_idx_to_type_def hevc_types)
  obtain h1 where h1: "hvcc_add_nal_unit sample_vps 1 hvcc_init 0 = Some (Some h1)" using sample_vps_parses by blast
  obtain h2 where h2: "hvcc_add_nal_unit sample_sps 1 h1 1 = Some (Some h2)" using sample_sps_parses by blast
  obtain h3 where h3: "hvcc_add_nal_unit sample_pps 1 h2 2 = Some (Some h3)" using sample_pps_parses by blast
  have scan: "hvcc_scan (length_prefixed ?us) hvcc_init = Some (Some h3)"
    unfolding us using h1 h2 h3 by (simp add: hvcc_scan_step ne len ty idx) (simp add: length_prefixed_def hvcc_scan.simps)
  have "sets_ok ?us" unfolding us by (simp add: sets_ok_def of_type_def ty hevc_types)
  moreover have "collected ?us (hvcc_adjust h3)" by (rule header_scan_collected [OF sample_hevc_header_ok scan])
  ultimately have "hvcc_complete (hvcc_adjust h3)" using hvcc_complete_sets [of ?us] us by simp
  then obtain out n where out: "obs_parse_hevc_header 0 (annexb sample_hevc_header) = Some (Some out, n)"
    using obs_parse_hevc_header_stream [OF sample_hevc_header_ok, of 0] scan by (auto simp: Let_def)
  from hevc_header_record [OF sample_hevc_header_ok this] obtain h where "n = length out"
    "out = hvcc_head h @ word_of_nat (length (filter (\<lambda>t. of_type t ?us \<noteq> []) array_idx_to_type)) #
      concat (map (record_array ?us) array_idx_to_type)" by blast
  then show ?thesis using out unfolding us
    by (intro exI [of _ out] exI [of _ n] exI [of _ h])
      (simp add: array_idx_to_type_def record_array_def of_type_def ty hevc_types sized_units_def len)
qed

text \<open>
  A stream without a video, sequence or picture parameter set, or with too many, gives no
  record, yet the returned size is not 0 but the size of the collected units: a caller that takes
  the size for the length of the header copies from a pointer that was never set.
\<close>

theorem hevc_header_incomplete:
  assumes "header_stream us" and "\<not> sets_ok (map snd us)"
  shows "obs_parse_hevc_header base (annexb us) \<in> {None, Some (None, length (length_prefixed (map snd us)))} \<and>
    0 < length (length_prefixed (map snd us))"
proof
  have "\<not> hvcc_complete (hvcc_adjust h)" if "hvcc_scan (length_prefixed (map snd us)) hvcc_init = Some (Some h)" for h
    using hvcc_complete_sets [OF header_scan_collected [OF assms(1) that]] assms by (auto simp: header_stream_def)
  then show "obs_parse_hevc_header base (annexb us) \<in> {None, Some (None, length (length_prefixed (map snd us)))}"
    unfolding obs_parse_hevc_header_stream [OF assms(1)] by (auto split: option.split)
  have "us \<noteq> []" using assms(1) by (auto simp: header_stream_def)
  then show "0 < length (length_prefixed (map snd us))" by (cases us) (auto simp: length_prefixed_def)
qed

theorem hevc_header_incomplete_witness:
  "obs_parse_hevc_header 0 (annexb [([0, 0, 0, 1], [0x26, 1, 9])]) \<in> {None, Some (None, 7)}"
proof -
  let ?us = "[([0, 0, 0, 1], [0x26, 1, 9])] :: (byte list \<times> byte list) list"
  have "header_stream ?us"
    by (simp add: header_stream_def start_code_def has_start_code_def unit_ok_def is_startcode_def)
  moreover have "\<not> sets_ok (map snd ?us)" by (simp add: sets_ok_def of_type_def unit_type_def hevc_types drop_bit_eq_div)
  ultimately show ?thesis using hevc_header_incomplete [of ?us 0] by (simp add: length_prefixed_def)
qed

end
