(* ===== verification/Mp4_Box.thy ===== *)
theory Mp4_Box
  imports Deque Avc
begin

text \<open>
  The data model of the MP4/MOV muxer (\<open>plugins/obs-outputs/mp4-mux-internal.h\<close>,
  \<open>mp4-mux.h\<close>), the three helpers every box writer of \<open>mp4-mux.c\<close> is built from, and the
  logic used to show that a writer emits a well-formed box.

  A box is a big-endian 32-bit size (which includes the header), a four-character type and a
  payload.  Most writers first emit a size of zero, then the payload, and finally seek back
  and overwrite the size (\<open>write_box_size\<close>); the others compute their size in advance.  The
  judgements \<open>emits_shapes\<close>, \<open>box_tail\<close> and \<open>emits_len\<close> cover both styles, over any
  serializer that keeps the contract \<open>output_serializer\<close>.
\<close>

section \<open>Data model\<close>

datatype mp4_flavor = FLAVOR_MP4 | FLAVOR_MOV | FLAVOR_CMAF

text \<open>The bits of \<open>enum mp4_mux_flags\<close>.\<close>

record mp4_mux_flags =
  MP4_USE_MDTA_KEY_VALUE :: bool
  MP4_WRITE_ENCODER_INFO :: bool
  MP4_SKIP_FINALISATION :: bool
  MP4_USE_NEGATIVE_CTS :: bool

datatype mp4_track_type = TRACK_UNKNOWN | TRACK_VIDEO | TRACK_AUDIO | TRACK_CHAPTERS

datatype mp4_codec = CODEC_UNKNOWN | CODEC_H264 | CODEC_HEVC | CODEC_AV1 | CODEC_PRORES
  | CODEC_AAC | CODEC_OPUS | CODEC_FLAC | CODEC_ALAC | CODEC_PCM_I16 | CODEC_PCM_I24
  | CODEC_PCM_F32 | CODEC_TEXT

record chunk =
  ch_offset :: u64
  ch_size :: u32
  ch_samples :: u32

record sample_delta =
  sd_count :: u32
  sd_delta :: u32

record sample_offset =
  so_count :: u32
  so_offset :: s32

record fragment_sample =
  fs_size :: u32
  fs_offset :: s32
  fs_duration :: u32

record mp4_track =
  t_type :: mp4_track_type
  t_codec :: mp4_codec
  t_track_id :: u8
  t_samples :: u64
  t_duration :: u64
  t_encoder :: "obs_encoder option"
  t_timebase_num :: u32
  t_timebase_den :: u32
  t_timescale :: u32
  t_first_pts :: s64
  t_last_pts_usec :: s64
  t_packets :: "encoder_packet deque"
  t_sample_size :: u32
  t_sample_sizes :: "u32 list"
  t_chunks :: "chunk list"
  t_deltas :: "sample_delta list"
  t_needs_ctts :: bool
  t_dts_offset :: s32
  t_offsets :: "sample_offset list"
  t_sync_samples :: "u32 list"
  t_fragment_samples :: "fragment_sample list"

text \<open>
  The muxer without its serializer, which the box writers receive as their state and the
  fragment writer passes explicitly.  The chapter track, when there is one, is a track.
\<close>

record mp4_mux =
  m_flavor :: mp4_flavor
  m_flags :: mp4_mux_flags
  m_fragments_written :: u32
  m_next_frag_pts :: s64
  m_creation_time :: u64
  m_placeholder_offset :: nat
  m_track_ctr :: u8
  m_tracks :: "mp4_track list"
  m_chapter_track :: "mp4_track option"

text \<open>
  What the muxer takes from the rest of the program: the version string, the HDR nominal
  peak level (truncated to an integer), the text of the start chapter, the address at which
  a buffer lies (the start-code scanner looks at its alignment), what an uninitialised
  packet structure holds, and the bytes a header parser leaves where the language does not
  define its behaviour.
\<close>

record mp4_env =
  env_version_string :: string
  env_nominal_peak :: u32
  env_start_chapter :: string
  env_addr :: "byte list \<Rightarrow> nat"
  env_uninit :: encoder_packet
  env_undef :: "byte list \<Rightarrow> byte list"

definition UINT32_MAX :: nat where
  "UINT32_MAX = 4294967295"

section \<open>Box helpers\<close>

definition write_box_size :: "int \<Rightarrow> ('s serializer, nat) state" where
  "write_box_size start = do {
     fin \<leftarrow> serializer_get_pos;
     let sz = nat (fin - start);
     serializer_seek start SERIALIZE_SEEK_START;
     s_wb32 (word_of_nat sz);
     serializer_seek fin SERIALIZE_SEEK_START;
     State_Monad.return sz }"

definition write_box :: "nat \<Rightarrow> string \<Rightarrow> ('s serializer, unit) state" where
  "write_box sz name =
    (if sz \<le> UINT32_MAX then do {
       s_wb32 (word_of_nat sz);
       s_write (take 4 (bytes_of_string name));
       State_Monad.return () }
     else do {
       s_wb32 1;
       s_write (take 4 (bytes_of_string name));
       s_wb64 (word_of_nat sz) })"

definition write_fullbox :: "nat \<Rightarrow> string \<Rightarrow> u8 \<Rightarrow> u32 \<Rightarrow> ('s serializer, unit) state" where
  "write_fullbox sz name version flags = do {
     write_box sz name;
     s_w8 version;
     s_wb24 flags }"

section \<open>Boxes as byte strings, and their nesting\<close>

definition fourcc :: "string \<Rightarrow> byte list" where
  "fourcc name = take 4 (bytes_of_string name)"

definition mkbox :: "string \<Rightarrow> byte list \<Rightarrow> byte list" where
  "mkbox name body = be32 (word_of_nat (8 + length body)) @ fourcc name @ body"

text \<open>
  The nesting of a box: \<open>Node n shs\<close> is a box of type \<open>n\<close> whose payload is some header
  bytes followed by exactly the boxes \<open>shs\<close>; \<open>Node n []\<close> is a box whose payload is opaque.
\<close>

datatype shape = Node string "shape list"

abbreviation Leaf :: "string \<Rightarrow> shape" where
  "Leaf n \<equiv> Node n []"

inductive has_shape :: "shape \<Rightarrow> byte list \<Rightarrow> bool" where
  nodeI: "list_all2 has_shape shs chunks \<Longrightarrow> has_shape (Node n shs) (mkbox n (hdr @ concat chunks))"
monos list_all2_mono

inductive_cases nodeE: "has_shape (Node n shs) bs"

lemma leafI: "has_shape (Leaf n) (mkbox n body)"
  using nodeI [of "[]" "[]" n body] by simp

text \<open>A reader for one box and for a sequence of boxes.\<close>

definition parse_box :: "byte list \<Rightarrow> (byte list \<times> byte list \<times> byte list) option" where
  "parse_box bs =
    (if length bs < 8 then None
     else
       (let sz32 = from_be (take 4 bs); name = take 4 (drop 4 bs);
            hl = (if sz32 = 1 then 16 else 8);
            sz = (if sz32 = 1 then from_be (take 8 (drop 8 bs)) else sz32)
        in if sz < hl \<or> length bs < sz then None
           else Some (name, take (sz - hl) (drop hl bs), drop sz bs)))"

fun parse_boxes :: "nat \<Rightarrow> byte list \<Rightarrow> (byte list \<times> byte list) list option" where
  "parse_boxes fuel bs =
    (if bs = [] then Some []
     else (case fuel of
         0 \<Rightarrow> None
       | Suc k \<Rightarrow>
           (case parse_box bs of
              None \<Rightarrow> None
            | Some (n, body, rest) \<Rightarrow> map_option (Cons (n, body)) (parse_boxes k rest))))"

declare parse_boxes.simps [simp del]

lemma length_fourcc [simp]: "length (fourcc n) = min 4 (length n)"
  by (simp add: fourcc_def)

lemma length_mkbox: "length n = 4 \<Longrightarrow> length (mkbox n body) = 8 + length body"
  by (simp add: mkbox_def)

lemma parse_box_mkbox:
  assumes "length n = 4" and "8 + length body < 2 ^ 32"
  shows "parse_box (mkbox n body @ rest) = Some (fourcc n, body, rest)"
proof -
  have "from_be (be32 (word_of_nat (8 + length body))) = 8 + length body"
    by (rule from_be_be32_of_nat) (fact assms(2))
  then show ?thesis
    using assms by (simp add: parse_box_def mkbox_def Let_def)
qed

text \<open>A 64-bit box, as used for media data beyond 4 GiB.\<close>

definition mkbox64 :: "string \<Rightarrow> byte list \<Rightarrow> byte list" where
  "mkbox64 name body = be32 1 @ fourcc name @ be64 (word_of_nat (16 + length body)) @ body"

lemma parse_box_mkbox64:
  assumes "length n = 4" and "16 + length body < 2 ^ 64"
  shows "parse_box (mkbox64 n body @ rest) = Some (fourcc n, body, rest)"
proof -
  have "from_be (be64 (word_of_nat (16 + length body))) = 16 + length body"
    by (rule from_be_be64_of_nat) (fact assms(2))
  moreover have "from_be (be32 1) = 1" by (simp add: from_be_be32)
  ultimately show ?thesis
    using assms by (simp add: parse_box_def mkbox64_def Let_def)
qed

lemma parse_boxes_Nil [simp]: "parse_boxes k [] = Some []"
  by (simp add: parse_boxes.simps)

lemma parse_boxes_Cons:
  "parse_box bs = Some (n, body, rest) \<Longrightarrow>
    parse_boxes (Suc k) bs = map_option (Cons (n, body)) (parse_boxes k rest)"
  by (subst parse_boxes.simps) (auto simp: parse_box_def)

section \<open>A logic for box writers\<close>

context output_serializer
begin

text \<open>Plain writes, also where the cursor is not at the reported position.\<close>

definition puts :: "('s serializer, 'a) state \<Rightarrow> byte list \<Rightarrow> 'a \<Rightarrow> bool" where
  "puts m d r \<longleftrightarrow> (\<forall>s. valid s \<and> cursor s \<le> length (content s) \<longrightarrow>
     (\<exists>s'. run_state m s = (r, s') \<and> valid s' \<and>
        content s' = write_at (content s) (cursor s) d \<and> cursor s' = cursor s + length d))"

lemma puts_bind:
  assumes "puts m as a" and "puts (f a) bs b"
  shows "puts (m \<bind> f) (as @ bs) b"
  unfolding puts_def
proof (intro allI impI)
  fix s assume s: "valid s \<and> cursor s \<le> length (content s)"
  obtain s1 where 1: "run_state m s = (a, s1)" "valid s1" "content s1 = write_at (content s) (cursor s) as"
    "cursor s1 = cursor s + length as"
    using assms(1) s unfolding puts_def by blast
  have "cursor s1 \<le> length (content s1)" using 1 s by (simp add: length_write_at)
  then obtain s2 where "run_state (f a) s1 = (b, s2)" "valid s2"
    "content s2 = write_at (content s1) (cursor s1) bs" "cursor s2 = cursor s1 + length bs"
    using assms(2) 1 unfolding puts_def by blast
  then show "\<exists>s'. run_state (m \<bind> f) s = (b, s') \<and> valid s' \<and>
      content s' = write_at (content s) (cursor s) (as @ bs) \<and> cursor s' = cursor s + length (as @ bs)"
    using 1 s by (simp add: write_at_append)
qed

lemma puts_s_w8: "puts (s_w8 w) [w] ()"
proof -
  have "puts (s_write [w]) [w] (length [w])"
    unfolding puts_def using write_law by blast
  then have "puts (s_write [w] \<bind> (\<lambda>_. State_Monad.return ())) ([w] @ []) ()"
    by (rule puts_bind) (simp add: puts_def)
  then show ?thesis by (simp add: s_w8_def)
qed

lemma puts_s_wb16: "puts (s_wb16 w) (be16 w) ()"
  using puts_bind [OF puts_s_w8 puts_s_w8] unfolding s_wb16_def be16_def by simp

lemma puts_s_wb32: "puts (s_wb32 w) (be32 w) ()"
  using puts_bind [OF puts_s_wb16 puts_s_wb16] unfolding s_wb32_def be32_def by simp

text \<open>
  \<open>finishes p acc m bs r\<close>: with \<open>acc\<close> stored from position \<open>p\<close> on, \<open>m\<close> completes this
  to \<open>bs\<close> and returns \<open>r\<close>.
\<close>

definition finishes :: "nat \<Rightarrow> byte list \<Rightarrow> ('s serializer, 'a) state \<Rightarrow> byte list \<Rightarrow> 'a \<Rightarrow> bool" where
  "finishes p acc m bs r \<longleftrightarrow> length acc \<le> length bs \<and>
     (\<forall>s0 s. ready s0 \<and> cursor s0 = p \<and> stored s0 acc s \<longrightarrow>
        (\<exists>s'. run_state m s = (r, s') \<and> stored s0 bs s'))"

lemma finishes_bind:
  assumes "emits m b x" and "finishes p (acc @ b) (f x) bs r"
  shows "finishes p acc (m \<bind> f) bs r"
  unfolding finishes_def
proof (intro conjI allI impI)
  show "length acc \<le> length bs" using assms(2) by (simp add: finishes_def)
next
  fix s0 s assume s: "ready s0 \<and> cursor s0 = p \<and> stored s0 acc s"
  have "ready s"
    using s assms(2) by (auto simp: stored_def finishes_def)
  with emitsD [OF assms(1)] obtain s1 where 1: "run_state m s = (x, s1)" "stored s b s1" by blast
  then have "stored s0 (acc @ b) s1" using s stored_trans by blast
  then show "\<exists>s'. run_state (m \<bind> f) s = (r, s') \<and> stored s0 bs s'"
    using assms(2) s 1 by (auto simp: finishes_def)
qed

lemma finishes_emits: "emits m b r \<Longrightarrow> finishes p acc m (acc @ b) r"
  using finishes_bind [of m b r p acc State_Monad.return "acc @ b" r]
  by (simp add: finishes_def)

text \<open>
  Overwriting four bytes at an earlier position and coming back, as every size or count
  placeholder is filled in.
\<close>

lemma finishes_patch:
  assumes "k + 4 \<le> length acc" and "finishes p (write_at acc k (be32 w)) m bs r"
  shows "finishes p acc (do { serializer_seek (int (p + k)) SERIALIZE_SEEK_START; s_wb32 w;
    serializer_seek (int (p + length acc)) SERIALIZE_SEEK_START; m }) bs r"
  unfolding finishes_def
proof (intro conjI allI impI)
  have lw: "length (write_at acc k (be32 w)) = length acc" using assms(1) by (simp add: length_write_at)
  then show "length acc \<le> length bs" using assms(2) by (simp add: finishes_def)
  fix s0 s assume s: "ready s0 \<and> cursor s0 = p \<and> stored s0 acc s"
  then have v: "valid s" and cur: "cursor s = p + length acc"
    and cs: "content s = write_at (content s0) p acc" and p0: "p \<le> length (content s0)"
    by (auto simp: stored_def ready_def settled_le)
  have len: "length (content s) = max (length (content s0)) (p + length acc)"
    using cs p0 by (simp add: length_write_at)
  have pk: "p + k \<le> length (content s)" using len assms(1) by simp_all
  obtain s1 where 1: "run_state (serializer_seek (int (p + k)) SERIALIZE_SEEK_START) s = (int (p + k), s1)"
    "valid s1" "content s1 = content s" "cursor s1 = p + k"
    using seek_law [OF v, of "p + k"] pk by auto
  obtain s2 where 2: "run_state (s_wb32 w) s1 = ((), s2)" "valid s2"
    "content s2 = write_at (content s1) (p + k) (be32 w)" "cursor s2 = p + k + 4"
    using puts_s_wb32 [of w] 1 len assms(1) unfolding puts_def by auto
  have cs2: "content s2 = write_at (content s0) p (write_at acc k (be32 w))"
    using 2(3) 1(3) cs p0 assms(1) by (simp add: write_at_def min_def add.assoc)
  have "p + length acc \<le> length (content s2)" using cs2 p0 lw by (simp add: length_write_at)
  then obtain s3 where 3: "run_state (serializer_seek (int (p + length acc)) SERIALIZE_SEEK_START) s2 =
      (int (p + length acc), s3)" "valid s3" "content s3 = content s2" "cursor s3 = p + length acc"
    using seek_law [OF 2(2), of "p + length acc"] by auto
  have "stored s0 (write_at acc k (be32 w)) s3"
    using s 3 cs2 lw by (intro storedI) auto
  then obtain s' where "run_state m s3 = (r, s')" "stored s0 bs s'"
    using assms(2) s unfolding finishes_def by blast
  then show "\<exists>s'. run_state (do { serializer_seek (int (p + k)) SERIALIZE_SEEK_START; s_wb32 w;
    serializer_seek (int (p + length acc)) SERIALIZE_SEEK_START; m }) s = (r, s') \<and> stored s0 bs s'"
    using 1(1) 2(1) 3(1) by simp
qed

lemma finishes_get_pos:
  assumes "finishes p acc (f (int (p + length acc))) bs r"
  shows "finishes p acc (serializer_get_pos \<bind> f) bs r"
  unfolding finishes_def
proof (intro conjI allI impI)
  show "length acc \<le> length bs" using assms by (simp add: finishes_def)
  fix s0 s assume s: "ready s0 \<and> cursor s0 = p \<and> stored s0 acc s"
  then have "run_state serializer_get_pos s = (int (p + length acc), s)"
    using get_pos_law [of s] by (auto simp: stored_def ready_def)
  then show "\<exists>s'. run_state (serializer_get_pos \<bind> f) s = (r, s') \<and> stored s0 bs s'"
    using assms s by (auto simp: finishes_def)
qed

lemma finishes_return: "finishes p acc (State_Monad.return r) acc r"
  by (auto simp: finishes_def)

lemma finishes_map: "finishes p acc m bs r \<Longrightarrow> finishes p acc (m \<bind> (\<lambda>x. State_Monad.return (g x))) bs (g r)"
  unfolding finishes_def by fastforce

lemmas finishes_then_return = finishes_map [where g = "\<lambda>_. x" for x]

lemmas finishes_pair = finishes_map [where g = "\<lambda>x. (x, y)" for y]

lemma finishes_write_box_size:
  assumes "4 \<le> length acc"
  shows "finishes p acc (write_box_size (int p)) (be32 (word_of_nat (length acc)) @ drop 4 acc) (length acc)"
proof -
  have "nat (int (p + length acc) - int p) = length acc" by simp
  moreover have "write_at acc 0 (be32 (word_of_nat (length acc))) = be32 (word_of_nat (length acc)) @ drop 4 acc"
    by (simp add: write_at_def)
  ultimately show ?thesis
    unfolding write_box_size_def Let_def
    using finishes_patch [of 0 acc p "word_of_nat (length acc)" "State_Monad.return (length acc)", OF _ finishes_return] assms
    by (intro finishes_get_pos) simp
qed

lemma emits_from_pos:
  assumes "\<And>p. finishes p [] (f (int p)) bs r"
  shows "emits (serializer_get_pos \<bind> f) bs r"
  unfolding emits_def
proof (intro allI impI)
  fix s assume s: "ready s"
  have "stored s [] s" using s by (simp add: stored_def)
  then show "\<exists>s'. run_state (serializer_get_pos \<bind> f) s = (r, s') \<and> stored s bs s'"
    using assms [of "cursor s"] s get_pos_law [of s]
    by (auto simp: finishes_def ready_def)
qed

lemma emits_write_box:
  assumes "sz \<le> UINT32_MAX"
  shows "emits (write_box sz n) (be32 (word_of_nat sz) @ fourcc n) ()"
proof -
  have "emits (do { s_wb32 (word_of_nat sz); s_write (fourcc n); State_Monad.return () })
      (be32 (word_of_nat sz) @ fourcc n @ []) ()"
    by (rule emit_intros)+
  then show ?thesis using assms by (simp add: write_box_def fourcc_def)
qed

lemma emits_write_fullbox:
  assumes "sz \<le> UINT32_MAX"
  shows "emits (write_fullbox sz n v fl) (be32 (word_of_nat sz) @ fourcc n @ [v] @ be24 fl) ()"
  using emits_then [OF emits_write_box [OF assms] emits_then [OF emits_s_w8 emits_s_wb24]]
  by (simp add: write_fullbox_def)

text \<open>Boxes whose bytes are known exactly.\<close>

lemma finishes_size:
  assumes "acc = be32 z @ fourcc n @ body" and "4 \<le> length n" and "bs = mkbox n body" and "r = length bs"
  shows "finishes p acc (write_box_size (int p)) bs r"
proof -
  have "be32 (word_of_nat (length acc)) @ drop 4 acc = bs" "length acc = r" "4 \<le> length acc"
    using assms by (simp_all add: mkbox_def ac_simps)
  then show ?thesis using finishes_write_box_size [of acc p] by simp
qed

lemma emits_box:
  assumes "\<And>p. finishes p (be32 0 @ fourcc n) (f (int p)) bs r"
  shows "emits (serializer_get_pos \<bind> (\<lambda>st. write_box 0 n \<bind> (\<lambda>_. f st))) bs r"
proof (rule emits_from_pos)
  show "finishes p [] (write_box 0 n \<bind> (\<lambda>_. f (int p))) bs r" for p
    by (rule finishes_bind [OF emits_write_box]) (use assms in simp_all)
qed

lemma emits_fullbox:
  assumes "\<And>p. finishes p (be32 0 @ fourcc n @ [v] @ be24 fl) (f (int p)) bs r"
  shows "emits (serializer_get_pos \<bind> (\<lambda>st. write_fullbox 0 n v fl \<bind> (\<lambda>_. f st))) bs r"
proof (rule emits_from_pos)
  show "finishes p [] (write_fullbox 0 n v fl \<bind> (\<lambda>_. f (int p))) bs r" for p
    by (rule finishes_bind [OF emits_write_fullbox]) (use assms in simp_all)
qed

lemma emits_option:
  "(\<And>x. emits (f x) (g x) (h x)) \<Longrightarrow> emits m bs r \<Longrightarrow>
    emits (case y of Some x \<Rightarrow> f x | None \<Rightarrow> m) (case y of Some x \<Rightarrow> g x | None \<Rightarrow> bs)
      (case y of Some x \<Rightarrow> h x | None \<Rightarrow> r)"
  by (simp split: option.split)

lemma emits_fixed_fullbox:
  assumes "emits m body r" and "sz \<le> UINT32_MAX" and "(word_of_nat sz :: u32) = word_of_nat (12 + length body)"
  shows "emits (write_fullbox sz n v fl \<bind> (\<lambda>_. m)) (mkbox n ([v] @ be24 fl @ body)) r"
  using emits_then [OF emits_write_fullbox [OF assms(2)] assms(1), of n v fl] assms(3)
  by (simp add: mkbox_def)

text \<open>Programs that store something, of a known length or not.\<close>

definition emits_len :: "('s serializer, 'a) state \<Rightarrow> nat \<Rightarrow> 'a \<Rightarrow> bool" where
  "emits_len m k r \<longleftrightarrow> (\<exists>bs. length bs = k \<and> emits m bs r)"

definition emitting :: "('s serializer, 'a) state \<Rightarrow> bool" where
  "emitting m \<longleftrightarrow> (\<exists>bs r. emits m bs r)"

text \<open>\<open>emits_shapes m shs\<close>: \<open>m\<close> stores a sequence of boxes of the shapes \<open>shs\<close>.\<close>

definition emits_shapes :: "('s serializer, 'a) state \<Rightarrow> shape list \<Rightarrow> bool" where
  "emits_shapes m shs \<longleftrightarrow> (\<exists>chunks r. list_all2 has_shape shs chunks \<and> emits m (concat chunks) r)"

text \<open>\<open>writes_node m n shs\<close>: \<open>m\<close> stores one box and returns its size.\<close>

definition writes_node :: "('s serializer, nat) state \<Rightarrow> string \<Rightarrow> shape list \<Rightarrow> bool" where
  "writes_node m n shs \<longleftrightarrow> (\<exists>bs. has_shape (Node n shs) bs \<and> emits m bs (length bs))"

text \<open>
  \<open>box_tail n shs final m\<close>: in a box of type \<open>n\<close> that so far has header bytes and the boxes
  \<open>shs\<close>, the program \<open>m st\<close>, given the position \<open>st\<close> at which the box began, completes it to
  a box with the boxes \<open>final\<close>.
\<close>

definition box_tail ::
  "string \<Rightarrow> shape list \<Rightarrow> shape list \<Rightarrow> (int \<Rightarrow> ('s serializer, nat) state) \<Rightarrow> bool" where
  "box_tail n shs final m \<longleftrightarrow> (\<forall>z hdr chunks. list_all2 has_shape shs chunks \<longrightarrow>
     (\<exists>bs. has_shape (Node n final) bs \<and>
        (\<forall>p. finishes p (be32 z @ fourcc n @ hdr @ concat chunks) (m (int p)) bs (length bs))))"

lemma emittingI: "emits m bs r \<Longrightarrow> emitting m"
  by (auto simp: emitting_def)

lemma emitting_prims:
  "emitting (s_write d)" "emitting (s_w8 a)" "emitting (s_wb16 b)" "emitting (s_wb24 c)" "emitting (s_wb32 c)"
  "emitting (s_wb64 e)" "emitting (State_Monad.return x)"
  by (rule emittingI, rule emit_intros)+

lemma emitting_then: "emitting m \<Longrightarrow> (\<And>x. emitting (f x)) \<Longrightarrow> emitting (m \<bind> f)"
  unfolding emitting_def by (blast intro: emits_bind)

lemma emitting_if: "emitting m \<Longrightarrow> emitting n \<Longrightarrow> emitting (if b then m else n)"
  by simp

lemma emitting_for_each:
  assumes "\<And>x. emitting (f x)"
  shows "emitting (for_each f xs)"
proof (induction xs)
  case (Cons x xs)
  then show ?case using assms by (auto intro: emitting_then)
qed (simp add: emitting_prims)

lemma emitting_shapes: "emits_shapes m shs \<Longrightarrow> emitting m"
  by (auto simp: emits_shapes_def emitting_def)

lemmas emitting_intros = emitting_prims emitting_if emitting_for_each emitting_then

lemma emits_len_prims:
  "emits_len (s_write d) (length d) (length d)" "emits_len (s_w8 a) 1 ()" "emits_len (s_wb16 b) 2 ()"
  "emits_len (s_wb24 c) 3 ()" "emits_len (s_wb32 c) 4 ()" "emits_len (s_wb64 e) 8 ()"
  "emits_len (State_Monad.return x) 0 x"
  unfolding emits_len_def by (rule exI, rule conjI [rotated], rule emit_intros, simp)+

lemma emits_len_then:
  assumes "emits_len m j x" and "emits_len (f x) k r"
  shows "emits_len (m \<bind> f) (j + k) r"
proof -
  obtain as bs where "length as = j" "emits m as x" "length bs = k" "emits (f x) bs r"
    using assms unfolding emits_len_def by blast
  then show ?thesis
    unfolding emits_len_def by (intro exI [of _ "as @ bs"] conjI emits_bind) simp_all
qed

lemma emits_len_if: "emits_len m k r \<Longrightarrow> emits_len n k r \<Longrightarrow> emits_len (if b then m else n) k r"
  by simp

lemma emits_len_for_each:
  assumes "\<And>x. emits_len (f x) k ()"
  shows "emits_len (for_each f xs) (length xs * k) ()"
proof (induction xs)
  case (Cons x xs)
  then show ?case using emits_len_then [OF assms [of x] Cons] by simp
qed (simp add: emits_len_prims)

lemma emits_len_cong: "emits_len m j r \<Longrightarrow> j = k \<Longrightarrow> emits_len m k r"
  by simp

lemmas emits_len_intros = emits_len_prims emits_len_if emits_len_for_each emits_len_then

lemma shapes_return: "emits_shapes (State_Monad.return x) []"
  unfolding emits_shapes_def by (rule exI [of _ "[]"]) (auto intro: emits_return)

lemma shapes_then:
  "emits_shapes m s1 \<Longrightarrow> (\<And>x. emits_shapes (f x) s2) \<Longrightarrow> emits_shapes (m \<bind> f) (s1 @ s2)"
  unfolding emits_shapes_def by (metis concat_append emits_bind list_all2_appendI)

lemma shapes_if:
  "emits_shapes m s1 \<Longrightarrow> emits_shapes n s2 \<Longrightarrow> emits_shapes (if b then m else n) (if b then s1 else s2)"
  by simp

lemma shapes_for_each:
  "(\<And>x. emits_shapes (f x) (g x)) \<Longrightarrow> emits_shapes (for_each f xs) (concat (map g xs))"
proof (induction xs)
  case (Cons x xs)
  then show ?case using shapes_then [of "f x" "g x" "\<lambda>_. for_each f xs"] by simp
qed (simp add: shapes_return)

lemma shapes_single: "has_shape sh bs \<Longrightarrow> emits m bs r \<Longrightarrow> emits_shapes m [sh]"
  unfolding emits_shapes_def by (rule exI [of _ "[bs]"], rule exI [of _ r]) simp

lemma shapes_node: "writes_node m n shs \<Longrightarrow> emits_shapes m [Node n shs]"
  unfolding writes_node_def by (elim exE conjE) (rule shapes_single)

lemma emits_get_pos_skip:
  assumes "emits m bs r"
  shows "emits (serializer_get_pos \<bind> (\<lambda>_. m)) bs r"
  by (rule emits_from_pos) (use finishes_emits [OF assms, of _ "[]"] in simp)

lemma shapes_get_pos: "emits_shapes m shs \<Longrightarrow> emits_shapes (serializer_get_pos \<bind> (\<lambda>_. m)) shs"
  unfolding emits_shapes_def by (elim exE conjE, intro exI conjI, assumption, rule emits_get_pos_skip)

text \<open>Boxes that state their size up front.\<close>

lemma emits_fixed_box:
  assumes "emits_len m k r" and "sz \<le> UINT32_MAX" and "(word_of_nat sz :: u32) = word_of_nat (8 + k)"
  shows "\<exists>body. length body = k \<and> emits (write_box sz n \<bind> (\<lambda>_. m)) (mkbox n body) r"
proof -
  obtain bs where bs: "length bs = k" "emits m bs r" using assms(1) by (auto simp: emits_len_def)
  have "emits (write_box sz n \<bind> (\<lambda>_. m)) (mkbox n bs) r"
    using emits_then [OF emits_write_box [OF assms(2)] bs(2), of n] assms(3) bs(1) by (simp add: mkbox_def)
  with bs(1) show ?thesis by blast
qed

lemma fixed_box:
  assumes "emits_len m k r" and "sz \<le> UINT32_MAX" and "(word_of_nat sz :: u32) = word_of_nat (8 + k)"
  shows "emits_shapes (write_box sz n \<bind> (\<lambda>_. m)) [Leaf n]"
  using emits_fixed_box [OF assms, of n] by (elim exE conjE) (rule shapes_single [OF leafI])

lemma fixed_fullbox:
  assumes "emits_len m k r" and "sz \<le> UINT32_MAX" and "(word_of_nat sz :: u32) = word_of_nat (12 + k)"
  shows "emits_shapes (write_fullbox sz n v fl \<bind> (\<lambda>_. m)) [Leaf n]"
proof -
  have "emits_len (s_w8 v \<bind> (\<lambda>_. s_wb24 fl \<bind> (\<lambda>_. m))) (1 + (3 + k)) r"
    by (rule emits_len_then emits_len_prims assms)+
  then have "emits_shapes (write_box sz n \<bind> (\<lambda>_. s_w8 v \<bind> (\<lambda>_. s_wb24 fl \<bind> (\<lambda>_. m)))) [Leaf n]"
    by (rule fixed_box) (use assms in \<open>simp_all add: ac_simps\<close>)
  then show ?thesis by (simp add: write_fullbox_def)
qed

text \<open>Boxes that patch their size at the end.\<close>

lemma tail_raw:
  assumes "emitting m" and "\<And>x. box_tail n [] final (\<lambda>st. f st x)"
  shows "box_tail n [] final (\<lambda>st. m \<bind> f st)"
  unfolding box_tail_def
proof (intro allI impI)
  fix z hdr and chunks :: "byte list list" assume "list_all2 has_shape [] chunks"
  then have [simp]: "chunks = []" by simp
  obtain b x where b: "emits m b x" using assms(1) by (auto simp: emitting_def)
  from assms(2) [of x, unfolded box_tail_def, rule_format, of "[]" z "hdr @ b"]
  obtain bs where bs: "has_shape (Node n final) bs"
    "\<And>p. finishes p ((be32 z @ fourcc n @ hdr @ concat chunks) @ b) (f (int p) x) bs (length bs)"
    by auto
  show "\<exists>bs. has_shape (Node n final) bs \<and>
      (\<forall>p. finishes p (be32 z @ fourcc n @ hdr @ concat chunks) (m \<bind> f (int p)) bs (length bs))"
    by (intro exI [of _ bs] conjI allI bs(1) finishes_bind) (rule b, rule bs(2))
qed

lemma tail_shapes:
  assumes "emits_shapes m s1" and "\<And>x. box_tail n (shs @ s1) final (\<lambda>st. f st x)"
  shows "box_tail n shs final (\<lambda>st. m \<bind> f st)"
  unfolding box_tail_def
proof (intro allI impI)
  fix z hdr chunks assume c: "list_all2 has_shape shs chunks"
  obtain c1 x where c1: "list_all2 has_shape s1 c1" "emits m (concat c1) x"
    using assms(1) by (auto simp: emits_shapes_def)
  from assms(2) [of x, unfolded box_tail_def, rule_format, of "chunks @ c1" z hdr]
  obtain bs where bs: "has_shape (Node n final) bs"
    "\<And>p. finishes p ((be32 z @ fourcc n @ hdr @ concat chunks) @ concat c1) (f (int p) x) bs (length bs)"
    using c c1(1) by (auto intro: list_all2_appendI)
  show "\<exists>bs. has_shape (Node n final) bs \<and>
      (\<forall>p. finishes p (be32 z @ fourcc n @ hdr @ concat chunks) (m \<bind> f (int p)) bs (length bs))"
    by (intro exI [of _ bs] conjI allI bs(1) finishes_bind) (rule c1(2), rule bs(2))
qed

lemma tail_done:
  assumes "shs = final" and "4 \<le> length n"
  shows "box_tail n shs final write_box_size"
  unfolding box_tail_def
proof (intro allI impI)
  fix z hdr chunks assume c: "list_all2 has_shape shs chunks"
  let ?acc = "be32 z @ fourcc n @ hdr @ concat chunks"
  have "be32 (word_of_nat (length ?acc)) @ drop 4 ?acc = mkbox n (hdr @ concat chunks)"
    using assms(2) by (simp add: mkbox_def ac_simps)
  moreover have "has_shape (Node n final) (mkbox n (hdr @ concat chunks))"
    using c assms(1) by (auto intro: nodeI)
  moreover have "length ?acc = length (mkbox n (hdr @ concat chunks))"
    using assms(2) by (simp add: mkbox_def)
  ultimately show "\<exists>bs. has_shape (Node n final) bs \<and> (\<forall>p. finishes p ?acc (write_box_size (int p)) bs (length bs))"
    using finishes_write_box_size [of ?acc] by (metis length_append length_be(3) le_add1)
qed

lemma node_start:
  assumes "box_tail n [] final f"
  shows "writes_node (serializer_get_pos \<bind> (\<lambda>st. write_box 0 n \<bind> (\<lambda>_. f st))) n final"
proof -
  obtain bs where bs: "has_shape (Node n final) bs" "\<And>p. finishes p (be32 0 @ fourcc n) (f (int p)) bs (length bs)"
    using assms [unfolded box_tail_def, rule_format, of "[]" 0 "[]"] by auto
  have "finishes p [] (write_box 0 n \<bind> (\<lambda>_. f (int p))) bs (length bs)" for p
    using finishes_bind [OF emits_write_box [of 0 n], of p "[]" "\<lambda>_. f (int p)"] bs(2) [of p] by simp
  then have "emits (serializer_get_pos \<bind> (\<lambda>st. write_box 0 n \<bind> (\<lambda>_. f st))) bs (length bs)"
    by (rule emits_from_pos)
  with bs(1) show ?thesis by (auto simp: writes_node_def)
qed

lemma node_start_full:
  assumes "box_tail n [] final f"
  shows "writes_node (serializer_get_pos \<bind> (\<lambda>st. write_fullbox 0 n v fl \<bind> (\<lambda>_. f st))) n final"
proof -
  have "box_tail n [] final (\<lambda>st. s_w8 v \<bind> (\<lambda>_. s_wb24 fl \<bind> (\<lambda>_. f st)))"
    by (rule tail_raw emitting_prims assms)+
  then have "writes_node (serializer_get_pos \<bind>
      (\<lambda>st. write_box 0 n \<bind> (\<lambda>_. s_w8 v \<bind> (\<lambda>_. s_wb24 fl \<bind> (\<lambda>_. f st))))) n final"
    by (rule node_start)
  then show ?thesis by (simp add: write_fullbox_def)
qed

end

end
