(* ===== verification/Mp4_Header.thy ===== *)
theory Mp4_Header
  imports Mp4_Box
begin

text \<open>
  The file-level and media-level header boxes of \<open>mp4-mux.c\<close>: file type, free space, movie,
  track and media headers, handler references and media information headers.  Every writer
  is shown to store one well-formed box.
\<close>

definition UNITY_MATRIX :: "u32 list" where
  "UNITY_MATRIX = [0x00010000, 0, 0, 0, 0x00010000, 0, 0, 0, 0x40000000]"

definition s_str :: "string \<Rightarrow> ('s serializer, nat) state" where
  "s_str cs = s_write (bytes_of_string cs)"

text \<open>The first video track, whose codec and duration some headers use.\<close>

definition first_video :: "mp4_mux \<Rightarrow> mp4_track option" where
  "first_video mux = List.find (\<lambda>t. t_type t = TRACK_VIDEO) (m_tracks mux)"

definition mp4_write_ftyp :: "mp4_mux \<Rightarrow> bool \<Rightarrow> ('s serializer, nat) state" where
  "mp4_write_ftyp mux fragmented = do {
     start \<leftarrow> serializer_get_pos;
     write_box 0 ''ftyp'';
     (if m_flavor mux = FLAVOR_MOV then do {
        s_str ''qt  '';
        s_wb32 0x20140200;
        s_str ''qt  '' }
      else
        (let major_brand = (if MP4_USE_NEGATIVE_CTS (m_flags mux) then if fragmented then ''iso6'' else ''iso4''
                            else ''isom'')
         in do {
           s_str major_brand;
           s_wb32 0;
           s_str major_brand;
           (if major_brand \<noteq> ''isom'' then s_str ''isom'' else State_Monad.return 0);
           (if fragmented \<and> major_brand \<noteq> ''iso6'' then s_str ''iso6'' else s_str ''obs1'');
           s_str ''iso2'';
           (case first_video mux of
              Some track \<Rightarrow> if t_codec track = CODEC_H264 then s_str ''avc1'' else State_Monad.return 0
            | None \<Rightarrow> State_Monad.return 0);
           s_str ''mp41'' }));
     write_box_size start }"

definition mp4_write_free :: "mp4_mux \<Rightarrow> ('s serializer, nat) state" where
  "mp4_write_free mux = do {
     s_wb32 16;
     s_str (if m_flavor mux = FLAVOR_MOV then ''wide'' else ''free'');
     s_wb64 0;
     State_Monad.return 16 }"

definition mp4_write_mvhd :: "mp4_mux \<Rightarrow> ('s serializer, nat) state" where
  "mp4_write_mvhd mux = do {
     start \<leftarrow> serializer_get_pos;
     let duration = (case first_video mux of
         Some track \<Rightarrow> util_mul_div64 (t_duration track) 1000 (ucast (t_timebase_den track)) | None \<Rightarrow> 0);
     let extended_ts = (unat duration > UINT32_MAX \<or> unat (m_creation_time mux) > UINT32_MAX);
     write_fullbox 0 ''mvhd'' (if extended_ts then 1 else 0) 0;
     (if extended_ts then do {
        s_wb64 (m_creation_time mux);
        s_wb64 (m_creation_time mux);
        s_wb32 1000;
        s_wb64 duration }
      else do {
        s_wb32 (ucast (m_creation_time mux));
        s_wb32 (ucast (m_creation_time mux));
        s_wb32 1000;
        s_wb32 (ucast duration) });
     s_wb32 0x00010000;
     s_wb16 0x0100;
     s_wb16 0;
     s_wb32 0;
     s_wb32 0;
     for_each s_wb32 UNITY_MATRIX;
     s_wb32 0;
     s_wb32 0;
     s_wb32 0;
     s_wb32 0;
     s_wb32 0;
     s_wb32 0;
     s_wb32 (ucast (m_track_ctr mux) + 1);
     write_box_size start }"

definition mp4_write_tkhd :: "mp4_mux \<Rightarrow> mp4_track \<Rightarrow> ('s serializer, nat) state" where
  "mp4_write_tkhd mux track = do {
     start \<leftarrow> serializer_get_pos;
     let duration = util_mul_div64 (t_duration track) 1000 (ucast (t_timebase_den track));
     let extended_ts = (unat duration > UINT32_MAX \<or> unat (m_creation_time mux) > UINT32_MAX);
     write_fullbox 0 ''tkhd'' (if extended_ts then 1 else 0) (0x1 OR 0x2);
     (if extended_ts then do {
        s_wb64 (m_creation_time mux);
        s_wb64 (m_creation_time mux);
        s_wb32 (ucast (t_track_id track));
        s_wb32 0;
        s_wb64 duration }
      else do {
        s_wb32 (ucast (m_creation_time mux));
        s_wb32 (ucast (m_creation_time mux));
        s_wb32 (ucast (t_track_id track));
        s_wb32 0;
        s_wb32 (ucast duration) });
     s_wb32 0;
     s_wb32 0;
     s_wb16 0;
     s_wb16 (if t_type track = TRACK_AUDIO then 1 else 0);
     s_wb16 (if t_type track = TRACK_AUDIO then 0x100 else 0);
     s_wb16 0;
     for_each s_wb32 UNITY_MATRIX;
     (if t_type track = TRACK_AUDIO then do {
        s_wb32 0;
        s_wb32 0 }
      else do {
        s_wb32 (push_bit 16 (obs_encoder_get_width (t_encoder track)));
        s_wb32 (push_bit 16 (obs_encoder_get_height (t_encoder track))) });
     write_box_size start }"

text \<open>The MOV warning about 64-bit durations is a log line only.\<close>

definition mdhd_duration :: "mp4_track \<Rightarrow> u64" where
  "mdhd_duration track =
    (if t_type track = TRACK_VIDEO then
       util_mul_div64 (t_duration track) (ucast (t_timescale track)) (ucast (t_timebase_den track))
     else t_duration track)"

definition mp4_write_mdhd :: "mp4_mux \<Rightarrow> mp4_track \<Rightarrow> ('s serializer, nat) state" where
  "mp4_write_mdhd mux track =
    (let duration = mdhd_duration track; timescale = t_timescale track;
         extended = (unat duration > UINT32_MAX \<or> unat (m_creation_time mux) > UINT32_MAX);
         size = (if extended then 44 else 32);
         version = (if extended then 1 else 0 :: u8)
     in do {
       write_fullbox size ''mdhd'' version 0;
       (if version = 1 then do {
          s_wb64 (m_creation_time mux);
          s_wb64 (m_creation_time mux);
          s_wb32 timescale;
          s_wb64 (ucast (ucast duration :: u32)) }
        else do {
          s_wb32 (ucast (m_creation_time mux));
          s_wb32 (ucast (m_creation_time mux));
          s_wb32 timescale;
          s_wb32 (ucast duration) });
       s_wb16 (if m_flavor mux = FLAVOR_MOV then 32767 else 21956);
       s_wb16 0;
       State_Monad.return size })"

text \<open>The data handler of a MOV file has no track.\<close>

definition mp4_write_hdlr :: "mp4_mux \<Rightarrow> mp4_track option \<Rightarrow> ('s serializer, nat) state" where
  "mp4_write_hdlr mux track = do {
     start \<leftarrow> serializer_get_pos;
     write_fullbox 0 ''hdlr'' 0 0;
     (if m_flavor mux = FLAVOR_MOV then do {
        s_str (if track \<noteq> None then ''mhlr'' else ''dhlr'');
        State_Monad.return () }
      else s_wb32 0);
     s_str (case track of
         None \<Rightarrow> ''url ''
       | Some t \<Rightarrow> if t_type t = TRACK_VIDEO then ''vide'' else if t_type t = TRACK_CHAPTERS then ''text''
                  else ''soun'');
     s_wb32 0;
     s_wb32 0;
     s_wb32 0;
     let handler_name = (case track of
         None \<Rightarrow> ''OBS Data Handler''
       | Some t \<Rightarrow> if t_type t = TRACK_VIDEO then ''OBS Video Handler''
                  else if t_type t = TRACK_CHAPTERS then ''OBS Chapter Handler'' else ''OBS Audio Handler'');
     let handler_len = length handler_name;
     (if m_flavor mux = FLAVOR_MOV then do {
        s_w8 (word_of_nat handler_len);
        s_str handler_name;
        State_Monad.return () }
      else do {
        s_str handler_name;
        s_w8 0 });
     write_box_size start }"

definition mp4_write_vmhd :: "('s serializer, nat) state" where
  "mp4_write_vmhd = do {
     write_fullbox 20 ''vmhd'' 0 1;
     s_wb16 0;
     s_wb16 0;
     s_wb16 0;
     s_wb16 0;
     State_Monad.return 16 }"

definition mp4_write_smhd :: "('s serializer, nat) state" where
  "mp4_write_smhd = do {
     write_fullbox 16 ''smhd'' 0 0;
     s_wb16 0;
     s_wb16 0;
     State_Monad.return 16 }"

definition mp4_write_qt_text :: "('s serializer, nat) state" where
  "mp4_write_qt_text = do {
     start \<leftarrow> serializer_get_pos;
     write_box 0 ''text'';
     s_wb16 0x01;
     s_wb32 0x00;
     s_wb32 0x00;
     s_wb32 0x00;
     s_wb32 0x01;
     s_wb32 0x00;
     s_wb32 0x00;
     s_wb32 0x00;
     s_wb32 0x00004000;
     s_wb16 0x0000;
     write_box_size start }"

definition mp4_write_gmin :: "('s serializer, nat) state" where
  "mp4_write_gmin = do {
     start \<leftarrow> serializer_get_pos;
     write_fullbox 0 ''gmin'' 0 0;
     s_wb16 0x40;
     s_wb16 0x8000;
     s_wb16 0x8000;
     s_wb16 0x8000;
     s_wb16 0;
     s_wb16 0;
     write_box_size start }"

definition mp4_write_gmhd :: "('s serializer, nat) state" where
  "mp4_write_gmhd = do {
     start \<leftarrow> serializer_get_pos;
     write_box 0 ''gmhd'';
     mp4_write_gmin;
     mp4_write_qt_text;
     write_box_size start }"

section \<open>Shapes\<close>

context output_serializer
begin

lemma emitting_s_str: "emitting (s_str cs)"
  unfolding s_str_def by (rule emitting_prims)

lemma emits_len_s_str: "length cs = k \<Longrightarrow> emits_len (s_str cs) k k"
  unfolding s_str_def using emits_len_prims(1) [of "bytes_of_string cs"] by simp

lemma emitting_option:
  "(\<And>x. emitting (f x)) \<Longrightarrow> emitting m \<Longrightarrow> emitting (case y of Some x \<Rightarrow> f x | None \<Rightarrow> m)"
  by (simp split: option.split)

lemmas raws = tail_raw [OF emitting_s_str] tail_raw [OF emitting_prims(1)] tail_raw [OF emitting_prims(2)]
  tail_raw [OF emitting_prims(3)] tail_raw [OF emitting_prims(4)] tail_raw [OF emitting_prims(5)]
  tail_raw [OF emitting_prims(6)] tail_raw [OF emitting_prims(7)]

lemmas emitting_rules = emitting_s_str emitting_prims emitting_if emitting_for_each emitting_option emitting_then

lemma node_ftyp: "writes_node (mp4_write_ftyp mux fragmented) ''ftyp'' []"
  unfolding mp4_write_ftyp_def Let_def
  by (rule node_start tail_done refl raws | rule tail_raw emitting_rules | simp)+

lemma node_mvhd: "writes_node (mp4_write_mvhd mux) ''mvhd'' []"
  unfolding mp4_write_mvhd_def Let_def
  by (rule node_start_full tail_done refl raws | rule tail_raw emitting_rules | simp)+

lemma node_tkhd: "writes_node (mp4_write_tkhd mux track) ''tkhd'' []"
  unfolding mp4_write_tkhd_def Let_def
  by (rule node_start_full tail_done refl raws | rule tail_raw emitting_rules | simp)+

lemma node_hdlr: "writes_node (mp4_write_hdlr mux track) ''hdlr'' []"
  unfolding mp4_write_hdlr_def Let_def
  by (rule node_start_full tail_done refl raws | rule tail_raw emitting_rules | simp)+

lemma node_qt_text: "writes_node mp4_write_qt_text ''text'' []"
  unfolding mp4_write_qt_text_def
  by (rule node_start tail_done refl raws | simp)+

lemma node_gmin: "writes_node mp4_write_gmin ''gmin'' []"
  unfolding mp4_write_gmin_def
  by (rule node_start_full tail_done refl raws | simp)+

lemma node_gmhd: "writes_node mp4_write_gmhd ''gmhd'' [Leaf ''gmin'', Leaf ''text'']"
  unfolding mp4_write_gmhd_def
  by (rule node_start tail_done tail_shapes [OF shapes_node [OF node_gmin]]
      tail_shapes [OF shapes_node [OF node_qt_text]] | simp)+

text \<open>Boxes of a fixed size.  The length side condition is on 32-bit words.\<close>

lemma shapes_vmhd: "emits_shapes mp4_write_vmhd [Leaf ''vmhd'']"
  unfolding mp4_write_vmhd_def
  by (rule fixed_fullbox, (rule emits_len_then emits_len_prims)+) (simp_all add: UINT32_MAX_def)

lemma shapes_smhd: "emits_shapes mp4_write_smhd [Leaf ''smhd'']"
  unfolding mp4_write_smhd_def
  by (rule fixed_fullbox, (rule emits_len_then emits_len_prims)+) (simp_all add: UINT32_MAX_def)

lemma shapes_mdhd: "emits_shapes (mp4_write_mdhd mux track) [Leaf ''mdhd'']"
proof (cases "unat (mdhd_duration track) > UINT32_MAX \<or> unat (m_creation_time mux) > UINT32_MAX")
  case True
  show ?thesis
    unfolding mp4_write_mdhd_def Let_def if_P [OF True] if_P [OF refl]
    by (rule fixed_fullbox, (rule emits_len_then emits_len_prims)+) (simp_all add: UINT32_MAX_def)
next
  case False
  have v: "(0 :: u8) \<noteq> 1" by simp
  show ?thesis
    unfolding mp4_write_mdhd_def Let_def if_not_P [OF False] if_not_P [OF v]
    by (rule fixed_fullbox, (rule emits_len_then emits_len_prims)+) (simp_all add: UINT32_MAX_def)
qed

text \<open>The file type box, byte for byte: its size does not depend on the fragmentation state.\<close>

lemma emits_s_str: "emits (s_str cs) (bytes_of_string cs) (length cs)"
  unfolding s_str_def using emits_s_write [of "bytes_of_string cs"] by simp

lemma shapes_free: "emits_shapes (mp4_write_free mux) [Leaf (if m_flavor mux = FLAVOR_MOV then ''wide'' else ''free'')]"
proof -
  let ?n = "if m_flavor mux = FLAVOR_MOV then ''wide'' else ''free''"
  have "emits (mp4_write_free mux) (be32 16 @ bytes_of_string ?n @ be64 0 @ []) 16"
    unfolding mp4_write_free_def by (rule emits_then emits_s_wb32 emits_s_str emits_s_wb64 emits_return)+
  moreover have "be32 16 @ bytes_of_string ?n @ be64 0 @ [] = mkbox ?n (be64 0)"
    by (simp add: mkbox_def fourcc_def)
  ultimately show ?thesis using shapes_single [OF leafI] by metis
qed

end

definition ftyp_body :: "mp4_mux \<Rightarrow> bool \<Rightarrow> byte list" where
  "ftyp_body mux fragmented =
    (if m_flavor mux = FLAVOR_MOV then bytes_of_string ''qt  '' @ be32 0x20140200 @ bytes_of_string ''qt  ''
     else
       (let major = (if MP4_USE_NEGATIVE_CTS (m_flags mux) then if fragmented then ''iso6'' else ''iso4'' else ''isom'')
        in bytes_of_string major @ be32 0 @ bytes_of_string major @
           (if major \<noteq> ''isom'' then bytes_of_string ''isom'' else []) @
           (if fragmented \<and> major \<noteq> ''iso6'' then bytes_of_string ''iso6'' else bytes_of_string ''obs1'') @
           bytes_of_string ''iso2'' @
           (case first_video mux of
              Some track \<Rightarrow> if t_codec track = CODEC_H264 then bytes_of_string ''avc1'' else []
            | None \<Rightarrow> []) @
           bytes_of_string ''mp41''))"

lemma length_ftyp_body: "length (ftyp_body mux a) = length (ftyp_body mux b)"
  by (simp add: ftyp_body_def Let_def split: option.split)

context output_serializer
begin

lemma emits_ftyp:
  "emits (mp4_write_ftyp mux fragmented) (mkbox ''ftyp'' (ftyp_body mux fragmented)) (8 + length (ftyp_body mux fragmented))"
  unfolding mp4_write_ftyp_def Let_def
  by (rule emits_box, rule finishes_bind, (rule emit_intros emits_s_str emits_option)+,
      rule finishes_size [where body = "ftyp_body mux fragmented"])
    (simp_all add: ftyp_body_def Let_def length_mkbox)

end

end
