(* ===== verification/Mp4_Sample_Entry.thy ===== *)
theory Mp4_Sample_Entry
  imports Mp4_Header Rtmp_Hevc Rtmp_Av1
begin

text \<open>
  The sample description box of \<open>mp4-mux.c\<close> and everything below it: codec configuration
  boxes, visual, audio and text sample entries, colour, HDR and channel layout boxes, with
  the tables of \<open>mp4-mux-internal.h\<close> they use.
\<close>

section \<open>Tables\<close>

text \<open>Speaker positions, their number, and the ISO layout (0 when there is none).\<close>

definition get_speaker_positions :: "speaker_layout \<Rightarrow> byte list \<times> u8" where
  "get_speaker_positions layout = (case layout of
      SPEAKERS_MONO \<Rightarrow> ([2], 1)
    | SPEAKERS_UNKNOWN \<Rightarrow> ([0, 1], 2)
    | SPEAKERS_STEREO \<Rightarrow> ([0, 1], 2)
    | SPEAKERS_2POINT1 \<Rightarrow> ([0, 1, 3], 0)
    | SPEAKERS_4POINT0 \<Rightarrow> ([0, 1, 2, 10], 4)
    | SPEAKERS_4POINT1 \<Rightarrow> ([0, 1, 2, 3, 10], 0)
    | SPEAKERS_5POINT1 \<Rightarrow> ([0, 1, 2, 3, 8, 9], 0)
    | SPEAKERS_7POINT1 \<Rightarrow> ([0, 1, 2, 3, 8, 9, 13, 14], 12))"

text \<open>Primaries, transfer characteristics, matrix coefficients and the full-range flag.\<close>

definition get_colour_information :: "obs_encoder option \<Rightarrow> u16 \<times> u16 \<times> u16 \<times> u8" where
  "get_colour_information enc =
    (let info = video_info (obs_encoder_video enc);
         full_range = (if vo_range info = VIDEO_RANGE_FULL then 1 else 0)
     in case vo_colorspace info of
          VIDEO_CS_601 \<Rightarrow> (6, 6, 6, full_range)
        | VIDEO_CS_DEFAULT \<Rightarrow> (1, 1, 1, full_range)
        | VIDEO_CS_709 \<Rightarrow> (1, 1, 1, full_range)
        | VIDEO_CS_SRGB \<Rightarrow> (1, 13, 1, full_range)
        | VIDEO_CS_2100_PQ \<Rightarrow> (9, 16, 9, full_range)
        | VIDEO_CS_2100_HLG \<Rightarrow> (9, 18, 9, full_range))"

definition TEXT_STUB_HEADER :: "byte list" where
  "TEXT_STUB_HEADER = [0x00, 0x00, 0x00, 0x01, 0x00, 0x00, 0x00, 0x00, 0x00, 0x00,
     0x00, 0x00, 0x00, 0x00, 0x00, 0x00, 0x00, 0x00,
     0x00, 0x00, 0x00, 0x00, 0x00, 0x01, 0x00, 0x00, 0x00, 0x00, 0x00, 0x00,
     0x00, 0x00, 0x00, 0x0D, 0x66, 0x74, 0x61, 0x62, 0x00, 0x01, 0x00, 0x01, 0x00]"

definition get_lpcm_flags :: "mp4_codec \<Rightarrow> u32" where
  "get_lpcm_flags codec =
    (if codec = CODEC_PCM_F32 then push_bit 0 1 OR push_bit 3 1
     else if codec = CODEC_PCM_I16 \<or> codec = CODEC_PCM_I24 then push_bit 2 1 OR push_bit 3 1
     else 0)"

definition get_mov_channel_bitmap :: "speaker_layout \<Rightarrow> u32" where
  "get_mov_channel_bitmap layout =
    (let FL = push_bit 0 1; FR = push_bit 1 1; FC = push_bit 2 1; LFE = push_bit 3 1; RL = push_bit 4 1;
         RR = push_bit 5 1; RC = push_bit 8 1; SL = push_bit 9 1; SR = push_bit 10 1
     in case layout of
          SPEAKERS_MONO \<Rightarrow> FC
        | SPEAKERS_STEREO \<Rightarrow> FL OR FR
        | SPEAKERS_2POINT1 \<Rightarrow> FL OR FR OR LFE
        | SPEAKERS_4POINT0 \<Rightarrow> FL OR FR OR FC OR RC
        | SPEAKERS_4POINT1 \<Rightarrow> FL OR FR OR FC OR LFE OR RC
        | SPEAKERS_5POINT1 \<Rightarrow> FL OR FR OR FC OR LFE OR RL OR RR
        | SPEAKERS_7POINT1 \<Rightarrow> FL OR FR OR FC OR LFE OR RL OR RR OR SL OR SR
        | SPEAKERS_UNKNOWN \<Rightarrow> 0)"

definition kAudioChannelLayoutTag_UseChannelBitmap :: u32 where
  "kAudioChannelLayoutTag_UseChannelBitmap = push_bit 16 1 OR 0"

definition get_mov_channel_layout :: "mp4_codec \<Rightarrow> speaker_layout \<Rightarrow> u32" where
  "get_mov_channel_layout codec layout =
    (if layout = SPEAKERS_MONO then push_bit 16 100 OR 1
     else if layout = SPEAKERS_STEREO then push_bit 16 101 OR 2
     else if layout = SPEAKERS_2POINT1 then
       if codec = CODEC_AAC then push_bit 16 133 OR 3 else kAudioChannelLayoutTag_UseChannelBitmap
     else kAudioChannelLayoutTag_UseChannelBitmap)"

section \<open>Video sample entries\<close>

definition mp4_write_avcC :: "mp4_env \<Rightarrow> obs_encoder option \<Rightarrow> ('s serializer, nat) state" where
  "mp4_write_avcC env enc = (case obs_encoder_get_extra_data enc of
      None \<Rightarrow> State_Monad.return 0
    | Some header \<Rightarrow>
        (let data = obs_parse_avc_header (env_addr env header) header; box_size = length data + 8
         in do { write_box box_size ''avcC''; s_write data; State_Monad.return box_size }))"

text \<open>
  The parsed extra data.  A null header pointer with a size other than 0, a read outside the
  data or a parser that does not return leaves no defined bytes to write.
\<close>

definition hevc_config :: "mp4_env \<Rightarrow> byte list \<Rightarrow> byte list" where
  "hevc_config env header = (case obs_parse_hevc_header (env_addr env header) header of
      Some (Some data, _) \<Rightarrow> data
    | Some (None, 0) \<Rightarrow> []
    | _ \<Rightarrow> env_undef env header)"

definition av1_config :: "mp4_env \<Rightarrow> byte list \<Rightarrow> byte list" where
  "av1_config env header = (case obs_parse_av1_header header of Some data \<Rightarrow> data | None \<Rightarrow> env_undef env header)"

definition mp4_write_hvcC :: "mp4_env \<Rightarrow> obs_encoder option \<Rightarrow> ('s serializer, nat) state" where
  "mp4_write_hvcC env enc = (case obs_encoder_get_extra_data enc of
      None \<Rightarrow> State_Monad.return 0
    | Some header \<Rightarrow>
        (let data = hevc_config env header; box_size = length data + 8
         in do { write_box box_size ''hvcC''; s_write data; State_Monad.return box_size }))"

definition mp4_write_av1C :: "mp4_env \<Rightarrow> obs_encoder option \<Rightarrow> ('s serializer, nat) state" where
  "mp4_write_av1C env enc = (case obs_encoder_get_extra_data enc of
      None \<Rightarrow> State_Monad.return 0
    | Some header \<Rightarrow>
        (let data = av1_config env header; box_size = length data + 8
         in do { write_box box_size ''av1C''; s_write data; State_Monad.return box_size }))"

definition mp4_write_colr :: "obs_encoder option \<Rightarrow> ('s serializer, nat) state" where
  "mp4_write_colr enc = do {
     write_box 19 ''colr'';
     let (pri, trc, spc, full_range) = get_colour_information enc;
     s_str ''nclx'';
     s_wb16 pri;
     s_wb16 trc;
     s_wb16 spc;
     s_w8 (push_bit 7 full_range);
     State_Monad.return 19 }"

definition mp4_write_pasp :: "('s serializer, nat) state" where
  "mp4_write_pasp = do {
     write_box 16 ''pasp'';
     s_wb32 1;
     s_wb32 1;
     State_Monad.return 16 }"

definition compressor_name :: "obs_encoder option \<Rightarrow> byte list" where
  "compressor_name enc = (case obs_encoder_get_id enc of
      None \<Rightarrow> replicate 32 0
    | Some enc_id \<Rightarrow>
        (let len = (if length enc_id > 31 then 31 else length enc_id)
         in word_of_nat len # take len (bytes_of_string enc_id) @ replicate (31 - len) 0))"

definition mp4_write_visual_sample_entry :: "mp4_mux \<Rightarrow> obs_encoder option \<Rightarrow> ('s serializer, unit) state" where
  "mp4_write_visual_sample_entry mux enc = do {
     s_w8 0; s_w8 0; s_w8 0; s_w8 0; s_w8 0; s_w8 0;
     s_wb16 1;
     s_wb16 0;
     s_wb16 0;
     (if m_flavor mux = FLAVOR_MOV then do {
        s_str ''OBSS'';
        s_wb32 0x200;
        s_wb32 0x200 }
      else do {
        s_wb32 0;
        s_wb32 0;
        s_wb32 0 });
     s_wb16 (ucast (obs_encoder_get_width enc));
     s_wb16 (ucast (obs_encoder_get_height enc));
     s_wb32 0x00480000;
     s_wb32 0x00480000;
     s_wb32 0;
     s_wb16 1;
     s_write (compressor_name enc);
     s_wb16 0x0018;
     s_wb16 (-1) }"

definition is_hdr :: "obs_encoder option \<Rightarrow> bool" where
  "is_hdr enc \<longleftrightarrow> (let cs = vo_colorspace (video_info (obs_encoder_video enc))
     in \<not> (cs \<noteq> VIDEO_CS_2100_PQ \<and> cs \<noteq> VIDEO_CS_2100_HLG))"

definition mp4_write_clli :: "mp4_env \<Rightarrow> obs_encoder option \<Rightarrow> ('s serializer, nat) state" where
  "mp4_write_clli env enc =
    (if \<not> is_hdr enc then State_Monad.return 0
     else do {
       write_box 12 ''clli'';
       s_wb16 (ucast (env_nominal_peak env));
       s_wb16 (ucast (env_nominal_peak env));
       State_Monad.return 12 })"

definition mp4_write_mdcv :: "mp4_env \<Rightarrow> obs_encoder option \<Rightarrow> ('s serializer, nat) state" where
  "mp4_write_mdcv env enc =
    (if \<not> is_hdr enc then State_Monad.return 0
     else do {
       write_box 32 ''mdcv'';
       s_wb16 13250;
       s_wb16 34500;
       s_wb16 7500;
       s_wb16 3000;
       s_wb16 34000;
       s_wb16 16000;
       s_wb16 15635;
       s_wb16 16450;
       s_wb32 (env_nominal_peak env * 10000);
       s_wb32 0;
       State_Monad.return 32 })"

definition mp4_write_avc1 :: "mp4_env \<Rightarrow> mp4_mux \<Rightarrow> obs_encoder option \<Rightarrow> ('s serializer, nat) state" where
  "mp4_write_avc1 env mux enc = do {
     start \<leftarrow> serializer_get_pos;
     write_box 0 ''avc1'';
     mp4_write_visual_sample_entry mux enc;
     mp4_write_avcC env enc;
     mp4_write_colr enc;
     mp4_write_pasp;
     write_box_size start }"

definition mp4_write_hvc1 :: "mp4_env \<Rightarrow> mp4_mux \<Rightarrow> obs_encoder option \<Rightarrow> ('s serializer, nat) state" where
  "mp4_write_hvc1 env mux enc = do {
     start \<leftarrow> serializer_get_pos;
     write_box 0 ''hvc1'';
     mp4_write_visual_sample_entry mux enc;
     mp4_write_hvcC env enc;
     mp4_write_colr enc;
     mp4_write_clli env enc;
     mp4_write_mdcv env enc;
     mp4_write_pasp;
     write_box_size start }"

definition mp4_write_av01 :: "mp4_env \<Rightarrow> mp4_mux \<Rightarrow> obs_encoder option \<Rightarrow> ('s serializer, nat) state" where
  "mp4_write_av01 env mux enc = do {
     start \<leftarrow> serializer_get_pos;
     write_box 0 ''av01'';
     mp4_write_visual_sample_entry mux enc;
     mp4_write_av1C env enc;
     mp4_write_colr enc;
     mp4_write_clli env enc;
     mp4_write_mdcv env enc;
     mp4_write_pasp;
     write_box_size start }"

text \<open>
  The ProRes tag is an integer setting whose bytes, most significant first, are the box type.
  The swap below is the little-endian branch of the source; the union's characters are the
  low-to-high bytes of the swapped word.
\<close>

definition swap_tag :: "u32 \<Rightarrow> u32" where
  "swap_tag i = (drop_bit 24 i AND 0x000000FF) OR (push_bit 8 i AND 0x00FF0000) OR
     (drop_bit 8 i AND 0x0000FF00) OR (push_bit 24 i AND 0xFF000000)"

definition prores_tag :: "obs_encoder option \<Rightarrow> string" where
  "prores_tag enc =
    (let codec_tag = (case obs_encoder_get_settings enc of
            None \<Rightarrow> 0 | Some settings \<Rightarrow> ucast (set_int settings ''codec_type''))
     in map (\<lambda>b. char_of (unat b)) (le32 (swap_tag codec_tag)))"

definition mp4_write_prores :: "mp4_env \<Rightarrow> mp4_mux \<Rightarrow> obs_encoder option \<Rightarrow> ('s serializer, nat) state" where
  "mp4_write_prores env mux enc = do {
     start \<leftarrow> serializer_get_pos;
     write_box 0 (prores_tag enc);
     mp4_write_visual_sample_entry mux enc;
     mp4_write_colr enc;
     mp4_write_clli env enc;
     mp4_write_mdcv env enc;
     mp4_write_pasp;
     write_box_size start }"

section \<open>Audio sample entries\<close>

text \<open>An MPEG-4 descriptor: a tag and a length in four groups of seven bits.\<close>

definition put_descr :: "u8 \<Rightarrow> nat \<Rightarrow> ('s serializer, unit) state" where
  "put_descr tag sz = do {
     s_w8 tag;
     for_each (\<lambda>i. s_w8 (word_of_nat (drop_bit (7 * i) sz) OR 0x80)) [3, 2, 1];
     s_w8 (word_of_nat sz AND 0x7F) }"

definition mp4_write_esds :: "mp4_track \<Rightarrow> ('s serializer, nat) state" where
  "mp4_write_esds track = do {
     start \<leftarrow> serializer_get_pos;
     write_fullbox 0 ''esds'' 0 0;
     let extradata = (case obs_encoder_get_extra_data (t_encoder track) of None \<Rightarrow> [] | Some d \<Rightarrow> d);
     let extradata_size = length extradata;
     let decoder_specific_info_len = (if extradata_size \<noteq> 0 then extradata_size + 5 else 0);
     put_descr 0x03 (3 + 5 + 13 + decoder_specific_info_len + 5 + 1);
     s_wb16 (ucast (t_track_id track));
     s_w8 0x00;
     put_descr 0x04 (13 + decoder_specific_info_len);
     s_w8 0x40;
     s_w8 0x15;
     let bitrate = (case obs_encoder_get_settings (t_encoder track) of
         None \<Rightarrow> 0
       | Some settings \<Rightarrow>
           (let enc_bitrate = set_int settings ''bitrate''
            in if enc_bitrate \<noteq> 0 then ucast (enc_bitrate * 1000) else 0));
     s_wb24 0;
     s_wb32 bitrate;
     s_wb32 bitrate;
     (if extradata_size \<noteq> 0 then do {
        put_descr 0x05 extradata_size;
        s_write extradata;
        State_Monad.return () }
      else State_Monad.return ());
     put_descr 0x06 1;
     s_w8 0x02;
     write_box_size start }"

text \<open>The bytes of a \<open>double\<close> that holds a 32-bit integer (IEEE 754 binary64; exact).\<close>

fun log2_nat :: "nat \<Rightarrow> nat" where
  "log2_nat n = (if n \<le> 1 then 0 else Suc (log2_nat (n div 2)))"

declare log2_nat.simps [simp del]

definition double_bits :: "u32 \<Rightarrow> u64" where
  "double_bits w =
    (if w = 0 then 0
     else (let n = unat w; e = log2_nat n
           in word_of_nat ((1023 + e) * 2 ^ 52 + (n - 2 ^ e) * 2 ^ (52 - e))))"

definition is_pcm :: "mp4_track \<Rightarrow> bool" where
  "is_pcm track \<longleftrightarrow> t_codec track = CODEC_PCM_I16 \<or> t_codec track = CODEC_PCM_I24 \<or> t_codec track = CODEC_PCM_F32"

definition mp4_write_audio_sample_entry :: "mp4_mux \<Rightarrow> mp4_track \<Rightarrow> u8 \<Rightarrow> ('s serializer, unit) state" where
  "mp4_write_audio_sample_entry mux track version = do {
     let is_mov = (m_flavor mux = FLAVOR_MOV);
     s_w8 0; s_w8 0; s_w8 0; s_w8 0; s_w8 0; s_w8 0;
     s_wb16 1;
     s_wb16 (ucast version);
     s_wb16 0;
     s_wb16 0;
     s_wb16 0;
     let channels = audio_output_get_channels (obs_encoder_audio (t_encoder track));
     let sample_rate = t_timescale track;
     let alac = (t_codec track = CODEC_ALAC);
     (if version = 2 then do {
        s_wb16 3;
        s_wb16 16;
        s_wb16 0xfffe;
        s_wb16 0;
        s_wb32 0x00010000;
        s_wb32 72;
        s_wb64 (double_bits sample_rate);
        s_wb32 channels;
        s_wb32 0x7F000000;
        s_wb32 (if is_pcm track then t_sample_size track div channels * 8 else 0);
        s_wb32 (get_lpcm_flags (t_codec track));
        s_wb32 (if is_pcm track then t_sample_size track else 0);
        s_wb32 (if is_pcm track then 1 else 0) }
      else do {
        s_wb16 (ucast channels);
        s_wb16 (if \<not> is_mov \<and> alac then 24 else 16);
        s_wb16 (if is_mov \<and> \<not> is_pcm track then -2 else 0);
        s_wb16 0;
        let sample_rate' = (if sample_rate > 65535 then 0 else sample_rate);
        s_wb32 (push_bit 16 sample_rate');
        (if is_mov \<and> version = 1 then do {
           s_wb32 (if is_pcm track then 1 else word_of_nat (obs_encoder_get_frame_size (t_encoder track)));
           s_wb32 (if is_pcm track then t_sample_size track div channels else 0);
           s_wb32 (if is_pcm track then t_sample_size track else 0);
           s_wb32 2 }
         else State_Monad.return ()) }) }"

definition mp4_write_chnl :: "mp4_track \<Rightarrow> ('s serializer, nat) state" where
  "mp4_write_chnl track = do {
     start \<leftarrow> serializer_get_pos;
     write_fullbox 0 ''chnl'' 0 0;
     s_w8 1;
     let (positions, defined_layout) =
       get_speaker_positions (au_speakers (audio_info (obs_encoder_audio (t_encoder track))));
     (if defined_layout = 0 then do {
        s_w8 0;
        s_write positions;
        State_Monad.return () }
      else do {
        s_w8 defined_layout;
        s_wb64 0 });
     write_box_size start }"

definition mp4_write_mp4a :: "mp4_mux \<Rightarrow> mp4_track \<Rightarrow> u8 \<Rightarrow> ('s serializer, nat) state" where
  "mp4_write_mp4a mux track version = do {
     start \<leftarrow> serializer_get_pos;
     write_box 0 ''mp4a'';
     mp4_write_audio_sample_entry mux track version;
     mp4_write_esds track;
     (if version = 1 then mp4_write_chnl track else State_Monad.return 0);
     write_box_size start }"

definition mp4_write_dfLa :: "mp4_track \<Rightarrow> ('s serializer, nat) state" where
  "mp4_write_dfLa track = do {
     start \<leftarrow> serializer_get_pos;
     (case obs_encoder_get_extra_data (t_encoder track) of
        None \<Rightarrow> State_Monad.return 0
      | Some extradata \<Rightarrow> do {
          write_fullbox 0 ''dfLa'' 0 0;
          s_w8 (push_bit 7 1 OR 0);
          s_wb24 (word_of_nat (length extradata));
          s_write extradata;
          write_box_size start }) }"

definition mp4_write_fLaC :: "mp4_mux \<Rightarrow> mp4_track \<Rightarrow> u8 \<Rightarrow> ('s serializer, nat) state" where
  "mp4_write_fLaC mux track version = do {
     start \<leftarrow> serializer_get_pos;
     write_box 0 ''fLaC'';
     mp4_write_audio_sample_entry mux track version;
     mp4_write_dfLa track;
     (if version = 1 then mp4_write_chnl track else State_Monad.return 0);
     write_box_size start }"

definition mp4_write_alac :: "mp4_mux \<Rightarrow> mp4_track \<Rightarrow> u8 \<Rightarrow> ('s serializer, nat) state" where
  "mp4_write_alac mux track version = do {
     start \<leftarrow> serializer_get_pos;
     (case obs_encoder_get_extra_data (t_encoder track) of
        None \<Rightarrow> State_Monad.return 0
      | Some extradata \<Rightarrow> do {
          write_box 0 ''alac'';
          mp4_write_audio_sample_entry mux track version;
          s_write extradata;
          (if version = 1 then mp4_write_chnl track else State_Monad.return 0);
          write_box_size start }) }"

definition mp4_write_pcmc :: "mp4_track \<Rightarrow> ('s serializer, nat) state" where
  "mp4_write_pcmc track = do {
     start \<leftarrow> serializer_get_pos;
     write_fullbox 0 ''pcmC'' 0 0;
     s_w8 1;
     (if t_codec track = CODEC_PCM_I16 then s_w8 16
      else if t_codec track = CODEC_PCM_I24 then s_w8 24
      else if t_codec track = CODEC_PCM_F32 then s_w8 32
      else State_Monad.return ());
     write_box_size start }"

definition mp4_write_xpcm :: "mp4_mux \<Rightarrow> mp4_track \<Rightarrow> u8 \<Rightarrow> ('s serializer, nat) state" where
  "mp4_write_xpcm mux track version = do {
     start \<leftarrow> serializer_get_pos;
     write_box 0 (if t_codec track = CODEC_PCM_F32 then ''fpcm'' else ''ipcm'');
     mp4_write_audio_sample_entry mux track version;
     mp4_write_chnl track;
     mp4_write_pcmc track;
     write_box_size start }"

definition mp4_write_text :: "('s serializer, nat) state" where
  "mp4_write_text = do {
     start \<leftarrow> serializer_get_pos;
     write_fullbox 0 ''text'' 0 0;
     s_wb32 1;
     s_write TEXT_STUB_HEADER;
     write_box_size start }"

text \<open>
  Opus: the fields of \<open>OpusHead\<close> are read at fixed offsets without a look at its size; a
  read beyond the end, undefined in C, yields 0 here.
\<close>

definition byte_at :: "byte list \<Rightarrow> nat \<Rightarrow> byte" where
  "byte_at d i = (if i < length d then d ! i else 0)"

definition rl32 :: "byte list \<Rightarrow> nat \<Rightarrow> u32" where
  "rl32 d p = push_bit 24 (ucast (byte_at d (p + 3))) + push_bit 16 (ucast (byte_at d (p + 2))) +
     push_bit 8 (ucast (byte_at d (p + 1))) + ucast (byte_at d p)"

definition rl16 :: "byte list \<Rightarrow> nat \<Rightarrow> u16" where
  "rl16 d p = push_bit 8 (ucast (byte_at d (p + 1))) + ucast (byte_at d p)"

definition mp4_write_dOps :: "mp4_track \<Rightarrow> ('s serializer, nat) state" where
  "mp4_write_dOps track = do {
     start \<leftarrow> serializer_get_pos;
     (case obs_encoder_get_extra_data (t_encoder track) of
        None \<Rightarrow> State_Monad.return 0
      | Some extradata \<Rightarrow> do {
          write_box 0 ''dOps'';
          s_w8 0;
          let channels = byte_at extradata 9;
          let channel_map = byte_at extradata 18;
          s_w8 channels;
          s_wb16 (rl16 extradata 10);
          s_wb32 (rl32 extradata 12);
          s_wb16 (rl16 extradata 16);
          s_w8 channel_map;
          (if channel_map \<noteq> 0 then do {
             s_write (map (byte_at extradata) [19..<19 + 2 + unat channels]);
             State_Monad.return () }
           else State_Monad.return ());
          write_box_size start }) }"

definition mp4_write_Opus :: "mp4_mux \<Rightarrow> mp4_track \<Rightarrow> u8 \<Rightarrow> ('s serializer, nat) state" where
  "mp4_write_Opus mux track version = do {
     start \<leftarrow> serializer_get_pos;
     write_box 0 ''Opus'';
     mp4_write_audio_sample_entry mux track version;
     mp4_write_dOps track;
     (if version = 1 then mp4_write_chnl track else State_Monad.return 0);
     write_box_size start }"

definition mp4_write_wave :: "mp4_track \<Rightarrow> string \<Rightarrow> ('s serializer, nat) state" where
  "mp4_write_wave track tag = do {
     start \<leftarrow> serializer_get_pos;
     write_box 0 ''wave'';
     s_wb32 12;
     s_str ''frma'';
     s_str tag;
     (if t_codec track = CODEC_AAC then mp4_write_esds track
      else if t_codec track = CODEC_ALAC then
        (case obs_encoder_get_extra_data (t_encoder track) of
           None \<Rightarrow> State_Monad.return 0
         | Some extradata \<Rightarrow> s_write extradata)
      else State_Monad.return 0);
     s_wb32 8;
     s_wb32 0;
     write_box_size start }"

definition mp4_write_chan :: "mp4_track \<Rightarrow> ('s serializer, nat) state" where
  "mp4_write_chan track = do {
     start \<leftarrow> serializer_get_pos;
     let speakers = au_speakers (audio_info (obs_encoder_audio (t_encoder track)));
     let layout = get_mov_channel_layout (t_codec track) speakers;
     let bitmap = (if layout = kAudioChannelLayoutTag_UseChannelBitmap then get_mov_channel_bitmap speakers else 0);
     (if layout = kAudioChannelLayoutTag_UseChannelBitmap \<and> bitmap = 0 then State_Monad.return 0
      else do {
        write_fullbox 0 ''chan'' 0 0;
        s_wb32 layout;
        s_wb32 bitmap;
        s_wb32 0;
        write_box_size start }) }"

definition mov_audio_tag :: "mp4_track \<Rightarrow> string option" where
  "mov_audio_tag track =
    (if is_pcm track then Some ''lpcm''
     else if t_codec track = CODEC_AAC then Some ''mp4a''
     else if t_codec track = CODEC_ALAC then Some ''alac''
     else None)"

definition mov_audio_version :: "mp4_track \<Rightarrow> u8" where
  "mov_audio_version track =
    (let audio = obs_encoder_audio (t_encoder track)
     in if is_pcm track then 2
        else if audio_output_get_channels audio > 2 \<or> audio_output_get_sample_rate audio > 65535 then 2
        else 1)"

definition mp4_write_mov_audio_tag :: "mp4_mux \<Rightarrow> mp4_track \<Rightarrow> ('s serializer, nat) state" where
  "mp4_write_mov_audio_tag mux track = do {
     start \<leftarrow> serializer_get_pos;
     let version = mov_audio_version track;
     (case mov_audio_tag track of
        None \<Rightarrow> State_Monad.return 0
      | Some tag \<Rightarrow> do {
          write_box 0 tag;
          mp4_write_audio_sample_entry mux track version;
          (if version = 1 then mp4_write_wave track tag else State_Monad.return 0);
          mp4_write_chan track;
          write_box_size start }) }"

definition stsd_version :: "mp4_mux \<Rightarrow> mp4_track \<Rightarrow> u8" where
  "stsd_version mux track =
    (if t_type track = TRACK_AUDIO \<and> m_flavor mux \<noteq> FLAVOR_MOV then
       if audio_output_get_channels (obs_encoder_audio (t_encoder track)) > 2 then 1 else 0
     else 0)"

definition mp4_write_stsd :: "mp4_env \<Rightarrow> mp4_mux \<Rightarrow> mp4_track \<Rightarrow> ('s serializer, nat) state" where
  "mp4_write_stsd env mux track = do {
     start \<leftarrow> serializer_get_pos;
     let version = stsd_version mux track;
     write_fullbox 0 ''stsd'' version 0;
     s_wb32 1;
     (if t_type track = TRACK_VIDEO then
        if t_codec track = CODEC_H264 then mp4_write_avc1 env mux (t_encoder track)
        else if t_codec track = CODEC_HEVC then mp4_write_hvc1 env mux (t_encoder track)
        else if t_codec track = CODEC_AV1 then mp4_write_av01 env mux (t_encoder track)
        else if t_codec track = CODEC_PRORES then mp4_write_prores env mux (t_encoder track)
        else State_Monad.return 0
      else if t_type track = TRACK_AUDIO then
        if m_flavor mux = FLAVOR_MOV then mp4_write_mov_audio_tag mux track
        else if t_codec track = CODEC_AAC then mp4_write_mp4a mux track version
        else if t_codec track = CODEC_OPUS then mp4_write_Opus mux track version
        else if t_codec track = CODEC_FLAC then mp4_write_fLaC mux track version
        else if t_codec track = CODEC_ALAC then mp4_write_alac mux track version
        else if is_pcm track then mp4_write_xpcm mux track version
        else State_Monad.return 0
      else if t_type track = TRACK_CHAPTERS then mp4_write_text
      else State_Monad.return 0);
     write_box_size start }"

section \<open>Shapes\<close>

text \<open>
  The boxes each sample entry holds.  A codec configuration box is left out when the encoder
  has no extra data, and HDR boxes when the video is not HDR.
\<close>

definition extra_leaf :: "obs_encoder option \<Rightarrow> string \<Rightarrow> shape list" where
  "extra_leaf enc n = (if obs_encoder_get_extra_data enc = None then [] else [Leaf n])"

definition hdr_shapes :: "obs_encoder option \<Rightarrow> shape list" where
  "hdr_shapes enc = (if is_hdr enc then [Leaf ''clli'', Leaf ''mdcv''] else [])"

definition chnl_shapes :: "u8 \<Rightarrow> shape list" where
  "chnl_shapes version = (if version = 1 then [Leaf ''chnl''] else [])"

definition chan_shapes :: "mp4_track \<Rightarrow> shape list" where
  "chan_shapes track =
    (let speakers = au_speakers (audio_info (obs_encoder_audio (t_encoder track)));
         layout = get_mov_channel_layout (t_codec track) speakers
     in if layout = kAudioChannelLayoutTag_UseChannelBitmap \<and> get_mov_channel_bitmap speakers = 0 then []
        else [Leaf ''chan''])"

definition stsd_shapes :: "mp4_mux \<Rightarrow> mp4_track \<Rightarrow> shape list" where
  "stsd_shapes mux track =
    (let enc = t_encoder track; version = stsd_version mux track
     in if t_type track = TRACK_VIDEO then
          if t_codec track = CODEC_H264 then
            [Node ''avc1'' (extra_leaf enc ''avcC'' @ [Leaf ''colr'', Leaf ''pasp''])]
          else if t_codec track = CODEC_HEVC then
            [Node ''hvc1'' (extra_leaf enc ''hvcC'' @ [Leaf ''colr''] @ hdr_shapes enc @ [Leaf ''pasp''])]
          else if t_codec track = CODEC_AV1 then
            [Node ''av01'' (extra_leaf enc ''av1C'' @ [Leaf ''colr''] @ hdr_shapes enc @ [Leaf ''pasp''])]
          else if t_codec track = CODEC_PRORES then
            [Node (prores_tag enc) ([Leaf ''colr''] @ hdr_shapes enc @ [Leaf ''pasp''])]
          else []
        else if t_type track = TRACK_AUDIO then
          if m_flavor mux = FLAVOR_MOV then
            (case mov_audio_tag track of
               None \<Rightarrow> []
             | Some tag \<Rightarrow>
                 [Node tag ((if mov_audio_version track = 1 then [Leaf ''wave''] else []) @ chan_shapes track)])
          else if t_codec track = CODEC_AAC then [Node ''mp4a'' ([Leaf ''esds''] @ chnl_shapes version)]
          else if t_codec track = CODEC_OPUS then [Node ''Opus'' (extra_leaf enc ''dOps'' @ chnl_shapes version)]
          else if t_codec track = CODEC_FLAC then [Node ''fLaC'' (extra_leaf enc ''dfLa'' @ chnl_shapes version)]
          else if t_codec track = CODEC_ALAC then
            (if obs_encoder_get_extra_data enc = None then [] else [Node ''alac'' (chnl_shapes version)])
          else if is_pcm track then
            [Node (if t_codec track = CODEC_PCM_F32 then ''fpcm'' else ''ipcm'') [Leaf ''chnl'', Leaf ''pcmC'']]
          else []
        else if t_type track = TRACK_CHAPTERS then [Leaf ''text'']
        else [])"

text \<open>
  The codec configuration boxes state their size in advance, in 32 bits: the parsed extra
  data of the encoder has to fit.
\<close>

definition encoder_ok :: "mp4_env \<Rightarrow> obs_encoder option \<Rightarrow> bool" where
  "encoder_ok env enc = (case obs_encoder_get_extra_data enc of
      None \<Rightarrow> True
    | Some d \<Rightarrow> length (obs_parse_avc_header (env_addr env d) d) + 8 \<le> UINT32_MAX \<and>
                length (hevc_config env d) + 8 \<le> UINT32_MAX \<and>
                length (av1_config env d) + 8 \<le> UINT32_MAX)"

lemma length_prores_tag [simp]: "length (prores_tag enc) = 4"
  by (simp add: prores_tag_def Let_def)

lemma length_compressor_name: "length (compressor_name enc) = 32"
  by (auto simp: compressor_name_def Let_def split: option.split)

context output_serializer
begin

lemma config_box:
  assumes "length data + 8 \<le> UINT32_MAX"
  shows "emits_shapes (do { write_box (length data + 8) n; s_write data; State_Monad.return r }) [Leaf n]"
proof (rule fixed_box [OF _ assms])
  show "emits_len (s_write data \<bind> (\<lambda>_. State_Monad.return r)) (length data + 0) r"
    by (rule emits_len_then emits_len_prims)+
qed (simp add: ac_simps)

lemma shapes_config:
  assumes "encoder_ok env enc"
  shows "emits_shapes (mp4_write_avcC env enc) (extra_leaf enc ''avcC'')"
    "emits_shapes (mp4_write_hvcC env enc) (extra_leaf enc ''hvcC'')"
    "emits_shapes (mp4_write_av1C env enc) (extra_leaf enc ''av1C'')"
  using assms unfolding mp4_write_avcC_def mp4_write_hvcC_def mp4_write_av1C_def extra_leaf_def encoder_ok_def
  by (auto simp: Let_def intro: shapes_return config_box split: option.split)

lemma shapes_colr: "emits_shapes (mp4_write_colr enc) [Leaf ''colr'']"
proof -
  obtain a b c d where "get_colour_information enc = (a, b, c, d)" by (cases "get_colour_information enc")
  then show ?thesis
    unfolding mp4_write_colr_def Let_def
    by simp (rule fixed_box, (rule emits_len_then emits_len_prims emits_len_s_str refl)+, simp_all add: UINT32_MAX_def)
qed

lemma shapes_pasp: "emits_shapes mp4_write_pasp [Leaf ''pasp'']"
  unfolding mp4_write_pasp_def
  by (rule fixed_box, (rule emits_len_then emits_len_prims)+) (simp_all add: UINT32_MAX_def)

lemma shapes_clli: "emits_shapes (mp4_write_clli env enc) (if \<not> is_hdr enc then [] else [Leaf ''clli''])"
  unfolding mp4_write_clli_def
  by (rule shapes_if shapes_return fixed_box, (rule shapes_return fixed_box emits_len_then emits_len_prims)+)
    (simp_all add: UINT32_MAX_def)

lemma shapes_mdcv: "emits_shapes (mp4_write_mdcv env enc) (if \<not> is_hdr enc then [] else [Leaf ''mdcv''])"
  unfolding mp4_write_mdcv_def
  by (rule shapes_if shapes_return fixed_box, (rule shapes_return fixed_box emits_len_then emits_len_prims)+)
    (simp_all add: UINT32_MAX_def)

lemma emitting_visual: "emitting (mp4_write_visual_sample_entry mux enc)"
  unfolding mp4_write_visual_sample_entry_def by (rule emitting_rules)+

lemmas visual_tails = tail_raw [OF emitting_visual] tail_shapes [OF shapes_colr] tail_shapes [OF shapes_pasp]
  tail_shapes [OF shapes_clli] tail_shapes [OF shapes_mdcv]

lemma node_avc1:
  assumes "encoder_ok env enc"
  shows "writes_node (mp4_write_avc1 env mux enc) ''avc1'' (extra_leaf enc ''avcC'' @ [Leaf ''colr'', Leaf ''pasp''])"
  unfolding mp4_write_avc1_def
  by (rule node_start tail_done visual_tails tail_shapes [OF shapes_config(1) [OF assms]] | simp)+

lemma node_hvc1:
  assumes "encoder_ok env enc"
  shows "writes_node (mp4_write_hvc1 env mux enc) ''hvc1''
    (extra_leaf enc ''hvcC'' @ [Leaf ''colr''] @ hdr_shapes enc @ [Leaf ''pasp''])"
  unfolding mp4_write_hvc1_def
  by (rule node_start tail_done visual_tails tail_shapes [OF shapes_config(2) [OF assms]] | simp add: hdr_shapes_def)+

lemma node_av01:
  assumes "encoder_ok env enc"
  shows "writes_node (mp4_write_av01 env mux enc) ''av01''
    (extra_leaf enc ''av1C'' @ [Leaf ''colr''] @ hdr_shapes enc @ [Leaf ''pasp''])"
  unfolding mp4_write_av01_def
  by (rule node_start tail_done visual_tails tail_shapes [OF shapes_config(3) [OF assms]] | simp add: hdr_shapes_def)+

lemma node_prores:
  "writes_node (mp4_write_prores env mux enc) (prores_tag enc) ([Leaf ''colr''] @ hdr_shapes enc @ [Leaf ''pasp''])"
  unfolding mp4_write_prores_def
  by (rule node_start tail_done visual_tails | simp add: hdr_shapes_def)+

lemma emitting_put_descr: "emitting (put_descr tag sz)"
  unfolding put_descr_def by (rule emitting_rules)+

lemma node_esds: "writes_node (mp4_write_esds track) ''esds'' []"
  unfolding mp4_write_esds_def Let_def
  by (rule node_start_full tail_done refl raws tail_raw [OF emitting_put_descr]
      | rule tail_raw emitting_put_descr emitting_rules | simp)+

lemma emitting_audio: "emitting (mp4_write_audio_sample_entry mux track version)"
  unfolding mp4_write_audio_sample_entry_def Let_def by (rule emitting_rules)+

lemma node_chnl: "writes_node (mp4_write_chnl track) ''chnl'' []"
  unfolding mp4_write_chnl_def Let_def split_beta
  by (rule node_start_full tail_done refl raws | rule tail_raw emitting_rules | simp)+

lemma node_pcmc: "writes_node (mp4_write_pcmc track) ''pcmC'' []"
  unfolding mp4_write_pcmc_def
  by (rule node_start_full tail_done refl raws | rule tail_raw emitting_rules | simp)+

lemma node_text: "writes_node mp4_write_text ''text'' []"
  unfolding mp4_write_text_def
  by (rule node_start_full tail_done refl raws | simp)+

lemma shapes_dfLa: "emits_shapes (mp4_write_dfLa track) (extra_leaf (t_encoder track) ''dfLa'')"
proof (cases "obs_encoder_get_extra_data (t_encoder track)")
  case None
  then show ?thesis by (simp add: mp4_write_dfLa_def extra_leaf_def shapes_get_pos shapes_return)
next
  case (Some d)
  have "writes_node (mp4_write_dfLa track) ''dfLa'' []"
    unfolding mp4_write_dfLa_def Some option.case
    by (rule node_start_full tail_done refl raws | simp)+
  then show ?thesis using Some by (simp add: extra_leaf_def shapes_node)
qed

lemma shapes_dOps: "emits_shapes (mp4_write_dOps track) (extra_leaf (t_encoder track) ''dOps'')"
proof (cases "obs_encoder_get_extra_data (t_encoder track)")
  case None
  then show ?thesis by (simp add: mp4_write_dOps_def extra_leaf_def shapes_get_pos shapes_return)
next
  case (Some d)
  have "writes_node (mp4_write_dOps track) ''dOps'' []"
    unfolding mp4_write_dOps_def Some option.case Let_def
    by (rule node_start tail_done refl raws | rule tail_raw emitting_rules | simp)+
  then show ?thesis using Some by (simp add: extra_leaf_def shapes_node)
qed

lemma shapes_opt_chnl:
  "emits_shapes (if version = 1 then mp4_write_chnl track else State_Monad.return 0) (chnl_shapes version)"
  using shapes_node [OF node_chnl] by (simp add: chnl_shapes_def shapes_return)

lemmas audio_tails = tail_raw [OF emitting_audio] tail_shapes [OF shapes_opt_chnl]
  tail_shapes [OF shapes_node [OF node_chnl]] tail_shapes [OF shapes_node [OF node_pcmc]]
  tail_shapes [OF shapes_node [OF node_esds]] tail_shapes [OF shapes_dfLa] tail_shapes [OF shapes_dOps]

lemma node_mp4a: "writes_node (mp4_write_mp4a mux track version) ''mp4a'' ([Leaf ''esds''] @ chnl_shapes version)"
  unfolding mp4_write_mp4a_def by (rule node_start tail_done audio_tails | simp)+

lemma node_Opus:
  "writes_node (mp4_write_Opus mux track version) ''Opus'' (extra_leaf (t_encoder track) ''dOps'' @ chnl_shapes version)"
  unfolding mp4_write_Opus_def by (rule node_start tail_done audio_tails | simp)+

lemma node_fLaC:
  "writes_node (mp4_write_fLaC mux track version) ''fLaC'' (extra_leaf (t_encoder track) ''dfLa'' @ chnl_shapes version)"
  unfolding mp4_write_fLaC_def by (rule node_start tail_done audio_tails | simp)+

lemma node_xpcm:
  "writes_node (mp4_write_xpcm mux track version) (if t_codec track = CODEC_PCM_F32 then ''fpcm'' else ''ipcm'')
    [Leaf ''chnl'', Leaf ''pcmC'']"
  unfolding mp4_write_xpcm_def by (rule node_start tail_done audio_tails | simp)+

lemma shapes_alac:
  "emits_shapes (mp4_write_alac mux track version)
    (if obs_encoder_get_extra_data (t_encoder track) = None then [] else [Node ''alac'' (chnl_shapes version)])"
proof (cases "obs_encoder_get_extra_data (t_encoder track)")
  case None
  then show ?thesis by (simp add: mp4_write_alac_def shapes_get_pos shapes_return)
next
  case (Some d)
  have "writes_node (mp4_write_alac mux track version) ''alac'' (chnl_shapes version)"
    unfolding mp4_write_alac_def Some option.case
    by (rule node_start tail_done audio_tails raws | simp)+
  then show ?thesis using Some by (simp add: shapes_node)
qed

lemma node_wave: "writes_node (mp4_write_wave track tag) ''wave'' []"
  unfolding mp4_write_wave_def
  by (rule node_start tail_done refl raws
      | rule tail_raw emitting_rules emitting_shapes [OF shapes_node [OF node_esds]] | simp)+

lemma shapes_chan: "emits_shapes (mp4_write_chan track) (chan_shapes track)"
proof -
  define speakers where "speakers = au_speakers (audio_info (obs_encoder_audio (t_encoder track)))"
  define layout where "layout = get_mov_channel_layout (t_codec track) speakers"
  show ?thesis
  proof (cases "layout = kAudioChannelLayoutTag_UseChannelBitmap \<and> get_mov_channel_bitmap speakers = 0")
    case True
    then show ?thesis
      by (simp add: mp4_write_chan_def chan_shapes_def speakers_def layout_def Let_def shapes_get_pos shapes_return)
  next
    case False
    then have c: "(layout = kAudioChannelLayoutTag_UseChannelBitmap \<and>
        (if layout = kAudioChannelLayoutTag_UseChannelBitmap then get_mov_channel_bitmap speakers else 0) = 0) = False"
      by auto
    have "writes_node (mp4_write_chan track) ''chan'' []"
      unfolding mp4_write_chan_def Let_def speakers_def [symmetric] layout_def [symmetric] c if_False
      by (rule node_start_full tail_done refl raws | simp)+
    then show ?thesis using False
      by (auto simp: chan_shapes_def speakers_def [symmetric] layout_def [symmetric] Let_def intro: shapes_node)
  qed
qed

lemma shapes_mov_audio_tag:
  "emits_shapes (mp4_write_mov_audio_tag mux track)
    (case mov_audio_tag track of
       None \<Rightarrow> []
     | Some tag \<Rightarrow> [Node tag ((if mov_audio_version track = 1 then [Leaf ''wave''] else []) @ chan_shapes track)])"
proof (cases "mov_audio_tag track")
  case None
  then show ?thesis by (simp add: mp4_write_mov_audio_tag_def shapes_get_pos shapes_return)
next
  case (Some tag)
  then have len: "4 \<le> length tag" by (auto simp: mov_audio_tag_def split: if_splits)
  have "writes_node (mp4_write_mov_audio_tag mux track) tag
      ((if mov_audio_version track = 1 then [Leaf ''wave''] else []) @ chan_shapes track)"
    unfolding mp4_write_mov_audio_tag_def Let_def Some option.case
    by (rule node_start, rule audio_tails(1), rule tail_shapes [OF shapes_if [OF shapes_node [OF node_wave] shapes_return]],
        rule tail_shapes [OF shapes_chan], rule tail_done) (simp_all add: len)
  then show ?thesis using Some by (simp add: shapes_node)
qed

lemma node_stsd:
  assumes "encoder_ok env (t_encoder track)"
  shows "writes_node (mp4_write_stsd env mux track) ''stsd'' (stsd_shapes mux track)"
  unfolding mp4_write_stsd_def Let_def
proof (rule node_start_full, rule raws, rule tail_shapes [where ?s1.0 = "stsd_shapes mux track"])
  show "emits_shapes
     (if t_type track = TRACK_VIDEO then
        if t_codec track = CODEC_H264 then mp4_write_avc1 env mux (t_encoder track)
        else if t_codec track = CODEC_HEVC then mp4_write_hvc1 env mux (t_encoder track)
        else if t_codec track = CODEC_AV1 then mp4_write_av01 env mux (t_encoder track)
        else if t_codec track = CODEC_PRORES then mp4_write_prores env mux (t_encoder track)
        else State_Monad.return 0
      else if t_type track = TRACK_AUDIO then
        if m_flavor mux = FLAVOR_MOV then mp4_write_mov_audio_tag mux track
        else if t_codec track = CODEC_AAC then mp4_write_mp4a mux track (stsd_version mux track)
        else if t_codec track = CODEC_OPUS then mp4_write_Opus mux track (stsd_version mux track)
        else if t_codec track = CODEC_FLAC then mp4_write_fLaC mux track (stsd_version mux track)
        else if t_codec track = CODEC_ALAC then mp4_write_alac mux track (stsd_version mux track)
        else if is_pcm track then mp4_write_xpcm mux track (stsd_version mux track)
        else State_Monad.return 0
      else if t_type track = TRACK_CHAPTERS then mp4_write_text
      else State_Monad.return 0) (stsd_shapes mux track)"
    unfolding stsd_shapes_def Let_def
    by (rule shapes_mov_audio_tag shapes_alac shapes_if shapes_return shapes_node
        node_avc1 node_hvc1 node_av01 node_prores node_mp4a node_Opus node_fLaC node_xpcm node_text assms)+
next
  show "box_tail ''stsd'' ([] @ stsd_shapes mux track) (stsd_shapes mux track) write_box_size"
    by (rule tail_done) simp_all
qed

end

end
