(* ===== verification/Mp4_Tables.thy ===== *)
theory Mp4_Tables
  imports Mp4_Sample_Entry
begin

text \<open>
  The sample table box of \<open>mp4-mux.c\<close>: decoding times, sync samples, composition offsets,
  sample-to-chunk runs, sample sizes, chunk offsets and the audio roll groups.  Beside its
  nesting, the content of each table is given byte for byte, and the run-length encoding of
  the sample-to-chunk table is shown to be lossless.
\<close>

section \<open>The tables\<close>

definition mp4_write_stts :: "mp4_track \<Rightarrow> bool \<Rightarrow> ('s serializer, nat) state" where
  "mp4_write_stts track fragmented =
    (if fragmented then do {
       write_fullbox 16 ''stts'' 0 0;
       s_wb32 0;
       State_Monad.return 16 }
     else do {
       start \<leftarrow> serializer_get_pos;
       write_fullbox 0 ''stts'' 0 0;
       s_wb32 (word_of_nat (length (t_deltas track)));
       for_each (\<lambda>smp. do {
           s_wb32 (sd_count smp);
           s_wb32 (ucast (util_mul_div64 (ucast (sd_delta smp)) (ucast (t_timescale track)) (ucast (t_timebase_den track)))) })
         (t_deltas track);
       write_box_size start })"

definition mp4_write_stss :: "mp4_track \<Rightarrow> ('s serializer, nat) state" where
  "mp4_write_stss track =
    (let num = (word_of_nat (length (t_sync_samples track)) :: u32)
     in if num = 0 then State_Monad.return 0
        else
          (let sz = 16 + 4 * num in do {
             write_fullbox (unat sz) ''stss'' 0 0;
             s_wb32 num;
             for_each s_wb32 (take (unat num) (t_sync_samples track));
             State_Monad.return (unat sz) }))"

definition ctts_offset :: "mp4_track \<Rightarrow> sample_offset \<Rightarrow> u32" where
  "ctts_offset track off =
    ucast (s64_div (scast (so_offset off) * ucast (t_timescale track)) (ucast (t_timebase_den track)))"

definition mp4_write_ctts :: "mp4_mux \<Rightarrow> mp4_track \<Rightarrow> ('s serializer, nat) state" where
  "mp4_write_ctts mux track =
    (let num = (word_of_nat (length (t_offsets track)) :: u32);
         version = (if MP4_USE_NEGATIVE_CTS (m_flags mux) then 1 else 0);
         sz = 16 + 8 * num
     in do {
       write_fullbox (unat sz) ''ctts'' version 0;
       s_wb32 num;
       for_each (\<lambda>off. do { s_wb32 (so_count off); s_wb32 (ctts_offset track off) })
         (take (unat num) (t_offsets track));
       State_Monad.return (unat sz) })"

text \<open>A chunk run: its first chunk, counted from one, and its samples per chunk.\<close>

record chunk_run =
  cr_first :: u32
  cr_samples :: u32

fun chunk_runs :: "nat \<Rightarrow> chunk_run list \<Rightarrow> chunk list \<Rightarrow> chunk_run list" where
  "chunk_runs idx runs [] = runs"
| "chunk_runs idx runs (chk # chks) =
    chunk_runs (idx + 1)
      (if runs = [] \<or> cr_samples (last runs) \<noteq> ch_samples chk
       then runs @ [\<lparr>cr_first = word_of_nat idx + 1, cr_samples = ch_samples chk\<rparr>] else runs) chks"

definition mp4_write_stsc :: "mp4_track \<Rightarrow> bool \<Rightarrow> ('s serializer, nat) state" where
  "mp4_write_stsc track fragmented =
    (if fragmented then do {
       write_fullbox 16 ''stsc'' 0 0;
       s_wb32 0;
       State_Monad.return 16 }
     else
       (let runs = chunk_runs 0 [] (t_chunks track);
            num = (word_of_nat (length runs) :: u32);
            sz = 16 + 12 * num
        in do {
          write_fullbox (unat sz) ''stsc'' 0 0;
          s_wb32 num;
          for_each (\<lambda>cr. do { s_wb32 (cr_first cr); s_wb32 (cr_samples cr); s_wb32 1 }) (take (unat num) runs);
          State_Monad.return (unat sz) }))"

definition mp4_write_stsz :: "mp4_track \<Rightarrow> bool \<Rightarrow> ('s serializer, nat) state" where
  "mp4_write_stsz track fragmented =
    (if fragmented then do {
       write_fullbox 20 ''stsz'' 0 0;
       s_wb32 0;
       s_wb32 0;
       State_Monad.return 20 }
     else do {
       start \<leftarrow> serializer_get_pos;
       write_fullbox 0 ''stsz'' 0 0;
       (if t_sample_size track \<noteq> 0 then do {
          s_wb32 (t_sample_size track);
          s_wb32 (ucast (t_samples track)) }
        else do {
          s_wb32 0;
          s_wb32 (word_of_nat (length (t_sample_sizes track)));
          for_each s_wb32 (t_sample_sizes track) });
       write_box_size start })"

text \<open>
  The width of the chunk offsets is chosen by the last one.  The C code reads
  \<open>arr[num - 1]\<close>, so a track must have a chunk when the final table is written; without one
  the model takes 0 for that read.
\<close>

definition stco_wide :: "mp4_track \<Rightarrow> bool" where
  "stco_wide track \<longleftrightarrow>
    (let num = unat (word_of_nat (length (t_chunks track)) :: u32)
     in num \<noteq> 0 \<and> unat (ch_offset (t_chunks track ! (num - 1))) > UINT32_MAX)"

definition mp4_write_stco :: "mp4_track \<Rightarrow> bool \<Rightarrow> ('s serializer, nat) state" where
  "mp4_write_stco track fragmented =
    (if fragmented then do {
       write_fullbox 16 ''stco'' 0 0;
       s_wb32 0;
       State_Monad.return 16 }
     else
       (let num = (word_of_nat (length (t_chunks track)) :: u32); co64 = stco_wide track;
            sz = (if co64 then 16 + 8 * num else 16 + 4 * num)
        in do {
          write_fullbox (unat sz) (if co64 then ''co64'' else ''stco'') 0 0;
          s_wb32 num;
          for_each (\<lambda>c. if co64 then s_wb64 (ch_offset c) else s_wb32 (ucast (ch_offset c)))
            (take (unat num) (t_chunks track));
          State_Monad.return (unat sz) }))"

definition mp4_write_sgpd_aac :: "('s serializer, nat) state" where
  "mp4_write_sgpd_aac = do {
     start \<leftarrow> serializer_get_pos;
     write_fullbox 0 ''sgpd'' 1 0;
     s_str ''roll'';
     s_wb32 2;
     s_wb32 1;
     s_wb16 (-1);
     write_box_size start }"

definition mp4_write_sbgp_aac :: "mp4_track \<Rightarrow> ('s serializer, nat) state" where
  "mp4_write_sbgp_aac track = do {
     start \<leftarrow> serializer_get_pos;
     write_fullbox 0 ''sbgp'' 0 0;
     s_str ''roll'';
     s_wb32 1;
     s_wb32 (ucast (t_samples track));
     s_wb32 1;
     write_box_size start }"

text \<open>The preroll loop: how many of the first samples make up 80 ms, from the run-length table.\<close>

fun preroll_inner :: "nat \<Rightarrow> int \<Rightarrow> int \<times> u16 \<Rightarrow> int \<times> u16" where
  "preroll_inner 0 delta (remaining, count) = (remaining, count)"
| "preroll_inner (Suc n) delta (remaining, count) =
    (if remaining > 0 then preroll_inner n delta (remaining - delta, count + 1) else (remaining, count))"

fun preroll_outer :: "sample_delta list \<Rightarrow> int \<times> u16 \<Rightarrow> int \<times> u16" where
  "preroll_outer [] (remaining, count) = (remaining, count)"
| "preroll_outer (d # ds) (remaining, count) =
    (if remaining > 0 then
       preroll_outer ds (preroll_inner (unat (sd_count d)) (uint (sd_delta d)) (remaining, count))
     else (remaining, count))"

definition preroll_count :: "mp4_track \<Rightarrow> u16" where
  "preroll_count track = snd (preroll_outer (t_deltas track) (3840, 0))"

definition mp4_write_sbgp_sbgp_opus :: "mp4_track \<Rightarrow> ('s serializer, nat) state" where
  "mp4_write_sbgp_sbgp_opus track = do {
     size_sgpd \<leftarrow> do {
       start \<leftarrow> serializer_get_pos;
       write_fullbox 0 ''sgpd'' 1 0;
       s_str ''roll'';
       s_wb32 2;
       s_wb32 1;
       s_wb16 (- preroll_count track);
       write_box_size start };
     size_sbgp \<leftarrow> do {
       start \<leftarrow> serializer_get_pos;
       write_fullbox 0 ''sbgp'' 0 0;
       s_str ''roll'';
       s_wb32 2;
       s_wb32 (ucast (preroll_count track));
       s_wb32 0;
       s_wb32 (ucast (t_samples track) - ucast (preroll_count track));
       s_wb32 1;
       write_box_size start };
     State_Monad.return (size_sgpd + size_sbgp) }"

definition mp4_write_stbl :: "mp4_env \<Rightarrow> mp4_mux \<Rightarrow> mp4_track \<Rightarrow> bool \<Rightarrow> ('s serializer, nat) state" where
  "mp4_write_stbl env mux track fragmented = do {
     start \<leftarrow> serializer_get_pos;
     write_box 0 ''stbl'';
     mp4_write_stsd env mux track;
     mp4_write_stts track fragmented;
     (if t_type track = TRACK_VIDEO \<and> \<not> fragmented \<and> t_codec track \<noteq> CODEC_PRORES then mp4_write_stss track
      else State_Monad.return 0);
     (if t_needs_ctts track \<and> \<not> fragmented then mp4_write_ctts mux track else State_Monad.return 0);
     mp4_write_stsc track fragmented;
     mp4_write_stsz track fragmented;
     mp4_write_stco track fragmented;
     (if \<not> fragmented then
        if t_codec track = CODEC_AAC then do { mp4_write_sgpd_aac; mp4_write_sbgp_aac track }
        else if t_codec track = CODEC_OPUS then mp4_write_sbgp_sbgp_opus track
        else State_Monad.return 0
      else State_Monad.return 0);
     write_box_size start }"

section \<open>The tables, byte for byte\<close>

definition stts_body :: "mp4_track \<Rightarrow> byte list" where
  "stts_body track = be32 (word_of_nat (length (t_deltas track))) @
     concat (map (\<lambda>smp. be32 (sd_count smp) @
       be32 (ucast (util_mul_div64 (ucast (sd_delta smp)) (ucast (t_timescale track)) (ucast (t_timebase_den track)))))
     (t_deltas track))"

definition stss_body :: "mp4_track \<Rightarrow> byte list" where
  "stss_body track =
    (let num = (word_of_nat (length (t_sync_samples track)) :: u32)
     in be32 num @ concat (map be32 (take (unat num) (t_sync_samples track))))"

definition ctts_body :: "mp4_track \<Rightarrow> byte list" where
  "ctts_body track =
    (let num = (word_of_nat (length (t_offsets track)) :: u32)
     in be32 num @ concat (map (\<lambda>off. be32 (so_count off) @ be32 (ctts_offset track off))
          (take (unat num) (t_offsets track))))"

definition stsc_body :: "mp4_track \<Rightarrow> byte list" where
  "stsc_body track =
    (let runs = chunk_runs 0 [] (t_chunks track); num = (word_of_nat (length runs) :: u32)
     in be32 num @ concat (map (\<lambda>cr. be32 (cr_first cr) @ be32 (cr_samples cr) @ be32 1) (take (unat num) runs)))"

definition stsz_body :: "mp4_track \<Rightarrow> byte list" where
  "stsz_body track =
    (if t_sample_size track \<noteq> 0 then be32 (t_sample_size track) @ be32 (ucast (t_samples track))
     else be32 0 @ be32 (word_of_nat (length (t_sample_sizes track))) @ concat (map be32 (t_sample_sizes track)))"

definition stco_name :: "mp4_track \<Rightarrow> string" where
  "stco_name track = (if stco_wide track then ''co64'' else ''stco'')"

definition stco_body :: "mp4_track \<Rightarrow> byte list" where
  "stco_body track =
    (let num = (word_of_nat (length (t_chunks track)) :: u32)
     in be32 num @ concat (map (\<lambda>c. if stco_wide track then be64 (ch_offset c) else be32 (ucast (ch_offset c)))
          (take (unat num) (t_chunks track))))"

definition fullbox :: "string \<Rightarrow> u8 \<Rightarrow> byte list \<Rightarrow> byte list" where
  "fullbox n v body = mkbox n ([v] @ be24 0 @ body)"

lemma length_concat_const: "(\<And>x. length (f x) = k) \<Longrightarrow> length (concat (map f xs)) = k * length xs"
  by (induction xs) simp_all

lemma unat_u32_le: "unat (w :: u32) \<le> UINT32_MAX"
  using unsigned_less [where ?'a = nat and w = w] by (simp add: UINT32_MAX_def)

lemma min_num [simp]: "min (n :: nat) (unat (word_of_nat n :: u32)) = unat (word_of_nat n :: u32)"
  by (simp add: unat_of_nat min_def)

context output_serializer
begin

lemma emits_stts:
  "emits (mp4_write_stts track False) (fullbox ''stts'' 0 (stts_body track)) (12 + length (stts_body track))"
  unfolding mp4_write_stts_def if_False fullbox_def
  by (rule emits_fullbox, (rule finishes_bind emit_intros)+,
      rule finishes_size [where body = "[0] @ be24 0 @ stts_body track"])
    (simp_all add: stts_body_def length_mkbox)

lemma emits_stsz:
  "emits (mp4_write_stsz track False) (fullbox ''stsz'' 0 (stsz_body track)) (12 + length (stsz_body track))"
  unfolding mp4_write_stsz_def if_False fullbox_def
  by (rule emits_fullbox, (rule finishes_bind emit_intros)+,
      rule finishes_size [where body = "[0] @ be24 0 @ stsz_body track"])
    (simp_all add: stsz_body_def length_mkbox)

lemma emits_stss:
  assumes "(word_of_nat (length (t_sync_samples track)) :: u32) \<noteq> 0"
  shows "emits (mp4_write_stss track) (fullbox ''stss'' 0 (stss_body track))
    (unat (16 + 4 * word_of_nat (length (t_sync_samples track)) :: u32))"
proof -
  let ?num = "word_of_nat (length (t_sync_samples track)) :: u32"
  have "emits (do { s_wb32 ?num; for_each s_wb32 (take (unat ?num) (t_sync_samples track));
      State_Monad.return (unat (16 + 4 * ?num)) }) (be32 ?num @ concat (map be32 (take (unat ?num) (t_sync_samples track))) @ [])
      (unat (16 + 4 * ?num))"
    by (rule emit_intros)+
  then show ?thesis
    unfolding mp4_write_stss_def fullbox_def Let_def if_not_P [OF assms]
    by (intro emits_fixed_fullbox) (simp_all add: stss_body_def Let_def unat_u32_le length_concat_const)
qed

lemma emits_ctts:
  "emits (mp4_write_ctts mux track)
    (fullbox ''ctts'' (if MP4_USE_NEGATIVE_CTS (m_flags mux) then 1 else 0) (ctts_body track))
    (unat (16 + 8 * word_of_nat (length (t_offsets track)) :: u32))"
proof -
  let ?num = "word_of_nat (length (t_offsets track)) :: u32"
  have "emits (do { s_wb32 ?num; for_each (\<lambda>off. do { s_wb32 (so_count off); s_wb32 (ctts_offset track off) })
         (take (unat ?num) (t_offsets track)); State_Monad.return (unat (16 + 8 * ?num)) })
      (be32 ?num @ concat (map (\<lambda>off. be32 (so_count off) @ be32 (ctts_offset track off))
         (take (unat ?num) (t_offsets track))) @ []) (unat (16 + 8 * ?num))"
    by (rule emit_intros)+
  then show ?thesis
    unfolding mp4_write_ctts_def fullbox_def Let_def
    by (intro emits_fixed_fullbox) (simp_all add: ctts_body_def Let_def unat_u32_le length_concat_const)
qed

lemma emits_stsc:
  "emits (mp4_write_stsc track False) (fullbox ''stsc'' 0 (stsc_body track))
    (unat (16 + 12 * word_of_nat (length (chunk_runs 0 [] (t_chunks track))) :: u32))"
proof -
  let ?runs = "chunk_runs 0 [] (t_chunks track)"
  let ?num = "word_of_nat (length ?runs) :: u32"
  have "emits (do { s_wb32 ?num;
        for_each (\<lambda>cr. do { s_wb32 (cr_first cr); s_wb32 (cr_samples cr); s_wb32 1 }) (take (unat ?num) ?runs);
        State_Monad.return (unat (16 + 12 * ?num)) })
      (be32 ?num @ concat (map (\<lambda>cr. be32 (cr_first cr) @ be32 (cr_samples cr) @ be32 1) (take (unat ?num) ?runs)) @ [])
      (unat (16 + 12 * ?num))"
    by (rule emit_intros)+
  then show ?thesis
    unfolding mp4_write_stsc_def fullbox_def Let_def if_False
    by (intro emits_fixed_fullbox) (simp_all add: stsc_body_def Let_def unat_u32_le length_concat_const)
qed

lemma emits_stco:
  "emits (mp4_write_stco track False) (fullbox (stco_name track) 0 (stco_body track))
    (unat (if stco_wide track then 16 + 8 * word_of_nat (length (t_chunks track))
           else 16 + 4 * word_of_nat (length (t_chunks track)) :: u32))"
proof -
  let ?num = "word_of_nat (length (t_chunks track)) :: u32"
  let ?sz = "if stco_wide track then 16 + 8 * ?num else 16 + 4 * ?num"
  have "emits (do { s_wb32 ?num;
        for_each (\<lambda>c. if stco_wide track then s_wb64 (ch_offset c) else s_wb32 (ucast (ch_offset c)))
          (take (unat ?num) (t_chunks track));
        State_Monad.return (unat ?sz) })
      (be32 ?num @ concat (map (\<lambda>c. if stco_wide track then be64 (ch_offset c) else be32 (ucast (ch_offset c)))
          (take (unat ?num) (t_chunks track))) @ [])
      (unat ?sz)"
    by (rule emits_then, rule emits_s_wb32, rule emits_then, rule emits_for_each,
        simp add: emits_s_wb32 emits_s_wb64, rule emits_return)
  then show ?thesis
    unfolding mp4_write_stco_def fullbox_def Let_def if_False stco_name_def
    by (intro emits_fixed_fullbox) (simp_all add: stco_body_def Let_def unat_u32_le length_concat_const)
qed


text \<open>In a fragmented movie the tables are empty.\<close>

lemma shapes_fragmented_tables:
  "emits_shapes (mp4_write_stts track True) [Leaf ''stts'']"
  "emits_shapes (mp4_write_stsc track True) [Leaf ''stsc'']"
  "emits_shapes (mp4_write_stsz track True) [Leaf ''stsz'']"
  "emits_shapes (mp4_write_stco track True) [Leaf ''stco'']"
  unfolding mp4_write_stts_def mp4_write_stsc_def mp4_write_stsz_def mp4_write_stco_def if_True
  by (rule fixed_fullbox, (rule emits_len_then emits_len_prims)+, simp_all add: UINT32_MAX_def)+

lemma shapes_fullbox: "emits m (fullbox n v body) r \<Longrightarrow> emits_shapes m [Leaf n]"
  unfolding fullbox_def by (rule shapes_single [OF leafI])

lemma shapes_stts: "emits_shapes (mp4_write_stts track fragmented) [Leaf ''stts'']"
  using shapes_fragmented_tables(1) shapes_fullbox [OF emits_stts] by (cases fragmented) simp_all

lemma shapes_stsc: "emits_shapes (mp4_write_stsc track fragmented) [Leaf ''stsc'']"
  using shapes_fragmented_tables(2) shapes_fullbox [OF emits_stsc] by (cases fragmented) simp_all

lemma shapes_stsz: "emits_shapes (mp4_write_stsz track fragmented) [Leaf ''stsz'']"
  using shapes_fragmented_tables(3) shapes_fullbox [OF emits_stsz] by (cases fragmented) simp_all

lemma shapes_stco:
  "emits_shapes (mp4_write_stco track fragmented) [Leaf (if fragmented then ''stco'' else stco_name track)]"
  using shapes_fragmented_tables(4) shapes_fullbox [OF emits_stco] by (cases fragmented) simp_all

lemma shapes_stss:
  "emits_shapes (mp4_write_stss track)
    (if (word_of_nat (length (t_sync_samples track)) :: u32) = 0 then [] else [Leaf ''stss''])"
  using shapes_fullbox [OF emits_stss] by (simp add: mp4_write_stss_def shapes_return)

lemma node_sgpd_aac: "writes_node mp4_write_sgpd_aac ''sgpd'' []"
  unfolding mp4_write_sgpd_aac_def by (rule node_start_full tail_done refl raws | simp)+

lemma node_sbgp_aac: "writes_node (mp4_write_sbgp_aac track) ''sbgp'' []"
  unfolding mp4_write_sbgp_aac_def by (rule node_start_full tail_done refl raws | simp)+

lemma shapes_sbgp_opus: "emits_shapes (mp4_write_sbgp_sbgp_opus track) ([Leaf ''sgpd''] @ [Leaf ''sbgp''] @ [])"
  unfolding mp4_write_sbgp_sbgp_opus_def
  by (rule shapes_then shapes_node node_start_full tail_done refl raws shapes_return | simp)+

end

definition roll_shapes :: "mp4_track \<Rightarrow> shape list" where
  "roll_shapes track =
    (if t_codec track = CODEC_AAC \<or> t_codec track = CODEC_OPUS then [Leaf ''sgpd'', Leaf ''sbgp''] else [])"

definition stbl_shapes :: "mp4_mux \<Rightarrow> mp4_track \<Rightarrow> bool \<Rightarrow> shape list" where
  "stbl_shapes mux track fragmented =
    [Node ''stsd'' (stsd_shapes mux track), Leaf ''stts''] @
    (if t_type track = TRACK_VIDEO \<and> \<not> fragmented \<and> t_codec track \<noteq> CODEC_PRORES \<and>
        (word_of_nat (length (t_sync_samples track)) :: u32) \<noteq> 0 then [Leaf ''stss''] else []) @
    (if t_needs_ctts track \<and> \<not> fragmented then [Leaf ''ctts''] else []) @
    [Leaf ''stsc'', Leaf ''stsz'', Leaf (if fragmented then ''stco'' else stco_name track)] @
    (if fragmented then [] else roll_shapes track)"

context output_serializer
begin

lemma shapes_roll:
  "emits_shapes (if \<not> fragmented then
        if t_codec track = CODEC_AAC then do { mp4_write_sgpd_aac; mp4_write_sbgp_aac track }
        else if t_codec track = CODEC_OPUS then mp4_write_sbgp_sbgp_opus track
        else State_Monad.return 0
      else State_Monad.return 0) (if fragmented then [] else roll_shapes track)"
  using shapes_then [OF shapes_node [OF node_sgpd_aac] shapes_node [OF node_sbgp_aac]] shapes_sbgp_opus [of track]
  by (auto simp: roll_shapes_def shapes_return)

lemma node_stbl:
  assumes "encoder_ok env (t_encoder track)"
  shows "writes_node (mp4_write_stbl env mux track fragmented) ''stbl'' (stbl_shapes mux track fragmented)"
  unfolding mp4_write_stbl_def
  by (rule node_start, rule tail_shapes [OF shapes_node [OF node_stsd [OF assms]]], rule tail_shapes [OF shapes_stts],
      rule tail_shapes [OF shapes_if [OF shapes_stss shapes_return]],
      rule tail_shapes [OF shapes_if [OF shapes_fullbox [OF emits_ctts] shapes_return]],
      rule tail_shapes [OF shapes_stsc], rule tail_shapes [OF shapes_stsz], rule tail_shapes [OF shapes_stco],
      rule tail_shapes [OF shapes_roll], rule tail_done) (simp_all add: stbl_shapes_def)

end

section \<open>The sample-to-chunk table is lossless\<close>

text \<open>What a reader takes for a chunk: the samples of the last run that starts at or before it.\<close>

definition stsc_lookup :: "chunk_run list \<Rightarrow> nat \<Rightarrow> u32" where
  "stsc_lookup runs i = cr_samples (last (filter (\<lambda>cr. unat (cr_first cr) \<le> i) runs))"

definition runs_ok :: "chunk_run list \<Rightarrow> chunk list \<Rightarrow> bool" where
  "runs_ok runs done \<longleftrightarrow>
    (done = [] \<longrightarrow> runs = []) \<and>
    (done \<noteq> [] \<longrightarrow> runs \<noteq> [] \<and> cr_samples (last runs) = ch_samples (last done)) \<and>
    (\<forall>cr \<in> set runs. unat (cr_first cr) \<le> length done) \<and>
    (\<forall>i < length done. filter (\<lambda>cr. unat (cr_first cr) \<le> i + 1) runs \<noteq> [] \<and>
       stsc_lookup runs (i + 1) = ch_samples (done ! i))"

lemma runs_ok_extend:
  assumes "runs_ok runs done" and "length done + 1 < 2 ^ 32"
  shows "runs_ok (if runs = [] \<or> cr_samples (last runs) \<noteq> ch_samples chk
     then runs @ [\<lparr>cr_first = word_of_nat (length done) + 1, cr_samples = ch_samples chk\<rparr>] else runs) (done @ [chk])"
proof -
  have "(word_of_nat (length done) + 1 :: u32) = word_of_nat (length done + 1)" by simp
  then have w: "unat (word_of_nat (length done) + 1 :: u32) = length done + 1"
    using assms(2) by (simp only: unat_of_nat) simp
  have le: "\<forall>cr \<in> set runs. unat (cr_first cr) \<le> length done" using assms(1) by (simp add: runs_ok_def)
  have all: "filter (\<lambda>cr. unat (cr_first cr) \<le> length done + 1) runs = runs"
    using le by (intro filter_True) auto
  show ?thesis
    using assms(1) le all w by (auto simp: runs_ok_def stsc_lookup_def nth_append less_Suc_eq)
qed

lemma chunk_runs_ok:
  assumes "runs_ok runs done" and "length done + length chks < 2 ^ 32"
  shows "runs_ok (chunk_runs (length done) runs chks) (done @ chks)"
  using assms
proof (induction chks arbitrary: runs "done")
  case (Cons chk chks)
  have "length done + 1 < 2 ^ 32" using Cons.prems(2) by simp
  from Cons.IH [OF runs_ok_extend [OF Cons.prems(1) this, of chk]] show ?case
    using Cons.prems(2) by simp
qed simp

text \<open>
  C8. The run-length encoded sample-to-chunk table loses nothing: for every chunk of a track
  with fewer than \<open>2 ^ 32\<close> chunks, the last run that starts at or before it carries exactly
  that chunk's number of samples.
\<close>

theorem stsc_lossless:
  assumes "length chunks < 2 ^ 32" and "i < length chunks"
  shows "stsc_lookup (chunk_runs 0 [] chunks) (i + 1) = ch_samples (chunks ! i)"
proof -
  have "runs_ok [] []" by (simp add: runs_ok_def)
  from chunk_runs_ok [OF this, of chunks] assms show ?thesis by (simp add: runs_ok_def)
qed

theorem stsc_lossless_witness:
  "stsc_lookup (chunk_runs 0 [] [\<lparr>ch_offset = 48, ch_size = 9, ch_samples = 2\<rparr>, \<lparr>ch_offset = 57, ch_size = 8, ch_samples = 2\<rparr>,
     \<lparr>ch_offset = 65, ch_size = 5, ch_samples = 1\<rparr>]) (1 + 1) = 2"
  using stsc_lossless [of "[\<lparr>ch_offset = 48, ch_size = 9, ch_samples = 2\<rparr>, \<lparr>ch_offset = 57, ch_size = 8, ch_samples = 2\<rparr>,
     \<lparr>ch_offset = 65, ch_size = 5, ch_samples = 1\<rparr>]" 1] by simp

end
