(* ===== verification/Mp4_Movie.thy ===== *)
theory Mp4_Movie
  imports Mp4_Tables
begin

text \<open>
  The movie box of \<open>mp4-mux.c\<close>: track, media and edit boxes, track references, user data
  and metadata.  The nesting of the whole box is given by \<open>moov_shapes\<close>.
\<close>

section \<open>Media\<close>

definition mp4_write_url :: "('s serializer, nat) state" where
  "mp4_write_url = do {
     start \<leftarrow> serializer_get_pos;
     write_fullbox 0 ''url '' 0 1;
     write_box_size start }"

definition mp4_write_dref :: "('s serializer, nat) state" where
  "mp4_write_dref = do {
     start \<leftarrow> serializer_get_pos;
     write_fullbox 0 ''dref '' 0 0;
     s_wb32 1;
     mp4_write_url;
     write_box_size start }"

definition mp4_write_dinf :: "('s serializer, nat) state" where
  "mp4_write_dinf = do {
     start \<leftarrow> serializer_get_pos;
     write_box 0 ''dinf'';
     mp4_write_dref;
     write_box_size start }"

definition mp4_write_minf :: "mp4_env \<Rightarrow> mp4_mux \<Rightarrow> mp4_track \<Rightarrow> bool \<Rightarrow> ('s serializer, nat) state" where
  "mp4_write_minf env mux track fragmented = do {
     start \<leftarrow> serializer_get_pos;
     write_box 0 ''minf'';
     (if t_type track = TRACK_VIDEO then mp4_write_vmhd
      else if t_type track = TRACK_CHAPTERS then mp4_write_gmhd
      else mp4_write_smhd);
     (if m_flavor mux = FLAVOR_MOV then mp4_write_hdlr mux None else State_Monad.return 0);
     mp4_write_dinf;
     mp4_write_stbl env mux track fragmented;
     write_box_size start }"

definition mp4_write_mdia :: "mp4_env \<Rightarrow> mp4_mux \<Rightarrow> mp4_track \<Rightarrow> bool \<Rightarrow> ('s serializer, nat) state" where
  "mp4_write_mdia env mux track fragmented = do {
     start \<leftarrow> serializer_get_pos;
     write_box 0 ''mdia'';
     mp4_write_mdhd mux track;
     mp4_write_hdlr mux (Some track);
     mp4_write_minf env mux track fragmented;
     write_box_size start }"

section \<open>Tracks\<close>

definition mp4_write_udta_atom :: "string \<Rightarrow> string \<Rightarrow> ('s serializer, nat) state" where
  "mp4_write_udta_atom tag val = do {
     start \<leftarrow> serializer_get_pos;
     write_box 0 tag;
     s_str val;
     write_box_size start }"

text \<open>The encoder id is written when there is a name; an encoder has both or neither.\<close>

definition mp4_write_track_udta :: "mp4_mux \<Rightarrow> mp4_track \<Rightarrow> ('s serializer, nat) state" where
  "mp4_write_track_udta mux track = do {
     start \<leftarrow> serializer_get_pos;
     write_box 0 ''udta'';
     let name = obs_encoder_get_name (t_encoder track);
     (case name of Some nm \<Rightarrow> mp4_write_udta_atom ''name'' nm | None \<Rightarrow> State_Monad.return 0);
     (if MP4_WRITE_ENCODER_INFO (m_flags mux) then do {
        (case obs_encoder_get_id (t_encoder track) of
           Some i \<Rightarrow> if name \<noteq> None then mp4_write_udta_atom (CHR 0xA9 # ''enc'') i else State_Monad.return 0
         | None \<Rightarrow> State_Monad.return 0);
        (case obs_encoder_get_settings (t_encoder track) of
           Some settings \<Rightarrow> mp4_write_udta_atom ''json'' (set_json settings)
         | None \<Rightarrow> State_Monad.return 0) }
      else State_Monad.return 0);
     write_box_size start }"

text \<open>The media time and the segment duration of a track's only edit.\<close>

definition elst_dts_offset :: "mp4_track \<Rightarrow> s64" where
  "elst_dts_offset track =
    (if t_offsets track \<noteq> [] then scast (so_offset (hd (t_offsets track)))
     else if dq_size (t_packets track) \<noteq> 0 then
       (case deque_peek_front (t_packets track) 1 of
          [Some pkt] \<Rightarrow> p_pts pkt - p_dts pkt
        | _ \<Rightarrow> 0)
     else 0)"

definition elst_delay :: "mp4_mux \<Rightarrow> mp4_track \<Rightarrow> u64" where
  "elst_delay mux track =
    (if t_type track = TRACK_VIDEO \<and> \<not> MP4_USE_NEGATIVE_CTS (m_flags mux) then
       util_mul_div64 (elst_dts_offset track) (ucast (t_timescale track)) (ucast (t_timebase_den track))
     else if t_type track = TRACK_AUDIO \<and> sint (t_first_pts track) < 0 then
       util_mul_div64 (word_of_int \<bar>sint (t_first_pts track)\<bar>) (ucast (t_timescale track)) (ucast (t_timebase_den track))
     else 0)"

definition elst_duration :: "mp4_mux \<Rightarrow> mp4_track \<Rightarrow> u64" where
  "elst_duration mux track =
    (let duration = util_mul_div64 (t_duration track) 1000 (ucast (t_timebase_den track))
     in if t_type track = TRACK_VIDEO \<and> \<not> MP4_USE_NEGATIVE_CTS (m_flags mux) then duration
        else if t_type track = TRACK_AUDIO \<and> sint (t_first_pts track) < 0 then
          duration - util_mul_div64 (elst_delay mux track) 1000 (ucast (t_timescale track))
        else duration)"

definition mp4_write_elst :: "mp4_mux \<Rightarrow> mp4_track \<Rightarrow> ('s serializer, nat) state" where
  "mp4_write_elst mux track = do {
     start \<leftarrow> serializer_get_pos;
     write_fullbox 0 ''elst'' 0 0;
     s_wb32 1;
     s_wb32 (ucast (elst_duration mux track));
     s_wb32 (ucast (elst_delay mux track));
     s_wb32 (push_bit 16 1);
     write_box_size start }"

definition mp4_write_edts :: "mp4_mux \<Rightarrow> mp4_track \<Rightarrow> ('s serializer, nat) state" where
  "mp4_write_edts mux track = do {
     start \<leftarrow> serializer_get_pos;
     write_box 0 ''edts'';
     mp4_write_elst mux track;
     write_box_size start }"

definition mp4_write_chap :: "mp4_track \<Rightarrow> ('s serializer, nat) state" where
  "mp4_write_chap chapter_track = do {
     start \<leftarrow> serializer_get_pos;
     write_box 0 ''chap'';
     s_wb32 (ucast (t_track_id chapter_track));
     write_box_size start }"

definition mp4_write_tref :: "mp4_track \<Rightarrow> ('s serializer, nat) state" where
  "mp4_write_tref chapter_track = do {
     start \<leftarrow> serializer_get_pos;
     write_box 0 ''tref'';
     mp4_write_chap chapter_track;
     write_box_size start }"

definition mp4_write_trak :: "mp4_env \<Rightarrow> mp4_mux \<Rightarrow> mp4_track \<Rightarrow> bool \<Rightarrow> ('s serializer, nat) state" where
  "mp4_write_trak env mux track fragmented = do {
     start \<leftarrow> serializer_get_pos;
     (if \<not> fragmented \<and> t_chunks track = [] then State_Monad.return 0
      else do {
        write_box 0 ''trak'';
        mp4_write_tkhd mux track;
        mp4_write_edts mux track;
        (case m_chapter_track mux of
           Some chapters \<Rightarrow> if t_type track \<noteq> TRACK_CHAPTERS then mp4_write_tref chapters else State_Monad.return 0
         | None \<Rightarrow> State_Monad.return 0);
        mp4_write_mdia env mux track fragmented;
        mp4_write_track_udta mux track;
        write_box_size start }) }"

definition mp4_write_trex :: "u32 \<Rightarrow> ('s serializer, nat) state" where
  "mp4_write_trex track_id = do {
     write_fullbox 32 ''trex'' 0 0;
     s_wb32 track_id;
     s_wb32 1;
     s_wb32 0;
     s_wb32 0;
     s_wb32 0;
     State_Monad.return 32 }"

definition mp4_write_mvex :: "mp4_mux \<Rightarrow> ('s serializer, nat) state" where
  "mp4_write_mvex mux = do {
     start \<leftarrow> serializer_get_pos;
     write_box 0 ''mvex'';
     for_each (\<lambda>track_id. do { mp4_write_trex (word_of_nat (track_id + 1)); State_Monad.return () })
       [0..<length (m_tracks mux)];
     write_box_size start }"

section \<open>Metadata\<close>

definition mp4_write_itunes_hdlr :: "('s serializer, nat) state" where
  "mp4_write_itunes_hdlr = do {
     write_fullbox 33 ''hdlr'' 0 0;
     s_wb32 0;
     s_str ''mdir'';
     s_str ''appl'';
     s_wb32 0;
     s_wb32 0;
     s_w8 0;
     State_Monad.return 33 }"

definition mp4_write_data_atom :: "string \<Rightarrow> ('s serializer, nat) state" where
  "mp4_write_data_atom val = (let sz = 16 + (word_of_nat (length val) :: u32) in do {
     write_box (unat sz) ''data'';
     s_wb32 1;
     s_wb32 0;
     s_str val;
     State_Monad.return (unat sz) })"

definition mp4_write_string_data_atom :: "string \<Rightarrow> string \<Rightarrow> ('s serializer, nat) state" where
  "mp4_write_string_data_atom name val = do {
     start \<leftarrow> serializer_get_pos;
     let len = (word_of_nat (length val) :: u16);
     write_box 0 name;
     s_wb16 len;
     s_write [0x55, 0xC4];
     s_str (take (unat len) val);
     write_box_size start }"

definition mp4_write_ilst_item_atom :: "string \<Rightarrow> string \<Rightarrow> ('s serializer, nat) state" where
  "mp4_write_ilst_item_atom name val = do {
     start \<leftarrow> serializer_get_pos;
     write_box 0 name;
     mp4_write_data_atom val;
     write_box_size start }"

definition encoder_tool :: "mp4_env \<Rightarrow> string" where
  "encoder_tool env = ''OBS Studio ('' @ env_version_string env @ '')''"

definition mp4_write_ilst :: "mp4_env \<Rightarrow> ('s serializer, nat) state" where
  "mp4_write_ilst env = do {
     start \<leftarrow> serializer_get_pos;
     write_box 0 ''ilst'';
     mp4_write_ilst_item_atom (CHR 0xA9 # ''too'') (encoder_tool env);
     write_box_size start }"

definition mp4_write_mdta_hdlr :: "('s serializer, nat) state" where
  "mp4_write_mdta_hdlr = do {
     write_fullbox 33 ''hdlr'' 0 0;
     s_wb32 0;
     s_str ''mdta'';
     s_wb32 0;
     s_wb32 0;
     s_wb32 0;
     s_w8 0;
     State_Monad.return 33 }"

text \<open>The settings object with the metadata is the list of its items, names and strings.\<close>

definition mp4_write_mdta_keys :: "(string \<times> string) list \<Rightarrow> ('s serializer, nat) state" where
  "mp4_write_mdta_keys meta = do {
     start \<leftarrow> serializer_get_pos;
     write_fullbox 0 ''keys'' 0 0;
     count_pos \<leftarrow> serializer_get_pos;
     s_wb32 0;
     for_each (\<lambda>(name, val). do {
         write_box (length name + 8) ''mdta'';
         s_str name;
         State_Monad.return () }) meta;
     let count = word_of_nat (length meta);
     fin \<leftarrow> serializer_get_pos;
     serializer_seek count_pos SERIALIZE_SEEK_START;
     s_wb32 count;
     serializer_seek fin SERIALIZE_SEEK_START;
     write_box_size start }"

definition write_key_entry :: "string \<Rightarrow> u32 \<Rightarrow> ('s serializer, unit) state" where
  "write_key_entry val idx = do {
     start \<leftarrow> serializer_get_pos;
     s_wb32 0;
     s_wb32 idx;
     mp4_write_data_atom val;
     write_box_size start;
     State_Monad.return () }"

definition mp4_write_mdta_ilst :: "(string \<times> string) list \<Rightarrow> ('s serializer, nat) state" where
  "mp4_write_mdta_ilst meta = do {
     start \<leftarrow> serializer_get_pos;
     write_box 0 ''ilst'';
     for_each (\<lambda>((name, val), idx). write_key_entry val (word_of_nat (idx + 1))) (zip meta [0..<length meta]);
     write_box_size start }"

definition mp4_write_mdta_kv :: "mp4_env \<Rightarrow> ('s serializer, nat) state" where
  "mp4_write_mdta_kv env = (let meta = [(''tool'', encoder_tool env)] in do {
     mp4_write_mdta_keys meta;
     mp4_write_mdta_ilst meta })"

definition mp4_write_meta :: "mp4_env \<Rightarrow> mp4_mux \<Rightarrow> ('s serializer, nat) state" where
  "mp4_write_meta env mux = do {
     start \<leftarrow> serializer_get_pos;
     write_fullbox 0 ''meta'' 0 0;
     (if MP4_USE_MDTA_KEY_VALUE (m_flags mux) then do {
        mp4_write_mdta_hdlr;
        mp4_write_mdta_kv env }
      else do {
        mp4_write_itunes_hdlr;
        mp4_write_ilst env });
     write_box_size start }"

definition mp4_write_udta :: "mp4_env \<Rightarrow> mp4_mux \<Rightarrow> ('s serializer, nat) state" where
  "mp4_write_udta env mux = do {
     start \<leftarrow> serializer_get_pos;
     write_box 0 ''udta'';
     (if m_flavor mux = FLAVOR_MOV \<and> \<not> MP4_USE_MDTA_KEY_VALUE (m_flags mux) then
        mp4_write_string_data_atom (CHR 0xA9 # ''swr'') (encoder_tool env)
      else mp4_write_meta env mux);
     write_box_size start }"

definition mp4_write_moov :: "mp4_env \<Rightarrow> mp4_mux \<Rightarrow> bool \<Rightarrow> ('s serializer, nat) state" where
  "mp4_write_moov env mux fragmented = do {
     start \<leftarrow> serializer_get_pos;
     write_box 0 ''moov'';
     mp4_write_mvhd mux;
     for_each (\<lambda>track. do { mp4_write_trak env mux track fragmented; State_Monad.return () }) (m_tracks mux);
     (case m_chapter_track mux of
        Some chapters \<Rightarrow> if \<not> fragmented then mp4_write_trak env mux chapters False else State_Monad.return 0
      | None \<Rightarrow> State_Monad.return 0);
     (if fragmented then mp4_write_mvex mux else State_Monad.return 0);
     mp4_write_udta env mux;
     write_box_size start }"

section \<open>Shapes\<close>

definition minf_shapes :: "mp4_mux \<Rightarrow> mp4_track \<Rightarrow> bool \<Rightarrow> shape list" where
  "minf_shapes mux track fragmented =
    [if t_type track = TRACK_VIDEO then Leaf ''vmhd''
     else if t_type track = TRACK_CHAPTERS then Node ''gmhd'' [Leaf ''gmin'', Leaf ''text'']
     else Leaf ''smhd''] @
    (if m_flavor mux = FLAVOR_MOV then [Leaf ''hdlr''] else []) @
    [Node ''dinf'' [Node ''dref'' [Leaf ''url '']], Node ''stbl'' (stbl_shapes mux track fragmented)]"

definition track_udta_shapes :: "mp4_mux \<Rightarrow> mp4_track \<Rightarrow> shape list" where
  "track_udta_shapes mux track =
    (if t_encoder track = None then []
     else [Leaf ''name''] @ (if MP4_WRITE_ENCODER_INFO (m_flags mux) then [Leaf (CHR 0xA9 # ''enc''), Leaf ''json''] else []))"

definition trak_shapes :: "mp4_mux \<Rightarrow> bool \<Rightarrow> mp4_track \<Rightarrow> shape list" where
  "trak_shapes mux fragmented track =
    (if \<not> fragmented \<and> t_chunks track = [] then []
     else [Node ''trak'' (
       [Leaf ''tkhd'', Node ''edts'' [Leaf ''elst'']] @
       (if m_chapter_track mux \<noteq> None \<and> t_type track \<noteq> TRACK_CHAPTERS then [Node ''tref'' [Leaf ''chap'']] else []) @
       [Node ''mdia'' [Leaf ''mdhd'', Leaf ''hdlr'', Node ''minf'' (minf_shapes mux track fragmented)],
        Node ''udta'' (track_udta_shapes mux track)])])"

definition key_name :: "u32 \<Rightarrow> string" where
  "key_name idx = map (\<lambda>b. char_of (unat b)) (be32 idx)"

definition udta_shapes :: "mp4_mux \<Rightarrow> shape list" where
  "udta_shapes mux =
    (if m_flavor mux = FLAVOR_MOV \<and> \<not> MP4_USE_MDTA_KEY_VALUE (m_flags mux) then [Leaf (CHR 0xA9 # ''swr'')]
     else [Node ''meta''
       (if MP4_USE_MDTA_KEY_VALUE (m_flags mux) then
          [Leaf ''hdlr'', Leaf ''keys'', Node ''ilst'' [Node (key_name 1) [Leaf ''data'']]]
        else [Leaf ''hdlr'', Node ''ilst'' [Node (CHR 0xA9 # ''too'') [Leaf ''data'']]])])"

definition moov_shapes :: "mp4_mux \<Rightarrow> bool \<Rightarrow> shape list" where
  "moov_shapes mux fragmented =
    [Leaf ''mvhd''] @ concat (map (trak_shapes mux fragmented) (m_tracks mux)) @
    (case m_chapter_track mux of
       Some chapters \<Rightarrow> if \<not> fragmented then trak_shapes mux False chapters else []
     | None \<Rightarrow> []) @
    (if fragmented then [Node ''mvex'' (replicate (length (m_tracks mux)) (Leaf ''trex''))] else []) @
    [Node ''udta'' (udta_shapes mux)]"

lemma word_char_byte [simp]: "word_of_nat (unat (b :: byte) mod 256) = b"
proof -
  have "unat b < 256" using unsigned_less [where ?'a = nat and w = b] by simp
  then show ?thesis by simp
qed

lemma fourcc_key_name: "fourcc (key_name idx) = be32 idx"
proof -
  have "bytes_of_string (map (\<lambda>b. char_of (unat b)) bs) = bs" for bs
    by (induction bs) (simp_all add: bytes_of_string_def)
  then show ?thesis by (simp add: key_name_def fourcc_def)
qed

lemma length_key_name [simp]: "length (key_name idx) = 4"
  by (simp add: key_name_def)

lemma has_shape_dref: "has_shape (Node ''dref '' shs) bs \<Longrightarrow> has_shape (Node ''dref'' shs) bs"
proof -
  have "mkbox ''dref '' b = mkbox ''dref'' b" for b by (simp add: mkbox_def fourcc_def bytes_of_string_def)
  then show "has_shape (Node ''dref '' shs) bs \<Longrightarrow> has_shape (Node ''dref'' shs) bs"
    by (metis nodeE nodeI)
qed

context output_serializer
begin

lemma node_url: "writes_node mp4_write_url ''url '' []"
  unfolding mp4_write_url_def by (rule node_start_full tail_done | simp)+

lemma node_dref: "writes_node mp4_write_dref ''dref'' [Leaf ''url '']"
proof -
  have "writes_node mp4_write_dref ''dref '' [Leaf ''url '']"
    unfolding mp4_write_dref_def
    by (rule node_start_full tail_done raws tail_shapes [OF shapes_node [OF node_url]] | simp)+
  then show ?thesis unfolding writes_node_def using has_shape_dref by blast
qed

lemma node_dinf: "writes_node mp4_write_dinf ''dinf'' [Node ''dref'' [Leaf ''url '']]"
  unfolding mp4_write_dinf_def
  by (rule node_start tail_done tail_shapes [OF shapes_node [OF node_dref]] | simp)+

lemma shapes_media_header:
  "emits_shapes (if t_type track = TRACK_VIDEO then mp4_write_vmhd
      else if t_type track = TRACK_CHAPTERS then mp4_write_gmhd else mp4_write_smhd)
    [if t_type track = TRACK_VIDEO then Leaf ''vmhd''
     else if t_type track = TRACK_CHAPTERS then Node ''gmhd'' [Leaf ''gmin'', Leaf ''text''] else Leaf ''smhd'']"
  using shapes_vmhd shapes_node [OF node_gmhd] shapes_smhd by simp

lemma node_minf:
  assumes "encoder_ok env (t_encoder track)"
  shows "writes_node (mp4_write_minf env mux track fragmented) ''minf'' (minf_shapes mux track fragmented)"
  unfolding mp4_write_minf_def
  by (rule node_start, rule tail_shapes [OF shapes_media_header],
      rule tail_shapes [OF shapes_if [OF shapes_node [OF node_hdlr] shapes_return]],
      rule tail_shapes [OF shapes_node [OF node_dinf]], rule tail_shapes [OF shapes_node [OF node_stbl [OF assms]]],
      rule tail_done) (simp_all add: minf_shapes_def)

lemma node_mdia:
  assumes "encoder_ok env (t_encoder track)"
  shows "writes_node (mp4_write_mdia env mux track fragmented) ''mdia''
    [Leaf ''mdhd'', Leaf ''hdlr'', Node ''minf'' (minf_shapes mux track fragmented)]"
  unfolding mp4_write_mdia_def
  by (rule node_start, rule tail_shapes [OF shapes_mdhd], rule tail_shapes [OF shapes_node [OF node_hdlr]],
      rule tail_shapes [OF shapes_node [OF node_minf [OF assms]]], rule tail_done) simp_all

lemma node_udta_atom: "length tag = 4 \<Longrightarrow> writes_node (mp4_write_udta_atom tag val) tag []"
  unfolding mp4_write_udta_atom_def by (rule node_start, rule raws, rule tail_done) simp_all

lemma shapes_udta_atom: "length tag = 4 \<Longrightarrow> emits_shapes (mp4_write_udta_atom tag val) [Leaf tag]"
  by (rule shapes_node [OF node_udta_atom])

lemma node_track_udta: "writes_node (mp4_write_track_udta mux track) ''udta'' (track_udta_shapes mux track)"
proof (cases "t_encoder track")
  case None
  show ?thesis
    unfolding mp4_write_track_udta_def Let_def None obs_encoder_get_name_def obs_encoder_get_id_def
      obs_encoder_get_settings_def option.simps
    by (rule node_start, rule tail_shapes [OF shapes_return],
        rule tail_shapes [OF shapes_if [OF shapes_then [OF shapes_return shapes_return] shapes_return]], rule tail_done)
      (simp_all add: track_udta_shapes_def None)
next
  case (Some e)
  have ne: "Some (e_name e) \<noteq> None" by simp
  show ?thesis
    unfolding mp4_write_track_udta_def Let_def Some obs_encoder_get_name_def obs_encoder_get_id_def
      obs_encoder_get_settings_def option.simps if_P [OF ne]
    by (rule node_start, rule tail_shapes [OF shapes_udta_atom], simp,
        rule tail_shapes [OF shapes_if [OF shapes_then [OF shapes_udta_atom shapes_udta_atom] shapes_return]],
        simp, simp, rule tail_done) (simp_all add: track_udta_shapes_def Some)
qed

lemma node_elst: "writes_node (mp4_write_elst mux track) ''elst'' []"
  unfolding mp4_write_elst_def by (rule node_start_full tail_done refl raws | simp)+

lemma node_edts: "writes_node (mp4_write_edts mux track) ''edts'' [Leaf ''elst'']"
  unfolding mp4_write_edts_def
  by (rule node_start tail_done tail_shapes [OF shapes_node [OF node_elst]] | simp)+

lemma node_chap: "writes_node (mp4_write_chap chapters) ''chap'' []"
  unfolding mp4_write_chap_def by (rule node_start tail_done refl raws | simp)+

lemma node_tref: "writes_node (mp4_write_tref chapters) ''tref'' [Leaf ''chap'']"
  unfolding mp4_write_tref_def
  by (rule node_start tail_done tail_shapes [OF shapes_node [OF node_chap]] | simp)+

lemma shapes_opt_tref:
  "emits_shapes (case m_chapter_track mux of
      Some chapters \<Rightarrow> if t_type track \<noteq> TRACK_CHAPTERS then mp4_write_tref chapters else State_Monad.return 0
    | None \<Rightarrow> State_Monad.return 0)
    (if m_chapter_track mux \<noteq> None \<and> t_type track \<noteq> TRACK_CHAPTERS then [Node ''tref'' [Leaf ''chap'']] else [])"
  using shapes_node [OF node_tref] by (auto simp: shapes_return split: option.split)

lemma shapes_trak:
  assumes "encoder_ok env (t_encoder track)"
  shows "emits_shapes (mp4_write_trak env mux track fragmented) (trak_shapes mux fragmented track)"
proof (cases "\<not> fragmented \<and> t_chunks track = []")
  case True
  then show ?thesis by (simp add: mp4_write_trak_def trak_shapes_def shapes_get_pos shapes_return)
next
  case False
  have "emits_shapes (mp4_write_trak env mux track fragmented) [Node ''trak'' (
       [Leaf ''tkhd'', Node ''edts'' [Leaf ''elst'']] @
       (if m_chapter_track mux \<noteq> None \<and> t_type track \<noteq> TRACK_CHAPTERS then [Node ''tref'' [Leaf ''chap'']] else []) @
       [Node ''mdia'' [Leaf ''mdhd'', Leaf ''hdlr'', Node ''minf'' (minf_shapes mux track fragmented)],
        Node ''udta'' (track_udta_shapes mux track)])]"
    unfolding mp4_write_trak_def if_not_P [OF False]
    by (rule shapes_node, rule node_start, rule tail_shapes [OF shapes_node [OF node_tkhd]],
        rule tail_shapes [OF shapes_node [OF node_edts]], rule tail_shapes [OF shapes_opt_tref],
        rule tail_shapes [OF shapes_node [OF node_mdia [OF assms]]], rule tail_shapes [OF shapes_node [OF node_track_udta]],
        rule tail_done) simp_all
  then show ?thesis unfolding trak_shapes_def if_not_P [OF False] .
qed

lemma shapes_trex: "emits_shapes (mp4_write_trex track_id) [Leaf ''trex'']"
  unfolding mp4_write_trex_def
  by (rule fixed_fullbox, (rule emits_len_then emits_len_prims)+) (simp_all add: UINT32_MAX_def)

lemma node_mvex: "writes_node (mp4_write_mvex mux) ''mvex'' (replicate (length (m_tracks mux)) (Leaf ''trex''))"
proof -
  have "emits_shapes (for_each (\<lambda>track_id. do { mp4_write_trex (word_of_nat (track_id + 1)); State_Monad.return () }) xs)
      (concat (map (\<lambda>_. [Leaf ''trex''] @ []) xs))" for xs
    by (rule shapes_for_each, rule shapes_then [OF shapes_trex shapes_return])
  moreover have "concat (map (\<lambda>_. [Leaf ''trex''] @ []) xs) = replicate (length xs) (Leaf ''trex'')" for xs :: "nat list"
    by (induction xs) simp_all
  ultimately have l: "emits_shapes (for_each (\<lambda>track_id. do { mp4_write_trex (word_of_nat (track_id + 1));
      State_Monad.return () }) xs) (replicate (length xs) (Leaf ''trex''))" for xs by metis
  show ?thesis
    unfolding mp4_write_mvex_def by (rule node_start, rule tail_shapes [OF l], rule tail_done) simp_all
qed

lemma shapes_hdlrs:
  "emits_shapes mp4_write_itunes_hdlr [Leaf ''hdlr'']" "emits_shapes mp4_write_mdta_hdlr [Leaf ''hdlr'']"
  unfolding mp4_write_itunes_hdlr_def mp4_write_mdta_hdlr_def
  by (rule fixed_fullbox, (rule emits_len_then emits_len_prims emits_len_s_str refl)+, simp_all add: UINT32_MAX_def)+

lemma shapes_data_atom: "emits_shapes (mp4_write_data_atom val) [Leaf ''data'']"
  unfolding mp4_write_data_atom_def Let_def
  by (rule fixed_box, (rule emits_len_then emits_len_prims emits_len_s_str refl)+) (simp_all add: unat_u32_le)

lemma node_string_data_atom: "length name = 4 \<Longrightarrow> writes_node (mp4_write_string_data_atom name val) name []"
  unfolding mp4_write_string_data_atom_def Let_def
  by (rule node_start, rule raws, rule raws, rule raws, rule tail_done) simp_all

lemma node_ilst_item: "length name = 4 \<Longrightarrow> writes_node (mp4_write_ilst_item_atom name val) name [Leaf ''data'']"
  unfolding mp4_write_ilst_item_atom_def
  by (rule node_start, rule tail_shapes [OF shapes_data_atom], rule tail_done) simp_all

lemma node_ilst: "writes_node (mp4_write_ilst env) ''ilst'' [Node (CHR 0xA9 # ''too'') [Leaf ''data'']]"
  unfolding mp4_write_ilst_def
  by (rule node_start, rule tail_shapes [OF shapes_node [OF node_ilst_item]], simp, rule tail_done) simp_all

lemma shapes_key_entry: "emits_shapes (write_key_entry val idx) [Node (key_name idx) [Leaf ''data'']]"
proof -
  obtain d x where d: "has_shape (Leaf ''data'') d" "emits (mp4_write_data_atom val) d x"
    using shapes_data_atom [of val] by (auto simp: emits_shapes_def list_all2_Cons1)
  let ?bs = "mkbox (key_name idx) d"
  have "emits (write_key_entry val idx) ?bs ()"
    unfolding write_key_entry_def
  proof (rule emits_from_pos)
    fix p
    have "finishes p (([] @ be32 0) @ be32 idx @ d) (write_box_size (int p)) ?bs (length ?bs)"
      by (rule finishes_size [where z = 0 and n = "key_name idx" and body = d]) (simp_all add: fourcc_key_name)
    then have "finishes p ((([] @ be32 0) @ be32 idx) @ d) (write_box_size (int p) \<bind> (\<lambda>_. State_Monad.return ())) ?bs ()"
      by (intro finishes_then_return) simp
    then show "finishes p [] (s_wb32 0 \<bind> (\<lambda>_. s_wb32 idx \<bind> (\<lambda>_. mp4_write_data_atom val \<bind>
        (\<lambda>_. write_box_size (int p) \<bind> (\<lambda>_. State_Monad.return ()))))) ?bs ()"
      by (intro finishes_bind [OF emits_s_wb32] finishes_bind [OF d(2)])
  qed
  moreover have "has_shape (Node (key_name idx) [Leaf ''data'']) ?bs"
    using nodeI [of "[Leaf ''data'']" "[d]" "key_name idx" "[]"] d(1) by simp
  ultimately show ?thesis by (rule shapes_single [rotated])
qed

text \<open>The key table, byte for byte, for the one key the muxer writes.\<close>

lemma emits_keys:
  assumes "length name + 8 \<le> UINT32_MAX"
  shows "emits (mp4_write_mdta_keys [(name, val)])
    (mkbox ''keys'' ([0] @ be24 0 @ be32 1 @ mkbox ''mdta'' (bytes_of_string name)))
    (length (mkbox ''keys'' ([0] @ be24 0 @ be32 1 @ mkbox ''mdta'' (bytes_of_string name))))"
    (is "emits _ ?bs (length ?bs)")
proof -
  let ?kb = "mkbox ''mdta'' (bytes_of_string name)"
  let ?h = "be32 0 @ fourcc ''keys'' @ [0] @ be24 0"
  have kb: "emits (write_box (length name + 8) ''mdta'' \<bind> (\<lambda>_. s_str name \<bind> (\<lambda>_. State_Monad.return ()))) ?kb ()"
    using emits_then [OF emits_write_box [OF assms] emits_then [OF emits_s_str emits_return], of "''mdta''" name "()"]
    by (simp add: mkbox_def ac_simps)
  have body: "finishes p ((?h @ be32 0) @ ?kb) (do {
      fin \<leftarrow> serializer_get_pos;
      serializer_seek (int (p + length ?h)) SERIALIZE_SEEK_START;
      s_wb32 1;
      serializer_seek fin SERIALIZE_SEEK_START;
      write_box_size (int p) }) ?bs (length ?bs)" for p
  proof (intro finishes_get_pos finishes_patch)
    show "finishes p (write_at ((?h @ be32 0) @ ?kb) (length ?h) (be32 1)) (write_box_size (int p)) ?bs (length ?bs)"
      by (rule finishes_size [where z = 0 and n = "''keys''" and body = "[0] @ be24 0 @ be32 1 @ ?kb"])
        (simp_all add: write_at_def)
  qed simp
  show ?thesis
    unfolding mp4_write_mdta_keys_def for_each.simps prod.case Let_def
  proof (rule emits_fullbox, rule finishes_get_pos, rule finishes_bind [OF emits_s_wb32])
    fix p
    show "finishes p (?h @ be32 0) (do {
        write_box (length name + 8) ''mdta'' \<bind> (\<lambda>_. s_str name \<bind> (\<lambda>_. State_Monad.return ()))
          \<bind> (\<lambda>_. State_Monad.return ());
        fin \<leftarrow> serializer_get_pos;
        serializer_seek (int (p + length ?h)) SERIALIZE_SEEK_START;
        s_wb32 (word_of_nat (length [(name, val)]));
        serializer_seek fin SERIALIZE_SEEK_START;
        write_box_size (int p) }) ?bs (length ?bs)"
      by (rule finishes_bind [OF emits_then [OF kb emits_return]]) (use body [of p] in simp)
  qed
qed

lemma node_mdta_ilst:
  "writes_node (mp4_write_mdta_ilst [(name, val)]) ''ilst'' [Node (key_name 1) [Leaf ''data'']]"
proof -
  have z: "zip [(name, val)] [0..<length [(name, val)]] = [((name, val), 0)]" by simp
  show ?thesis
    unfolding mp4_write_mdta_ilst_def z for_each.simps prod.case
    by (rule node_start, rule tail_shapes [OF shapes_then [OF shapes_key_entry shapes_return]], rule tail_done) simp_all
qed

lemma node_meta:
  "writes_node (mp4_write_meta env mux) ''meta''
       (if MP4_USE_MDTA_KEY_VALUE (m_flags mux) then
          [Leaf ''hdlr'', Leaf ''keys'', Node ''ilst'' [Node (key_name 1) [Leaf ''data'']]]
        else [Leaf ''hdlr'', Node ''ilst'' [Node (CHR 0xA9 # ''too'') [Leaf ''data'']]])"
proof -
  have "emits_shapes (mp4_write_mdta_keys [(''tool'', encoder_tool env)]) [Leaf ''keys'']"
    by (rule shapes_single [OF leafI emits_keys]) (simp add: UINT32_MAX_def)
  then have kv: "emits_shapes (mp4_write_mdta_kv env) ([Leaf ''keys''] @ [Node ''ilst'' [Node (key_name 1) [Leaf ''data'']]])"
    unfolding mp4_write_mdta_kv_def Let_def by (rule shapes_then) (rule shapes_node [OF node_mdta_ilst])
  show ?thesis
    unfolding mp4_write_meta_def
    by (rule node_start_full,
        rule tail_shapes [OF shapes_if [OF shapes_then [OF shapes_hdlrs(2) kv] shapes_then [OF shapes_hdlrs(1) shapes_node [OF node_ilst]]]],
        rule tail_done) simp_all
qed

lemma node_udta: "writes_node (mp4_write_udta env mux) ''udta'' (udta_shapes mux)"
  unfolding mp4_write_udta_def
  by (rule node_start, rule tail_shapes [OF shapes_if [OF shapes_node [OF node_string_data_atom] shapes_node [OF node_meta]]],
      simp, rule tail_done) (simp_all add: udta_shapes_def)

lemma shapes_opt_chapter:
  assumes "\<And>chapters. m_chapter_track mux = Some chapters \<Longrightarrow> encoder_ok env (t_encoder chapters)"
  shows "emits_shapes (case m_chapter_track mux of
        Some chapters \<Rightarrow> if \<not> fragmented then mp4_write_trak env mux chapters False else State_Monad.return 0
      | None \<Rightarrow> State_Monad.return 0)
    (case m_chapter_track mux of
       Some chapters \<Rightarrow> if \<not> fragmented then trak_shapes mux False chapters else [] | None \<Rightarrow> [])"
  using assms shapes_trak by (auto simp: shapes_return split: option.split)

lemma node_moov:
  assumes "\<And>track. track \<in> set (m_tracks mux) \<Longrightarrow> encoder_ok env (t_encoder track)"
    and "\<And>chapters. m_chapter_track mux = Some chapters \<Longrightarrow> encoder_ok env (t_encoder chapters)"
  shows "writes_node (mp4_write_moov env mux fragmented) ''moov'' (moov_shapes mux fragmented)"
proof -
  have "emits_shapes (for_each (\<lambda>track. do { mp4_write_trak env mux track fragmented; State_Monad.return () }) ts)
      (concat (map (trak_shapes mux fragmented) ts))" if "set ts \<subseteq> set (m_tracks mux)" for ts
    using that
  proof (induction ts)
    case (Cons t ts)
    have "emits_shapes (do { mp4_write_trak env mux t fragmented; State_Monad.return () }) (trak_shapes mux fragmented t @ [])"
      using Cons.prems assms(1) by (intro shapes_then shapes_trak shapes_return) simp
    from shapes_then [OF this, of "\<lambda>_. for_each _ ts"] Cons show ?case by simp
  qed (simp add: shapes_return)
  then have tr: "emits_shapes (for_each (\<lambda>track. do { mp4_write_trak env mux track fragmented; State_Monad.return () })
      (m_tracks mux)) (concat (map (trak_shapes mux fragmented) (m_tracks mux)))" by simp
  show ?thesis
    unfolding mp4_write_moov_def
    by (rule node_start, rule tail_shapes [OF shapes_node [OF node_mvhd]], rule tail_shapes [OF tr],
        rule tail_shapes [OF shapes_opt_chapter [OF assms(2)]], assumption,
        rule tail_shapes [OF shapes_if [OF shapes_node [OF node_mvex] shapes_return]],
        rule tail_shapes [OF shapes_node [OF node_udta]], rule tail_done) (simp_all add: moov_shapes_def)
qed

end

end
