(* ===== verification/Mp4_Fragment.thy ===== *)
theory Mp4_Fragment
  imports Mp4_Movie
begin

text \<open>
  The movie fragment box of \<open>mp4-mux.c\<close>: fragment header, track fragment header, decode
  time and track runs.  The offset into the media data is threaded through the track runs
  the way the C code passes \<open>samples_mdat_offset\<close>.
\<close>

definition mp4_write_mfhd :: "mp4_mux \<Rightarrow> ('s serializer, nat) state" where
  "mp4_write_mfhd mux = do {
     write_fullbox 16 ''mfhd'' 0 0;
     s_wb32 (m_fragments_written mux);
     State_Monad.return 16 }"

text \<open>
  Default duration and size of the samples of a fragment, with the flags that say whether
  they are written.  The loop keeps only its last comparison.
\<close>

definition durations_match :: "mp4_track \<Rightarrow> bool" where
  "durations_match track =
    (if t_sample_size track \<noteq> 0 then True
     else foldl (\<lambda>_ s. fs_duration s = fs_duration (hd (t_fragment_samples track))) True (tl (t_fragment_samples track)))"

definition sizes_match :: "mp4_track \<Rightarrow> bool" where
  "sizes_match track =
    (if t_sample_size track \<noteq> 0 then True
     else foldl (\<lambda>_ s. fs_size s = fs_size (hd (t_fragment_samples track))) True (tl (t_fragment_samples track)))"

definition tfhd_flags :: "mp4_track \<Rightarrow> u32" where
  "tfhd_flags track = 0x000001 OR 0x000020 OR (if durations_match track then 0x000008 else 0) OR
     (if sizes_match track then 0x000010 else 0)"

definition mp4_write_tfhd :: "mp4_track \<Rightarrow> u64 \<Rightarrow> ('s serializer, nat) state" where
  "mp4_write_tfhd track moof_start = do {
     start \<leftarrow> serializer_get_pos;
     let duration = (if t_sample_size track \<noteq> 0 then 1 else fs_duration (hd (t_fragment_samples track)));
     let sample_size = (if t_sample_size track \<noteq> 0 then t_sample_size track else fs_size (hd (t_fragment_samples track)));
     write_fullbox 0 ''tfhd'' 0 (tfhd_flags track);
     s_wb32 (ucast (t_track_id track));
     s_wb64 moof_start;
     (if durations_match track then
        s_wb32 (if t_type track = TRACK_VIDEO then
            ucast (util_mul_div64 (ucast duration) (ucast (t_timescale track)) (ucast (t_timebase_den track)))
          else duration)
      else State_Monad.return ());
     (if sizes_match track then s_wb32 sample_size else State_Monad.return ());
     (if t_type track = TRACK_VIDEO then s_wb32 (0x01000000 OR 0x00010000) else s_wb32 0x02000000);
     write_box_size start }"

definition tfdt_time :: "mp4_track \<Rightarrow> u64" where
  "tfdt_time track =
    (let duration_written = foldl (\<lambda>d s. d - ucast (fs_duration s)) (t_duration track) (t_fragment_samples track)
     in if t_type track = TRACK_VIDEO then
          util_mul_div64 duration_written (ucast (t_timescale track)) (ucast (t_timebase_den track))
        else duration_written)"

definition mp4_write_tfdt :: "mp4_track \<Rightarrow> ('s serializer, nat) state" where
  "mp4_write_tfdt track = do {
     write_fullbox 20 ''tfdt'' 1 0;
     s_wb64 (tfdt_time track);
     State_Monad.return 20 }"

definition trun_flags :: "mp4_track \<Rightarrow> u32" where
  "trun_flags track = 0x000001 OR (if t_sample_size track = 0 then 0x000200 else 0) OR
     (if t_type track = TRACK_VIDEO then 0x000004 OR 0x000800 else 0)"

definition trun_offset :: "mp4_track \<Rightarrow> fragment_sample \<Rightarrow> u32" where
  "trun_offset track smp =
    ucast (s64_div (scast (fs_offset smp) * ucast (t_timescale track)) (ucast (t_timebase_den track)))"

text \<open>The sum of the fragment's sample sizes, in the 64 bits of \<open>size_t\<close> and \<open>uint64_t\<close>.\<close>

definition fragment_bytes :: "mp4_track \<Rightarrow> u64" where
  "fragment_bytes track = foldl (\<lambda>n s. n + ucast (fs_size s)) 0 (t_fragment_samples track)"

definition mp4_write_trun :: "mp4_mux \<Rightarrow> mp4_track \<Rightarrow> u32 \<Rightarrow> u64 \<Rightarrow> ('s serializer, nat \<times> u64) state" where
  "mp4_write_trun mux track moof_size samples_mdat_offset = do {
     start \<leftarrow> serializer_get_pos;
     write_fullbox 0 ''trun'' (if MP4_USE_NEGATIVE_CTS (m_flags mux) then 1 else 0) (trun_flags track);
     let data_offset = ucast (moof_size + 8) + samples_mdat_offset;
     (if t_sample_size track \<noteq> 0 then do {
        let total_size = fragment_bytes track;
        s_wb32 (ucast (total_size div ucast (t_sample_size track)));
        s_wb32 (ucast data_offset);
        sz \<leftarrow> write_box_size start;
        State_Monad.return (sz, samples_mdat_offset + total_size) }
      else do {
        s_wb32 (word_of_nat (length (t_fragment_samples track)));
        s_wb32 (ucast data_offset);
        (if t_type track = TRACK_VIDEO then s_wb32 0x02000000 else State_Monad.return ());
        for_each (\<lambda>smp. do {
            s_wb32 (fs_size smp);
            (if t_type track = TRACK_VIDEO then s_wb32 (trun_offset track smp) else State_Monad.return ()) })
          (t_fragment_samples track);
        sz \<leftarrow> write_box_size start;
        State_Monad.return (sz, foldl (\<lambda>n s. n + ucast (fs_size s)) samples_mdat_offset (t_fragment_samples track)) }) }"

definition mp4_write_traf :: "mp4_mux \<Rightarrow> mp4_track \<Rightarrow> u64 \<Rightarrow> u32 \<Rightarrow> u64 \<Rightarrow> ('s serializer, nat \<times> u64) state" where
  "mp4_write_traf mux track moof_start moof_size samples_mdat_offset = do {
     start \<leftarrow> serializer_get_pos;
     write_box 0 ''traf'';
     mp4_write_tfhd track moof_start;
     mp4_write_tfdt track;
     (_, off) \<leftarrow> mp4_write_trun mux track moof_size samples_mdat_offset;
     sz \<leftarrow> write_box_size start;
     State_Monad.return (sz, off) }"

fun moof_trafs :: "mp4_mux \<Rightarrow> u64 \<Rightarrow> u32 \<Rightarrow> mp4_track list \<Rightarrow> u64 \<Rightarrow> ('s serializer, u64) state" where
  "moof_trafs mux moof_start moof_size [] off = State_Monad.return off"
| "moof_trafs mux moof_start moof_size (track # tracks) off =
    (if t_fragment_samples track = [] then moof_trafs mux moof_start moof_size tracks off
     else do {
       (_, off1) \<leftarrow> mp4_write_traf mux track moof_start moof_size off;
       moof_trafs mux moof_start moof_size tracks off1 })"

definition mp4_write_moof :: "mp4_mux \<Rightarrow> u32 \<Rightarrow> u64 \<Rightarrow> ('s serializer, nat) state" where
  "mp4_write_moof mux moof_size moof_start = do {
     start \<leftarrow> serializer_get_pos;
     write_box 0 ''moof'';
     mp4_write_mfhd mux;
     moof_trafs mux moof_start moof_size (m_tracks mux) 0;
     write_box_size start }"

section \<open>The fragment header, byte for byte\<close>

definition tfhd_bytes :: "mp4_track \<Rightarrow> u64 \<Rightarrow> byte list" where
  "tfhd_bytes track moof_start =
    (let duration = (if t_sample_size track \<noteq> 0 then 1 else fs_duration (hd (t_fragment_samples track)));
         sample_size = (if t_sample_size track \<noteq> 0 then t_sample_size track else fs_size (hd (t_fragment_samples track)))
     in mkbox ''tfhd'' ([0] @ be24 (tfhd_flags track) @ be32 (ucast (t_track_id track)) @ be64 moof_start @
          (if durations_match track then
             be32 (if t_type track = TRACK_VIDEO then
                 ucast (util_mul_div64 (ucast duration) (ucast (t_timescale track)) (ucast (t_timebase_den track)))
               else duration)
           else []) @
          (if sizes_match track then be32 sample_size else []) @
          be32 (if t_type track = TRACK_VIDEO then 0x01000000 OR 0x00010000 else 0x02000000)))"

definition tfdt_bytes :: "mp4_track \<Rightarrow> byte list" where
  "tfdt_bytes track = mkbox ''tfdt'' ([1] @ be24 0 @ be64 (tfdt_time track))"

definition trun_bytes :: "mp4_mux \<Rightarrow> mp4_track \<Rightarrow> u32 \<Rightarrow> byte list" where
  "trun_bytes mux track data_offset =
    mkbox ''trun'' ([if MP4_USE_NEGATIVE_CTS (m_flags mux) then 1 else 0] @ be24 (trun_flags track) @
      (if t_sample_size track \<noteq> 0 then
         be32 (ucast (fragment_bytes track div ucast (t_sample_size track))) @ be32 data_offset
       else
         be32 (word_of_nat (length (t_fragment_samples track))) @ be32 data_offset @
         (if t_type track = TRACK_VIDEO then be32 0x02000000 else []) @
         concat (map (\<lambda>smp. be32 (fs_size smp) @
           (if t_type track = TRACK_VIDEO then be32 (trun_offset track smp) else [])) (t_fragment_samples track))))"

definition traf_bytes :: "mp4_mux \<Rightarrow> mp4_track \<Rightarrow> u64 \<Rightarrow> u32 \<Rightarrow> byte list" where
  "traf_bytes mux track moof_start data_offset =
    mkbox ''traf'' (tfhd_bytes track moof_start @ tfdt_bytes track @ trun_bytes mux track data_offset)"

fun trafs_bytes :: "mp4_mux \<Rightarrow> u64 \<Rightarrow> u32 \<Rightarrow> mp4_track list \<Rightarrow> u64 \<Rightarrow> byte list" where
  "trafs_bytes mux moof_start moof_size [] off = []"
| "trafs_bytes mux moof_start moof_size (track # tracks) off =
    (if t_fragment_samples track = [] then trafs_bytes mux moof_start moof_size tracks off
     else traf_bytes mux track moof_start (ucast (ucast (moof_size + 8) + off)) @
          trafs_bytes mux moof_start moof_size tracks (off + fragment_bytes track))"

definition moof_bytes :: "mp4_mux \<Rightarrow> u32 \<Rightarrow> u64 \<Rightarrow> byte list" where
  "moof_bytes mux moof_size moof_start =
    mkbox ''moof'' (mkbox ''mfhd'' ([0] @ be24 0 @ be32 (m_fragments_written mux)) @
      trafs_bytes mux moof_start moof_size (m_tracks mux) 0)"

lemma foldl_add_ucast:
  "foldl (\<lambda>n s. n + ucast (fs_size s)) (a :: u64) xs = a + foldl (\<lambda>n s. n + ucast (fs_size s)) 0 xs"
proof (induction xs arbitrary: a)
  case (Cons x xs)
  show ?case using Cons [of "a + ucast (fs_size x)"] Cons [of "ucast (fs_size x)"] by (simp add: add.assoc)
qed simp

lemma fragment_bytes_from:
  "foldl (\<lambda>n s. n + ucast (fs_size s)) off (t_fragment_samples track) = off + fragment_bytes track"
  unfolding fragment_bytes_def by (rule foldl_add_ucast)

text \<open>The size of the fragment header does not depend on the size passed in.\<close>

lemma length_trun_bytes: "length (trun_bytes mux track a) = length (trun_bytes mux track b)"
  by (simp add: trun_bytes_def mkbox_def)

lemma length_trafs_bytes:
  "length (trafs_bytes mux moof_start a tracks off) = length (trafs_bytes mux moof_start b tracks off')"
proof (induction tracks arbitrary: off off')
  case (Cons t ts)
  have "length (traf_bytes mux t moof_start x) = length (traf_bytes mux t moof_start y)" for x y
    using length_trun_bytes by (simp add: traf_bytes_def mkbox_def)
  then show ?case using Cons by (auto intro!: arg_cong2 [where f = "(+)"])
qed simp

lemma length_moof_bytes: "length (moof_bytes mux a moof_start) = length (moof_bytes mux b moof_start)"
  using length_trafs_bytes by (simp add: moof_bytes_def mkbox_def)

context output_serializer
begin

lemma emits_tfhd: "emits (mp4_write_tfhd track moof_start) (tfhd_bytes track moof_start) (length (tfhd_bytes track moof_start))"
  unfolding mp4_write_tfhd_def tfhd_bytes_def Let_def
  by (rule emits_fullbox, (rule finishes_bind emit_intros)+, rule finishes_size) simp_all

lemma emits_tfdt: "emits (mp4_write_tfdt track) (tfdt_bytes track) 20"
  unfolding mp4_write_tfdt_def tfdt_bytes_def
  by (rule emits_fixed_fullbox, rule emits_cong, (rule emits_then emits_s_wb64 emits_return)+)
    (simp_all add: UINT32_MAX_def)

lemma emits_mfhd: "emits (mp4_write_mfhd mux) (mkbox ''mfhd'' ([0] @ be24 0 @ be32 (m_fragments_written mux))) 16"
  unfolding mp4_write_mfhd_def
  by (rule emits_fixed_fullbox, rule emits_cong, (rule emits_then emits_s_wb32 emits_return)+)
    (simp_all add: UINT32_MAX_def)

lemma emits_trun:
  "emits (mp4_write_trun mux track moof_size off)
    (trun_bytes mux track (ucast (ucast (moof_size + 8) + off)))
    (length (trun_bytes mux track (ucast (ucast (moof_size + 8) + off))), off + fragment_bytes track)"
proof (cases "t_sample_size track \<noteq> 0")
  case True
  show ?thesis
    unfolding mp4_write_trun_def trun_bytes_def Let_def if_P [OF True]
    by (rule emits_fullbox, rule finishes_bind, rule emits_s_wb32, rule finishes_bind, rule emits_s_wb32,
        rule finishes_pair, rule finishes_size) simp_all
next
  case False
  have opt: "emits (if t_type track = TRACK_VIDEO then s_wb32 w else State_Monad.return ())
      (if t_type track = TRACK_VIDEO then be32 w else []) ()" for w
    by (simp add: emits_s_wb32 emits_return)
  have loop: "emits (for_each (\<lambda>smp. do { s_wb32 (fs_size smp);
        (if t_type track = TRACK_VIDEO then s_wb32 (trun_offset track smp) else State_Monad.return ()) })
      (t_fragment_samples track))
      (concat (map (\<lambda>smp. be32 (fs_size smp) @
        (if t_type track = TRACK_VIDEO then be32 (trun_offset track smp) else [])) (t_fragment_samples track))) ()"
    by (rule emits_for_each, rule emits_then [OF emits_s_wb32 opt])
  show ?thesis
    unfolding mp4_write_trun_def trun_bytes_def Let_def if_not_P [OF False] fragment_bytes_from
    by (rule emits_fullbox, rule finishes_bind, rule emits_s_wb32, rule finishes_bind, rule emits_s_wb32,
        rule finishes_bind, rule opt, rule finishes_bind, rule loop, rule finishes_pair, rule finishes_size) simp_all
qed

lemma emits_traf:
  "emits (mp4_write_traf mux track moof_start moof_size off)
    (traf_bytes mux track moof_start (ucast (ucast (moof_size + 8) + off)))
    (length (traf_bytes mux track moof_start (ucast (ucast (moof_size + 8) + off))), off + fragment_bytes track)"
  unfolding mp4_write_traf_def traf_bytes_def split_beta
  by (rule emits_box, rule finishes_bind, rule emits_tfhd, rule finishes_bind, rule emits_tfdt,
      rule finishes_bind, rule emits_trun, unfold snd_conv, rule finishes_pair, rule finishes_size) simp_all

lemma emits_moof_trafs:
  "\<exists>off'. emits (moof_trafs mux moof_start moof_size tracks off) (trafs_bytes mux moof_start moof_size tracks off) off'"
proof (induction tracks arbitrary: off)
  case Nil
  then show ?case using emits_return by fastforce
next
  case (Cons t ts)
  show ?case
  proof (cases "t_fragment_samples t = []")
    case True
    then show ?thesis using Cons by simp
  next
    case False
    obtain off' where IH: "emits (moof_trafs mux moof_start moof_size ts (off + fragment_bytes t))
        (trafs_bytes mux moof_start moof_size ts (off + fragment_bytes t)) off'" using Cons by blast
    have "emits (mp4_write_traf mux t moof_start moof_size off \<bind> (\<lambda>x. moof_trafs mux moof_start moof_size ts (snd x)))
        (traf_bytes mux t moof_start (ucast (ucast (moof_size + 8) + off)) @
         trafs_bytes mux moof_start moof_size ts (off + fragment_bytes t)) off'"
      by (rule emits_bind [OF emits_traf]) (simp add: IH)
    then show ?thesis using False unfolding moof_trafs.simps trafs_bytes.simps split_beta by auto
  qed
qed

lemma emits_moof:
  "emits (mp4_write_moof mux moof_size moof_start) (moof_bytes mux moof_size moof_start)
    (length (moof_bytes mux moof_size moof_start))"
proof -
  obtain off' where off': "emits (moof_trafs mux moof_start moof_size (m_tracks mux) 0)
      (trafs_bytes mux moof_start moof_size (m_tracks mux) 0) off'"
    using emits_moof_trafs by blast
  show ?thesis
    unfolding mp4_write_moof_def moof_bytes_def
    by (rule emits_box, rule finishes_bind, rule emits_mfhd, rule finishes_bind, rule off', rule finishes_size) simp_all
qed

end

end
