(* ===== verification/Mp4_Mux.thy ===== *)
theory Mp4_Mux
  imports Mp4_Fragment
begin

text \<open>
  The muxer itself (\<open>mp4-mux.c\<close> from the chapter packets on): queued packets are turned into
  sample tables and fragments, fragments are written to the output as they fill up, and
  \<open>mp4_mux_finalise\<close> turns the fragmented file into a regular one.

  An operation that writes is a program over the output serializer and returns the updated
  muxer.  The temporary array serializer of the C code, through which the seeking box
  writers run, is a run of the same writers on a local array serializer.
\<close>

section \<open>Chapter packets\<close>

definition CHAPTER_PKT_FOOTER :: "byte list" where
  "CHAPTER_PKT_FOOTER = [0x00, 0x00, 0x00, 0x0C] @ bytes_of_string ''encd'' @ [0x00, 0x00, 0x01, 0x00]"

definition mp4_create_chapter_pkt :: "mp4_env \<Rightarrow> s64 \<Rightarrow> string \<Rightarrow> encoder_packet" where
  "mp4_create_chapter_pkt env dts_usec name =
    (let dts = s64_div dts_usec 1000;
         len = min (length name) 65535;
         refs = le64 1;
         (_, s) = run_state (do {
             s_write refs;
             s_wb16 (word_of_nat len);
             s_str (take len name);
             s_write CHAPTER_PKT_FOOTER }) array_output_serializer_init
     in (env_uninit env)\<lparr>p_pts := dts, p_dts := dts, p_dts_usec := dts_usec, p_timebase_num := 1,
          p_timebase_den := 1000, p_data := drop (length refs) (ao_bytes (ser_data s))\<rparr>)"

section \<open>Packet processing\<close>

definition packet_pts_usec :: "encoder_packet \<Rightarrow> s64" where
  "packet_pts_usec pkt = s64_div (p_pts pkt * 1000000) (scast (p_timebase_den pkt))"

definition get_pkt_at :: "encoder_packet deque \<Rightarrow> nat \<Rightarrow> encoder_packet option" where
  "get_pkt_at dq idx = deque_get dq idx"

definition get_longest_track_duration :: "mp4_mux \<Rightarrow> u64" where
  "get_longest_track_duration mux = foldl (\<lambda>dur track.
     let track_dur = util_mul_div64 (t_duration track) 1000 (ucast (t_timebase_den track))
     in if track_dur > dur then track_dur else dur) 0 (m_tracks mux)"

text \<open>Run-length tables: extend the last entry or start a new one.\<close>

definition add_delta :: "sample_delta list \<Rightarrow> u32 \<Rightarrow> u32 \<Rightarrow> sample_delta list" where
  "add_delta ds delta count =
    (if ds = [] \<or> sd_delta (last ds) \<noteq> delta then ds @ [\<lparr>sd_count = count, sd_delta = delta\<rparr>]
     else butlast ds @ [(last ds)\<lparr>sd_count := sd_count (last ds) + count\<rparr>])"

definition add_offset :: "sample_offset list \<Rightarrow> s32 \<Rightarrow> sample_offset list" where
  "add_offset os off =
    (if os = [] \<or> so_offset (last os) \<noteq> off then os @ [\<lparr>so_count = 1, so_offset = off\<rparr>]
     else butlast os @ [(last os)\<lparr>so_count := so_count (last os) + 1\<rparr>])"

text \<open>
  The body of the loop of \<open>process_packets\<close>, for a packet and its successor: what it does to
  the track, and with the running size of the media data.
\<close>

definition process_sample :: "mp4_mux \<Rightarrow> encoder_packet \<Rightarrow> encoder_packet \<Rightarrow> mp4_track \<Rightarrow> mp4_track" where
  "process_sample mux pkt nxt track =
    (let duration = ucast (p_dts nxt - p_dts pkt) :: u32;
         sz = word_of_nat (length (p_data pkt)) :: u32;
         offset0 = ucast (p_pts pkt - p_dts pkt) :: s32;
         negative = (t_type track = TRACK_VIDEO \<and> MP4_USE_NEGATIVE_CTS (m_flags mux));
         track1 = (if negative \<and> t_offsets track = [] then track\<lparr>t_dts_offset := offset0\<rparr> else track);
         offset = (if negative then offset0 - t_dts_offset track1 else offset0);
         track2 = track1\<lparr>t_fragment_samples := t_fragment_samples track1 @
                    [\<lparr>fs_size = sz, fs_offset = offset, fs_duration = duration\<rparr>],
                    t_duration := t_duration track1 + ucast duration\<rparr>;
         sample_count = (if t_sample_size track \<noteq> 0 then sz div t_sample_size track else 1);
         delta = (if t_sample_size track \<noteq> 0 then 1 else duration);
         track3 = (if t_samples track2 = 0 then track2\<lparr>t_first_pts := p_pts pkt\<rparr> else track2);
         track4 = track3\<lparr>t_samples := t_samples track3 + ucast sample_count,
                          t_deltas := add_delta (t_deltas track3) delta sample_count\<rparr>;
         track5 = (if t_sample_size track = 0 then track4\<lparr>t_sample_sizes := t_sample_sizes track4 @ [sz]\<rparr> else track4)
     in if t_type track \<noteq> TRACK_VIDEO then track5
        else
          (let track6 = (if p_keyframe pkt
                         then track5\<lparr>t_sync_samples := t_sync_samples track5 @ [ucast (t_samples track5)]\<rparr>
                         else track5);
               track7 = (if offset \<noteq> 0 \<and> \<not> t_needs_ctts track6 then track6\<lparr>t_needs_ctts := True\<rparr> else track6)
           in track7\<lparr>t_offsets := add_offset (t_offsets track7) offset\<rparr>))"

definition process_packet ::
  "mp4_mux \<Rightarrow> encoder_packet \<Rightarrow> encoder_packet \<Rightarrow> mp4_track \<times> u64 \<Rightarrow> mp4_track \<times> u64" where
  "process_packet mux pkt nxt st =
    (process_sample mux pkt nxt (fst st), snd st + ucast (word_of_nat (length (p_data pkt)) :: u32))"

fun process_loop :: "mp4_mux \<Rightarrow> nat \<Rightarrow> nat \<Rightarrow> mp4_track \<times> u64 \<Rightarrow> mp4_track \<times> u64" where
  "process_loop mux i 0 st = st"
| "process_loop mux i (Suc n) st =
    (case (get_pkt_at (t_packets (fst st)) i, get_pkt_at (t_packets (fst st)) (i + 1)) of
       (Some pkt, Some nxt) \<Rightarrow>
         if m_next_frag_pts mux \<noteq> 0 \<and> sint (packet_pts_usec pkt) \<ge> sint (m_next_frag_pts mux) then st
         else process_loop mux (i + 1) n (process_packet mux pkt nxt st)
     | _ \<Rightarrow> st)"

definition process_packets :: "mp4_mux \<Rightarrow> mp4_track \<Rightarrow> u64 \<Rightarrow> mp4_track \<times> u64" where
  "process_packets mux track mdat_size =
    (let count = dq_size (t_packets track)
     in if count = 0 then (track, mdat_size) else process_loop mux 0 (count - 1) (track, mdat_size))"

fun process_tracks :: "mp4_mux \<Rightarrow> mp4_track list \<Rightarrow> u64 \<Rightarrow> mp4_track list \<times> u64" where
  "process_tracks mux [] mdat_size = ([], mdat_size)"
| "process_tracks mux (track # tracks) mdat_size =
    (let (track1, mdat_size1) = process_packets mux track mdat_size;
         (tracks1, mdat_size2) = process_tracks mux tracks mdat_size1
     in (track1 # tracks1, mdat_size2))"

section \<open>Writing fragments\<close>

fun write_samples :: "nat \<Rightarrow> encoder_packet deque \<Rightarrow> ('s serializer, encoder_packet deque) state" where
  "write_samples 0 dq = State_Monad.return dq"
| "write_samples (Suc n) dq =
    (let (out, dq1) = deque_pop_front dq 1 in do {
       (case out of [Some pkt] \<Rightarrow> s_write (p_data pkt) | _ \<Rightarrow> State_Monad.return 0);
       write_samples n dq1 })"

definition write_packets :: "mp4_track \<Rightarrow> ('s serializer, mp4_track) state" where
  "write_packets track =
    (if dq_size (t_packets track) = 0 \<or> t_fragment_samples track = [] then State_Monad.return track
     else do {
       pos \<leftarrow> serializer_get_pos;
       let offset = (word_of_int pos :: u64);
       packets \<leftarrow> write_samples (length (t_fragment_samples track)) (t_packets track);
       fin \<leftarrow> serializer_get_pos;
       let sz = (ucast (word_of_int fin - offset) :: u32);
       let samples = (if t_sample_size track \<noteq> 0 then sz div t_sample_size track
                      else word_of_nat (length (t_fragment_samples track)));
       State_Monad.return (track\<lparr>t_packets := packets,
         t_chunks := t_chunks track @ [\<lparr>ch_offset = offset, ch_size = sz, ch_samples = samples\<rparr>],
         t_fragment_samples := []\<rparr>) })"

fun write_tracks :: "mp4_track list \<Rightarrow> ('s serializer, mp4_track list) state" where
  "write_tracks [] = State_Monad.return []"
| "write_tracks (track # tracks) = do {
     track1 \<leftarrow> write_packets track;
     tracks1 \<leftarrow> write_tracks tracks;
     State_Monad.return (track1 # tracks1) }"

text \<open>Runs on the temporary array, and its reset between them.\<close>

definition array_bytes :: "array_output_data serializer \<Rightarrow> byte list" where
  "array_bytes s = ao_bytes (ser_data s)"

definition array_reset :: "array_output_data serializer \<Rightarrow> array_output_data serializer" where
  "array_reset s = s\<lparr>ser_data := array_output_serializer_reset (ser_data s)\<rparr>"

definition write_mdat_header :: "u64 \<Rightarrow> ('s serializer, unit) state" where
  "write_mdat_header mdat_size =
    (if unat mdat_size > UINT32_MAX then do {
       s_wb32 1;
       s_str ''mdat'';
       s_wb64 (mdat_size + 8) }
     else do {
       s_wb32 (ucast mdat_size);
       s_str ''mdat'';
       State_Monad.return () })"

text \<open>The analysis part of a flush: all tracks, and on the final flush the chapters.\<close>

definition analyse_packets :: "mp4_env \<Rightarrow> mp4_mux \<Rightarrow> mp4_mux \<times> u64" where
  "analyse_packets env mux =
    (let (tracks, mdat_size) = process_tracks mux (m_tracks mux) 8;
         mux1 = mux\<lparr>m_tracks := tracks\<rparr>
     in case m_chapter_track mux1 of
          Some chapters \<Rightarrow>
            if m_next_frag_pts mux1 = 0 then
              (let pkt = mp4_create_chapter_pkt env (get_longest_track_duration mux1 * 1000) ''Dummy'';
                   (chapters1, mdat_size1) = process_packets mux1
                     (chapters\<lparr>t_packets := deque_push_back (t_packets chapters) [pkt]\<rparr>) mdat_size
               in (mux1\<lparr>m_chapter_track := Some chapters1\<rparr>, mdat_size1))
            else (mux1, mdat_size)
        | None \<Rightarrow> (mux1, mdat_size))"

text \<open>The bytes of the fragment header, through the array and its two passes.\<close>

definition moof_via_array :: "mp4_mux \<Rightarrow> u64 \<Rightarrow> array_output_data serializer \<Rightarrow> byte list" where
  "moof_via_array mux moof_start as =
    (let (moof_size, as1) = run_state (mp4_write_moof mux 0 moof_start) as;
         (_, as2) = run_state (mp4_write_moof mux (word_of_nat moof_size) moof_start) (array_reset as1)
     in array_bytes as2)"

definition mp4_flush_fragment :: "mp4_env \<Rightarrow> mp4_mux \<Rightarrow> ('s serializer, mp4_mux) state" where
  "mp4_flush_fragment env mux = do {
     mux1 \<leftarrow> (if m_fragments_written mux = 0 then do {
         mp4_write_ftyp mux True;
         placeholder \<leftarrow> serializer_get_pos;
         mp4_write_free mux;
         State_Monad.return (mux\<lparr>m_placeholder_offset := nat placeholder\<rparr>) }
       else State_Monad.return mux);
     as \<leftarrow> (if m_fragments_written mux1 = 0 then
         (let (_, as) = run_state (mp4_write_moov env mux1 True) array_output_serializer_init in do {
            s_write (array_bytes as);
            State_Monad.return (array_reset as) })
       else State_Monad.return array_output_serializer_init);
     let mux2 = mux1\<lparr>m_fragments_written := m_fragments_written mux1 + 1\<rparr>;
     let (mux3, mdat_size) = analyse_packets env mux2;
     moof_start \<leftarrow> serializer_get_pos;
     s_write (moof_via_array mux3 (word_of_int moof_start) as);
     write_mdat_header mdat_size;
     tracks \<leftarrow> write_tracks (m_tracks mux3);
     chapters \<leftarrow> (case m_chapter_track mux3 of
         Some chapters \<Rightarrow>
           if m_next_frag_pts mux3 = 0 then do {
             chapters1 \<leftarrow> write_packets chapters;
             State_Monad.return (Some chapters1) }
           else State_Monad.return (Some chapters)
       | None \<Rightarrow> State_Monad.return None);
     State_Monad.return (mux3\<lparr>m_tracks := tracks, m_chapter_track := chapters, m_next_frag_pts := 0\<rparr>) }"

section \<open>Tracks\<close>

definition track_insert_packet :: "mp4_track \<Rightarrow> encoder_packet \<Rightarrow> mp4_track" where
  "track_insert_packet track pkt =
    (let pts_usec = packet_pts_usec pkt;
         track1 = (if sint pts_usec > sint (t_last_pts_usec track) then track\<lparr>t_last_pts_usec := pts_usec\<rparr> else track)
     in track1\<lparr>t_packets := deque_push_back (t_packets track1) [pkt]\<rparr>)"

definition get_sample_size :: "mp4_track \<Rightarrow> u32" where
  "get_sample_size track = (case obs_encoder_audio (t_encoder track) of
      None \<Rightarrow> 0
    | Some info \<Rightarrow>
        (let channels = get_audio_channels (au_speakers info)
         in case t_codec track of
              CODEC_PCM_F32 \<Rightarrow> channels * 4
            | CODEC_PCM_I24 \<Rightarrow> channels * 3
            | CODEC_PCM_I16 \<Rightarrow> channels * 2
            | _ \<Rightarrow> 0))"

definition get_codec :: "obs_encoder \<Rightarrow> mp4_codec" where
  "get_codec enc =
    (let codec = e_codec enc
     in if codec = ''h264'' then CODEC_H264
        else if codec = ''hevc'' then CODEC_HEVC
        else if codec = ''av1'' then CODEC_AV1
        else if codec = ''prores'' then CODEC_PRORES
        else if codec = ''aac'' then CODEC_AAC
        else if codec = ''opus'' then CODEC_OPUS
        else if codec = ''flac'' then CODEC_FLAC
        else if codec = ''alac'' then CODEC_ALAC
        else if codec = ''pcm_s16le'' then CODEC_PCM_I16
        else if codec = ''pcm_s24le'' then CODEC_PCM_I24
        else if codec = ''pcm_f32le'' then CODEC_PCM_F32
        else CODEC_UNKNOWN)"

definition empty_track :: mp4_track where
  "empty_track = \<lparr>t_type = TRACK_UNKNOWN, t_codec = CODEC_UNKNOWN, t_track_id = 0, t_samples = 0, t_duration = 0,
     t_encoder = None, t_timebase_num = 0, t_timebase_den = 0, t_timescale = 0, t_first_pts = 0,
     t_last_pts_usec = 0, t_packets = deque_init, t_sample_size = 0, t_sample_sizes = [], t_chunks = [],
     t_deltas = [], t_needs_ctts = False, t_dts_offset = 0, t_offsets = [], t_sync_samples = [],
     t_fragment_samples = []\<rparr>"

definition add_track :: "mp4_mux \<Rightarrow> obs_encoder \<Rightarrow> mp4_mux" where
  "add_track mux enc =
    (let ctr = m_track_ctr mux + 1;
         track = empty_track\<lparr>
           t_type := if obs_encoder_get_type (Some enc) = OBS_ENCODER_VIDEO then TRACK_VIDEO else TRACK_AUDIO,
           t_encoder := Some enc, t_codec := get_codec enc, t_track_id := ctr\<rparr>;
         track1 = (if t_type track = TRACK_VIDEO then
             (let info = video_info (obs_encoder_video (Some enc))
              in track\<lparr>t_timebase_num := vo_fps_den info, t_timebase_den := vo_fps_num info,
                       t_timescale := vo_fps_num info\<rparr>)
           else
             (let sample_rate = (if t_codec track = CODEC_OPUS then 48000 else obs_encoder_get_sample_rate (Some enc))
              in track\<lparr>t_timebase_num := 1, t_timebase_den := sample_rate, t_timescale := sample_rate\<rparr>));
         track2 = (if t_type track1 = TRACK_AUDIO then track1\<lparr>t_sample_size := get_sample_size track1\<rparr> else track1)
     in mux\<lparr>m_track_ctr := ctr, m_tracks := m_tracks mux @ [track2]\<rparr>)"

definition add_chapter_track :: "mp4_mux \<Rightarrow> mp4_mux" where
  "add_chapter_track mux =
    (let ctr = m_track_ctr mux + 1
     in mux\<lparr>m_track_ctr := ctr,
            m_chapter_track := Some (empty_track\<lparr>t_type := TRACK_CHAPTERS, t_codec := CODEC_TEXT, t_timescale := 1000,
              t_timebase_num := 1, t_timebase_den := 1000, t_track_id := ctr\<rparr>)\<rparr>)"

definition free_packets :: "encoder_packet deque \<Rightarrow> encoder_packet deque" where
  "free_packets dq = snd (drain deque_pop_front (dq_size dq) dq)"

definition free_track :: "mp4_track \<Rightarrow> mp4_track" where
  "free_track track = track\<lparr>t_packets := deque_free (free_packets (t_packets track)), t_sample_sizes := [],
     t_chunks := [], t_deltas := [], t_offsets := [], t_sync_samples := [], t_fragment_samples := []\<rparr>"

section \<open>The interface\<close>

text \<open>
  \<open>now\<close> is the result of \<open>time(NULL)\<close>; the encoders are those of the output, video slots
  first, empty slots skipped.
\<close>

definition add_encoder :: "mp4_mux \<Rightarrow> obs_encoder option \<Rightarrow> mp4_mux" where
  "add_encoder mux enc = (case enc of None \<Rightarrow> mux | Some e \<Rightarrow> add_track mux e)"

definition mp4_mux_create ::
  "obs_encoder option list \<Rightarrow> obs_encoder option list \<Rightarrow> u64 \<Rightarrow> mp4_mux_flags \<Rightarrow> mp4_flavor \<Rightarrow> mp4_mux" where
  "mp4_mux_create video_encoders audio_encoders now flags flavor =
    (let creation_time = now + 0x7C25B080;
         creation_time1 = (if flavor = FLAVOR_MOV \<and> unat creation_time > UINT32_MAX then 0 else creation_time);
         mux = \<lparr>m_flavor = flavor, m_flags = flags, m_fragments_written = 0, m_next_frag_pts = 0,
                m_creation_time = creation_time1, m_placeholder_offset = 0, m_track_ctr = 0, m_tracks = [],
                m_chapter_track = None\<rparr>
     in foldl add_encoder (foldl add_encoder mux (take 10 video_encoders)) (take 6 audio_encoders))"

text \<open>Destruction frees every track; what is returned is the state the tracks are left in.\<close>

definition mp4_mux_destroy :: "mp4_mux \<Rightarrow> mp4_mux" where
  "mp4_mux_destroy mux = mux\<lparr>m_tracks := map free_track (m_tracks mux),
     m_chapter_track := map_option free_track (m_chapter_track mux)\<rparr>"

text \<open>The last track whose encoder is the packet's.\<close>

fun find_track :: "nat \<Rightarrow> mp4_track list \<Rightarrow> nat option \<Rightarrow> nat option \<Rightarrow> nat option" where
  "find_track i [] enc r = r"
| "find_track i (t # ts) enc r =
    find_track (i + 1) ts enc (if map_option e_ptr (t_encoder t) = enc then Some i else r)"

definition fragment_ready :: "mp4_mux \<Rightarrow> bool" where
  "fragment_ready mux = foldl (\<lambda>ready t. ready \<and> sint (t_last_pts_usec t) \<ge> sint (m_next_frag_pts mux))
     (sint (m_next_frag_pts mux) > 0) (m_tracks mux)"

definition parse_packet :: "mp4_env \<Rightarrow> mp4_codec \<Rightarrow> encoder_packet \<Rightarrow> encoder_packet" where
  "parse_packet env codec pkt =
    (if p_type pkt = OBS_ENCODER_AUDIO then obs_encoder_packet_ref pkt
     else if codec = CODEC_H264 then obs_parse_avc_packet (env_addr env (p_data pkt)) pkt
     else if codec = CODEC_HEVC then obs_parse_hevc_packet (env_addr env (p_data pkt)) pkt
     else if codec = CODEC_AV1 then (case obs_parse_av1_packet pkt of Some p \<Rightarrow> p | None \<Rightarrow> env_uninit env)
     else if codec = CODEC_PRORES then obs_encoder_packet_ref pkt
     else env_uninit env)"

definition mp4_mux_submit_packet :: "mp4_env \<Rightarrow> mp4_mux \<Rightarrow> encoder_packet \<Rightarrow> ('s serializer, bool \<times> mp4_mux) state" where
  "mp4_mux_submit_packet env mux pkt =
    (case find_track 0 (m_tracks mux) (p_encoder pkt) None of
       None \<Rightarrow> State_Monad.return (False, mux)
     | Some i \<Rightarrow> do {
         mux1 \<leftarrow> (if fragment_ready mux then mp4_flush_fragment env mux else State_Monad.return mux);
         let parsed = parse_packet env (t_codec (m_tracks mux1 ! i)) pkt;
         let mux2 = (if p_type pkt \<noteq> OBS_ENCODER_AUDIO \<and> p_keyframe parsed \<and> sint (p_pts parsed) > 0
                     then mux1\<lparr>m_next_frag_pts := packet_pts_usec parsed\<rparr> else mux1);
         State_Monad.return (True, mux2\<lparr>m_tracks := (m_tracks mux2)[i := track_insert_packet (m_tracks mux2 ! i) parsed]\<rparr>) })"

text \<open>
  The recursive call for the chapter at time zero finds the chapter track in place and only
  inserts its packet.
\<close>

definition insert_chapter :: "mp4_env \<Rightarrow> mp4_mux \<Rightarrow> s64 \<Rightarrow> string \<Rightarrow> mp4_mux" where
  "insert_chapter env mux dts_usec name =
    mux\<lparr>m_chapter_track := map_option (\<lambda>t. track_insert_packet t (mp4_create_chapter_pkt env dts_usec name))
      (m_chapter_track mux)\<rparr>"

definition mp4_mux_add_chapter :: "mp4_env \<Rightarrow> mp4_mux \<Rightarrow> s64 \<Rightarrow> string \<Rightarrow> bool \<times> mp4_mux" where
  "mp4_mux_add_chapter env mux dts_usec name =
    (if sint dts_usec < 0 then (False, mux)
     else
       (let mux1 = (if m_chapter_track mux = None then add_chapter_track mux else mux);
            mux2 = (case m_chapter_track mux1 of
                Some chapters \<Rightarrow>
                  if sint dts_usec > 0 \<and> dq_size (t_packets chapters) = 0
                  then insert_chapter env mux1 0 (env_start_chapter env) else mux1
              | None \<Rightarrow> mux1)
        in (True, insert_chapter env mux2 dts_usec name)))"

definition mp4_mux_finalise :: "mp4_env \<Rightarrow> mp4_mux \<Rightarrow> ('s serializer, bool \<times> mp4_mux) state" where
  "mp4_mux_finalise env mux = do {
     mux1 \<leftarrow> mp4_flush_fragment env (mux\<lparr>m_next_frag_pts := 0\<rparr>);
     (if MP4_SKIP_FINALISATION (m_flags mux1) then State_Monad.return (True, mux1)
      else do {
        data_end \<leftarrow> serializer_get_pos;
        let (_, ao) = run_state (mp4_write_moov env mux1 False) array_output_serializer_init;
        s_write (array_bytes ao);
        serializer_seek 0 SERIALIZE_SEEK_START;
        mp4_write_ftyp mux1 False;
        let data_size = nat (data_end - int (m_placeholder_offset mux1));
        serializer_seek (int (m_placeholder_offset mux1)) SERIALIZE_SEEK_START;
        (if data_size > UINT32_MAX then do {
           s_wb32 1;
           s_str ''mdat'';
           s_wb64 (word_of_nat data_size) }
         else do {
           s_wb32 (word_of_nat data_size);
           s_str ''mdat'';
           State_Monad.return () });
        State_Monad.return (True, mux1) }) }"

end
