(* ===== verification/Mp4_Samples.thy ===== *)
theory Mp4_Samples
  imports Mp4_Mux
begin

text \<open>
  What packet processing does to a track: \<open>process_packets\<close> is a left fold over the packets
  that are ready, and the run-length tables it maintains represent exactly the list of the
  samples seen so far.
\<close>

section \<open>Packet processing as a fold\<close>

definition cut_packet :: "mp4_mux \<Rightarrow> encoder_packet \<Rightarrow> bool" where
  "cut_packet mux pkt \<longleftrightarrow> m_next_frag_pts mux \<noteq> 0 \<and> sint (packet_pts_usec pkt) \<ge> sint (m_next_frag_pts mux)"

text \<open>The packets a flush takes from a queue: all but the last, up to the fragment boundary.\<close>

definition ready_packets :: "mp4_mux \<Rightarrow> encoder_packet list \<Rightarrow> encoder_packet list" where
  "ready_packets mux pkts = takeWhile (\<lambda>p. \<not> cut_packet mux p) (butlast pkts)"

definition process_all :: "mp4_mux \<Rightarrow> (encoder_packet \<times> encoder_packet) list \<Rightarrow> mp4_track \<times> u64 \<Rightarrow> mp4_track \<times> u64" where
  "process_all mux ps st = fold (\<lambda>(pkt, nxt). process_packet mux pkt nxt) ps st"

lemma process_sample_keeps:
  "t_packets (process_sample mux pkt nxt track) = t_packets track"
  "t_type (process_sample mux pkt nxt track) = t_type track"
  "t_codec (process_sample mux pkt nxt track) = t_codec track"
  "t_encoder (process_sample mux pkt nxt track) = t_encoder track"
  "t_track_id (process_sample mux pkt nxt track) = t_track_id track"
  "t_sample_size (process_sample mux pkt nxt track) = t_sample_size track"
  "t_chunks (process_sample mux pkt nxt track) = t_chunks track"
  "t_last_pts_usec (process_sample mux pkt nxt track) = t_last_pts_usec track"
  by (simp_all add: process_sample_def Let_def)

lemma process_sample_fragment:
  "map fs_size (t_fragment_samples (process_sample mux pkt nxt track)) =
     map fs_size (t_fragment_samples track) @ [word_of_nat (length (p_data pkt))]"
  by (simp add: process_sample_def Let_def)

lemma fst_process_packet [simp]: "fst (process_packet mux pkt nxt st) = process_sample mux pkt nxt (fst st)"
  by (simp add: process_packet_def)

lemma snd_process_packet [simp]:
  "snd (process_packet mux pkt nxt st) = snd st + ucast (word_of_nat (length (p_data pkt)) :: u32)"
  by (simp add: process_packet_def)

lemma process_loop_step:
  assumes "get_pkt_at (t_packets (fst st)) i = Some pkt" and "get_pkt_at (t_packets (fst st)) (i + 1) = Some nxt"
  shows "process_loop mux i (Suc n) st =
    (if cut_packet mux pkt then st else process_loop mux (i + 1) n (process_packet mux pkt nxt st))"
  using assms by (simp add: cut_packet_def)

lemma process_loop_fold:
  assumes "deque_wf (t_packets (fst st))" and "deque_elems (t_packets (fst st)) = pre @ pkts"
    and "i = length pre" and "n = length pkts - 1"
  shows "process_loop mux i n st =
    process_all mux (zip (ready_packets mux pkts) (tl pkts)) st"
  using assms
proof (induction n arbitrary: i st pre pkts)
  case 0
  then have "butlast pkts = []" by (cases pkts) auto
  then show ?case by (simp add: process_all_def ready_packets_def)
next
  case (Suc n)
  obtain p q rest where pk: "pkts = p # q # rest" using Suc.prems(4) by (metis One_nat_def Suc_neq_Zero
      diff_0_eq_0 diff_Suc_1 length_0_conv length_Cons list.exhaust)
  let ?dq = "t_packets (fst st)"
  have get: "get_pkt_at ?dq i = Some p" "get_pkt_at ?dq (i + 1) = Some q"
    using dqf.get_nth [OF Suc.prems(1), of i] dqf.get_nth [OF Suc.prems(1), of "i + 1"] Suc.prems(2,3) pk
    by (simp_all add: get_pkt_at_def nth_append)
  show ?case
  proof (cases "cut_packet mux p")
    case True
    then show ?thesis
      unfolding process_loop_step [OF get] using pk by (simp add: process_all_def ready_packets_def)
  next
    case False
    have "process_loop mux (i + 1) n (process_packet mux p q st) =
        process_all mux (zip (ready_packets mux (q # rest)) (tl (q # rest))) (process_packet mux p q st)"
      using Suc.prems pk by (intro Suc.IH [of _ "pre @ [p]"]) (simp_all add: process_sample_keeps)
    then show ?thesis
      unfolding process_loop_step [OF get] using False pk by (simp add: process_all_def ready_packets_def)
  qed
qed

lemma process_packets_fold:
  assumes "deque_wf (t_packets track)"
  shows "process_packets mux track mdat_size =
    process_all mux (zip (ready_packets mux (deque_elems (t_packets track))) (tl (deque_elems (t_packets track))))
      (track, mdat_size)"
proof (cases "deque_elems (t_packets track) = []")
  case True
  then show ?thesis
    using dqf.count_elems [OF assms] by (simp add: process_packets_def process_all_def ready_packets_def)
next
  case False
  then show ?thesis
    using process_loop_fold [of "(track, mdat_size)" "[]"] assms dqf.count_elems [OF assms]
    by (simp add: process_packets_def)
qed

lemma process_all_keeps:
  "t_packets (fst (process_all mux ps st)) = t_packets (fst st)"
  "t_type (fst (process_all mux ps st)) = t_type (fst st)"
  "t_codec (fst (process_all mux ps st)) = t_codec (fst st)"
  "t_encoder (fst (process_all mux ps st)) = t_encoder (fst st)"
  "t_track_id (fst (process_all mux ps st)) = t_track_id (fst st)"
  "t_sample_size (fst (process_all mux ps st)) = t_sample_size (fst st)"
  "t_chunks (fst (process_all mux ps st)) = t_chunks (fst st)"
  "t_last_pts_usec (fst (process_all mux ps st)) = t_last_pts_usec (fst st)"
  unfolding process_all_def by (induction ps arbitrary: st) (auto simp: process_sample_keeps)

lemma process_all_fragment:
  "map fs_size (t_fragment_samples (fst (process_all mux ps st))) =
     map fs_size (t_fragment_samples (fst st)) @ map (\<lambda>(p, n). word_of_nat (length (p_data p))) ps"
  "snd (process_all mux ps st) = snd st + sum_list (map (\<lambda>(p, n). ucast (word_of_nat (length (p_data p)) :: u32)) ps)"
  unfolding process_all_def
  by (induction ps arbitrary: st) (auto simp: process_sample_fragment add.assoc)

section \<open>The tables represent the samples\<close>

record sample_info =
  si_size :: u32
  si_duration :: u32
  si_offset :: s32
  si_key :: bool

definition expand_deltas :: "sample_delta list \<Rightarrow> u32 list" where
  "expand_deltas ds = concat (map (\<lambda>d. replicate (unat (sd_count d)) (sd_delta d)) ds)"

definition expand_offsets :: "sample_offset list \<Rightarrow> s32 list" where
  "expand_offsets os = concat (map (\<lambda>x. replicate (unat (so_count x)) (so_offset x)) os)"

definition key_indices :: "sample_info list \<Rightarrow> u32 list" where
  "key_indices xs = map (\<lambda>i. word_of_nat (i + 1)) (filter (\<lambda>i. si_key (xs ! i)) [0..<length xs])"

text \<open>
  For a track without a fixed sample size: \<open>tables_rep track xs\<close> says that every table of
  the track, expanded, is the corresponding column of the sample list \<open>xs\<close>.
\<close>

definition tables_rep :: "mp4_track \<Rightarrow> sample_info list \<Rightarrow> bool" where
  "tables_rep track xs \<longleftrightarrow>
    t_sample_sizes track = map si_size xs \<and>
    t_samples track = word_of_nat (length xs) \<and>
    t_duration track = sum_list (map (\<lambda>x. ucast (si_duration x)) xs) \<and>
    expand_deltas (t_deltas track) = map si_duration xs \<and>
    (t_type track = TRACK_VIDEO \<longrightarrow>
       expand_offsets (t_offsets track) = map si_offset xs \<and>
       t_sync_samples track = key_indices xs \<and>
       (t_needs_ctts track \<longleftrightarrow> (\<exists>x \<in> set xs. si_offset x \<noteq> 0)))"

lemma expand_deltas_snoc: "expand_deltas (ds @ [d]) = expand_deltas ds @ replicate (unat (sd_count d)) (sd_delta d)"
  by (simp add: expand_deltas_def)

lemma expand_offsets_snoc: "expand_offsets (os @ [x]) = expand_offsets os @ replicate (unat (so_count x)) (so_offset x)"
  by (simp add: expand_offsets_def)

lemma unat_suc: "n + 1 < 2 ^ 32 \<Longrightarrow> unat (w :: u32) \<le> n \<Longrightarrow> unat (w + 1) = unat w + 1"
  by (subst unat_add_lem [THEN iffD1]) simp_all

lemma expand_add_delta:
  assumes "length (expand_deltas ds) + 1 < 2 ^ 32"
  shows "expand_deltas (add_delta ds d 1) = expand_deltas ds @ [d]"
proof (cases "ds = [] \<or> sd_delta (last ds) \<noteq> d")
  case True
  then show ?thesis by (simp add: add_delta_def expand_deltas_snoc)
next
  case False
  then have ds: "ds = butlast ds @ [last ds]" by simp
  have "unat (sd_count (last ds)) \<le> length (expand_deltas ds)"
    by (subst ds) (simp only: expand_deltas_snoc length_append length_replicate le_add2)
  then have "unat (sd_count (last ds) + 1) = unat (sd_count (last ds)) + 1"
    using unat_suc [OF assms] by simp
  moreover have "expand_deltas ds = expand_deltas (butlast ds) @ replicate (unat (sd_count (last ds))) (sd_delta (last ds))"
    by (subst ds) (simp only: expand_deltas_snoc)
  ultimately show ?thesis
    using False by (simp add: add_delta_def expand_deltas_snoc replicate_append_same)
qed

lemma expand_add_offset:
  assumes "length (expand_offsets os) + 1 < 2 ^ 32"
  shows "expand_offsets (add_offset os d) = expand_offsets os @ [d]"
proof (cases "os = [] \<or> so_offset (last os) \<noteq> d")
  case True
  then show ?thesis by (simp add: add_offset_def expand_offsets_snoc)
next
  case False
  then have os: "os = butlast os @ [last os]" by simp
  have "unat (so_count (last os)) \<le> length (expand_offsets os)"
    by (subst os) (simp only: expand_offsets_snoc length_append length_replicate le_add2)
  then have "unat (so_count (last os) + 1) = unat (so_count (last os)) + 1"
    using unat_suc [OF assms] by simp
  moreover have "expand_offsets os = expand_offsets (butlast os) @ replicate (unat (so_count (last os))) (so_offset (last os))"
    by (subst os) (simp only: expand_offsets_snoc)
  ultimately show ?thesis
    using False by (simp add: add_offset_def expand_offsets_snoc replicate_append_same)
qed

lemma key_indices_snoc:
  "key_indices (xs @ [x]) = key_indices xs @ (if si_key x then [word_of_nat (length xs + 1)] else [])"
proof -
  have "filter (\<lambda>i. si_key ((xs @ [x]) ! i)) [0..<length xs] = filter (\<lambda>i. si_key (xs ! i)) [0..<length xs]"
    by (rule filter_cong) (auto simp: nth_append)
  then show ?thesis by (simp add: key_indices_def)
qed

text \<open>The sample a packet becomes, given the track it is processed on.\<close>

definition packet_sample :: "mp4_mux \<Rightarrow> mp4_track \<Rightarrow> encoder_packet \<Rightarrow> encoder_packet \<Rightarrow> sample_info" where
  "packet_sample mux track pkt nxt =
    (let off = ucast (p_pts pkt - p_dts pkt) :: s32
     in \<lparr>si_size = word_of_nat (length (p_data pkt)), si_duration = ucast (p_dts nxt - p_dts pkt),
         si_offset = (if t_type track = TRACK_VIDEO \<and> MP4_USE_NEGATIVE_CTS (m_flags mux) then
             if t_offsets track = [] then 0 else off - t_dts_offset track
           else off),
         si_key = p_keyframe pkt\<rparr>)"

lemma process_sample_fields:
  assumes "t_sample_size track = 0"
  shows "t_sample_sizes (process_sample mux pkt nxt track) =
      t_sample_sizes track @ [si_size (packet_sample mux track pkt nxt)]"
    "t_samples (process_sample mux pkt nxt track) = t_samples track + 1"
    "t_duration (process_sample mux pkt nxt track) =
      t_duration track + ucast (si_duration (packet_sample mux track pkt nxt))"
    "t_deltas (process_sample mux pkt nxt track) =
      add_delta (t_deltas track) (si_duration (packet_sample mux track pkt nxt)) 1"
  using assms by (simp_all add: process_sample_def packet_sample_def Let_def)

lemma process_sample_video:
  assumes "t_sample_size track = 0" and "t_type track = TRACK_VIDEO"
  shows "t_offsets (process_sample mux pkt nxt track) =
      add_offset (t_offsets track) (si_offset (packet_sample mux track pkt nxt))"
    "t_sync_samples (process_sample mux pkt nxt track) =
      t_sync_samples track @ (if si_key (packet_sample mux track pkt nxt) then [ucast (t_samples track + 1)] else [])"
    "t_needs_ctts (process_sample mux pkt nxt track) \<longleftrightarrow>
      t_needs_ctts track \<or> si_offset (packet_sample mux track pkt nxt) \<noteq> 0"
  using assms by (simp_all add: process_sample_def packet_sample_def Let_def)

lemma ucast_u64_of_nat: "(ucast (word_of_nat n :: u64) :: u32) = word_of_nat n"
  by (simp add: unsigned_of_nat word_of_nat_eq_iff)

lemma process_sample_tables:
  assumes rep: "tables_rep track xs" and sz: "t_sample_size track = 0" and len: "length xs + 1 < 2 ^ 32"
  shows "tables_rep (process_sample mux pkt nxt track) (xs @ [packet_sample mux track pkt nxt])"
proof -
  let ?x = "packet_sample mux track pkt nxt"
  let ?track = "process_sample mux pkt nxt track"
  have common: "t_sample_sizes ?track = map si_size (xs @ [?x])" "t_samples ?track = word_of_nat (length (xs @ [?x]))"
    "t_duration ?track = sum_list (map (\<lambda>x. ucast (si_duration x)) (xs @ [?x]))"
    using rep by (simp_all add: process_sample_fields [OF sz] tables_rep_def ac_simps)
  have deltas: "expand_deltas (t_deltas ?track) = map si_duration (xs @ [?x])"
    unfolding process_sample_fields [OF sz] using rep len by (subst expand_add_delta) (simp_all add: tables_rep_def)
  show ?thesis
  proof (cases "t_type track = TRACK_VIDEO")
    case False
    then show ?thesis using common deltas by (simp add: tables_rep_def process_sample_keeps)
  next
    case True
    note V = process_sample_video [OF sz True]
    have rep': "expand_offsets (t_offsets track) = map si_offset xs" "t_sync_samples track = key_indices xs"
      "t_needs_ctts track \<longleftrightarrow> (\<exists>x \<in> set xs. si_offset x \<noteq> 0)" "t_samples track = word_of_nat (length xs)"
      using rep True by (simp_all add: tables_rep_def)
    have "expand_offsets (t_offsets ?track) = map si_offset (xs @ [?x])"
      unfolding V using rep' len by (subst expand_add_offset) simp_all
    moreover have "t_sync_samples ?track = key_indices (xs @ [?x])"
      unfolding V key_indices_snoc rep' using ucast_u64_of_nat [of "length xs + 1"] by (simp add: add.commute)
    moreover have "t_needs_ctts ?track \<longleftrightarrow> (\<exists>x \<in> set (xs @ [?x]). si_offset x \<noteq> 0)"
      unfolding V using rep' by auto
    ultimately show ?thesis using common deltas by (simp add: tables_rep_def process_sample_keeps)
  qed
qed

text \<open>The samples a run of packets becomes.\<close>

fun packet_samples :: "mp4_mux \<Rightarrow> mp4_track \<Rightarrow> (encoder_packet \<times> encoder_packet) list \<Rightarrow> sample_info list" where
  "packet_samples mux track [] = []"
| "packet_samples mux track ((pkt, nxt) # ps) =
    packet_sample mux track pkt nxt # packet_samples mux (process_sample mux pkt nxt track) ps"

lemma length_packet_samples [simp]: "length (packet_samples mux track ps) = length ps"
  by (induction mux track ps rule: packet_samples.induct) simp_all

lemma process_all_tables:
  assumes "tables_rep track xs" and "t_sample_size track = 0" and "length xs + length ps < 2 ^ 32"
  shows "tables_rep (fst (process_all mux ps (track, md))) (xs @ packet_samples mux track ps)"
  using assms
proof (induction ps arbitrary: track md xs)
  case (Cons p ps)
  obtain pkt nxt where p: "p = (pkt, nxt)" by (cases p)
  let ?t = "process_sample mux pkt nxt track"
  have len: "length xs + 1 < 2 ^ 32" using Cons.prems(3) by simp
  have "tables_rep (fst (process_all mux ps (?t, md'))) ((xs @ [packet_sample mux track pkt nxt]) @ packet_samples mux ?t ps)" for md'
    using process_sample_tables [OF Cons.prems(1,2) len] Cons.prems
    by (intro Cons.IH) (simp_all add: process_sample_keeps)
  then show ?case
    by (simp add: p process_all_def process_packet_def)
qed (simp add: process_all_def)

lemma process_packets_tables_fold:
  assumes "deque_wf (t_packets track)" and "tables_rep track xs" and "t_sample_size track = 0"
    and "length xs + length (deque_elems (t_packets track)) < 2 ^ 32"
  shows "tables_rep (fst (process_packets mux track mdat_size))
    (xs @ packet_samples mux track (zip (ready_packets mux (deque_elems (t_packets track)))
       (tl (deque_elems (t_packets track)))))"
proof -
  let ?ps = "zip (ready_packets mux (deque_elems (t_packets track))) (tl (deque_elems (t_packets track)))"
  have "length ?ps \<le> length (deque_elems (t_packets track))"
    by (simp add: le_diff_conv min.coboundedI2)
  then show ?thesis
    unfolding process_packets_fold [OF assms(1)] using assms by (intro process_all_tables) simp_all
qed

text \<open>
  C9. Processing a track's queue keeps its tables an exact run-length encoding of the
  samples: sizes, durations, composition offsets and sync samples of the samples processed
  before, followed by those of the packets processed now, in order, with the total duration
  and sample count to match.  The bound is the width of the 32-bit counters.
\<close>

theorem process_packets_tables:
  assumes "deque_wf (t_packets track)" and "tables_rep track xs" and "t_sample_size track = 0"
    and "length xs + length (deque_elems (t_packets track)) < 2 ^ 32"
  shows "tables_rep (fst (process_packets mux track mdat_size))
    (xs @ packet_samples mux track (zip (ready_packets mux (deque_elems (t_packets track)))
       (tl (deque_elems (t_packets track)))))"
  by (rule process_packets_tables_fold [OF assms])

definition plain_flags :: mp4_mux_flags where
  "plain_flags = \<lparr>MP4_USE_MDTA_KEY_VALUE = False, MP4_WRITE_ENCODER_INFO = False, MP4_SKIP_FINALISATION = False,
     MP4_USE_NEGATIVE_CTS = False\<rparr>"

definition two_packets :: "encoder_packet list" where
  "two_packets = [sample_packet\<lparr>p_pts := 2, p_keyframe := True\<rparr>, sample_packet\<lparr>p_dts := 1\<rparr>]"

definition sample_track :: mp4_track where
  "sample_track = empty_track\<lparr>t_type := TRACK_VIDEO, t_codec := CODEC_H264, t_track_id := 1, t_timebase_num := 1,
     t_timebase_den := 60, t_timescale := 60, t_packets := deque_push_back deque_init two_packets\<rparr>"

lemma deque_init_wf: "deque_wf (deque_init :: 'a deque)" "deque_elems (deque_init :: 'a deque) = []"
  using deque_init_rep [where ?'a = 'a] by (auto simp: deque_wf_rep deque_elems_rep)

lemma sample_track_packets:
  "deque_wf (t_packets sample_track)" "deque_elems (t_packets sample_track) = two_packets"
  by (simp_all add: sample_track_def dqf.push_wf dqf.push_elems deque_init_wf)

theorem process_packets_tables_witness:
  "\<exists>x. tables_rep (fst (process_packets (mp4_mux_create [] [] 0 plain_flags FLAVOR_MP4) sample_track 8)) [x] \<and>
    si_duration x = 1 \<and> si_offset x = 2 \<and> si_key x"
proof -
  let ?mux = "mp4_mux_create [] [] 0 plain_flags FLAVOR_MP4"
  have m: "m_next_frag_pts ?mux = 0" "\<not> MP4_USE_NEGATIVE_CTS (m_flags ?mux)"
    by (simp_all add: mp4_mux_create_def plain_flags_def Let_def)
  have "tables_rep sample_track []" "t_sample_size sample_track = 0"
    by (simp_all add: tables_rep_def sample_track_def empty_track_def expand_deltas_def expand_offsets_def key_indices_def)
  note T = process_packets_tables [OF sample_track_packets(1) this, of ?mux 8, unfolded sample_track_packets(2)]
  let ?p = "sample_packet\<lparr>p_pts := 2, p_keyframe := True\<rparr>" and ?q = "sample_packet\<lparr>p_dts := 1\<rparr>"
  let ?x = "packet_sample ?mux sample_track ?p ?q"
  have "ready_packets ?mux two_packets = [?p]" by (simp add: ready_packets_def two_packets_def cut_packet_def m)
  then have "zip (ready_packets ?mux two_packets) (tl two_packets) = [(?p, ?q)]" by (simp add: two_packets_def)
  then have "tables_rep (fst (process_packets ?mux sample_track 8)) [?x]"
    using T by (simp add: two_packets_def)
  moreover have "si_duration ?x = 1 \<and> si_offset ?x = 2 \<and> si_key ?x"
    by (simp add: packet_sample_def Let_def m sample_packet_def)
  ultimately show ?thesis by blast
qed

end
