(* ===== verification/Mp4_Size.thy ===== *)
theory Mp4_Size
  imports Mp4_Movie
begin

text \<open>
  How large the movie box is.  Its size is linear in the sample tables: a reader of the
  bounds can tell from the number of samples and chunks of a recording that the box stays
  within its 32-bit size field.
\<close>

section \<open>Bounds on what a writer stores\<close>

definition extra_size :: "mp4_env \<Rightarrow> obs_encoder option \<Rightarrow> nat" where
  "extra_size env enc = (case obs_encoder_get_extra_data enc of
      None \<Rightarrow> 0
    | Some d \<Rightarrow> length d + length (obs_parse_avc_header (env_addr env d) d) + length (hevc_config env d) +
        length (av1_config env d))"

definition label_size :: "obs_encoder option \<Rightarrow> nat" where
  "label_size enc = (case enc of
      None \<Rightarrow> 0 | Some e \<Rightarrow> length (e_name e) + length (e_id e) + length (set_json (e_settings e)))"

definition table_size :: "mp4_track \<Rightarrow> nat" where
  "table_size track = 8 * length (t_deltas track) + 4 * length (t_sync_samples track) + 8 * length (t_offsets track) +
     20 * length (t_chunks track) + 4 * length (t_sample_sizes track)"

definition track_size :: "mp4_env \<Rightarrow> mp4_track \<Rightarrow> nat" where
  "track_size env track = 1700 + table_size track + extra_size env (t_encoder track) + label_size (t_encoder track)"

definition moov_size :: "mp4_env \<Rightarrow> mp4_mux \<Rightarrow> nat" where
  "moov_size env mux = 500 + 2 * length (encoder_tool env) + 40 * length (m_tracks mux) +
     sum_list (map (track_size env) (m_tracks mux)) + (case m_chapter_track mux of Some c \<Rightarrow> track_size env c | None \<Rightarrow> 0)"

context output_serializer
begin

definition bounded :: "('s serializer, 'a) state \<Rightarrow> nat \<Rightarrow> bool" where
  "bounded m B \<longleftrightarrow> (\<exists>bs r. emits m bs r \<and> length bs \<le> B)"

definition bounded_tail :: "(int \<Rightarrow> ('s serializer, 'a) state) \<Rightarrow> nat \<Rightarrow> bool" where
  "bounded_tail f B \<longleftrightarrow> (\<forall>acc. 4 \<le> length acc \<longrightarrow>
     (\<exists>bs r. length bs \<le> length acc + B \<and> (\<forall>p. finishes p acc (f (int p)) bs r)))"

lemma bounded_emits: "emits m bs r \<Longrightarrow> length bs \<le> B \<Longrightarrow> bounded m B"
  unfolding bounded_def by blast

lemma bounded_mono: "bounded m A \<Longrightarrow> A \<le> B \<Longrightarrow> bounded m B"
  unfolding bounded_def by (meson order_trans)

lemma bounded_then:
  assumes "bounded m A" and "\<And>x. bounded (f x) B"
  shows "bounded (m \<bind> f) (A + B)"
proof -
  obtain as x where a: "emits m as x" "length as \<le> A" using assms(1) by (auto simp: bounded_def)
  obtain bs r where b: "emits (f x) bs r" "length bs \<le> B" using assms(2) [of x] by (auto simp: bounded_def)
  have "emits (m \<bind> f) (as @ bs) r" using a(1) b(1) by (rule emits_bind)
  then show ?thesis by (rule bounded_emits) (use a b in simp)
qed

lemma bounded_prims:
  "bounded (s_write d) (length d)" "bounded (s_str cs) (length cs)" "bounded (s_w8 a) 1" "bounded (s_wb16 b) 2"
  "bounded (s_wb24 c) 3" "bounded (s_wb32 c) 4" "bounded (s_wb64 e) 8" "bounded (State_Monad.return x) 0"
  by (rule bounded_emits, rule emit_intros emits_s_str, simp)+

lemma bounded_if: "bounded m A \<Longrightarrow> bounded n B \<Longrightarrow> bounded (if c then m else n) (max A B)"
  by (auto intro: bounded_mono)

lemma bounded_cases: "(c \<Longrightarrow> bounded m B) \<Longrightarrow> (\<not> c \<Longrightarrow> bounded n B) \<Longrightarrow> bounded (if c then m else n) B"
  by simp

lemma bounded_option:
  "(\<And>x. y = Some x \<Longrightarrow> bounded (f x) B) \<Longrightarrow> bounded m B \<Longrightarrow>
    bounded (case y of Some x \<Rightarrow> f x | None \<Rightarrow> m) B"
  by (simp split: option.split)

lemma bounded_for_each:
  assumes "\<And>x. x \<in> set xs \<Longrightarrow> bounded (f x) (k x)"
  shows "bounded (for_each f xs) (sum_list (map k xs))"
  using assms
proof (induction xs)
  case (Cons x xs)
  then show ?case using bounded_then [of "f x" "k x" "\<lambda>_. for_each f xs" "sum_list (map k xs)"] by simp
qed (simp add: bounded_prims)

lemma bounded_write_box: "bounded (write_box sz n) 16"
proof (cases "sz \<le> UINT32_MAX")
  case True
  then show ?thesis by (intro bounded_emits [OF emits_write_box]) simp_all
next
  case False
  have "bounded (do { s_wb32 1; s_write (take 4 (bytes_of_string n)); s_wb64 (word_of_nat sz) })
      (4 + (length (take 4 (bytes_of_string n)) + 8))"
    by (rule bounded_then bounded_prims)+
  then have "bounded (write_box sz n) (4 + (length (take 4 (bytes_of_string n)) + 8))"
    unfolding write_box_def if_not_P [OF False] .
  then show ?thesis by (rule bounded_mono) simp
qed

lemma bounded_write_fullbox: "bounded (write_fullbox sz n v fl) 20"
  unfolding write_fullbox_def
  by (rule bounded_mono, (rule bounded_then bounded_write_box bounded_prims)+) simp

lemma bounded_tail_then:
  assumes "bounded m A" and "\<And>x. bounded_tail (\<lambda>st. f st x) B"
  shows "bounded_tail (\<lambda>st. m \<bind> f st) (A + B)"
  unfolding bounded_tail_def
proof (intro allI impI)
  fix acc :: "byte list" assume acc: "4 \<le> length acc"
  obtain b x where b: "emits m b x" "length b \<le> A" using assms(1) by (auto simp: bounded_def)
  have "4 \<le> length (acc @ b)" using acc by simp
  with assms(2) [of x] obtain bs r where bs: "length bs \<le> length (acc @ b) + B"
    "\<And>p. finishes p (acc @ b) (f (int p) x) bs r" unfolding bounded_tail_def by blast
  have "finishes p acc (m \<bind> f (int p)) bs r" for p using b(1) bs(2) by (rule finishes_bind)
  then show "\<exists>bs r. length bs \<le> length acc + (A + B) \<and> (\<forall>p. finishes p acc (m \<bind> f (int p)) bs r)"
    using bs(1) b(2) by (intro exI [of _ bs] exI [of _ r]) simp
qed

lemma bounded_tail_end: "bounded_tail write_box_size 0"
  unfolding bounded_tail_def
proof (intro allI impI)
  fix acc :: "byte list" assume "4 \<le> length acc"
  then show "\<exists>bs r. length bs \<le> length acc + 0 \<and> (\<forall>p. finishes p acc (write_box_size (int p)) bs r)"
    using finishes_write_box_size by (intro exI [of _ "be32 (word_of_nat (length acc)) @ drop 4 acc"] exI) auto
qed

lemma bounded_tail_map:
  "bounded_tail f B \<Longrightarrow> bounded_tail (\<lambda>st. f st \<bind> (\<lambda>_. State_Monad.return x)) B"
  unfolding bounded_tail_def
proof (intro allI impI)
  fix acc :: "byte list" assume f: "\<forall>acc. 4 \<le> length acc \<longrightarrow>
      (\<exists>bs r. length bs \<le> length acc + B \<and> (\<forall>p. finishes p acc (f (int p)) bs r))" and "4 \<le> length acc"
  then obtain bs r where "length bs \<le> length acc + B" "\<And>p. finishes p acc (f (int p)) bs r" by blast
  then show "\<exists>bs r. length bs \<le> length acc + B \<and> (\<forall>p. finishes p acc (f (int p) \<bind> (\<lambda>_. State_Monad.return x)) bs r)"
    by (intro exI [of _ bs] exI [of _ x] conjI allI finishes_then_return)
qed

lemma bounded_box_from:
  assumes "\<And>p. finishes p [] (write_it \<bind> (\<lambda>_. f (int p))) bs r" and "length bs \<le> B"
  shows "bounded (serializer_get_pos \<bind> (\<lambda>st. write_it \<bind> (\<lambda>_. f st))) B"
  by (rule bounded_emits [OF emits_from_pos]) (rule assms)+

lemma bounded_box:
  assumes "bounded_tail f B"
  shows "bounded (serializer_get_pos \<bind> (\<lambda>st. write_box 0 n \<bind> (\<lambda>_. f st))) (8 + B)"
proof -
  obtain bs r where bs: "length bs \<le> length (be32 0 @ fourcc n) + B" "\<And>p. finishes p (be32 0 @ fourcc n) (f (int p)) bs r"
    using assms [unfolded bounded_tail_def, rule_format, of "be32 0 @ fourcc n"] by auto
  have "finishes p [] (write_box 0 n \<bind> (\<lambda>_. f (int p))) bs r" for p
    using finishes_bind [OF emits_write_box [of 0 n], of p "[]" "\<lambda>_. f (int p)"] bs(2) [of p] by simp
  then show ?thesis by (rule bounded_box_from) (use bs(1) in simp)
qed

lemma bounded_fullbox:
  assumes "bounded_tail f B"
  shows "bounded (serializer_get_pos \<bind> (\<lambda>st. write_fullbox 0 n v fl \<bind> (\<lambda>_. f st))) (12 + B)"
proof -
  let ?h = "be32 0 @ fourcc n @ [v] @ be24 fl"
  obtain bs r where bs: "length bs \<le> length ?h + B" "\<And>p. finishes p ?h (f (int p)) bs r"
    using assms [unfolded bounded_tail_def, rule_format, of ?h] by auto
  have "finishes p [] (write_fullbox 0 n v fl \<bind> (\<lambda>_. f (int p))) bs r" for p
    using finishes_bind [OF emits_write_fullbox [of 0 n v fl], of p "[]" "\<lambda>_. f (int p)"] bs(2) [of p] by simp
  then show ?thesis by (rule bounded_box_from) (use bs(1) in simp)
qed

lemmas bound_rules = bounded_fullbox bounded_box bounded_tail_end bounded_tail_then bounded_prims bounded_write_fullbox
  bounded_write_box

section \<open>The boxes\<close>

lemma bounded_mvhd: "bounded (mp4_write_mvhd mux) 150"
  unfolding mp4_write_mvhd_def Let_def UNITY_MATRIX_def for_each.simps
  by (rule bounded_mono, (rule bound_rules bounded_if bounded_then)+) simp

lemma bounded_tkhd: "bounded (mp4_write_tkhd mux track) 150"
  unfolding mp4_write_tkhd_def Let_def UNITY_MATRIX_def for_each.simps
  by (rule bounded_mono, (rule bound_rules bounded_if bounded_then)+) simp

lemma bounded_mdhd: "bounded (mp4_write_mdhd mux track) 60"
  unfolding mp4_write_mdhd_def Let_def
  by (rule bounded_mono, (rule bounded_if bounded_then bounded_write_fullbox bounded_prims)+) simp

lemma bounded_hdlr: "bounded (mp4_write_hdlr mux track) 60"
  unfolding mp4_write_hdlr_def Let_def
  by (rule bounded_mono, (rule bound_rules bounded_if bounded_then)+) (simp split: option.split)

lemma bounded_media_headers: "bounded mp4_write_vmhd 30" "bounded mp4_write_smhd 30"
  unfolding mp4_write_vmhd_def mp4_write_smhd_def
  by (rule bounded_mono, (rule bounded_then bounded_write_fullbox bounded_prims)+, simp)+

lemma bounded_gmhd: "bounded mp4_write_gmhd 90"
proof -
  have 1: "bounded mp4_write_gmin 24" unfolding mp4_write_gmin_def
    by (rule bounded_mono, (rule bound_rules bounded_then)+) simp
  have 2: "bounded mp4_write_qt_text 50" unfolding mp4_write_qt_text_def
    by (rule bounded_mono, (rule bound_rules bounded_then)+) simp
  show ?thesis unfolding mp4_write_gmhd_def by (rule bounded_mono, (rule 1 2 bound_rules)+) simp
qed

lemma bounded_dinf: "bounded mp4_write_dinf 40"
proof -
  have 1: "bounded mp4_write_url 12" unfolding mp4_write_url_def by (rule bounded_mono, (rule bound_rules)+) simp
  have 2: "bounded mp4_write_dref 28" unfolding mp4_write_dref_def
    by (rule bounded_mono, (rule 1 bound_rules)+) simp
  show ?thesis unfolding mp4_write_dinf_def by (rule bounded_mono, (rule 2 bound_rules)+) simp
qed

lemma bounded_skip: "bounded m B \<Longrightarrow> bounded (serializer_get_pos \<bind> (\<lambda>_. m)) B"
  unfolding bounded_def by (elim exE conjE, intro exI conjI, rule emits_get_pos_skip)

text \<open>Sample entries: a constant and the configuration data of the codec.\<close>

lemma bounded_visual: "bounded (mp4_write_visual_sample_entry mux enc) 80"
  unfolding mp4_write_visual_sample_entry_def
  by (rule bounded_mono, (rule bounded_if bounded_then bounded_prims)+) (simp add: length_compressor_name)

lemma bounded_config:
  "bounded (mp4_write_avcC env enc) (16 + extra_size env enc)" "bounded (mp4_write_hvcC env enc) (16 + extra_size env enc)"
  "bounded (mp4_write_av1C env enc) (16 + extra_size env enc)"
proof -
  have "bounded (do { write_box sz n; s_write d; State_Monad.return r }) (16 + (length d + 0))" for sz n r d
    by (rule bounded_then bounded_write_box bounded_prims)+
  then have B: "bounded (do { write_box sz n; s_write d; State_Monad.return r }) (16 + e)" if "length d \<le> e" for sz n r d e
    by (rule bounded_mono) (use that in simp)
  show "bounded (mp4_write_avcC env enc) (16 + extra_size env enc)" "bounded (mp4_write_hvcC env enc) (16 + extra_size env enc)"
    "bounded (mp4_write_av1C env enc) (16 + extra_size env enc)"
    unfolding mp4_write_avcC_def mp4_write_hvcC_def mp4_write_av1C_def Let_def extra_size_def
    by (auto split: option.split intro!: B bounded_mono [OF bounded_prims(8)])
qed

lemma bounded_colour:
  "bounded (mp4_write_colr enc) 30" "bounded mp4_write_pasp 30" "bounded (mp4_write_clli env enc) 30"
  "bounded (mp4_write_mdcv env enc) 50"
proof -
  obtain a b c d where g: "get_colour_information enc = (a, b, c, d)" by (cases "get_colour_information enc")
  show "bounded (mp4_write_colr enc) 30"
    unfolding mp4_write_colr_def g Let_def prod.case
    by (rule bounded_mono, (rule bounded_then bounded_write_box bounded_prims)+) simp
  show "bounded mp4_write_pasp 30"
    unfolding mp4_write_pasp_def by (rule bounded_mono, (rule bounded_then bounded_write_box bounded_prims)+) simp
  show "bounded (mp4_write_clli env enc) 30"
    unfolding mp4_write_clli_def
    by (rule bounded_mono, (rule bounded_if bounded_then bounded_write_box bounded_prims)+) simp
  show "bounded (mp4_write_mdcv env enc) 50"
    unfolding mp4_write_mdcv_def
    by (rule bounded_mono, (rule bounded_if bounded_then bounded_write_box bounded_prims)+) simp
qed

lemma bounded_video_entries:
  "bounded (mp4_write_avc1 env mux enc) (300 + extra_size env enc)" "bounded (mp4_write_hvc1 env mux enc) (300 + extra_size env enc)"
  "bounded (mp4_write_av01 env mux enc) (300 + extra_size env enc)" "bounded (mp4_write_prores env mux enc) (300 + extra_size env enc)"
  unfolding mp4_write_avc1_def mp4_write_hvc1_def mp4_write_av01_def mp4_write_prores_def
  by (rule bounded_mono, (rule bounded_visual bounded_config bounded_colour bound_rules)+, simp)+

lemma bounded_audio_entry: "bounded (mp4_write_audio_sample_entry mux track version) 80"
  unfolding mp4_write_audio_sample_entry_def Let_def
  by (rule bounded_mono, (rule bounded_if bounded_then bounded_prims)+) simp

lemma bounded_put_descr: "bounded (put_descr tag sz) 5"
  unfolding put_descr_def for_each.simps by (rule bounded_mono, (rule bounded_then bounded_prims)+) simp

lemma bounded_esds: "bounded (mp4_write_esds track) (80 + extra_size env (t_encoder track))"
  unfolding mp4_write_esds_def Let_def
  by (rule bounded_mono, (rule bound_rules bounded_put_descr bounded_if bounded_then)+)
    (simp add: extra_size_def split: option.split)

lemma bounded_chnl: "bounded (mp4_write_chnl track) 40"
proof -
  obtain a b where g: "get_speaker_positions (au_speakers (audio_info (obs_encoder_audio (t_encoder track)))) = (a, b)"
    by fastforce
  then have "length a \<le> 8" by (auto simp: get_speaker_positions_def split: speaker_layout.splits)
  then show ?thesis
    unfolding mp4_write_chnl_def g Let_def prod.case
    by (intro bounded_mono [OF bounded_fullbox, OF bounded_tail_then, OF bounded_prims(3) bounded_tail_then,
          OF bounded_if bounded_tail_end, OF bounded_then bounded_then,
          OF bounded_prims(3) bounded_then, OF bounded_prims(1) bounded_prims(8) bounded_prims(3) bounded_prims(7)]) simp
qed

lemma bounded_opt_chnl: "bounded (if version = 1 then mp4_write_chnl track else State_Monad.return 0) 40"
  using bounded_if [OF bounded_chnl bounded_prims(8)] by simp

lemma bounded_pcmc: "bounded (mp4_write_pcmc track) 20"
  unfolding mp4_write_pcmc_def by (rule bounded_mono, (rule bound_rules bounded_if)+) simp

lemma bounded_dfLa: "bounded (mp4_write_dfLa track) (20 + extra_size env (t_encoder track))"
proof (cases "obs_encoder_get_extra_data (t_encoder track)")
  case None
  have "bounded (serializer_get_pos \<bind> (\<lambda>_. State_Monad.return (0 :: nat))) 0" by (rule bounded_skip bounded_prims)+
  then show ?thesis unfolding mp4_write_dfLa_def None option.case by (rule bounded_mono) simp
next
  case (Some d)
  show ?thesis
    unfolding mp4_write_dfLa_def Some option.case
    by (rule bounded_mono, (rule bound_rules)+) (simp add: extra_size_def Some)
qed

lemma bounded_dOps: "bounded (mp4_write_dOps track) 300"
proof (cases "obs_encoder_get_extra_data (t_encoder track)")
  case None
  have "bounded (serializer_get_pos \<bind> (\<lambda>_. State_Monad.return (0 :: nat))) 0" by (rule bounded_skip bounded_prims)+
  then show ?thesis unfolding mp4_write_dOps_def None option.case by (rule bounded_mono) simp
next
  case (Some d)
  have ch: "unat (byte_at d 9) < 256" using unsigned_less [where ?'a = nat and w = "byte_at d 9"] by simp
  show ?thesis
    unfolding mp4_write_dOps_def Some option.case Let_def
    by (rule bounded_mono, (rule bound_rules bounded_if bounded_then)+) (use ch in simp)
qed

lemma bounded_alac: "bounded (mp4_write_alac mux track version) (140 + extra_size env (t_encoder track))"
proof (cases "obs_encoder_get_extra_data (t_encoder track)")
  case None
  have "bounded (serializer_get_pos \<bind> (\<lambda>_. State_Monad.return (0 :: nat))) 0" by (rule bounded_skip bounded_prims)+
  then show ?thesis unfolding mp4_write_alac_def None option.case by (rule bounded_mono) simp
next
  case (Some d)
  show ?thesis
    unfolding mp4_write_alac_def Some option.case
    by (rule bounded_mono, (rule bounded_audio_entry bounded_opt_chnl bound_rules)+) (simp add: extra_size_def Some)
qed

lemma bounded_audio_entries:
  "bounded (mp4_write_mp4a mux track version) (500 + extra_size env (t_encoder track))"
  "bounded (mp4_write_fLaC mux track version) (500 + extra_size env (t_encoder track))"
  "bounded (mp4_write_Opus mux track version) (500 + extra_size env (t_encoder track))"
  "bounded (mp4_write_xpcm mux track version) (500 + extra_size env (t_encoder track))"
  unfolding mp4_write_mp4a_def mp4_write_fLaC_def mp4_write_Opus_def mp4_write_xpcm_def
  by (rule bounded_mono, (rule bounded_audio_entry bounded_esds [of _ env] bounded_dfLa [of _ env] bounded_dOps bounded_pcmc
      bounded_opt_chnl bounded_chnl bound_rules)+, simp)+

lemma bounded_text: "bounded mp4_write_text 70"
  unfolding mp4_write_text_def by (rule bounded_mono, (rule bound_rules)+) (simp add: TEXT_STUB_HEADER_def)

lemma bounded_wave: "length tag = 4 \<Longrightarrow> bounded (mp4_write_wave track tag) (120 + extra_size env (t_encoder track))"
proof -
  assume tag: "length tag = 4"
  have alac: "bounded (case obs_encoder_get_extra_data (t_encoder track) of
      None \<Rightarrow> State_Monad.return 0 | Some extradata \<Rightarrow> s_write extradata) (80 + extra_size env (t_encoder track))"
    by (rule bounded_option; rule bounded_mono, rule bounded_prims) (simp_all add: extra_size_def)
  show ?thesis
    unfolding mp4_write_wave_def
    by (rule bounded_mono, (rule bounded_esds [of _ env] alac bound_rules bounded_if)+) (use tag in simp)
qed

lemma bounded_chan: "bounded (mp4_write_chan track) 30"
proof -
  have skip: "bounded (serializer_get_pos \<bind> (\<lambda>_. State_Monad.return (0 :: nat))) 0" by (rule bounded_skip bounded_prims)+
  show ?thesis
  proof (cases "get_mov_channel_layout (t_codec track) (au_speakers (audio_info (obs_encoder_audio (t_encoder track)))) =
      kAudioChannelLayoutTag_UseChannelBitmap \<and>
      (if get_mov_channel_layout (t_codec track) (au_speakers (audio_info (obs_encoder_audio (t_encoder track)))) =
        kAudioChannelLayoutTag_UseChannelBitmap
       then get_mov_channel_bitmap (au_speakers (audio_info (obs_encoder_audio (t_encoder track)))) else 0) = 0")
    case True
    show ?thesis unfolding mp4_write_chan_def Let_def if_P [OF True] by (rule bounded_mono [OF skip]) simp
  next
    case False
    show ?thesis unfolding mp4_write_chan_def Let_def if_not_P [OF False] by (rule bounded_mono, (rule bound_rules)+) simp
  qed
qed

lemma bounded_mov_audio: "bounded (mp4_write_mov_audio_tag mux track) (500 + extra_size env (t_encoder track))"
proof (cases "mov_audio_tag track")
  case None
  have "bounded (serializer_get_pos \<bind> (\<lambda>_. State_Monad.return (0 :: nat))) 0" by (rule bounded_skip bounded_prims)+
  then show ?thesis unfolding mp4_write_mov_audio_tag_def None option.case Let_def by (rule bounded_mono) simp
next
  case (Some tag)
  then have tag: "length tag = 4" by (auto simp: mov_audio_tag_def split: if_splits)
  show ?thesis
    unfolding mp4_write_mov_audio_tag_def Some option.case Let_def
    by (rule bounded_mono, (rule bounded_audio_entry bounded_wave [OF tag, of _ env] bounded_chan bound_rules bounded_if)+) simp
qed

lemma bounded_stsd: "bounded (mp4_write_stsd env mux track) (600 + extra_size env (t_encoder track))"
  unfolding mp4_write_stsd_def Let_def
  by (rule bounded_mono, (rule bounded_video_entries bounded_audio_entries [of _ _ _ env] bounded_alac [of _ _ _ env]
      bounded_mov_audio [of _ _ env] bounded_text bound_rules bounded_if)+) simp

text \<open>The sample tables: their entries, at most twelve bytes each.\<close>

lemma length_chunk_runs: "length (chunk_runs idx runs chks) \<le> length runs + length chks"
proof (induction chks arbitrary: idx runs)
  case (Cons c chks)
  have "length (chunk_runs (idx + 1) (runs @ [r]) chks) \<le> length runs + 1 + length chks" for r
    using Cons.IH [of "idx + 1" "runs @ [r]"] by simp
  moreover have "length (chunk_runs (idx + 1) runs chks) \<le> length runs + 1 + length chks"
    using Cons.IH [of "idx + 1" runs] by simp
  ultimately show ?case by simp
qed simp

lemma bounded_fragmented_tables:
  "bounded (mp4_write_stts track True) 28" "bounded (mp4_write_stsc track True) 28" "bounded (mp4_write_stsz track True) 28"
  "bounded (mp4_write_stco track True) 28"
  unfolding mp4_write_stts_def mp4_write_stsc_def mp4_write_stsz_def mp4_write_stco_def if_True
  by (rule bounded_mono, (rule bounded_then bounded_write_fullbox bounded_prims)+, simp)+

lemma bounded_tables:
  "bounded (mp4_write_stts track b) (28 + 8 * length (t_deltas track))"
  "bounded (mp4_write_stsc track b) (28 + 12 * length (t_chunks track))"
  "bounded (mp4_write_stsz track b) (28 + 4 * length (t_sample_sizes track))"
  "bounded (mp4_write_stco track b) (28 + 8 * length (t_chunks track))"
proof -
  let ?runs = "chunk_runs 0 [] (t_chunks track)"
  have runs: "length ?runs \<le> length (t_chunks track)" using length_chunk_runs [of 0 "[]" "t_chunks track"] by simp
  have num: "unat (word_of_nat n :: u32) \<le> n" for n by (simp add: unat_of_nat)
  have 1: "length (fullbox ''stts'' 0 (stts_body track)) \<le> 28 + 8 * length (t_deltas track)"
    by (simp add: fullbox_def length_mkbox stts_body_def length_concat_const)
  have 2: "length (fullbox ''stsc'' 0 (stsc_body track)) \<le> 28 + 12 * length (t_chunks track)"
    using order_trans [OF num [of "length ?runs"] runs]
    by (simp add: fullbox_def length_mkbox stsc_body_def Let_def length_concat_const)
  have 3: "length (fullbox ''stsz'' 0 (stsz_body track)) \<le> 28 + 4 * length (t_sample_sizes track)"
    by (simp add: fullbox_def length_mkbox stsz_body_def length_concat_const)
  have "length (stco_name track) = 4" by (simp add: stco_name_def)
  then have 4: "length (fullbox (stco_name track) 0 (stco_body track)) \<le> 28 + 8 * length (t_chunks track)"
    using num [of "length (t_chunks track)"]
    by (cases "stco_wide track") (simp_all add: fullbox_def length_mkbox stco_body_def Let_def length_concat_const)
  show "bounded (mp4_write_stts track b) (28 + 8 * length (t_deltas track))"
    "bounded (mp4_write_stsc track b) (28 + 12 * length (t_chunks track))"
    "bounded (mp4_write_stsz track b) (28 + 4 * length (t_sample_sizes track))"
    "bounded (mp4_write_stco track b) (28 + 8 * length (t_chunks track))"
    using bounded_emits [OF emits_stts 1] bounded_emits [OF emits_stsc 2] bounded_emits [OF emits_stsz 3]
      bounded_emits [OF emits_stco 4] bounded_fragmented_tables [of track]
    by (cases b; auto intro: bounded_mono)+
qed

lemma bounded_stss: "bounded (mp4_write_stss track) (28 + 4 * length (t_sync_samples track))"
proof (cases "(word_of_nat (length (t_sync_samples track)) :: u32) = 0")
  case True
  show ?thesis unfolding mp4_write_stss_def Let_def if_P [OF True] by (rule bounded_mono [OF bounded_prims(8)]) simp
next
  case False
  have "unat (word_of_nat (length (t_sync_samples track)) :: u32) \<le> length (t_sync_samples track)" by (simp add: unat_of_nat)
  then have "length (fullbox ''stss'' 0 (stss_body track)) \<le> 28 + 4 * length (t_sync_samples track)"
    by (simp add: fullbox_def length_mkbox stss_body_def Let_def length_concat_const)
  then show ?thesis by (rule bounded_emits [OF emits_stss [OF False]])
qed

lemma bounded_ctts: "bounded (mp4_write_ctts mux track) (28 + 8 * length (t_offsets track))"
proof (rule bounded_emits [OF emits_ctts])
  have "unat (word_of_nat (length (t_offsets track)) :: u32) \<le> length (t_offsets track)" by (simp add: unat_of_nat)
  then show "length (fullbox ''ctts'' (if MP4_USE_NEGATIVE_CTS (m_flags mux) then 1 else 0) (ctts_body track)) \<le>
      28 + 8 * length (t_offsets track)"
    by (simp add: fullbox_def length_mkbox ctts_body_def Let_def length_concat_const)
qed

lemma bounded_rolls:
  "bounded mp4_write_sgpd_aac 30" "bounded (mp4_write_sbgp_aac track) 30" "bounded (mp4_write_sbgp_sbgp_opus track) 70"
  unfolding mp4_write_sgpd_aac_def mp4_write_sbgp_aac_def mp4_write_sbgp_sbgp_opus_def
  by (rule bounded_mono, (rule bound_rules bounded_then)+, simp)+

lemma bounded_stbl: "bounded (mp4_write_stbl env mux track b) (900 + table_size track + extra_size env (t_encoder track))"
  unfolding mp4_write_stbl_def
  by (rule bounded_mono, (rule bounded_stsd bounded_tables bounded_stss bounded_ctts bounded_rolls bound_rules bounded_if
      bounded_then)+) (simp add: table_size_def max_def)

lemma bounded_minf: "bounded (mp4_write_minf env mux track b) (1200 + table_size track + extra_size env (t_encoder track))"
  unfolding mp4_write_minf_def
  by (rule bounded_mono, (rule bounded_media_headers bounded_gmhd bounded_hdlr bounded_dinf bounded_stbl bound_rules
      bounded_if)+) simp

lemma bounded_mdia: "bounded (mp4_write_mdia env mux track b) (1400 + table_size track + extra_size env (t_encoder track))"
  unfolding mp4_write_mdia_def
  by (rule bounded_mono, (rule bounded_mdhd bounded_hdlr bounded_minf bound_rules)+) simp

lemma bounded_udta_atom: "bounded (mp4_write_udta_atom tag val) (8 + length val)"
  unfolding mp4_write_udta_atom_def by (rule bounded_mono, (rule bound_rules)+) simp

lemma bounded_track_udta: "bounded (mp4_write_track_udta mux track) (40 + label_size (t_encoder track))"
proof (cases "t_encoder track")
  case None
  have g: "obs_encoder_get_name None = None" "obs_encoder_get_id None = None" "obs_encoder_get_settings None = None"
    by (simp_all add: obs_encoder_get_name_def obs_encoder_get_id_def obs_encoder_get_settings_def)
  show ?thesis
    unfolding mp4_write_track_udta_def None g option.case Let_def
    by (rule bounded_mono, (rule bound_rules bounded_if bounded_then)+) simp
next
  case (Some e)
  have g: "obs_encoder_get_name (Some e) = Some (e_name e)" "obs_encoder_get_id (Some e) = Some (e_id e)"
    "obs_encoder_get_settings (Some e) = Some (e_settings e)"
    by (simp_all add: obs_encoder_get_name_def obs_encoder_get_id_def obs_encoder_get_settings_def)
  show ?thesis
    unfolding mp4_write_track_udta_def Some g option.case Let_def
    by (rule bounded_mono, (rule bounded_udta_atom bound_rules bounded_if bounded_then)+) (simp add: label_size_def)
qed

lemma bounded_edts: "bounded (mp4_write_edts mux track) 40"
proof -
  have "bounded (mp4_write_elst mux track) 28"
    unfolding mp4_write_elst_def by (rule bounded_mono, (rule bound_rules)+) simp
  note e = this
  show ?thesis unfolding mp4_write_edts_def by (rule bounded_mono, (rule e bound_rules)+) simp
qed

lemma bounded_tref: "bounded (mp4_write_tref c) 20"
proof -
  have "bounded (mp4_write_chap c) 12" unfolding mp4_write_chap_def by (rule bounded_mono, (rule bound_rules)+) simp
  note e = this
  show ?thesis unfolding mp4_write_tref_def by (rule bounded_mono, (rule e bound_rules)+) simp
qed

lemma bounded_trak: "bounded (mp4_write_trak env mux track b) (track_size env track)"
proof (cases "\<not> b \<and> t_chunks track = []")
  case True
  have "bounded (serializer_get_pos \<bind> (\<lambda>_. State_Monad.return (0 :: nat))) 0" by (rule bounded_skip bounded_prims)+
  then show ?thesis unfolding mp4_write_trak_def if_P [OF True] by (rule bounded_mono) simp
next
  case False
  have tref: "bounded (case m_chapter_track mux of
      Some chapters \<Rightarrow> if t_type track \<noteq> TRACK_CHAPTERS then mp4_write_tref chapters else State_Monad.return 0
    | None \<Rightarrow> State_Monad.return 0) 20"
    by (rule bounded_option, rule bounded_cases)
      (rule bounded_tref bounded_mono [OF bounded_prims(8)], simp)+
  show ?thesis
    unfolding mp4_write_trak_def if_not_P [OF False]
    by (rule bounded_mono, (rule bounded_tkhd bounded_edts tref bounded_mdia bounded_track_udta bound_rules)+)
      (simp add: track_size_def)
qed

lemma bounded_mvex: "bounded (mp4_write_mvex mux) (8 + 40 * length (m_tracks mux))"
proof -
  have t: "bounded (mp4_write_trex i) 40"
    for i unfolding mp4_write_trex_def by (rule bounded_mono, (rule bounded_then bounded_write_fullbox bounded_prims)+) simp
  have "bounded (for_each (\<lambda>i. do { mp4_write_trex (word_of_nat (i + 1)); State_Monad.return () }) [0..<length (m_tracks mux)])
      (sum_list (map (\<lambda>_. 40 + 0) [0..<length (m_tracks mux)]))"
    by (rule bounded_for_each, rule bounded_then, rule t, rule bounded_prims)
  note f = this
  show ?thesis
    unfolding mp4_write_mvex_def by (rule bounded_mono, (rule f bound_rules)+) (simp add: sum_list_triv)
qed

lemma bounded_data_atom: "bounded (mp4_write_data_atom val) (24 + length val)"
  unfolding mp4_write_data_atom_def Let_def
  by (rule bounded_mono, (rule bounded_then bounded_write_box bounded_prims)+) simp

lemma bounded_key_entry: "bounded (write_key_entry val idx) (40 + length val)"
proof -
  let ?tail = "\<lambda>st. mp4_write_data_atom val \<bind> (\<lambda>_. write_box_size st \<bind> (\<lambda>_. State_Monad.return ()))"
  have c: "bounded_tail ?tail (24 + length val + 0)"
    by (rule bounded_tail_then [OF bounded_data_atom], rule bounded_tail_map, rule bounded_tail_end)
  have len: "4 \<le> length (be32 0 @ be32 idx)" by simp
  from c [unfolded bounded_tail_def, rule_format, OF len]
  obtain bs r where bs: "length bs \<le> length (be32 0 @ be32 idx) + (24 + length val + 0)"
    "\<And>p. finishes p (be32 0 @ be32 idx) (?tail (int p)) bs r"
    by blast
  have "finishes p [] (s_wb32 0 \<bind> (\<lambda>_. s_wb32 idx \<bind> (\<lambda>_. ?tail (int p)))) bs r" for p
    by (rule finishes_bind [OF emits_s_wb32], rule finishes_bind [OF emits_s_wb32]) (use bs(2) in simp)
  then show ?thesis
    unfolding write_key_entry_def by (rule bounded_emits [OF emits_from_pos]) (use bs(1) in simp)
qed

lemma bounded_ilst: "bounded (mp4_write_ilst env) (60 + length (encoder_tool env))"
proof -
  have item: "bounded (mp4_write_ilst_item_atom name val) (40 + length val)" for name val
    unfolding mp4_write_ilst_item_atom_def by (rule bounded_mono, (rule bounded_data_atom bound_rules)+) simp
  show ?thesis unfolding mp4_write_ilst_def by (rule bounded_mono, (rule item bound_rules)+) simp
qed

lemma bounded_mdta_kv: "bounded (mp4_write_mdta_kv env) (150 + length (encoder_tool env))"
proof -
  have keys: "bounded (mp4_write_mdta_keys [(''tool'', encoder_tool env)]) 40"
    by (rule bounded_emits [OF emits_keys]) (simp_all add: UINT32_MAX_def length_mkbox)
  have z: "zip [(name, val)] [0..<length [(name, val)]] = [((name, val), 0)]" for name val :: string by simp
  have il: "bounded (mp4_write_mdta_ilst [(''tool'', encoder_tool env)]) (60 + length (encoder_tool env))"
    unfolding mp4_write_mdta_ilst_def z for_each.simps prod.case
    by (rule bounded_mono, (rule bounded_key_entry bound_rules bounded_then)+) simp
  show ?thesis unfolding mp4_write_mdta_kv_def Let_def by (rule bounded_mono, (rule keys il bounded_then)+) simp
qed

lemma bounded_udta: "bounded (mp4_write_udta env mux) (300 + 2 * length (encoder_tool env))"
proof -
  have hdlrs: "bounded mp4_write_itunes_hdlr 50" "bounded mp4_write_mdta_hdlr 50"
    unfolding mp4_write_itunes_hdlr_def mp4_write_mdta_hdlr_def
    by (rule bounded_mono, (rule bounded_then bounded_write_fullbox bounded_prims)+, simp)+
  have meta: "bounded (mp4_write_meta env mux) (250 + length (encoder_tool env))"
    unfolding mp4_write_meta_def
    by (rule bounded_mono, (rule hdlrs bounded_mdta_kv bounded_ilst bound_rules bounded_if bounded_then)+) simp
  have sd: "bounded (mp4_write_string_data_atom name val) (20 + length val)" for name val
    unfolding mp4_write_string_data_atom_def Let_def by (rule bounded_mono, (rule bound_rules)+) simp
  show ?thesis
    unfolding mp4_write_udta_def by (rule bounded_mono, (rule meta sd bound_rules bounded_if)+) simp
qed

lemma bounded_moov: "bounded (mp4_write_moov env mux b) (moov_size env mux)"
proof -
  have tr: "bounded (for_each (\<lambda>track. do { mp4_write_trak env mux track b; State_Monad.return () }) (m_tracks mux))
      (sum_list (map (\<lambda>t. track_size env t + 0) (m_tracks mux)))"
    by (rule bounded_for_each, rule bounded_then, rule bounded_trak, rule bounded_prims)
  have ch: "bounded (case m_chapter_track mux of
      Some chapters \<Rightarrow> if \<not> b then mp4_write_trak env mux chapters False else State_Monad.return 0
    | None \<Rightarrow> State_Monad.return 0) (case m_chapter_track mux of Some c \<Rightarrow> track_size env c | None \<Rightarrow> 0)"
    by (rule bounded_option, rule bounded_cases) (auto intro: bounded_trak bounded_mono [OF bounded_prims(8)])
  show ?thesis
    unfolding mp4_write_moov_def
    by (rule bounded_mono, (rule bounded_mvhd tr ch bounded_mvex bounded_udta bound_rules bounded_if)+)
      (simp add: moov_size_def sum_list_addf)
qed

end

end
