(* ===== verification/Mp4_File.thy ===== *)
theory Mp4_File
  imports Mp4_Samples Mp4_Size
begin

text \<open>
  What reaches the file.  A flush appends the file header, the fragment header and the media
  data; the chunks it records point at exactly the data of the packets it took from the
  queues.
\<close>

section \<open>Writing the samples of a track\<close>

definition chunk_bytes :: "byte list \<Rightarrow> chunk \<Rightarrow> byte list" where
  "chunk_bytes content c = take (unat (ch_size c)) (drop (unat (ch_offset c)) content)"

definition media_bytes :: "byte list \<Rightarrow> mp4_track \<Rightarrow> byte list" where
  "media_bytes content track = concat (map (chunk_bytes content) (t_chunks track))"

definition pending :: "mp4_track \<Rightarrow> encoder_packet list" where
  "pending track = deque_elems (t_packets track)"

definition payload :: "encoder_packet list \<Rightarrow> byte list" where
  "payload pkts = concat (map p_data pkts)"

lemma payload_append [simp]: "payload (xs @ ys) = payload xs @ payload ys"
  by (simp add: payload_def)

lemma payload_Nil [simp]: "payload [] = []"
  by (simp add: payload_def)

definition fragment_payload :: "mp4_track \<Rightarrow> byte list" where
  "fragment_payload track = payload (take (length (t_fragment_samples track)) (pending track))"

definition written_track :: "nat \<Rightarrow> mp4_track \<Rightarrow> mp4_track" where
  "written_track off track =
    (if pending track = [] \<or> t_fragment_samples track = [] then track
     else
       (let n = length (t_fragment_samples track); sz = word_of_nat (length (fragment_payload track))
        in track\<lparr>t_packets := snd (drain deque_pop_front n (t_packets track)),
             t_chunks := t_chunks track @ [\<lparr>ch_offset = word_of_nat off, ch_size = sz,
               ch_samples = if t_sample_size track \<noteq> 0 then sz div t_sample_size track else word_of_nat n\<rparr>],
             t_fragment_samples := []\<rparr>))"

fun written_tracks :: "nat \<Rightarrow> mp4_track list \<Rightarrow> mp4_track list" where
  "written_tracks off [] = []"
| "written_tracks off (t # ts) = written_track off t # written_tracks (off + length (fragment_payload t)) ts"

definition fragment_payloads :: "mp4_track list \<Rightarrow> byte list" where
  "fragment_payloads ts = concat (map fragment_payload ts)"

text \<open>A track whose analysed samples are at the front of its queue.\<close>

definition queue_ok :: "mp4_track \<Rightarrow> bool" where
  "queue_ok track \<longleftrightarrow> deque_wf (t_packets track) \<and> length (t_fragment_samples track) \<le> length (pending track)"

context output_serializer
begin

lemma emits_write_samples:
  assumes "deque_wf dq" and "n \<le> length (deque_elems dq)"
  shows "emits (write_samples n dq) (payload (take n (deque_elems dq))) (snd (drain deque_pop_front n dq))"
  using assms
proof (induction n arbitrary: dq)
  case 0
  then show ?case by (simp add: emits_return)
next
  case (Suc n)
  have one: "1 \<le> length (deque_elems dq)" using Suc.prems(2) by simp
  obtain x xs where el: "deque_elems dq = x # xs" using Suc.prems(2) by (cases "deque_elems dq") auto
  obtain out dq1 where pop: "deque_pop_front dq 1 = (out, dq1)" by fastforce
  have P: "out = [Some x]" "deque_wf dq1" "deque_elems dq1 = xs"
    using dqf.pop_out [OF Suc.prems(1) one] dqf.pop_wf [OF Suc.prems(1) one] dqf.pop_elems [OF Suc.prems(1) one] pop el
    by simp_all
  have "emits (s_write (p_data x) \<bind> (\<lambda>_. write_samples n dq1)) (p_data x @ payload (take n xs))
      (snd (drain deque_pop_front n dq1))"
    using Suc.IH [OF P(2)] Suc.prems(2) P(3) el by (intro emits_then [OF emits_s_write]) simp
  then show ?case
    using pop P(1) el by (simp add: payload_def Let_def split_beta)
qed

lemma size_between:
  "(ucast (word_of_int (int (p + n)) - word_of_int (int p) :: u64) :: u32) = word_of_nat n"
proof -
  have "(word_of_int (int (p + n)) - word_of_int (int p) :: u64) = word_of_nat n" by simp
  then show ?thesis by (simp only: ucast_u64_of_nat)
qed

lemma finishes_write_packets:
  assumes "queue_ok track"
  shows "finishes p acc (write_packets track) (acc @ fragment_payload track) (written_track (p + length acc) track)"
proof (cases "pending track = [] \<or> t_fragment_samples track = []")
  case True
  then have "fragment_payload track = []" by (auto simp: fragment_payload_def)
  moreover have "dq_size (t_packets track) = 0 \<longleftrightarrow> pending track = []"
    using assms dqf.count_elems [of "t_packets track"] by (simp add: queue_ok_def pending_def)
  ultimately show ?thesis
    using True finishes_return [of p acc track] by (simp add: write_packets_def written_track_def)
next
  case False
  let ?n = "length (t_fragment_samples track)"
  have sz: "\<not> (dq_size (t_packets track) = 0 \<or> t_fragment_samples track = [])"
    using False assms dqf.count_elems [of "t_packets track"] by (simp add: queue_ok_def pending_def)
  have ws: "emits (write_samples ?n (t_packets track)) (fragment_payload track) (snd (drain deque_pop_front ?n (t_packets track)))"
    using emits_write_samples [of "t_packets track" ?n] assms by (simp add: queue_ok_def pending_def fragment_payload_def)
  have wt: "written_track (p + length acc) track = track\<lparr>t_packets := snd (drain deque_pop_front ?n (t_packets track)),
      t_chunks := t_chunks track @ [\<lparr>ch_offset = word_of_int (int (p + length acc)),
        ch_size = ucast (word_of_int (int (p + length (acc @ fragment_payload track))) - word_of_int (int (p + length acc)) :: u64),
        ch_samples = if t_sample_size track \<noteq> 0
          then ucast (word_of_int (int (p + length (acc @ fragment_payload track))) - word_of_int (int (p + length acc)) :: u64)
            div t_sample_size track else word_of_nat ?n\<rparr>],
      t_fragment_samples := []\<rparr>"
    using size_between [of "p + length acc" "length (fragment_payload track)"] False
    by (simp add: written_track_def Let_def add.assoc)
  show ?thesis
    unfolding write_packets_def if_not_P [OF sz] Let_def wt
    by (rule finishes_get_pos, rule finishes_bind [OF ws], rule finishes_get_pos, rule finishes_return)
qed

lemma finishes_bind2:
  assumes "finishes p acc m as a" and "finishes p as (f a) bs b"
  shows "finishes p acc (m \<bind> f) bs b"
  using assms unfolding finishes_def by (auto 0 4)

lemma finishes_write_tracks:
  assumes "\<forall>t \<in> set ts. queue_ok t"
  shows "finishes p acc (write_tracks ts) (acc @ fragment_payloads ts) (written_tracks (p + length acc) ts)"
  using assms
proof (induction ts arbitrary: acc)
  case Nil
  then show ?case using finishes_return by (simp add: fragment_payloads_def)
next
  case (Cons t ts)
  have rest: "finishes p (acc @ fragment_payload t) (write_tracks ts \<bind> (\<lambda>ts'. State_Monad.return (t' # ts')))
      ((acc @ fragment_payload t) @ fragment_payloads ts)
      (t' # written_tracks (p + length (acc @ fragment_payload t)) ts)" for t'
    using Cons.IH [of "acc @ fragment_payload t"] Cons.prems by (intro finishes_map) simp
  have head: "finishes p acc (write_packets t) (acc @ fragment_payload t) (written_track (p + length acc) t)"
    using Cons.prems by (intro finishes_write_packets) simp
  have "acc @ fragment_payloads (t # ts) = (acc @ fragment_payload t) @ fragment_payloads ts"
    by (simp add: fragment_payloads_def)
  moreover have "written_tracks (p + length acc) (t # ts) =
      written_track (p + length acc) t # written_tracks (p + length (acc @ fragment_payload t)) ts"
    by (simp add: add.assoc)
  ultimately show ?case
    unfolding write_tracks.simps using finishes_bind2 [OF head rest] by (simp only:)
qed

end

section \<open>What a flush appends\<close>

definition free_bytes :: "mp4_mux \<Rightarrow> byte list" where
  "free_bytes mux = mkbox (if m_flavor mux = FLAVOR_MOV then ''wide'' else ''free'') (be64 0)"

definition ftyp_bytes :: "mp4_mux \<Rightarrow> bool \<Rightarrow> byte list" where
  "ftyp_bytes mux fragmented = mkbox ''ftyp'' (ftyp_body mux fragmented)"

definition moov_data :: "mp4_env \<Rightarrow> mp4_mux \<Rightarrow> bool \<Rightarrow> byte list" where
  "moov_data env mux fragmented =
    array_bytes (snd (run_state (mp4_write_moov env mux fragmented) array_output_serializer_init))"

definition mdat_header :: "u64 \<Rightarrow> byte list" where
  "mdat_header mdat_size =
    (if unat mdat_size > UINT32_MAX then be32 1 @ bytes_of_string ''mdat'' @ be64 (mdat_size + 8)
     else be32 (ucast mdat_size) @ bytes_of_string ''mdat'')"

text \<open>The muxer of a flush that starts at file position \<open>p\<close>, before and after the analysis.\<close>

definition opened :: "mp4_mux \<Rightarrow> nat \<Rightarrow> mp4_mux" where
  "opened mux p = (if m_fragments_written mux = 0
     then mux\<lparr>m_placeholder_offset := p + length (ftyp_bytes mux True)\<rparr> else mux)"

definition file_header :: "mp4_env \<Rightarrow> mp4_mux \<Rightarrow> nat \<Rightarrow> byte list" where
  "file_header env mux p = (if m_fragments_written mux = 0
     then ftyp_bytes mux True @ free_bytes mux @ moov_data env (opened mux p) True else [])"

definition analysed :: "mp4_env \<Rightarrow> mp4_mux \<Rightarrow> nat \<Rightarrow> mp4_mux" where
  "analysed env mux p =
    fst (analyse_packets env ((opened mux p)\<lparr>m_fragments_written := m_fragments_written mux + 1\<rparr>))"

definition mdat_bytes :: "mp4_env \<Rightarrow> mp4_mux \<Rightarrow> nat \<Rightarrow> u64" where
  "mdat_bytes env mux p =
    snd (analyse_packets env ((opened mux p)\<lparr>m_fragments_written := m_fragments_written mux + 1\<rparr>))"

definition final_moof :: "mp4_mux \<Rightarrow> nat \<Rightarrow> byte list" where
  "final_moof mux start =
    moof_bytes mux (word_of_nat (length (moof_bytes mux 0 (word_of_nat start)))) (word_of_nat start)"

definition flush_prefix :: "mp4_env \<Rightarrow> mp4_mux \<Rightarrow> nat \<Rightarrow> byte list" where
  "flush_prefix env mux p = file_header env mux p @
     final_moof (analysed env mux p) (p + length (file_header env mux p)) @ mdat_header (mdat_bytes env mux p)"

definition chapter_list :: "mp4_mux \<Rightarrow> mp4_track list" where
  "chapter_list mux = (case m_chapter_track mux of
      Some chapters \<Rightarrow> if m_next_frag_pts mux = 0 then [chapters] else [] | None \<Rightarrow> [])"

definition flush_bytes :: "mp4_env \<Rightarrow> mp4_mux \<Rightarrow> nat \<Rightarrow> byte list" where
  "flush_bytes env mux p = flush_prefix env mux p @
     fragment_payloads (m_tracks (analysed env mux p)) @ fragment_payloads (chapter_list (analysed env mux p))"

definition flush_result :: "mp4_env \<Rightarrow> mp4_mux \<Rightarrow> nat \<Rightarrow> mp4_mux" where
  "flush_result env mux p =
    (let mux3 = analysed env mux p;
         q = p + length (flush_prefix env mux p);
         q2 = q + length (fragment_payloads (m_tracks mux3))
     in mux3\<lparr>m_tracks := written_tracks q (m_tracks mux3),
             m_chapter_track := (case m_chapter_track mux3 of
                 Some chapters \<Rightarrow> Some (if m_next_frag_pts mux3 = 0 then written_track q2 chapters else chapters)
               | None \<Rightarrow> None),
             m_next_frag_pts := 0\<rparr>)"

definition encoders_ok :: "mp4_env \<Rightarrow> mp4_mux \<Rightarrow> bool" where
  "encoders_ok env mux \<longleftrightarrow> (\<forall>t \<in> set (m_tracks mux). encoder_ok env (t_encoder t)) \<and>
     (\<forall>t \<in> set_option (m_chapter_track mux). encoder_ok env (t_encoder t))"

definition flush_ok :: "mp4_env \<Rightarrow> mp4_mux \<Rightarrow> nat \<Rightarrow> bool" where
  "flush_ok env mux p \<longleftrightarrow> encoders_ok env mux \<and>
    (\<forall>t \<in> set (m_tracks (analysed env mux p)). queue_ok t) \<and>
    (\<forall>t \<in> set (chapter_list (analysed env mux p)). queue_ok t)"

section \<open>The temporary array\<close>

lemma arr_run:
  assumes "arr.emits m bs r" and "array_valid s" and "ao_bytes (ser_data s) = []" and "ao_cur_pos (ser_data s) = 0"
  shows "\<exists>s'. run_state m s = (r, s') \<and> array_bytes s' = bs \<and> array_valid s'"
proof -
  have "arr.ready s"
    using assms(2-4) by (simp_all add: arr.ready_def array_content_def array_cursor_def)
  with arr.emitsD [OF assms(1)] obtain s' where "run_state m s = (r, s')" "arr.stored s bs s'" by blast
  then show ?thesis
    using assms(3,4) by (auto simp: arr.stored_def arr.ready_def array_content_def array_cursor_def array_bytes_def
        write_at_def)
qed

lemma array_init_fresh:
  "array_valid array_output_serializer_init" "ao_bytes (ser_data array_output_serializer_init) = []"
  "ao_cur_pos (ser_data array_output_serializer_init) = 0"
  by (simp_all add: array_valid_def array_output_serializer_init_def)

lemma array_reset_fresh:
  "array_valid s \<Longrightarrow> array_valid (array_reset s)" "ao_bytes (ser_data (array_reset s)) = []"
  "ao_cur_pos (ser_data (array_reset s)) = 0"
  by (simp_all add: array_valid_def array_reset_def array_output_serializer_reset_def)

lemma moof_via_array_eq:
  assumes "array_valid s" and "ao_bytes (ser_data s) = []" and "ao_cur_pos (ser_data s) = 0"
  shows "moof_via_array mux (word_of_nat start) s = final_moof mux start"
proof -
  let ?st = "word_of_nat start :: u64"
  obtain s1 where 1: "run_state (mp4_write_moof mux 0 ?st) s = (length (moof_bytes mux 0 ?st), s1)" "array_valid s1"
    using arr_run [OF arr.emits_moof assms(1-3)] by blast
  obtain s2 where 2: "run_state (mp4_write_moof mux (word_of_nat (length (moof_bytes mux 0 ?st))) ?st) (array_reset s1) =
      (length (final_moof mux start), s2)" "array_bytes s2 = final_moof mux start"
    using arr_run [OF arr.emits_moof array_reset_fresh(1) [OF 1(2)] array_reset_fresh(2,3)]
    unfolding final_moof_def by blast
  show ?thesis using 1 2 by (simp add: moof_via_array_def Let_def)
qed

lemma array_run_le:
  assumes "arr.bounded m B"
  shows "length (array_bytes (snd (run_state m array_output_serializer_init))) \<le> B"
proof -
  obtain bs r where bs: "arr.emits m bs r" "length bs \<le> B" using assms by (auto simp: arr.bounded_def)
  obtain s' where "run_state m array_output_serializer_init = (r, s')" "array_bytes s' = bs"
    using arr_run [OF bs(1) array_init_fresh] by blast
  then show ?thesis using bs(2) by simp
qed

lemma moov_via_array:
  assumes "encoders_ok env mux"
  shows "\<exists>r s'. run_state (mp4_write_moov env mux fragmented) array_output_serializer_init = (r, s') \<and>
    array_valid s' \<and> has_shape (Node ''moov'' (moov_shapes mux fragmented)) (moov_data env mux fragmented) \<and>
    array_bytes s' = moov_data env mux fragmented"
proof -
  have "arr.writes_node (mp4_write_moov env mux fragmented) ''moov'' (moov_shapes mux fragmented)"
    using assms by (intro arr.node_moov) (auto simp: encoders_ok_def)
  then obtain bs where bs: "has_shape (Node ''moov'' (moov_shapes mux fragmented)) bs"
    "arr.emits (mp4_write_moov env mux fragmented) bs (length bs)"
    by (auto simp: arr.writes_node_def)
  with arr_run [OF bs(2) array_init_fresh] show ?thesis
    by (auto simp: moov_data_def)
qed

section \<open>The flush, byte for byte\<close>

lemma opened_keeps:
  "m_fragments_written (opened mux p) = m_fragments_written mux" "m_tracks (opened mux p) = m_tracks mux"
  "m_chapter_track (opened mux p) = m_chapter_track mux" "m_flags (opened mux p) = m_flags mux"
  "m_flavor (opened mux p) = m_flavor mux" "m_next_frag_pts (opened mux p) = m_next_frag_pts mux"
  by (simp_all add: opened_def)

context output_serializer
begin

lemma emits_free: "emits (mp4_write_free mux) (free_bytes mux) 16"
proof -
  let ?n = "if m_flavor mux = FLAVOR_MOV then ''wide'' else ''free''"
  have "emits (mp4_write_free mux) (be32 16 @ bytes_of_string ?n @ be64 0 @ []) 16"
    unfolding mp4_write_free_def by (rule emits_then emits_s_wb32 emits_s_str emits_s_wb64 emits_return)+
  moreover have "be32 16 @ bytes_of_string ?n @ be64 0 @ [] = free_bytes mux"
    by (simp add: free_bytes_def mkbox_def fourcc_def)
  ultimately show ?thesis by simp
qed

lemma emits_mdat_header: "emits (write_mdat_header n) (mdat_header n) ()"
proof -
  have "emits (do { s_wb32 (ucast n); s_str ''mdat''; State_Monad.return () })
      (be32 (ucast n) @ bytes_of_string ''mdat'' @ []) ()"
    by (rule emits_then emits_s_wb32 emits_s_str emits_return)+
  moreover have "emits (do { s_wb32 1; s_str ''mdat''; s_wb64 (n + 8) })
      (be32 1 @ bytes_of_string ''mdat'' @ be64 (n + 8)) ()"
    by (rule emits_then emits_s_wb32 emits_s_str emits_s_wb64)+
  ultimately show ?thesis by (simp add: write_mdat_header_def mdat_header_def)
qed

lemma finishes_opened:
  "finishes p [] (if m_fragments_written mux = 0 then do {
       mp4_write_ftyp mux True;
       placeholder \<leftarrow> serializer_get_pos;
       mp4_write_free mux;
       State_Monad.return (mux\<lparr>m_placeholder_offset := nat placeholder\<rparr>) }
     else State_Monad.return mux)
   (if m_fragments_written mux = 0 then ftyp_bytes mux True @ free_bytes mux else []) (opened mux p)"
proof (cases "m_fragments_written mux = 0")
  case True
  have o: "opened mux p = mux\<lparr>m_placeholder_offset := nat (int (p + length ([] @ ftyp_bytes mux True)))\<rparr>"
    using True by (simp add: opened_def)
  have "finishes p [] (do { mp4_write_ftyp mux True; placeholder \<leftarrow> serializer_get_pos; mp4_write_free mux;
       State_Monad.return (mux\<lparr>m_placeholder_offset := nat placeholder\<rparr>) })
     (([] @ ftyp_bytes mux True) @ free_bytes mux) (opened mux p)"
    unfolding o ftyp_bytes_def
    by (rule finishes_bind [OF emits_ftyp], rule finishes_get_pos, rule finishes_bind [OF emits_free],
        rule finishes_return)
  then show ?thesis using True by simp
qed (simp add: finishes_return opened_def)

lemma emits_movie:
  assumes "encoders_ok env mux"
  shows "\<exists>as. array_valid as \<and> ao_bytes (ser_data as) = [] \<and> ao_cur_pos (ser_data as) = 0 \<and>
    emits (if m_fragments_written mux = 0 then
         (let (_, as) = run_state (mp4_write_moov env mux True) array_output_serializer_init in do {
            s_write (array_bytes as);
            State_Monad.return (array_reset as) })
       else State_Monad.return array_output_serializer_init)
     (if m_fragments_written mux = 0 then moov_data env mux True else []) as"
proof -
  obtain r s' where s': "run_state (mp4_write_moov env mux True) array_output_serializer_init = (r, s')"
    "array_valid s'" "array_bytes s' = moov_data env mux True"
    using moov_via_array [OF assms] by blast
  have "emits (do { s_write (array_bytes s'); State_Monad.return (array_reset s') }) (moov_data env mux True @ [])
      (array_reset s')"
    unfolding s'(3) by (rule emits_then emits_s_write emits_return)+
  then show ?thesis
    using s' emits_return [of array_output_serializer_init] array_init_fresh array_reset_fresh by auto
qed

lemma finishes_chapters:
  assumes "\<forall>t \<in> set (chapter_list mux). queue_ok t"
  shows "finishes p acc (case m_chapter_track mux of
         Some chapters \<Rightarrow>
           if m_next_frag_pts mux = 0 then do {
             chapters1 \<leftarrow> write_packets chapters;
             State_Monad.return (Some chapters1) }
           else State_Monad.return (Some chapters)
       | None \<Rightarrow> State_Monad.return None)
     (acc @ fragment_payloads (chapter_list mux))
     (case m_chapter_track mux of
         Some chapters \<Rightarrow> Some (if m_next_frag_pts mux = 0 then written_track (p + length acc) chapters else chapters)
       | None \<Rightarrow> None)"
proof (cases "m_chapter_track mux")
  case (Some c)
  show ?thesis
  proof (cases "m_next_frag_pts mux = 0")
    case True
    then show ?thesis
      using Some assms finishes_map [OF finishes_write_packets [of c p acc], of Some]
      by (simp add: chapter_list_def fragment_payloads_def)
  qed (simp add: Some chapter_list_def fragment_payloads_def finishes_return)
qed (simp add: chapter_list_def fragment_payloads_def finishes_return)

lemma finishes_flush:
  assumes "flush_ok env mux p"
  shows "finishes p [] (mp4_flush_fragment env mux) (flush_bytes env mux p) (flush_result env mux p)"
proof -
  let ?mux1 = "opened mux p" and ?mux3 = "analysed env mux p"
  let ?head = "if m_fragments_written mux = 0 then ftyp_bytes mux True @ free_bytes mux else []"
  let ?movie = "if m_fragments_written ?mux1 = 0 then moov_data env ?mux1 True else []"
  let ?moof = "final_moof ?mux3 (p + length (?head @ ?movie))"
  let ?acc = "((?head @ ?movie) @ ?moof) @ mdat_header (mdat_bytes env mux p)"
  have ok: "encoders_ok env ?mux1" "\<forall>t \<in> set (m_tracks ?mux3). queue_ok t" "\<forall>t \<in> set (chapter_list ?mux3). queue_ok t"
    using assms by (simp_all add: flush_ok_def encoders_ok_def opened_keeps)
  obtain as where as: "array_valid as" "ao_bytes (ser_data as) = []" "ao_cur_pos (ser_data as) = 0"
    and movie: "emits (if m_fragments_written ?mux1 = 0 then
         (let (_, as) = run_state (mp4_write_moov env ?mux1 True) array_output_serializer_init in do {
            s_write (array_bytes as);
            State_Monad.return (array_reset as) })
       else State_Monad.return array_output_serializer_init) ?movie as"
    using emits_movie [OF ok(1)] by blast
  have hdr: "file_header env mux p = ?head @ ?movie"
    by (simp add: file_header_def opened_keeps)
  have pre: "?acc = flush_prefix env mux p" by (simp add: flush_prefix_def hdr)
  have an: "analyse_packets env (?mux1\<lparr>m_fragments_written := m_fragments_written ?mux1 + 1\<rparr>) =
      (?mux3, mdat_bytes env mux p)"
    by (simp add: analysed_def mdat_bytes_def opened_keeps)
  have moof: "moof_via_array ?mux3 (word_of_int (int (p + length (?head @ ?movie)))) as = ?moof"
    unfolding of_int_of_nat_eq by (rule moof_via_array_eq [OF as])
  have res: "flush_result env mux p = ?mux3\<lparr>
      m_tracks := written_tracks (p + length ?acc) (m_tracks ?mux3),
      m_chapter_track := (case m_chapter_track ?mux3 of
         Some chapters \<Rightarrow> Some (if m_next_frag_pts ?mux3 = 0
           then written_track (p + length (?acc @ fragment_payloads (m_tracks ?mux3))) chapters else chapters)
       | None \<Rightarrow> None), m_next_frag_pts := 0\<rparr>"
    unfolding pre flush_result_def Let_def by (simp only: length_append add.assoc)
  have bytes: "flush_bytes env mux p =
      (?acc @ fragment_payloads (m_tracks ?mux3)) @ fragment_payloads (chapter_list ?mux3)"
    unfolding pre flush_bytes_def by simp
  show ?thesis
    unfolding mp4_flush_fragment_def res bytes
    by (rule finishes_bind2 [OF finishes_opened], rule finishes_bind [OF movie],
        unfold Let_def an prod.case, rule finishes_get_pos, unfold moof, rule finishes_bind [OF emits_s_write],
        rule finishes_bind [OF emits_mdat_header], rule finishes_bind2 [OF finishes_write_tracks [OF ok(2)]],
        rule finishes_bind2 [OF finishes_chapters [OF ok(3)]], rule finishes_return)
qed

end

section \<open>How much a flush appends\<close>

lemma length_trun_le: "length (trun_bytes mux track off) \<le> 24 + 8 * length (t_fragment_samples track)"
  by (cases "t_type track = TRACK_VIDEO") (simp_all add: trun_bytes_def length_mkbox length_concat_const)

lemma length_traf_le: "length (traf_bytes mux track moof_start off) \<le> 90 + 8 * length (t_fragment_samples track)"
  using length_trun_le [of mux track off] by (simp add: traf_bytes_def length_mkbox tfhd_bytes_def tfdt_bytes_def Let_def)

lemma length_trafs_le:
  "length (trafs_bytes mux moof_start moof_size tracks off) \<le> sum_list (map (\<lambda>t. 90 + 8 * length (t_fragment_samples t)) tracks)"
proof (induction tracks arbitrary: off)
  case (Cons t ts)
  show ?case
    using Cons.IH [of off] Cons.IH [of "off + fragment_bytes t"]
      length_traf_le [of mux t moof_start "ucast (ucast (moof_size + 8) + off)"]
    by (cases "t_fragment_samples t = []") simp_all
qed simp

lemma length_final_moof_le:
  "length (final_moof mux start) \<le> 24 + sum_list (map (\<lambda>t. 90 + 8 * length (t_fragment_samples t)) (m_tracks mux))"
  using length_trafs_le [of mux _ _ "m_tracks mux" 0] by (simp add: final_moof_def moof_bytes_def length_mkbox)

lemma length_moov_data_le: "length (moov_data env mux fragmented) \<le> moov_size env mux"
  unfolding moov_data_def by (rule array_run_le [OF arr.bounded_moov])

lemma length_flush_prefix_le:
  "length (flush_prefix env mux p) \<le> 120 + moov_size env (opened mux p) +
    sum_list (map (\<lambda>t. 90 + 8 * length (t_fragment_samples t)) (m_tracks (analysed env mux p)))"
proof -
  have "length (ftyp_bytes mux True) \<le> 40"
    by (simp add: ftyp_bytes_def ftyp_body_def length_mkbox Let_def split: option.split)
  moreover have "length (free_bytes mux) = 16" by (simp add: free_bytes_def length_mkbox)
  ultimately have "length (file_header env mux p) \<le> 56 + moov_size env (opened mux p)"
    using length_moov_data_le [of env "opened mux p" True] by (simp add: file_header_def)
  moreover have "length (mdat_header (mdat_bytes env mux p)) \<le> 16" by (simp add: mdat_header_def)
  moreover note length_final_moof_le [of "analysed env mux p" "p + length (file_header env mux p)"]
  ultimately show ?thesis unfolding flush_prefix_def length_append by linarith
qed

text \<open>
  The movie box grows linearly: it takes at most a fixed number of bytes per track, the
  codec's configuration and the encoder's labels, eight bytes for each entry of the
  decoding-time and composition tables, four for each sync sample and sample size, and
  twenty for each chunk.  A recording therefore stays within the 32-bit size of the box as
  long as its tables do.
\<close>

theorem moov_linear_size:
  "length (array_bytes (snd (run_state (mp4_write_moov env mux fragmented) array_output_serializer_init))) \<le>
    500 + 2 * length (encoder_tool env) + 40 * length (m_tracks mux) +
    sum_list (map (\<lambda>t. 1700 + extra_size env (t_encoder t) + label_size (t_encoder t) +
        8 * length (t_deltas t) + 8 * length (t_offsets t) + 4 * length (t_sync_samples t) +
        4 * length (t_sample_sizes t) + 20 * length (t_chunks t))
      (m_tracks mux @ (case m_chapter_track mux of Some c \<Rightarrow> [c] | None \<Rightarrow> [])))"
proof -
  have ts: "track_size env = (\<lambda>t. 1700 + extra_size env (t_encoder t) + label_size (t_encoder t) +
        8 * length (t_deltas t) + 8 * length (t_offsets t) + 4 * length (t_sync_samples t) +
        4 * length (t_sample_sizes t) + 20 * length (t_chunks t))"
    by (rule ext) (simp add: track_size_def table_size_def)
  show ?thesis
    using array_run_le [OF arr.bounded_moov, of env mux fragmented] unfolding moov_size_def ts
    by (cases "m_chapter_track mux") simp_all
qed

end
