(* ===== verification/Mp4_History.thy ===== *)
theory Mp4_History
  imports Mp4_File "HOL-Library.Sublist"
begin

text \<open>
  From one flush to a whole recording.  A flush moves the ready packets of every track from
  its queue into the file; a recording is a sequence of submitted packets and chapters on a
  file that was opened for it.  The invariant relates the file and the muxer's tables to the
  packets submitted so far.
\<close>

section \<open>What a flush does to a track\<close>

definition processed :: "mp4_mux \<Rightarrow> mp4_track \<Rightarrow> mp4_track" where
  "processed mux track = fst (process_packets mux track 0)"

definition ready_of :: "mp4_mux \<Rightarrow> mp4_track \<Rightarrow> encoder_packet list" where
  "ready_of mux track = ready_packets mux (pending track)"

lemma fst_process_all: "fst (process_all mux ps (t, md)) = fold (\<lambda>(p, n). process_sample mux p n) ps t"
  unfolding process_all_def by (induction ps arbitrary: t md) (auto simp: process_packet_def)

lemma process_sample_cong: "m_flags mux = m_flags mux' \<Longrightarrow> process_sample mux = process_sample mux'"
  by (intro ext) (simp add: process_sample_def)

lemma ready_packets_cong:
  "m_next_frag_pts mux = m_next_frag_pts mux' \<Longrightarrow> ready_packets mux = ready_packets mux'"
  by (intro ext) (simp add: ready_packets_def cut_packet_def)

lemma processed_fold:
  assumes "deque_wf (t_packets track)"
  shows "fst (process_packets mux track md) =
    fold (\<lambda>(p, n). process_sample mux p n) (zip (ready_of mux track) (tl (pending track))) track"
  unfolding process_packets_fold [OF assms] fst_process_all ready_of_def pending_def by simp

lemma processed_eq:
  assumes "deque_wf (t_packets track)" and "m_flags mux = m_flags mux'" and "m_next_frag_pts mux = m_next_frag_pts mux'"
  shows "fst (process_packets mux track md) = processed mux' track"
  unfolding processed_def processed_fold [OF assms(1)] ready_of_def
    process_sample_cong [OF assms(2)] ready_packets_cong [OF assms(3)] by simp

lemma ready_of_prefix: "\<exists>rest. pending track = ready_of mux track @ rest \<and> (pending track \<noteq> [] \<longrightarrow> rest \<noteq> [])"
proof (cases "pending track = []")
  case True
  then show ?thesis by (simp add: ready_of_def ready_packets_def)
next
  case False
  let ?P = "\<lambda>p. \<not> cut_packet mux p"
  have "pending track = takeWhile ?P (butlast (pending track)) @ dropWhile ?P (butlast (pending track)) @ [last (pending track)]"
    using False by (simp flip: append_assoc)
  then show ?thesis unfolding ready_of_def ready_packets_def by blast
qed

lemma length_ready_of: "length (ready_of mux track) \<le> length (pending track) - 1"
  using ready_of_prefix [of track mux] by (auto simp: Suc_le_eq simp flip: length_greater_0_conv)

lemma ready_of_take: "take (length (ready_of mux track)) (pending track) = ready_of mux track"
  using ready_of_prefix [of track mux] by (metis append_eq_conv_conj)

lemma zip_ready:
  "length (zip (ready_of mux track) (tl (pending track))) = length (ready_of mux track)"
  "map fst (zip (ready_of mux track) (tl (pending track))) = ready_of mux track"
  using length_ready_of [of mux track] by (simp_all add: map_fst_zip_take)

lemma processed_keeps:
  assumes "deque_wf (t_packets track)"
  shows "t_packets (processed mux track) = t_packets track" "t_type (processed mux track) = t_type track"
    "t_codec (processed mux track) = t_codec track" "t_encoder (processed mux track) = t_encoder track"
    "t_sample_size (processed mux track) = t_sample_size track" "t_chunks (processed mux track) = t_chunks track"
    "t_track_id (processed mux track) = t_track_id track"
    "t_last_pts_usec (processed mux track) = t_last_pts_usec track" "pending (processed mux track) = pending track"
  unfolding processed_def process_packets_fold [OF assms] process_all_keeps pending_def by simp_all

lemma length_processed:
  assumes "deque_wf (t_packets track)" and "t_fragment_samples track = []"
  shows "length (t_fragment_samples (processed mux track)) = length (ready_of mux track)"
proof -
  have "length (map fs_size (t_fragment_samples (processed mux track))) = length (ready_of mux track)"
    unfolding processed_def process_packets_fold [OF assms(1)] process_all_fragment
    using zip_ready(1) [of mux track] assms(2) by (simp add: ready_of_def pending_def)
  then show ?thesis by simp
qed

lemma processed_queue:
  assumes "deque_wf (t_packets track)" and "t_fragment_samples track = []"
  shows "queue_ok (processed mux track)" "fragment_payload (processed mux track) = payload (ready_of mux track)"
  using length_ready_of [of mux track] ready_of_take [of mux track]
  by (simp_all add: queue_ok_def fragment_payload_def processed_keeps [OF assms(1)] length_processed [OF assms] assms(1))

definition flushed :: "mp4_mux \<Rightarrow> nat \<Rightarrow> mp4_track \<Rightarrow> mp4_track" where
  "flushed mux off track = written_track off (processed mux track)"

lemma flushed_fields:
  assumes "deque_wf (t_packets track)" and "t_fragment_samples track = []"
  shows "t_type (flushed mux off track) = t_type track" "t_codec (flushed mux off track) = t_codec track"
    "t_encoder (flushed mux off track) = t_encoder track" "t_sample_size (flushed mux off track) = t_sample_size track"
    "t_track_id (flushed mux off track) = t_track_id track"
    "t_sample_sizes (flushed mux off track) = t_sample_sizes (processed mux track)"
    "t_fragment_samples (flushed mux off track) = []" "deque_wf (t_packets (flushed mux off track))"
    "pending (flushed mux off track) = drop (length (ready_of mux track)) (pending track)"
    "t_chunks (flushed mux off track) = t_chunks track @ (if ready_of mux track = [] then [] else
       [\<lparr>ch_offset = word_of_nat off, ch_size = word_of_nat (length (payload (ready_of mux track))),
         ch_samples = if t_sample_size track \<noteq> 0
           then word_of_nat (length (payload (ready_of mux track))) div t_sample_size track
           else word_of_nat (length (ready_of mux track))\<rparr>])"
proof -
  note K = processed_keeps [OF assms(1), of mux] and P = processed_queue [OF assms, of mux]
  have c: "pending (processed mux track) = [] \<or> t_fragment_samples (processed mux track) = [] \<longleftrightarrow> ready_of mux track = []"
    using length_processed [OF assms, of mux] length_ready_of [of mux track] by (auto simp: K)
  have le: "length (ready_of mux track) \<le> length (deque_elems (t_packets track))"
    using length_ready_of [of mux track] by (simp add: pending_def)
  have fs: "ready_of mux track = [] \<Longrightarrow> t_fragment_samples (processed mux track) = []"
    using length_processed [OF assms, of mux] by simp
  note D = dqf.drain_take [OF assms(1) le] and L = length_processed [OF assms, of mux]
  show "t_type (flushed mux off track) = t_type track" "t_codec (flushed mux off track) = t_codec track"
    "t_encoder (flushed mux off track) = t_encoder track" "t_sample_size (flushed mux off track) = t_sample_size track"
    "t_track_id (flushed mux off track) = t_track_id track"
    "t_sample_sizes (flushed mux off track) = t_sample_sizes (processed mux track)"
    "t_fragment_samples (flushed mux off track) = []" "deque_wf (t_packets (flushed mux off track))"
    "pending (flushed mux off track) = drop (length (ready_of mux track)) (pending track)"
    "t_chunks (flushed mux off track) = t_chunks track @ (if ready_of mux track = [] then [] else
       [\<lparr>ch_offset = word_of_nat off, ch_size = word_of_nat (length (payload (ready_of mux track))),
         ch_samples = if t_sample_size track \<noteq> 0
           then word_of_nat (length (payload (ready_of mux track))) div t_sample_size track
           else word_of_nat (length (ready_of mux track))\<rparr>])"
    using fs D assms(1) unfolding flushed_def written_track_def c Let_def
    by (auto simp: K P L pending_def)
qed

section \<open>Where the data of a track is in the file\<close>

definition chunks_in :: "byte list \<Rightarrow> mp4_track \<Rightarrow> bool" where
  "chunks_in content track \<longleftrightarrow> (\<forall>c \<in> set (t_chunks track). unat (ch_offset c) + unat (ch_size c) \<le> length content)"

lemma chunk_bytes_append:
  "unat (ch_offset c) + unat (ch_size c) \<le> length content \<Longrightarrow> chunk_bytes (content @ extra) c = chunk_bytes content c"
  by (simp add: chunk_bytes_def)

lemma media_bytes_append:
  assumes "chunks_in content track"
  shows "media_bytes (content @ extra) track = media_bytes content track" "chunks_in (content @ extra) track"
  using assms by (auto simp: media_bytes_def chunks_in_def chunk_bytes_append intro!: arg_cong [where f = concat])

lemma media_flushed:
  assumes "deque_wf (t_packets track)" and "t_fragment_samples track = []" and "chunks_in content track"
    and "file = content @ before @ payload (ready_of mux track) @ after"
    and "length (payload (ready_of mux track)) < 2 ^ 32" and "length file < 2 ^ 64"
  shows "media_bytes file (flushed mux (length content + length before) track) =
      media_bytes content track @ payload (ready_of mux track)"
    and "chunks_in file (flushed mux (length content + length before) track)"
proof -
  let ?off = "length content + length before" and ?n = "length (payload (ready_of mux track))"
  let ?c = "\<lparr>ch_offset = word_of_nat ?off, ch_size = word_of_nat ?n,
    ch_samples = if t_sample_size track \<noteq> 0 then word_of_nat ?n div t_sample_size track
      else word_of_nat (length (ready_of mux track))\<rparr>"
  have off: "unat (ch_offset ?c) = ?off" using assms(4,6) by (simp add: unat_of_nat del: of_nat_add)
  have n: "unat (ch_size ?c) = ?n" using assms(5) by (simp add: unat_of_nat)
  have c: "chunk_bytes file ?c = payload (ready_of mux track)"
    unfolding chunk_bytes_def off n by (simp add: assms(4))
  note M = media_bytes_append [OF assms(3), of "before @ payload (ready_of mux track) @ after", folded assms(4)]
  have old: "concat (map (chunk_bytes file) (t_chunks track)) = media_bytes content track"
    using M(1) by (simp add: media_bytes_def)
  show "media_bytes file (flushed mux ?off track) = media_bytes content track @ payload (ready_of mux track)"
    using c old by (simp add: media_bytes_def flushed_fields(10) [OF assms(1,2)])
  have "unat (ch_offset ?c) + unat (ch_size ?c) \<le> length file" unfolding off n by (simp add: assms(4))
  then show "chunks_in file (flushed mux ?off track)"
    using M(2) by (auto simp: chunks_in_def flushed_fields(10) [OF assms(1,2)])
qed

section \<open>All tracks of a flush\<close>

lemma process_tracks_map:
  assumes "\<forall>t \<in> set ts. deque_wf (t_packets t)" and "m_flags mux = m_flags mux'"
    and "m_next_frag_pts mux = m_next_frag_pts mux'"
  shows "fst (process_tracks mux ts md) = map (processed mux') ts"
  using assms(1)
proof (induction ts arbitrary: md)
  case (Cons t ts)
  then show ?case
    using processed_eq [OF _ assms(2,3), of t] by (simp add: split_beta Let_def)
qed simp

lemma nth_written_tracks:
  "i < length ts \<Longrightarrow> written_tracks off ts ! i = written_track (off + length (fragment_payloads (take i ts))) (ts ! i)"
proof (induction ts arbitrary: off i)
  case (Cons t ts)
  then show ?case by (cases i) (simp_all add: fragment_payloads_def add.assoc)
qed simp

lemma length_written_tracks [simp]: "length (written_tracks off ts) = length ts"
  by (induction off ts rule: written_tracks.induct) simp_all

lemma fragment_payloads_split:
  "i < length ts \<Longrightarrow> fragment_payloads ts =
    fragment_payloads (take i ts) @ fragment_payload (ts ! i) @ fragment_payloads (drop (Suc i) ts)"
  by (subst id_take_nth_drop [of i ts]) (simp_all add: fragment_payloads_def)

text \<open>The chapter track of the final flush, with the dummy chapter that marks its end.\<close>

definition dummy_chapter :: "mp4_env \<Rightarrow> mp4_mux \<Rightarrow> encoder_packet" where
  "dummy_chapter env mux =
    mp4_create_chapter_pkt env (get_longest_track_duration (mux\<lparr>m_tracks := map (processed mux) (m_tracks mux)\<rparr>) * 1000)
      ''Dummy''"

definition with_dummy :: "mp4_env \<Rightarrow> mp4_mux \<Rightarrow> mp4_track \<Rightarrow> mp4_track" where
  "with_dummy env mux track = track\<lparr>t_packets := deque_push_back (t_packets track) [dummy_chapter env mux]\<rparr>"

definition tracks_idle :: "mp4_mux \<Rightarrow> bool" where
  "tracks_idle mux \<longleftrightarrow>
    (\<forall>t \<in> set (m_tracks mux) \<union> set_option (m_chapter_track mux). deque_wf (t_packets t) \<and> t_fragment_samples t = [])"

lemma longest_cong:
  "m_tracks mux = m_tracks mux' \<Longrightarrow> get_longest_track_duration mux = get_longest_track_duration mux'"
  by (simp add: get_longest_track_duration_def)

lemma analysed_fields:
  assumes "tracks_idle mux"
  shows "m_tracks (analysed env mux p) = map (processed mux) (m_tracks mux)"
    and "m_chapter_track (analysed env mux p) = map_option (\<lambda>c. if m_next_frag_pts mux = 0
      then processed mux (with_dummy env mux c) else c) (m_chapter_track mux)"
    and "m_next_frag_pts (analysed env mux p) = m_next_frag_pts mux"
    and "m_flags (analysed env mux p) = m_flags mux"
    and "m_flavor (analysed env mux p) = m_flavor mux"
    and "m_fragments_written (analysed env mux p) = m_fragments_written mux + 1"
    and "m_placeholder_offset (analysed env mux p) = m_placeholder_offset (opened mux p)"
proof -
  let ?mux2 = "(opened mux p)\<lparr>m_fragments_written := m_fragments_written mux + 1\<rparr>"
  have tr: "fst (process_tracks ?mux2 (m_tracks mux) 8) = map (processed mux) (m_tracks mux)"
    using assms by (intro process_tracks_map) (simp_all add: opened_keeps tracks_idle_def)
  have ch: "fst (process_packets mux' (with_dummy env mux c) md) = processed mux (with_dummy env mux c)"
    if "m_chapter_track mux = Some c" "m_flags mux' = m_flags mux" "m_next_frag_pts mux' = m_next_frag_pts mux" for c mux' md
    using assms that by (intro processed_eq) (simp_all add: with_dummy_def tracks_idle_def dqf.push_wf)
  have dm: "mp4_create_chapter_pkt env (get_longest_track_duration mux' * 1000) ''Dummy'' = dummy_chapter env mux"
    if "m_tracks mux' = map (processed mux) (m_tracks mux)" for mux'
    unfolding dummy_chapter_def
    using longest_cong [of mux' "mux\<lparr>m_tracks := map (processed mux) (m_tracks mux)\<rparr>"] that by simp
  note wd = with_dummy_def [symmetric]
  show "m_tracks (analysed env mux p) = map (processed mux) (m_tracks mux)"
    "m_chapter_track (analysed env mux p) = map_option (\<lambda>c. if m_next_frag_pts mux = 0
      then processed mux (with_dummy env mux c) else c) (m_chapter_track mux)"
    "m_next_frag_pts (analysed env mux p) = m_next_frag_pts mux"
    "m_flags (analysed env mux p) = m_flags mux"
    "m_flavor (analysed env mux p) = m_flavor mux"
    "m_fragments_written (analysed env mux p) = m_fragments_written mux + 1"
    "m_placeholder_offset (analysed env mux p) = m_placeholder_offset (opened mux p)"
    unfolding analysed_def analyse_packets_def split_beta Let_def
    by (auto simp: tr ch dm wd opened_keeps split: option.split)
qed

lemma with_dummy_idle:
  assumes "deque_wf (t_packets c)" and "t_fragment_samples c = []"
  shows "deque_wf (t_packets (with_dummy env mux c))" "t_fragment_samples (with_dummy env mux c) = []"
    "pending (with_dummy env mux c) = pending c @ [dummy_chapter env mux]" "t_chunks (with_dummy env mux c) = t_chunks c"
    "t_encoder (with_dummy env mux c) = t_encoder c" "t_codec (with_dummy env mux c) = t_codec c"
  using assms by (simp_all add: with_dummy_def pending_def dqf.push_wf dqf.push_elems)

lemma idle_flush_ok:
  assumes "encoders_ok env mux" and "tracks_idle mux"
  shows "flush_ok env mux p"
proof -
  note A = analysed_fields [OF assms(2)]
  have "queue_ok (processed mux t)" if "t \<in> set (m_tracks mux)" for t
    using assms(2) that by (intro processed_queue) (auto simp: tracks_idle_def)
  moreover have "queue_ok (processed mux (with_dummy env mux c))" if "m_chapter_track mux = Some c" for c
    using assms(2) that by (intro processed_queue) (auto simp: tracks_idle_def with_dummy_idle)
  ultimately show ?thesis
    using assms(1) unfolding flush_ok_def chapter_list_def A by (auto split: option.split if_splits)
qed

text \<open>A file that is written at its end, as a recording writes it until it is finalised.\<close>

definition at_end :: "file_output_data serializer \<Rightarrow> bool" where
  "at_end s \<longleftrightarrow> file_valid s \<and> file_cursor s = length (file_content s)"

lemma flush_run:
  assumes "encoders_ok env mux" and "tracks_idle mux" and "at_end s" and "p = length (file_content s)"
  shows "\<exists>s'. run_state (mp4_flush_fragment env mux) s = (flush_result env mux p, s') \<and> at_end s' \<and>
    file_content s' = file_content s @ flush_bytes env mux p"
proof -
  have r: "fil.ready s" "file_cursor s = p" using assms(3,4) by (simp_all add: at_end_def fil.ready_def)
  then have "fil.stored s [] s" by (simp add: fil.stored_def)
  moreover have "fil.finishes p [] (mp4_flush_fragment env mux) (flush_bytes env mux p) (flush_result env mux p)"
    using fil.finishes_flush [OF idle_flush_ok [OF assms(1,2)]] .
  ultimately obtain s' where "run_state (mp4_flush_fragment env mux) s = (flush_result env mux p, s')"
    "fil.stored s (flush_bytes env mux p) s'"
    using r unfolding fil.finishes_def by blast
  then show ?thesis
    using assms(4) r by (auto simp: at_end_def fil.stored_def fil.ready_def write_at_end)
qed

lemma flush_tracks:
  assumes "tracks_idle mux" and "i < length (m_tracks mux)"
  shows "\<exists>before after. flush_bytes env mux p = before @ payload (ready_of mux (m_tracks mux ! i)) @ after \<and>
    m_tracks (flush_result env mux p) ! i = flushed mux (p + length before) (m_tracks mux ! i) \<and>
    prefix (flush_prefix env mux p) before"
proof -
  let ?ts = "map (processed mux) (m_tracks mux)"
  let ?q = "p + length (flush_prefix env mux p)"
  note A = analysed_fields [OF assms(1)]
  have id: "deque_wf (t_packets (m_tracks mux ! i))" "t_fragment_samples (m_tracks mux ! i) = []"
    using assms by (auto simp: tracks_idle_def)
  have pay: "fragment_payload (?ts ! i) = payload (ready_of mux (m_tracks mux ! i))"
    using assms(2) processed_queue(2) [OF id] by simp
  have "m_tracks (flush_result env mux p) ! i = written_tracks ?q ?ts ! i"
    by (simp add: flush_result_def Let_def A)
  also have "\<dots> = flushed mux (?q + length (fragment_payloads (take i ?ts))) (m_tracks mux ! i)"
    using assms(2) by (simp add: nth_written_tracks flushed_def)
  finally have tr: "m_tracks (flush_result env mux p) ! i =
      flushed mux (p + length (flush_prefix env mux p @ fragment_payloads (take i ?ts))) (m_tracks mux ! i)"
    by (simp add: add.assoc)
  have "flush_bytes env mux p = (flush_prefix env mux p @ fragment_payloads (take i ?ts)) @
      payload (ready_of mux (m_tracks mux ! i)) @ fragment_payloads (drop (Suc i) ?ts) @
      fragment_payloads (chapter_list (analysed env mux p))"
    using fragment_payloads_split [of i ?ts] assms(2) pay by (simp add: flush_bytes_def A)
  with tr show ?thesis by (metis prefixI)
qed

lemma flush_result_fields:
  assumes "tracks_idle mux"
  shows "length (m_tracks (flush_result env mux p)) = length (m_tracks mux)"
    "m_next_frag_pts (flush_result env mux p) = 0" "m_flags (flush_result env mux p) = m_flags mux"
    "m_flavor (flush_result env mux p) = m_flavor mux"
    "m_fragments_written (flush_result env mux p) = m_fragments_written mux + 1"
    "m_placeholder_offset (flush_result env mux p) = m_placeholder_offset (opened mux p)"
  by (simp_all add: flush_result_def Let_def analysed_fields [OF assms])

text \<open>
  C10. A flush only appends to the file, and every track's new chunk points at exactly the
  data of the packets the flush took from its queue: read through the chunk table, the media
  data of a track after the flush is its media data before it followed by the payload of
  the packets that were ready, and these are the packets that left the queue.  The bounds
  are the widths of the chunk table's fields.
\<close>

theorem flush_fragment_appends:
  assumes "encoders_ok env mux" and "tracks_idle mux" and "at_end s"
    and "\<forall>t \<in> set (m_tracks mux). chunks_in (file_content s) t \<and> length (payload (ready_of mux t)) < 2 ^ 32"
    and "run_state (mp4_flush_fragment env mux) s = (mux', s')" and "length (file_content s') < 2 ^ 64"
  shows "at_end s' \<and> prefix (file_content s) (file_content s') \<and> length (m_tracks mux') = length (m_tracks mux) \<and>
    (\<forall>i < length (m_tracks mux).
       media_bytes (file_content s') (m_tracks mux' ! i) =
         media_bytes (file_content s) (m_tracks mux ! i) @ payload (ready_of mux (m_tracks mux ! i)) \<and>
       pending (m_tracks mux ! i) = ready_of mux (m_tracks mux ! i) @ pending (m_tracks mux' ! i))"
proof -
  let ?p = "length (file_content s)"
  have R: "mux' = flush_result env mux ?p" "at_end s'" "file_content s' = file_content s @ flush_bytes env mux ?p"
    using flush_run [OF assms(1-3) refl] assms(5) by auto
  have "media_bytes (file_content s') (m_tracks mux' ! i) =
         media_bytes (file_content s) (m_tracks mux ! i) @ payload (ready_of mux (m_tracks mux ! i)) \<and>
       pending (m_tracks mux ! i) = ready_of mux (m_tracks mux ! i) @ pending (m_tracks mux' ! i)"
    if i: "i < length (m_tracks mux)" for i
  proof -
    let ?t = "m_tracks mux ! i"
    obtain before after where ba: "flush_bytes env mux ?p = before @ payload (ready_of mux ?t) @ after"
      "m_tracks mux' ! i = flushed mux (?p + length before) ?t"
      using flush_tracks [OF assms(2) i, of env ?p] R(1) by blast
    have id: "deque_wf (t_packets ?t)" "t_fragment_samples ?t = []" using assms(2) i by (auto simp: tracks_idle_def)
    have c: "chunks_in (file_content s) ?t" "length (payload (ready_of mux ?t)) < 2 ^ 32"
      using assms(4) i by auto
    show ?thesis
      using media_flushed(1) [OF id c(1) R(3) [unfolded ba(1)] c(2) assms(6)]
        flushed_fields(9) [OF id] ready_of_take [of mux ?t] ba(2) by (metis append_take_drop_id)
  qed
  then show ?thesis using R flush_result_fields(1) [OF assms(2)] by (simp add: prefix_def)
qed

section \<open>The size of a flush, and an example\<close>

lemma length_flush_bytes_le:
  assumes "tracks_idle mux" and "m_chapter_track mux = None"
  shows "length (flush_bytes env mux p) \<le> 120 + moov_size env mux +
    sum_list (map (\<lambda>t. 90 + 8 * length (ready_of mux t) + length (payload (ready_of mux t))) (m_tracks mux))"
proof -
  have id: "deque_wf (t_packets t)" "t_fragment_samples t = []" if "t \<in> set (m_tracks mux)" for t
    using assms(1) that by (auto simp: tracks_idle_def)
  have frag: "sum_list (map (\<lambda>t. 90 + 8 * length (t_fragment_samples t)) (m_tracks (analysed env mux p))) =
      sum_list (map (\<lambda>t. 90 + 8 * length (ready_of mux t)) (m_tracks mux))"
    unfolding analysed_fields(1) [OF assms(1)] map_map comp_def
    by (intro arg_cong [where f = sum_list] map_cong refl) (simp add: length_processed id)
  have "length (fragment_payloads (m_tracks (analysed env mux p))) =
      sum_list (map (\<lambda>t. length (payload (ready_of mux t))) (m_tracks mux))"
    unfolding analysed_fields(1) [OF assms(1)] fragment_payloads_def length_concat map_map comp_def
    by (intro arg_cong [where f = sum_list] map_cong refl) (simp add: processed_queue id)
  moreover have "chapter_list (analysed env mux p) = []"
    by (simp add: chapter_list_def analysed_fields(2) [OF assms(1)] assms(2))
  moreover have "moov_size env (opened mux p) = moov_size env mux" by (simp add: moov_size_def opened_keeps)
  ultimately show ?thesis
    using length_flush_prefix_le [of env mux p] unfolding frag
    by (simp add: flush_bytes_def fragment_payloads_def sum_list_addf)
qed

definition sample_env :: mp4_env where
  "sample_env = \<lparr>env_version_string = ''30.0'', env_nominal_peak = 1000, env_start_chapter = ''Start'',
     env_addr = (\<lambda>_. 0), env_uninit = sample_packet, env_undef = (\<lambda>d. d)\<rparr>"

definition sample_file :: "file_output_data serializer" where
  "sample_file = \<lparr>ser_data = \<lparr>fo_file = \<lparr>f_bytes = [], f_pos = 0\<rparr>, fo_temp_name = None, fo_file_name = None\<rparr>,
     ser_read = None, ser_write = Some file_output_write, ser_seek = Some file_output_seek,
     ser_get_pos = Some file_output_get_pos\<rparr>"

definition one_track_mux :: mp4_mux where
  "one_track_mux = (mp4_mux_create [] [] 0 plain_flags FLAVOR_MP4)\<lparr>m_tracks := [sample_track]\<rparr>"

lemma one_track_mux_ok:
  "encoders_ok sample_env one_track_mux" "tracks_idle one_track_mux" "m_chapter_track one_track_mux = None"
  "m_tracks one_track_mux = [sample_track]" "m_next_frag_pts one_track_mux = 0"
  by (simp_all add: one_track_mux_def mp4_mux_create_def Let_def encoders_ok_def tracks_idle_def sample_track_packets
      encoder_ok_def obs_encoder_get_extra_data_def) (simp_all add: sample_track_def empty_track_def)

lemma sample_file_ok: "at_end sample_file" "file_content sample_file = []"
  by (simp_all add: at_end_def sample_file_def file_valid_def file_content_def file_cursor_def)

lemma sample_ready: "ready_of one_track_mux sample_track = [hd two_packets]"
  by (simp add: ready_of_def ready_packets_def cut_packet_def one_track_mux_ok pending_def sample_track_packets
      two_packets_def)

lemma sample_sizes:
  "moov_size sample_env one_track_mux < 10000" "length (payload [hd two_packets]) < 1000"
  by (simp_all add: moov_size_def one_track_mux_ok track_size_def table_size_def extra_size_def label_size_def
      sample_track_def empty_track_def obs_encoder_get_extra_data_def encoder_tool_def sample_env_def payload_def
      two_packets_def sample_packet_def sample_stream_def)

theorem flush_fragment_appends_witness:
  "\<exists>mux' s'. run_state (mp4_flush_fragment sample_env one_track_mux) sample_file = (mux', s') \<and>
    media_bytes (file_content s') (m_tracks mux' ! 0) = p_data sample_packet"
proof -
  obtain mux' s' where run: "run_state (mp4_flush_fragment sample_env one_track_mux) sample_file = (mux', s')"
    by fastforce
  have "file_content s' = flush_bytes sample_env one_track_mux 0"
    using flush_run [OF one_track_mux_ok(1,2) sample_file_ok(1) refl] run by (auto simp: sample_file_ok)
  then have len: "length (file_content s') < 2 ^ 64"
    using length_flush_bytes_le [OF one_track_mux_ok(2,3), of sample_env 0] sample_sizes
    by (simp add: one_track_mux_ok(4) sample_ready)
  have old: "media_bytes [] sample_track = []" "chunks_in [] sample_track"
    by (simp_all add: media_bytes_def chunks_in_def sample_track_def empty_track_def)
  have "media_bytes (file_content s') (m_tracks mux' ! 0) = payload [hd two_packets]"
    using flush_fragment_appends [OF one_track_mux_ok(1,2) sample_file_ok(1) _ run len] sample_sizes(2)
    by (simp add: sample_file_ok one_track_mux_ok(4) sample_ready old)
  then show ?thesis using run by (auto simp: payload_def two_packets_def)
qed

end
