(* ===== verification/Mp4_Recording.thy ===== *)
theory Mp4_Recording
  imports Mp4_History
begin

text \<open>
  A whole recording: a file is opened, the muxer is created, packets are submitted and
  chapters added in any order, and the muxer is finalised.  The state machine \<open>recorded\<close>
  keeps, beside the muxer and the file, the packets submitted for each track; its invariant
  says that the file and the tables of the muxer hold exactly those packets, less the ones
  still queued.
\<close>

section \<open>The recording as a state machine\<close>

text \<open>
  The limits of the format: 32-bit chunk sizes, sample and fragment counters, 64-bit file
  offsets.
\<close>

definition within_limits :: "mp4_mux \<Rightarrow> file_output_data serializer \<Rightarrow> (nat \<Rightarrow> encoder_packet list) \<Rightarrow> bool" where
  "within_limits mux s h \<longleftrightarrow> length (file_content s) < 2 ^ 64 \<and> unat (m_fragments_written mux) + 1 < 2 ^ 32 \<and>
    (\<forall>i < length (m_tracks mux). length (h i) < 2 ^ 32 \<and> length (payload (pending (m_tracks mux ! i))) < 2 ^ 32 \<and>
       (\<forall>p \<in> set (h i). length (p_data p) < 2 ^ 32))"

inductive recorded ::
  "mp4_env \<Rightarrow> mp4_mux \<Rightarrow> file_output_data serializer \<Rightarrow> (nat \<Rightarrow> encoder_packet list) \<Rightarrow> bool" for env where
  rec_create: "file_output_serializer_init can_open path fs = (Some s, fs') \<Longrightarrow>
    mux = mp4_mux_create video_encoders audio_encoders now flags flavor \<Longrightarrow> encoders_ok env mux \<Longrightarrow>
    recorded env mux s (\<lambda>_. [])"
| rec_submit: "recorded env mux s h \<Longrightarrow>
    run_state (mp4_mux_submit_packet env mux pkt) s = ((ok, mux'), s') \<Longrightarrow>
    h' = (case find_track 0 (m_tracks mux) (p_encoder pkt) None of
        Some i \<Rightarrow> h(i := h i @ [parse_packet env (t_codec (m_tracks mux ! i)) pkt]) | None \<Rightarrow> h) \<Longrightarrow>
    within_limits mux' s' h' \<Longrightarrow> recorded env mux' s' h'"
| rec_chapter: "recorded env mux s h \<Longrightarrow> mp4_mux_add_chapter env mux dts_usec name = (ok, mux') \<Longrightarrow>
    recorded env mux' s h"

inductive_cases recorded_createE: "recorded env mux s h"

section \<open>The invariant of a track\<close>

definition sample_key :: "encoder_packet \<times> encoder_packet \<Rightarrow> u32 \<times> u32 \<times> bool" where
  "sample_key pn = (word_of_nat (length (p_data (fst pn))), ucast (p_dts (snd pn) - p_dts (fst pn)), p_keyframe (fst pn))"

definition sample_cols :: "sample_info \<Rightarrow> u32 \<times> u32 \<times> bool" where
  "sample_cols x = (si_size x, si_duration x, si_key x)"

text \<open>
  The packets \<open>w\<close> of the history \<open>h\<close> are in the file and, for a track without a fixed
  sample size, in the tables: their sizes, the distances between their decoding times, and
  which of them are key frames.
\<close>

definition track_inv :: "byte list \<Rightarrow> mp4_track \<Rightarrow> encoder_packet list \<Rightarrow> bool" where
  "track_inv content t h \<longleftrightarrow>
    deque_wf (t_packets t) \<and> t_fragment_samples t = [] \<and> chunks_in content t \<and> (h \<noteq> [] \<longrightarrow> pending t \<noteq> []) \<and>
    (\<exists>w. h = w @ pending t \<and> media_bytes content t = payload w \<and>
       (t_sample_size t = 0 \<longrightarrow> (\<exists>xs. tables_rep t xs \<and> map sample_cols xs = map sample_key (zip w (tl h)))))"

lemma sample_cols_packet: "sample_cols (packet_sample mux t p n) = sample_key (p, n)"
  by (simp add: sample_cols_def sample_key_def packet_sample_def Let_def)

lemma sample_cols_packets: "map sample_cols (packet_samples mux t ps) = map sample_key ps"
  by (induction mux t ps rule: packet_samples.induct) (simp_all add: sample_cols_packet)

lemma tables_rep_written: "tables_rep (written_track off t) xs = tables_rep t xs"
  by (simp add: tables_rep_def written_track_def Let_def)

lemma track_inv_append:
  assumes "track_inv content t h"
  shows "track_inv (content @ extra) t h"
  using assms media_bytes_append [of content t extra] unfolding track_inv_def by auto

lemma zip_history: "zip (w @ r) (tl (w @ p)) = zip w (tl (w @ p)) @ zip r (tl p)"
proof -
  have "zip w (take (length w) (tl (w @ p))) = take (length w) (zip w (tl (w @ p)))" by (simp add: take_zip)
  moreover have "drop (length w) (tl (w @ p)) = tl p" by (simp flip: tl_drop)
  ultimately show ?thesis by (simp add: zip_append1)
qed

lemma track_inv_flushed:
  assumes inv: "track_inv content t h"
    and content: "file = content @ before @ payload (ready_of mux t) @ after" and len: "length file < 2 ^ 64"
    and lim: "length (payload (pending t)) < 2 ^ 32" "length h < 2 ^ 32"
  shows "track_inv file (flushed mux (length content + length before) t) h"
proof -
  let ?r = "ready_of mux t" and ?t = "flushed mux (length content + length before) t"
  obtain w where w: "h = w @ pending t" "media_bytes content t = payload w"
      "t_sample_size t = 0 \<longrightarrow> (\<exists>xs. tables_rep t xs \<and> map sample_cols xs = map sample_key (zip w (tl h)))"
    and id: "deque_wf (t_packets t)" "t_fragment_samples t = []" and ch: "chunks_in content t"
    and ne: "h \<noteq> [] \<longrightarrow> pending t \<noteq> []"
    using inv unfolding track_inv_def by blast
  note F = flushed_fields [OF id, of mux "length content + length before"]
  obtain rest where rest: "pending t = ?r @ rest" "pending t \<noteq> [] \<longrightarrow> rest \<noteq> []"
    using ready_of_prefix by blast
  have small: "length (payload ?r) < 2 ^ 32" using lim(1) rest(1) by simp
  have pend: "pending ?t = rest" using F(9) rest(1) by simp
  note M = media_flushed [OF id ch content small len]
  have tab: "\<exists>xs. tables_rep ?t xs \<and> map sample_cols xs = map sample_key (zip (w @ ?r) (tl h))" if sz: "t_sample_size t = 0"
  proof -
    obtain xs where xs: "tables_rep t xs" "map sample_cols xs = map sample_key (zip w (tl h))" using w(3) sz by blast
    let ?ps = "zip ?r (tl (pending t))"
    have lw: "length w \<le> length (tl h)" using w(1) ne by (cases "pending t") auto
    have "length xs = length w" using arg_cong [OF xs(2), of length] lw by simp
    then have "tables_rep (processed mux t) (xs @ packet_samples mux t ?ps)"
      using process_packets_tables_fold [OF id(1) xs(1) sz] lim(2) w(1) by (simp add: processed_def ready_of_def pending_def)
    moreover have "zip (w @ ?r) (tl h) = zip w (tl h) @ ?ps"
      unfolding w(1) by (rule zip_history)
    ultimately show ?thesis
      using xs(2) unfolding flushed_def tables_rep_written
      by (intro exI [of _ "xs @ packet_samples mux t ?ps"]) (simp add: sample_cols_packets)
  qed
  have "h = (w @ ?r) @ pending ?t" "media_bytes file ?t = payload (w @ ?r)"
    using w rest(1) M(1) pend by simp_all
  moreover have "h \<noteq> [] \<longrightarrow> pending ?t \<noteq> []" using ne rest pend by blast
  ultimately show ?thesis
    using F(4,7,8) M(2) tab unfolding track_inv_def by auto
qed

lemma track_inv_insert:
  assumes "track_inv content t h"
  shows "track_inv content (track_insert_packet t pkt) (h @ [pkt])"
proof -
  let ?t = "track_insert_packet t pkt"
  obtain w where w: "h = w @ pending t" "media_bytes content t = payload w"
      "t_sample_size t = 0 \<longrightarrow> (\<exists>xs. tables_rep t xs \<and> map sample_cols xs = map sample_key (zip w (tl h)))"
    and id: "deque_wf (t_packets t)" "t_fragment_samples t = []" "chunks_in content t" "h \<noteq> [] \<longrightarrow> pending t \<noteq> []"
    using assms unfolding track_inv_def by blast
  have F: "t_fragment_samples ?t = []" "deque_wf (t_packets ?t)" "pending ?t = pending t @ [pkt]"
    "chunks_in content ?t" "media_bytes content ?t = media_bytes content t" "t_sample_size ?t = t_sample_size t"
    "tables_rep ?t = tables_rep t"
    using id by (simp_all add: track_insert_packet_def pending_def chunks_in_def media_bytes_def
        dqf.push_wf dqf.push_elems tables_rep_def Let_def fun_eq_iff)
  have z: "zip w (tl (h @ [pkt])) = zip w (tl h)"
  proof (cases "h = []")
    case False
    then have "length w \<le> length (tl h)" using w(1) id(4) by (cases "pending t") auto
    then show ?thesis using False by (simp add: zip_append2)
  qed (use w(1) in simp)
  have "t_sample_size ?t = 0 \<longrightarrow>
      (\<exists>xs. tables_rep ?t xs \<and> map sample_cols xs = map sample_key (zip w (tl (h @ [pkt]))))"
    unfolding z F by (rule w(3))
  moreover have "h @ [pkt] = w @ pending ?t" "media_bytes content ?t = payload w" "pending ?t \<noteq> []"
    using w(1,2) F(3,5) by simp_all
  ultimately show ?thesis
    unfolding track_inv_def using F(1,2,4) by blast
qed

section \<open>The invariant of a recording\<close>

definition kinds :: "mp4_mux \<Rightarrow> (mp4_track_type \<times> mp4_codec) list" where
  "kinds mux = map (\<lambda>t. (t_type t, t_codec t)) (m_tracks mux)"

definition file_layout :: "byte list \<Rightarrow> mp4_mux \<Rightarrow> bool" where
  "file_layout content mux \<longleftrightarrow>
    (if m_fragments_written mux = 0 then content = []
     else m_placeholder_offset mux = length (ftyp_bytes mux True) \<and>
       (\<exists>rest. content = ftyp_bytes mux True @ free_bytes mux @ rest))"

definition chunks_after :: "nat \<Rightarrow> mp4_track \<Rightarrow> bool" where
  "chunks_after k t \<longleftrightarrow> (\<forall>c \<in> set (t_chunks t). k \<le> unat (ch_offset c))"

definition mux_inv :: "mp4_env \<Rightarrow> mp4_mux \<Rightarrow> file_output_data serializer \<Rightarrow> (nat \<Rightarrow> encoder_packet list) \<Rightarrow> bool" where
  "mux_inv env mux s h \<longleftrightarrow> at_end s \<and> encoders_ok env mux \<and> tracks_idle mux \<and> file_layout (file_content s) mux \<and>
    (\<forall>i < length (m_tracks mux). track_inv (file_content s) (m_tracks mux ! i) (h i) \<and>
       chunks_after (length (ftyp_bytes mux True) + 16) (m_tracks mux ! i))"

lemma find_video_codec:
  "map (\<lambda>t. (t_type t, t_codec t)) ts = map (\<lambda>t. (t_type t, t_codec t)) us \<Longrightarrow>
    map_option t_codec (List.find (\<lambda>t. t_type t = TRACK_VIDEO) ts) =
    map_option t_codec (List.find (\<lambda>t. t_type t = TRACK_VIDEO) us)"
proof (induction ts arbitrary: us)
  case (Cons t ts)
  then show ?case by (cases us) auto
qed simp

lemma header_cong:
  assumes "m_flags mux = m_flags mux'" and "m_flavor mux = m_flavor mux'" and "kinds mux = kinds mux'"
  shows "ftyp_bytes mux b = ftyp_bytes mux' b" "free_bytes mux = free_bytes mux'"
proof -
  have "map_option t_codec (first_video mux) = map_option t_codec (first_video mux')"
    using find_video_codec assms(3) unfolding kinds_def first_video_def by blast
  then have "(case first_video mux of Some track \<Rightarrow> if t_codec track = CODEC_H264 then x else y | None \<Rightarrow> z) =
      (case first_video mux' of Some track \<Rightarrow> if t_codec track = CODEC_H264 then x else y | None \<Rightarrow> z)"
    for x y z :: "byte list"
    by (auto split: option.split)
  then show "ftyp_bytes mux b = ftyp_bytes mux' b"
    by (simp add: ftyp_bytes_def ftyp_body_def assms)
  show "free_bytes mux = free_bytes mux'" by (simp add: free_bytes_def assms)
qed

lemma kinds_eq:
  assumes "kinds mux = kinds mux'"
  shows "length (m_tracks mux) = length (m_tracks mux')"
    "i < length (m_tracks mux') \<Longrightarrow> t_codec (m_tracks mux ! i) = t_codec (m_tracks mux' ! i)"
proof -
  show len: "length (m_tracks mux) = length (m_tracks mux')"
    using arg_cong [OF assms, of length] by (simp add: kinds_def)
  show "i < length (m_tracks mux') \<Longrightarrow> t_codec (m_tracks mux ! i) = t_codec (m_tracks mux' ! i)"
    using arg_cong [OF assms, of "\<lambda>xs. snd (xs ! i)"] len by (simp add: kinds_def)
qed

lemma flush_kinds:
  assumes "tracks_idle mux"
  shows "kinds (flush_result env mux p) = kinds mux"
proof (rule nth_equalityI)
  fix i assume "i < length (kinds (flush_result env mux p))"
  then have i: "i < length (m_tracks mux)" by (simp add: kinds_def flush_result_fields [OF assms])
  then have "deque_wf (t_packets (m_tracks mux ! i))" "t_fragment_samples (m_tracks mux ! i) = []"
    using assms by (auto simp: tracks_idle_def)
  then show "kinds (flush_result env mux p) ! i = kinds mux ! i"
    using flush_tracks [OF assms i, of env p] i
    by (auto simp: kinds_def flush_result_fields [OF assms] flushed_fields)
qed (simp add: kinds_def flush_result_fields [OF assms])

lemma flush_layout:
  assumes "tracks_idle mux" and "file_layout content mux" and "unat (m_fragments_written mux) + 1 < 2 ^ 32"
    and "p = length content"
  shows "file_layout (content @ flush_bytes env mux p) (flush_result env mux p)"
proof -
  let ?mux' = "flush_result env mux p"
  have "unat (m_fragments_written mux + 1) = unat (m_fragments_written mux) + 1"
    using assms(3) by (subst unat_add_lem [THEN iffD1]) simp_all
  then have nz: "m_fragments_written ?mux' \<noteq> 0"
    unfolding flush_result_fields [OF assms(1)] by (metis Suc_eq_plus1 nat.distinct(1) unsigned_0)
  have H: "ftyp_bytes ?mux' True = ftyp_bytes mux True" "free_bytes ?mux' = free_bytes mux"
    using header_cong [of ?mux' mux] flush_kinds [OF assms(1)] flush_result_fields [OF assms(1)] by simp_all
  show ?thesis
  proof (cases "m_fragments_written mux = 0")
    case True
    then show ?thesis
      using nz assms(2,4) H unfolding file_layout_def flush_bytes_def flush_prefix_def file_header_def
      by (auto simp: flush_result_fields [OF assms(1)] opened_def)
  next
    case False
    then show ?thesis
      using nz assms(2) H unfolding file_layout_def
      by (auto simp: flush_result_fields [OF assms(1)] opened_def)
  qed
qed

lemma flush_idle:
  assumes "encoders_ok env mux" and "tracks_idle mux"
  shows "encoders_ok env (flush_result env mux p) \<and> tracks_idle (flush_result env mux p)"
proof -
  let ?mux' = "flush_result env mux p"
  have tr: "encoder_ok env (t_encoder t) \<and> deque_wf (t_packets t) \<and> t_fragment_samples t = []"
    if t: "t \<in> set (m_tracks ?mux')" for t
  proof -
    obtain i where i: "i < length (m_tracks mux)" "t = m_tracks ?mux' ! i"
      using t by (auto simp: in_set_conv_nth flush_result_fields [OF assms(2)])
    then have "deque_wf (t_packets (m_tracks mux ! i))" "t_fragment_samples (m_tracks mux ! i) = []"
      "encoder_ok env (t_encoder (m_tracks mux ! i))"
      using assms by (auto simp: tracks_idle_def encoders_ok_def)
    then show ?thesis using flush_tracks [OF assms(2) i(1), of env p] i(2) by (auto simp: flushed_fields)
  qed
  have ch: "encoder_ok env (t_encoder t) \<and> deque_wf (t_packets t) \<and> t_fragment_samples t = []"
    if t: "m_chapter_track ?mux' = Some t" for t
  proof -
    obtain c where c: "m_chapter_track mux = Some c"
      using t by (cases "m_chapter_track mux")
        (auto simp: flush_result_def Let_def analysed_fields [OF assms(2)] split: option.splits)
    then have id: "deque_wf (t_packets c)" "t_fragment_samples c = []" "encoder_ok env (t_encoder c)"
      using assms by (auto simp: tracks_idle_def encoders_ok_def)
    have "t = c \<or> (\<exists>off. t = flushed mux off (with_dummy env mux c))"
      using t c by (auto simp: flush_result_def Let_def analysed_fields [OF assms(2)] flushed_def split: if_splits)
    then show ?thesis
      using id with_dummy_idle [OF id(1,2), of env mux]
        flushed_fields [OF with_dummy_idle(1,2) [OF id(1,2)], of mux] by auto
  qed
  show ?thesis using tr ch by (auto simp: encoders_ok_def tracks_idle_def)
qed

lemma length_free_bytes: "length (free_bytes mux) = 16"
  by (simp add: free_bytes_def length_mkbox)

lemma header_before:
  assumes "file_layout content mux" and "prefix (flush_prefix env mux (length content)) before"
  shows "length (ftyp_bytes mux True) + 16 \<le> length content + length before"
proof (cases "m_fragments_written mux = 0")
  case True
  then have "length (ftyp_bytes mux True @ free_bytes mux) \<le> length (flush_prefix env mux (length content))"
    by (simp add: flush_prefix_def file_header_def)
  also have "\<dots> \<le> length before" using assms(2) by (rule prefix_length_le)
  finally show ?thesis by (simp add: length_free_bytes)
next
  case False
  then show ?thesis using assms(1) by (auto simp: file_layout_def length_free_bytes)
qed

lemma chunks_after_flushed:
  assumes "deque_wf (t_packets t)" and "t_fragment_samples t = []" and "chunks_after k t" and "k \<le> off" and "off < 2 ^ 64"
  shows "chunks_after k (flushed mux off t)"
  using assms by (auto simp: chunks_after_def flushed_fields(10) unat_of_nat split: if_splits)

lemma flush_inv:
  assumes inv: "mux_inv env mux s h" and lim: "within_limits mux s h"
    and run: "run_state (mp4_flush_fragment env mux) s = (mux', s')" and len: "length (file_content s') < 2 ^ 64"
  shows "mux_inv env mux' s' h"
proof -
  let ?p = "length (file_content s)"
  have I: "encoders_ok env mux" "tracks_idle mux" "at_end s" "file_layout (file_content s) mux"
    using inv by (simp_all add: mux_inv_def)
  have R: "mux' = flush_result env mux ?p" "at_end s'" "file_content s' = file_content s @ flush_bytes env mux ?p"
    using flush_run [OF I(1-3) refl] run by auto
  have H: "ftyp_bytes mux' True = ftyp_bytes mux True"
    unfolding R(1) using flush_kinds [OF I(2)] flush_result_fields [OF I(2)] by (intro header_cong) simp_all
  have "track_inv (file_content s') (m_tracks mux' ! i) (h i) \<and>
      chunks_after (length (ftyp_bytes mux True) + 16) (m_tracks mux' ! i)" if i: "i < length (m_tracks mux)" for i
  proof -
    let ?t = "m_tracks mux ! i"
    obtain before after where ba: "flush_bytes env mux ?p = before @ payload (ready_of mux ?t) @ after"
      "m_tracks mux' ! i = flushed mux (?p + length before) ?t" "prefix (flush_prefix env mux ?p) before"
      using flush_tracks [OF I(2) i, of env ?p] R(1) by blast
    have T: "track_inv (file_content s) ?t (h i)" "chunks_after (length (ftyp_bytes mux True) + 16) ?t"
      "length (payload (pending ?t)) < 2 ^ 32" "length (h i) < 2 ^ 32"
      using inv lim i by (auto simp: mux_inv_def within_limits_def)
    have id: "deque_wf (t_packets ?t)" "t_fragment_samples ?t = []" using I(2) i by (auto simp: tracks_idle_def)
    have off: "?p + length before < 2 ^ 64" using len R(3) ba(1) by simp
    show ?thesis
      unfolding ba(2)
      using track_inv_flushed [OF T(1) R(3) [unfolded ba(1)] len T(3,4)]
        chunks_after_flushed [OF id T(2) header_before [OF I(4) ba(3)] off] by blast
  qed
  then show ?thesis
    using R(2) flush_idle [OF I(1,2), of ?p] flush_layout [OF I(2,4) _ refl, of env] lim H
    unfolding mux_inv_def R(1,3) by (auto simp: within_limits_def flush_result_fields [OF I(2)])
qed

section \<open>Every step keeps the invariant\<close>

definition fresh_track :: "mp4_track \<Rightarrow> bool" where
  "fresh_track t \<longleftrightarrow> t_packets t = deque_init \<and> t_fragment_samples t = [] \<and> t_chunks t = [] \<and> t_sample_sizes t = [] \<and>
    t_deltas t = [] \<and> t_offsets t = [] \<and> t_sync_samples t = [] \<and> t_samples t = 0 \<and> t_duration t = 0 \<and> \<not> t_needs_ctts t"

lemma fresh_track_inv: "fresh_track t \<Longrightarrow> track_inv content t []"
  by (simp add: fresh_track_def track_inv_def deque_init_wf pending_def chunks_in_def media_bytes_def tables_rep_def
      expand_deltas_def expand_offsets_def key_indices_def)

lemma add_track_track:
  "\<exists>t. m_tracks (add_track mux enc) = m_tracks mux @ [t] \<and> fresh_track t \<and> t_encoder t = Some enc \<and> t_codec t = get_codec enc"
  by (simp add: add_track_def Let_def fresh_track_def empty_track_def)

lemma add_track_keeps:
  "m_fragments_written (add_track mux enc) = m_fragments_written mux"
  "m_next_frag_pts (add_track mux enc) = m_next_frag_pts mux"
  "m_chapter_track (add_track mux enc) = m_chapter_track mux" "m_flags (add_track mux enc) = m_flags mux"
  "m_flavor (add_track mux enc) = m_flavor mux"
  by (simp_all add: add_track_def Let_def)

lemma add_encoders_keeps:
  "m_fragments_written (foldl add_encoder mux es) = m_fragments_written mux"
  "m_next_frag_pts (foldl add_encoder mux es) = m_next_frag_pts mux"
  "m_chapter_track (foldl add_encoder mux es) = m_chapter_track mux"
  "m_flags (foldl add_encoder mux es) = m_flags mux" "m_flavor (foldl add_encoder mux es) = m_flavor mux"
  by (induction es arbitrary: mux) (simp_all add: add_encoder_def add_track_keeps split: option.split)

lemma add_encoders_fresh:
  "\<forall>t \<in> set (m_tracks mux). fresh_track t \<Longrightarrow> \<forall>t \<in> set (m_tracks (foldl add_encoder mux es)). fresh_track t"
proof (induction es arbitrary: mux)
  case (Cons e es)
  have "\<forall>t \<in> set (m_tracks (add_encoder mux e)). fresh_track t"
    using Cons.prems add_track_track [of mux "the e"] by (cases e) (auto simp: add_encoder_def)
  then show ?case using Cons.IH by simp
qed simp

lemma create_fields:
  "m_fragments_written (mp4_mux_create ve ae now flags flavor) = 0"
  "m_next_frag_pts (mp4_mux_create ve ae now flags flavor) = 0"
  "m_chapter_track (mp4_mux_create ve ae now flags flavor) = None"
  "m_flags (mp4_mux_create ve ae now flags flavor) = flags"
  unfolding mp4_mux_create_def Let_def add_encoders_keeps by simp_all

lemma create_fresh: "\<forall>t \<in> set (m_tracks (mp4_mux_create ve ae now flags flavor)). fresh_track t"
  unfolding mp4_mux_create_def Let_def by (rule add_encoders_fresh, rule add_encoders_fresh) simp

lemma create_inv:
  assumes "mux = mp4_mux_create ve ae now flags flavor" and "encoders_ok env mux" and "at_end s" and "file_content s = []"
  shows "mux_inv env mux s (\<lambda>_. []) \<and> within_limits mux s (\<lambda>_. [])"
proof -
  have fr: "fresh_track (m_tracks mux ! i)" if "i < length (m_tracks mux)" for i
    using that create_fresh assms(1) by (metis nth_mem)
  have "tracks_idle mux"
    using create_fields(3) create_fresh assms(1) by (auto simp: tracks_idle_def fresh_track_def deque_init_wf)
  moreover have "pending (m_tracks mux ! i) = []" "chunks_after k (m_tracks mux ! i)" if "i < length (m_tracks mux)" for i k
    using fr [OF that] by (auto simp: fresh_track_def pending_def deque_init_wf chunks_after_def)
  ultimately show ?thesis
    using assms fr fresh_track_inv create_fields
    by (auto simp: mux_inv_def within_limits_def file_layout_def)
qed

lemma file_init_at_end:
  "file_output_serializer_init can_open path fs = (Some s, fs') \<Longrightarrow> at_end s \<and> file_content s = []"
  by (auto simp: file_output_serializer_init_def at_end_def file_valid_def file_content_def file_cursor_def split: if_splits)

lemma find_track_bound:
  "find_track i ts enc r = Some j \<Longrightarrow> r = Some j \<or> i \<le> j \<and> j < i + length ts"
proof (induction ts arbitrary: i r)
  case (Cons t ts)
  from Cons.IH [of "i + 1"] Cons.prems show ?case by (fastforce split: if_splits)
qed simp

text \<open>What is left of a submission once the fragment is flushed: the packet enters its queue.\<close>

lemma insert_inv:
  assumes inv: "mux_inv env mux s h" and i: "i < length (m_tracks mux)"
    and mux': "mux' = mux\<lparr>m_next_frag_pts := n, m_tracks := (m_tracks mux)[i := track_insert_packet (m_tracks mux ! i) pkt]\<rparr>"
  shows "mux_inv env mux' s (h(i := h i @ [pkt]))"
proof -
  let ?t = "track_insert_packet (m_tracks mux ! i) pkt"
  have F: "t_encoder ?t = t_encoder (m_tracks mux ! i)" "t_type ?t = t_type (m_tracks mux ! i)"
    "t_codec ?t = t_codec (m_tracks mux ! i)" "t_chunks ?t = t_chunks (m_tracks mux ! i)"
    by (simp_all add: track_insert_packet_def Let_def)
  have ti: "track_inv (file_content s) ?t (h i @ [pkt])"
    using inv i by (auto simp: mux_inv_def intro: track_inv_insert)
  have K: "kinds mux' = kinds mux" by (rule nth_equalityI) (use i F in \<open>auto simp: kinds_def mux' nth_list_update\<close>)
  have H: "ftyp_bytes mux' True = ftyp_bytes mux True" "free_bytes mux' = free_bytes mux"
    using header_cong [of mux' mux] K mux' by simp_all
  have "encoders_ok env mux'"
    using inv i F(1) by (auto simp: mux_inv_def encoders_ok_def mux' dest!: subsetD [OF set_update_subset_insert])
  moreover have "tracks_idle mux'"
    using inv i ti by (auto simp: mux_inv_def tracks_idle_def mux' track_inv_def dest!: subsetD [OF set_update_subset_insert])
  moreover have "file_layout (file_content s) mux'"
    using inv H by (simp add: mux_inv_def file_layout_def mux')
  moreover have "track_inv (file_content s) (m_tracks mux' ! j) ((h(i := h i @ [pkt])) j) \<and>
      chunks_after (length (ftyp_bytes mux True) + 16) (m_tracks mux' ! j)" if "j < length (m_tracks mux)" for j
    using inv i ti that F(4) by (cases "j = i") (auto simp: mux_inv_def mux' chunks_after_def)
  ultimately show ?thesis using inv H by (simp add: mux_inv_def mux')
qed

definition next_frag_pts_after :: "mp4_mux \<Rightarrow> encoder_packet \<Rightarrow> encoder_packet \<Rightarrow> s64" where
  "next_frag_pts_after mux pkt parsed =
    (if p_type pkt \<noteq> OBS_ENCODER_AUDIO \<and> p_keyframe parsed \<and> sint (p_pts parsed) > 0
     then packet_pts_usec parsed else m_next_frag_pts mux)"

definition inserted :: "mp4_mux \<Rightarrow> nat \<Rightarrow> encoder_packet \<Rightarrow> encoder_packet \<Rightarrow> mp4_mux" where
  "inserted mux i pkt parsed = mux\<lparr>m_next_frag_pts := next_frag_pts_after mux pkt parsed,
     m_tracks := (m_tracks mux)[i := track_insert_packet (m_tracks mux ! i) parsed]\<rparr>"

lemma submit_run:
  assumes "find_track 0 (m_tracks mux) (p_encoder pkt) None = Some i"
    and "run_state (if fragment_ready mux then mp4_flush_fragment env mux else State_Monad.return mux) s = (mux1, s1)"
  shows "run_state (mp4_mux_submit_packet env mux pkt) s =
    ((True, inserted mux1 i pkt (parse_packet env (t_codec (m_tracks mux1 ! i)) pkt)), s1)"
  using assms by (simp add: mp4_mux_submit_packet_def Let_def inserted_def next_frag_pts_after_def)

lemma submit_inv:
  assumes inv: "mux_inv env mux s h" and lim: "within_limits mux s h"
    and run: "run_state (mp4_mux_submit_packet env mux pkt) s = ((ok, mux'), s')"
    and h': "h' = (case find_track 0 (m_tracks mux) (p_encoder pkt) None of
        Some i \<Rightarrow> h(i := h i @ [parse_packet env (t_codec (m_tracks mux ! i)) pkt]) | None \<Rightarrow> h)"
    and lim': "within_limits mux' s' h'"
  shows "mux_inv env mux' s' h'"
proof (cases "find_track 0 (m_tracks mux) (p_encoder pkt) None")
  case None
  then show ?thesis using inv run h' by (simp add: mp4_mux_submit_packet_def)
next
  case (Some i)
  then have i: "i < length (m_tracks mux)" using find_track_bound [of 0] by fastforce
  obtain mux1 s1 where R1: "run_state (if fragment_ready mux then mp4_flush_fragment env mux else State_Monad.return mux) s =
      (mux1, s1)" by fastforce
  let ?p = "parse_packet env (t_codec (m_tracks mux1 ! i)) pkt"
  have M: "mux' = inserted mux1 i pkt ?p" and s': "s' = s1"
    using run submit_run [OF Some R1] by simp_all
  have "mux_inv env mux1 s1 h \<and> kinds mux1 = kinds mux"
  proof (cases "fragment_ready mux")
    case True
    then have fl: "run_state (mp4_flush_fragment env mux) s = (mux1, s1)" using R1 by simp
    have I: "encoders_ok env mux" "tracks_idle mux" "at_end s" using inv by (simp_all add: mux_inv_def)
    have "mux1 = flush_result env mux (length (file_content s))" using flush_run [OF I refl] fl by auto
    then show ?thesis
      using flush_inv [OF inv lim fl] flush_kinds [OF I(2)] lim' s' by (simp add: within_limits_def)
  qed (use R1 inv in auto)
  moreover from this have "length (m_tracks mux1) = length (m_tracks mux)" "t_codec (m_tracks mux1 ! i) = t_codec (m_tracks mux ! i)"
    using i kinds_eq [of mux1 mux] by simp_all
  ultimately show ?thesis
    using insert_inv [OF _ _ M [unfolded inserted_def]] i s' h' Some by simp
qed

lemma chapter_inv:
  assumes inv: "mux_inv env mux s h" and run: "mp4_mux_add_chapter env mux dts_usec name = (ok, mux')"
  shows "mux_inv env mux' s h"
    and "m_tracks mux' = m_tracks mux" "m_fragments_written mux' = m_fragments_written mux"
proof -
  have ins: "encoders_ok env (insert_chapter env m t nm) \<and> tracks_idle (insert_chapter env m t nm)"
    if "encoders_ok env m" "tracks_idle m" for m t nm
    using that by (auto simp: insert_chapter_def encoders_ok_def tracks_idle_def track_insert_packet_def Let_def dqf.push_wf)
  have add: "encoders_ok env (add_chapter_track m) \<and> tracks_idle (add_chapter_track m)"
    if "encoders_ok env m" "tracks_idle m" for m
    using that by (auto simp: add_chapter_track_def Let_def empty_track_def encoders_ok_def tracks_idle_def deque_init_wf
        encoder_ok_def obs_encoder_get_extra_data_def)
  have K: "m_tracks mux' = m_tracks mux" "m_fragments_written mux' = m_fragments_written mux" "m_flags mux' = m_flags mux"
    "m_flavor mux' = m_flavor mux" "m_placeholder_offset mux' = m_placeholder_offset mux"
    using run by (auto simp: mp4_mux_add_chapter_def insert_chapter_def add_chapter_track_def Let_def
        split: if_splits option.splits)
  then have H: "ftyp_bytes mux' True = ftyp_bytes mux True" "free_bytes mux' = free_bytes mux"
    using header_cong [of mux' mux] by (simp_all add: kinds_def)
  have I: "encoders_ok env mux" "tracks_idle mux" using inv by (simp_all add: mux_inv_def)
  have "encoders_ok env mux' \<and> tracks_idle mux'"
    using run ins add I by (auto simp: mp4_mux_add_chapter_def Let_def split: if_splits option.splits)
  then show "mux_inv env mux' s h" using inv K H by (simp add: mux_inv_def file_layout_def)
  show "m_tracks mux' = m_tracks mux" "m_fragments_written mux' = m_fragments_written mux" using K by simp_all
qed

lemma recorded_inv: "recorded env mux s h \<Longrightarrow> mux_inv env mux s h \<and> within_limits mux s h"
proof (induction rule: recorded.induct)
  case (rec_create can_open path fs s fs' mux ve ae now flags flavor)
  then show ?case using create_inv file_init_at_end by blast
next
  case (rec_submit mux s h pkt ok mux' s' h')
  then show ?case using submit_inv by blast
next
  case (rec_chapter mux s h dts_usec name ok mux')
  then show ?case using chapter_inv [of env mux s h] by (simp add: within_limits_def)
qed

text \<open>
  C11. At every moment of a recording, whatever the order of packets, fragment boundaries
  and chapters, the submitted packets of a track are those in the file followed by those in
  the track's queue: the media data found through the chunk table is the payload of exactly
  the packets that left the queue, in the order of submission, and for a track without a
  fixed sample size the sample tables list their sizes, durations and key frames.
\<close>

theorem recording_complete:
  assumes "recorded env mux s h" and "i < length (m_tracks mux)"
  shows "\<exists>w. h i = w @ pending (m_tracks mux ! i) \<and> media_bytes (file_content s) (m_tracks mux ! i) = payload w \<and>
    (t_sample_size (m_tracks mux ! i) = 0 \<longrightarrow>
       (\<exists>xs. tables_rep (m_tracks mux ! i) xs \<and> map sample_cols xs = map sample_key (zip w (tl (h i)))))"
  using recorded_inv [OF assms(1)] assms(2) unfolding mux_inv_def track_inv_def by blast

text \<open>An example: an audio recording of two packets.\<close>

definition flac_encoder :: obs_encoder where
  "flac_encoder = \<lparr>e_ptr = 7, e_type = OBS_ENCODER_AUDIO, e_codec = ''flac'', e_id = ''ffmpeg_flac'', e_name = ''Track 1'',
     e_extra_data = None, e_settings = \<lparr>set_int = (\<lambda>_. 0), set_double = (\<lambda>_. 0), set_json = ''{}''\<rparr>, e_scaled_width = 0, e_scaled_height = 0,
     e_samplerate = 48000, e_framesize = 4096, e_video = None, e_fps_override = None,
     e_audio = Some \<lparr>au_samples_per_sec = 48000, au_speakers = SPEAKERS_STEREO\<rparr>\<rparr>"

definition audio_packet :: "byte list \<Rightarrow> s64 \<Rightarrow> encoder_packet" where
  "audio_packet bs ts = sample_packet\<lparr>p_data := bs, p_pts := ts, p_dts := ts, p_timebase_den := 48000,
     p_type := OBS_ENCODER_AUDIO, p_encoder := Some 7\<rparr>"

definition audio_mux :: mp4_mux where
  "audio_mux = mp4_mux_create [] [Some flac_encoder] 0 plain_flags FLAVOR_MP4"

definition audio_packets :: "encoder_packet list" where
  "audio_packets = [audio_packet [1, 2, 3] 0, audio_packet [4, 5] 4096]"

definition audio_mux2 :: mp4_mux where
  "audio_mux2 = foldl (\<lambda>mux p. inserted mux 0 p p) audio_mux audio_packets"

lemma audio_mux_fields:
  "\<exists>t. m_tracks audio_mux = [t] \<and> fresh_track t \<and> t_encoder t = Some flac_encoder \<and> t_codec t = CODEC_FLAC \<and>
    t_sample_size t = 0"
  "m_next_frag_pts audio_mux = 0" "m_fragments_written audio_mux = 0" "m_chapter_track audio_mux = None"
  by (simp_all add: audio_mux_def mp4_mux_create_def Let_def add_encoder_def add_track_def fresh_track_def empty_track_def
      get_codec_def flac_encoder_def get_sample_size_def obs_encoder_audio_def)

lemma inserted_keeps:
  assumes "m_tracks mux = [t]" and "p_type pkt = OBS_ENCODER_AUDIO"
  shows "m_tracks (inserted mux 0 pkt q) = [track_insert_packet t q]"
    "m_next_frag_pts (inserted mux 0 pkt q) = m_next_frag_pts mux"
    "m_fragments_written (inserted mux 0 pkt q) = m_fragments_written mux"
    "m_chapter_track (inserted mux 0 pkt q) = m_chapter_track mux" "m_flags (inserted mux 0 pkt q) = m_flags mux"
  using assms by (simp_all add: inserted_def next_frag_pts_after_def)

lemma insert_keeps:
  "t_encoder (track_insert_packet t p) = t_encoder t" "t_codec (track_insert_packet t p) = t_codec t"
  "t_sample_size (track_insert_packet t p) = t_sample_size t" "t_chunks (track_insert_packet t p) = t_chunks t"
  "deque_wf (t_packets t) \<Longrightarrow> deque_wf (t_packets (track_insert_packet t p))"
  "deque_wf (t_packets t) \<Longrightarrow> pending (track_insert_packet t p) = pending t @ [p]"
  "table_size (track_insert_packet t p) = table_size t"
  by (simp_all add: track_insert_packet_def Let_def pending_def dqf.push_wf dqf.push_elems table_size_def)

lemma audio_step:
  assumes rec: "recorded sample_env mux sample_file h" and tr: "m_tracks mux = [t]" "t_encoder t = Some flac_encoder"
    and idle: "m_next_frag_pts mux = 0" and frag: "m_fragments_written mux = 0"
    and lim: "length (h 0 @ [audio_packet bs ts]) < 2 ^ 32" "length (payload (pending t)) + length bs < 2 ^ 32"
      "\<forall>p \<in> set (h 0). length (p_data p) < 2 ^ 32"
  shows "recorded sample_env (inserted mux 0 (audio_packet bs ts) (audio_packet bs ts)) sample_file
    (h(0 := h 0 @ [audio_packet bs ts]))"
proof -
  let ?p = "audio_packet bs ts"
  have nf: "foldl (\<lambda>ready t. ready \<and> P t) False ts = False" for P and ts :: "mp4_track list"
    by (induction ts) simp_all
  have find: "find_track 0 (m_tracks mux) (p_encoder ?p) None = Some 0"
    by (simp add: tr audio_packet_def flac_encoder_def)
  have "\<not> fragment_ready mux" by (simp add: fragment_ready_def idle nf)
  then have idle_run: "run_state (if fragment_ready mux then mp4_flush_fragment sample_env mux else State_Monad.return mux)
      sample_file = (mux, sample_file)" by simp
  have parse: "parse_packet sample_env c ?p = ?p" for c
    by (simp add: parse_packet_def audio_packet_def obs_encoder_packet_ref_def)
  have run: "run_state (mp4_mux_submit_packet sample_env mux ?p) sample_file =
      ((True, inserted mux 0 ?p ?p), sample_file)" using submit_run [OF find idle_run] by (simp only: parse)
  have wf: "deque_wf (t_packets t)" using recorded_inv [OF rec] tr by (simp add: mux_inv_def tracks_idle_def)
  have "m_tracks (inserted mux 0 ?p ?p) = [track_insert_packet t ?p]" "m_fragments_written (inserted mux 0 ?p ?p) = 0"
    using inserted_keeps [OF tr(1), of ?p] frag by (simp_all add: audio_packet_def)
  then have "within_limits (inserted mux 0 ?p ?p) sample_file (h(0 := h 0 @ [?p]))"
    using lim insert_keeps(6) [OF wf] by (auto simp: within_limits_def sample_file_ok payload_def audio_packet_def)
  then show ?thesis by (intro rec_submit [OF rec run]) (simp_all add: find parse)
qed

lemma audio_recorded: "recorded sample_env audio_mux2 sample_file ((\<lambda>_. [])(0 := audio_packets))"
proof -
  obtain t where t: "m_tracks audio_mux = [t]" "fresh_track t" "t_encoder t = Some flac_encoder"
    using audio_mux_fields(1) by blast
  have wf: "deque_wf (t_packets t)" "pending t = []"
    using t(2) by (simp_all add: fresh_track_def deque_init_wf pending_def)
  have "encoders_ok sample_env audio_mux"
    using t audio_mux_fields(4) by (simp add: encoders_ok_def encoder_ok_def flac_encoder_def obs_encoder_get_extra_data_def)
  then have 0: "recorded sample_env audio_mux sample_file (\<lambda>_. [])"
    using rec_create [of "\<lambda>_. True" "''a.mp4''" Map.empty sample_file _ audio_mux]
    by (simp add: file_output_serializer_init_def sample_file_def audio_mux_def)
  let ?p = "audio_packet [1, 2, 3] 0" and ?q = "audio_packet [4, 5] 4096"
  have ty: "p_type ?p = OBS_ENCODER_AUDIO" by (simp add: audio_packet_def)
  have 1: "recorded sample_env (inserted audio_mux 0 ?p ?p) sample_file ((\<lambda>_. [])(0 := [?p]))"
    using audio_step [OF 0 t(1,3) audio_mux_fields(2,3), of "[1, 2, 3]" 0] wf by (simp add: payload_def)
  note K = inserted_keeps [OF t(1) ty, of ?p]
  have small: "length (payload [?p]) = 3" "length (p_data ?p) = 3" by (simp_all add: payload_def audio_packet_def)
  have "recorded sample_env (inserted (inserted audio_mux 0 ?p ?p) 0 ?q ?q) sample_file
      (((\<lambda>_. [])(0 := [?p]))(0 := [?p] @ [?q]))"
    using audio_step [OF 1 K(1), of "[4, 5]" 4096] t(3) audio_mux_fields(2,3) wf
    by (simp add: insert_keeps K small)
  then show ?thesis by (simp add: audio_mux2_def audio_packets_def)
qed

lemma audio_mux2_fields:
  "\<exists>t. m_tracks audio_mux2 = [t] \<and> pending t = audio_packets \<and> t_encoder t = Some flac_encoder \<and> t_sample_size t = 0 \<and>
    table_size t = 0"
  "m_next_frag_pts audio_mux2 = 0" "m_chapter_track audio_mux2 = None" "m_flags audio_mux2 = plain_flags"
proof -
  obtain t where t: "m_tracks audio_mux = [t]" "fresh_track t" "t_encoder t = Some flac_encoder" "t_sample_size t = 0"
    using audio_mux_fields(1) by blast
  have wf: "deque_wf (t_packets t)" "pending t = []" "table_size t = 0"
    using t(2) by (simp_all add: fresh_track_def deque_init_wf pending_def table_size_def)
  let ?p = "audio_packet [1, 2, 3] 0" and ?q = "audio_packet [4, 5] 4096"
  have ty: "p_type ?p = OBS_ENCODER_AUDIO" "p_type ?q = OBS_ENCODER_AUDIO" by (simp_all add: audio_packet_def)
  note K = inserted_keeps [OF t(1) ty(1), of ?p] and L = inserted_keeps [OF inserted_keeps(1) [OF t(1) ty(1)] ty(2), of ?p ?q]
  show "\<exists>t. m_tracks audio_mux2 = [t] \<and> pending t = audio_packets \<and> t_encoder t = Some flac_encoder \<and> t_sample_size t = 0 \<and>
      table_size t = 0"
    using t wf by (simp add: audio_mux2_def audio_packets_def L insert_keeps)
  show "m_next_frag_pts audio_mux2 = 0" "m_chapter_track audio_mux2 = None" "m_flags audio_mux2 = plain_flags"
    using audio_mux_fields by (simp_all add: audio_mux2_def audio_packets_def L K) (simp add: audio_mux_def create_fields)
qed

theorem recording_complete_witness:
  "\<exists>w. audio_packets = w @ pending (m_tracks audio_mux2 ! 0) \<and>
    media_bytes (file_content sample_file) (m_tracks audio_mux2 ! 0) = payload w"
  using recording_complete [OF audio_recorded, of 0] audio_mux2_fields(1) by auto

end
