(* ===== verification/Mp4_Final.thy ===== *)
theory Mp4_Final
  imports Mp4_Recording
begin

text \<open>
  Finalisation: the last flush, the movie box at the end of the file, and the two
  overwrites at its start that turn the fragmented file into a regular one.  This needs an
  output whose position can be set anywhere, which is the contract \<open>seekable_output\<close>.
\<close>

section \<open>Outputs that can be rewritten in place\<close>

locale seekable_output = output_serializer +
  assumes settled_anywhere: "c \<le> n \<Longrightarrow> settled n c"
begin

lemma overwrite:
  assumes "ready s" and "p \<le> length (content s)" and "emits m bs r"
  shows "\<exists>s'. run_state (serializer_seek (int p) SERIALIZE_SEEK_START \<bind> (\<lambda>_. m)) s = (r, s') \<and> ready s' \<and>
    content s' = write_at (content s) p bs"
proof -
  obtain s1 where 1: "run_state (serializer_seek (int p) SERIALIZE_SEEK_START) s = (int p, s1)" "valid s1"
    "content s1 = content s" "cursor s1 = p"
    using seek_law [of s p] assms(1,2) by (auto simp: ready_def)
  then have "ready s1" using assms(2) by (simp add: ready_def settled_anywhere)
  with emitsD [OF assms(3)] obtain s2 where "run_state m s1 = (r, s2)" "stored s1 bs s2" by blast
  then show ?thesis using 1 by (auto simp: stored_def)
qed

end

interpretation fils: seekable_output file_valid file_content file_cursor "\<lambda>n c. c \<le> n"
  by unfold_locales

section \<open>The bytes of a finalised file\<close>

definition final_header :: "nat \<Rightarrow> byte list" where
  "final_header n =
    (if n > UINT32_MAX then be32 1 @ bytes_of_string ''mdat'' @ be64 (word_of_nat n)
     else be32 (word_of_nat n) @ bytes_of_string ''mdat'')"

definition final_mux :: "mp4_env \<Rightarrow> mp4_mux \<Rightarrow> file_output_data serializer \<Rightarrow> mp4_mux" where
  "final_mux env mux s = flush_result env (mux\<lparr>m_next_frag_pts := 0\<rparr>) (length (file_content s))"

definition fragmented_file :: "mp4_env \<Rightarrow> mp4_mux \<Rightarrow> file_output_data serializer \<Rightarrow> byte list" where
  "fragmented_file env mux s =
    file_content s @ flush_bytes env (mux\<lparr>m_next_frag_pts := 0\<rparr>) (length (file_content s))"

definition final_file :: "mp4_env \<Rightarrow> mp4_mux \<Rightarrow> byte list \<Rightarrow> byte list" where
  "final_file env mux content =
    write_at (write_at (content @ moov_data env mux False) 0 (ftyp_bytes mux False)) (m_placeholder_offset mux)
      (final_header (length content - m_placeholder_offset mux))"


text \<open>The part of finalisation after the flush, on an output that is written at its end.\<close>

definition finalise_tail :: "mp4_env \<Rightarrow> mp4_mux \<Rightarrow> ('s serializer, bool \<times> mp4_mux) state" where
  "finalise_tail env mux1 = do {
     data_end \<leftarrow> serializer_get_pos;
     let (_, ao) = run_state (mp4_write_moov env mux1 False) array_output_serializer_init;
     s_write (array_bytes ao);
     serializer_seek 0 SERIALIZE_SEEK_START;
     mp4_write_ftyp mux1 False;
     let data_size = nat (data_end - int (m_placeholder_offset mux1));
     serializer_seek (int (m_placeholder_offset mux1)) SERIALIZE_SEEK_START;
     (if data_size > UINT32_MAX then do { s_wb32 1; s_str ''mdat''; s_wb64 (word_of_nat data_size) }
      else do { s_wb32 (word_of_nat data_size); s_str ''mdat''; State_Monad.return () });
     State_Monad.return (True, mux1) }"

context seekable_output
begin

lemma emits_final_header:
  "emits (if n > UINT32_MAX then do { s_wb32 1; s_str ''mdat''; s_wb64 (word_of_nat n) }
     else do { s_wb32 (word_of_nat n); s_str ''mdat''; State_Monad.return () }) (final_header n) ()"
proof -
  have "emits (do { s_wb32 (word_of_nat n); s_str ''mdat''; State_Monad.return () })
      (be32 (word_of_nat n) @ bytes_of_string ''mdat'' @ []) ()"
    by (rule emits_then emits_s_wb32 emits_s_str emits_return)+
  moreover have "emits (do { s_wb32 1; s_str ''mdat''; s_wb64 (word_of_nat n) })
      (be32 1 @ bytes_of_string ''mdat'' @ be64 (word_of_nat n)) ()"
    by (rule emits_then emits_s_wb32 emits_s_str emits_s_wb64)+
  ultimately show ?thesis by (simp add: final_header_def)
qed

lemma finalise_tail_run:
  assumes "encoders_ok env mux" and "ready s" and "cursor s = length (content s)"
    and "m_placeholder_offset mux \<le> length (content s)"
  shows "\<exists>s'. run_state (finalise_tail env mux) s = ((True, mux), s') \<and> content s' = final_file env mux (content s)"
proof -
  let ?n = "nat (int (length (content s)) - int (m_placeholder_offset mux))"
  let ?hdr = "if ?n > UINT32_MAX then do { s_wb32 1; s_str ''mdat''; s_wb64 (word_of_nat ?n) }
      else do { s_wb32 (word_of_nat ?n); s_str ''mdat''; State_Monad.return () }"
  obtain r ao where ao: "run_state (mp4_write_moov env mux False) array_output_serializer_init = (r, ao)"
    "array_bytes ao = moov_data env mux False"
    using moov_via_array [OF assms(1)] by blast
  have pos: "run_state serializer_get_pos s = (int (length (content s)), s)"
    using get_pos_law [of s] assms(2,3) by (simp add: ready_def)
  obtain s1 where 1: "run_state (s_write (moov_data env mux False)) s = (length (moov_data env mux False), s1)" "ready s1"
    "content s1 = content s @ moov_data env mux False"
    using emitsD [OF emits_s_write assms(2)] assms(3) by (metis stored_def write_at_end)
  obtain s2 where 2: "run_state (serializer_seek 0 SERIALIZE_SEEK_START \<bind> (\<lambda>_. mp4_write_ftyp mux False)) s1 =
      (8 + length (ftyp_body mux False), s2)" "ready s2" "content s2 = write_at (content s1) 0 (ftyp_bytes mux False)"
    using overwrite [OF 1(2) _ emits_ftyp, of 0 mux False] by (auto simp: ftyp_bytes_def)
  have le: "m_placeholder_offset mux \<le> length (content s2)"
    using assms(4) 2(3) 1(3) by (simp add: length_write_at)
  obtain s3 where 3: "run_state (serializer_seek (int (m_placeholder_offset mux)) SERIALIZE_SEEK_START \<bind> (\<lambda>_. ?hdr)) s2 = ((), s3)"
    "content s3 = write_at (content s2) (m_placeholder_offset mux) (final_header ?n)"
    using overwrite [OF 2(2) le emits_final_header] by blast
  have "run_state (finalise_tail env mux) s = ((True, mux), s3)"
    using pos ao 1(1) 2(1) 3(1) unfolding finalise_tail_def Let_def by (auto simp: split_beta)
  moreover have "?n = length (content s) - m_placeholder_offset mux" by simp
  ultimately show ?thesis using 3(2) 2(3) 1(3) by (auto simp: final_file_def)
qed

end

lemma finalise_split:
  "mp4_mux_finalise env mux = do {
     mux1 \<leftarrow> mp4_flush_fragment env (mux\<lparr>m_next_frag_pts := 0\<rparr>);
     (if MP4_SKIP_FINALISATION (m_flags mux1) then State_Monad.return (True, mux1) else finalise_tail env mux1) }"
  unfolding mp4_mux_finalise_def finalise_tail_def ..

lemma inv_final:
  assumes "mux_inv env mux s h" and "within_limits mux s h" and "length (fragmented_file env mux s) < 2 ^ 64"
  shows "\<exists>s1. run_state (mp4_flush_fragment env (mux\<lparr>m_next_frag_pts := 0\<rparr>)) s = (final_mux env mux s, s1) \<and>
    file_content s1 = fragmented_file env mux s \<and> mux_inv env (final_mux env mux s) s1 h \<and>
    file_layout (fragmented_file env mux s) (final_mux env mux s) \<and> m_fragments_written (final_mux env mux s) \<noteq> 0"
proof -
  let ?mux = "mux\<lparr>m_next_frag_pts := 0\<rparr>"
  have H: "ftyp_bytes ?mux True = ftyp_bytes mux True" "free_bytes ?mux = free_bytes mux"
    using header_cong [of ?mux mux] by (simp_all add: kinds_def)
  have I: "mux_inv env ?mux s h" "within_limits ?mux s h"
    using assms(1,2) H by (simp_all add: mux_inv_def within_limits_def encoders_ok_def tracks_idle_def file_layout_def)
  then have E: "encoders_ok env ?mux" "tracks_idle ?mux" "at_end s" by (simp_all add: mux_inv_def)
  obtain s1 where 1: "run_state (mp4_flush_fragment env ?mux) s = (final_mux env mux s, s1)"
    "file_content s1 = fragmented_file env mux s"
    using flush_run [OF E refl] by (auto simp: final_mux_def fragmented_file_def)
  have 2: "mux_inv env (final_mux env mux s) s1 h"
    using flush_inv [OF I 1(1)] assms(3) 1(2) by simp
  have "unat (m_fragments_written mux + 1) = unat (m_fragments_written mux) + 1"
    using assms(2) by (subst unat_add_lem [THEN iffD1]) (simp_all add: within_limits_def)
  then have "m_fragments_written mux + 1 \<noteq> 0" by (metis Suc_eq_plus1 nat.distinct(1) unsigned_0)
  then have "m_fragments_written (final_mux env mux s) \<noteq> 0"
    unfolding final_mux_def flush_result_fields [OF E(2)] by simp
  with 1 2 show ?thesis by (auto simp: mux_inv_def)
qed

lemma finalise_run:
  assumes "mux_inv env mux s h" and "within_limits mux s h" and "length (fragmented_file env mux s) < 2 ^ 64"
    and "run_state (mp4_mux_finalise env mux) s = ((ok, mux'), s')"
  shows "ok \<and> mux' = final_mux env mux s \<and> file_content s' =
    (if MP4_SKIP_FINALISATION (m_flags mux') then fragmented_file env mux s
     else final_file env mux' (fragmented_file env mux s))"
proof -
  let ?m = "final_mux env mux s"
  obtain s1 where 1: "run_state (mp4_flush_fragment env (mux\<lparr>m_next_frag_pts := 0\<rparr>)) s = (?m, s1)"
    "file_content s1 = fragmented_file env mux s" "mux_inv env ?m s1 h"
    "file_layout (fragmented_file env mux s) ?m" "m_fragments_written ?m \<noteq> 0"
    using inv_final [OF assms(1-3)] by blast
  have E: "encoders_ok env ?m" "fil.ready s1" "file_cursor s1 = length (file_content s1)"
    "m_placeholder_offset ?m \<le> length (file_content s1)"
    using 1 by (auto simp: mux_inv_def at_end_def fil.ready_def file_layout_def)
  show ?thesis
    using fils.finalise_tail_run [OF E] assms(4) 1(1,2) unfolding finalise_split by (auto split: if_splits)
qed

text \<open>The two overwrites, as the file they leave behind.\<close>

lemma length_ftyp_bytes: "length (ftyp_bytes mux a) = length (ftyp_bytes mux b)"
  using length_ftyp_body by (simp add: ftyp_bytes_def length_mkbox)

definition mdat_box :: "byte list \<Rightarrow> byte list" where
  "mdat_box rest = (if 16 + length rest > UINT32_MAX then mkbox64 ''mdat'' rest else mkbox ''mdat'' (be64 0 @ rest))"

lemma write_at_mid: "off = length a \<Longrightarrow> write_at (a @ b) off c = a @ c @ drop (length c) b"
  by (simp add: write_at_def)

lemma final_file_boxes:
  assumes "m_placeholder_offset mux = length (ftyp_bytes mux True)"
    and "content = ftyp_bytes mux True @ free_bytes mux @ rest"
  shows "final_file env mux content = ftyp_bytes mux False @ mdat_box rest @ moov_data env mux False"
proof -
  have n: "length content - m_placeholder_offset mux = 16 + length rest"
    using assms by (simp add: length_free_bytes)
  have len: "m_placeholder_offset mux = length (ftyp_bytes mux False)"
    using length_ftyp_bytes [of mux False True] assms(1) by simp
  have w: "write_at (content @ moov_data env mux False) 0 (ftyp_bytes mux False) =
      ftyp_bytes mux False @ free_bytes mux @ rest @ moov_data env mux False"
    using length_ftyp_bytes [of mux False True] assms(2) by (simp add: write_at_def)
  have "final_file env mux content =
      ftyp_bytes mux False @ final_header (16 + length rest) @
      drop (length (final_header (16 + length rest))) (free_bytes mux @ rest @ moov_data env mux False)"
    unfolding final_file_def n w by (rule write_at_mid [OF len])
  moreover have "final_header (16 + length rest) @
      drop (length (final_header (16 + length rest))) (free_bytes mux @ rest @ moov_data env mux False) =
      mdat_box rest @ moov_data env mux False"
    by (simp add: final_header_def mdat_box_def mkbox_def mkbox64_def fourcc_def free_bytes_def)
  ultimately show ?thesis by simp
qed

lemma parse_mdat_box:
  assumes "16 + length rest < 2 ^ 64"
  shows "parse_box (mdat_box rest @ more_bytes) =
    Some (fourcc ''mdat'', (if 16 + length rest > UINT32_MAX then rest else be64 0 @ rest), more_bytes)"
proof (cases "16 + length rest > UINT32_MAX")
  case True
  then show ?thesis using parse_box_mkbox64 [of "''mdat''" rest] assms by (simp add: mdat_box_def)
next
  case False
  then show ?thesis using parse_box_mkbox [of "''mdat''" "be64 0 @ rest"] by (simp add: mdat_box_def UINT32_MAX_def)
qed

lemma length_ftyp_small: "8 + length (ftyp_body mux b) < 2 ^ 32"
  by (simp add: ftyp_body_def Let_def split: option.split)


section \<open>Reading the samples back\<close>

text \<open>A reader that cuts the media data of a track along its table of sample sizes.\<close>

fun split_sizes :: "u32 list \<Rightarrow> byte list \<Rightarrow> byte list list" where
  "split_sizes [] bs = []"
| "split_sizes (n # ns) bs = take (unat n) bs # split_sizes ns (drop (unat n) bs)"

definition read_samples :: "byte list \<Rightarrow> mp4_track \<Rightarrow> byte list list" where
  "read_samples content t = split_sizes (t_sample_sizes t) (media_bytes content t)"

lemma split_payload:
  "\<forall>p \<in> set w. length (p_data p) < 2 ^ 32 \<Longrightarrow>
    split_sizes (map (\<lambda>p. word_of_nat (length (p_data p))) w) (payload w) = map p_data w"
  by (induction w) (simp_all add: payload_def unat_of_nat)

lemma table_sizes:
  assumes "tables_rep t xs" and "map sample_cols xs = map sample_key (zip w ns)" and "length w \<le> length ns"
  shows "t_sample_sizes t = map (\<lambda>p. word_of_nat (length (p_data p))) w"
proof -
  have "map fst (zip w ns) = w" using assms(3) by (simp add: map_fst_zip_take)
  then have "map (\<lambda>p. word_of_nat (length (p_data p))) w =
      map (\<lambda>p. word_of_nat (length (p_data p))) (map fst (zip w ns))" by (simp only:)
  also have "\<dots> = map fst (map sample_key (zip w ns))" by (simp add: sample_key_def comp_def)
  also have "\<dots> = map fst (map sample_cols xs)" by (simp only: assms(2))
  also have "\<dots> = t_sample_sizes t" using assms(1) by (simp add: tables_rep_def sample_cols_def comp_def)
  finally show ?thesis by simp
qed

lemma mdat_box_drop: "drop 16 (mdat_box rest) = rest" "length (mdat_box rest) = 16 + length rest"
  by (simp_all add: mdat_box_def mkbox_def mkbox64_def)

lemma chunk_bytes_final:
  assumes "content = ftyp_bytes mux True @ free_bytes mux @ rest" and "length (ftyp_bytes mux True) + 16 \<le> unat (ch_offset c)"
    and "unat (ch_offset c) + unat (ch_size c) \<le> length content"
  shows "chunk_bytes (ftyp_bytes mux False @ mdat_box rest @ moov) c = chunk_bytes content c"
proof -
  let ?k = "unat (ch_offset c) - (length (ftyp_bytes mux True) + 16)"
  have off: "unat (ch_offset c) = ?k + 16 + length (ftyp_bytes mux True)" using assms(2) by simp
  have "drop (unat (ch_offset c)) (ftyp_bytes mux False @ mdat_box rest @ moov) =
      drop ?k (drop 16 (drop (length (ftyp_bytes mux False)) (ftyp_bytes mux False @ mdat_box rest @ moov)))"
    unfolding drop_drop using off length_ftyp_bytes [of mux False True] by simp
  also have "\<dots> = drop ?k (rest @ moov)" by (simp add: mdat_box_drop)
  finally have 1: "drop (unat (ch_offset c)) (ftyp_bytes mux False @ mdat_box rest @ moov) = drop ?k (rest @ moov)" .
  have "drop (unat (ch_offset c)) content =
      drop ?k (drop 16 (drop (length (ftyp_bytes mux True)) (ftyp_bytes mux True @ free_bytes mux @ rest)))"
    unfolding drop_drop assms(1) using off by simp
  also have "\<dots> = drop ?k rest" by (simp add: length_free_bytes)
  finally have 2: "drop (unat (ch_offset c)) content = drop ?k rest" .
  have "?k + unat (ch_size c) \<le> length rest" using assms by (simp add: length_free_bytes)
  then show ?thesis unfolding chunk_bytes_def 1 2 by simp
qed

lemma media_bytes_final:
  assumes "m_placeholder_offset mux = length (ftyp_bytes mux True)" and "content = ftyp_bytes mux True @ free_bytes mux @ rest"
    and "chunks_after (length (ftyp_bytes mux True) + 16) t" and "chunks_in content t"
  shows "media_bytes (final_file env mux content) t = media_bytes content t"
  unfolding final_file_boxes [OF assms(1,2)] media_bytes_def
  by (intro arg_cong [where f = concat] map_cong refl chunk_bytes_final [OF assms(2)])
    (use assms(3,4) in \<open>auto simp: chunks_after_def chunks_in_def\<close>)

lemma ready_of_final: "m_next_frag_pts mux = 0 \<Longrightarrow> ready_of mux t = butlast (pending t)"
  by (simp add: ready_of_def ready_packets_def cut_packet_def)

lemma final_pending:
  assumes "tracks_idle mux" and "i < length (m_tracks mux)"
  shows "pending (m_tracks (final_mux env mux s) ! i) =
    (if pending (m_tracks mux ! i) = [] then [] else [last (pending (m_tracks mux ! i))])"
proof -
  let ?mux = "mux\<lparr>m_next_frag_pts := 0\<rparr>" and ?t = "m_tracks mux ! i"
  have I: "tracks_idle ?mux" using assms(1) by (simp add: tracks_idle_def)
  have id: "deque_wf (t_packets ?t)" "t_fragment_samples ?t = []" using assms by (auto simp: tracks_idle_def)
  have "\<exists>off. m_tracks (final_mux env mux s) ! i = flushed ?mux off ?t"
    using flush_tracks [OF I, of i env "length (file_content s)"] assms(2) by (auto simp: final_mux_def)
  then have "pending (m_tracks (final_mux env mux s) ! i) = drop (length (butlast (pending ?t))) (pending ?t)"
    using flushed_fields(9) [OF id, of ?mux] ready_of_final [of ?mux ?t] by auto
  moreover have "drop (length (butlast xs)) xs = (if xs = [] then [] else [last xs])" for xs :: "encoder_packet list"
    by (cases xs rule: rev_cases) simp_all
  ultimately show ?thesis by simp
qed


section \<open>The example, finalised\<close>

lemma audio_final_ready:
  assumes "m_tracks audio_mux2 = [t]" and "pending t = audio_packets"
  shows "ready_of (audio_mux2\<lparr>m_next_frag_pts := 0\<rparr>) t = [audio_packet [1, 2, 3] 0]"
  using assms by (simp add: ready_of_final audio_packets_def)

lemma audio_fragmented_size: "length (fragmented_file sample_env audio_mux2 sample_file) < 2 ^ 32"
proof -
  obtain t where t: "m_tracks audio_mux2 = [t]" "pending t = audio_packets" "t_encoder t = Some flac_encoder" "table_size t = 0"
    using audio_mux2_fields(1) by blast
  let ?m = "audio_mux2\<lparr>m_next_frag_pts := 0\<rparr>"
  have "tracks_idle ?m" using recorded_inv [OF audio_recorded] by (simp add: mux_inv_def tracks_idle_def)
  then have "length (flush_bytes sample_env ?m 0) \<le> 120 + moov_size sample_env ?m +
      sum_list (map (\<lambda>t. 90 + 8 * length (ready_of ?m t) + length (payload (ready_of ?m t))) (m_tracks ?m))"
    by (intro length_flush_bytes_le) (simp_all add: audio_mux2_fields)
  moreover have "moov_size sample_env ?m < 10000"
    by (simp add: moov_size_def t audio_mux2_fields track_size_def extra_size_def label_size_def flac_encoder_def
        obs_encoder_get_extra_data_def encoder_tool_def sample_env_def)
  ultimately show ?thesis
    by (simp add: fragmented_file_def sample_file_ok t audio_final_ready [OF t(1,2)] payload_def audio_packet_def)
qed


lemma process_sample_table_size:
  assumes "t_sample_size t = 0"
  shows "table_size (process_sample mux p n t) \<le> table_size t + 24"
proof -
  let ?t = "process_sample mux p n t"
  have "length (add_delta ds x k) \<le> length ds + 1" for ds x k by (auto simp: add_delta_def)
  then have "length (t_deltas ?t) \<le> length (t_deltas t) + 1" unfolding process_sample_fields(4) [OF assms] .
  moreover have "length (add_offset os x) \<le> length os + 1" for os x by (auto simp: add_offset_def)
  then have "length (t_offsets ?t) \<le> length (t_offsets t) + 1"
  proof (cases "t_type t = TRACK_VIDEO")
    case True
    show ?thesis unfolding process_sample_video(1) [OF assms True] by fact
  qed (simp add: process_sample_def Let_def)
  moreover have "length (t_sync_samples ?t) \<le> length (t_sync_samples t) + 1"
    "length (t_sample_sizes ?t) \<le> length (t_sample_sizes t) + 1"
    by (simp_all add: process_sample_def Let_def)
  ultimately show ?thesis by (simp add: table_size_def process_sample_keeps)
qed

lemma flushed_table_size:
  assumes "deque_wf (t_packets t)" and "t_fragment_samples t = []" and "t_sample_size t = 0"
  shows "table_size (flushed mux off t) \<le> table_size t + 24 * length (ready_of mux t) + 20"
proof -
  have fold: "table_size (fold (\<lambda>(p, n). process_sample mux p n) ps t) \<le> table_size t + 24 * length ps"
    if "t_sample_size t = 0" for ps t
    using that
  proof (induction ps arbitrary: t)
    case (Cons x ps)
    obtain p n where x: "x = (p, n)" by (cases x)
    show ?case
      using Cons.IH [of "process_sample mux p n t"] process_sample_table_size [OF Cons.prems, of mux p n] Cons.prems
      by (simp add: x process_sample_keeps)
  qed simp
  have "table_size (processed mux t) \<le> table_size t + 24 * length (ready_of mux t)"
    using fold [OF assms(3), of "zip (ready_of mux t) (tl (pending t))"] zip_ready(1) [of mux t]
    unfolding processed_def processed_fold [OF assms(1)] by simp
  moreover have "table_size (written_track off t') \<le> table_size t' + 20" for t'
    by (simp add: table_size_def written_track_def Let_def)
  ultimately show ?thesis unfolding flushed_def by (meson add_le_mono1 order_trans)
qed


end
