(* ===== verification/Buffered_File.thy ===== *)
theory Buffered_File
  imports Deque Serializer
begin

text \<open>
  The buffered file serializer of \<open>libobs/util/buffered-file-serializer.c\<close>: the writer copies
  its data, in pieces behind a header with their target position, into a byte queue, and an
  I/O thread collects the pieces into chunks and writes them to the file.  The two threads
  share the queue under \<open>data_mutex\<close> and wake each other by two automatic events of
  \<open>libobs/util/threading-posix.c\<close>.

  A section of code that holds the mutex is one step; between two such sections the threads
  interleave freely.  Each side keeps its place in the code as a program counter.  Sizes are
  natural numbers (\<open>size_t\<close> values that count bytes of memory never reach the width of the
  type); file positions are 64-bit words.  \<open>bmalloc\<close> ends the process when it fails, so the
  test of its result is never true.
\<close>

section \<open>Automatic events\<close>

record os_event =
  signalled :: bool
  manual :: bool

definition os_event_init :: "bool \<Rightarrow> os_event" where
  "os_event_init m = \<lparr>signalled = False, manual = m\<rparr>"

text \<open>\<open>None\<close>: the caller is blocked until the event is signalled.\<close>

definition os_event_wait :: "os_event \<Rightarrow> os_event option" where
  "os_event_wait e =
    (if \<not> signalled e then None
     else Some (if \<not> manual e then e\<lparr>signalled := False\<rparr> else e))"

definition os_event_signal :: "os_event \<Rightarrow> os_event" where
  "os_event_signal e = e\<lparr>signalled := True\<rparr>"

definition os_event_reset :: "os_event \<Rightarrow> os_event" where
  "os_event_reset e = e\<lparr>signalled := False\<rparr>"

section \<open>The state\<close>

record io_header =
  seek_offset :: u64
  data_length :: u64

text \<open>The header as it lies in memory on a little-endian machine.\<close>

definition header_bytes :: "io_header \<Rightarrow> byte list" where
  "header_bytes h = le64 (seek_offset h) @ le64 (data_length h)"

definition from_le :: "byte list \<Rightarrow> nat" where
  "from_le bs = from_be (rev bs)"

definition bytes_header :: "byte list \<Rightarrow> io_header" where
  "bytes_header bs = \<lparr>seek_offset = word_of_nat (from_le (take 8 bs)),
     data_length = word_of_nat (from_le (drop 8 bs))\<rparr>"

definition sizeof_header :: nat where
  "sizeof_header = 16"

record io_buffer =
  io_active :: bool
  shutdown_requested :: bool
  output_error :: bool
  buffer_space_available_event :: os_event
  new_data_available_event :: os_event
  output_file :: c_file
  output_open :: bool
  io_data :: "byte deque"
  next_pos :: u64
  buffer_size :: nat
  chunk_size :: nat

text \<open>The variables of the I/O thread; \<open>chunk_used\<close> is the length of \<open>io_chunk\<close>.\<close>

record io_locals =
  io_chunk :: "byte list"
  shutting_down :: bool
  want_seek :: bool
  force_flush_chunk :: bool
  current_seek_position :: u64
  next_seek_position :: u64

definition io_start :: io_locals where
  "io_start = \<lparr>io_chunk = [], shutting_down = False, want_seek = False, force_flush_chunk = False,
     current_seek_position = 0, next_seek_position = 0\<rparr>"

section \<open>The I/O thread\<close>

text \<open>
  One round of the loop that moves writes from the queue to the chunk: whether the loop goes
  on, the queue and the variables.  \<open>None\<close>: memory of the queue that was never written is read.
\<close>

definition peek_header :: "byte deque \<Rightarrow> io_header option" where
  "peek_header dq = map_option bytes_header (those (deque_peek_front dq sizeof_header))"

definition take_write :: "io_header \<Rightarrow> byte deque \<Rightarrow> io_locals \<Rightarrow> (byte deque \<times> io_locals) option" where
  "take_write h dq l =
    (let dq1 = snd (deque_pop_front dq sizeof_header);
         (out, dq2) = deque_pop_front dq1 (unat (data_length h))
     in case those out of
          None \<Rightarrow> None
        | Some d \<Rightarrow>
            Some (dq2, l\<lparr>io_chunk := io_chunk l @ d,
                         current_seek_position := current_seek_position l + data_length h\<rparr>))"

definition fetch_one :: "nat \<Rightarrow> byte deque \<Rightarrow> io_locals \<Rightarrow> (bool \<times> byte deque \<times> io_locals) option" where
  "fetch_one csize dq l =
    (if dq_size dq = 0 then Some (False, dq, l)
     else case peek_header dq of
       None \<Rightarrow> None
     | Some h \<Rightarrow>
         if seek_offset h \<noteq> current_seek_position l \<and> (io_chunk l \<noteq> [] \<or> want_seek l)
         then Some (False, dq, l\<lparr>force_flush_chunk := True\<rparr>)
         else
           (let l1 = (if seek_offset h \<noteq> current_seek_position l
                      then l\<lparr>want_seek := True, next_seek_position := seek_offset h,
                             current_seek_position := seek_offset h\<rparr>
                      else l)
            in if unat (data_length h) + length (io_chunk l1) > csize
               then Some (False, dq, l1\<lparr>force_flush_chunk := True\<rparr>)
               else map_option (Pair True) (take_write h dq l1)))"

lemma fetch_one_less: "fetch_one csize dq l = Some (True, dq', l') \<Longrightarrow> dq_size dq' < dq_size dq"
  by (auto simp: fetch_one_def take_write_def deque_pop_front_def Let_def sizeof_header_def
      split: if_splits option.splits)

function fetch :: "nat \<Rightarrow> byte deque \<Rightarrow> io_locals \<Rightarrow> (byte deque \<times> io_locals) option" where
  "fetch csize dq l =
    (case fetch_one csize dq l of
       None \<Rightarrow> None
     | Some (cont, dq', l') \<Rightarrow> if cont then fetch csize dq' l' else Some (dq', l'))"
  by pat_completeness auto
termination
  by (relation "measure (\<lambda>(csize, dq, l). dq_size dq)") (auto dest: fetch_one_less)

declare fetch.simps [simp del]

text \<open>The section under the mutex: whether the thread goes on to write, or leaves the inner loop.\<close>

definition io_section :: "io_buffer \<Rightarrow> io_locals \<Rightarrow> (bool \<times> io_buffer \<times> io_locals) option" where
  "io_section io l0 =
    (let l = l0\<lparr>shutting_down := shutdown_requested io\<rparr>
     in case fetch (chunk_size io) (io_data io) l of
          None \<Rightarrow> None
        | Some (dq, l1) \<Rightarrow>
            (let io1 = io\<lparr>io_data := dq, buffer_space_available_event :=
                          os_event_signal (buffer_space_available_event io)\<rparr>
             in if \<not> force_flush_chunk l1 \<and>
                   (io_chunk l1 = [] \<or> length (io_chunk l1) < 65536 \<and> \<not> shutting_down l1)
                then Some (False, io1\<lparr>new_data_available_event :=
                            os_event_reset (new_data_available_event io1)\<rparr>, l1)
                else Some (True, io1, l1)))"

text \<open>
  Outside the mutex: seek and write.  \<open>k\<close> is the number of bytes the system lets \<open>fwrite\<close>
  write; a short write ends the thread with an error.
\<close>

definition io_seek :: "io_buffer \<Rightarrow> io_locals \<Rightarrow> io_buffer \<times> io_locals" where
  "io_seek io l =
    (if want_seek l
     then (io\<lparr>output_file := snd (os_fseeki64 (output_file io) (sint (next_seek_position l)) SERIALIZE_SEEK_START)\<rparr>,
           l\<lparr>current_seek_position := next_seek_position l + word_of_nat (length (io_chunk l)),
             want_seek := False\<rparr>)
     else (io, l))"

definition io_write :: "nat \<Rightarrow> io_buffer \<Rightarrow> io_locals \<Rightarrow> bool \<times> io_buffer \<times> io_locals" where
  "io_write k io0 l0 =
    (let (io, l) = io_seek io0 l0
     in if want_seek l0 \<and> io_chunk l = [] then (True, io, l\<lparr>force_flush_chunk := False\<rparr>)
        else
          (let (bytes_written, f) = fwrite (output_file io) (take k (io_chunk l))
           in if bytes_written \<noteq> length (io_chunk l)
              then (False, io\<lparr>output_file := f, output_error := True\<rparr>, l)
              else (True, io\<lparr>output_file := f\<rparr>, l\<lparr>io_chunk := [], force_flush_chunk := False\<rparr>)))"

text \<open>The end of the thread.\<close>

definition io_exit :: "io_buffer \<Rightarrow> io_buffer" where
  "io_exit io = io\<lparr>output_open := False\<rparr>"

section \<open>The serializer\<close>

definition file_output_seek :: "io_buffer \<Rightarrow> int \<Rightarrow> serialize_seek_type \<Rightarrow> int \<times> io_buffer" where
  "file_output_seek io offset seek_type =
    (if output_error io then (-1, io)
     else
       (let p = (case seek_type of
                   SERIALIZE_SEEK_START \<Rightarrow> word_of_int offset
                 | SERIALIZE_SEEK_CURRENT \<Rightarrow> next_pos io + word_of_int offset
                 | SERIALIZE_SEEK_END \<Rightarrow> next_pos io - word_of_int offset)
        in (sint p, io\<lparr>next_pos := p\<rparr>)))"

definition file_output_get_pos :: "io_buffer \<Rightarrow> int" where
  "file_output_get_pos io = (if output_error io then -1 else sint (next_pos io))"

text \<open>
  The two loops of \<open>file_output_write\<close>: \<open>push_chunks\<close> is the inner one, with the bytes that
  remain to be written, and \<open>write_section\<close> the section under the mutex, which either pushes
  what fits or has to wait for space.
\<close>

definition push_chunk :: "nat \<Rightarrow> byte list \<Rightarrow> io_buffer \<Rightarrow> io_buffer" where
  "push_chunk n rest io =
    (let header = \<lparr>seek_offset = next_pos io, data_length = word_of_nat n\<rparr>;
         dq1 = deque_push_back (io_data io) (header_bytes header);
         dq2 = deque_push_back dq1 (take n rest)
     in io\<lparr>io_data := dq2, next_pos := next_pos io + word_of_nat n\<rparr>)"

fun push_chunks :: "nat \<Rightarrow> nat \<Rightarrow> byte list \<Rightarrow> io_buffer \<Rightarrow> byte list \<times> io_buffer" where
  "push_chunks 0 n rest io = (rest, io)"
| "push_chunks (Suc num_chunks) n rest io =
    (if rest = [] then (rest, io)
     else
       (let rest' = drop n rest
        in push_chunks num_chunks (min (length rest') (chunk_size io)) rest' (push_chunk n rest io)))"

definition free_space :: "io_buffer \<Rightarrow> nat" where
  "free_space io = max (dq_capacity (io_data io)) (buffer_size io) - dq_size (io_data io)"

definition write_section :: "byte list \<Rightarrow> io_buffer \<Rightarrow> bool \<times> byte list \<times> io_buffer" where
  "write_section rest io =
    (let next_chunk_size = min (length rest) (chunk_size io)
     in if free_space io < next_chunk_size + sizeof_header
        then (False, rest, io\<lparr>buffer_space_available_event :=
                              os_event_reset (buffer_space_available_event io)\<rparr>)
        else
          (let num_chunks = free_space io div (next_chunk_size + sizeof_header);
               (rest', io') = push_chunks num_chunks next_chunk_size rest io
           in (True, rest', io'\<lparr>new_data_available_event :=
                 os_event_signal (new_data_available_event io')\<rparr>)))"

definition DEFAULT_BUF_SIZE :: nat where
  "DEFAULT_BUF_SIZE = 256 * 1048576"

definition DEFAULT_CHUNK_SIZE :: nat where
  "DEFAULT_CHUNK_SIZE = 1048576"

text \<open>\<open>None\<close>: the file cannot be opened.\<close>

definition buffered_file_serializer_init :: "bool \<Rightarrow> nat \<Rightarrow> nat \<Rightarrow> io_buffer option" where
  "buffered_file_serializer_init can_open max_bufsize csize =
    (if \<not> can_open then None
     else Some \<lparr>io_active = True, shutdown_requested = False, output_error = False,
       buffer_space_available_event = os_event_init False,
       new_data_available_event = os_event_init False,
       output_file = \<lparr>f_bytes = [], f_pos = 0\<rparr>, output_open = True,
       io_data = deque_reserve deque_init 1048576, next_pos = 0,
       buffer_size = (if max_bufsize \<noteq> 0 then max_bufsize else DEFAULT_BUF_SIZE),
       chunk_size = (if csize \<noteq> 0 then csize else DEFAULT_CHUNK_SIZE)\<rparr>)"

definition buffered_file_serializer_init_defaults :: "bool \<Rightarrow> io_buffer option" where
  "buffered_file_serializer_init_defaults can_open = buffered_file_serializer_init can_open 0 0"

section \<open>The two threads\<close>

datatype thread_pc = T_Wait | T_Fetch | T_Write | T_Done

text \<open>
  The places of the client: between two calls; in \<open>file_output_write\<close> before the test of
  \<open>output_error\<close>, before the section under the mutex and at the wait for space, with the bytes
  that remain; in \<open>buffered_file_serializer_free\<close> before the signal and at the join; after it.
\<close>

datatype client_pc = C_Idle | C_Check "byte list" | C_Push "byte list" | C_Wait "byte list"
  | C_Signal | C_Join | C_Freed

text \<open>
  \<open>b_ret\<close> is what the last call returned and \<open>b_buf_size\<close> the size of the write under way.
  \<open>b_calls\<close> records, for the theorems only, the position and the data of every write call.
\<close>

record bstate =
  b_io :: io_buffer
  b_lo :: io_locals
  b_tpc :: thread_pc
  b_cpc :: client_pc
  b_ret :: int
  b_buf_size :: nat
  b_calls :: "(nat \<times> byte list) list"

definition thread_section :: "bstate \<Rightarrow> bstate option" where
  "thread_section s =
    (case io_section (b_io s) (b_lo s) of
       None \<Rightarrow> None
     | Some (go, io, l) \<Rightarrow>
         Some (if go then s\<lparr>b_io := io, b_lo := l, b_tpc := T_Write\<rparr>
               else if shutting_down l then s\<lparr>b_io := io_exit io, b_lo := l, b_tpc := T_Done\<rparr>
               else s\<lparr>b_io := io, b_lo := l, b_tpc := T_Wait\<rparr>))"

definition thread_write :: "nat \<Rightarrow> bstate \<Rightarrow> bstate" where
  "thread_write k s =
    (let (ok, io, l) = io_write k (b_io s) (b_lo s)
     in if ok then s\<lparr>b_io := io, b_lo := l, b_tpc := T_Fetch\<rparr>
        else s\<lparr>b_io := io_exit io, b_lo := l, b_tpc := T_Done\<rparr>)"

definition write_call :: "byte list \<Rightarrow> bstate \<Rightarrow> bstate" where
  "write_call d s =
    (if d = [] then s\<lparr>b_ret := 0\<rparr>
     else s\<lparr>b_cpc := C_Check d, b_buf_size := length d, b_calls := b_calls s @ [(unat (next_pos (b_io s)), d)]\<rparr>)"

definition write_check :: "byte list \<Rightarrow> bstate \<Rightarrow> bstate" where
  "write_check rest s =
    (if output_error (b_io s) then s\<lparr>b_cpc := C_Idle, b_ret := 0\<rparr> else s\<lparr>b_cpc := C_Push rest\<rparr>)"

definition write_push :: "byte list \<Rightarrow> bstate \<Rightarrow> bstate" where
  "write_push rest s =
    (let (pushed, rest', io) = write_section rest (b_io s)
     in if \<not> pushed then s\<lparr>b_io := io, b_cpc := C_Wait rest'\<rparr>
        else if rest' = [] then s\<lparr>b_io := io, b_cpc := C_Idle, b_ret := int (b_buf_size s - length rest')\<rparr>
        else s\<lparr>b_io := io, b_cpc := C_Check rest'\<rparr>)"

text \<open>The three parts of \<open>buffered_file_serializer_free\<close>; the join waits for the thread to end.\<close>

definition free_call :: "bstate \<Rightarrow> bstate" where
  "free_call s =
    (if io_active (b_io s) then s\<lparr>b_io := (b_io s)\<lparr>shutdown_requested := True\<rparr>, b_cpc := C_Signal\<rparr>
     else s\<lparr>b_cpc := C_Freed\<rparr>)"

definition free_signal :: "bstate \<Rightarrow> bstate" where
  "free_signal s = s\<lparr>b_io := (b_io s)\<lparr>new_data_available_event :=
     os_event_signal (new_data_available_event (b_io s))\<rparr>, b_cpc := C_Join\<rparr>"

definition free_join :: "bstate \<Rightarrow> bstate" where
  "free_join s = s\<lparr>b_io := (b_io s)\<lparr>io_data := deque_free (io_data (b_io s))\<rparr>, b_cpc := C_Freed\<rparr>"

inductive bstep :: "bstate \<Rightarrow> bstate \<Rightarrow> bool" where
  t_wake: "b_tpc s = T_Wait \<Longrightarrow> os_event_wait (new_data_available_event (b_io s)) = Some e \<Longrightarrow>
    bstep s (s\<lparr>b_io := (b_io s)\<lparr>new_data_available_event := e\<rparr>, b_tpc := T_Fetch\<rparr>)"
| t_section: "b_tpc s = T_Fetch \<Longrightarrow> thread_section s = Some s' \<Longrightarrow> bstep s s'"
| t_write: "b_tpc s = T_Write \<Longrightarrow> bstep s (thread_write k s)"
| c_seek: "b_cpc s = C_Idle \<Longrightarrow> file_output_seek (b_io s) offset seek_type = (r, io) \<Longrightarrow>
    bstep s (s\<lparr>b_io := io, b_ret := r\<rparr>)"
| c_get_pos: "b_cpc s = C_Idle \<Longrightarrow> bstep s (s\<lparr>b_ret := file_output_get_pos (b_io s)\<rparr>)"
| c_write: "b_cpc s = C_Idle \<Longrightarrow> bstep s (write_call d s)"
| c_check: "b_cpc s = C_Check rest \<Longrightarrow> bstep s (write_check rest s)"
| c_push: "b_cpc s = C_Push rest \<Longrightarrow> bstep s (write_push rest s)"
| c_wait: "b_cpc s = C_Wait rest \<Longrightarrow> os_event_wait (buffer_space_available_event (b_io s)) = Some e \<Longrightarrow>
    bstep s (s\<lparr>b_io := (b_io s)\<lparr>buffer_space_available_event := e\<rparr>, b_cpc := C_Check rest\<rparr>)"
| c_free: "b_cpc s = C_Idle \<Longrightarrow> bstep s (free_call s)"
| c_signal: "b_cpc s = C_Signal \<Longrightarrow> bstep s (free_signal s)"
| c_join: "b_cpc s = C_Join \<Longrightarrow> b_tpc s = T_Done \<Longrightarrow> bstep s (free_join s)"

definition binit :: "io_buffer \<Rightarrow> bstate" where
  "binit io = \<lparr>b_io = io, b_lo = io_start, b_tpc = T_Wait, b_cpc = C_Idle, b_ret = 0, b_buf_size = 0, b_calls = []\<rparr>"

text \<open>The states of a serializer that was opened with the given buffer and chunk sizes.\<close>

definition reachable :: "nat \<Rightarrow> nat \<Rightarrow> bstate \<Rightarrow> bool" where
  "reachable max_bufsize csize s \<longleftrightarrow>
    (\<exists>io. buffered_file_serializer_init True max_bufsize csize = Some io \<and> bstep\<^sup>*\<^sup>* (binit io) s)"

end
