(* ===== verification/Buffered_Write.thy ===== *)
theory Buffered_Write
  imports Buffered_File
begin

text \<open>
  What the buffered file serializer writes: the queue as a list of writes, the invariant of the
  two threads, and the theorem that a file closed without an error holds exactly what the same
  write calls leave in an unbuffered file, under every interleaving.
\<close>

section \<open>The queue as a list of writes\<close>

type_synonym file_write = "u64 \<times> byte list"

definition rec_bytes :: "file_write \<Rightarrow> byte list" where
  "rec_bytes r = header_bytes \<lparr>seek_offset = fst r, data_length = word_of_nat (length (snd r))\<rparr> @ snd r"

definition recs_bytes :: "file_write list \<Rightarrow> byte list" where
  "recs_bytes rs = concat (map rec_bytes rs)"

definition recs_ok :: "nat \<Rightarrow> file_write list \<Rightarrow> bool" where
  "recs_ok n rs \<longleftrightarrow> (\<forall>r \<in> set rs. snd r \<noteq> [] \<and> length (snd r) \<le> n)"

definition queue_holds :: "nat \<Rightarrow> byte deque \<Rightarrow> file_write list \<Rightarrow> bool" where
  "queue_holds n dq rs \<longleftrightarrow> deque_rep dq (recs_bytes rs) \<and> recs_ok n rs"

lemma recs_ok_simps [simp]:
  "recs_ok n []"
  "recs_ok n (r # rs) \<longleftrightarrow> snd r \<noteq> [] \<and> length (snd r) \<le> n \<and> recs_ok n rs"
  "recs_ok n (rs @ rs') \<longleftrightarrow> recs_ok n rs \<and> recs_ok n rs'"
  by (auto simp: recs_ok_def)

lemma recs_bytes_simps [simp]:
  "recs_bytes [] = []"
  "recs_bytes (r # rs) = rec_bytes r @ recs_bytes rs"
  "recs_bytes (rs @ rs') = recs_bytes rs @ recs_bytes rs'"
  by (simp_all add: recs_bytes_def)

lemma length_header_bytes [simp]: "length (header_bytes h) = 16"
  by (simp add: header_bytes_def)

lemma length_rec_bytes [simp]: "length (rec_bytes r) = 16 + length (snd r)"
  by (simp add: rec_bytes_def)

lemma from_le_le64: "from_le (le64 w) = unat w"
proof -
  have "rev (le64 w) = be64 w"
    by (simp add: le64_def le32_def le16_def be64_def be32_def be16_def)
  then show ?thesis by (simp add: from_le_def from_be_be64)
qed

lemma bytes_header_bytes [simp]: "bytes_header (header_bytes h) = h"
  by (cases h) (simp add: bytes_header_def header_bytes_def from_le_le64)

lemma those_map_Some [simp]: "those (map Some xs) = Some xs"
  by (induction xs) simp_all

lemma queue_empty: "queue_holds n dq rs \<Longrightarrow> dq_size dq = 0 \<longleftrightarrow> rs = []"
  by (cases rs) (auto simp: queue_holds_def deque_rep_def)

lemma peek_header_queue:
  assumes "queue_holds n dq (r # rs)"
  shows "peek_header dq = Some \<lparr>seek_offset = fst r, data_length = word_of_nat (length (snd r))\<rparr>"
proof -
  have "deque_peek_front dq sizeof_header = map Some (take 16 (recs_bytes (r # rs)))"
    using peek_front_rep [of dq "recs_bytes (r # rs)" 16] assms by (simp add: queue_holds_def sizeof_header_def)
  then show ?thesis by (simp add: peek_header_def rec_bytes_def)
qed

lemma pop_front_capacity [simp]: "dq_capacity (snd (deque_pop_front dq n)) = dq_capacity dq"
  by (simp add: deque_pop_front_def Let_def)

lemma take_write_queue:
  assumes "queue_holds n dq (r # rs)" "n < 2 ^ 64"
    and h: "h = \<lparr>seek_offset = fst r, data_length = word_of_nat (length (snd r))\<rparr>"
  shows "\<exists>dq'. take_write h dq l = Some (dq', l\<lparr>io_chunk := io_chunk l @ snd r,
      current_seek_position := current_seek_position l + word_of_nat (length (snd r))\<rparr>) \<and>
    queue_holds n dq' rs \<and> dq_capacity dq' = dq_capacity dq"
proof -
  let ?dq1 = "snd (deque_pop_front dq 16)" and ?k = "length (snd r)"
  have k: "unat (word_of_nat ?k :: u64) = ?k"
    using assms(1, 2) by (simp add: queue_holds_def unat_of_nat)
  have "deque_rep dq (header_bytes h @ snd r @ recs_bytes rs)"
    using assms(1) by (simp add: queue_holds_def rec_bytes_def h)
  then have "deque_rep ?dq1 (snd r @ recs_bytes rs)" using pop_front_rep(2) [of dq _ 16] by fastforce
  then have "fst (deque_pop_front ?dq1 ?k) = map Some (snd r)"
    "deque_rep (snd (deque_pop_front ?dq1 ?k)) (recs_bytes rs)"
    using pop_front_rep [of ?dq1 "snd r @ recs_bytes rs" ?k] by simp_all
  then show ?thesis
    using assms(1) k by (auto simp: take_write_def sizeof_header_def Let_def h case_prod_unfold queue_holds_def)
qed

text \<open>The fetch loop on the list.\<close>

definition plan_seek :: "u64 \<Rightarrow> io_locals \<Rightarrow> io_locals" where
  "plan_seek p l =
    (if p \<noteq> current_seek_position l
     then l\<lparr>want_seek := True, next_seek_position := p, current_seek_position := p\<rparr> else l)"

definition grow_chunk :: "byte list \<Rightarrow> io_locals \<Rightarrow> io_locals" where
  "grow_chunk d l = l\<lparr>io_chunk := io_chunk l @ d,
     current_seek_position := current_seek_position l + word_of_nat (length d)\<rparr>"

fun list_fetch :: "nat \<Rightarrow> file_write list \<Rightarrow> io_locals \<Rightarrow> file_write list \<times> io_locals" where
  "list_fetch n [] l = ([], l)"
| "list_fetch n ((p, d) # rs) l =
    (if p \<noteq> current_seek_position l \<and> (io_chunk l \<noteq> [] \<or> want_seek l)
     then ((p, d) # rs, l\<lparr>force_flush_chunk := True\<rparr>)
     else if length d + length (io_chunk l) > n
     then ((p, d) # rs, (plan_seek p l)\<lparr>force_flush_chunk := True\<rparr>)
     else list_fetch n rs (grow_chunk d (plan_seek p l)))"

lemma plan_seek_chunk [simp]:
  "io_chunk (plan_seek p l) = io_chunk l" "shutting_down (plan_seek p l) = shutting_down l"
  "force_flush_chunk (plan_seek p l) = force_flush_chunk l" "current_seek_position (plan_seek p l) = p"
  by (simp_all add: plan_seek_def)

lemma grow_chunk_fields [simp]:
  "io_chunk (grow_chunk d l) = io_chunk l @ d" "shutting_down (grow_chunk d l) = shutting_down l"
  "force_flush_chunk (grow_chunk d l) = force_flush_chunk l" "want_seek (grow_chunk d l) = want_seek l"
  "next_seek_position (grow_chunk d l) = next_seek_position l"
  "current_seek_position (grow_chunk d l) = current_seek_position l + word_of_nat (length d)"
  by (simp_all add: grow_chunk_def)

lemma fetch_refines:
  assumes "queue_holds n dq rs" "n < 2 ^ 64"
  shows "\<exists>dq'. fetch n dq l = Some (dq', snd (list_fetch n rs l)) \<and>
    queue_holds n dq' (fst (list_fetch n rs l)) \<and> dq_capacity dq' = dq_capacity dq"
  using assms
proof (induction n rs l arbitrary: dq rule: list_fetch.induct)
  case (1 n l)
  then show ?case using queue_empty [of n dq "[]"] by (subst fetch.simps) (simp add: fetch_one_def)
next
  case (2 n p d rs l)
  let ?h = "\<lparr>seek_offset = p, data_length = word_of_nat (length d)\<rparr>"
  have ne: "dq_size dq \<noteq> 0" using queue_empty [OF 2(2)] by simp
  have h: "peek_header dq = Some ?h" using peek_header_queue [OF 2(2)] by simp
  have k: "unat (word_of_nat (length d) :: u64) = length d"
    using 2(2, 3) by (simp add: queue_holds_def unat_of_nat)
  show ?case
  proof (cases "p \<noteq> current_seek_position l \<and> (io_chunk l \<noteq> [] \<or> want_seek l) \<or> length d + length (io_chunk l) > n")
    case True
    then show ?thesis
      using ne h k 2(2) by (subst fetch.simps) (auto simp: fetch_one_def Let_def plan_seek_def)
  next
    case False
    from take_write_queue [OF 2(2, 3), of ?h "plan_seek p l"] obtain dq' where
      dq': "take_write ?h dq (plan_seek p l) = Some (dq', grow_chunk d (plan_seek p l))"
        "queue_holds n dq' rs" "dq_capacity dq' = dq_capacity dq"
      by (auto simp: grow_chunk_def)
    have "fetch_one n dq l = Some (True, dq', grow_chunk d (plan_seek p l))"
      using False ne h k dq'(1) by (auto simp: fetch_one_def plan_seek_def Let_def)
    then have eq: "fetch n dq l = fetch n dq' (grow_chunk d (plan_seek p l))" by (subst fetch.simps) simp
    have "\<not> (p \<noteq> current_seek_position l \<and> (io_chunk l \<noteq> [] \<or> want_seek l))"
      "\<not> n < length d + length (io_chunk l)" using False by auto
    then show ?thesis using 2(1) [OF _ _ dq'(2) 2(3)] False dq'(3) unfolding eq by auto
  qed
qed

text \<open>What a fetch does to the thread's variables, and what is left of the queue.\<close>

definition locals_ok :: "nat \<Rightarrow> io_locals \<Rightarrow> bool" where
  "locals_ok n l \<longleftrightarrow> length (io_chunk l) \<le> n \<and> (want_seek l \<longrightarrow> io_chunk l \<noteq> [])"

lemma list_fetch_locals:
  assumes "locals_ok n l" "recs_ok n rs" "\<not> force_flush_chunk l"
  shows "locals_ok n (snd (list_fetch n rs l)) \<and> recs_ok n (fst (list_fetch n rs l)) \<and>
    shutting_down (snd (list_fetch n rs l)) = shutting_down l \<and>
    (force_flush_chunk (snd (list_fetch n rs l)) \<longleftrightarrow> fst (list_fetch n rs l) \<noteq> []) \<and>
    (force_flush_chunk (snd (list_fetch n rs l)) \<longrightarrow> io_chunk (snd (list_fetch n rs l)) \<noteq> [])"
  using assms
proof (induction n rs l rule: list_fetch.induct)
  case (2 n p d rs l)
  show ?case
  proof (cases "p \<noteq> current_seek_position l \<and> (io_chunk l \<noteq> [] \<or> want_seek l) \<or> length d + length (io_chunk l) > n")
    case True
    then show ?thesis using 2(2-4) by (auto simp: locals_ok_def plan_seek_def)
  next
    case False
    have "locals_ok n (grow_chunk d (plan_seek p l))" using False 2(2, 3) by (auto simp: locals_ok_def)
    then show ?thesis using 2(1) 2(3, 4) False by auto
  qed
qed simp

lemma list_fetch_shrinks: "length (recs_bytes (fst (list_fetch n rs l))) \<le> length (recs_bytes rs)"
  by (induction n rs l rule: list_fetch.induct) auto

lemma list_fetch_progress:
  assumes "rs \<noteq> []" "io_chunk l = []" "\<not> want_seek l" "recs_ok n rs"
  shows "length (recs_bytes (fst (list_fetch n rs l))) < length (recs_bytes rs)"
proof -
  obtain p d rs' where rs: "rs = (p, d) # rs'" using assms(1) by (cases rs) auto
  show ?thesis
    using list_fetch_shrinks [of n rs' "grow_chunk d (plan_seek p l)"] assms(2-4) unfolding rs
    by auto
qed

section \<open>Writes to a file\<close>

text \<open>\<open>fwrite\<close> at a position of a file, which fills a gap before it with zero bytes.\<close>

definition patch :: "byte list \<Rightarrow> nat \<Rightarrow> byte list \<Rightarrow> byte list" where
  "patch c p d = (if d = [] then c else write_at (c @ replicate (p - length c) 0) p d)"

definition apply_writes :: "byte list \<Rightarrow> (nat \<times> byte list) list \<Rightarrow> byte list" where
  "apply_writes c ws = foldl (\<lambda>c w. patch c (fst w) (snd w)) c ws"

definition rec_writes :: "file_write list \<Rightarrow> (nat \<times> byte list) list" where
  "rec_writes rs = map (\<lambda>r. (unat (fst r), snd r)) rs"

lemma patch_Nil [simp]: "patch c p [] = c"
  by (simp add: patch_def)

lemma apply_writes_simps [simp]:
  "apply_writes c [] = c"
  "apply_writes c (w # ws) = apply_writes (patch c (fst w) (snd w)) ws"
  "apply_writes c (ws @ ws') = apply_writes (apply_writes c ws) ws'"
  by (simp_all add: apply_writes_def)

lemma rec_writes_simps [simp]:
  "rec_writes [] = []" "rec_writes (r # rs) = (unat (fst r), snd r) # rec_writes rs"
  "rec_writes (rs @ rs') = rec_writes rs @ rec_writes rs'"
  by (simp_all add: rec_writes_def)

lemma fwrite_patch: "fwrite f d = (length d, f\<lparr>f_bytes := patch (f_bytes f) (f_pos f) d, f_pos := f_pos f + length d\<rparr>)"
  by (simp add: fwrite_def patch_def)

lemma length_patch: "d \<noteq> [] \<Longrightarrow> length (patch c p d) = max (length c) (p + length d)"
  by (auto simp: patch_def write_at_def)

lemma patch_append: "patch (patch c p d) (p + length d) e = patch c p (d @ e)"
proof (cases "d = [] \<or> e = []")
  case False
  then have "length (patch c p d) \<ge> p + length d" by (simp add: length_patch)
  then have "patch (patch c p d) (p + length d) e = write_at (patch c p d) (p + length d) e"
    using False by (simp add: patch_def)
  also have "\<dots> = write_at (write_at (c @ replicate (p - length c) 0) p d) (p + length d) e"
    using False by (simp add: patch_def)
  also have "\<dots> = patch c p (d @ e)"
    using False by (subst write_at_append) (auto simp: patch_def)
  finally show ?thesis .
qed auto

section \<open>What the thread still has to write\<close>

definition in_range :: "nat \<times> byte list \<Rightarrow> bool" where
  "in_range w \<longleftrightarrow> fst w + length (snd w) < 2 ^ 63"

definition writes_in_range :: "(nat \<times> byte list) list \<Rightarrow> bool" where
  "writes_in_range ws \<longleftrightarrow> (\<forall>w \<in> set ws. in_range w)"

lemma writes_in_range_simps [simp]:
  "writes_in_range []" "writes_in_range (w # ws) \<longleftrightarrow> in_range w \<and> writes_in_range ws"
  "writes_in_range (ws @ ws') \<longleftrightarrow> writes_in_range ws \<and> writes_in_range ws'"
  by (auto simp: writes_in_range_def)

text \<open>Where the chunk goes, and the file once the chunk is written.\<close>

definition chunk_base :: "c_file \<Rightarrow> io_locals \<Rightarrow> nat" where
  "chunk_base f l = (if want_seek l then unat (next_seek_position l) else f_pos f)"

definition chunk_written :: "c_file \<Rightarrow> io_locals \<Rightarrow> byte list" where
  "chunk_written f l = patch (f_bytes f) (chunk_base f l) (io_chunk l)"

definition position_ok :: "c_file \<Rightarrow> io_locals \<Rightarrow> bool" where
  "position_ok f l \<longleftrightarrow> unat (current_seek_position l) = chunk_base f l + length (io_chunk l) \<and>
     chunk_base f l + length (io_chunk l) < 2 ^ 63"

lemma grow_position_ok:
  assumes "unat p = chunk_base f l + length (io_chunk l)" "unat p + length d < 2 ^ 63"
    "current_seek_position l = p"
  shows "position_ok f (grow_chunk d l)"
proof -
  have "unat (p + word_of_nat (length d)) = unat p + length d"
    using assms(2) by (subst unat_add_lem [THEN iffD1]) (simp_all add: unat_of_nat)
  moreover have "chunk_base f (grow_chunk d l) = chunk_base f l" by (simp add: chunk_base_def)
  ultimately show ?thesis using assms by (simp add: position_ok_def)
qed

lemma fetch_grows:
  assumes "position_ok f l" "locals_ok n l" "unat p + length d < 2 ^ 63"
    and "\<not> (p \<noteq> current_seek_position l \<and> (io_chunk l \<noteq> [] \<or> want_seek l))"
  shows "position_ok f (grow_chunk d (plan_seek p l)) \<and>
    chunk_written f (grow_chunk d (plan_seek p l)) = patch (chunk_written f l) (unat p) d"
proof (cases "p = current_seek_position l")
  case True
  have b: "unat p = chunk_base f l + length (io_chunk l)" using assms(1) True by (simp add: position_ok_def)
  have l: "plan_seek p l = l" using True by (simp add: plan_seek_def)
  have "chunk_written f (grow_chunk d l) = patch (chunk_written f l) (chunk_base f l + length (io_chunk l)) d"
    by (simp add: chunk_written_def patch_append) (simp add: chunk_base_def)
  then show ?thesis using grow_position_ok [OF b assms(3) True [symmetric]] unfolding l b by blast
next
  case False
  then have e: "io_chunk l = []" "\<not> want_seek l" using assms(4) by auto
  then have "position_ok f (grow_chunk d (plan_seek p l))"
    using False assms(3) by (intro grow_position_ok) (auto simp: plan_seek_def chunk_base_def)
  then show ?thesis using e False by (simp add: chunk_written_def chunk_base_def plan_seek_def)
qed

lemma list_fetch_content:
  assumes "position_ok f l" "locals_ok n l" "recs_ok n rs" "writes_in_range (rec_writes rs)"
  shows "position_ok f (snd (list_fetch n rs l)) \<and> writes_in_range (rec_writes (fst (list_fetch n rs l))) \<and>
    apply_writes (chunk_written f (snd (list_fetch n rs l))) (rec_writes (fst (list_fetch n rs l))) =
    apply_writes (chunk_written f l) (rec_writes rs)"
  using assms
proof (induction n rs l rule: list_fetch.induct)
  case (2 n p d rs l)
  have forced: "position_ok f (l\<lparr>force_flush_chunk := True\<rparr>) = position_ok f l"
    "chunk_written f (l\<lparr>force_flush_chunk := True\<rparr>) = chunk_written f l" for l
    by (simp_all add: position_ok_def chunk_written_def chunk_base_def)
  consider "p \<noteq> current_seek_position l \<and> (io_chunk l \<noteq> [] \<or> want_seek l)"
    | "\<not> (p \<noteq> current_seek_position l \<and> (io_chunk l \<noteq> [] \<or> want_seek l))" "length d + length (io_chunk l) > n"
    | "\<not> (p \<noteq> current_seek_position l \<and> (io_chunk l \<noteq> [] \<or> want_seek l))" "\<not> length d + length (io_chunk l) > n"
    by blast
  then show ?case
  proof cases
    case 1
    then show ?thesis using 2(2, 5) by (simp add: forced)
  next
    case c: 2
    then have "p = current_seek_position l" using 2(4) by auto
    then show ?thesis using c 2(2, 5) by (simp add: forced plan_seek_def)
  next
    case 3
    have "unat p + length d < 2 ^ 63" using 2(5) by (simp add: in_range_def)
    note g = fetch_grows [OF 2(2, 3) this 3(1)]
    have "locals_ok n (grow_chunk d (plan_seek p l))" using 3(2) 2(3, 4) by (auto simp: locals_ok_def)
    then show ?thesis using 2(1) [OF 3] g 2(4, 5) 3 by auto
  qed
qed simp

section \<open>What the client puts into the queue\<close>

fun pieces :: "nat \<Rightarrow> nat \<Rightarrow> u64 \<Rightarrow> byte list \<Rightarrow> file_write list" where
  "pieces 0 n p rest = []"
| "pieces (Suc k) n p rest =
    (if rest = [] then []
     else (let m = min (length rest) n in (p, take m rest) # pieces k n (p + word_of_nat m) (drop m rest)))"

lemma push_back_capacity:
  "dq_capacity (deque_push_back dq ys) =
    (if dq_size dq + length ys \<le> dq_capacity dq then dq_capacity dq
     else max (dq_size dq + length ys) (2 * dq_capacity dq))"
  by (auto simp: deque_push_back_def deque_ensure_capacity_def deque_reorder_data_def Let_def max_def)

lemma push_back_size [simp]: "dq_size (deque_push_back dq ys) = dq_size dq + length ys"
  by (simp add: deque_push_back_def deque_ensure_capacity_def deque_reorder_data_def Let_def)

text \<open>
  A queue that holds no more than the larger of its capacity and the buffer size grows to less
  than twice the buffer size.
\<close>

definition capacity_ok :: "nat \<Rightarrow> byte deque \<Rightarrow> bool" where
  "capacity_ok buf dq \<longleftrightarrow> dq_capacity dq \<le> max 1048576 (2 * buf)"

lemma push_back_capacity_ok:
  assumes "capacity_ok buf dq" "dq_size dq + length ys \<le> max (dq_capacity dq) buf"
  shows "capacity_ok buf (deque_push_back dq ys)" "dq_capacity dq \<le> dq_capacity (deque_push_back dq ys)"
  using assms by (auto simp: capacity_ok_def push_back_capacity max_def split: if_splits)

lemma push_chunk_fields [simp]:
  "chunk_size (push_chunk n rest io) = chunk_size io" "buffer_size (push_chunk n rest io) = buffer_size io"
  "next_pos (push_chunk n rest io) = next_pos io + word_of_nat n"
  by (simp_all add: push_chunk_def Let_def)

lemma push_chunk_queue:
  assumes "queue_holds cs (io_data io) rs" "rest \<noteq> []" "n = min (length rest) cs" "0 < cs"
    "capacity_ok (buffer_size io) (io_data io)"
    "dq_size (io_data io) + n + 16 \<le> max (dq_capacity (io_data io)) (buffer_size io)"
  shows "queue_holds cs (io_data (push_chunk n rest io)) (rs @ [(next_pos io, take n rest)])"
    "capacity_ok (buffer_size io) (io_data (push_chunk n rest io))"
    "dq_capacity (io_data io) \<le> dq_capacity (io_data (push_chunk n rest io))"
    "dq_size (io_data (push_chunk n rest io)) = dq_size (io_data io) + n + 16"
proof -
  have n: "length (take n rest) = n" using assms(3) by simp
  let ?h = "header_bytes \<lparr>seek_offset = next_pos io, data_length = word_of_nat n\<rparr>"
  let ?dq1 = "deque_push_back (io_data io) ?h"
  have io: "io_data (push_chunk n rest io) = deque_push_back ?dq1 (take n rest)"
    by (simp add: push_chunk_def Let_def)
  have "deque_rep (deque_push_back ?dq1 (take n rest)) ((recs_bytes rs @ ?h) @ take n rest)"
    using assms(1) by (intro push_back_rep) (simp add: queue_holds_def)
  then show "queue_holds cs (io_data (push_chunk n rest io)) (rs @ [(next_pos io, take n rest)])"
    using assms(1-4) n unfolding io by (simp add: queue_holds_def rec_bytes_def)
  have c1: "capacity_ok (buffer_size io) ?dq1" "dq_capacity (io_data io) \<le> dq_capacity ?dq1"
    using push_back_capacity_ok [OF assms(5), of ?h] assms(6) by simp_all
  have "dq_size ?dq1 + length (take n rest) \<le> max (dq_capacity ?dq1) (buffer_size io)"
    using c1(2) assms(6) n by simp
  note c2 = push_back_capacity_ok [OF c1(1) this]
  show "capacity_ok (buffer_size io) (io_data (push_chunk n rest io))"
    "dq_capacity (io_data io) \<le> dq_capacity (io_data (push_chunk n rest io))"
    unfolding io using c2 c1(2) by auto
  show "dq_size (io_data (push_chunk n rest io)) = dq_size (io_data io) + n + 16"
    unfolding io using n by simp
qed

lemma push_chunks_queue:
  assumes "queue_holds (chunk_size io) (io_data io) rs" "n = min (length rest) (chunk_size io)"
    "0 < chunk_size io" "capacity_ok (buffer_size io) (io_data io)"
    "dq_size (io_data io) + k * (n + 16) \<le> max (dq_capacity (io_data io)) (buffer_size io)"
  shows "\<exists>dq. push_chunks k n rest io = (drop (k * chunk_size io) rest,
      io\<lparr>io_data := dq, next_pos := next_pos io + word_of_nat (min (k * chunk_size io) (length rest))\<rparr>) \<and>
    queue_holds (chunk_size io) dq (rs @ pieces k (chunk_size io) (next_pos io) rest) \<and>
    capacity_ok (buffer_size io) dq"
  using assms
proof (induction k arbitrary: n rest io rs)
  case 0
  then show ?case by (intro exI [of _ "io_data io"]) simp
next
  case (Suc k)
  show ?case
  proof (cases "rest = []")
    case True
    then show ?thesis using Suc.prems by (intro exI [of _ "io_data io"]) simp
  next
    case False
    let ?cs = "chunk_size io" and ?io = "push_chunk n rest io" and ?rest = "drop n rest"
    let ?m = "min (length ?rest) ?cs"
    note q = push_chunk_queue [OF Suc.prems(1) False Suc.prems(2, 3, 4)]
    have room: "dq_size (io_data io) + n + 16 \<le> max (dq_capacity (io_data io)) (buffer_size io)"
      using Suc.prems(5) by simp
    have le: "k * (?m + 16) \<le> k * (n + 16)" using Suc.prems(2) by (intro mult_le_mono) auto
    have "dq_size (io_data io) + n + 16 + k * (n + 16) \<le> max (dq_capacity (io_data io)) (buffer_size io)"
      using Suc.prems(5) by simp
    then have "dq_size (io_data ?io) + k * (?m + 16) \<le> max (dq_capacity (io_data ?io)) (buffer_size io)"
      using le q(3, 4) [OF room] by linarith
    then obtain dq where IH: "push_chunks k ?m ?rest ?io = (drop (k * ?cs) ?rest,
        ?io\<lparr>io_data := dq, next_pos := next_pos ?io + word_of_nat (min (k * ?cs) (length ?rest))\<rparr>)"
      "queue_holds ?cs dq ((rs @ [(next_pos io, take n rest)]) @ pieces k ?cs (next_pos ?io) ?rest)"
      "capacity_ok (buffer_size io) dq"
      using Suc.IH [of ?io "rs @ [(next_pos io, take n rest)]" ?m ?rest] q(1, 2) [OF room] Suc.prems(3) by auto
    have d: "drop (k * ?cs) ?rest = drop (Suc k * ?cs) rest"
      "n + min (k * ?cs) (length ?rest) = min (Suc k * ?cs) (length rest)"
      using Suc.prems(2) by (auto simp: min_def add.commute)
    have "next_pos ?io + word_of_nat (min (k * ?cs) (length ?rest)) =
      next_pos io + word_of_nat (min (Suc k * ?cs) (length rest))"
      using arg_cong [OF d(2), of "word_of_nat :: nat \<Rightarrow> u64"] by simp
    then have "?io\<lparr>io_data := dq, next_pos := next_pos ?io + word_of_nat (min (k * ?cs) (length ?rest))\<rparr> =
      io\<lparr>io_data := dq, next_pos := next_pos io + word_of_nat (min (Suc k * ?cs) (length rest))\<rparr>"
      by (simp add: push_chunk_def Let_def)
    then show ?thesis
      using IH False d(1) Suc.prems(2) by (intro exI [of _ dq]) (simp add: Let_def)
  qed
qed

lemma pieces_Nil: "pieces k n p [] = []"
  by (cases k) simp_all

lemma pieces_content:
  assumes "unat p + length rest < 2 ^ 63"
  shows "writes_in_range (rec_writes (pieces k n p rest)) \<and>
    patch (apply_writes c (rec_writes (pieces k n p rest)))
      (unat (p + word_of_nat (min (k * n) (length rest)) :: u64)) (drop (k * n) rest) = patch c (unat p) rest"
  using assms
proof (induction k arbitrary: c p rest)
  case (Suc k)
  show ?case
  proof (cases "rest = []")
    case False
    let ?m = "min (length rest) n"
    let ?rest = "drop ?m rest"
    have u: "unat (p + word_of_nat ?m) = unat p + ?m"
      using Suc.prems by (subst unat_add_lem [THEN iffD1]) (simp_all add: unat_of_nat)
    have e: "drop (k * n) ?rest = drop (Suc k * n) rest"
      "?m + min (k * n) (length ?rest) = min (Suc k * n) (length rest)" by (auto simp: min_def add.commute)
    have pe: "p + word_of_nat ?m + word_of_nat (min (k * n) (length ?rest)) =
      p + (word_of_nat (min (Suc k * n) (length rest)) :: u64)"
      using arg_cong [OF e(2), of "word_of_nat :: nat \<Rightarrow> u64"] by (simp add: add.assoc)
    have "unat (p + word_of_nat ?m) + length ?rest < 2 ^ 63" using u Suc.prems by simp
    note IH = Suc.IH [OF this, of "patch c (unat p) (take ?m rest)", unfolded pe e(1)]
    then have "patch (apply_writes (patch c (unat p) (take ?m rest)) (rec_writes (pieces k n (p + word_of_nat ?m) ?rest)))
        (unat (p + word_of_nat (min (Suc k * n) (length rest)) :: u64)) (drop (Suc k * n) rest) =
      patch (patch c (unat p) (take ?m rest)) (unat p + ?m) ?rest"
      and "writes_in_range (rec_writes (pieces k n (p + word_of_nat ?m) ?rest))"
      unfolding u by blast+
    moreover have "patch (patch c (unat p) (take ?m rest)) (unat p + ?m) ?rest = patch c (unat p) rest"
      using patch_append [of c "unat p" "take ?m rest" ?rest] by simp
    ultimately show ?thesis using False Suc.prems by (simp add: Let_def in_range_def)
  qed (simp add: pieces_Nil)
qed simp

section \<open>The invariant\<close>

definition buffer_ok :: "file_write list \<Rightarrow> io_buffer \<Rightarrow> bool" where
  "buffer_ok rs io \<longleftrightarrow> queue_holds (chunk_size io) (io_data io) rs \<and> 0 < chunk_size io \<and> chunk_size io < 2 ^ 64 \<and>
     capacity_ok (buffer_size io) (io_data io) \<and> io_active io \<and>
     \<not> manual (new_data_available_event io) \<and> \<not> manual (buffer_space_available_event io)"

definition thread_ok :: "file_write list \<Rightarrow> io_buffer \<Rightarrow> io_locals \<Rightarrow> thread_pc \<Rightarrow> bool" where
  "thread_ok rs io l t \<longleftrightarrow> locals_ok (chunk_size io) l \<and>
     (t = T_Wait \<or> t = T_Fetch \<longrightarrow> \<not> force_flush_chunk l) \<and> (t = T_Write \<longrightarrow> io_chunk l \<noteq> []) \<and>
     (t = T_Wait \<and> rs \<noteq> [] \<longrightarrow> signalled (new_data_available_event io)) \<and>
     (t = T_Done \<and> \<not> output_error io \<longrightarrow> shutting_down l \<and> rs = [] \<and> io_chunk l = []) \<and>
     (output_error io \<longrightarrow> t = T_Done) \<and> (output_open io \<longleftrightarrow> t \<noteq> T_Done) \<and>
     (shutting_down l \<longrightarrow> shutdown_requested io)"

primrec remaining :: "client_pc \<Rightarrow> byte list" where
  "remaining C_Idle = []"
| "remaining (C_Check rest) = rest"
| "remaining (C_Push rest) = rest"
| "remaining (C_Wait rest) = rest"
| "remaining C_Signal = []"
| "remaining C_Join = []"
| "remaining C_Freed = []"

definition in_write :: "client_pc \<Rightarrow> bool" where
  "in_write c \<longleftrightarrow> (\<exists>rest. c = C_Check rest \<or> c = C_Push rest \<or> c = C_Wait rest)"

lemma in_write_simps [simp]:
  "\<not> in_write C_Idle" "in_write (C_Check rest)" "in_write (C_Push rest)" "in_write (C_Wait rest)"
  "\<not> in_write C_Signal" "\<not> in_write C_Join" "\<not> in_write C_Freed"
  by (simp_all add: in_write_def)

definition client_ok :: "file_write list \<Rightarrow> io_buffer \<Rightarrow> thread_pc \<Rightarrow> client_pc \<Rightarrow> bool" where
  "client_ok rs io t c \<longleftrightarrow>
     (shutdown_requested io \<longleftrightarrow> c = C_Signal \<or> c = C_Join \<or> c = C_Freed) \<and>
     (c = C_Join \<and> t = T_Wait \<longrightarrow> signalled (new_data_available_event io)) \<and>
     (c = C_Freed \<longrightarrow> t = T_Done) \<and> (in_write c \<longrightarrow> remaining c \<noteq> []) \<and>
     ((\<exists>rest. c = C_Wait rest) \<and> \<not> signalled (buffer_space_available_event io) \<and>
        chunk_size io + 16 \<le> buffer_size io \<longrightarrow> rs \<noteq> [])"

text \<open>The file with everything that is still on its way is the file of the write calls.\<close>

definition content_ok :: "file_write list \<Rightarrow> bstate \<Rightarrow> bool" where
  "content_ok rs s \<longleftrightarrow>
     (writes_in_range (b_calls s) \<and> \<not> output_error (b_io s) \<longrightarrow>
        writes_in_range (rec_writes rs) \<and> position_ok (output_file (b_io s)) (b_lo s) \<and>
        (in_write (b_cpc s) \<longrightarrow> unat (next_pos (b_io s)) + length (remaining (b_cpc s)) < 2 ^ 63) \<and>
        patch (apply_writes (chunk_written (output_file (b_io s)) (b_lo s)) (rec_writes rs))
          (unat (next_pos (b_io s))) (remaining (b_cpc s)) = apply_writes [] (b_calls s))"

definition binv :: "file_write list \<Rightarrow> bstate \<Rightarrow> bool" where
  "binv rs s \<longleftrightarrow> buffer_ok rs (b_io s) \<and> thread_ok rs (b_io s) (b_lo s) (b_tpc s) \<and>
     client_ok rs (b_io s) (b_tpc s) (b_cpc s) \<and> content_ok rs s"

lemmas binv_defs = binv_def buffer_ok_def thread_ok_def client_ok_def content_ok_def

lemma os_event_simps [simp]:
  "signalled (os_event_signal e)" "\<not> signalled (os_event_reset e)"
  "manual (os_event_signal e) = manual e" "manual (os_event_reset e) = manual e"
  by (simp_all add: os_event_signal_def os_event_reset_def)

lemma os_event_wait_Some:
  "os_event_wait e = Some e' \<longleftrightarrow> signalled e \<and> e' = (if manual e then e else e\<lparr>signalled := False\<rparr>)"
  by (auto simp: os_event_wait_def)

text \<open>The section of the I/O thread on the list of writes.\<close>

definition section_fetch :: "file_write list \<Rightarrow> bstate \<Rightarrow> file_write list \<times> io_locals" where
  "section_fetch rs s =
    list_fetch (chunk_size (b_io s)) rs ((b_lo s)\<lparr>shutting_down := shutdown_requested (b_io s)\<rparr>)"

definition section_stop :: "io_locals \<Rightarrow> bool" where
  "section_stop l \<longleftrightarrow> \<not> force_flush_chunk l \<and>
    (io_chunk l = [] \<or> length (io_chunk l) < 65536 \<and> \<not> shutting_down l)"

lemma io_section_refines:
  assumes "buffer_ok rs (b_io s)" "section_fetch rs s = (rs', l')"
  shows "\<exists>dq. io_section (b_io s) (b_lo s) = Some (\<not> section_stop l', (b_io s)\<lparr>io_data := dq,
      buffer_space_available_event := os_event_signal (buffer_space_available_event (b_io s)),
      new_data_available_event :=
        (if section_stop l' then os_event_reset (new_data_available_event (b_io s))
         else new_data_available_event (b_io s))\<rparr>, l') \<and>
    queue_holds (chunk_size (b_io s)) dq rs' \<and> dq_capacity dq = dq_capacity (io_data (b_io s))"
proof -
  let ?l = "(b_lo s)\<lparr>shutting_down := shutdown_requested (b_io s)\<rparr>"
  from fetch_refines [of "chunk_size (b_io s)" "io_data (b_io s)" rs ?l] assms
  obtain dq where "fetch (chunk_size (b_io s)) (io_data (b_io s)) ?l = Some (dq, l')"
    "queue_holds (chunk_size (b_io s)) dq rs'" "dq_capacity dq = dq_capacity (io_data (b_io s))"
    by (auto simp: buffer_ok_def section_fetch_def)
  then show ?thesis by (auto simp: io_section_def Let_def section_stop_def)
qed

lemma chunk_written_shutting [simp]:
  "chunk_written f (l\<lparr>shutting_down := b\<rparr>) = chunk_written f l"
  "position_ok f (l\<lparr>shutting_down := b\<rparr>) = position_ok f l"
  "locals_ok n (l\<lparr>shutting_down := b\<rparr>) = locals_ok n l"
  by (simp_all add: chunk_written_def position_ok_def chunk_base_def locals_ok_def)

lemma section_fetch_locals:
  assumes "binv rs s" "b_tpc s = T_Fetch" "section_fetch rs s = (rs', l')"
  shows "locals_ok (chunk_size (b_io s)) l'" "shutting_down l' = shutdown_requested (b_io s)"
    "force_flush_chunk l' \<longleftrightarrow> rs' \<noteq> []" "force_flush_chunk l' \<Longrightarrow> io_chunk l' \<noteq> []"
    "io_chunk (b_lo s) = [] \<Longrightarrow> rs \<noteq> [] \<Longrightarrow> length (recs_bytes rs') < length (recs_bytes rs)"
    "length (recs_bytes rs') \<le> length (recs_bytes rs)"
proof -
  let ?l = "(b_lo s)\<lparr>shutting_down := shutdown_requested (b_io s)\<rparr>" and ?n = "chunk_size (b_io s)"
  have ok: "locals_ok ?n ?l" "recs_ok ?n rs" "\<not> force_flush_chunk ?l"
    using assms(1, 2) by (simp_all add: binv_def thread_ok_def buffer_ok_def queue_holds_def)
  have eq: "rs' = fst (list_fetch ?n rs ?l)" "l' = snd (list_fetch ?n rs ?l)"
    using assms(3) by (simp_all add: section_fetch_def)
  show "locals_ok ?n l'" "shutting_down l' = shutdown_requested (b_io s)"
    "force_flush_chunk l' \<longleftrightarrow> rs' \<noteq> []" "force_flush_chunk l' \<Longrightarrow> io_chunk l' \<noteq> []"
    using list_fetch_locals [OF ok] unfolding eq by simp_all
  show "length (recs_bytes rs') \<le> length (recs_bytes rs)" unfolding eq by (rule list_fetch_shrinks)
  show "io_chunk (b_lo s) = [] \<Longrightarrow> rs \<noteq> [] \<Longrightarrow> length (recs_bytes rs') < length (recs_bytes rs)"
    unfolding eq using ok by (intro list_fetch_progress) (auto simp: locals_ok_def)
qed

lemma thread_section_eq:
  assumes "binv rs s" "section_fetch rs s = (rs', l')"
  obtains io where "queue_holds (chunk_size (b_io s)) (io_data io) rs'"
    "dq_capacity (io_data io) = dq_capacity (io_data (b_io s))"
    "io = (b_io s)\<lparr>io_data := io_data io,
      buffer_space_available_event := os_event_signal (buffer_space_available_event (b_io s)),
      new_data_available_event :=
        (if section_stop l' then os_event_reset (new_data_available_event (b_io s))
         else new_data_available_event (b_io s))\<rparr>"
    "thread_section s = Some (if \<not> section_stop l' then s\<lparr>b_io := io, b_lo := l', b_tpc := T_Write\<rparr>
       else if shutting_down l' then s\<lparr>b_io := io_exit io, b_lo := l', b_tpc := T_Done\<rparr>
       else s\<lparr>b_io := io, b_lo := l', b_tpc := T_Wait\<rparr>)"
proof -
  have "buffer_ok rs (b_io s)" using assms(1) by (simp add: binv_def)
  from io_section_refines [OF this assms(2)] obtain dq where
    dq: "io_section (b_io s) (b_lo s) = Some (\<not> section_stop l', (b_io s)\<lparr>io_data := dq,
      buffer_space_available_event := os_event_signal (buffer_space_available_event (b_io s)),
      new_data_available_event :=
        (if section_stop l' then os_event_reset (new_data_available_event (b_io s))
         else new_data_available_event (b_io s))\<rparr>, l')" (is "_ = Some (_, ?io, _)")
    "queue_holds (chunk_size (b_io s)) dq rs'" "dq_capacity dq = dq_capacity (io_data (b_io s))"
    by blast
  show thesis by (rule that [of ?io]) (use dq in \<open>simp_all add: thread_section_def\<close>)
qed

lemma section_content:
  assumes "binv rs s" "b_tpc s = T_Fetch" "section_fetch rs s = (rs', l')"
    "writes_in_range (b_calls s)" "\<not> output_error (b_io s)"
  shows "position_ok (output_file (b_io s)) l' \<and> writes_in_range (rec_writes rs') \<and>
    apply_writes (chunk_written (output_file (b_io s)) l') (rec_writes rs') =
    apply_writes (chunk_written (output_file (b_io s)) (b_lo s)) (rec_writes rs)"
proof -
  let ?l = "(b_lo s)\<lparr>shutting_down := shutdown_requested (b_io s)\<rparr>" and ?n = "chunk_size (b_io s)"
  have "position_ok (output_file (b_io s)) ?l" "locals_ok ?n ?l" "recs_ok ?n rs" "writes_in_range (rec_writes rs)"
    using assms by (simp_all add: binv_def thread_ok_def buffer_ok_def queue_holds_def content_ok_def)
  from list_fetch_content [OF this] show ?thesis using assms(3) by (simp add: section_fetch_def)
qed

lemma thread_section_inv:
  assumes inv: "binv rs s" and t: "b_tpc s = T_Fetch" and s': "thread_section s = Some s'"
  shows "\<exists>rs'. binv rs' s'"
proof -
  obtain rs' l' where r: "section_fetch rs s = (rs', l')" by fastforce
  note l = section_fetch_locals [OF inv t r]
  have e: "\<not> output_error (b_io s)" "output_open (b_io s)" using inv t by (auto simp: binv_def thread_ok_def)
  from thread_section_eq [OF inv r] obtain io where
    q: "queue_holds (chunk_size (b_io s)) (io_data io) rs'"
    "dq_capacity (io_data io) = dq_capacity (io_data (b_io s))"
    and io: "io = (b_io s)\<lparr>io_data := io_data io,
      buffer_space_available_event := os_event_signal (buffer_space_available_event (b_io s)),
      new_data_available_event :=
        (if section_stop l' then os_event_reset (new_data_available_event (b_io s))
         else new_data_available_event (b_io s))\<rparr>"
    and ts: "thread_section s = Some (if \<not> section_stop l' then s\<lparr>b_io := io, b_lo := l', b_tpc := T_Write\<rparr>
       else if shutting_down l' then s\<lparr>b_io := io_exit io, b_lo := l', b_tpc := T_Done\<rparr>
       else s\<lparr>b_io := io, b_lo := l', b_tpc := T_Wait\<rparr>)"
    by blast
  have f: "chunk_size io = chunk_size (b_io s)" "buffer_size io = buffer_size (b_io s)"
    "output_error io = output_error (b_io s)" "shutdown_requested io = shutdown_requested (b_io s)"
    "output_file io = output_file (b_io s)" "next_pos io = next_pos (b_io s)" "io_active io = io_active (b_io s)"
    "output_open io = output_open (b_io s)" "signalled (buffer_space_available_event io)"
    "manual (new_data_available_event io) = manual (new_data_available_event (b_io s))"
    "manual (buffer_space_available_event io) = manual (buffer_space_available_event (b_io s))"
    by (subst io, simp)+
  have b: "buffer_ok rs' io" "buffer_ok rs' (io_exit io)"
    using inv q f by (simp_all add: binv_def buffer_ok_def capacity_ok_def io_exit_def)
  have "content_ok rs' (s\<lparr>b_io := io', b_lo := l', b_tpc := t'\<rparr>)"
    if "output_file io' = output_file (b_io s)" "next_pos io' = next_pos (b_io s)" "output_error io' = output_error (b_io s)"
    for io' t'
  proof (cases "writes_in_range (b_calls s)")
    case True
    then show ?thesis using section_content [OF inv t r True e(1)] inv that by (simp add: binv_def content_ok_def)
  qed (simp add: content_ok_def)
  from this [of io] this [of "io_exit io"]
  have c: "content_ok rs' (s\<lparr>b_io := io, b_lo := l', b_tpc := t'\<rparr>)"
    "content_ok rs' (s\<lparr>b_io := io_exit io, b_lo := l', b_tpc := t'\<rparr>)" for t'
    using f by (simp_all add: io_exit_def)
  have cl: "client_ok rs (b_io s) T_Fetch (b_cpc s)" using inv t by (simp add: binv_def)
  have s'_eq: "s' = (if \<not> section_stop l' then s\<lparr>b_io := io, b_lo := l', b_tpc := T_Write\<rparr>
       else if shutting_down l' then s\<lparr>b_io := io_exit io, b_lo := l', b_tpc := T_Done\<rparr>
       else s\<lparr>b_io := io, b_lo := l', b_tpc := T_Wait\<rparr>)"
    using s' unfolding ts by (rule option.inject [THEN iffD1, THEN sym])
  consider (go) "\<not> section_stop l'" | (quit) "section_stop l'" "shutting_down l'"
    | (sleep) "section_stop l'" "\<not> shutting_down l'" by blast
  then have "binv rs' s'"
  proof cases
    case go
    then have "thread_ok rs' io l' T_Write" using l e f by (auto simp: thread_ok_def section_stop_def)
    moreover have "client_ok rs' io T_Write (b_cpc s)" using cl f by (auto simp: client_ok_def)
    ultimately show ?thesis unfolding s'_eq using b c go by (simp add: binv_def)
  next
    case quit
    then have "thread_ok rs' (io_exit io) l' T_Done"
      using l e f by (auto simp: thread_ok_def section_stop_def io_exit_def)
    moreover have "client_ok rs' (io_exit io) T_Done (b_cpc s)" using cl f by (auto simp: client_ok_def io_exit_def)
    ultimately show ?thesis unfolding s'_eq using b c quit by (simp add: binv_def)
  next
    case sleep
    then have "thread_ok rs' io l' T_Wait" using l e f by (auto simp: thread_ok_def section_stop_def)
    moreover have "client_ok rs' io T_Wait (b_cpc s)" using cl f sleep l(2) by (auto simp: client_ok_def)
    ultimately show ?thesis unfolding s'_eq using b c sleep by (simp add: binv_def)
  qed
  then show ?thesis ..
qed

text \<open>Writing the chunk: either everything is written, or the thread ends with the error set.\<close>

definition seeked :: "c_file \<Rightarrow> io_locals \<Rightarrow> c_file" where
  "seeked f l =
    (if want_seek l then snd (os_fseeki64 f (sint (next_seek_position l)) SERIALIZE_SEEK_START) else f)"

definition flushed :: "io_locals \<Rightarrow> io_locals" where
  "flushed l = (if want_seek l
     then l\<lparr>current_seek_position := next_seek_position l + word_of_nat (length (io_chunk l)), want_seek := False,
            io_chunk := [], force_flush_chunk := False\<rparr>
     else l\<lparr>io_chunk := [], force_flush_chunk := False\<rparr>)"

lemma io_write_full:
  assumes "io_chunk l \<noteq> []" "length (io_chunk l) \<le> k"
  shows "io_write k io l = (True, io\<lparr>output_file :=
     (seeked (output_file io) l)\<lparr>f_bytes := patch (f_bytes (seeked (output_file io) l)) (f_pos (seeked (output_file io) l)) (io_chunk l),
        f_pos := f_pos (seeked (output_file io) l) + length (io_chunk l)\<rparr>\<rparr>, flushed l)"
  using assms by (auto simp: io_write_def io_seek_def fwrite_patch seeked_def flushed_def Let_def)

lemma io_write_short:
  assumes "k < length (io_chunk l)"
  obtains f l' where "io_write k io l = (False, io\<lparr>output_file := f, output_error := True\<rparr>, l')"
    "io_chunk l' = io_chunk l" "\<not> want_seek l'" "shutting_down l' = shutting_down l"
proof -
  have "io_chunk l \<noteq> []" "min (length (io_chunk l)) k \<noteq> length (io_chunk l)" using assms by auto
  then show thesis
    by (intro that [of "snd (fwrite (seeked (output_file io) l) (take k (io_chunk l)))" "snd (io_seek io l)"])
      (auto simp: io_write_def io_seek_def fwrite_patch seeked_def Let_def)
qed

lemma seeked_pos:
  assumes "chunk_base f l < 2 ^ 63"
  shows "f_pos (seeked f l) = chunk_base f l" "f_bytes (seeked f l) = f_bytes f"
proof -
  have "sint w = int (unat w)" if "unat w < 2 ^ 63" for w :: u64
  proof -
    have u: "uint w = int (unat w)" by simp
    then have "signed_take_bit 63 (uint w) = uint w"
      using that by (intro signed_take_bit_int_eq_self) (simp_all del: of_nat_unat)
    then show ?thesis using u by (simp add: sint_uint del: of_nat_unat)
  qed
  then show "f_pos (seeked f l) = chunk_base f l" "f_bytes (seeked f l) = f_bytes f"
    using assms by (auto simp: seeked_def chunk_base_def os_fseeki64_def)
qed

lemma flushed_position:
  assumes "position_ok f l"
  shows "unat (current_seek_position (flushed l)) = chunk_base f l + length (io_chunk l)"
proof (cases "want_seek l")
  case True
  have "unat (next_seek_position l + word_of_nat (length (io_chunk l))) = unat (next_seek_position l) + length (io_chunk l)"
    using True assms by (subst unat_add_lem [THEN iffD1]) (simp_all add: unat_of_nat position_ok_def chunk_base_def)
  then show ?thesis using True by (simp add: flushed_def chunk_base_def)
next
  case False
  then show ?thesis using assms by (simp add: flushed_def position_ok_def)
qed

lemma flushed_locals_fields [simp]:
  "io_chunk (flushed l) = []" "\<not> want_seek (flushed l)" "\<not> force_flush_chunk (flushed l)"
  "shutting_down (flushed l) = shutting_down l"
  by (simp_all add: flushed_def)

lemma full_write_content:
  assumes "position_ok f l"
  defines "g \<equiv> (seeked f l)\<lparr>f_bytes := patch (f_bytes (seeked f l)) (f_pos (seeked f l)) (io_chunk l),
        f_pos := f_pos (seeked f l) + length (io_chunk l)\<rparr>"
  shows "position_ok g (flushed l)" "chunk_written g (flushed l) = chunk_written f l"
proof -
  have "chunk_base f l < 2 ^ 63" using assms(1) by (simp add: position_ok_def)
  then have g: "f_pos g = chunk_base f l + length (io_chunk l)" "f_bytes g = chunk_written f l"
    using seeked_pos [of f l] by (simp_all add: g_def chunk_written_def)
  moreover have "chunk_base g (flushed l) = f_pos g" by (simp add: chunk_base_def)
  ultimately show "position_ok g (flushed l)" "chunk_written g (flushed l) = chunk_written f l"
    using flushed_position [OF assms(1)] assms(1) by (simp_all add: position_ok_def chunk_written_def)
qed

lemma thread_write_inv:
  assumes inv: "binv rs s" and t: "b_tpc s = T_Write"
  shows "binv rs (thread_write k s)"
proof -
  have e: "\<not> output_error (b_io s)" "output_open (b_io s)" and ne: "io_chunk (b_lo s) \<noteq> []"
    using inv t by (auto simp: binv_def thread_ok_def)
  have th: "thread_ok rs (b_io s) (b_lo s) T_Write" and cl: "client_ok rs (b_io s) T_Write (b_cpc s)"
    and b: "buffer_ok rs (b_io s)" using inv t by (simp_all add: binv_def)
  show ?thesis
  proof (cases "length (io_chunk (b_lo s)) \<le> k")
    case True
    note w = io_write_full [OF ne True, of "b_io s"]
    have "content_ok rs (thread_write k s)"
      using inv e full_write_content [of "output_file (b_io s)" "b_lo s"]
      by (auto simp: thread_write_def w content_ok_def binv_def)
    then show ?thesis using b th cl e
      by (auto simp: thread_write_def w binv_def buffer_ok_def thread_ok_def client_ok_def locals_ok_def)
  next
    case False
    then obtain f l' where w: "io_write k (b_io s) (b_lo s) = (False, (b_io s)\<lparr>output_file := f, output_error := True\<rparr>, l')"
      "io_chunk l' = io_chunk (b_lo s)" "\<not> want_seek l'" "shutting_down l' = shutting_down (b_lo s)"
      using io_write_short [of k "b_lo s" "b_io s"] by (metis linorder_not_less)
    show ?thesis using b th cl e w(2-4)
      by (auto simp: thread_write_def w(1) binv_def buffer_ok_def thread_ok_def client_ok_def locals_ok_def
          io_exit_def content_ok_def)
  qed
qed

text \<open>The steps of the client.\<close>

lemma write_call_inv:
  assumes "binv rs s" "b_cpc s = C_Idle"
  shows "binv rs (write_call d s)"
  using assms by (auto simp: write_call_def binv_defs in_range_def)

lemma write_check_inv:
  assumes "binv rs s" "b_cpc s = C_Check rest"
  shows "binv rs (write_check rest s)"
  using assms by (auto simp: write_check_def binv_defs)

lemma write_section_room:
  assumes "buffer_ok rs io" "rest \<noteq> []"
    "min (length rest) (chunk_size io) + 16 \<le> free_space io"
  obtains k dq where "0 < k" "k = free_space io div (min (length rest) (chunk_size io) + 16)"
    "write_section rest io = (True, drop (k * chunk_size io) rest,
      io\<lparr>io_data := dq, next_pos := next_pos io + word_of_nat (min (k * chunk_size io) (length rest)),
         new_data_available_event := os_event_signal (new_data_available_event io)\<rparr>)"
    "buffer_ok (rs @ pieces k (chunk_size io) (next_pos io) rest) (io\<lparr>io_data := dq\<rparr>)"
proof -
  let ?n = "min (length rest) (chunk_size io)"
  let ?k = "free_space io div (?n + 16)"
  have sz: "dq_size (io_data io) \<le> dq_capacity (io_data io)"
    using assms(1) by (auto simp: buffer_ok_def queue_holds_def deque_rep_def deque_lay_def)
  have "0 < ?k" using assms(3) by (simp add: div_greater_zero_iff)
  moreover have "?k * (?n + 16) \<le> free_space io" by simp
  then have "dq_size (io_data io) + ?k * (?n + 16) \<le> max (dq_capacity (io_data io)) (buffer_size io)"
    using sz unfolding free_space_def by linarith
  then obtain dq where "push_chunks ?k ?n rest io = (drop (?k * chunk_size io) rest,
      io\<lparr>io_data := dq, next_pos := next_pos io + word_of_nat (min (?k * chunk_size io) (length rest))\<rparr>)"
    "queue_holds (chunk_size io) dq (rs @ pieces ?k (chunk_size io) (next_pos io) rest)"
    "capacity_ok (buffer_size io) dq"
    using push_chunks_queue [of io rs ?n rest ?k] assms(1) by (auto simp: buffer_ok_def)
  ultimately show thesis
    using assms(1, 3) by (intro that [of ?k dq]) (simp_all add: write_section_def sizeof_header_def buffer_ok_def Let_def)
qed

lemma write_section_full:
  assumes "free_space io < min (length rest) (chunk_size io) + 16"
  shows "write_section rest io = (False, rest, io\<lparr>buffer_space_available_event :=
    os_event_reset (buffer_space_available_event io)\<rparr>)"
  using assms by (simp add: write_section_def sizeof_header_def Let_def)

lemma pieces_neq_Nil: "0 < k \<Longrightarrow> rest \<noteq> [] \<Longrightarrow> pieces k n p rest \<noteq> []"
  by (cases k) (simp_all add: Let_def)

lemma full_queue_nonempty:
  assumes "buffer_ok rs io" "free_space io < n + 16" "n \<le> chunk_size io" "chunk_size io + 16 \<le> buffer_size io"
  shows "rs \<noteq> []"
proof
  assume "rs = []"
  then have "dq_size (io_data io) = 0" using assms(1) queue_empty by (auto simp: buffer_ok_def)
  then show False using assms by (simp add: free_space_def)
qed

lemma write_push_inv:
  assumes inv: "binv rs s" and c: "b_cpc s = C_Push rest"
  shows "\<exists>rs'. binv rs' (write_push rest s)"
proof -
  let ?io = "b_io s"
  have b: "buffer_ok rs ?io" and th: "thread_ok rs ?io (b_lo s) (b_tpc s)" and cl: "client_ok rs ?io (b_tpc s) (b_cpc s)"
    and co: "content_ok rs s" using inv by (simp_all add: binv_def)
  have ne: "rest \<noteq> []" using cl c by (simp add: client_ok_def)
  show ?thesis
  proof (cases "free_space ?io < min (length rest) (chunk_size ?io) + 16")
    case True
    have "chunk_size ?io + 16 \<le> buffer_size ?io \<Longrightarrow> rs \<noteq> []" using full_queue_nonempty [OF b True] by simp
    then have "binv rs (write_push rest s)"
      using b th cl co c ne by (auto simp: write_push_def write_section_full [OF True] binv_defs)
    then show ?thesis ..
  next
    case False
    then have room: "min (length rest) (chunk_size ?io) + 16 \<le> free_space ?io" by simp
    obtain k dq where k: "0 < k" "k = free_space ?io div (min (length rest) (chunk_size ?io) + 16)"
      and w: "write_section rest ?io = (True, drop (k * chunk_size ?io) rest,
        ?io\<lparr>io_data := dq, next_pos := next_pos ?io + word_of_nat (min (k * chunk_size ?io) (length rest)),
           new_data_available_event := os_event_signal (new_data_available_event ?io)\<rparr>)"
      and b': "buffer_ok (rs @ pieces k (chunk_size ?io) (next_pos ?io) rest) (?io\<lparr>io_data := dq\<rparr>)"
      by (rule write_section_room [OF b ne room])
    let ?rs = "rs @ pieces k (chunk_size ?io) (next_pos ?io) rest"
    have nd: "\<not> (b_tpc s = T_Done \<and> \<not> output_error ?io)" using th cl c by (auto simp: thread_ok_def client_ok_def)
    have buf: "buffer_ok ?rs (b_io (write_push rest s))" using b' by (simp add: write_push_def w buffer_ok_def)
    have thr: "thread_ok ?rs (b_io (write_push rest s)) (b_lo (write_push rest s)) (b_tpc (write_push rest s))"
      using th nd by (auto simp: write_push_def w thread_ok_def)
    have cli: "client_ok ?rs (b_io (write_push rest s)) (b_tpc (write_push rest s)) (b_cpc (write_push rest s))"
      using cl c by (auto simp: write_push_def w client_ok_def)
    have "content_ok ?rs (write_push rest s)"
    proof (cases "writes_in_range (b_calls s) \<and> \<not> output_error ?io")
      case True
      have r: "unat (next_pos ?io) + length rest < 2 ^ 63"
        and pos: "writes_in_range (rec_writes rs)" "position_ok (output_file ?io) (b_lo s)"
        and eq: "patch (apply_writes (chunk_written (output_file ?io) (b_lo s)) (rec_writes rs)) (unat (next_pos ?io)) rest =
          apply_writes [] (b_calls s)"
        using co True c by (auto simp: content_ok_def)
      note p = pieces_content [OF r, of k "chunk_size ?io" "apply_writes (chunk_written (output_file ?io) (b_lo s)) (rec_writes rs)"]
      have u: "unat (next_pos ?io + word_of_nat (min (k * chunk_size ?io) (length rest))) =
          unat (next_pos ?io) + min (k * chunk_size ?io) (length rest)"
        using r by (subst unat_add_lem [THEN iffD1]) (simp_all add: unat_of_nat)
      have "length (drop (k * chunk_size ?io) rest) + min (k * chunk_size ?io) (length rest) = length rest" by simp
      then have len: "unat (next_pos ?io + word_of_nat (min (k * chunk_size ?io) (length rest))) +
          length (drop (k * chunk_size ?io) rest) < 2 ^ 63" using r u by linarith
      have fields: "remaining (b_cpc (write_push rest s)) = drop (k * chunk_size ?io) rest"
        "next_pos (b_io (write_push rest s)) = next_pos ?io + word_of_nat (min (k * chunk_size ?io) (length rest))"
        "output_file (b_io (write_push rest s)) = output_file ?io" "b_lo (write_push rest s) = b_lo s"
        "b_calls (write_push rest s) = b_calls s"
        by (simp_all add: write_push_def w del: drop_eq_Nil)
      show ?thesis
        unfolding content_ok_def fields rec_writes_simps writes_in_range_simps apply_writes_simps
        using p pos eq len by (simp only: simp_thms)
    next
      case False
      then show ?thesis by (auto simp: content_ok_def write_push_def w)
    qed
    then show ?thesis using buf thr cli by (auto simp: binv_def)
  qed
qed

lemma free_join_inv:
  assumes "binv rs s" "b_cpc s = C_Join" "b_tpc s = T_Done"
  shows "binv [] (free_join s)"
proof -
  have "deque_free (io_data (b_io s)) = deque_init" by (simp add: deque_free_def deque_init_def)
  moreover have "queue_holds n deque_init []" for n by (simp add: queue_holds_def deque_init_rep)
  moreover have "capacity_ok n deque_init" for n by (simp add: capacity_ok_def deque_init_def)
  ultimately show ?thesis using assms by (auto simp: free_join_def binv_defs)
qed

lemma file_output_seek_inv:
  assumes "binv rs s" "b_cpc s = C_Idle" "file_output_seek (b_io s) offset seek_type = (r, io)"
  shows "binv rs (s\<lparr>b_io := io, b_ret := r\<rparr>)"
proof -
  have "\<exists>p. io = (b_io s)\<lparr>next_pos := p\<rparr>"
    using assms(3) by (cases "output_error (b_io s)") (auto simp: file_output_seek_def Let_def intro: exI [of _ "next_pos (b_io s)"])
  then obtain p where io: "io = (b_io s)\<lparr>next_pos := p\<rparr>" ..
  show ?thesis using assms(1, 2) unfolding io by (auto simp: binv_defs)
qed

lemma bstep_inv:
  assumes "bstep s s'" "binv rs s"
  shows "\<exists>rs'. binv rs' s'"
  using assms
proof (cases rule: bstep.cases)
  case (t_wake e)
  then have "binv rs s'" using assms(2) by (auto simp: os_event_wait_Some binv_defs)
  then show ?thesis ..
next
  case t_section
  then show ?thesis using thread_section_inv [OF assms(2)] by blast
next
  case (t_write k)
  then show ?thesis using thread_write_inv [OF assms(2)] by blast
next
  case (c_seek offset seek_type r io)
  then show ?thesis using file_output_seek_inv [OF assms(2)] by blast
next
  case c_get_pos
  then have "binv rs s'" using assms(2) by (auto simp: binv_defs)
  then show ?thesis ..
next
  case (c_write d)
  then show ?thesis using write_call_inv [OF assms(2)] by blast
next
  case (c_check rest)
  then show ?thesis using write_check_inv [OF assms(2)] by blast
next
  case (c_push rest)
  then show ?thesis using write_push_inv [OF assms(2)] by blast
next
  case (c_wait rest e)
  then have "binv rs s'" using assms(2) by (auto simp: os_event_wait_Some binv_defs)
  then show ?thesis ..
next
  case c_free
  then have "binv rs s'" using assms(2) by (auto simp: free_call_def binv_defs)
  then show ?thesis ..
next
  case c_signal
  then have "binv rs s'" using assms(2) by (auto simp: free_signal_def binv_defs)
  then show ?thesis ..
next
  case c_join
  then show ?thesis using free_join_inv [OF assms(2)] by blast
qed

lemma binit_inv:
  assumes "buffered_file_serializer_init True max_bufsize csize = Some io" "csize < 2 ^ 64"
  shows "binv [] (binit io)"
proof -
  have q: "queue_holds n (deque_reserve deque_init 1048576) []" for n
    by (simp add: queue_holds_def deque_reserve_rep deque_init_rep)
  have c: "capacity_ok n (deque_reserve deque_init 1048576)" for n
    by (simp add: capacity_ok_def deque_reserve_def deque_init_def deque_reorder_data_def Let_def)
  have "buffer_ok [] io"
    using assms q c by (auto simp: buffer_ok_def buffered_file_serializer_init_def os_event_init_def DEFAULT_CHUNK_SIZE_def)
  moreover have "content_ok [] (binit io)"
    by (simp add: content_ok_def binit_def position_ok_def chunk_base_def chunk_written_def io_start_def)
      (use assms in \<open>auto simp: buffered_file_serializer_init_def\<close>)
  ultimately show ?thesis
    using assms by (auto simp: binit_def binv_def thread_ok_def client_ok_def locals_ok_def io_start_def
        buffered_file_serializer_init_def)
qed

lemma reachable_inv:
  assumes "reachable max_bufsize csize s" "csize < 2 ^ 64"
  shows "\<exists>rs. binv rs s"
proof -
  obtain io where io: "buffered_file_serializer_init True max_bufsize csize = Some io" "bstep\<^sup>*\<^sup>* (binit io) s"
    using assms(1) by (auto simp: reachable_def)
  from io(2) show ?thesis
    by (induction rule: rtranclp_induct) (use binit_inv [OF io(1) assms(2)] bstep_inv in blast)+
qed

lemma reachable_step: "reachable max_bufsize csize s \<Longrightarrow> bstep s s' \<Longrightarrow> reachable max_bufsize csize s'"
  by (auto simp: reachable_def intro: rtranclp.rtrancl_into_rtrancl)

text \<open>The sizes are those of the opening.\<close>

lemma push_chunks_sizes:
  "chunk_size (snd (push_chunks k n rest io)) = chunk_size io"
  "buffer_size (snd (push_chunks k n rest io)) = buffer_size io"
  by (induction k n rest io rule: push_chunks.induct) (simp_all add: Let_def)

lemma bstep_sizes:
  assumes "bstep s s'"
  shows "chunk_size (b_io s') = chunk_size (b_io s) \<and> buffer_size (b_io s') = buffer_size (b_io s)"
  using assms
proof (cases rule: bstep.cases)
  case t_section
  then show ?thesis
    by (auto simp: thread_section_def io_section_def Let_def io_exit_def split: option.splits if_splits prod.splits)
next
  case (c_push rest)
  then show ?thesis
    using push_chunks_sizes by (auto simp: write_push_def write_section_def Let_def split: prod.splits if_splits) (metis snd_conv)+
qed (auto simp: thread_write_def io_write_def io_seek_def io_exit_def file_output_seek_def write_call_def write_check_def
    free_call_def free_signal_def free_join_def Let_def split: if_splits prod.splits)

end
