(* ===== verification/Buffered_Live.thy ===== *)
theory Buffered_Live
  imports Buffered_Write
begin

text \<open>
  Progress of the buffered file serializer: a measure that every step decreases while a call is
  under way, the freedom from deadlocks, the bounds on the memory, the content of a closed file,
  and the state in which a failed write leaves a waiting client.
\<close>

section \<open>Every step makes progress\<close>

definition busy :: "bstate \<Rightarrow> bool" where
  "busy s \<longleftrightarrow> b_cpc s \<noteq> C_Idle \<and> b_cpc s \<noteq> C_Freed"

definition thread_work :: "bstate \<Rightarrow> nat" where
  "thread_work s = 8 * dq_size (io_data (b_io s)) +
    (case b_tpc s of
       T_Wait \<Rightarrow> if signalled (new_data_available_event (b_io s)) then 5 else 0
     | T_Fetch \<Rightarrow> if io_chunk (b_lo s) \<noteq> [] then 4 else 2
     | T_Write \<Rightarrow> 3
     | T_Done \<Rightarrow> 0)"

definition client_work :: "bstate \<Rightarrow> nat" where
  "client_work s =
    (case b_cpc s of
       C_Wait _ \<Rightarrow> if signalled (buffer_space_available_event (b_io s)) then 3 else 0
     | C_Check _ \<Rightarrow> 2
     | C_Push _ \<Rightarrow> 1
     | _ \<Rightarrow> 0)"

primrec call_rank :: "client_pc \<Rightarrow> nat" where
  "call_rank C_Idle = 0"
| "call_rank (C_Check rest) = 3 + length rest"
| "call_rank (C_Push rest) = 3 + length rest"
| "call_rank (C_Wait rest) = 3 + length rest"
| "call_rank C_Signal = 2"
| "call_rank C_Join = 1"
| "call_rank C_Freed = 0"

definition progress :: "(bstate \<times> bstate) set" where
  "progress = (\<lambda>s. call_rank (b_cpc s)) <*mlex*> measure (\<lambda>s. 4 * thread_work s + client_work s)"

lemma wf_progress: "wf progress"
  by (simp add: progress_def wf_mlex)

lemma progress_rank: "call_rank (b_cpc s') < call_rank (b_cpc s) \<Longrightarrow> (s', s) \<in> progress"
  by (simp add: progress_def mlex_less)

lemma progress_work:
  "call_rank (b_cpc s') \<le> call_rank (b_cpc s) \<Longrightarrow>
    4 * thread_work s' + client_work s' < 4 * thread_work s + client_work s \<Longrightarrow> (s', s) \<in> progress"
  by (simp add: progress_def mlex_leq)

lemma client_work_le: "client_work s \<le> 3"
  by (simp add: client_work_def split: client_pc.splits)

lemma progress_thread:
  assumes "b_cpc s' = b_cpc s" "thread_work s' < thread_work s"
  shows "(s', s) \<in> progress"
  by (rule progress_work) (use assms client_work_le [of s'] in simp_all)

lemma queue_size: "binv rs s \<Longrightarrow> dq_size (io_data (b_io s)) = length (recs_bytes rs)"
  by (simp add: binv_def buffer_ok_def queue_holds_def deque_rep_def)

text \<open>The steps of the I/O thread.\<close>

lemma thread_section_works:
  assumes inv: "binv rs s" and t: "b_tpc s = T_Fetch" and s': "thread_section s = Some s'"
  shows "b_cpc s' = b_cpc s" "thread_work s' < thread_work s"
proof -
  obtain rs' l' where r: "section_fetch rs s = (rs', l')" by fastforce
  note l = section_fetch_locals [OF inv t r]
  from thread_section_eq [OF inv r] obtain io where
    q: "queue_holds (chunk_size (b_io s)) (io_data io) rs'"
    and io: "io = (b_io s)\<lparr>io_data := io_data io,
      buffer_space_available_event := os_event_signal (buffer_space_available_event (b_io s)),
      new_data_available_event :=
        (if section_stop l' then os_event_reset (new_data_available_event (b_io s))
         else new_data_available_event (b_io s))\<rparr>"
    and ts: "thread_section s = Some (if \<not> section_stop l' then s\<lparr>b_io := io, b_lo := l', b_tpc := T_Write\<rparr>
       else if shutting_down l' then s\<lparr>b_io := io_exit io, b_lo := l', b_tpc := T_Done\<rparr>
       else s\<lparr>b_io := io, b_lo := l', b_tpc := T_Wait\<rparr>)"
    by blast
  have s'_eq: "s' = (if \<not> section_stop l' then s\<lparr>b_io := io, b_lo := l', b_tpc := T_Write\<rparr>
       else if shutting_down l' then s\<lparr>b_io := io_exit io, b_lo := l', b_tpc := T_Done\<rparr>
       else s\<lparr>b_io := io, b_lo := l', b_tpc := T_Wait\<rparr>)"
    using s' unfolding ts by (rule option.inject [THEN iffD1, THEN sym])
  show "b_cpc s' = b_cpc s" unfolding s'_eq by simp
  have sz: "dq_size (io_data io) = length (recs_bytes rs')" using q by (simp add: queue_holds_def deque_rep_def)
  have ev: "section_stop l' \<Longrightarrow> \<not> signalled (new_data_available_event io)" by (subst io) simp
  have w: "thread_work s' = 8 * length (recs_bytes rs') + (if section_stop l' then 0 else 3)"
    unfolding s'_eq using ev sz by (cases "section_stop l'") (simp_all add: thread_work_def io_exit_def)
  have "io_chunk (b_lo s) = [] \<Longrightarrow> rs = [] \<Longrightarrow> section_stop l'"
    using inv t r by (auto simp: section_fetch_def section_stop_def binv_def thread_ok_def)
  moreover have "thread_work s = 8 * length (recs_bytes rs) + (if io_chunk (b_lo s) \<noteq> [] then 4 else 2)"
    using t queue_size [OF inv] by (simp add: thread_work_def)
  ultimately show "thread_work s' < thread_work s" using w l(5, 6) by (cases "rs = []") (auto split: if_splits)
qed

lemma thread_write_works:
  assumes inv: "binv rs s" and t: "b_tpc s = T_Write"
  shows "b_cpc (thread_write k s) = b_cpc s" "thread_work (thread_write k s) < thread_work s"
proof -
  have ne: "io_chunk (b_lo s) \<noteq> []" using inv t by (simp add: binv_def thread_ok_def)
  have "b_cpc (thread_write k s) = b_cpc s \<and> thread_work (thread_write k s) < thread_work s"
  proof (cases "length (io_chunk (b_lo s)) \<le> k")
    case True
    show ?thesis
      using t by (simp add: thread_write_def io_write_full [OF ne True] thread_work_def)
  next
    case False
    then obtain f l' where "io_write k (b_io s) (b_lo s) = (False, (b_io s)\<lparr>output_file := f, output_error := True\<rparr>, l')"
      using io_write_short [of k "b_lo s" "b_io s"] by (metis linorder_not_less)
    then show ?thesis using t by (simp add: thread_write_def thread_work_def io_exit_def)
  qed
  then show "b_cpc (thread_write k s) = b_cpc s" "thread_work (thread_write k s) < thread_work s" by simp_all
qed

text \<open>The section of the client either shortens the rest or takes the signal back and waits.\<close>

lemma write_push_progress:
  assumes inv: "binv rs s" and c: "b_cpc s = C_Push rest"
  shows "(write_push rest s, s) \<in> progress"
proof -
  have b: "buffer_ok rs (b_io s)" and ne: "rest \<noteq> []" and cs: "0 < chunk_size (b_io s)"
    using inv c by (auto simp: binv_def client_ok_def buffer_ok_def)
  show ?thesis
  proof (cases "free_space (b_io s) < min (length rest) (chunk_size (b_io s)) + 16")
    case True
    show ?thesis
      using c by (intro progress_work)
        (simp_all add: write_push_def write_section_full [OF True] thread_work_def client_work_def)
  next
    case False
    then have room: "min (length rest) (chunk_size (b_io s)) + 16 \<le> free_space (b_io s)" by simp
    show ?thesis
    proof (rule write_section_room [OF b ne room])
      fix k dq
      assume k: "0 < k" and w: "write_section rest (b_io s) = (True, drop (k * chunk_size (b_io s)) rest,
        (b_io s)\<lparr>io_data := dq, next_pos := next_pos (b_io s) + word_of_nat (min (k * chunk_size (b_io s)) (length rest)),
           new_data_available_event := os_event_signal (new_data_available_event (b_io s))\<rparr>)"
      have "length (drop (k * chunk_size (b_io s)) rest) < length rest" using k ne cs by simp
      then show ?thesis
        using c by (intro progress_rank) (auto simp: write_push_def w)
    qed
  qed
qed

lemma busy_progress:
  assumes "bstep s s'" "binv rs s" "busy s"
  shows "(s', s) \<in> progress"
  using assms(1)
proof (cases rule: bstep.cases)
  case (t_wake e)
  then have "thread_work s' < thread_work s" by (auto simp: os_event_wait_Some thread_work_def)
  then show ?thesis using t_wake by (intro progress_thread) simp_all
next
  case t_section
  then show ?thesis using thread_section_works [OF assms(2)] by (intro progress_thread) blast+
next
  case (t_write k)
  then show ?thesis using thread_write_works [OF assms(2)] by (intro progress_thread) blast+
next
  case (c_check rest)
  then show ?thesis
    by (cases "output_error (b_io s)")
      (simp add: write_check_def progress_rank,
        simp add: write_check_def progress_work thread_work_def client_work_def)
next
  case (c_push rest)
  then show ?thesis using write_push_progress [OF assms(2)] by blast
next
  case (c_wait rest e)
  then show ?thesis by (intro progress_work) (auto simp: os_event_wait_Some thread_work_def client_work_def)
next
  case c_signal
  then show ?thesis by (intro progress_rank) (simp add: free_signal_def)
next
  case c_join
  then show ?thesis by (intro progress_rank) (simp add: free_join_def)
qed (use assms(3) in \<open>simp_all add: busy_def\<close>)

section \<open>Deadlocks\<close>

text \<open>A call under way can always go on, unless the write thread has failed while the client waits.\<close>

lemma busy_enabled:
  assumes inv: "binv rs s" and b: "busy s" and sz: "chunk_size (b_io s) + 16 \<le> buffer_size (b_io s)"
    and stuck: "\<And>s'. \<not> bstep s s'"
  shows "output_error (b_io s) \<and> (\<exists>rest. b_cpc s = C_Wait rest)"
proof -
  have th: "thread_ok rs (b_io s) (b_lo s) (b_tpc s)" and cl: "client_ok rs (b_io s) (b_tpc s) (b_cpc s)"
    and bu: "buffer_ok rs (b_io s)" using inv by (simp_all add: binv_def)
  have "b_tpc s \<noteq> T_Write" using stuck bstep.t_write by blast
  moreover have "b_tpc s \<noteq> T_Fetch"
    using stuck bstep.t_section thread_section_eq [OF inv, of "fst (section_fetch rs s)" "snd (section_fetch rs s)"]
    by (metis prod.collapse)
  ultimately have t: "b_tpc s = T_Wait \<or> b_tpc s = T_Done" by (cases "b_tpc s") auto
  have sleep: "\<not> signalled (new_data_available_event (b_io s))" if "b_tpc s = T_Wait"
    using stuck bstep.t_wake [OF that] by (auto simp: os_event_wait_def)
  have c: "b_cpc s \<noteq> C_Check rest" "b_cpc s \<noteq> C_Push rest" "b_cpc s \<noteq> C_Signal" for rest
    using stuck bstep.c_check bstep.c_push bstep.c_signal by blast+
  have j: "b_cpc s \<noteq> C_Join" using stuck bstep.c_join sleep t cl by (auto simp: client_ok_def)
  then obtain rest where w: "b_cpc s = C_Wait rest" using b c by (cases "b_cpc s") (auto simp: busy_def)
  have sp: "\<not> signalled (buffer_space_available_event (b_io s))"
    using stuck bstep.c_wait [OF w] by (auto simp: os_event_wait_def)
  then have "rs \<noteq> []" using cl w sz by (auto simp: client_ok_def)
  then have "b_tpc s = T_Done" using t sleep th by (auto simp: thread_ok_def)
  then have "output_error (b_io s)" using th cl w by (auto simp: thread_ok_def client_ok_def)
  then show ?thesis using w by blast
qed

lemma busy_run_ends:
  assumes "\<And>i. bstep (f i) (f (Suc i))" "\<And>i. busy (f i)" "binv rs (f 0)"
  shows False
proof -
  have inv: "\<exists>rs. binv rs (f i)" for i
    by (induction i) (use assms(1, 3) bstep_inv in blast)+
  have "(f (Suc i), f i) \<in> progress" for i using busy_progress [OF assms(1)] assms(2) inv by blast
  then show False using wf_progress by (auto simp: wf_iff_no_infinite_down_chain)
qed

lemma reachable_sizes:
  assumes "reachable max_bufsize csize s"
  shows "chunk_size (b_io s) = (if csize \<noteq> 0 then csize else DEFAULT_CHUNK_SIZE) \<and>
    buffer_size (b_io s) = (if max_bufsize \<noteq> 0 then max_bufsize else DEFAULT_BUF_SIZE)"
proof -
  obtain io where io: "buffered_file_serializer_init True max_bufsize csize = Some io" "bstep\<^sup>*\<^sup>* (binit io) s"
    using assms by (auto simp: reachable_def)
  have *: "chunk_size (b_io (binit io)) = (if csize \<noteq> 0 then csize else DEFAULT_CHUNK_SIZE) \<and>
    buffer_size (b_io (binit io)) = (if max_bufsize \<noteq> 0 then max_bufsize else DEFAULT_BUF_SIZE)"
    using io(1) by (auto simp: buffered_file_serializer_init_def binit_def)
  from io(2) show ?thesis by (induction rule: rtranclp_induct) (use * bstep_sizes in auto)
qed

section \<open>Executions\<close>

lemma write_call_cpc: "d \<noteq> [] \<Longrightarrow> b_cpc (write_call d s) = C_Check d"
  by (simp add: write_call_def)

text \<open>A write that fits into one piece of the queue returns at once.\<close>

lemma write_returns:
  assumes inv: "binv rs s" and c: "b_cpc s = C_Idle" and e: "\<not> output_error (b_io s)"
    and d: "d \<noteq> []" "length d \<le> chunk_size (b_io s)"
    and room: "dq_size (io_data (b_io s)) + length d + 16 \<le> buffer_size (b_io s)"
  shows "\<exists>s'. bstep\<^sup>*\<^sup>* s s' \<and> b_cpc s' = C_Idle \<and> \<not> output_error (b_io s') \<and> b_ret s' = int (length d) \<and>
    next_pos (b_io s') = next_pos (b_io s) + word_of_nat (length d) \<and>
    dq_size (io_data (b_io s')) = dq_size (io_data (b_io s)) + length d + 16 \<and>
    b_tpc s' = b_tpc s \<and> b_lo s' = b_lo s \<and> shutdown_requested (b_io s') = shutdown_requested (b_io s) \<and>
    buffer_ok (rs @ [(next_pos (b_io s), d)]) (b_io s') \<and> signalled (new_data_available_event (b_io s')) \<and>
    b_calls s' = b_calls s @ [(unat (next_pos (b_io s)), d)]"
proof -
  let ?s = "write_check d (write_call d s)"
  have io: "b_io ?s = b_io s" "b_cpc ?s = C_Push d" "b_calls ?s = b_calls s @ [(unat (next_pos (b_io s)), d)]"
    "b_buf_size ?s = length d" "b_tpc ?s = b_tpc s" "b_lo ?s = b_lo s"
    using d e by (simp_all add: write_call_def write_check_def)
  have st: "bstep\<^sup>*\<^sup>* s (write_push d ?s)"
    using bstep.c_write [OF c, of d] bstep.c_check [OF write_call_cpc [OF d(1)]] bstep.c_push [OF io(2)]
    by (rule converse_rtranclp_into_rtranclp [OF _ converse_rtranclp_into_rtranclp
          [OF _ converse_rtranclp_into_rtranclp [OF _ rtranclp.rtrancl_refl]]])
  have b: "buffer_ok rs (b_io s)" using inv by (simp add: binv_def)
  have fs: "min (length d) (chunk_size (b_io s)) + 16 \<le> free_space (b_io s)"
    using room d by (simp add: free_space_def)
  obtain k dq where k: "0 < k" "k = free_space (b_io s) div (min (length d) (chunk_size (b_io s)) + 16)"
    and w: "write_section d (b_io s) = (True, drop (k * chunk_size (b_io s)) d,
      (b_io s)\<lparr>io_data := dq, next_pos := next_pos (b_io s) + word_of_nat (min (k * chunk_size (b_io s)) (length d)),
         new_data_available_event := os_event_signal (new_data_available_event (b_io s))\<rparr>)"
    and b': "buffer_ok (rs @ pieces k (chunk_size (b_io s)) (next_pos (b_io s)) d) ((b_io s)\<lparr>io_data := dq\<rparr>)"
    by (rule write_section_room [OF b d(1) fs])
  have all: "length d \<le> k * chunk_size (b_io s)" using k(1) d(2) by (cases k) auto
  obtain k' where "k = Suc k'" using k(1) by (cases k) auto
  then have "pieces k (chunk_size (b_io s)) (next_pos (b_io s)) d = [(next_pos (b_io s), d)]"
    using d by (simp add: pieces_Nil)
  then have buf: "buffer_ok (rs @ [(next_pos (b_io s), d)]) ((b_io s)\<lparr>io_data := dq\<rparr>)" using b' by simp
  then have "dq_size dq = length (recs_bytes rs) + length d + 16"
    by (simp add: buffer_ok_def queue_holds_def deque_rep_def)
  moreover have "buffer_ok (rs @ [(next_pos (b_io s), d)]) (b_io (write_push d ?s))"
    using buf io(1) by (simp add: write_push_def w buffer_ok_def)
  ultimately show ?thesis
    using queue_size [OF inv] all io e by (intro exI [of _ "write_push d ?s"] conjI st) (simp_all add: write_push_def w)
qed

text \<open>Closing without a failed write ends with the serializer freed and no error.\<close>

lemma close_ends:
  assumes "binv rs s" "b_cpc s = C_Join" "\<not> output_error (b_io s)"
  shows "\<exists>s'. bstep\<^sup>*\<^sup>* s s' \<and> b_cpc s' = C_Freed \<and> \<not> output_error (b_io s') \<and> b_calls s' = b_calls s"
  using assms
proof (induction "thread_work s" arbitrary: s rs rule: less_induct)
  case less
  have go: ?case if st: "bstep s s1" and k: "b_cpc s1 = C_Join" "\<not> output_error (b_io s1)" "b_calls s1 = b_calls s"
      "thread_work s1 < thread_work s" for s1
  proof -
    obtain rs1 where "binv rs1 s1" using bstep_inv [OF st less(2)] by blast
    from less(1) [OF k(4) this k(1, 2)] show ?thesis using st k(3) by (metis converse_rtranclp_into_rtranclp)
  qed
  show ?case
  proof (cases "b_tpc s")
    case T_Wait
    then have "signalled (new_data_available_event (b_io s))" "\<not> manual (new_data_available_event (b_io s))"
      using less(2, 3) by (auto simp: binv_def client_ok_def buffer_ok_def)
    then have "os_event_wait (new_data_available_event (b_io s)) =
        Some ((new_data_available_event (b_io s))\<lparr>signalled := False\<rparr>)"
      by (simp add: os_event_wait_Some)
    from go [OF bstep.t_wake [OF T_Wait this]] show ?thesis
      using less(3, 4) T_Wait \<open>signalled (new_data_available_event (b_io s))\<close> by (simp add: thread_work_def)
  next
    case T_Fetch
    obtain rs' l' where r: "section_fetch rs s = (rs', l')" by fastforce
    obtain s1 where s1: "thread_section s = Some s1" by (rule thread_section_eq [OF less(2) r])
    moreover have "\<not> output_error (b_io s1)" "b_calls s1 = b_calls s"
      using s1 less(4) by (auto simp: thread_section_def io_section_def io_exit_def Let_def
          split: option.splits if_splits prod.splits)
    ultimately show ?thesis
      using go [OF bstep.t_section [OF T_Fetch s1]] thread_section_works [OF less(2) T_Fetch s1] less(3) by simp
  next
    case T_Write
    let ?k = "length (io_chunk (b_lo s))"
    have "io_chunk (b_lo s) \<noteq> []" using less(2) T_Write by (simp add: binv_def thread_ok_def)
    note w = io_write_full [OF this order_refl, of "b_io s"]
    show ?thesis
      using go [OF bstep.t_write [OF T_Write, of ?k]] thread_write_works [OF less(2) T_Write, of ?k] less(3, 4)
      by (simp add: thread_write_def w)
  next
    case T_Done
    then show ?thesis using bstep.c_join [OF less(3) T_Done] less(4)
      by (intro exI [of _ "free_join s"]) (auto simp: free_join_def)
  qed
qed

text \<open>The serializer opened with the default sizes.\<close>

definition opened :: bstate where
  "opened = binit (the (buffered_file_serializer_init True 0 0))"

lemma opened_fields:
  "b_cpc opened = C_Idle" "b_tpc opened = T_Wait" "b_calls opened = []" "next_pos (b_io opened) = 0"
  "\<not> output_error (b_io opened)" "b_lo opened = io_start" "dq_size (io_data (b_io opened)) = 0"
  by (simp_all add: opened_def binit_def buffered_file_serializer_init_def deque_reserve_def deque_init_def
      deque_reorder_data_def Let_def)

lemma opened_reachable: "bstep\<^sup>*\<^sup>* opened s \<Longrightarrow> reachable 0 0 s"
  by (auto simp: reachable_def opened_def buffered_file_serializer_init_def)

lemma default_sizes:
  assumes "reachable 0 0 s"
  shows "chunk_size (b_io s) = 1048576" "buffer_size (b_io s) = 268435456"
  using reachable_sizes [OF assms] by (simp_all add: DEFAULT_CHUNK_SIZE_def DEFAULT_BUF_SIZE_def)

lemma reachable_run: "reachable m c s \<Longrightarrow> bstep\<^sup>*\<^sup>* s s' \<Longrightarrow> reachable m c s'"
  by (auto simp: reachable_def)

lemma reachable_write:
  assumes "reachable 0 0 s" "b_cpc s = C_Idle" "\<not> output_error (b_io s)" "d \<noteq> []" "length d \<le> 1048576"
    "dq_size (io_data (b_io s)) \<le> 1048576"
  obtains s' where "reachable 0 0 s'" "b_cpc s' = C_Idle" "\<not> output_error (b_io s')"
    "dq_size (io_data (b_io s')) = dq_size (io_data (b_io s)) + length d + 16"
    "b_calls s' = b_calls s @ [(unat (next_pos (b_io s)), d)]"
proof -
  obtain rs where inv: "binv rs s" using reachable_inv [OF assms(1)] by auto
  show thesis
    using write_returns [OF inv assms(2, 3, 4)] assms(5, 6) default_sizes [OF assms(1)] that
      reachable_run [OF assms(1)] by auto
qed

text \<open>Three bytes, a seek back, and one byte over the second of them.\<close>

lemma example_run:
  "\<exists>s. reachable 0 0 s \<and> b_cpc s = C_Freed \<and> \<not> output_error (b_io s) \<and> b_calls s = [(0, [1, 2, 3]), (1, [9])]"
proof -
  have o: "reachable 0 0 opened" by (simp add: opened_reachable)
  obtain s1 where s1: "reachable 0 0 s1" "b_cpc s1 = C_Idle" "\<not> output_error (b_io s1)"
    "dq_size (io_data (b_io s1)) = 19" "b_calls s1 = [(0, [1, 2, 3])]"
    by (rule reachable_write [OF o, of "[1, 2, 3]"]) (auto simp: opened_fields)
  let ?s2 = "s1\<lparr>b_io := (b_io s1)\<lparr>next_pos := 1\<rparr>, b_ret := 1\<rparr>"
  have "file_output_seek (b_io s1) 1 SERIALIZE_SEEK_START = (1, (b_io s1)\<lparr>next_pos := 1\<rparr>)"
    using s1(3) by (simp add: file_output_seek_def)
  then have s2: "reachable 0 0 ?s2" using reachable_step [OF s1(1)] bstep.c_seek [OF s1(2)] by blast
  obtain s3 where s3: "reachable 0 0 s3" "b_cpc s3 = C_Idle" "\<not> output_error (b_io s3)"
    "b_calls s3 = [(0, [1, 2, 3]), (1, [9])]"
    by (rule reachable_write [OF s2, of "[9]"]) (use s1 in auto)
  obtain rs3 where "binv rs3 s3" using reachable_inv [OF s3(1)] by auto
  then have "io_active (b_io s3)" by (simp add: binv_def buffer_ok_def)
  then have c: "b_cpc (free_call s3) = C_Signal" by (simp add: free_call_def)
  have s5: "reachable 0 0 (free_signal (free_call s3))"
    using reachable_step [OF reachable_step [OF s3(1) bstep.c_free [OF s3(2)]] bstep.c_signal [OF c]] .
  obtain rs5 where "binv rs5 (free_signal (free_call s3))" using reachable_inv [OF s5] by auto
  moreover have "b_cpc (free_signal (free_call s3)) = C_Join" "\<not> output_error (b_io (free_signal (free_call s3)))"
    "b_calls (free_signal (free_call s3)) = b_calls s3"
    using s3(3) by (simp_all add: free_signal_def free_call_def)
  ultimately obtain s6 where "bstep\<^sup>*\<^sup>* (free_signal (free_call s3)) s6" "b_cpc s6 = C_Freed"
    "\<not> output_error (b_io s6)" "b_calls s6 = b_calls s3"
    using close_ends by metis
  then show ?thesis using reachable_run [OF s5] s3(4) by auto
qed

lemma pieces_bytes: "length rest \<le> length (recs_bytes (pieces k n p rest)) + length (drop (k * n) rest)"
proof (induction k arbitrary: p rest)
  case (Suc k)
  let ?m = "min (length rest) n"
  have "drop (k * n) (drop ?m rest) = drop (Suc k * n) rest" by (auto simp: min_def add.commute)
  moreover have "length rest = ?m + length (drop ?m rest)" by simp
  ultimately show ?case
    using Suc [of "drop ?m rest" "p + word_of_nat ?m"] by (auto simp: Let_def simp del: length_drop)
qed simp

text \<open>While the I/O thread is busy writing, a large enough write fills the queue and waits.\<close>

lemma write_fills_queue:
  assumes "binv rs s" "b_cpc s = C_Check rest" "b_tpc s = T_Write"
    "max 1048576 (2 * buffer_size (b_io s)) < dq_size (io_data (b_io s)) + length rest"
  shows "\<exists>s' rest'. bstep\<^sup>*\<^sup>* s s' \<and> b_cpc s' = C_Wait rest' \<and> b_tpc s' = T_Write \<and>
    \<not> signalled (buffer_space_available_event (b_io s'))"
  using assms
proof (induction "length rest" arbitrary: s rest rs rule: less_induct)
  case less
  let ?s1 = "write_check rest s" and ?io = "b_io s"
  have b: "buffer_ok rs ?io" and e: "\<not> output_error ?io" and ne: "rest \<noteq> []" and cs: "0 < chunk_size ?io"
    using less(2, 3, 4) by (auto simp: binv_def thread_ok_def client_ok_def buffer_ok_def)
  have s1: "b_io ?s1 = ?io" "b_cpc ?s1 = C_Push rest" "b_tpc ?s1 = T_Write"
    using e less(4) by (simp_all add: write_check_def)
  have st: "bstep s ?s1" "bstep ?s1 (write_push rest ?s1)"
    using bstep.c_check [OF less(3)] bstep.c_push [OF s1(2)] .
  have inv1: "binv rs ?s1" using write_check_inv [OF less(2, 3)] .
  obtain rs2 where inv2: "binv rs2 (write_push rest ?s1)" using bstep_inv [OF st(2) inv1] by blast
  show ?case
  proof (cases "free_space ?io < min (length rest) (chunk_size ?io) + 16")
    case True
    show ?thesis using st s1
      by (intro exI [of _ "write_push rest ?s1"] exI [of _ rest])
        (auto simp: write_push_def write_section_full [OF True])
  next
    case False
    then have fs: "min (length rest) (chunk_size ?io) + 16 \<le> free_space ?io" by simp
    obtain k dq where k: "0 < k" "k = free_space ?io div (min (length rest) (chunk_size ?io) + 16)"
      and w: "write_section rest ?io = (True, drop (k * chunk_size ?io) rest,
        ?io\<lparr>io_data := dq, next_pos := next_pos ?io + word_of_nat (min (k * chunk_size ?io) (length rest)),
         new_data_available_event := os_event_signal (new_data_available_event ?io)\<rparr>)"
      and b': "buffer_ok (rs @ pieces k (chunk_size ?io) (next_pos ?io) rest) (?io\<lparr>io_data := dq\<rparr>)"
      by (rule write_section_room [OF b ne fs])
    let ?rest = "drop (k * chunk_size ?io) rest"
    have p: "b_io (write_push rest ?s1) = ?io\<lparr>io_data := dq, next_pos := next_pos ?io + word_of_nat (min (k * chunk_size ?io) (length rest)),
         new_data_available_event := os_event_signal (new_data_available_event ?io)\<rparr>"
      "b_tpc (write_push rest ?s1) = T_Write"
      "b_cpc (write_push rest ?s1) = (if ?rest = [] then C_Idle else C_Check ?rest)"
      using s1 by (simp_all add: write_push_def w del: drop_eq_Nil)
    have "dq_size dq = length (recs_bytes rs) + length (recs_bytes (pieces k (chunk_size ?io) (next_pos ?io) rest))"
      using b' by (simp add: buffer_ok_def queue_holds_def deque_rep_def)
    then have gain: "dq_size (io_data ?io) + length rest \<le> dq_size dq + length ?rest"
      using pieces_bytes [of rest k "chunk_size ?io" "next_pos ?io"] queue_size [OF less(2)] by simp
    have "dq_size dq \<le> dq_capacity dq" "dq_capacity dq \<le> max 1048576 (2 * buffer_size ?io)"
      using b' by (auto simp: buffer_ok_def queue_holds_def deque_rep_def deque_lay_def capacity_ok_def)
    then have ne': "?rest \<noteq> []" using gain less(5) by (cases "?rest = []") auto
    have "length ?rest < length rest" using k(1) cs ne by simp
    from less(1) [OF this inv2] have "\<exists>s' rest'. bstep\<^sup>*\<^sup>* (write_push rest ?s1) s' \<and> b_cpc s' = C_Wait rest' \<and>
      b_tpc s' = T_Write \<and> \<not> signalled (buffer_space_available_event (b_io s'))"
      using p ne' gain less(5) by simp
    then show ?thesis using st by (meson converse_rtranclp_into_rtranclp)
  qed
qed

lemma failed_stuck:
  assumes "b_tpc s = T_Write" "b_cpc s = C_Wait rest" "\<not> signalled (buffer_space_available_event (b_io s))"
    "io_chunk (b_lo s) \<noteq> []"
  shows "b_cpc (thread_write 0 s) = C_Wait rest" "output_error (b_io (thread_write 0 s))"
    "\<not> bstep (thread_write 0 s) s'"
proof -
  have "0 < length (io_chunk (b_lo s))" using assms(4) by simp
  then obtain f l' where w: "io_write 0 (b_io s) (b_lo s) = (False, (b_io s)\<lparr>output_file := f, output_error := True\<rparr>, l')"
    using io_write_short [of 0 "b_lo s" "b_io s"] by metis
  then show c: "b_cpc (thread_write 0 s) = C_Wait rest" "output_error (b_io (thread_write 0 s))"
    using assms(2) by (simp_all add: thread_write_def io_exit_def)
  have "b_tpc (thread_write 0 s) = T_Done" "\<not> signalled (buffer_space_available_event (b_io (thread_write 0 s)))"
    using w assms(3) by (simp_all add: thread_write_def io_exit_def)
  then show "\<not> bstep (thread_write 0 s) s'"
    using c(1) by (auto elim!: bstep.cases simp: os_event_wait_def)
qed

text \<open>The I/O thread starts to write once it has 64 KiB.\<close>

lemma writing_reachable: "\<exists>s. reachable 0 0 s \<and> b_tpc s = T_Write \<and> b_cpc s = C_Idle"
proof -
  let ?d = "replicate 65536 (0 :: byte)"
  have o: "reachable 0 0 opened" by (simp add: opened_reachable)
  obtain rs where inv: "binv rs opened" using reachable_inv [OF o] by auto
  then have rs: "rs = []" using queue_size [OF inv] opened_fields(7) by (cases rs) auto
  have ne: "?d \<noteq> []" by simp
  from write_returns [OF inv opened_fields(1, 5) ne] obtain s1 where
    s1: "bstep\<^sup>*\<^sup>* opened s1" "b_cpc s1 = C_Idle" "b_tpc s1 = T_Wait" "b_lo s1 = io_start"
    "shutdown_requested (b_io s1) = shutdown_requested (b_io opened)"
    "buffer_ok [(0, ?d)] (b_io s1)" "signalled (new_data_available_event (b_io s1))"
    using default_sizes [OF o] opened_fields rs by auto
  let ?s2 = "s1\<lparr>b_io := (b_io s1)\<lparr>new_data_available_event := (new_data_available_event (b_io s1))\<lparr>signalled := False\<rparr>\<rparr>, b_tpc := T_Fetch\<rparr>"
  have r1: "reachable 0 0 s1" using opened_reachable [OF s1(1)] .
  have "os_event_wait (new_data_available_event (b_io s1)) = Some ((new_data_available_event (b_io s1))\<lparr>signalled := False\<rparr>)"
    using s1(6, 7) by (simp add: os_event_wait_def buffer_ok_def)
  then have r2: "reachable 0 0 ?s2" using reachable_step [OF r1 bstep.t_wake [OF s1(3)]] by blast
  let ?l = "(grow_chunk ?d io_start)\<lparr>shutting_down := shutdown_requested (b_io s1)\<rparr>"
  have f: "section_fetch [(0, ?d)] ?s2 = ([], ?l)"
    using s1(4) default_sizes [OF r1] by (simp add: section_fetch_def io_start_def plan_seek_def grow_chunk_def)
  have "buffer_ok [(0, ?d)] (b_io ?s2)" using s1(6) by (simp add: buffer_ok_def)
  moreover have "\<not> section_stop ?l" by (simp add: section_stop_def io_start_def)
  ultimately obtain io where "io_section (b_io ?s2) (b_lo ?s2) = Some (True, io, ?l)"
    using io_section_refines [of "[(0, ?d)]" ?s2, OF _ f] by auto
  then have "thread_section ?s2 = Some (?s2\<lparr>b_io := io, b_lo := ?l, b_tpc := T_Write\<rparr>)" by (simp add: thread_section_def)
  from reachable_step [OF r2 bstep.t_section [OF _ this]] show ?thesis
    using s1(2) by (intro exI [of _ "?s2\<lparr>b_io := io, b_lo := ?l, b_tpc := T_Write\<rparr>"]) simp
qed

section \<open>Properties\<close>

text \<open>
  C26.  Whatever the interleaving, a file that is closed without an error holds exactly what the
  write calls leave in an unbuffered file: each call's data at the position where the client
  stood, later calls over earlier ones, gaps filled with zero bytes.  Positions are those the C
  library can seek to.
\<close>

theorem buffered_file_complete:
  assumes "reachable max_bufsize csize s" "csize < 2 ^ 64" "b_cpc s = C_Freed"
    "\<not> output_error (b_io s)" "writes_in_range (b_calls s)"
  shows "f_bytes (output_file (b_io s)) = apply_writes [] (b_calls s) \<and> \<not> output_open (b_io s)"
proof -
  obtain rs where inv: "binv rs s" using reachable_inv [OF assms(1, 2)] by blast
  then have "b_tpc s = T_Done" using assms(3) by (simp add: binv_def client_ok_def)
  then have "rs = []" "io_chunk (b_lo s) = []" "\<not> output_open (b_io s)"
    using inv assms(4) by (auto simp: binv_def thread_ok_def)
  then show ?thesis using inv assms(3-5) by (simp add: binv_def content_ok_def chunk_written_def)
qed

theorem buffered_file_complete_witness:
  "\<exists>s. reachable 0 0 s \<and> b_cpc s = C_Freed \<and> b_calls s = [(0, [1, 2, 3]), (1, [9])] \<and>
     f_bytes (output_file (b_io s)) = [1, 9, 3]"
proof -
  obtain s where s: "reachable 0 0 s" "b_cpc s = C_Freed" "\<not> output_error (b_io s)"
    "b_calls s = [(0, [1, 2, 3]), (1, [9])]" using example_run by blast
  then show ?thesis using buffered_file_complete [of 0 0 s]
    by (auto simp: in_range_def patch_def write_at_def)
qed

text \<open>
  C27.  The memory stays bounded: the queue's allocation never exceeds the larger of one mebibyte
  and twice the buffer size, the chunk never exceeds the chunk size, and the I/O thread never
  reads a byte of the queue that was not written.
\<close>

theorem buffered_file_bounded:
  assumes "reachable max_bufsize csize s" "csize < 2 ^ 64"
  shows "dq_capacity (io_data (b_io s)) \<le> max 1048576 (2 * buffer_size (b_io s)) \<and>
    dq_size (io_data (b_io s)) \<le> dq_capacity (io_data (b_io s)) \<and>
    length (io_chunk (b_lo s)) \<le> chunk_size (b_io s) \<and> (b_tpc s = T_Fetch \<longrightarrow> thread_section s \<noteq> None)"
proof -
  obtain rs where inv: "binv rs s" using reachable_inv [OF assms] by blast
  have "thread_section s \<noteq> None"
    using thread_section_eq [OF inv, of "fst (section_fetch rs s)" "snd (section_fetch rs s)"] by fastforce
  then show ?thesis
    using inv by (auto simp: binv_def buffer_ok_def thread_ok_def capacity_ok_def locals_ok_def queue_holds_def
        deque_rep_def deque_lay_def)
qed

theorem buffered_file_bounded_witness:
  "reachable 0 0 opened \<and> dq_capacity (io_data (b_io opened)) \<le> 536870912"
  using buffered_file_bounded [of 0 0 opened] opened_reachable [of opened] default_sizes [of opened] by simp



text \<open>
  C29.  The one way to hang, with the default sizes: the I/O thread fails to write while the client
  waits for space.  It ends without signalling the event, and the write call never returns,
  although it means to report the error.
\<close>

theorem failed_write_hangs:
  "\<exists>s rest. reachable 0 0 s \<and> b_cpc s = C_Wait rest \<and> output_error (b_io s) \<and> (\<nexists>s'. bstep s s')"
proof -
  obtain s1 where s1: "reachable 0 0 s1" "b_tpc s1 = T_Write" "b_cpc s1 = C_Idle" using writing_reachable by blast
  let ?d = "replicate 536870913 (0 :: byte)" and ?s2 = "write_call (replicate 536870913 0) s1"
  have ne: "?d \<noteq> []" by simp
  have s2: "reachable 0 0 ?s2" using reachable_step [OF s1(1) bstep.c_write [OF s1(3)]] .
  then obtain rs where inv: "binv rs ?s2" using reachable_inv by fastforce
  have "b_tpc ?s2 = T_Write" "b_cpc ?s2 = C_Check ?d" using s1 write_call_cpc [OF ne] by (simp_all add: write_call_def)
  from write_fills_queue [OF inv this(2, 1)] obtain s3 rest where s3: "bstep\<^sup>*\<^sup>* ?s2 s3" "b_cpc s3 = C_Wait rest"
    "b_tpc s3 = T_Write" "\<not> signalled (buffer_space_available_event (b_io s3))"
    using default_sizes [OF s2] by auto
  have r3: "reachable 0 0 s3" using reachable_run [OF s2 s3(1)] .
  then obtain rs3 where "binv rs3 s3" using reachable_inv by fastforce
  then have "io_chunk (b_lo s3) \<noteq> []" using s3(3) by (simp add: binv_def thread_ok_def)
  from failed_stuck [OF s3(3, 2, 4) this] reachable_step [OF r3 bstep.t_write [OF s3(3), of 0]] show ?thesis by blast
qed

end
