(* ===== verification/Interleave.thy ===== *)
theory Interleave
  imports Encoder
begin

text \<open>
  The packet interleaver of \<open>libobs/obs-output.c\<close>: the encoders of an output deliver their
  packets one at a time, and the output hands them on ordered by decode time.  Until every
  track has a packet the queue only collects; then the start is aligned, every track is
  shifted to begin at time zero, and from there each arriving packet may release the front of
  the queue.

  Fixed-size arrays are functions of their index; \<open>get_encoder_index\<close> keeps every index below
  the size.  The calls of the output's \<open>encoded_packet\<close> callback are recorded in
  \<open>sent_packets\<close>.  Captions, which \<open>add_caption\<close> puts into the data of a video packet, are a
  parameter: \<open>cap n\<close> is what happens to the \<open>n\<close>-th packet that is sent.  A packet handed over by
  reference and a copy of it are the same value, so \<open>active_delay_ns\<close> plays no role.
  \<open>None\<close>: a null pointer or an array element past the end is read.
\<close>

section \<open>The state of an output\<close>

definition MAX_OUTPUT_AUDIO_ENCODERS :: nat where
  "MAX_OUTPUT_AUDIO_ENCODERS = 6"

definition MAX_OUTPUT_VIDEO_ENCODERS :: nat where
  "MAX_OUTPUT_VIDEO_ENCODERS = 10"

record encoder_packet_time =
  pt_pts :: s64
  pt_cts :: u64
  pt_fer :: u64
  pt_ferc :: u64
  pt_pir :: u64

text \<open>What the interleaver reads of an encoder: its identity, time base, frame size and group.\<close>

record encoder_group =
  eg_id :: nat
  eg_num_encoders_started :: u32

record output_encoder =
  oe_ptr :: nat
  oe_timebase_num :: u32
  oe_timebase_den :: u32
  oe_framesize :: nat
  oe_group :: "encoder_group option"

datatype keyframe_group_track_status = KEYFRAME_TRACK_STATUS_NOT_SEEN | KEYFRAME_TRACK_STATUS_SEEN
  | KEYFRAME_TRACK_STATUS_SKIPPED

record keyframe_group_data =
  kg_group_id :: nat
  kg_pts :: s64
  kg_required_tracks :: u32
  kg_seen_on_track :: "nat \<Rightarrow> keyframe_group_track_status"

record obs_output =
  output_active :: bool
  received_video :: "nat \<Rightarrow> bool"
  keyframe_group_tracking :: "keyframe_group_data list"
  received_audio :: bool
  video_offsets :: "nat \<Rightarrow> s64"
  audio_offsets :: "nat \<Rightarrow> s64"
  highest_audio_ts :: s64
  highest_video_ts :: "nat \<Rightarrow> s64"
  interleaved_packets :: "encoder_packet list"
  interleaver_max_batch_size :: nat
  total_frames :: s32
  video_encoders :: "nat \<Rightarrow> output_encoder option"
  audio_encoders :: "nat \<Rightarrow> output_encoder option"
  encoder_packet_times :: "nat \<Rightarrow> encoder_packet_time list"
  sent_packets :: "(encoder_packet \<times> encoder_packet_time option) list"

type_synonym captions = "nat \<Rightarrow> encoder_packet \<Rightarrow> encoder_packet"

definition free_packets :: "obs_output \<Rightarrow> obs_output" where
  "free_packets out = out\<lparr>interleaved_packets := []\<rparr>"

definition reset_packet_data :: "obs_output \<Rightarrow> obs_output" where
  "reset_packet_data out = free_packets (out\<lparr>received_audio := False, highest_audio_ts := 0,
     encoder_packet_times := (\<lambda>_. []), received_video := (\<lambda>_. False), video_offsets := (\<lambda>_. 0),
     highest_video_ts := (\<lambda>_. word_of_int (- (2 ^ 63))), audio_offsets := (\<lambda>_. 0)\<rparr>)"

section \<open>Looking packets and encoders up\<close>

definition first_index :: "(nat \<Rightarrow> bool) \<Rightarrow> nat \<Rightarrow> nat option" where
  "first_index f n = find f [0..<n]"

definition get_first_audio_encoder_index :: "obs_output \<Rightarrow> nat option" where
  "get_first_audio_encoder_index out = first_index (\<lambda>i. audio_encoders out i \<noteq> None) MAX_OUTPUT_AUDIO_ENCODERS"

definition get_first_video_encoder_index :: "obs_output \<Rightarrow> nat option" where
  "get_first_video_encoder_index out = first_index (\<lambda>i. video_encoders out i \<noteq> None) MAX_OUTPUT_VIDEO_ENCODERS"

definition is_encoder :: "output_encoder option \<Rightarrow> encoder_packet \<Rightarrow> bool" where
  "is_encoder enc pkt = (case enc of None \<Rightarrow> False | Some e \<Rightarrow> p_encoder pkt = Some (oe_ptr e))"

definition get_encoder_index :: "obs_output \<Rightarrow> encoder_packet \<Rightarrow> nat" where
  "get_encoder_index out pkt =
    (let found = (if p_type pkt = OBS_ENCODER_VIDEO
                  then first_index (\<lambda>i. is_encoder (video_encoders out i) pkt) MAX_OUTPUT_VIDEO_ENCODERS
                  else first_index (\<lambda>i. is_encoder (audio_encoders out i) pkt) MAX_OUTPUT_AUDIO_ENCODERS)
     in case found of None \<Rightarrow> 0 | Some i \<Rightarrow> i)"

definition is_track :: "obs_encoder_type \<Rightarrow> nat \<Rightarrow> encoder_packet \<Rightarrow> bool" where
  "is_track ty idx p \<longleftrightarrow> p_type p = ty \<and> p_track_idx p = idx"

fun find_from :: "('a \<Rightarrow> bool) \<Rightarrow> nat \<Rightarrow> 'a list \<Rightarrow> nat option" where
  "find_from f i [] = None"
| "find_from f i (x # xs) = (if f x then Some i else find_from f (Suc i) xs)"

text \<open>The index \<open>-1\<close> of the C functions is \<open>None\<close>.\<close>

definition find_first_packet_type_idx :: "obs_output \<Rightarrow> obs_encoder_type \<Rightarrow> nat \<Rightarrow> nat option" where
  "find_first_packet_type_idx out ty idx = find_from (is_track ty idx) 0 (interleaved_packets out)"

definition find_last_packet_type_idx :: "obs_output \<Rightarrow> obs_encoder_type \<Rightarrow> nat \<Rightarrow> nat option" where
  "find_last_packet_type_idx out ty idx =
    map_option (\<lambda>i. length (interleaved_packets out) - 1 - i)
      (find_from (is_track ty idx) 0 (rev (interleaved_packets out)))"

definition find_first_packet_type :: "obs_output \<Rightarrow> obs_encoder_type \<Rightarrow> nat \<Rightarrow> encoder_packet option" where
  "find_first_packet_type out ty idx =
    map_option (\<lambda>i. interleaved_packets out ! i) (find_first_packet_type_idx out ty idx)"

definition find_last_packet_type :: "obs_output \<Rightarrow> obs_encoder_type \<Rightarrow> nat \<Rightarrow> encoder_packet option" where
  "find_last_packet_type out ty idx =
    map_option (\<lambda>i. interleaved_packets out ! i) (find_last_packet_type_idx out ty idx)"

section \<open>Time stamps\<close>

definition packet_dts_usec :: "encoder_packet \<Rightarrow> s64" where
  "packet_dts_usec p = s64_div (p_dts p * 1000000) (scast (p_timebase_den p))"

definition check_received :: "obs_output \<Rightarrow> encoder_packet \<Rightarrow> obs_output" where
  "check_received out p =
    (if p_type p = OBS_ENCODER_VIDEO then out\<lparr>received_video := (received_video out)(p_track_idx p := True)\<rparr>
     else out\<lparr>received_audio := True\<rparr>)"

definition track_offset :: "obs_output \<Rightarrow> encoder_packet \<Rightarrow> s64" where
  "track_offset out p =
    (if p_type p = OBS_ENCODER_VIDEO then video_offsets out (p_track_idx p) else audio_offsets out (p_track_idx p))"

definition apply_interleaved_packet_offset :: "obs_output \<Rightarrow> encoder_packet \<Rightarrow> encoder_packet" where
  "apply_interleaved_packet_offset out p =
    (let offset = track_offset out p;
         p1 = p\<lparr>p_dts := p_dts p - offset, p_pts := p_pts p - offset\<rparr>
     in p1\<lparr>p_dts_usec := packet_dts_usec p1\<rparr>)"

definition has_higher_opposing_ts :: "obs_output \<Rightarrow> encoder_packet \<Rightarrow> bool" where
  "has_higher_opposing_ts out p =
    (let has_higher = list_all (\<lambda>i. video_encoders out i = None \<or> p_type p = OBS_ENCODER_VIDEO \<and> i = p_track_idx p \<or>
            s64_less (p_dts_usec p) (highest_video_ts out i)) [0..<MAX_OUTPUT_VIDEO_ENCODERS]
     in if p_type p = OBS_ENCODER_AUDIO then has_higher
        else has_higher \<and> s64_less (p_dts_usec p) (highest_audio_ts out))"

definition set_higher_ts :: "obs_output \<Rightarrow> encoder_packet \<Rightarrow> obs_output" where
  "set_higher_ts out p =
    (if p_type p = OBS_ENCODER_VIDEO then
       (if s64_less (highest_video_ts out (p_track_idx p)) (p_dts_usec p)
        then out\<lparr>highest_video_ts := (highest_video_ts out)(p_track_idx p := p_dts_usec p)\<rparr> else out)
     else if s64_less (highest_audio_ts out) (p_dts_usec p) then out\<lparr>highest_audio_ts := p_dts_usec p\<rparr> else out)"

section \<open>Sending\<close>

text \<open>
  The search for the timing entry of a packet; \<open>os_gettime_ns\<close> for the packet callbacks is left
  out of the entry.
\<close>

fun take_packet_time :: "s64 \<Rightarrow> encoder_packet_time list \<Rightarrow> encoder_packet_time option \<times> encoder_packet_time list" where
  "take_packet_time pts [] = (None, [])"
| "take_packet_time pts (t # ts) =
    (if pt_pts t = pts then (Some t, ts)
     else (let (r, ts') = take_packet_time pts ts in (r, t # ts')))"

definition send_interleaved :: "captions \<Rightarrow> obs_output \<Rightarrow> obs_output option" where
  "send_interleaved cap out =
    (case interleaved_packets out of
       [] \<Rightarrow> None
     | p # ps \<Rightarrow>
         (let out1 = out\<lparr>interleaved_packets := ps\<rparr>
          in if p_type p = OBS_ENCODER_VIDEO then
               (let p' = cap (length (sent_packets out)) p;
                    (ept, ts) = take_packet_time (p_pts p) (encoder_packet_times out (p_track_idx p))
                in Some (out1\<lparr>total_frames := total_frames out + 1,
                     encoder_packet_times := (encoder_packet_times out)(p_track_idx p := ts),
                     sent_packets := sent_packets out @ [(p', ept)]\<rparr>))
             else Some (out1\<lparr>sent_packets := sent_packets out @ [(p, None)]\<rparr>)))"

section \<open>Aligning the start\<close>

definition DARRAY_INVALID :: nat where
  "DARRAY_INVALID = 2 ^ 64 - 1"

definition llabs :: "s64 \<Rightarrow> s64" where
  "llabs x = (if s64_less x 0 then - x else x)"

fun start_scan :: "nat option \<Rightarrow> s64 \<Rightarrow> nat \<Rightarrow> encoder_packet list \<Rightarrow> s64 \<times> nat \<times> nat \<Rightarrow> s64 \<times> nat \<times> nat" where
  "start_scan fv video_dts i [] acc = acc"
| "start_scan fv video_dts i (p # ps) (closest_diff, video_idx, idx) =
    start_scan fv video_dts (Suc i) ps
      (if p_type p \<noteq> OBS_ENCODER_AUDIO then (closest_diff, if fv = Some i then i else video_idx, idx)
       else
         (let diff = llabs (p_dts_usec p - video_dts)
          in if s64_less diff closest_diff then (diff, video_idx, i) else (closest_diff, video_idx, idx)))"

definition prime_audio_idx :: "obs_output \<Rightarrow> nat \<Rightarrow> nat" where
  "prime_audio_idx out idx =
    foldl (\<lambda>idx i. case find_first_packet_type_idx out OBS_ENCODER_AUDIO i of
        None \<Rightarrow> idx | Some a \<Rightarrow> if a < idx then a else idx) idx [0..<MAX_OUTPUT_AUDIO_ENCODERS]"

definition get_interleaved_start_idx :: "obs_output \<Rightarrow> nat option" where
  "get_interleaved_start_idx out =
    (let q = interleaved_packets out;
         fv = find_first_packet_type_idx out OBS_ENCODER_VIDEO 0
     in if fv = None \<and> list_ex (\<lambda>p. p_type p = OBS_ENCODER_AUDIO) q then None
        else
          (let video_dts = (case fv of None \<Rightarrow> 0 | Some v \<Rightarrow> p_dts_usec (q ! v));
               (closest_diff, video_idx, idx0) =
                 start_scan fv video_dts 0 q (0x7FFFFFFFFFFFFFFF, DARRAY_INVALID, 0);
               idx = (if video_idx < idx0 then video_idx else idx0)
           in case find_from (\<lambda>p. p_type p = OBS_ENCODER_AUDIO) idx (drop idx q) of
                None \<Rightarrow> None
              | Some first_audio_idx \<Rightarrow>
                  Some (if sint (p_pts (q ! first_audio_idx)) \<le> 0 then prime_audio_idx out idx else idx)))"

definition get_encoder_duration :: "output_encoder \<Rightarrow> s64" where
  "get_encoder_duration e =
    s64_div (ucast (oe_timebase_num e) * 1000000) (ucast (oe_timebase_den e)) * word_of_nat (oe_framesize e)"

record prune_state =
  ps_max_idx :: nat
  ps_max_audio_duration :: s64
  ps_diff :: s64
  ps_max_diff :: s64
  ps_audio_encoders :: nat

text \<open>The loop over the audio encoders; \<open>None\<close>: one of them has no packet.\<close>

fun prune_scan :: "obs_output \<Rightarrow> encoder_packet \<Rightarrow> nat list \<Rightarrow> prune_state \<Rightarrow> prune_state option" where
  "prune_scan out video [] s = Some s"
| "prune_scan out video (i # is) s =
    (case audio_encoders out i of
       None \<Rightarrow> prune_scan out video is s
     | Some enc \<Rightarrow>
         (case find_first_packet_type_idx out OBS_ENCODER_AUDIO i of
            None \<Rightarrow> None
          | Some audio_idx \<Rightarrow>
              (let diff = p_dts_usec (interleaved_packets out ! audio_idx) - p_dts_usec video;
                   dur = get_encoder_duration enc
               in prune_scan out video is
                    (s\<lparr>ps_audio_encoders := ps_audio_encoders s + 1,
                       ps_max_idx := (if audio_idx > ps_max_idx s then audio_idx else ps_max_idx s),
                       ps_diff := diff,
                       ps_max_diff := (if s64_less (ps_max_diff s) diff then diff else ps_max_diff s),
                       ps_max_audio_duration :=
                         (if s64_less (ps_max_audio_duration s) dur then dur else ps_max_audio_duration s)\<rparr>))))"

definition prune_premature_packets :: "obs_output \<Rightarrow> int \<times> obs_output" where
  "prune_premature_packets out =
    (case find_first_packet_type_idx out OBS_ENCODER_VIDEO 0 of
       None \<Rightarrow> (-1, out)
     | Some video_idx \<Rightarrow>
         (let video = interleaved_packets out ! video_idx;
              duration = s64_div (scast (p_timebase_num video) * 1000000) (scast (p_timebase_den video))
          in case prune_scan out video [0..<MAX_OUTPUT_AUDIO_ENCODERS]
               \<lparr>ps_max_idx = video_idx, ps_max_audio_duration = 0, ps_diff = 0, ps_max_diff = 0, ps_audio_encoders = 0\<rparr> of
               None \<Rightarrow> (-1, out\<lparr>received_audio := False\<rparr>)
             | Some s \<Rightarrow>
                 (let duration_usec = (if ps_audio_encoders s > 1 \<and> s64_less duration (ps_max_audio_duration s)
                                       then ps_max_audio_duration s else duration)
                  in (if s64_less duration_usec (ps_diff s) then int (ps_max_idx s) + 1 else 0, out))))"

fun drop_packet_times :: "encoder_packet list \<Rightarrow> (nat \<Rightarrow> encoder_packet_time list) \<Rightarrow> nat \<Rightarrow> encoder_packet_time list" where
  "drop_packet_times [] tm = tm"
| "drop_packet_times (p # ps) tm =
    drop_packet_times ps
      (if p_type p = OBS_ENCODER_VIDEO then tm(p_track_idx p := tl (tm (p_track_idx p))) else tm)"

definition discard_to_idx :: "obs_output \<Rightarrow> nat \<Rightarrow> obs_output" where
  "discard_to_idx out idx =
    out\<lparr>encoder_packet_times := drop_packet_times (take idx (interleaved_packets out)) (encoder_packet_times out),
        interleaved_packets := drop idx (interleaved_packets out)\<rparr>"

definition prune_interleaved_packets :: "obs_output \<Rightarrow> (bool \<times> obs_output) option" where
  "prune_interleaved_packets out =
    (let (prune_start, out1) = prune_premature_packets out
     in if prune_start = -1 then Some (False, out1)
        else
          (case (if prune_start \<noteq> 0 then Some (nat prune_start) else get_interleaved_start_idx out1) of
             None \<Rightarrow> None
           | Some start_idx \<Rightarrow> Some (True, if start_idx \<noteq> 0 then discard_to_idx out1 start_idx else out1)))"

text \<open>The first packets of all tracks; the arrays \<open>video\<close> and \<open>audio\<close> are looked up again where they are used.\<close>

definition get_audio_and_video_packets :: "obs_output \<Rightarrow> bool \<times> obs_output" where
  "get_audio_and_video_packets out =
    (case first_index (\<lambda>i. video_encoders out i \<noteq> None \<and> find_first_packet_type out OBS_ENCODER_VIDEO i = None)
        MAX_OUTPUT_VIDEO_ENCODERS of
       Some i \<Rightarrow> (False, out\<lparr>received_video := (received_video out)(i := False)\<rparr>)
     | None \<Rightarrow>
         (case first_index (\<lambda>i. audio_encoders out i \<noteq> None \<and> find_first_packet_type out OBS_ENCODER_AUDIO i = None)
             MAX_OUTPUT_AUDIO_ENCODERS of
            Some i \<Rightarrow> (False, out\<lparr>received_audio := False\<rparr>)
          | None \<Rightarrow> (get_first_video_encoder_index out \<noteq> None, out)))"

definition new_offsets :: "obs_output \<Rightarrow> obs_output" where
  "new_offsets out =
    out\<lparr>video_offsets := (\<lambda>i. case (video_encoders out i, find_first_packet_type out OBS_ENCODER_VIDEO i) of
            (Some e, Some v) \<Rightarrow> if i < MAX_OUTPUT_VIDEO_ENCODERS then p_pts v else video_offsets out i
          | _ \<Rightarrow> video_offsets out i),
        audio_offsets := (\<lambda>i. case (audio_encoders out i, find_first_packet_type out OBS_ENCODER_AUDIO i) of
            (Some e, Some a) \<Rightarrow> if i < MAX_OUTPUT_AUDIO_ENCODERS \<and> sint (p_dts a) > 0 then p_dts a else audio_offsets out i
          | _ \<Rightarrow> audio_offsets out i)\<rparr>"

definition late_audio :: "obs_output \<Rightarrow> s64 \<Rightarrow> bool" where
  "late_audio out video_dts =
    list_ex (\<lambda>i. audio_encoders out i \<noteq> None \<and>
      (case find_last_packet_type out OBS_ENCODER_AUDIO i of None \<Rightarrow> False | Some a \<Rightarrow> s64_less (p_dts_usec a) video_dts))
      [0..<MAX_OUTPUT_AUDIO_ENCODERS]"

definition shift_packets :: "nat \<Rightarrow> obs_output \<Rightarrow> obs_output option" where
  "shift_packets first_audio_idx out =
    (case find_first_packet_type out OBS_ENCODER_AUDIO first_audio_idx of
       None \<Rightarrow> None
     | Some a \<Rightarrow>
         (let out1 = new_offsets out;
              out2 = out1\<lparr>highest_audio_ts := highest_audio_ts out1 - p_dts_usec a\<rparr>
          in Some (out2\<lparr>interleaved_packets := map (apply_interleaved_packet_offset out2) (interleaved_packets out2)\<rparr>)))"

definition initialize_interleaved_packets :: "obs_output \<Rightarrow> (bool \<times> obs_output) option" where
  "initialize_interleaved_packets out =
    (case (get_first_audio_encoder_index out, get_first_video_encoder_index out) of
       (Some first_audio_idx, Some first_video_idx) \<Rightarrow>
         (let (found, out1) = get_audio_and_video_packets out
          in if \<not> found then Some (False, out1)
             else
               (case find_first_packet_type out1 OBS_ENCODER_VIDEO first_video_idx of
                  None \<Rightarrow> None
                | Some v \<Rightarrow>
                    if late_audio out1 (p_dts_usec v) then Some (False, out1\<lparr>received_audio := False\<rparr>)
                    else
                      (case get_interleaved_start_idx out1 of
                         None \<Rightarrow> None
                       | Some start_idx \<Rightarrow>
                           (let (found', out2) = (if start_idx \<noteq> 0
                                                  then get_audio_and_video_packets (discard_to_idx out1 start_idx)
                                                  else (True, out1))
                            in if \<not> found' then Some (False, out2)
                               else map_option (Pair True) (shift_packets first_audio_idx out2)))))
     | _ \<Rightarrow> Some (False, out))"

section \<open>The queue\<close>

text \<open>Whether the insertion loop stops before a packet of the queue.\<close>

definition insert_before :: "encoder_packet \<Rightarrow> encoder_packet \<Rightarrow> bool" where
  "insert_before p cur =
    (if p_dts_usec p = p_dts_usec cur \<and> p_type p = OBS_ENCODER_VIDEO \<and> p_type cur = OBS_ENCODER_VIDEO \<and>
        p_track_idx p > p_track_idx cur then False
     else if p_dts_usec p = p_dts_usec cur \<and> p_type p = OBS_ENCODER_VIDEO then True
     else s64_less (p_dts_usec p) (p_dts_usec cur))"

definition insert_packet :: "encoder_packet \<Rightarrow> encoder_packet list \<Rightarrow> encoder_packet list" where
  "insert_packet p q =
    (let idx = (case find_from (insert_before p) 0 q of None \<Rightarrow> length q | Some i \<Rightarrow> i)
     in take idx q @ p # drop idx q)"

definition insert_interleaved_packet :: "obs_output \<Rightarrow> encoder_packet \<Rightarrow> obs_output" where
  "insert_interleaved_packet out p = out\<lparr>interleaved_packets := insert_packet p (interleaved_packets out)\<rparr>"

definition resort_interleaved_packets :: "obs_output \<Rightarrow> obs_output" where
  "resort_interleaved_packets out =
    foldl (\<lambda>o' p. insert_interleaved_packet (set_higher_ts o' p) p) (out\<lparr>interleaved_packets := []\<rparr>)
      (interleaved_packets out)"

definition discard_unused_audio_packets :: "obs_output \<Rightarrow> s64 \<Rightarrow> obs_output" where
  "discard_unused_audio_packets out dts_usec =
    (let idx = (case find_from (\<lambda>p. sint (p_dts_usec p) \<ge> sint dts_usec) 0 (interleaved_packets out) of
          None \<Rightarrow> length (interleaved_packets out) | Some i \<Rightarrow> i)
     in if idx \<noteq> 0 then discard_to_idx out idx else out)"

section \<open>Key frame groups\<close>

definition purge_encoder_group_keyframe_data :: "keyframe_group_data list \<Rightarrow> nat \<Rightarrow> bool \<times> keyframe_group_data list" where
  "purge_encoder_group_keyframe_data gs idx =
    (let modified_count = length (filter (\<lambda>i. kg_seen_on_track (gs ! idx) i \<noteq> KEYFRAME_TRACK_STATUS_NOT_SEEN)
           [0..<MAX_OUTPUT_VIDEO_ENCODERS])
     in if modified_count = unat (kg_required_tracks (gs ! idx)) then (True, take idx gs @ drop (Suc idx) gs)
        else (False, gs))"

definition mark_track :: "nat \<Rightarrow> keyframe_group_track_status \<Rightarrow> keyframe_group_data \<Rightarrow> keyframe_group_data" where
  "mark_track t st g = g\<lparr>kg_seen_on_track := (kg_seen_on_track g)(t := st)\<rparr>"

text \<open>The loop over the groups; \<open>Some idx\<close>: it ended at \<open>idx\<close> without finding the key frame's entry.\<close>

function align_groups :: "nat \<Rightarrow> s64 \<Rightarrow> nat \<Rightarrow> nat \<Rightarrow> keyframe_group_data list \<Rightarrow>
    keyframe_group_data list \<times> nat option" where
  "align_groups grp pts track idx gs =
    (if idx \<ge> length gs \<or> s64_less pts (kg_pts (gs ! idx)) then (gs, Some idx)
     else if kg_group_id (gs ! idx) \<noteq> grp then align_groups grp pts track (idx + 1) gs
     else if s64_less (kg_pts (gs ! idx)) pts then
       (let gs1 = gs[idx := mark_track track KEYFRAME_TRACK_STATUS_SKIPPED (gs ! idx)];
            (purged, gs2) = purge_encoder_group_keyframe_data gs1 idx
        in align_groups grp pts track (if purged then idx else idx + 1) gs2)
     else
       (snd (purge_encoder_group_keyframe_data
          (gs[idx := mark_track track KEYFRAME_TRACK_STATUS_SEEN (gs ! idx)]) idx), None))"
  by pat_completeness auto
termination
  by (relation "measure (\<lambda>(grp, pts, track, idx, gs). length gs - idx)")
    (auto simp: purge_encoder_group_keyframe_data_def Let_def split: if_splits)

declare align_groups.simps [simp del]

definition packet_group :: "obs_output \<Rightarrow> encoder_packet \<Rightarrow> encoder_group option" where
  "packet_group out p = (case video_encoders out (p_track_idx p) of None \<Rightarrow> None | Some e \<Rightarrow> oe_group e)"

definition check_encoder_group_keyframe_alignment :: "obs_output \<Rightarrow> encoder_packet \<Rightarrow> obs_output" where
  "check_encoder_group_keyframe_alignment out p =
    (if \<not> p_keyframe p \<or> p_type p \<noteq> OBS_ENCODER_VIDEO then out
     else case packet_group out p of
       None \<Rightarrow> out
     | Some grp \<Rightarrow>
         (case align_groups (eg_id grp) (p_pts p) (p_track_idx p) 0 (keyframe_group_tracking out) of
            (gs, None) \<Rightarrow> out\<lparr>keyframe_group_tracking := gs\<rparr>
          | (gs, Some idx) \<Rightarrow>
              out\<lparr>keyframe_group_tracking := take idx gs @
                \<lparr>kg_group_id = eg_id grp, kg_pts = p_pts p, kg_required_tracks = eg_num_encoders_started grp,
                 kg_seen_on_track = (\<lambda>_. KEYFRAME_TRACK_STATUS_NOT_SEEN)(p_track_idx p := KEYFRAME_TRACK_STATUS_SEEN)\<rparr>
                # drop idx gs\<rparr>))"

definition apply_ept_offsets :: "obs_output \<Rightarrow> obs_output" where
  "apply_ept_offsets out =
    out\<lparr>encoder_packet_times := (\<lambda>i. if i < MAX_OUTPUT_VIDEO_ENCODERS
        then map (\<lambda>t. t\<lparr>pt_pts := pt_pts t - video_offsets out i\<rparr>) (encoder_packet_times out i)
        else encoder_packet_times out i)\<rparr>"

section \<open>The interleaver\<close>

definition count_streamable_frames :: "obs_output \<Rightarrow> nat" where
  "count_streamable_frames out = length (takeWhile (has_higher_opposing_ts out) (interleaved_packets out))"

definition all_video_received :: "obs_output \<Rightarrow> bool" where
  "all_video_received out =
    list_all (\<lambda>i. video_encoders out i \<noteq> None \<longrightarrow> received_video out i) [0..<MAX_OUTPUT_VIDEO_ENCODERS]"

definition push_packet_time :: "obs_output \<Rightarrow> encoder_packet \<Rightarrow> encoder_packet_time option \<Rightarrow> obs_output" where
  "push_packet_time out p pt =
    (case pt of
       None \<Rightarrow> out
     | Some t \<Rightarrow> out\<lparr>encoder_packet_times :=
         (encoder_packet_times out)(p_track_idx p := encoder_packet_times out (p_track_idx p) @ [t])\<rparr>)"

text \<open>The start: prune, align, and send the first packet.\<close>

definition start_interleaving :: "captions \<Rightarrow> obs_output \<Rightarrow> obs_output option" where
  "start_interleaving cap out =
    (case prune_interleaved_packets out of
       None \<Rightarrow> None
     | Some (pruned, out1) \<Rightarrow>
         if \<not> pruned then Some out1
         else
           (case initialize_interleaved_packets out1 of
              None \<Rightarrow> None
            | Some (ready, out2) \<Rightarrow>
                if \<not> ready then Some out2
                else send_interleaved cap (apply_ept_offsets (resort_interleaved_packets out2))))"

text \<open>After the start: send at most two packets.\<close>

definition stream_packets :: "captions \<Rightarrow> obs_output \<Rightarrow> obs_output option" where
  "stream_packets cap out =
    (let streamable = count_streamable_frames out
     in if streamable = 0 then Some out
        else
          (case send_interleaved cap out of
             None \<Rightarrow> None
           | Some out1 \<Rightarrow>
               if streamable - 1 > interleaver_max_batch_size out then send_interleaved cap out1 else Some out1))"

definition interleave_packets ::
  "captions \<Rightarrow> encoder_packet \<Rightarrow> encoder_packet_time option \<Rightarrow> obs_output \<Rightarrow> obs_output option" where
  "interleave_packets cap packet0 packet_time out0 =
    (if \<not> output_active out0 then Some out0
     else
       (let packet = packet0\<lparr>p_track_idx := get_encoder_index out0 packet0\<rparr>
        in if p_type packet = OBS_ENCODER_VIDEO \<and> \<not> received_video out0 (p_track_idx packet) \<and> \<not> p_keyframe packet
           then Some (discard_unused_audio_packets out0 (p_dts_usec packet))
           else
             (let out1 = check_encoder_group_keyframe_alignment out0 packet;
                  was_started = (received_audio out1 \<and> all_video_received out1);
                  p = (if was_started then apply_interleaved_packet_offset out1 packet else packet);
                  time = (if was_started then map_option (\<lambda>t. t\<lparr>pt_pts := pt_pts t - track_offset out1 packet\<rparr>) packet_time
                          else packet_time);
                  out2 = push_packet_time out1 packet time;
                  out3 = (if was_started then out2 else check_received out2 packet);
                  out4 = insert_interleaved_packet out3 p
              in if received_audio out4 \<and> all_video_received out4
                 then (if \<not> was_started then start_interleaving cap out4
                       else stream_packets cap (set_higher_ts out4 p))
                 else Some out4)))"

text \<open>A sequence of arriving packets.\<close>

fun interleave_all ::
  "captions \<Rightarrow> (encoder_packet \<times> encoder_packet_time option) list \<Rightarrow> obs_output \<Rightarrow> obs_output option" where
  "interleave_all cap [] out = Some out"
| "interleave_all cap ((p, t) # ps) out =
    (case interleave_packets cap p t out of None \<Rightarrow> None | Some out' \<Rightarrow> interleave_all cap ps out')"

end
