(* ===== verification/Interleave_Order.thy ===== *)
theory Interleave_Order
  imports Interleave "HOL-Library.Multiset"
begin

text \<open>
  The queue of the interleaver: it is sorted by decode time at every moment, the interleaver
  never reads past it, and once the output has started no packet is lost.
\<close>

section \<open>The order of the queue\<close>

text \<open>
  By decode time; at equal times video comes before audio, and video tracks in the order of
  their index.
\<close>

definition packet_le :: "encoder_packet \<Rightarrow> encoder_packet \<Rightarrow> bool" where
  "packet_le p q \<longleftrightarrow> sint (p_dts_usec p) < sint (p_dts_usec q) \<or>
     sint (p_dts_usec p) = sint (p_dts_usec q) \<and>
     (p_type p = OBS_ENCODER_VIDEO \<and> p_type q = OBS_ENCODER_VIDEO \<and> p_track_idx p \<le> p_track_idx q \<or>
      p_type q = OBS_ENCODER_AUDIO)"

definition queue_sorted :: "obs_output \<Rightarrow> bool" where
  "queue_sorted out \<longleftrightarrow> sorted_wrt packet_le (interleaved_packets out)"

lemma packet_le_trans: "packet_le p q \<Longrightarrow> packet_le q r \<Longrightarrow> packet_le p r"
  by (auto simp: packet_le_def)

lemma packet_le_dts: "packet_le p q \<Longrightarrow> sint (p_dts_usec p) \<le> sint (p_dts_usec q)"
  by (auto simp: packet_le_def)

lemma insert_before_le:
  "insert_before p c \<Longrightarrow> packet_le p c" "\<not> insert_before p c \<Longrightarrow> packet_le c p"
proof -
  have "p_dts_usec p = p_dts_usec c \<longleftrightarrow> sint (p_dts_usec p) = sint (p_dts_usec c)" by (rule word_eq_iff_signed)
  then have "insert_before p c \<longleftrightarrow> sint (p_dts_usec p) < sint (p_dts_usec c) \<or>
      sint (p_dts_usec p) = sint (p_dts_usec c) \<and> p_type p = OBS_ENCODER_VIDEO \<and>
      \<not> (p_type c = OBS_ENCODER_VIDEO \<and> p_track_idx p > p_track_idx c)"
    by (auto simp: insert_before_def s64_less_def)
  then show "insert_before p c \<Longrightarrow> packet_le p c" "\<not> insert_before p c \<Longrightarrow> packet_le c p"
    by (cases "p_type p"; cases "p_type c"; force simp: packet_le_def)+
qed

lemma find_from_Suc: "find_from f (Suc i) xs = map_option Suc (find_from f i xs)"
  by (induction xs arbitrary: i) auto

lemma insert_packet_simps [simp]:
  "insert_packet p [] = [p]"
  "insert_packet p (c # q) = (if insert_before p c then p # c # q else c # insert_packet p q)"
  by (auto simp: insert_packet_def find_from_Suc Let_def split: option.splits)

lemma set_insert_packet [simp]: "set (insert_packet p q) = insert p (set q)"
  by (induction q) auto

lemma mset_insert_packet [simp]: "mset (insert_packet p q) = add_mset p (mset q)"
  by (induction q) auto

lemma insert_packet_sorted: "sorted_wrt packet_le q \<Longrightarrow> sorted_wrt packet_le (insert_packet p q)"
proof (induction q)
  case (Cons c q)
  then show ?case
    using insert_before_le [of p c] packet_le_trans [of p c] by (cases "insert_before p c") auto
qed simp

lemma sorted_wrt_drop: "sorted_wrt P xs \<Longrightarrow> sorted_wrt P (drop n xs)"
  by (metis append_take_drop_id sorted_wrt_append)

section \<open>What each operation keeps\<close>

text \<open>The encoders, the activity and the batch size never change.\<close>

definition same_tracks :: "obs_output \<Rightarrow> obs_output \<Rightarrow> bool" where
  "same_tracks out out' \<longleftrightarrow> video_encoders out' = video_encoders out \<and> audio_encoders out' = audio_encoders out \<and>
     output_active out' = output_active out \<and> interleaver_max_batch_size out' = interleaver_max_batch_size out"

lemma same_tracks_refl [simp]: "same_tracks out out"
  by (simp add: same_tracks_def)

lemma same_tracks_trans: "same_tracks a b \<Longrightarrow> same_tracks b c \<Longrightarrow> same_tracks a c"
  by (simp add: same_tracks_def)

lemma set_higher_ts_fields [simp]:
  "interleaved_packets (set_higher_ts out p) = interleaved_packets out" "sent_packets (set_higher_ts out p) = sent_packets out"
  "received_audio (set_higher_ts out p) = received_audio out" "received_video (set_higher_ts out p) = received_video out"
  "video_offsets (set_higher_ts out p) = video_offsets out" "audio_offsets (set_higher_ts out p) = audio_offsets out"
  "same_tracks out (set_higher_ts out p)"
  by (simp_all add: set_higher_ts_def same_tracks_def)

lemma insert_interleaved_fields [simp]:
  "interleaved_packets (insert_interleaved_packet out p) = insert_packet p (interleaved_packets out)"
  "sent_packets (insert_interleaved_packet out p) = sent_packets out"
  "received_audio (insert_interleaved_packet out p) = received_audio out"
  "received_video (insert_interleaved_packet out p) = received_video out"
  "video_offsets (insert_interleaved_packet out p) = video_offsets out"
  "audio_offsets (insert_interleaved_packet out p) = audio_offsets out"
  "highest_video_ts (insert_interleaved_packet out p) = highest_video_ts out"
  "highest_audio_ts (insert_interleaved_packet out p) = highest_audio_ts out"
  "same_tracks out (insert_interleaved_packet out p)"
  by (simp_all add: insert_interleaved_packet_def same_tracks_def)

lemma discard_to_idx_fields [simp]:
  "interleaved_packets (discard_to_idx out n) = drop n (interleaved_packets out)"
  "sent_packets (discard_to_idx out n) = sent_packets out"
  "received_audio (discard_to_idx out n) = received_audio out"
  "received_video (discard_to_idx out n) = received_video out"
  "highest_video_ts (discard_to_idx out n) = highest_video_ts out"
  "highest_audio_ts (discard_to_idx out n) = highest_audio_ts out"
  "video_offsets (discard_to_idx out n) = video_offsets out"
  "audio_offsets (discard_to_idx out n) = audio_offsets out"
  "same_tracks out (discard_to_idx out n)"
  by (simp_all add: discard_to_idx_def same_tracks_def)

lemma resort_fields:
  "sorted_wrt packet_le (interleaved_packets (resort_interleaved_packets out))"
  "mset (interleaved_packets (resort_interleaved_packets out)) = mset (interleaved_packets out)"
  "sent_packets (resort_interleaved_packets out) = sent_packets out"
  "received_audio (resort_interleaved_packets out) = received_audio out"
  "received_video (resort_interleaved_packets out) = received_video out"
  "video_offsets (resort_interleaved_packets out) = video_offsets out"
  "audio_offsets (resort_interleaved_packets out) = audio_offsets out"
  "same_tracks out (resort_interleaved_packets out)"
proof -
  let ?step = "\<lambda>o' p. insert_interleaved_packet (set_higher_ts o' p) p"
  have *: "sorted_wrt packet_le (interleaved_packets a) \<Longrightarrow>
      sorted_wrt packet_le (interleaved_packets (foldl ?step a ps)) \<and>
      mset (interleaved_packets (foldl ?step a ps)) = mset ps + mset (interleaved_packets a) \<and>
      sent_packets (foldl ?step a ps) = sent_packets a \<and> received_audio (foldl ?step a ps) = received_audio a \<and>
      received_video (foldl ?step a ps) = received_video a \<and> video_offsets (foldl ?step a ps) = video_offsets a \<and>
      audio_offsets (foldl ?step a ps) = audio_offsets a \<and> same_tracks a (foldl ?step a ps)" for a ps
  proof (induction ps arbitrary: a)
    case (Cons p ps)
    have "same_tracks a (?step a p)"
      using same_tracks_trans [OF set_higher_ts_fields(7) insert_interleaved_fields(9)] .
    then show ?case using Cons.IH [of "?step a p"] Cons.prems insert_packet_sorted same_tracks_trans by simp
  qed simp
  have "same_tracks out (out\<lparr>interleaved_packets := []\<rparr>)" by (simp add: same_tracks_def)
  with * [of "out\<lparr>interleaved_packets := []\<rparr>" "interleaved_packets out"] same_tracks_trans
  show "sorted_wrt packet_le (interleaved_packets (resort_interleaved_packets out))"
    "mset (interleaved_packets (resort_interleaved_packets out)) = mset (interleaved_packets out)"
    "sent_packets (resort_interleaved_packets out) = sent_packets out"
    "received_audio (resort_interleaved_packets out) = received_audio out"
    "received_video (resort_interleaved_packets out) = received_video out"
    "video_offsets (resort_interleaved_packets out) = video_offsets out"
    "audio_offsets (resort_interleaved_packets out) = audio_offsets out"
    "same_tracks out (resort_interleaved_packets out)"
    by (simp_all add: resort_interleaved_packets_def)
qed

lemma send_interleaved_Some:
  assumes "send_interleaved cap out = Some out'"
  obtains p t where "interleaved_packets out = p # interleaved_packets out'"
    "sent_packets out' = sent_packets out @ [(if p_type p = OBS_ENCODER_VIDEO then cap (length (sent_packets out)) p else p, t)]"
    "received_audio out' = received_audio out" "received_video out' = received_video out"
    "video_offsets out' = video_offsets out" "audio_offsets out' = audio_offsets out"
    "highest_video_ts out' = highest_video_ts out" "highest_audio_ts out' = highest_audio_ts out"
    "same_tracks out out'"
  using assms
  by (auto simp: send_interleaved_def Let_def same_tracks_def split: list.splits if_splits prod.splits)

lemma send_interleaved_defined: "interleaved_packets out \<noteq> [] \<Longrightarrow> send_interleaved cap out \<noteq> None"
  by (auto simp: send_interleaved_def Let_def split: list.splits prod.splits)

text \<open>A step that only drops packets from the front of the queue and forgets what was received.\<close>

definition quiet :: "obs_output \<Rightarrow> obs_output \<Rightarrow> bool" where
  "quiet out out' \<longleftrightarrow> same_tracks out out' \<and> sent_packets out' = sent_packets out \<and>
     video_offsets out' = video_offsets out \<and> audio_offsets out' = audio_offsets out \<and>
     highest_video_ts out' = highest_video_ts out \<and> highest_audio_ts out' = highest_audio_ts out \<and>
     (\<exists>n. interleaved_packets out' = drop n (interleaved_packets out))"

lemma quiet_trans:
  assumes "quiet a b" "quiet b c"
  shows "quiet a c"
proof -
  obtain m n where "interleaved_packets b = drop m (interleaved_packets a)"
    "interleaved_packets c = drop n (interleaved_packets b)" using assms by (auto simp: quiet_def)
  then have "\<exists>k. interleaved_packets c = drop k (interleaved_packets a)" by (auto intro: exI [of _ "n + m"])
  then show ?thesis using assms same_tracks_trans by (auto simp: quiet_def)
qed

lemma quiet_intros [simp, intro]:
  "quiet out out" "quiet out (discard_to_idx out n)" "quiet out (out\<lparr>received_audio := b\<rparr>)"
  "quiet out (out\<lparr>received_video := f\<rparr>)"
  by (auto simp: quiet_def same_tracks_def discard_to_idx_def intro: exI [of _ 0])

lemma quiet_get_packets: "quiet out (snd (get_audio_and_video_packets out))"
  by (auto simp: get_audio_and_video_packets_def split: option.splits)

lemma quiet_prune_premature: "quiet out (snd (prune_premature_packets out))"
  by (auto simp: prune_premature_packets_def Let_def split: option.splits)

lemma quiet_prune:
  assumes "prune_interleaved_packets out = Some (b, out')"
  shows "quiet out out'"
proof -
  have "quiet out (snd (prune_premature_packets out))" by (rule quiet_prune_premature)
  then show ?thesis
    using assms quiet_trans
    by (auto simp: prune_interleaved_packets_def Let_def split: prod.splits if_splits option.splits)
qed

lemma quiet_discard_unused: "quiet out (discard_unused_audio_packets out ts)"
  by (auto simp: discard_unused_audio_packets_def Let_def)

lemma initialize_False:
  assumes "initialize_interleaved_packets out = Some (False, out')"
  shows "quiet out out'"
proof -
  have q: "quiet out (snd (get_audio_and_video_packets out))" by (rule quiet_get_packets)
  have q': "quiet out (snd (get_audio_and_video_packets (discard_to_idx (snd (get_audio_and_video_packets out)) n)))" for n
    using quiet_trans [OF q quiet_trans [OF quiet_intros(2) quiet_get_packets]] .
  show ?thesis
    using assms q q' [of "the (get_interleaved_start_idx (snd (get_audio_and_video_packets out)))"] quiet_trans [OF q]
    by (auto simp: initialize_interleaved_packets_def Let_def split: option.splits prod.splits if_splits)
qed

text \<open>A successful alignment drops a prefix, sets the offsets and applies them to what remains.\<close>

lemma initialize_True:
  assumes "initialize_interleaved_packets out = Some (True, out')"
  obtains out2 k where "quiet out out2" "fst (get_audio_and_video_packets out2)" "snd (get_audio_and_video_packets out2) = out2"
    "get_first_audio_encoder_index out2 = Some k" "shift_packets k out2 = Some out'" "received_audio out2 = received_audio out"
    "received_video out2 = received_video out"
proof -
  obtain k v where kv: "get_first_audio_encoder_index out = Some k" "get_first_video_encoder_index out = Some v"
    using assms by (auto simp: initialize_interleaved_packets_def split: option.splits)
  obtain f out1 where f: "get_audio_and_video_packets out = (f, out1)" by fastforce
  have "f" using assms kv f by (auto simp: initialize_interleaved_packets_def split: if_splits)
  then have o1: "out1 = out" using f by (auto simp: get_audio_and_video_packets_def split: option.splits)
  obtain n where n: "get_interleaved_start_idx out = Some n"
    using assms kv f \<open>f\<close> o1 by (auto simp: initialize_interleaved_packets_def split: option.splits if_splits)
  define out2 where "out2 = (if n \<noteq> 0 then snd (get_audio_and_video_packets (discard_to_idx out n)) else out)"
  have r: "(if n \<noteq> 0 then fst (get_audio_and_video_packets (discard_to_idx out n)) else True) \<and>
      shift_packets k out2 = Some out'"
    using assms kv f \<open>f\<close> o1 n
    by (auto simp: initialize_interleaved_packets_def out2_def Let_def split: option.splits if_splits prod.splits)
  have keep: "fst (get_audio_and_video_packets x) \<Longrightarrow> snd (get_audio_and_video_packets x) = x" for x
    by (auto simp: get_audio_and_video_packets_def split: option.splits)
  have o2: "out2 = (if n \<noteq> 0 then discard_to_idx out n else out)" using r keep by (auto simp: out2_def)
  have "fst (get_audio_and_video_packets out2)" using r o2 f \<open>f\<close> by (auto split: if_splits)
  moreover have "get_first_audio_encoder_index out2 = Some k"
    using kv(1) unfolding o2 by (simp add: get_first_audio_encoder_index_def discard_to_idx_def)
  ultimately show thesis
    using r keep [of out2] by (intro that [of out2 k]) (auto simp: o2)
qed

lemma shift_packets_Some:
  assumes "shift_packets k out = Some out'"
  shows "interleaved_packets out' = map (apply_interleaved_packet_offset out') (interleaved_packets out)"
    "sent_packets out' = sent_packets out" "same_tracks out out'" "received_audio out' = received_audio out"
    "received_video out' = received_video out" "highest_video_ts out' = highest_video_ts out"
    "video_offsets out' = video_offsets (new_offsets out)" "audio_offsets out' = audio_offsets (new_offsets out)"
    "find_first_packet_type out OBS_ENCODER_AUDIO k \<noteq> None"
    "highest_audio_ts out' = highest_audio_ts out - p_dts_usec (the (find_first_packet_type out OBS_ENCODER_AUDIO k))"
  using assms
  by (auto simp: shift_packets_def Let_def new_offsets_def same_tracks_def apply_interleaved_packet_offset_def
      track_offset_def split: option.splits)

lemma apply_ept_fields [simp]:
  "interleaved_packets (apply_ept_offsets out) = interleaved_packets out" "sent_packets (apply_ept_offsets out) = sent_packets out"
  "received_audio (apply_ept_offsets out) = received_audio out" "received_video (apply_ept_offsets out) = received_video out"
  "video_offsets (apply_ept_offsets out) = video_offsets out" "audio_offsets (apply_ept_offsets out) = audio_offsets out"
  "highest_video_ts (apply_ept_offsets out) = highest_video_ts out" "highest_audio_ts (apply_ept_offsets out) = highest_audio_ts out"
  "same_tracks out (apply_ept_offsets out)"
  by (simp_all add: apply_ept_offsets_def same_tracks_def)

lemma check_alignment_fields [simp]:
  "interleaved_packets (check_encoder_group_keyframe_alignment out p) = interleaved_packets out"
  "sent_packets (check_encoder_group_keyframe_alignment out p) = sent_packets out"
  "received_audio (check_encoder_group_keyframe_alignment out p) = received_audio out"
  "received_video (check_encoder_group_keyframe_alignment out p) = received_video out"
  "video_offsets (check_encoder_group_keyframe_alignment out p) = video_offsets out"
  "audio_offsets (check_encoder_group_keyframe_alignment out p) = audio_offsets out"
  "highest_video_ts (check_encoder_group_keyframe_alignment out p) = highest_video_ts out"
  "highest_audio_ts (check_encoder_group_keyframe_alignment out p) = highest_audio_ts out"
  "video_encoders (check_encoder_group_keyframe_alignment out p) = video_encoders out"
  "audio_encoders (check_encoder_group_keyframe_alignment out p) = audio_encoders out"
  "output_active (check_encoder_group_keyframe_alignment out p) = output_active out"
  "interleaver_max_batch_size (check_encoder_group_keyframe_alignment out p) = interleaver_max_batch_size out"
  by (simp_all add: check_encoder_group_keyframe_alignment_def split: option.splits prod.splits)

lemma push_packet_time_fields [simp]:
  "interleaved_packets (push_packet_time out p t) = interleaved_packets out"
  "sent_packets (push_packet_time out p t) = sent_packets out"
  "received_audio (push_packet_time out p t) = received_audio out"
  "received_video (push_packet_time out p t) = received_video out"
  "video_offsets (push_packet_time out p t) = video_offsets out"
  "audio_offsets (push_packet_time out p t) = audio_offsets out"
  "highest_video_ts (push_packet_time out p t) = highest_video_ts out"
  "highest_audio_ts (push_packet_time out p t) = highest_audio_ts out"
  "video_encoders (push_packet_time out p t) = video_encoders out"
  "audio_encoders (push_packet_time out p t) = audio_encoders out"
  "output_active (push_packet_time out p t) = output_active out"
  "interleaver_max_batch_size (push_packet_time out p t) = interleaver_max_batch_size out"
  by (simp_all add: push_packet_time_def split: option.splits)

lemma check_received_fields [simp]:
  "interleaved_packets (check_received out p) = interleaved_packets out" "sent_packets (check_received out p) = sent_packets out"
  "video_offsets (check_received out p) = video_offsets out" "audio_offsets (check_received out p) = audio_offsets out"
  "highest_video_ts (check_received out p) = highest_video_ts out" "highest_audio_ts (check_received out p) = highest_audio_ts out"
  "video_encoders (check_received out p) = video_encoders out" "audio_encoders (check_received out p) = audio_encoders out"
  "output_active (check_received out p) = output_active out"
  "interleaver_max_batch_size (check_received out p) = interleaver_max_batch_size out"
  by (simp_all add: check_received_def)

section \<open>The cases of an arriving packet\<close>

definition tracked :: "obs_output \<Rightarrow> encoder_packet \<Rightarrow> encoder_packet" where
  "tracked out p = p\<lparr>p_track_idx := get_encoder_index out p\<rparr>"

definition started :: "obs_output \<Rightarrow> bool" where
  "started out \<longleftrightarrow> received_audio out \<and> all_video_received out"

definition waiting_for_keyframe :: "obs_output \<Rightarrow> encoder_packet \<Rightarrow> bool" where
  "waiting_for_keyframe out p \<longleftrightarrow> p_type p = OBS_ENCODER_VIDEO \<and> \<not> received_video out (p_track_idx p) \<and> \<not> p_keyframe p"

text \<open>The output with the packet in its queue, before anything is sent.\<close>

definition queued :: "encoder_packet \<Rightarrow> encoder_packet_time option \<Rightarrow> obs_output \<Rightarrow> obs_output" where
  "queued p t out =
    (let out1 = check_encoder_group_keyframe_alignment out p;
         p' = (if started out then apply_interleaved_packet_offset out p else p);
         t' = (if started out then map_option (\<lambda>t. t\<lparr>pt_pts := pt_pts t - track_offset out p\<rparr>) t else t);
         out2 = push_packet_time out1 p t'
     in insert_interleaved_packet (if started out then out2 else check_received out2 p) p')"

lemma all_video_received_cong:
  "video_encoders a = video_encoders b \<Longrightarrow> received_video a = received_video b \<Longrightarrow> all_video_received a = all_video_received b"
  by (simp add: all_video_received_def)

lemma apply_offset_cong:
  "video_offsets a = video_offsets b \<Longrightarrow> audio_offsets a = audio_offsets b \<Longrightarrow>
    apply_interleaved_packet_offset a p = apply_interleaved_packet_offset b p"
  by (simp add: apply_interleaved_packet_offset_def track_offset_def)

lemma interleave_packets_cases:
  "interleave_packets cap p0 t out =
    (let p = tracked out p0
     in if \<not> output_active out then Some out
        else if waiting_for_keyframe out p then Some (discard_unused_audio_packets out (p_dts_usec p))
        else if started out then stream_packets cap (set_higher_ts (queued p t out) (apply_interleaved_packet_offset out p))
        else if started (queued p t out) then start_interleaving cap (queued p t out)
        else Some (queued p t out))"
proof -
  let ?c = "\<lambda>p. check_encoder_group_keyframe_alignment out p"
  have c: "all_video_received (?c p) = all_video_received out"
    "apply_interleaved_packet_offset (?c p) q = apply_interleaved_packet_offset out q" "track_offset (?c p) q = track_offset out q"
    for p q
    by (simp_all add: all_video_received_def apply_interleaved_packet_offset_def track_offset_def)
  have q: "started (queued p t out)" if "started out" for p
    using that by (simp add: queued_def Let_def started_def all_video_received_def)
      (simp add: insert_interleaved_packet_def)
  show ?thesis
    using q [of "tracked out p0"]
    by (simp add: interleave_packets_def Let_def waiting_for_keyframe_def c queued_def [of "tracked out p0"] started_def
        flip: tracked_def) (auto simp: started_def queued_def Let_def)
qed

section \<open>The queue stays sorted\<close>

lemma quiet_sorted: "quiet out out' \<Longrightarrow> queue_sorted out \<Longrightarrow> queue_sorted out'"
  by (auto simp: quiet_def queue_sorted_def sorted_wrt_drop)

lemma send_sorted: "send_interleaved cap out = Some out' \<Longrightarrow> queue_sorted out \<Longrightarrow> queue_sorted out'"
  by (erule send_interleaved_Some) (auto simp: queue_sorted_def)

lemma queued_packets:
  "interleaved_packets (queued p t out) =
    insert_packet (if started out then apply_interleaved_packet_offset out p else p) (interleaved_packets out)"
  "sent_packets (queued p t out) = sent_packets out" "same_tracks out (queued p t out)"
  "video_offsets (queued p t out) = video_offsets out" "audio_offsets (queued p t out) = audio_offsets out"
  "highest_video_ts (queued p t out) = highest_video_ts out" "highest_audio_ts (queued p t out) = highest_audio_ts out"
  by (simp_all add: queued_def Let_def same_tracks_def) (simp_all add: insert_interleaved_packet_def)

lemma stream_sorted:
  assumes "stream_packets cap out = Some out'" "queue_sorted out"
  shows "queue_sorted out'"
  using assms send_sorted by (auto simp: stream_packets_def Let_def split: if_splits option.splits)

lemma start_sorted:
  assumes "start_interleaving cap out = Some out'" "queue_sorted out"
  shows "queue_sorted out'"
proof -
  obtain b out1 where p: "prune_interleaved_packets out = Some (b, out1)"
    using assms(1) by (auto simp: start_interleaving_def split: option.splits)
  have s1: "queue_sorted out1" using quiet_sorted [OF quiet_prune [OF p] assms(2)] .
  show ?thesis
  proof (cases b)
    case True
    then obtain r out2 where i: "initialize_interleaved_packets out1 = Some (r, out2)"
      using assms(1) p by (auto simp: start_interleaving_def split: option.splits)
    have "queue_sorted (apply_ept_offsets (resort_interleaved_packets out2))"
      by (simp add: queue_sorted_def resort_fields(1))
    then show ?thesis
      using assms(1) p i True quiet_sorted [OF initialize_False s1] send_sorted
      by (cases r) (auto simp: start_interleaving_def)
  qed (use assms(1) p s1 in \<open>simp add: start_interleaving_def\<close>)
qed

lemma interleave_sorted:
  assumes "interleave_packets cap p t out = Some out'" "queue_sorted out"
  shows "queue_sorted out'"
proof -
  have q: "queue_sorted (queued p' t out)" for p'
    using assms(2) by (simp add: queue_sorted_def queued_packets insert_packet_sorted)
  then have "queue_sorted (set_higher_ts (queued p' t out) r)" for p' r by (simp add: queue_sorted_def)
  then show ?thesis
    using assms q quiet_sorted [OF quiet_discard_unused] start_sorted stream_sorted
    by (auto simp: interleave_packets_cases Let_def split: if_splits)
qed

lemma interleave_all_sorted:
  "interleave_all cap ps out = Some out' \<Longrightarrow> queue_sorted out \<Longrightarrow> queue_sorted out'"
  by (induction cap ps out rule: interleave_all.induct) (auto split: option.splits dest: interleave_sorted)

lemma reset_fields:
  "interleaved_packets (reset_packet_data out) = []" "sent_packets (reset_packet_data out) = sent_packets out"
  "same_tracks out (reset_packet_data out)" "\<not> received_audio (reset_packet_data out)"
  "\<not> received_video (reset_packet_data out) i" "highest_audio_ts (reset_packet_data out) = 0"
  "highest_video_ts (reset_packet_data out) i = word_of_int (- (2 ^ 63))"
  "video_offsets (reset_packet_data out) i = 0" "audio_offsets (reset_packet_data out) i = 0"
  by (simp_all add: reset_packet_data_def free_packets_def same_tracks_def)

section \<open>Nothing is lost after the start\<close>

text \<open>A packet up to the data, which captions extend.\<close>

definition stamp :: "encoder_packet \<Rightarrow> encoder_packet" where
  "stamp p = p\<lparr>p_data := []\<rparr>"

definition keeps_stamps :: "captions \<Rightarrow> bool" where
  "keeps_stamps cap \<longleftrightarrow> (\<forall>n p. stamp (cap n p) = stamp p)"

definition held :: "obs_output \<Rightarrow> encoder_packet multiset" where
  "held out = mset (map (stamp \<circ> fst) (sent_packets out)) + mset (map stamp (interleaved_packets out))"

lemma send_held:
  assumes "send_interleaved cap out = Some out'" "keeps_stamps cap"
  shows "held out' = held out"
  using assms by (elim send_interleaved_Some) (auto simp: held_def keeps_stamps_def)

lemma same_tracks_received: "same_tracks a b \<Longrightarrow> received_video a = received_video b \<Longrightarrow> received_audio a = received_audio b \<Longrightarrow>
    started a = started b"
  by (simp add: started_def same_tracks_def all_video_received_def)

text \<open>Sending changes neither what is held nor the state of the tracks.\<close>

definition forwards :: "obs_output \<Rightarrow> obs_output \<Rightarrow> bool" where
  "forwards out out' \<longleftrightarrow> same_tracks out out' \<and> received_audio out' = received_audio out \<and> received_video out' = received_video out \<and>
     video_offsets out' = video_offsets out \<and> audio_offsets out' = audio_offsets out \<and>
     highest_video_ts out' = highest_video_ts out \<and> highest_audio_ts out' = highest_audio_ts out"

lemma send_forwards: "send_interleaved cap out = Some out' \<Longrightarrow> forwards out out'"
  by (erule send_interleaved_Some) (simp add: forwards_def)

lemma forwards_trans: "forwards a b \<Longrightarrow> forwards b c \<Longrightarrow> forwards a c"
  using same_tracks_trans by (auto simp: forwards_def)

lemma forwards_refl [simp]: "forwards a a"
  by (simp add: forwards_def)

lemma stream_forwards:
  assumes "stream_packets cap out = Some out'"
  shows "forwards out out'" "keeps_stamps cap \<Longrightarrow> held out' = held out"
  using assms by (auto simp: stream_packets_def Let_def send_held split: if_splits option.splits
      dest!: send_forwards intro: forwards_trans)

lemma stamp_offset: "stamp (apply_interleaved_packet_offset out p) = apply_interleaved_packet_offset out (stamp p)"
  by (simp add: stamp_def apply_interleaved_packet_offset_def track_offset_def packet_dts_usec_def Let_def)

lemma interleave_started:
  assumes "interleave_packets cap p t out = Some out'" "started out" "output_active out"
    "\<not> waiting_for_keyframe out (tracked out p)"
  shows "same_tracks out out'" "received_audio out' = received_audio out" "received_video out' = received_video out"
    "video_offsets out' = video_offsets out" "audio_offsets out' = audio_offsets out" "started out'"
    "keeps_stamps cap \<Longrightarrow> held out' = add_mset (stamp (apply_interleaved_packet_offset out (tracked out p))) (held out)"
proof -
  let ?p = "tracked out p"
  let ?q = "set_higher_ts (queued ?p t out) (apply_interleaved_packet_offset out ?p)"
  have st: "stream_packets cap ?q = Some out'" using assms by (simp add: interleave_packets_cases Let_def)
  have q: "received_audio ?q = received_audio out" "received_video ?q = received_video out"
    using assms(2) by (simp_all add: queued_def Let_def)
  show t: "same_tracks out out'"
    using stream_forwards(1) [OF st] queued_packets(3) same_tracks_trans set_higher_ts_fields(7)
    unfolding forwards_def by blast
  show r: "received_audio out' = received_audio out" "received_video out' = received_video out"
    "video_offsets out' = video_offsets out" "audio_offsets out' = audio_offsets out"
    using stream_forwards(1) [OF st] q by (simp_all add: forwards_def queued_packets)
  show "started out'" using assms(2) t r same_tracks_received by metis
  show "keeps_stamps cap \<Longrightarrow> held out' = add_mset (stamp (apply_interleaved_packet_offset out ?p)) (held out)"
    using stream_forwards(2) [OF st] assms(2) by (simp add: held_def queued_packets)
qed

section \<open>The queue is never read past its end\<close>

lemma find_from_Some:
  "find_from f i xs = Some j \<Longrightarrow> i \<le> j \<and> j < i + length xs \<and> f (xs ! (j - i)) \<and> (\<forall>k < j - i. \<not> f (xs ! k))"
proof (induction xs arbitrary: i)
  case (Cons x xs)
  show ?case
  proof (cases "f x")
    case False
    then have *: "Suc i \<le> j \<and> j < Suc i + length xs \<and> f (xs ! (j - Suc i)) \<and> (\<forall>k < j - Suc i. \<not> f (xs ! k))"
      using Cons.IH [of "Suc i"] Cons.prems by simp
    then obtain d where d: "j - i = Suc d" "j - Suc i = d" by (metis Suc_diff_le diff_Suc_Suc)
    have "\<not> f ((x # xs) ! k)" if "k < j - i" for k using that * False d by (cases k) auto
    then show ?thesis using * d by auto
  qed (use Cons in auto)
qed simp

lemma find_from_None: "find_from f i xs = None \<longleftrightarrow> (\<forall>x \<in> set xs. \<not> f x)"
  by (induction xs arbitrary: i) auto

lemma first_index_Some: "first_index f n = Some i \<Longrightarrow> i < n \<and> f i"
  unfolding first_index_def find_Some_iff by auto

lemma first_index_None: "first_index f n = None \<longleftrightarrow> (\<forall>i < n. \<not> f i)"
  unfolding first_index_def find_None_iff by auto

lemma find_first_packet_type_None:
  "find_first_packet_type out ty i = None \<longleftrightarrow> (\<forall>p \<in> set (interleaved_packets out). \<not> is_track ty i p)"
  by (simp add: find_first_packet_type_def find_first_packet_type_idx_def find_from_None)

lemma find_first_packet_type_Some:
  "find_first_packet_type out ty i = Some p \<Longrightarrow> p \<in> set (interleaved_packets out) \<and> is_track ty i p"
  by (auto simp: find_first_packet_type_def find_first_packet_type_idx_def dest!: find_from_Some)

lemma find_first_idx_None: "find_first_packet_type_idx out ty i = None \<longleftrightarrow> find_first_packet_type out ty i = None"
  by (simp add: find_first_packet_type_def)

text \<open>Every packet of the queue belongs to an encoder of the output.\<close>

definition track_known :: "obs_output \<Rightarrow> encoder_packet \<Rightarrow> bool" where
  "track_known out p \<longleftrightarrow>
    (if p_type p = OBS_ENCODER_VIDEO
     then p_track_idx p < MAX_OUTPUT_VIDEO_ENCODERS \<and> video_encoders out (p_track_idx p) \<noteq> None
     else p_track_idx p < MAX_OUTPUT_AUDIO_ENCODERS \<and> audio_encoders out (p_track_idx p) \<noteq> None)"

definition tracks_known :: "obs_output \<Rightarrow> bool" where
  "tracks_known out \<longleftrightarrow> (\<forall>p \<in> set (interleaved_packets out). track_known out p)"

definition known_packet :: "obs_output \<Rightarrow> encoder_packet \<Rightarrow> bool" where
  "known_packet out p \<longleftrightarrow>
    (if p_type p = OBS_ENCODER_VIDEO
     then \<exists>i < MAX_OUTPUT_VIDEO_ENCODERS. is_encoder (video_encoders out i) p
     else \<exists>i < MAX_OUTPUT_AUDIO_ENCODERS. is_encoder (audio_encoders out i) p)"

definition has_audio_encoder :: "obs_output \<Rightarrow> bool" where
  "has_audio_encoder out \<longleftrightarrow> (\<exists>i < MAX_OUTPUT_AUDIO_ENCODERS. audio_encoders out i \<noteq> None)"

lemma same_tracks_cong:
  assumes "same_tracks out out'"
  shows "track_known out' p = track_known out p" "known_packet out' p = known_packet out p"
    "has_audio_encoder out' = has_audio_encoder out" "tracked out' p = tracked out p" "output_active out' = output_active out"
  using assms by (simp_all add: same_tracks_def track_known_def known_packet_def has_audio_encoder_def tracked_def
      get_encoder_index_def)

lemma tracked_known:
  assumes "known_packet out p"
  shows "track_known out (tracked out p)"
proof (cases "p_type p = OBS_ENCODER_VIDEO")
  case True
  let ?f = "\<lambda>i. is_encoder (video_encoders out i) p"
  obtain i where i: "first_index ?f MAX_OUTPUT_VIDEO_ENCODERS = Some i"
    using assms True first_index_None [of ?f] by (auto simp: known_packet_def)
  then have "i < MAX_OUTPUT_VIDEO_ENCODERS" "video_encoders out i \<noteq> None"
    using first_index_Some [OF i] by (auto simp: is_encoder_def split: option.splits)
  then show ?thesis using True i by (simp add: tracked_def track_known_def get_encoder_index_def)
next
  case False
  let ?f = "\<lambda>i. is_encoder (audio_encoders out i) p"
  obtain i where i: "first_index ?f MAX_OUTPUT_AUDIO_ENCODERS = Some i"
    using assms False first_index_None [of ?f] by (auto simp: known_packet_def)
  then have "i < MAX_OUTPUT_AUDIO_ENCODERS" "audio_encoders out i \<noteq> None"
    using first_index_Some [OF i] by (auto simp: is_encoder_def split: option.splits)
  then show ?thesis using False i by (simp add: tracked_def track_known_def get_encoder_index_def)
qed

lemma start_scan_idx:
  "start_scan fv d i ps acc = (c', v', idx') \<Longrightarrow>
    idx' = snd (snd acc) \<or> (i \<le> idx' \<and> idx' < i + length ps \<and> p_type (ps ! (idx' - i)) = OBS_ENCODER_AUDIO)"
proof (induction fv d i ps acc rule: start_scan.induct)
  case (2 fv d i p ps c v idx)
  let ?acc = "if p_type p \<noteq> OBS_ENCODER_AUDIO then (c, if fv = Some i then i else v, idx)
    else (let diff = llabs (p_dts_usec p - d) in if s64_less diff c then (diff, v, i) else (c, v, idx))"
  have "start_scan fv d (Suc i) ps ?acc = (c', v', idx')" using 2(2) by simp
  from 2(1) [OF this] consider "idx' = snd (snd ?acc)"
    | "Suc i \<le> idx'" "idx' < Suc i + length ps" "p_type (ps ! (idx' - Suc i)) = OBS_ENCODER_AUDIO" by blast
  then show ?case
  proof cases
    case 1
    then show ?thesis by (auto simp: Let_def split: if_splits)
  next
    case 2
    then obtain k where "idx' - i = Suc k" "idx' - Suc i = k" by (metis Suc_diff_le diff_Suc_Suc)
    then show ?thesis using 2 by auto
  qed
qed auto

lemma start_idx_defined:
  assumes "find_first_packet_type_idx out OBS_ENCODER_VIDEO 0 \<noteq> None"
    "\<exists>p \<in> set (interleaved_packets out). p_type p = OBS_ENCODER_AUDIO"
  shows "get_interleaved_start_idx out \<noteq> None"
proof -
  let ?q = "interleaved_packets out" and ?audio = "\<lambda>p. p_type p = OBS_ENCODER_AUDIO"
  obtain v where v: "find_first_packet_type_idx out OBS_ENCODER_VIDEO 0 = Some v" using assms(1) by blast
  obtain c vi i0 where s: "start_scan (Some v) (p_dts_usec (?q ! v)) 0 ?q (0x7FFFFFFFFFFFFFFF, DARRAY_INVALID, 0) = (c, vi, i0)"
    by (metis prod_cases3)
  have "i0 = 0 \<or> i0 < length ?q \<and> ?audio (?q ! i0)" using start_scan_idx [OF s] by auto
  then have "\<exists>p \<in> set (drop i0 ?q). ?audio p" using assms(2) by (metis drop0 Cons_nth_drop_Suc list.set_intros(1))
  then have "\<exists>p \<in> set (drop (if vi < i0 then vi else i0) ?q). ?audio p"
    using set_drop_subset_set_drop [of vi i0 ?q] by (auto dest: less_imp_le)
  then have "find_from ?audio (if vi < i0 then vi else i0) (drop (if vi < i0 then vi else i0) ?q) \<noteq> None"
    unfolding find_from_None by blast
  then obtain a where "find_from ?audio (if vi < i0 then vi else i0) (drop (if vi < i0 then vi else i0) ?q) = Some a"
    by blast
  then show ?thesis using v s by (simp add: get_interleaved_start_idx_def Let_def)
qed

lemma prune_scan_audio:
  "prune_scan out v is s = Some s' \<Longrightarrow> \<forall>i \<in> set is. audio_encoders out i \<noteq> None \<longrightarrow>
    find_first_packet_type_idx out OBS_ENCODER_AUDIO i \<noteq> None"
  by (induction out v "is" s rule: prune_scan.induct) (auto simp: Let_def split: option.splits)

lemma prune_premature_ready:
  assumes "prune_premature_packets out = (n, out')" "n \<noteq> -1"
  shows "out' = out" "0 \<le> n" "find_first_packet_type_idx out OBS_ENCODER_VIDEO 0 \<noteq> None"
    "i < MAX_OUTPUT_AUDIO_ENCODERS \<Longrightarrow> audio_encoders out i \<noteq> None \<Longrightarrow> find_first_packet_type out OBS_ENCODER_AUDIO i \<noteq> None"
proof -
  obtain v where v: "find_first_packet_type_idx out OBS_ENCODER_VIDEO 0 = Some v"
    using assms by (cases "find_first_packet_type_idx out OBS_ENCODER_VIDEO 0") (auto simp: prune_premature_packets_def)
  let ?r = "prune_scan out (interleaved_packets out ! v) [0..<MAX_OUTPUT_AUDIO_ENCODERS]
    \<lparr>ps_max_idx = v, ps_max_audio_duration = 0, ps_diff = 0, ps_max_diff = 0, ps_audio_encoders = 0\<rparr>"
  obtain s where s: "?r = Some s"
    using assms v by (cases ?r) (auto simp: prune_premature_packets_def Let_def)
  show "out' = out" "0 \<le> n" using assms v s by (auto simp: prune_premature_packets_def Let_def split: if_splits)
  show "find_first_packet_type_idx out OBS_ENCODER_VIDEO 0 \<noteq> None" using v by simp
  show "i < MAX_OUTPUT_AUDIO_ENCODERS \<Longrightarrow> audio_encoders out i \<noteq> None \<Longrightarrow> find_first_packet_type out OBS_ENCODER_AUDIO i \<noteq> None"
    using prune_scan_audio [OF s] by (auto simp: find_first_packet_type_def)
qed

lemma get_packets_found:
  assumes "fst (get_audio_and_video_packets out)"
  shows "snd (get_audio_and_video_packets out) = out"
    "i < MAX_OUTPUT_VIDEO_ENCODERS \<Longrightarrow> video_encoders out i \<noteq> None \<Longrightarrow> find_first_packet_type out OBS_ENCODER_VIDEO i \<noteq> None"
    "j < MAX_OUTPUT_AUDIO_ENCODERS \<Longrightarrow> audio_encoders out j \<noteq> None \<Longrightarrow> find_first_packet_type out OBS_ENCODER_AUDIO j \<noteq> None"
    "get_first_video_encoder_index out \<noteq> None"
proof -
  let ?v = "\<lambda>i. video_encoders out i \<noteq> None \<and> find_first_packet_type out OBS_ENCODER_VIDEO i = None"
  let ?a = "\<lambda>i. audio_encoders out i \<noteq> None \<and> find_first_packet_type out OBS_ENCODER_AUDIO i = None"
  have n: "first_index ?v MAX_OUTPUT_VIDEO_ENCODERS = None" "first_index ?a MAX_OUTPUT_AUDIO_ENCODERS = None"
    using assms unfolding get_audio_and_video_packets_def by (auto split: option.splits)
  show "snd (get_audio_and_video_packets out) = out" "get_first_video_encoder_index out \<noteq> None"
    using n assms unfolding get_audio_and_video_packets_def by auto
  show "i < MAX_OUTPUT_VIDEO_ENCODERS \<Longrightarrow> video_encoders out i \<noteq> None \<Longrightarrow> find_first_packet_type out OBS_ENCODER_VIDEO i \<noteq> None"
    using n(1) by (auto simp: first_index_None)
  show "j < MAX_OUTPUT_AUDIO_ENCODERS \<Longrightarrow> audio_encoders out j \<noteq> None \<Longrightarrow> find_first_packet_type out OBS_ENCODER_AUDIO j \<noteq> None"
    using n(2) by (auto simp: first_index_None)
qed

lemma shift_defined: "find_first_packet_type out OBS_ENCODER_AUDIO k \<noteq> None \<Longrightarrow> shift_packets k out \<noteq> None"
  by (auto simp: shift_packets_def Let_def)

lemma audio_in_queue:
  "find_first_packet_type out OBS_ENCODER_AUDIO i \<noteq> None \<Longrightarrow>
    \<exists>p \<in> set (interleaved_packets out). p_type p = OBS_ENCODER_AUDIO"
  by (auto simp: is_track_def dest!: find_first_packet_type_Some)

lemma quiet_known:
  assumes "quiet out out'" "tracks_known out"
  shows "tracks_known out'"
proof -
  have "set (interleaved_packets out') \<subseteq> set (interleaved_packets out)"
    using assms(1) by (auto simp: quiet_def dest: in_set_dropD)
  then show ?thesis using assms same_tracks_cong(1) [of out out'] by (auto simp: tracks_known_def quiet_def)
qed

lemma initialize_defined:
  assumes "find_first_packet_type_idx out OBS_ENCODER_VIDEO 0 \<noteq> None \<or> video_encoders out 0 \<noteq> None"
    "tracks_known out"
  shows "initialize_interleaved_packets out \<noteq> None"
proof -
  have v0: "video_encoders out 0 \<noteq> None"
  proof (rule disjE [OF assms(1)])
    assume "find_first_packet_type_idx out OBS_ENCODER_VIDEO 0 \<noteq> None"
    then obtain p where "find_first_packet_type out OBS_ENCODER_VIDEO 0 = Some p" by (auto simp: find_first_idx_None)
    from find_first_packet_type_Some [OF this] show ?thesis
      using assms(2) by (auto simp: tracks_known_def track_known_def is_track_def)
  qed
  obtain f out1 where f: "get_audio_and_video_packets out = (f, out1)" by fastforce
  show ?thesis
  proof (cases "f \<and> get_first_audio_encoder_index out \<noteq> None \<and> get_first_video_encoder_index out \<noteq> None")
    case True
    then obtain a v where av: "get_first_audio_encoder_index out = Some a" "get_first_video_encoder_index out = Some v" by blast
    have a: "a < MAX_OUTPUT_AUDIO_ENCODERS" "audio_encoders out a \<noteq> None"
      and v: "v < MAX_OUTPUT_VIDEO_ENCODERS" "video_encoders out v \<noteq> None"
      using av by (auto simp: get_first_audio_encoder_index_def get_first_video_encoder_index_def dest: first_index_Some)
    have fo: "fst (get_audio_and_video_packets out)" using f True by simp
    have o1: "out1 = out" using get_packets_found(1) [OF fo] f by simp
    note found = get_packets_found [OF fo]
    have "find_first_packet_type_idx out OBS_ENCODER_VIDEO 0 \<noteq> None"
      using found(2) [of 0] v0 by (simp add: find_first_idx_None MAX_OUTPUT_VIDEO_ENCODERS_def)
    then obtain n where n: "get_interleaved_start_idx out = Some n"
      using start_idx_defined audio_in_queue [OF found(3) [OF a]] by blast
    let ?out2 = "discard_to_idx out n"
    have "shift_packets a out \<noteq> None" using found(3) [OF a] by (rule shift_defined)
    moreover have "shift_packets a (snd (get_audio_and_video_packets ?out2)) \<noteq> None" if "fst (get_audio_and_video_packets ?out2)"
    proof -
      have "audio_encoders ?out2 a \<noteq> None" using a(2) by (simp add: discard_to_idx_def)
      from get_packets_found(3) [OF that a(1) this] show ?thesis
        unfolding get_packets_found(1) [OF that] by (rule shift_defined)
    qed
    ultimately show ?thesis
      using f o1 av n True found(2) [OF v]
      by (auto simp: initialize_interleaved_packets_def Let_def split: option.splits prod.splits)
  next
    case False
    then show ?thesis using f by (auto simp: initialize_interleaved_packets_def split: option.splits)
  qed
qed

lemma started_queue_nonempty:
  assumes "initialize_interleaved_packets out = Some (True, out')"
  shows "interleaved_packets out' \<noteq> []"
proof -
  obtain out2 k where o2: "fst (get_audio_and_video_packets out2)" "shift_packets k out2 = Some out'"
    using initialize_True [OF assms] by metis
  obtain p where "p \<in> set (interleaved_packets out2)"
    using shift_packets_Some(9) [OF o2(2)] by (auto dest!: find_first_packet_type_Some)
  then show ?thesis using shift_packets_Some(1) [OF o2(2)] by (auto simp: in_set_conv_decomp)
qed

lemma start_defined:
  assumes "tracks_known out" "has_audio_encoder out"
  shows "start_interleaving cap out \<noteq> None"
proof -
  obtain n out1 where n: "prune_premature_packets out = (n, out1)" by fastforce
  show ?thesis
  proof (cases "n = -1")
    case True
    then show ?thesis using n by (simp add: start_interleaving_def prune_interleaved_packets_def)
  next
    case False
    note r = prune_premature_ready [OF n False]
    obtain a where "a < MAX_OUTPUT_AUDIO_ENCODERS" "audio_encoders out a \<noteq> None"
      using assms(2) by (auto simp: has_audio_encoder_def)
    then have "get_interleaved_start_idx out \<noteq> None"
      using start_idx_defined [OF r(3)] audio_in_queue [OF r(4)] by blast
    then obtain out2 where p: "prune_interleaved_packets out = Some (True, out2)"
      using n False r(1) by (cases "n = 0") (auto simp: prune_interleaved_packets_def)
    note q = quiet_prune [OF p]
    obtain v where "find_first_packet_type out OBS_ENCODER_VIDEO 0 = Some v" using r(3) by (auto simp: find_first_idx_None)
    then have "video_encoders out 0 \<noteq> None"
      using assms(1) by (auto simp: tracks_known_def track_known_def is_track_def dest!: find_first_packet_type_Some)
    then have "video_encoders out2 0 \<noteq> None" using q by (simp add: quiet_def same_tracks_def)
    then obtain ready out3 where i: "initialize_interleaved_packets out2 = Some (ready, out3)"
      using initialize_defined [of out2] quiet_known [OF q assms(1)] by auto
    have "ready \<Longrightarrow> interleaved_packets (apply_ept_offsets (resort_interleaved_packets out3)) \<noteq> []"
      using started_queue_nonempty [of out2 out3] i resort_fields(2) [of out3] by (metis apply_ept_fields(1) mset_zero_iff)
    then show ?thesis using p i send_interleaved_defined by (simp add: start_interleaving_def)
  qed
qed

lemma stream_defined: "stream_packets cap out \<noteq> None"
proof -
  let ?n = "count_streamable_frames out"
  have n: "?n \<le> length (interleaved_packets out)" by (simp add: count_streamable_frames_def length_takeWhile_le)
  show ?thesis
  proof (cases "?n = 0")
    case False
    then have "interleaved_packets out \<noteq> []" using n by auto
    then obtain out1 where s: "send_interleaved cap out = Some out1" using send_interleaved_defined by blast
    obtain p where "interleaved_packets out = p # interleaved_packets out1" by (rule send_interleaved_Some [OF s])
    then have "interleaved_packets out1 \<noteq> []" if "interleaver_max_batch_size out < ?n - 1" using n that by auto
    then show ?thesis using False s send_interleaved_defined by (auto simp: stream_packets_def Let_def)
  qed (simp add: stream_packets_def)
qed

lemma interleave_defined:
  assumes "tracks_known out" "has_audio_encoder out" "known_packet out p"
  shows "interleave_packets cap p t out \<noteq> None"
proof -
  have k: "track_known out (tracked out p)" by (rule tracked_known [OF assms(3)])
  have "tracks_known (queued (tracked out p) t out)" if "\<not> started out"
    using k assms(1) that same_tracks_cong(1) [OF queued_packets(3) [of out "tracked out p" t]]
    by (auto simp: tracks_known_def queued_packets)
  then show ?thesis
    using start_defined [of "queued (tracked out p) t out" cap] stream_defined assms(2)
      same_tracks_cong(3) [OF queued_packets(3)]
    by (auto simp: interleave_packets_cases Let_def)
qed

lemma track_known_offset: "track_known out (apply_interleaved_packet_offset out' p) = track_known out p"
  by (simp add: track_known_def apply_interleaved_packet_offset_def Let_def)

text \<open>Nothing changes the encoders, and every packet of the queue keeps its track.\<close>

definition keeps_known :: "obs_output \<Rightarrow> obs_output \<Rightarrow> bool" where
  "keeps_known out out' \<longleftrightarrow> same_tracks out out' \<and> (tracks_known out \<longrightarrow> tracks_known out')"

lemma keeps_known_trans: "keeps_known a b \<Longrightarrow> keeps_known b c \<Longrightarrow> keeps_known a c"
  using same_tracks_trans by (auto simp: keeps_known_def)

lemma keeps_known_refl [simp]: "keeps_known a a"
  by (simp add: keeps_known_def)

lemma quiet_keeps_known: "quiet out out' \<Longrightarrow> keeps_known out out'"
  using quiet_known by (auto simp: keeps_known_def quiet_def)

lemma send_keeps_known:
  assumes "send_interleaved cap out = Some out'"
  shows "keeps_known out out'"
proof -
  obtain p where p: "interleaved_packets out = p # interleaved_packets out'" and s: "same_tracks out out'"
    by (rule send_interleaved_Some [OF assms])
  then show ?thesis using same_tracks_cong(1) [OF s] by (auto simp: keeps_known_def tracks_known_def)
qed

lemma start_keeps_known:
  assumes "start_interleaving cap out = Some out'"
  shows "keeps_known out out'"
proof -
  obtain b out1 where p: "prune_interleaved_packets out = Some (b, out1)"
    using assms by (auto simp: start_interleaving_def split: option.splits)
  note k1 = quiet_keeps_known [OF quiet_prune [OF p]]
  show ?thesis
  proof (cases b)
    case True
    then obtain r out2 where i: "initialize_interleaved_packets out1 = Some (r, out2)"
      using assms p by (auto simp: start_interleaving_def split: option.splits)
    show ?thesis
    proof (cases r)
      case r: True
      obtain out3 k where o3: "quiet out1 out3" "shift_packets k out3 = Some out2"
        by (rule initialize_True [of out1 out2]) (use i r in auto)
      note sh = shift_packets_Some [OF o3(2)] and rs = resort_fields [of out2]
      let ?s = "apply_ept_offsets (resort_interleaved_packets out2)"
      have t: "same_tracks out3 ?s" using sh(3) rs(8) same_tracks_trans apply_ept_fields(9) by blast
      have "set (interleaved_packets ?s) = apply_interleaved_packet_offset out2 ` set (interleaved_packets out3)"
        using rs(2) sh(1) by (metis apply_ept_fields(1) set_map set_mset_mset)
      then have "keeps_known out3 ?s"
        using same_tracks_cong(1) [OF t] t by (auto simp: keeps_known_def tracks_known_def track_known_offset)
      from keeps_known_trans [OF keeps_known_trans [OF k1 quiet_keeps_known [OF o3(1)]] this]
      have "keeps_known out ?s" .
      moreover have "send_interleaved cap ?s = Some out'" using assms p i True r by (simp add: start_interleaving_def)
      ultimately show ?thesis by (rule keeps_known_trans [OF _ send_keeps_known])
    qed (use assms p i True k1 quiet_keeps_known [OF initialize_False] keeps_known_trans in
        \<open>auto simp: start_interleaving_def\<close>)
  qed (use assms p k1 in \<open>auto simp: start_interleaving_def\<close>)
qed

lemma stream_keeps_known:
  assumes "stream_packets cap out = Some out'"
  shows "keeps_known out out'"
  using assms send_keeps_known keeps_known_trans
  by (auto simp: stream_packets_def Let_def split: if_splits option.splits) blast

lemma interleave_keeps_known:
  assumes "interleave_packets cap p t out = Some out'" "known_packet out p"
  shows "keeps_known out out'"
proof -
  let ?p = "tracked out p"
  have k: "track_known out ?p" by (rule tracked_known [OF assms(2)])
  have q: "keeps_known out (queued ?p t out)"
    using k queued_packets(3) [of out ?p t] same_tracks_cong(1) [OF queued_packets(3) [of out ?p t]]
    by (auto simp: keeps_known_def tracks_known_def queued_packets track_known_offset)
  have h: "keeps_known x (set_higher_ts x r)" for x r
    using same_tracks_cong(1) [OF set_higher_ts_fields(7)] by (auto simp: keeps_known_def tracks_known_def)
  have "stream_packets cap (set_higher_ts (queued ?p t out) r) = Some out' \<Longrightarrow> keeps_known out out'" for r
    using keeps_known_trans [OF keeps_known_trans [OF q h] stream_keeps_known] .
  moreover have "start_interleaving cap (queued ?p t out) = Some out' \<Longrightarrow> keeps_known out out'"
    using keeps_known_trans [OF q start_keeps_known] .
  ultimately show ?thesis
    using assms(1) q quiet_keeps_known [OF quiet_discard_unused]
    by (auto simp: interleave_packets_cases Let_def split: if_splits)
qed

lemma interleave_all_defined:
  assumes "tracks_known out" "has_audio_encoder out" "\<forall>(p, t) \<in> set ps. known_packet out p"
  shows "\<exists>out'. interleave_all cap ps out = Some out' \<and> keeps_known out out'"
  using assms
proof (induction ps arbitrary: out)
  case (Cons a ps)
  obtain p t where a: "a = (p, t)" by fastforce
  have kp: "known_packet out p" using Cons.prems(3) a by auto
  obtain out1 where o1: "interleave_packets cap p t out = Some out1"
    using interleave_defined [OF Cons.prems(1, 2) kp] by blast
  note k = interleave_keeps_known [OF o1 kp]
  then have t: "same_tracks out out1" and "tracks_known out1" using Cons.prems(1) by (auto simp: keeps_known_def)
  moreover have "\<forall>(p, t) \<in> set ps. known_packet out1 p" using Cons.prems(3) same_tracks_cong(2) [OF t] by auto
  ultimately obtain out' where "interleave_all cap ps out1 = Some out'" "keeps_known out1 out'"
    using Cons.IH [of out1] Cons.prems(2) same_tracks_cong(3) [OF t] by auto
  then show ?case using o1 a keeps_known_trans [OF k] by auto
qed simp

lemma known_not_waiting:
  assumes "started out" "known_packet out p"
  shows "\<not> waiting_for_keyframe out (tracked out p)"
  using assms(1) tracked_known [OF assms(2)]
  by (auto simp: waiting_for_keyframe_def started_def all_video_received_def track_known_def list_all_iff)

lemma interleave_all_conserves:
  assumes "interleave_all cap ps out = Some out'" "started out" "output_active out" "keeps_stamps cap"
    "\<forall>(p, t) \<in> set ps. known_packet out p"
  shows "started out' \<and> held out' = held out + mset (map (\<lambda>(p, t). stamp (apply_interleaved_packet_offset out (tracked out p))) ps)"
  using assms
proof (induction ps arbitrary: out)
  case (Cons a ps)
  obtain p t where a: "a = (p, t)" by fastforce
  have kp: "known_packet out p" using Cons.prems(5) a by auto
  obtain out1 where o1: "interleave_packets cap p t out = Some out1" "interleave_all cap ps out1 = Some out'"
    using Cons.prems(1) a by (auto split: option.splits)
  note i = interleave_started [OF o1(1) Cons.prems(2, 3) known_not_waiting [OF Cons.prems(2) kp]]
  note c = same_tracks_cong [OF i(1)]
  have "started out' \<and> held out' = held out1 + mset (map (\<lambda>(p, t). stamp (apply_interleaved_packet_offset out1 (tracked out1 p))) ps)"
    using Cons.IH [OF o1(2) i(6) _ Cons.prems(4)] Cons.prems(3, 5) c(2, 5) by auto
  then show ?case using i(7) [OF Cons.prems(4)] c(4) apply_offset_cong [OF i(4, 5)] a by simp
qed simp

section \<open>Properties\<close>

text \<open>An output with one video and one audio encoder, and the packets they deliver.\<close>

definition av_output :: obs_output where
  "av_output = reset_packet_data \<lparr>output_active = True, received_video = (\<lambda>_. False), keyframe_group_tracking = [],
     received_audio = False, video_offsets = (\<lambda>_. 0), audio_offsets = (\<lambda>_. 0), highest_audio_ts = 0,
     highest_video_ts = (\<lambda>_. 0), interleaved_packets = [], interleaver_max_batch_size = 8, total_frames = 0,
     video_encoders = (\<lambda>i. if i = 0 then Some \<lparr>oe_ptr = 1, oe_timebase_num = 1, oe_timebase_den = 30, oe_framesize = 0,
       oe_group = None\<rparr> else None),
     audio_encoders = (\<lambda>i. if i = 0 then Some \<lparr>oe_ptr = 2, oe_timebase_num = 1, oe_timebase_den = 48000,
       oe_framesize = 1024, oe_group = None\<rparr> else None),
     encoder_packet_times = (\<lambda>_. []), sent_packets = []\<rparr>"

definition av_packet :: "obs_encoder_type \<Rightarrow> nat \<Rightarrow> s32 \<Rightarrow> bool \<Rightarrow> s64 \<Rightarrow> s64 \<Rightarrow> encoder_packet" where
  "av_packet ty enc den key dts usec = \<lparr>p_data = [], p_pts = dts, p_dts = dts, p_timebase_num = 1, p_timebase_den = den,
     p_type = ty, p_keyframe = key, p_dts_usec = usec, p_sys_dts_usec = usec, p_priority = 0, p_drop_priority = 0,
     p_track_idx = 0, p_encoder = Some enc\<rparr>"

abbreviation "av_video \<equiv> av_packet OBS_ENCODER_VIDEO 1 30"
abbreviation "av_audio \<equiv> av_packet OBS_ENCODER_AUDIO 2 48000"

lemma av_known: "known_packet av_output (av_video k d u)" "known_packet av_output (av_audio k d u)"
  by (auto simp: known_packet_def av_packet_def av_output_def reset_packet_data_def free_packets_def is_encoder_def
      MAX_OUTPUT_VIDEO_ENCODERS_def MAX_OUTPUT_AUDIO_ENCODERS_def split: if_splits)

lemma av_output_fields: "tracks_known av_output" "has_audio_encoder av_output" "output_active av_output" "queue_sorted av_output"
  by (auto simp: tracks_known_def has_audio_encoder_def av_output_def reset_packet_data_def free_packets_def
      queue_sorted_def MAX_OUTPUT_AUDIO_ENCODERS_def)

text \<open>
  C30.  The interleaving queue is sorted at every moment: by decode time, at equal times video before
  audio and the video tracks by their index, whatever packets arrive and whatever is pruned.
\<close>

theorem interleaved_queue_sorted:
  assumes "interleave_all cap ps (reset_packet_data out) = Some out'"
  shows "sorted_wrt packet_le (interleaved_packets out')"
proof -
  have "queue_sorted (reset_packet_data out)" by (simp add: queue_sorted_def reset_fields)
  from interleave_all_sorted [OF assms this] show ?thesis by (simp add: queue_sorted_def)
qed

theorem interleaved_queue_sorted_witness:
  "\<exists>out'. interleave_all (\<lambda>_ p. p) [(av_video True 0 7, None), (av_video False 1 5, None)] (reset_packet_data av_output) = Some out' \<and>
    sorted_wrt packet_le (interleaved_packets out')"
proof -
  let ?ps = "[(av_video True 0 7, None), (av_video False 1 5, None)]" and ?out = "reset_packet_data av_output"
  note c = same_tracks_cong [OF reset_fields(3) [of av_output]]
  have "tracks_known ?out" by (simp add: tracks_known_def reset_fields)
  then obtain out' where o': "interleave_all (\<lambda>_ p. p) ?ps ?out = Some out'"
    using interleave_all_defined [of ?out ?ps "\<lambda>_ p. p"] av_known av_output_fields(2) c(2, 3) by auto
  from interleaved_queue_sorted [OF o'] show ?thesis using o' by auto
qed

text \<open>
  C31.  The interleaver is defined on every input: with packets of the output's own encoders, one of
  which is an audio encoder, it never looks for a packet past the end of the queue and never
  follows a null pointer.
\<close>

theorem interleaver_defined:
  assumes "has_audio_encoder out" "\<forall>(p, t) \<in> set ps. known_packet out p"
  shows "interleave_all cap ps (reset_packet_data out) \<noteq> None"
proof -
  note c = same_tracks_cong [OF reset_fields(3) [of out]]
  have "tracks_known (reset_packet_data out)" by (simp add: tracks_known_def reset_fields)
  then show ?thesis using interleave_all_defined [of "reset_packet_data out" ps cap] assms c(2, 3) by auto
qed

theorem interleaver_defined_witness:
  "interleave_all (\<lambda>_ p. p) [(av_video True 0 7, None), (av_audio False 1 5, None)] (reset_packet_data av_output) \<noteq> None"
  by (rule interleaver_defined) (use av_known av_output_fields(2) in auto)

text \<open>
  C32.  Once the output has started no packet is lost, duplicated or changed: what was sent and what is
  queued is exactly what was there before and the new packets, each shifted by the offset of its
  track (up to captions added to the data), and the output stays started.
\<close>

theorem interleaver_conserves:
  assumes "interleave_all cap ps out = Some out'" "started out" "output_active out" "keeps_stamps cap"
    "\<forall>(p, t) \<in> set ps. known_packet out p"
  shows "started out' \<and> mset (map (stamp \<circ> fst) (sent_packets out')) + mset (map stamp (interleaved_packets out')) =
    mset (map (stamp \<circ> fst) (sent_packets out)) + mset (map stamp (interleaved_packets out)) +
    mset (map (\<lambda>(p, t). stamp (apply_interleaved_packet_offset out (tracked out p))) ps)"
  using interleave_all_conserves [OF assms] by (simp add: held_def)

theorem interleaver_conserves_witness:
  "\<exists>out'. interleave_all (\<lambda>_ p. p) [(av_video False 0 7, None), (av_audio False 1 5, None)]
      (av_output\<lparr>received_audio := True, received_video := (\<lambda>_. True)\<rparr>) = Some out' \<and> started out' \<and>
    size (mset (sent_packets out')) + size (mset (interleaved_packets out')) = 2"
proof -
  let ?out = "av_output\<lparr>received_audio := True, received_video := (\<lambda>_. True)\<rparr>"
  let ?ps = "[(av_video False 0 7, None), (av_audio False 1 5, None)]"
  have t: "same_tracks av_output ?out" by (simp add: same_tracks_def)
  note c = same_tracks_cong [OF t]
  have q: "interleaved_packets ?out = []" "sent_packets ?out = []"
    by (simp_all add: av_output_def reset_packet_data_def free_packets_def)
  have k: "\<forall>(p, t) \<in> set ?ps. known_packet ?out p" using av_known c(2) by auto
  obtain out' where o': "interleave_all (\<lambda>_ p. p) ?ps ?out = Some out'"
    using interleave_all_defined [of ?out ?ps "\<lambda>_ p. p"] k q c(3) av_output_fields(2) by (auto simp: tracks_known_def)
  have "started ?out" by (simp add: started_def all_video_received_def list_all_iff)
  moreover have "keeps_stamps (\<lambda>_ p. p)" by (simp add: keeps_stamps_def)
  ultimately have "started out' \<and> mset (map (stamp \<circ> fst) (sent_packets out')) + mset (map stamp (interleaved_packets out')) =
      mset (map (\<lambda>(p, t). stamp (apply_interleaved_packet_offset ?out (tracked ?out p))) ?ps)"
    using interleaver_conserves [OF o' _ _ _ k] c(5) av_output_fields(3) q by simp
  then have "started out'" "size (mset (map (stamp \<circ> fst) (sent_packets out')) + mset (map stamp (interleaved_packets out'))) = 2"
    by simp_all
  then show ?thesis using o' by auto
qed

end
