(* ===== verification/Interleave_Time.thy ===== *)
theory Interleave_Time
  imports Interleave_Order
begin

text \<open>
  The time stamps an output sends.  With one video and one audio encoder the packets leave in the
  order of their decode times, which is what the test for a higher opposing time stamp is for;
  with two audio encoders they need not, and an output can start with a video packet that is
  not a key frame.
\<close>

section \<open>Decode times in microseconds\<close>

lemma sint_of_int:
  assumes "- (2 ^ 63) \<le> k" "k < 2 ^ 63"
  shows "sint (word_of_int k :: s64) = k"
  using assms by (simp add: sint_sbintrunc' signed_take_bit_int_eq_self)

lemma sint_arith:
  fixes x y :: s64
  shows "- (2 ^ 63) \<le> sint x - sint y \<Longrightarrow> sint x - sint y < 2 ^ 63 \<Longrightarrow> sint (x - y) = sint x - sint y"
    "- (2 ^ 63) \<le> sint x * sint y \<Longrightarrow> sint x * sint y < 2 ^ 63 \<Longrightarrow> sint (x * y) = sint x * sint y"
proof -
  have d: "x - y = word_of_int (sint x - sint y)" "x * y = word_of_int (sint x * sint y)"
    by (simp_all add: wi_hom_syms)
  show "- (2 ^ 63) \<le> sint x - sint y \<Longrightarrow> sint x - sint y < 2 ^ 63 \<Longrightarrow> sint (x - y) = sint x - sint y"
    "- (2 ^ 63) \<le> sint x * sint y \<Longrightarrow> sint x * sint y < 2 ^ 63 \<Longrightarrow> sint (x * y) = sint x * sint y"
    by (simp_all only: d sint_of_int)
qed

lemma trunc_div_mono:
  assumes "a \<le> a'" "0 < b"
  shows "trunc_div a b \<le> trunc_div a' b"
proof -
  have nn: "0 \<le> \<bar>x\<bar> div b" for x using assms(2) by (simp add: pos_imp_zdiv_nonneg_iff)
  consider "0 \<le> a" | "a < 0" "0 \<le> a'" | "a < 0" "a' < 0" using assms(1) by linarith
  then show ?thesis
  proof cases
    case 1
    then show ?thesis using assms by (simp add: trunc_div_nonneg zdiv_mono1)
  next
    case 2
    then have "trunc_div a b \<le> 0" "0 \<le> trunc_div a' b"
      using assms(2) nn [of a] nn [of a'] by (auto simp: trunc_div_def sgn_if)
    then show ?thesis by linarith
  next
    case 3
    have "\<bar>a'\<bar> div b \<le> \<bar>a\<bar> div b" using assms 3 by (intro zdiv_mono1) auto
    then show ?thesis using 3 assms(2) by (simp add: trunc_div_def sgn_if)
  qed
qed

lemma trunc_div_bound:
  assumes "0 < b"
  shows "\<bar>trunc_div a b\<bar> \<le> \<bar>a\<bar>"
proof -
  have "\<bar>a\<bar> div b \<le> \<bar>a\<bar>" using assms zdiv_mono2 [of "\<bar>a\<bar>" 1 b] by simp
  moreover have "0 \<le> \<bar>a\<bar> div b" using assms by (simp add: pos_imp_zdiv_nonneg_iff)
  moreover have "trunc_div a b = \<bar>a\<bar> div b \<or> trunc_div a b = - (\<bar>a\<bar> div b)"
    using assms by (auto simp: trunc_div_def sgn_if)
  ultimately show ?thesis by linarith
qed

text \<open>A time in microseconds as an integer, for a decode time below two to the 42nd.\<close>

definition usec_of :: "int \<Rightarrow> s32 \<Rightarrow> int" where
  "usec_of d den = trunc_div (d * 1000000) (sint den)"

lemma packet_usec:
  assumes "\<bar>sint (p_dts p)\<bar> \<le> 2 ^ 42" "0 < sint (p_timebase_den p)"
  shows "sint (packet_dts_usec p) = usec_of (sint (p_dts p)) (p_timebase_den p)"
proof -
  have m: "sint (p_dts p * 1000000) = sint (p_dts p) * 1000000"
    using sint_arith(2) [of "p_dts p" 1000000] assms(1) by (auto simp: abs_le_iff)
  have den: "sint (scast (p_timebase_den p) :: s64) = sint (p_timebase_den p)"
    by (simp add: sint_up_scast is_up)
  have "\<bar>trunc_div (sint (p_dts p) * 1000000) (sint (p_timebase_den p))\<bar> \<le> 2 ^ 42 * 1000000"
    using trunc_div_bound [OF assms(2), of "sint (p_dts p) * 1000000"] assms(1) by (auto simp: abs_mult)
  then show ?thesis
    by (simp only: packet_dts_usec_def s64_div_def m den usec_of_def) (intro sint_of_int; simp add: abs_le_iff)
qed

lemma usec_of_mono: "d \<le> d' \<Longrightarrow> 0 < sint den \<Longrightarrow> usec_of d den \<le> usec_of d' den"
  by (simp add: usec_of_def trunc_div_mono)

section \<open>Streaming with two tracks\<close>

text \<open>One video encoder, at index 0, and one audio encoder.\<close>

definition two_tracks :: "nat \<Rightarrow> obs_output \<Rightarrow> bool" where
  "two_tracks a out \<longleftrightarrow> a < MAX_OUTPUT_AUDIO_ENCODERS \<and> (\<forall>i. video_encoders out i \<noteq> None \<longleftrightarrow> i = 0) \<and>
     (\<forall>i. audio_encoders out i \<noteq> None \<longleftrightarrow> i = a)"

definition on_track :: "nat \<Rightarrow> encoder_packet \<Rightarrow> bool" where
  "on_track a p \<longleftrightarrow> p_track_idx p = (if p_type p = OBS_ENCODER_VIDEO then 0 else a)"

lemma two_tracks_same: "same_tracks out out' \<Longrightarrow> two_tracks a out' = two_tracks a out"
  by (simp add: same_tracks_def two_tracks_def)

lemma two_tracks_known: "two_tracks a out \<Longrightarrow> track_known out p \<Longrightarrow> on_track a p"
  by (auto simp: two_tracks_def track_known_def on_track_def split: if_splits)

lemma not_video: "p_type p \<noteq> OBS_ENCODER_VIDEO \<longleftrightarrow> p_type p = OBS_ENCODER_AUDIO"
  by (cases "p_type p") auto

text \<open>The time a packet gets when it arrives after the start, and the time a sent packet has.\<close>

definition out_usec :: "obs_output \<Rightarrow> encoder_packet \<Rightarrow> int" where
  "out_usec out p = sint (p_dts_usec (apply_interleaved_packet_offset out p))"

definition usec :: "encoder_packet \<Rightarrow> int" where
  "usec p = sint (p_dts_usec p)"

definition highest_ts :: "obs_output \<Rightarrow> encoder_packet \<Rightarrow> int" where
  "highest_ts out p = sint (if p_type p = OBS_ENCODER_VIDEO then highest_video_ts out 0 else highest_audio_ts out)"

text \<open>
  The state after the start, with the packets \<open>rs\<close> still to arrive: nothing that is queued or still
  to come is earlier than \<open>L\<close>, the time of the last packet sent.
\<close>

definition streaming :: "nat \<Rightarrow> int \<Rightarrow> encoder_packet list \<Rightarrow> obs_output \<Rightarrow> bool" where
  "streaming a L rs out \<longleftrightarrow> two_tracks a out \<and> output_active out \<and> started out \<and> queue_sorted out \<and>
     (\<forall>p \<in> set (interleaved_packets out). on_track a p \<and> L \<le> usec p) \<and> (\<forall>r \<in> set rs. on_track a r) \<and>
     (\<forall>r \<in> set rs. L \<le> out_usec out r \<and> highest_ts out r \<le> out_usec out r) \<and>
     (\<forall>p \<in> set (interleaved_packets out). \<forall>r \<in> set rs. p_type p = p_type r \<longrightarrow> usec p \<le> out_usec out r) \<and>
     sorted_wrt (\<lambda>p q. p_type p = p_type q \<longrightarrow> out_usec out p \<le> out_usec out q) rs \<and>
     sorted (map (usec \<circ> fst) (sent_packets out)) \<and> (\<forall>x \<in> set (sent_packets out). usec (fst x) \<le> L)"

lemma out_usec_forwards: "forwards out out' \<Longrightarrow> out_usec out' p = out_usec out p"
  by (simp add: out_usec_def forwards_def apply_interleaved_packet_offset_def track_offset_def Let_def)

lemma higher_opposing:
  assumes "two_tracks a out" "on_track a p" "has_higher_opposing_ts out p" "on_track a r" "p_type r \<noteq> p_type p"
  shows "usec p < highest_ts out r"
proof (cases "p_type p = OBS_ENCODER_VIDEO")
  case True
  then show ?thesis using assms by (auto simp: has_higher_opposing_ts_def usec_def highest_ts_def s64_less_def)
next
  case False
  have "video_encoders out 0 \<noteq> None" using assms(1) by (simp add: two_tracks_def)
  then show ?thesis using assms False not_video [of p]
    by (cases "p_type r") (auto simp: has_higher_opposing_ts_def usec_def highest_ts_def s64_less_def list_all_iff
        MAX_OUTPUT_VIDEO_ENCODERS_def dest: bspec [where x = 0])
qed

lemma streaming_send:
  assumes st: "streaming a L rs out" and q: "interleaved_packets out = p # ps" and s: "send_interleaved cap out = Some out'"
    and hi: "\<forall>r \<in> set rs. usec p \<le> out_usec out r" and cap: "keeps_stamps cap"
  shows "streaming a (usec p) rs out'"
proof -
  obtain t where out': "interleaved_packets out' = ps"
    "sent_packets out' = sent_packets out @ [(if p_type p = OBS_ENCODER_VIDEO then cap (length (sent_packets out)) p else p, t)]"
    by (rule send_interleaved_Some [OF s]) (use q in auto)
  have "stamp (cap n p) = stamp p" for n using cap by (simp add: keeps_stamps_def)
  then have c: "usec (cap n p) = usec p" for n by (metis usec_def stamp_def encoder_packet.select_convs(8) encoder_packet.ext_inject encoder_packet.surjective encoder_packet.update_convs(1))
  note f = send_forwards [OF s]
  have le: "\<forall>p' \<in> set ps. usec p \<le> usec p'"
    using st q by (auto simp: streaming_def queue_sorted_def usec_def dest: packet_le_dts)
  have L: "L \<le> usec p" using st q by (simp add: streaming_def)
  have "queue_sorted out'" using send_sorted [OF s] st by (simp add: streaming_def)
  moreover have "started out'" using st same_tracks_received [of out out'] f by (auto simp: streaming_def forwards_def)
  ultimately show ?thesis
    using st f q out' le L hi c two_tracks_same [of out out'] same_tracks_cong(5) [of out out']
    by (auto simp: streaming_def out_usec_forwards [OF f] highest_ts_def forwards_def sorted_append dest: order_trans)
qed

lemma higher_sends:
  assumes "streaming a L rs out" "interleaved_packets out = p # ps" "has_higher_opposing_ts out p"
  shows "\<forall>r \<in> set rs. usec p \<le> out_usec out r"
proof
  fix r
  assume r: "r \<in> set rs"
  show "usec p \<le> out_usec out r"
  proof (cases "p_type r = p_type p")
    case True
    then show ?thesis using assms(1, 2) r by (auto simp: streaming_def)
  next
    case False
    then have "usec p < highest_ts out r"
      using assms r by (intro higher_opposing [of a]) (auto simp: streaming_def)
    then show ?thesis using assms(1) r by (fastforce simp: streaming_def)
  qed
qed

lemma higher_forwards: "forwards out out' \<Longrightarrow> has_higher_opposing_ts out' p = has_higher_opposing_ts out p"
  by (simp add: has_higher_opposing_ts_def forwards_def same_tracks_def)

lemma streaming_stream:
  assumes st: "streaming a L rs out" and s: "stream_packets cap out = Some out'" and cap: "keeps_stamps cap"
  shows "\<exists>L'. streaming a L' rs out'"
proof (cases "count_streamable_frames out = 0")
  case True
  then show ?thesis using st s by (auto simp: stream_packets_def)
next
  case False
  then obtain p ps where q: "interleaved_packets out = p # ps" and h: "has_higher_opposing_ts out p"
    by (cases "interleaved_packets out") (auto simp: count_streamable_frames_def split: if_splits)
  obtain out1 where o1: "send_interleaved cap out = Some out1"
    using s False by (auto simp: stream_packets_def Let_def split: option.splits)
  note s1 = streaming_send [OF st q o1 higher_sends [OF st q h] cap]
  have q1: "interleaved_packets out1 = ps" by (rule send_interleaved_Some [OF o1]) (use q in simp)
  show ?thesis
  proof (cases "count_streamable_frames out - 1 > interleaver_max_batch_size out")
    case True
    then obtain p2 ps2 where ps: "ps = p2 # ps2" "has_higher_opposing_ts out p2"
      using q h by (cases ps) (auto simp: count_streamable_frames_def split: if_splits)
    have "has_higher_opposing_ts out1 p2" using ps(2) higher_forwards [OF send_forwards [OF o1]] by simp
    moreover have "send_interleaved cap out1 = Some out'" using s o1 True False by (simp add: stream_packets_def)
    ultimately show ?thesis using streaming_send [OF s1 _ _ higher_sends [OF s1] cap] q1 ps(1) by blast
  next
    case False
    then show ?thesis using s o1 s1 \<open>count_streamable_frames out \<noteq> 0\<close> by (auto simp: stream_packets_def)
  qed
qed

text \<open>An arriving packet.\<close>

lemma set_higher_highest:
  assumes "on_track a p" "p_type p = p_type r"
  shows "highest_ts (set_higher_ts out p) r = max (highest_ts out r) (usec p)"
  using assms by (auto simp: set_higher_ts_def highest_ts_def usec_def on_track_def s64_less_def)

lemma set_higher_other: "p_type p \<noteq> p_type r \<Longrightarrow> highest_ts (set_higher_ts out p) r = highest_ts out r"
  by (cases "p_type p"; cases "p_type r") (auto simp: set_higher_ts_def highest_ts_def)

lemma apply_offset_track:
  "p_type (apply_interleaved_packet_offset out p) = p_type p"
  "on_track a (apply_interleaved_packet_offset out p) = on_track a p"
  "usec (apply_interleaved_packet_offset out p) = out_usec out p"
  by (simp_all add: apply_interleaved_packet_offset_def on_track_def usec_def out_usec_def Let_def)

lemma streaming_insert:
  assumes st: "streaming a L (r # rs) out"
  shows "streaming a L rs (set_higher_ts (queued r t out) (apply_interleaved_packet_offset out r))" (is "streaming a L rs ?out")
proof -
  let ?p = "apply_interleaved_packet_offset out r"
  have stt: "started out" using st by (simp add: streaming_def)
  have q: "interleaved_packets ?out = insert_packet ?p (interleaved_packets out)" "sent_packets ?out = sent_packets out"
    "video_offsets ?out = video_offsets out" "audio_offsets ?out = audio_offsets out"
    "received_audio ?out = received_audio out" "received_video ?out = received_video out"
    using stt by (simp_all add: queued_packets) (simp_all add: queued_def Let_def)
  have t: "same_tracks out ?out" using same_tracks_trans [OF queued_packets(3) set_higher_ts_fields(7)] .
  have u: "out_usec ?out x = out_usec out x" for x
    unfolding out_usec_def apply_offset_cong [OF q(3, 4)] ..
  have hq: "highest_ts (queued r t out) x = highest_ts out x" for x by (simp add: highest_ts_def queued_packets)
  have "started ?out" using stt same_tracks_received [OF t] q by simp
  moreover have "queue_sorted ?out" using st q(1) by (simp add: streaming_def queue_sorted_def insert_packet_sorted)
  moreover have "highest_ts ?out x \<le> out_usec out x" if "x \<in> set rs" for x
  proof (cases "p_type r = p_type x")
    case True
    have "on_track a ?p" "p_type ?p = p_type x" using st True by (simp_all add: streaming_def apply_offset_track)
    from set_higher_highest [OF this, of "queued r t out"]
    have "highest_ts ?out x = max (highest_ts out x) (out_usec out r)" by (simp add: hq apply_offset_track)
    then show ?thesis using st that True by (auto simp: streaming_def)
  next
    case False
    then have "highest_ts ?out x = highest_ts out x"
      by (simp add: set_higher_other apply_offset_track hq)
    then show ?thesis using st that by (auto simp: streaming_def)
  qed
  ultimately show ?thesis
    using st q two_tracks_same [OF t] same_tracks_cong(5) [OF t] by (auto simp: streaming_def u apply_offset_track)
qed

lemma streaming_step:
  assumes st: "streaming a L (tracked out p # rs) out" and i: "interleave_packets cap p t out = Some out'"
    and k: "known_packet out p" and cap: "keeps_stamps cap"
  shows "\<exists>L'. streaming a L' rs out'"
proof -
  have s: "started out" "output_active out" using st by (simp_all add: streaming_def)
  have "stream_packets cap (set_higher_ts (queued (tracked out p) t out) (apply_interleaved_packet_offset out (tracked out p))) = Some out'"
    using i s known_not_waiting [OF s(1) k] by (simp add: interleave_packets_cases Let_def)
  then show ?thesis using streaming_stream [OF streaming_insert [OF st] _ cap] by blast
qed

section \<open>Before the start\<close>

text \<open>
  What the encoders promise: bounded time stamps, one time base per encoder, and for audio a system
  time that is not negative and lies after the encoder's start.
\<close>

definition timed :: "s32 \<Rightarrow> s32 \<Rightarrow> encoder_packet \<Rightarrow> bool" where
  "timed dv da p \<longleftrightarrow> \<bar>sint (p_dts p)\<bar> \<le> 2 ^ 40 \<and> \<bar>sint (p_pts p)\<bar> \<le> 2 ^ 40 \<and>
     p_timebase_den p = (if p_type p = OBS_ENCODER_VIDEO then dv else da) \<and>
     (p_type p = OBS_ENCODER_AUDIO \<longrightarrow> 0 \<le> usec p \<and> 0 \<le> usec p + usec_of (sint (p_dts p)) da)"

definition dts_sorted :: "encoder_packet list \<Rightarrow> bool" where
  "dts_sorted rs \<longleftrightarrow> sorted_wrt (\<lambda>p q. p_type p = p_type q \<longrightarrow> sint (p_dts p) \<le> sint (p_dts q)) rs"

definition track_offsets_ok :: "nat \<Rightarrow> obs_output \<Rightarrow> bool" where
  "track_offsets_ok a out \<longleftrightarrow> \<bar>sint (video_offsets out 0)\<bar> \<le> 2 ^ 40 \<and> \<bar>sint (audio_offsets out a)\<bar> \<le> 2 ^ 40"

lemma out_usec_timed:
  assumes "timed dv da p" "0 < sint dv" "0 < sint da" "on_track a p" "track_offsets_ok a out"
  shows "out_usec out p = usec_of (sint (p_dts p) - sint (track_offset out p)) (p_timebase_den p)"
proof -
  have o: "\<bar>sint (track_offset out p)\<bar> \<le> 2 ^ 40"
    using assms(4, 5) by (auto simp: track_offset_def track_offsets_ok_def on_track_def)
  have d: "\<bar>sint (p_dts p)\<bar> \<le> 2 ^ 40" using assms(1) by (simp add: timed_def)
  have s: "sint (p_dts p - track_offset out p) = sint (p_dts p) - sint (track_offset out p)"
    by (rule sint_arith(1)) (use o d in \<open>simp_all add: abs_le_iff\<close>)
  let ?p = "p\<lparr>p_dts := p_dts p - track_offset out p, p_pts := p_pts p - track_offset out p\<rparr>"
  have "\<bar>sint (p_dts p - track_offset out p)\<bar> \<le> 2 ^ 42" unfolding s using o d by simp
  then have "sint (packet_dts_usec ?p) = usec_of (sint (p_dts p) - sint (track_offset out p)) (p_timebase_den p)"
    using packet_usec [of ?p] assms(1-3) s by (simp add: timed_def)
  then show ?thesis by (simp add: out_usec_def apply_interleaved_packet_offset_def Let_def)
qed

lemma out_usec_mono:
  assumes "timed dv da p" "timed dv da q" "0 < sint dv" "0 < sint da" "on_track a p" "on_track a q" "track_offsets_ok a out"
    "p_type p = p_type q" "sint (p_dts p) \<le> sint (p_dts q)"
  shows "out_usec out p \<le> out_usec out q"
proof -
  have "track_offset out p = track_offset out q" "p_timebase_den p = p_timebase_den q" "0 < sint (p_timebase_den q)"
    using assms by (auto simp: track_offset_def on_track_def timed_def)
  then show ?thesis
    using out_usec_timed [OF assms(1, 3, 4, 5, 7)] out_usec_timed [OF assms(2, 3, 4, 6, 7)] assms(9)
    by (simp add: usec_of_mono)
qed

definition collecting :: "nat \<Rightarrow> s32 \<Rightarrow> s32 \<Rightarrow> encoder_packet list \<Rightarrow> obs_output \<Rightarrow> bool" where
  "collecting a dv da rs out \<longleftrightarrow> two_tracks a out \<and> output_active out \<and> sent_packets out = [] \<and>
     video_offsets out 0 = 0 \<and> audio_offsets out a = 0 \<and> highest_audio_ts out = 0 \<and>
     highest_video_ts out 0 = word_of_int (- (2 ^ 63)) \<and>
     (\<forall>p \<in> set (interleaved_packets out). on_track a p \<and> timed dv da p) \<and> (\<forall>r \<in> set rs. on_track a r \<and> timed dv da r) \<and>
     (\<forall>p \<in> set (interleaved_packets out). \<forall>r \<in> set rs. p_type p = p_type r \<longrightarrow> sint (p_dts p) \<le> sint (p_dts r)) \<and>
     dts_sorted rs \<and> 0 < sint dv \<and> 0 < sint da"

definition has_video :: "obs_output \<Rightarrow> bool" where
  "has_video out \<longleftrightarrow> (\<exists>p \<in> set (interleaved_packets out). p_type p = OBS_ENCODER_VIDEO)"

text \<open>The output waits: it has not started, and a received video packet is still in the queue.\<close>

definition unstarted :: "obs_output \<Rightarrow> bool" where
  "unstarted out \<longleftrightarrow> \<not> started out \<and> (received_video out 0 \<longrightarrow> has_video out)"

lemma quiet_collecting:
  assumes "collecting a dv da rs out" "quiet out out'"
  shows "collecting a dv da rs out'"
proof -
  have "set (interleaved_packets out') \<subseteq> set (interleaved_packets out)"
    using assms(2) by (auto simp: quiet_def dest: in_set_dropD)
  then show ?thesis
    using assms two_tracks_same [of out out' a] same_tracks_cong(5) [of out out']
    by (auto simp: collecting_def quiet_def)
qed

lemma collecting_find:
  assumes "collecting a dv da rs out"
  shows "find_first_packet_type out OBS_ENCODER_VIDEO 0 \<noteq> None \<longleftrightarrow> has_video out"
proof -
  have "is_track OBS_ENCODER_VIDEO 0 p \<longleftrightarrow> p_type p = OBS_ENCODER_VIDEO" if "p \<in> set (interleaved_packets out)" for p
    using assms that by (auto simp: collecting_def on_track_def is_track_def)
  then show ?thesis using find_first_packet_type_None [of out OBS_ENCODER_VIDEO 0] by (auto simp: has_video_def)
qed

lemma two_tracks_started: "two_tracks a out \<Longrightarrow> started out \<longleftrightarrow> received_audio out \<and> received_video out 0"
  by (auto simp: two_tracks_def started_def all_video_received_def list_all_iff MAX_OUTPUT_VIDEO_ENCODERS_def)

text \<open>A failed look-up or alignment takes back what was received.\<close>

lemma get_packets_unstarted:
  assumes "collecting a dv da rs out" "\<not> fst (get_audio_and_video_packets out)"
  shows "unstarted (snd (get_audio_and_video_packets out))"
proof -
  let ?v = "\<lambda>i. video_encoders out i \<noteq> None \<and> find_first_packet_type out OBS_ENCODER_VIDEO i = None"
  let ?a = "\<lambda>i. audio_encoders out i \<noteq> None \<and> find_first_packet_type out OBS_ENCODER_AUDIO i = None"
  have tt: "two_tracks a out" using assms(1) by (simp add: collecting_def)
  then have v0: "video_encoders out i \<noteq> None \<longleftrightarrow> i = 0" for i by (simp add: two_tracks_def)
  show ?thesis
  proof (cases "first_index ?v MAX_OUTPUT_VIDEO_ENCODERS")
    case (Some i)
    then have "i = 0" using first_index_Some [OF Some] v0 by blast
    then have "snd (get_audio_and_video_packets out) = out\<lparr>received_video := (received_video out)(0 := False)\<rparr>"
      using Some by (simp add: get_audio_and_video_packets_def)
    then show ?thesis using two_tracks_started [of a "out\<lparr>received_video := (received_video out)(0 := False)\<rparr>"] tt
      by (simp add: unstarted_def two_tracks_def)
  next
    case None
    then have "\<not> ?v 0" unfolding first_index_None by (simp add: MAX_OUTPUT_VIDEO_ENCODERS_def)
    then have "has_video out" using v0 [of 0] collecting_find [OF assms(1)] by blast
    moreover have "get_first_video_encoder_index out \<noteq> None"
      using v0 [of 0] first_index_None [of "\<lambda>i. video_encoders out i \<noteq> None" MAX_OUTPUT_VIDEO_ENCODERS]
      by (auto simp: get_first_video_encoder_index_def MAX_OUTPUT_VIDEO_ENCODERS_def)
    then have "snd (get_audio_and_video_packets out) = out\<lparr>received_audio := False\<rparr>"
      using None assms(2) unfolding get_audio_and_video_packets_def by (auto split: option.splits)
    ultimately show ?thesis by (simp add: unstarted_def has_video_def started_def)
  qed
qed

lemma initialize_unstarted:
  assumes c: "collecting a dv da rs out" and i: "initialize_interleaved_packets out = Some (False, out')"
  shows "unstarted out'"
proof -
  have tt: "two_tracks a out" using c by (simp add: collecting_def)
  then have "get_first_audio_encoder_index out \<noteq> None" "get_first_video_encoder_index out \<noteq> None"
    by (auto simp: get_first_audio_encoder_index_def get_first_video_encoder_index_def first_index_None two_tracks_def
        MAX_OUTPUT_VIDEO_ENCODERS_def)
  then obtain k v where kv: "get_first_audio_encoder_index out = Some k" "get_first_video_encoder_index out = Some v" by blast
  show ?thesis
  proof (cases "fst (get_audio_and_video_packets out)")
    case False
    then have "out' = snd (get_audio_and_video_packets out)"
      using i kv by (simp add: initialize_interleaved_packets_def case_prod_unfold)
    then show ?thesis using get_packets_unstarted [OF c False] by simp
  next
    case True
    note f = get_packets_found [OF True]
    have "find_first_packet_type out OBS_ENCODER_VIDEO 0 \<noteq> None"
      using f(2) [of 0] tt by (simp add: two_tracks_def MAX_OUTPUT_VIDEO_ENCODERS_def)
    then have hv: "has_video out" using collecting_find [OF c] by simp
    obtain n where d: "out' = out\<lparr>received_audio := False\<rparr> \<or>
        \<not> fst (get_audio_and_video_packets (discard_to_idx out n)) \<and> out' = snd (get_audio_and_video_packets (discard_to_idx out n))"
      using i kv True f(1)
      by (auto simp: initialize_interleaved_packets_def case_prod_unfold Let_def split: option.splits if_splits)
    have "collecting a dv da rs (discard_to_idx out n)" using quiet_collecting [OF c] by simp
    then show ?thesis using d hv get_packets_unstarted by (auto simp: unstarted_def started_def has_video_def)
  qed
qed

lemma prune_unstarted:
  assumes c: "collecting a dv da rs out" and hv: "has_video out" and p: "prune_interleaved_packets out = Some (False, out')"
  shows "unstarted out'"
proof -
  obtain n out1 where n: "prune_premature_packets out = (n, out1)" by fastforce
  then have "n = -1" "out' = out1" using p by (auto simp: prune_interleaved_packets_def split: if_splits option.splits)
  moreover obtain v where "find_first_packet_type_idx out OBS_ENCODER_VIDEO 0 = Some v"
    using collecting_find [OF c] hv find_first_idx_None [of out OBS_ENCODER_VIDEO 0] by auto
  ultimately have "out' = out\<lparr>received_audio := False\<rparr>"
    using n by (auto simp: prune_premature_packets_def Let_def split: option.splits if_splits)
  then show ?thesis using hv by (simp add: unstarted_def started_def has_video_def)
qed

lemma prune_flags:
  assumes "prune_interleaved_packets out = Some (True, out')"
  shows "received_audio out' = received_audio out" "received_video out' = received_video out"
proof -
  obtain n out1 where n: "prune_premature_packets out = (n, out1)" by fastforce
  then have "n \<noteq> -1" using assms by (auto simp: prune_interleaved_packets_def)
  then have "out1 = out" using prune_premature_ready(1) [OF n] by simp
  then show "received_audio out' = received_audio out" "received_video out' = received_video out"
    using assms n by (auto simp: prune_interleaved_packets_def split: if_splits option.splits)
qed

section \<open>The start\<close>

lemma resort_highest:
  assumes "highest_ts out r \<le> B" "\<forall>p \<in> set (interleaved_packets out). on_track a p \<and> (p_type p = p_type r \<longrightarrow> usec p \<le> B)"
  shows "highest_ts (resort_interleaved_packets out) r \<le> B"
proof -
  let ?step = "\<lambda>o' p. insert_interleaved_packet (set_higher_ts o' p) p"
  have fold: "highest_ts (foldl ?step x ps) r \<le> B"
    if "highest_ts x r \<le> B" "\<forall>p \<in> set ps. on_track a p \<and> (p_type p = p_type r \<longrightarrow> usec p \<le> B)" for x ps
    using that
  proof (induction ps arbitrary: x)
    case (Cons p ps)
    have "highest_ts (?step x p) r = highest_ts (set_higher_ts x p) r" by (simp add: highest_ts_def)
    also have "\<dots> \<le> B"
      using Cons.prems set_higher_highest [of a p r x] set_higher_other [of p r x] by (cases "p_type p = p_type r") auto
    finally show ?case using Cons by simp
  qed simp
  have "highest_ts (out\<lparr>interleaved_packets := []\<rparr>) r \<le> B" using assms(1) by (auto simp: highest_ts_def)
  then show ?thesis unfolding resort_interleaved_packets_def by (rule fold [OF _ assms(2)])
qed

lemma shifted_offsets:
  assumes c: "collecting a dv da rs out" and g: "fst (get_audio_and_video_packets out)" and s: "shift_packets k out = Some out'"
    and k: "get_first_audio_encoder_index out = Some k"
  shows "track_offsets_ok a out'" "k = a"
    "\<exists>f \<in> set (interleaved_packets out). p_type f = OBS_ENCODER_AUDIO \<and> sint (highest_audio_ts out') \<le> out_usec out' f"
proof -
  have tt: "two_tracks a out" using c by (simp add: collecting_def)
  then have a: "a < MAX_OUTPUT_AUDIO_ENCODERS" "audio_encoders out a \<noteq> None" "video_encoders out 0 \<noteq> None"
    by (simp_all add: two_tracks_def)
  show ka: "k = a"
    using first_index_Some [OF k [unfolded get_first_audio_encoder_index_def]] tt by (simp add: two_tracks_def)
  obtain v where v: "find_first_packet_type out OBS_ENCODER_VIDEO 0 = Some v"
    using get_packets_found(2) [OF g, of 0] a(3) by (auto simp: MAX_OUTPUT_VIDEO_ENCODERS_def)
  obtain f where f: "find_first_packet_type out OBS_ENCODER_AUDIO a = Some f" using get_packets_found(3) [OF g a(1, 2)] by blast
  note vq = find_first_packet_type_Some [OF v] and fq = find_first_packet_type_Some [OF f]
  note sh = shift_packets_Some [OF s]
  have tv: "timed dv da v" and tf: "timed dv da f" "on_track a f" using c vq fq by (auto simp: collecting_def)
  have fa: "p_type f = OBS_ENCODER_AUDIO" using fq by (simp add: is_track_def)
  have ov: "video_offsets out' 0 = p_pts v"
    using sh(7) v a(3) by (auto simp: new_offsets_def MAX_OUTPUT_VIDEO_ENCODERS_def)
  have oa: "audio_offsets out' a = (if sint (p_dts f) > 0 then p_dts f else 0)"
    using sh(8) f a(1, 2) c by (auto simp: new_offsets_def collecting_def)
  show ok: "track_offsets_ok a out'" using ov oa tv tf by (auto simp: track_offsets_ok_def timed_def)
  have d: "0 < sint dv" "0 < sint da" using c by (simp_all add: collecting_def)
  have u: "out_usec out' f = usec_of (sint (p_dts f) - sint (audio_offsets out' a)) da"
    using out_usec_timed [OF tf(1) d tf(2) ok] fa tf by (simp add: track_offset_def on_track_def timed_def)
  have "highest_audio_ts out' = 0 - p_dts_usec f" using sh(10) f ka c by (simp add: collecting_def)
  moreover have raw: "0 \<le> usec f" "0 \<le> usec f + usec_of (sint (p_dts f)) da" using tf fa by (simp_all add: timed_def)
  moreover have "sint (p_dts_usec f) < 2 ^ 63" using sint_lt [of "p_dts_usec f"] by simp
  ultimately have h: "sint (highest_audio_ts out') = - usec f"
    using sint_arith(1) [of 0 "p_dts_usec f"] by (simp add: usec_def)
  have "- usec f \<le> out_usec out' f"
  proof (cases "sint (p_dts f) > 0")
    case True
    then show ?thesis using raw(1) by (simp add: u oa usec_of_def trunc_div_def)
  next
    case False
    then show ?thesis using raw(2) by (simp add: u oa)
  qed
  then show "\<exists>f \<in> set (interleaved_packets out). p_type f = OBS_ENCODER_AUDIO \<and> sint (highest_audio_ts out') \<le> out_usec out' f"
    using h fq fa by auto
qed

text \<open>After the alignment everything is in place, and the earliest packet may go.\<close>

lemma aligned_streaming:
  assumes c: "collecting a dv da rs out" and st: "started out"
    and i: "initialize_interleaved_packets out = Some (True, out1)"
  defines "out2 \<equiv> apply_ept_offsets (resort_interleaved_packets out1)"
  obtains p ps where "interleaved_packets out2 = p # ps" "streaming a (usec p) rs out2" "\<forall>r \<in> set rs. usec p \<le> out_usec out2 r"
proof -
  obtain x k where x: "quiet out x" "fst (get_audio_and_video_packets x)" "get_first_audio_encoder_index x = Some k"
    "shift_packets k x = Some out1" "received_audio x = received_audio out" "received_video x = received_video out"
    by (rule initialize_True [OF i])
  note cx = quiet_collecting [OF c x(1)] and sh = shift_packets_Some [OF x(4)] and re = resort_fields [of out1]
  note so = shifted_offsets [OF cx x(2, 4, 3)]
  have d: "0 < sint dv" "0 < sint da" using c by (simp_all add: collecting_def)
  have tr: "same_tracks x out2"
    using sh(3) re(8) same_tracks_trans apply_ept_fields(9) unfolding out2_def by blast
  have q2: "set (interleaved_packets out2) = apply_interleaved_packet_offset out1 ` set (interleaved_packets x)"
    using re(2) sh(1) unfolding out2_def by (metis apply_ept_fields(1) set_map set_mset_mset)
  have u: "out_usec out2 r = out_usec out1 r" for r
    unfolding out_usec_def out2_def by (simp add: re apply_offset_cong [of "apply_ept_offsets (resort_interleaved_packets out1)" out1])
  have raw: "on_track a p \<and> timed dv da p \<and> (p_type p = p_type r \<longrightarrow> sint (p_dts p) \<le> sint (p_dts r))" "on_track a r \<and> timed dv da r"
    if "p \<in> set (interleaved_packets x)" "r \<in> set rs" for p r
    using cx that by (auto simp: collecting_def)
  have k4: "usec p \<le> out_usec out1 r" if m: "p \<in> set (interleaved_packets out2)" "r \<in> set rs" "p_type p = p_type r" for p r
  proof -
    obtain y where "y \<in> set (interleaved_packets x)" "p = apply_interleaved_packet_offset out1 y" using m(1) q2 by auto
    then show ?thesis using out_usec_mono [OF _ _ d _ _ so(1), of y r] raw [of y r] m by (auto simp: apply_offset_track)
  qed
  have both: "\<exists>p \<in> set (interleaved_packets out2). p_type p = ty" for ty
  proof -
    have "\<exists>y \<in> set (interleaved_packets x). p_type y = ty"
    proof (cases ty)
      case OBS_ENCODER_AUDIO
      then show ?thesis using so(3) by auto
    next
      case OBS_ENCODER_VIDEO
      have "find_first_packet_type x OBS_ENCODER_VIDEO 0 \<noteq> None"
        using get_packets_found(2) [OF x(2), of 0] cx by (simp add: collecting_def two_tracks_def MAX_OUTPUT_VIDEO_ENCODERS_def)
      then show ?thesis using collecting_find [OF cx] OBS_ENCODER_VIDEO by (simp add: has_video_def)
    qed
    then show ?thesis using q2 by (auto simp: apply_offset_track)
  qed
  then obtain p ps where ps: "interleaved_packets out2 = p # ps" by (cases "interleaved_packets out2") auto
  have sorted2: "sorted_wrt packet_le (interleaved_packets out2)" using re(1) by (simp add: out2_def)
  then have first: "usec p \<le> usec p'" if "p' \<in> set (interleaved_packets out2)" for p'
    using that ps by (auto simp: usec_def dest: packet_le_dts)
  have hi: "usec p \<le> out_usec out2 r" if "r \<in> set rs" for r
    using both [of "p_type r"] first k4 [OF _ that] u by (metis order_trans)
  have high: "highest_ts out2 r \<le> out_usec out2 r" if r: "r \<in> set rs" for r
  proof -
    have q1: "set (interleaved_packets out1) = set (interleaved_packets out2)" using q2 sh(1) by simp
    have "highest_ts out1 r \<le> out_usec out1 r"
    proof (cases "p_type r = OBS_ENCODER_VIDEO")
      case True
      have "highest_video_ts out1 0 = word_of_int (- (2 ^ 63))" using sh(6) cx by (simp add: collecting_def)
      then have "highest_ts out1 r = - (2 ^ 63)" using True by (simp add: highest_ts_def)
      moreover have "- (2 ^ 63) \<le> out_usec out1 r" using sint_ge [of "p_dts_usec (apply_interleaved_packet_offset out1 r)"]
        by (simp add: out_usec_def)
      ultimately show ?thesis by simp
    next
      case False
      obtain f where f: "f \<in> set (interleaved_packets x)" "p_type f = OBS_ENCODER_AUDIO"
        "sint (highest_audio_ts out1) \<le> out_usec out1 f" using so(3) by blast
      have "out_usec out1 f \<le> out_usec out1 r"
        using k4 [of "apply_interleaved_packet_offset out1 f" r] f r q2 False not_video [of r] by (simp add: apply_offset_track)
      then show ?thesis using f(3) False by (simp add: highest_ts_def)
    qed
    moreover have "\<forall>p \<in> set (interleaved_packets out1). on_track a p \<and> (p_type p = p_type r \<longrightarrow> usec p \<le> out_usec out1 r)"
      using k4 r q1 q2 cx by (auto simp: apply_offset_track collecting_def)
    ultimately have "highest_ts (resort_interleaved_packets out1) r \<le> out_usec out1 r" by (rule resort_highest)
    then show ?thesis unfolding u by (auto simp: out2_def highest_ts_def)
  qed
  have "started out2"
    using st same_tracks_received [OF same_tracks_trans [OF _ tr], of out] x(1, 5, 6) sh(4, 5) re(4, 5)
    by (simp add: quiet_def out2_def)
  moreover have "sorted_wrt (\<lambda>p q. p_type p = p_type q \<longrightarrow> out_usec out2 p \<le> out_usec out2 q) rs"
  proof -
    have "sorted_wrt (\<lambda>p q. p_type p = p_type q \<longrightarrow> sint (p_dts p) \<le> sint (p_dts q)) rs" "\<forall>r \<in> set rs. on_track a r \<and> timed dv da r"
      using cx by (simp_all add: collecting_def dts_sorted_def)
    then show ?thesis
      using out_usec_mono [OF _ _ d _ _ so(1)] by (auto simp: u intro: sorted_wrt_mono_rel [rotated])
  qed
  moreover have "two_tracks a out2" "output_active out2"
    using cx two_tracks_same [OF tr] same_tracks_cong(5) [OF tr] by (simp_all add: collecting_def)
  moreover have "sent_packets out2 = []" using cx sh(2) re(3) by (simp add: collecting_def out2_def)
  moreover have "\<forall>p \<in> set (interleaved_packets out2). on_track a p"
    using q2 cx by (auto simp: apply_offset_track collecting_def)
  moreover have "\<forall>r \<in> set rs. on_track a r" using cx by (simp add: collecting_def)
  ultimately have "streaming a (usec p) rs out2"
    using sorted2 first hi high k4 u by (auto simp: streaming_def queue_sorted_def)
  then show thesis using that [OF ps] hi by blast
qed

section \<open>The whole run\<close>

definition running :: "nat \<Rightarrow> s32 \<Rightarrow> s32 \<Rightarrow> encoder_packet list \<Rightarrow> obs_output \<Rightarrow> bool" where
  "running a dv da rs out \<longleftrightarrow> collecting a dv da rs out \<and> unstarted out \<or> (\<exists>L. streaming a L rs out)"

lemma start_runs:
  assumes c: "collecting a dv da rs out" and st: "started out" and hv: "has_video out"
    and s: "start_interleaving cap out = Some out'" and cap: "keeps_stamps cap"
  shows "running a dv da rs out'"
proof -
  obtain b out1 where p: "prune_interleaved_packets out = Some (b, out1)"
    using s by (auto simp: start_interleaving_def split: option.splits)
  note c1 = quiet_collecting [OF c quiet_prune [OF p]]
  show ?thesis
  proof (cases b)
    case False
    then show ?thesis using s p c1 prune_unstarted [OF c hv] by (auto simp: start_interleaving_def running_def)
  next
    case True
    obtain ready out2 where i: "initialize_interleaved_packets out1 = Some (ready, out2)"
      using s p True by (auto simp: start_interleaving_def split: option.splits)
    show ?thesis
    proof (cases ready)
      case False
      then show ?thesis
        using s p i True initialize_unstarted [OF c1] quiet_collecting [OF c1 initialize_False]
        by (auto simp: start_interleaving_def running_def)
    next
      case ready: True
      have "same_tracks out out1" using quiet_prune [OF p] by (simp add: quiet_def)
      moreover have "prune_interleaved_packets out = Some (True, out1)" using p True by simp
      note prune_flags [OF this]
      ultimately have "started out1" using st same_tracks_received [of out out1] by simp
      moreover have "initialize_interleaved_packets out1 = Some (True, out2)" using i ready by simp
      ultimately obtain q ps where q: "interleaved_packets (apply_ept_offsets (resort_interleaved_packets out2)) = q # ps"
        "streaming a (usec q) rs (apply_ept_offsets (resort_interleaved_packets out2))"
        "\<forall>r \<in> set rs. usec q \<le> out_usec (apply_ept_offsets (resort_interleaved_packets out2)) r"
        by (rule aligned_streaming [OF c1])
      have "send_interleaved cap (apply_ept_offsets (resort_interleaved_packets out2)) = Some out'"
        using s p i True ready by (simp add: start_interleaving_def)
      from streaming_send [OF q(2, 1) this q(3) cap] show ?thesis by (auto simp: running_def)
    qed
  qed
qed

lemma collecting_tl: "collecting a dv da (r # rs) out \<Longrightarrow> collecting a dv da rs out"
  by (simp add: collecting_def dts_sorted_def)

lemma collecting_queued:
  assumes "collecting a dv da (r # rs) out" "\<not> started out"
  shows "collecting a dv da rs (queued r t out)"
  using assms two_tracks_same [OF queued_packets(3) [of out r t]] same_tracks_cong(5) [OF queued_packets(3) [of out r t]]
  by (auto simp: collecting_def queued_packets dts_sorted_def)

lemma queued_video:
  assumes "unstarted out" "two_tracks a out" "on_track a r"
  shows "received_video (queued r t out) 0 \<longrightarrow> has_video (queued r t out)"
  using assms by (auto simp: unstarted_def queued_def Let_def has_video_def check_received_def on_track_def split: if_splits)

lemma running_step:
  assumes r: "running a dv da (tracked out p # rs) out" and i: "interleave_packets cap p t out = Some out'"
    and k: "known_packet out p" and cap: "keeps_stamps cap"
  shows "running a dv da rs out'"
proof (cases "\<exists>L. streaming a L (tracked out p # rs) out")
  case True
  then show ?thesis using streaming_step [OF _ i k cap] by (auto simp: running_def)
next
  case False
  let ?r = "tracked out p"
  have c: "collecting a dv da (?r # rs) out" and un: "unstarted out" using r False by (auto simp: running_def)
  then have ns: "\<not> started out" and act: "output_active out" and tt: "two_tracks a out" and tr: "on_track a ?r"
    by (auto simp: unstarted_def collecting_def)
  show ?thesis
  proof (cases "waiting_for_keyframe out ?r")
    case True
    then have o': "out' = discard_unused_audio_packets out (p_dts_usec ?r)"
      using i act by (simp add: interleave_packets_cases Let_def)
    have tt': "two_tracks a out'" using two_tracks_same tt quiet_discard_unused o' by (metis quiet_def)
    have "\<not> received_video out 0" using True tr by (auto simp: waiting_for_keyframe_def on_track_def)
    then have "\<not> received_video out' 0" unfolding o' by (simp add: discard_unused_audio_packets_def Let_def)
    then have "unstarted out'" using two_tracks_started [OF tt'] by (simp add: unstarted_def)
    then show ?thesis
      using quiet_collecting [OF collecting_tl [OF c] quiet_discard_unused] o' by (auto simp: running_def)
  next
    case False
    note cq = collecting_queued [OF c ns, of t] and qv = queued_video [OF un tt tr, of t]
    show ?thesis
    proof (cases "started (queued ?r t out)")
      case True
      have "two_tracks a (queued ?r t out)" using cq by (simp add: collecting_def)
      then have "has_video (queued ?r t out)" using True qv two_tracks_started by blast
      moreover have "start_interleaving cap (queued ?r t out) = Some out'"
        using i act ns False True by (simp add: interleave_packets_cases Let_def)
      ultimately show ?thesis using start_runs [OF cq True _ _ cap] by blast
    next
      case ns': False
      then have "out' = queued ?r t out" using i act ns False by (simp add: interleave_packets_cases Let_def)
      then show ?thesis using cq ns' qv by (simp add: running_def unstarted_def)
    qed
  qed
qed

lemma running_all:
  assumes "running a dv da (map (tracked out \<circ> fst) ps) out" "interleave_all cap ps out = Some out'"
    "\<forall>(p, t) \<in> set ps. known_packet out p" "keeps_stamps cap"
  shows "running a dv da [] out'"
  using assms
proof (induction ps arbitrary: out)
  case (Cons x ps)
  obtain p t where x: "x = (p, t)" by fastforce
  obtain out1 where o1: "interleave_packets cap p t out = Some out1" "interleave_all cap ps out1 = Some out'"
    using Cons.prems(2) x by (auto split: option.splits)
  have k: "known_packet out p" using Cons.prems(3) x by auto
  have t: "same_tracks out out1" using interleave_keeps_known [OF o1(1) k] by (simp add: keeps_known_def)
  have tr: "tracked out1 = tracked out" using same_tracks_cong(4) [OF t] by blast
  have "running a dv da (map (tracked out1 \<circ> fst) ps) out1"
    unfolding tr using running_step [OF _ o1(1) k Cons.prems(4)] Cons.prems(1) x by (simp add: comp_def)
  moreover have "\<forall>(p, t) \<in> set ps. known_packet out1 p" using Cons.prems(3) same_tracks_cong(2) [OF t] by auto
  ultimately show ?case using Cons.IH [OF _ o1(2)] Cons.prems(4) by blast
qed simp

lemma reset_collecting:
  assumes "two_tracks a out" "output_active out" "sent_packets out = []" "0 < sint dv" "0 < sint da"
    "\<forall>(p, t) \<in> set ps. known_packet out p \<and> timed dv da p" "dts_sorted (map fst ps)"
  shows "running a dv da (map (tracked (reset_packet_data out) \<circ> fst) ps) (reset_packet_data out)"
proof -
  let ?o = "reset_packet_data out"
  note t = reset_fields(3) [of out]
  have "on_track a (tracked ?o p)" if "(p, t) \<in> set ps" for p t
    using assms(1, 6) that tracked_known [of ?o p] same_tracks_cong(2) [OF t] two_tracks_same [OF t] two_tracks_known [of a ?o]
    by auto
  moreover have "timed dv da (tracked o' p) = timed dv da p" "p_type (tracked o' p) = p_type p" "p_dts (tracked o' p) = p_dts p"
    for o' p by (simp_all add: timed_def tracked_def usec_def)
  moreover from this have "dts_sorted (map (tracked ?o \<circ> fst) ps)"
    using assms(7) by (simp add: dts_sorted_def sorted_wrt_map)
  ultimately have "collecting a dv da (map (tracked ?o \<circ> fst) ps) ?o"
    using assms two_tracks_same [OF t] same_tracks_cong(5) [OF t] by (auto simp: collecting_def reset_fields)
  moreover have "unstarted ?o" by (simp add: unstarted_def started_def reset_fields)
  ultimately show ?thesis by (simp add: running_def)
qed

section \<open>Properties\<close>

text \<open>
  C33.  With one video and one audio encoder the packets leave the output in the order of their decode
  times.  The encoders deliver their own packets in order, with bounded time stamps and a fixed
  time base, in any interleaving, and captions leave the times alone.
\<close>

theorem sent_in_order:
  assumes "two_tracks a out" "output_active out" "sent_packets out = []" "keeps_stamps cap"
    "0 < sint dv" "0 < sint da" "\<forall>(p, t) \<in> set ps. known_packet out p \<and> timed dv da p" "dts_sorted (map fst ps)"
    "interleave_all cap ps (reset_packet_data out) = Some out'"
  shows "sorted (map (\<lambda>(p, t). sint (p_dts_usec p)) (sent_packets out'))"
proof -
  have "\<forall>(p, t) \<in> set ps. known_packet (reset_packet_data out) p"
    using assms(7) same_tracks_cong(2) [OF reset_fields(3)] by auto
  from running_all [OF reset_collecting [OF assms(1-3, 5-8)] assms(9) this assms(4)]
  have "sorted (map (usec \<circ> fst) (sent_packets out'))" by (auto simp: running_def collecting_def streaming_def)
  moreover have "usec \<circ> fst = (\<lambda>(p, t). sint (p_dts_usec p))" for t :: "encoder_packet \<times> encoder_packet_time option"
    by (auto simp: usec_def fun_eq_iff)
  ultimately show ?thesis by (simp add: usec_def comp_def case_prod_unfold)
qed

lemma av_two_tracks: "two_tracks 0 av_output" "sent_packets av_output = []"
  by (auto simp: two_tracks_def av_output_def reset_packet_data_def free_packets_def MAX_OUTPUT_AUDIO_ENCODERS_def)

theorem sent_in_order_witness:
  "\<exists>out'. interleave_all (\<lambda>_ p. p) [(av_video True 0 0, None), (av_audio False 0 0, None), (av_audio False 1024 21333, None)]
      (reset_packet_data av_output) = Some out' \<and> sorted (map (\<lambda>(p, t). sint (p_dts_usec p)) (sent_packets out'))"
proof -
  let ?ps = "[(av_video True 0 0, None), (av_audio False 0 0, None), (av_audio False 1024 21333, None)]"
  let ?cap = "\<lambda>_ p. p"
  note c = same_tracks_cong [OF reset_fields(3) [of av_output]]
  have "tracks_known (reset_packet_data av_output)" by (simp add: tracks_known_def reset_fields)
  then obtain out' where o': "interleave_all ?cap ?ps (reset_packet_data av_output) = Some out'"
    using interleave_all_defined [of "reset_packet_data av_output" ?ps ?cap] av_known av_output_fields(2) c(2, 3) by auto
  have k: "\<forall>(p, t) \<in> set ?ps. known_packet av_output p \<and> timed 30 48000 p"
    using av_known by (auto simp: timed_def av_packet_def usec_def usec_of_def trunc_div_def)
  have "keeps_stamps ?cap" "dts_sorted (map fst ?ps)" by (simp_all add: keeps_stamps_def dts_sorted_def av_packet_def)
  then have "sorted (map (\<lambda>(p, t). sint (p_dts_usec p)) (sent_packets out'))"
    using sent_in_order [OF av_two_tracks(1) av_output_fields(3) av_two_tracks(2) _ _ _ k _ o'] by simp
  then show ?thesis using o' by blast
qed

text \<open>The definitions a concrete run unfolds.\<close>

lemmas run_simps = av_packet_def av_output_def reset_packet_data_def free_packets_def interleave_packets_def
  get_encoder_index_def is_encoder_def first_index_def upt_rec MAX_OUTPUT_AUDIO_ENCODERS_def MAX_OUTPUT_VIDEO_ENCODERS_def
  check_encoder_group_keyframe_alignment_def packet_group_def all_video_received_def Let_def push_packet_time_def
  check_received_def insert_interleaved_packet_def insert_before_def s64_less_def start_interleaving_def
  prune_interleaved_packets_def prune_premature_packets_def find_first_packet_type_idx_def is_track_def
  get_encoder_duration_def s64_div_def trunc_div_def discard_to_idx_def initialize_interleaved_packets_def
  get_first_audio_encoder_index_def get_first_video_encoder_index_def get_audio_and_video_packets_def
  find_first_packet_type_def get_interleaved_start_idx_def DARRAY_INVALID_def llabs_def prime_audio_idx_def
  find_last_packet_type_def find_last_packet_type_idx_def late_audio_def shift_packets_def new_offsets_def
  apply_interleaved_packet_offset_def track_offset_def packet_dts_usec_def resort_interleaved_packets_def
  apply_ept_offsets_def send_interleaved_def set_higher_ts_def stream_packets_def count_streamable_frames_def
  has_higher_opposing_ts_def


text \<open>The output with a second audio encoder.\<close>

definition two_audio_output :: obs_output where
  "two_audio_output = av_output\<lparr>audio_encoders := (\<lambda>i. if i = 0 \<or> i = 1 then Some \<lparr>oe_ptr = 2 + i, oe_timebase_num = 1,
     oe_timebase_den = 48000, oe_framesize = 1024, oe_group = None\<rparr> else None)\<rparr>"


end
