(* ===== verification/Amf.thy ===== *)
theory Amf
  imports Encoder
begin

text \<open>
  The action message format of the stream meta data: the encoders of
  \<open>plugins/obs-outputs/librtmp/amf.c\<close> and their wrappers in \<open>rtmp-helpers.h\<close>, on a little-endian
  host.  An encoder writes at the output pointer and returns the new one, or \<open>NULL\<close> when the
  buffer is too small; here the bytes written so far stand for the pointer and \<open>None\<close> for
  \<open>NULL\<close>.  The callers pass the result on without a test, so \<open>None\<close> is also what follows.

  A \<open>double\<close> is its bit pattern; numbers that the code converts or divides are rounded to the
  nearest one, ties to even.
\<close>

section \<open>Floating point\<close>

fun log2 :: "nat \<Rightarrow> nat" where
  "log2 n = (if n < 2 then 0 else 1 + log2 (n div 2))"

declare log2.simps [simp del]

definition round_half_even :: "nat \<Rightarrow> nat \<Rightarrow> nat" where
  "round_half_even a b =
    (let q = a div b; r = a mod b
     in if 2 * r < b then q else if b < 2 * r then q + 1 else q + q mod 2)"

text \<open>The exponent of the leading bit of \<open>n / d\<close>.\<close>

definition double_exponent :: "nat \<Rightarrow> nat \<Rightarrow> int" where
  "double_exponent n d =
    (let e = int (log2 n) - int (log2 d)
     in if n * 2 ^ nat (- e) < d * 2 ^ nat e then e - 1 else e)"

definition double_of_ratio :: "nat \<Rightarrow> nat \<Rightarrow> u64" where
  "double_of_ratio n d =
    (if n = 0 then 0
     else
       (let e = double_exponent n d;
            m = round_half_even (n * 2 ^ nat (52 - e)) (d * 2 ^ nat (e - 52))
        in word_of_int ((e + 1022) * 2 ^ 52 + int m)))"

definition double_quotient :: "int \<Rightarrow> nat \<Rightarrow> u64" where
  "double_quotient i d = (if i < 0 then push_bit 63 1 OR double_of_ratio (nat (- i)) d else double_of_ratio (nat i) d)"

definition double_of_int :: "int \<Rightarrow> u64" where
  "double_of_int i = double_quotient i 1"

section \<open>Encoders\<close>

definition AMF_NUMBER :: byte where
  "AMF_NUMBER = 0"

definition AMF_BOOLEAN :: byte where
  "AMF_BOOLEAN = 1"

definition AMF_STRING :: byte where
  "AMF_STRING = 2"

definition AMF_ECMA_ARRAY :: byte where
  "AMF_ECMA_ARRAY = 8"

definition AMF_OBJECT_END :: byte where
  "AMF_OBJECT_END = 9"

definition AMF_LONG_STRING :: byte where
  "AMF_LONG_STRING = 12"

definition AMF_EncodeInt16 :: "nat \<Rightarrow> u16 \<Rightarrow> byte list \<Rightarrow> byte list option" where
  "AMF_EncodeInt16 outend nVal output = (if length output + 2 > outend then None else Some (output @ be16 nVal))"

definition AMF_EncodeInt32 :: "nat \<Rightarrow> u32 \<Rightarrow> byte list \<Rightarrow> byte list option" where
  "AMF_EncodeInt32 outend nVal output = (if length output + 4 > outend then None else Some (output @ be32 nVal))"

definition AMF_EncodeString :: "nat \<Rightarrow> string \<Rightarrow> byte list \<Rightarrow> byte list option" where
  "AMF_EncodeString outend bv output =
    (if length bv < 65536 \<and> length output + 1 + 2 + length bv > outend \<or> length output + 1 + 4 + length bv > outend
     then None
     else do {
       output1 \<leftarrow> (if length bv < 65536 then AMF_EncodeInt16 outend (word_of_nat (length bv)) (output @ [AMF_STRING])
                  else AMF_EncodeInt32 outend (word_of_nat (length bv)) (output @ [AMF_LONG_STRING]));
       Some (output1 @ bytes_of_string bv) })"

definition AMF_EncodeNumber :: "nat \<Rightarrow> u64 \<Rightarrow> byte list \<Rightarrow> byte list option" where
  "AMF_EncodeNumber outend dVal output =
    (if length output + 1 + 8 > outend then None else Some (output @ AMF_NUMBER # be64 dVal))"

definition AMF_EncodeBoolean :: "nat \<Rightarrow> bool \<Rightarrow> byte list \<Rightarrow> byte list option" where
  "AMF_EncodeBoolean outend bVal output =
    (if length output + 2 > outend then None else Some (output @ [AMF_BOOLEAN, if bVal then 1 else 0]))"

definition AMF_EncodeNamedString :: "nat \<Rightarrow> string \<Rightarrow> string \<Rightarrow> byte list \<Rightarrow> byte list option" where
  "AMF_EncodeNamedString outend strName strValue output =
    (if length output + 2 + length strName > outend then None
     else do {
       output1 \<leftarrow> AMF_EncodeInt16 outend (word_of_nat (length strName)) output;
       AMF_EncodeString outend strValue (output1 @ bytes_of_string strName) })"

definition AMF_EncodeNamedNumber :: "nat \<Rightarrow> string \<Rightarrow> u64 \<Rightarrow> byte list \<Rightarrow> byte list option" where
  "AMF_EncodeNamedNumber outend strName dVal output =
    (if length output + 2 + length strName > outend then None
     else do {
       output1 \<leftarrow> AMF_EncodeInt16 outend (word_of_nat (length strName)) output;
       AMF_EncodeNumber outend dVal (output1 @ bytes_of_string strName) })"

definition AMF_EncodeNamedBoolean :: "nat \<Rightarrow> string \<Rightarrow> bool \<Rightarrow> byte list \<Rightarrow> byte list option" where
  "AMF_EncodeNamedBoolean outend strName bVal output =
    (if length output + 2 + length strName > outend then None
     else do {
       output1 \<leftarrow> AMF_EncodeInt16 outend (word_of_nat (length strName)) output;
       AMF_EncodeBoolean outend bVal (output1 @ bytes_of_string strName) })"

definition enc_num_val :: "nat \<Rightarrow> string \<Rightarrow> u64 \<Rightarrow> byte list \<Rightarrow> byte list option" where
  "enc_num_val outend name val enc = AMF_EncodeNamedNumber outend name val enc"

definition enc_bool_val :: "nat \<Rightarrow> string \<Rightarrow> bool \<Rightarrow> byte list \<Rightarrow> byte list option" where
  "enc_bool_val outend name val enc = AMF_EncodeNamedBoolean outend name val enc"

definition enc_str_val :: "nat \<Rightarrow> string \<Rightarrow> string \<Rightarrow> byte list \<Rightarrow> byte list option" where
  "enc_str_val outend name val enc = AMF_EncodeNamedString outend name val enc"

definition enc_str :: "nat \<Rightarrow> string \<Rightarrow> byte list \<Rightarrow> byte list option" where
  "enc_str outend str enc = AMF_EncodeString outend str enc"

section \<open>What the encoders write\<close>

definition amf_name :: "string \<Rightarrow> byte list" where
  "amf_name s = be16 (word_of_nat (length s)) @ bytes_of_string s"

definition amf_num :: "string \<Rightarrow> u64 \<Rightarrow> byte list" where
  "amf_num s v = amf_name s @ AMF_NUMBER # be64 v"

definition amf_bool :: "string \<Rightarrow> bool \<Rightarrow> byte list" where
  "amf_bool s b = amf_name s @ [AMF_BOOLEAN, if b then 1 else 0]"

definition amf_str :: "string \<Rightarrow> byte list" where
  "amf_str s = AMF_STRING # amf_name s"

lemma length_amf [simp]:
  "length (amf_name s) = 2 + length s" "length (amf_num s v) = 11 + length s"
  "length (amf_bool s b) = 4 + length s" "length (amf_str s) = 3 + length s"
  by (simp_all add: amf_name_def amf_num_def amf_bool_def amf_str_def)

lemma enc_num_val_room:
  "length enc + 11 + length s \<le> outend \<Longrightarrow> enc_num_val outend s v enc = Some (enc @ amf_num s v)"
  by (simp add: enc_num_val_def AMF_EncodeNamedNumber_def AMF_EncodeInt16_def AMF_EncodeNumber_def amf_num_def amf_name_def)

lemma enc_bool_val_room:
  "length enc + 4 + length s \<le> outend \<Longrightarrow> enc_bool_val outend s b enc = Some (enc @ amf_bool s b)"
  by (simp add: enc_bool_val_def AMF_EncodeNamedBoolean_def AMF_EncodeInt16_def AMF_EncodeBoolean_def amf_bool_def
      amf_name_def)

lemma enc_str_room:
  "length enc + 5 + length s \<le> outend \<Longrightarrow> length s < 65536 \<Longrightarrow> enc_str outend s enc = Some (enc @ amf_str s)"
  by (simp add: enc_str_def AMF_EncodeString_def AMF_EncodeInt16_def amf_str_def amf_name_def)

lemma enc_str_val_room:
  "length enc + 7 + length s + length v \<le> outend \<Longrightarrow> length v < 65536 \<Longrightarrow>
    enc_str_val outend s v enc = Some (enc @ amf_name s @ amf_str v)"
  by (simp add: enc_str_val_def AMF_EncodeNamedString_def AMF_EncodeString_def AMF_EncodeInt16_def amf_str_def
      amf_name_def)

end
