(* ===== verification/Flv_Mux.thy ===== *)
theory Flv_Mux
  imports Amf Interleave Serializer
begin

text \<open>
  The FLV muxer (\<open>plugins/obs-outputs/flv-mux.c\<close>, \<open>flv-mux.h\<close>): the script tag with the meta
  data, the tags of H.264 and AAC packets, and the extended tags of the other codecs and of
  additional tracks.  Every function writes one tag into an array of its own: an 11-byte head
  with type, body size and time stamp, the body, and the size of the whole tag again.

  The build is the default one with HEVC; assertions are not compiled in.
\<close>

section \<open>Codecs and time\<close>

datatype audio_id_t = AUDIO_CODEC_NONE | AUDIO_CODEC_AAC

datatype video_id_t = CODEC_NONE | CODEC_H264 | CODEC_AV1 | CODEC_HEVC

definition to_audio_type :: "string \<Rightarrow> audio_id_t" where
  "to_audio_type codec = (if codec = ''aac'' then AUDIO_CODEC_AAC else AUDIO_CODEC_NONE)"

definition to_video_type :: "string \<Rightarrow> video_id_t" where
  "to_video_type codec =
    (if codec = ''h264'' then CODEC_H264 else if codec = ''av1'' then CODEC_AV1
     else if codec = ''hevc'' then CODEC_HEVC else CODEC_NONE)"

definition get_ms_time :: "encoder_packet \<Rightarrow> s64 \<Rightarrow> s32" where
  "get_ms_time packet val = ucast (s64_div (val * 1000) (scast (p_timebase_den packet)))"

definition RTMP_PACKET_TYPE_AUDIO :: byte where
  "RTMP_PACKET_TYPE_AUDIO = 0x08"

definition RTMP_PACKET_TYPE_VIDEO :: byte where
  "RTMP_PACKET_TYPE_VIDEO = 0x09"

definition RTMP_PACKET_TYPE_INFO :: byte where
  "RTMP_PACKET_TYPE_INFO = 0x12"

definition FT_KEY :: byte where
  "FT_KEY = push_bit 4 1"

definition FT_INTER :: byte where
  "FT_INTER = push_bit 4 2"

definition AUDIO_HEADER_EX :: byte where
  "AUDIO_HEADER_EX = push_bit 4 9"

definition FRAME_HEADER_EX :: byte where
  "FRAME_HEADER_EX = push_bit 4 8"

definition AUDIO_PACKETTYPE_SEQ_START :: byte where
  "AUDIO_PACKETTYPE_SEQ_START = 0"

definition AUDIO_PACKETTYPE_FRAMES :: byte where
  "AUDIO_PACKETTYPE_FRAMES = 1"

definition AUDIO_PACKETTYPE_MULTITRACK :: byte where
  "AUDIO_PACKETTYPE_MULTITRACK = 5"

definition PACKETTYPE_SEQ_START :: byte where
  "PACKETTYPE_SEQ_START = 0"

definition PACKETTYPE_FRAMES :: byte where
  "PACKETTYPE_FRAMES = 1"

definition PACKETTYPE_SEQ_END :: byte where
  "PACKETTYPE_SEQ_END = 2"

definition PACKETTYPE_FRAMESX :: byte where
  "PACKETTYPE_FRAMESX = 3"

definition PACKETTYPE_METADATA :: byte where
  "PACKETTYPE_METADATA = 4"

definition PACKETTYPE_MULTITRACK :: byte where
  "PACKETTYPE_MULTITRACK = 6"

definition MULTITRACKTYPE_ONE_TRACK :: byte where
  "MULTITRACKTYPE_ONE_TRACK = 0x00"

definition DATA_TYPE_NUMBER :: byte where
  "DATA_TYPE_NUMBER = 0"

definition DATA_TYPE_STRING :: byte where
  "DATA_TYPE_STRING = 2"

definition DATA_TYPE_OBJECT :: byte where
  "DATA_TYPE_OBJECT = 3"

definition DATA_TYPE_OBJECT_END :: byte where
  "DATA_TYPE_OBJECT_END = 9"

section \<open>Formatted writers\<close>

definition s_wa4cc :: "audio_id_t \<Rightarrow> ('s serializer, unit) state" where
  "s_wa4cc cid = (case cid of
      AUDIO_CODEC_NONE \<Rightarrow> State_Monad.return ()
    | AUDIO_CODEC_AAC \<Rightarrow> do { s_w8 0x6D; s_w8 0x70; s_w8 0x34; s_w8 0x61 })"

definition s_w4cc :: "video_id_t \<Rightarrow> ('s serializer, unit) state" where
  "s_w4cc cid = (case cid of
      CODEC_NONE \<Rightarrow> State_Monad.return ()
    | CODEC_AV1 \<Rightarrow> do { s_w8 0x61; s_w8 0x76; s_w8 0x30; s_w8 0x31 }
    | CODEC_HEVC \<Rightarrow> do { s_w8 0x68; s_w8 0x76; s_w8 0x63; s_w8 0x31 }
    | CODEC_H264 \<Rightarrow> do { s_w8 0x61; s_w8 0x76; s_w8 0x63; s_w8 0x31 })"

definition s_wstring :: "string \<Rightarrow> ('s serializer, unit) state" where
  "s_wstring str = do { s_wb16 (word_of_nat (length str)); s_write (bytes_of_string str); State_Monad.return () }"

definition s_wtimestamp :: "s32 \<Rightarrow> ('s serializer, unit) state" where
  "s_wtimestamp i32 = do { s_wb24 (i32 AND 0xFFFFFF); s_w8 (ucast (drop_bit 24 i32) AND 0x7F) }"

definition s_wbd :: "u64 \<Rightarrow> ('s serializer, unit) state" where
  "s_wbd d = s_wb64 d"

definition write_previous_tag_size_without_header :: "u32 \<Rightarrow> ('s serializer, unit) state" where
  "write_previous_tag_size_without_header header_size = do {
     pos \<leftarrow> serializer_get_pos;
     s_wb32 (word_of_int pos - header_size) }"

definition write_previous_tag_size :: "('s serializer, unit) state" where
  "write_previous_tag_size = write_previous_tag_size_without_header 0"

text \<open>The bytes a program writes into a new array serializer.\<close>

definition array_output :: "(array_output_data serializer, unit) state \<Rightarrow> byte list" where
  "array_output m = ao_bytes (ser_data (snd (run_state m array_output_serializer_init)))"

section \<open>Meta data\<close>

text \<open>What the muxer reads of an output: its encoders, and the version string of \<open>libobs\<close>.\<close>

record flv_context =
  fc_video_encoders :: "nat \<Rightarrow> obs_encoder option"
  fc_audio_encoders :: "nat \<Rightarrow> obs_encoder option"
  fc_version :: string

definition obs_output_get_video_encoder2 :: "flv_context \<Rightarrow> nat \<Rightarrow> obs_encoder option" where
  "obs_output_get_video_encoder2 cx idx = (if idx \<ge> MAX_OUTPUT_VIDEO_ENCODERS then None else fc_video_encoders cx idx)"

definition obs_output_get_video_encoder :: "flv_context \<Rightarrow> obs_encoder option" where
  "obs_output_get_video_encoder cx =
    (case first_index (\<lambda>i. fc_video_encoders cx i \<noteq> None) MAX_OUTPUT_VIDEO_ENCODERS of
       None \<Rightarrow> None | Some i \<Rightarrow> obs_output_get_video_encoder2 cx i)"

definition obs_output_get_audio_encoder :: "flv_context \<Rightarrow> nat \<Rightarrow> obs_encoder option" where
  "obs_output_get_audio_encoder cx idx = (if idx \<ge> MAX_OUTPUT_AUDIO_ENCODERS then None else fc_audio_encoders cx idx)"

definition encoder_bitrate :: "obs_encoder option \<Rightarrow> u64" where
  "encoder_bitrate enc = (case obs_encoder_get_settings enc of None \<Rightarrow> 0 | Some st \<Rightarrow> set_double st ''bitrate'')"

text \<open>\<open>None\<close>: there is no encoder, and the code compares a null string.\<close>

definition encoder_video_codec :: "obs_encoder option \<Rightarrow> u64 option" where
  "encoder_video_codec enc =
    map_option (\<lambda>codec. if codec = ''h264'' then double_of_int 7
        else if codec = ''av1'' then double_of_int 1635135537
        else if codec = ''hevc'' then double_of_int 1752589105 else double_of_int 0) (obs_encoder_get_codec enc)"

text \<open>An encoder's video has a frame rate with a denominator other than zero.\<close>

definition video_output_get_frame_rate :: "video_output_info option \<Rightarrow> u64" where
  "video_output_get_frame_rate video = (case video of None \<Rightarrow> 0
     | Some v \<Rightarrow> double_of_ratio (unat (vo_fps_num v)) (unat (vo_fps_den v)))"

definition FLV_INFO_SIZE_OFFSET :: nat where
  "FLV_INFO_SIZE_OFFSET = 58"

text \<open>A byte stored without a test; \<open>None\<close>: past the end of the buffer.\<close>

definition put_byte :: "nat \<Rightarrow> byte \<Rightarrow> byte list \<Rightarrow> byte list option" where
  "put_byte outend b enc = (if length enc + 1 > outend then None else Some (enc @ [b]))"

definition MODULE_NAME :: string where
  "MODULE_NAME = ''obs-output module''"

definition build_flv_meta_data :: "flv_context \<Rightarrow> byte list option" where
  "build_flv_meta_data cx =
    (let vencoder = obs_output_get_video_encoder cx;
         aencoder = obs_output_get_audio_encoder cx 0;
         video = obs_encoder_video vencoder;
         end = 4096
     in case (encoder_video_codec vencoder, obs_encoder_audio aencoder) of
       (Some codec_id, Some audio) \<Rightarrow> (let channels = unat (audio_output_get_channels (Some audio)) in do {
         enc \<leftarrow> enc_str end ''@setDataFrame'' [];
         enc \<leftarrow> enc_str end ''onMetaData'' enc;
         enc \<leftarrow> put_byte end AMF_ECMA_ARRAY enc;
         enc \<leftarrow> AMF_EncodeInt32 end 20 enc;
         enc \<leftarrow> enc_num_val end ''duration'' 0 enc;
         enc \<leftarrow> enc_num_val end ''fileSize'' 0 enc;
         enc \<leftarrow> enc_num_val end ''width'' (double_of_int (uint (obs_encoder_get_width vencoder))) enc;
         enc \<leftarrow> enc_num_val end ''height'' (double_of_int (uint (obs_encoder_get_height vencoder))) enc;
         enc \<leftarrow> enc_num_val end ''videocodecid'' codec_id enc;
         enc \<leftarrow> enc_num_val end ''videodatarate'' (encoder_bitrate vencoder) enc;
         enc \<leftarrow> enc_num_val end ''framerate'' (video_output_get_frame_rate video) enc;
         enc \<leftarrow> enc_num_val end ''audiocodecid'' (double_of_int 10) enc;
         enc \<leftarrow> enc_num_val end ''audiodatarate'' (encoder_bitrate aencoder) enc;
         enc \<leftarrow> enc_num_val end ''audiosamplerate'' (double_of_int (uint (obs_encoder_get_sample_rate aencoder))) enc;
         enc \<leftarrow> enc_num_val end ''audiosamplesize'' (double_of_int 16) enc;
         enc \<leftarrow> enc_num_val end ''audiochannels'' (double_of_int (int channels)) enc;
         enc \<leftarrow> enc_bool_val end ''stereo'' (channels = 2) enc;
         enc \<leftarrow> enc_bool_val end ''2.1'' (channels = 3) enc;
         enc \<leftarrow> enc_bool_val end ''3.1'' (channels = 4) enc;
         enc \<leftarrow> enc_bool_val end ''4.0'' (channels = 4) enc;
         enc \<leftarrow> enc_bool_val end ''4.1'' (channels = 5) enc;
         enc \<leftarrow> enc_bool_val end ''5.1'' (channels = 6) enc;
         enc \<leftarrow> enc_bool_val end ''7.1'' (channels = 8) enc;
         enc \<leftarrow> enc_str_val end ''encoder'' (MODULE_NAME @ '' (libobs version '' @ fc_version cx @ '')'') enc;
         enc \<leftarrow> put_byte end 0 enc;
         enc \<leftarrow> put_byte end 0 enc;
         put_byte end AMF_OBJECT_END enc })
     | _ \<Rightarrow> None)"

definition flv_meta_data :: "flv_context \<Rightarrow> bool \<Rightarrow> byte list option" where
  "flv_meta_data cx write_header =
    map_option (\<lambda>meta_data. array_output (do {
      (if write_header then do {
         s_write (bytes_of_string ''FLV'');
         s_w8 1;
         s_w8 5;
         s_wb32 9;
         s_wb32 0 }
       else State_Monad.return ());
      start_pos \<leftarrow> serializer_get_pos;
      s_w8 RTMP_PACKET_TYPE_INFO;
      s_wb24 (word_of_nat (length meta_data));
      s_wb32 0;
      s_wb24 0;
      s_write meta_data;
      write_previous_tag_size_without_header (word_of_int start_pos) })) (build_flv_meta_data cx)"

text \<open>The values of duration and size, written over those of the meta data when the file is complete.\<close>

definition write_file_info :: "c_file \<Rightarrow> s64 \<Rightarrow> int \<Rightarrow> c_file option" where
  "write_file_info f duration_ms sz =
    (let f1 = snd (os_fseeki64 f (int FLV_INFO_SIZE_OFFSET) SERIALIZE_SEEK_START)
     in do {
       enc \<leftarrow> enc_num_val 64 ''duration'' (double_quotient (sint duration_ms) 1000) [];
       enc \<leftarrow> enc_num_val 64 ''fileSize'' (double_of_int sz) enc;
       Some (snd (fwrite f1 enc)) })"

section \<open>Packets\<close>

definition flv_video :: "s32 \<Rightarrow> encoder_packet \<Rightarrow> bool \<Rightarrow> ('s serializer, unit) state" where
  "flv_video dts_offset packet is_header =
    (let ct_offset_ms = get_ms_time packet (p_pts packet) - get_ms_time packet (p_dts packet);
         time_ms = get_ms_time packet (p_dts packet) - dts_offset
     in if p_data packet = [] then State_Monad.return ()
        else do {
          s_w8 RTMP_PACKET_TYPE_VIDEO;
          s_wb24 (word_of_nat (length (p_data packet)) + 5);
          s_wb24 time_ms;
          s_w8 (ucast (drop_bit 24 time_ms) AND 0x7F);
          s_wb24 0;
          s_w8 (if p_keyframe packet then 0x17 else 0x27);
          s_w8 (if is_header then 0 else 1);
          s_wb24 ct_offset_ms;
          s_write (p_data packet);
          write_previous_tag_size })"

definition flv_audio :: "s32 \<Rightarrow> encoder_packet \<Rightarrow> bool \<Rightarrow> ('s serializer, unit) state" where
  "flv_audio dts_offset packet is_header =
    (let time_ms = get_ms_time packet (p_dts packet) - dts_offset
     in if p_data packet = [] then State_Monad.return ()
        else do {
          s_w8 RTMP_PACKET_TYPE_AUDIO;
          s_wb24 (word_of_nat (length (p_data packet)) + 2);
          s_wb24 time_ms;
          s_w8 (ucast (drop_bit 24 time_ms) AND 0x7F);
          s_wb24 0;
          s_w8 0xAF;
          s_w8 (if is_header then 0 else 1);
          s_write (p_data packet);
          write_previous_tag_size })"

definition flv_packet_mux :: "encoder_packet \<Rightarrow> s32 \<Rightarrow> bool \<Rightarrow> byte list" where
  "flv_packet_mux packet dts_offset is_header =
    array_output (if p_type packet = OBS_ENCODER_VIDEO then flv_video dts_offset packet is_header
                  else flv_audio dts_offset packet is_header)"

text \<open>\<open>None\<close>: the packet is empty, and the output parameters are left as they were.\<close>

definition flv_packet_audio_ex :: "encoder_packet \<Rightarrow> audio_id_t \<Rightarrow> s32 \<Rightarrow> byte \<Rightarrow> nat \<Rightarrow> byte list option" where
  "flv_packet_audio_ex packet codec_id dts_offset type idx =
    (let time_ms = get_ms_time packet (p_dts packet) - dts_offset;
         is_multitrack = idx > 0
     in if p_data packet = [] then None
        else Some (array_output (do {
          s_w8 RTMP_PACKET_TYPE_AUDIO;
          s_wb24 (word_of_nat (length (p_data packet)) + (if is_multitrack then 7 else 5));
          s_wb24 time_ms;
          s_w8 (ucast (drop_bit 24 time_ms) AND 0x7F);
          s_wb24 0;
          s_w8 (AUDIO_HEADER_EX OR (if is_multitrack then AUDIO_PACKETTYPE_MULTITRACK else type));
          (if is_multitrack then do {
             s_w8 (MULTITRACKTYPE_ONE_TRACK OR type);
             s_wa4cc codec_id;
             s_w8 (word_of_nat idx) }
           else s_wa4cc codec_id);
          s_write (p_data packet);
          write_previous_tag_size })))"

definition has_ct_offset :: "video_id_t \<Rightarrow> byte \<Rightarrow> bool" where
  "has_ct_offset codec_id type \<longleftrightarrow> (codec_id = CODEC_H264 \<or> codec_id = CODEC_HEVC) \<and> type = PACKETTYPE_FRAMES"

text \<open>
  \<open>sz\<close> is the size field of the packet, which is the length of its data unless the data pointer
  is null; a null pointer is an empty list.
\<close>

definition flv_packet_ex :: "encoder_packet \<Rightarrow> nat \<Rightarrow> video_id_t \<Rightarrow> s32 \<Rightarrow> byte \<Rightarrow> nat \<Rightarrow> byte list" where
  "flv_packet_ex packet sz codec_id dts_offset type idx =
    (let time_ms = get_ms_time packet (p_dts packet) - dts_offset;
         is_multitrack = idx > 0;
         header_metadata_size = 5 + (if has_ct_offset codec_id type then 3 else 0) + (if is_multitrack then 2 else 0);
         frame_type = (if p_keyframe packet then FT_KEY else FT_INTER)
     in array_output (do {
          s_w8 RTMP_PACKET_TYPE_VIDEO;
          s_wb24 (word_of_nat sz + header_metadata_size);
          s_wtimestamp time_ms;
          s_wb24 0;
          (if is_multitrack then do {
             s_w8 (FRAME_HEADER_EX OR PACKETTYPE_MULTITRACK OR frame_type);
             s_w8 (MULTITRACKTYPE_ONE_TRACK OR type);
             s_w4cc codec_id;
             s_w8 (word_of_nat idx) }
           else do {
             s_w8 (FRAME_HEADER_EX OR type OR frame_type);
             s_w4cc codec_id });
          (if has_ct_offset codec_id type
           then s_wb24 (get_ms_time packet (p_pts packet) - get_ms_time packet (p_dts packet))
           else State_Monad.return ());
          s_write (p_data packet);
          write_previous_tag_size }))"

definition flv_packet_start :: "encoder_packet \<Rightarrow> nat \<Rightarrow> video_id_t \<Rightarrow> nat \<Rightarrow> byte list" where
  "flv_packet_start packet sz codec idx = flv_packet_ex packet sz codec 0 PACKETTYPE_SEQ_START idx"

definition flv_packet_frames :: "encoder_packet \<Rightarrow> video_id_t \<Rightarrow> s32 \<Rightarrow> nat \<Rightarrow> byte list" where
  "flv_packet_frames packet codec dts_offset idx =
    (let packet_type = (if (codec = CODEC_H264 \<or> codec = CODEC_HEVC) \<and> p_dts packet = p_pts packet
                        then PACKETTYPE_FRAMESX else PACKETTYPE_FRAMES)
     in flv_packet_ex packet (length (p_data packet)) codec dts_offset packet_type idx)"

definition flv_packet_end :: "encoder_packet \<Rightarrow> video_id_t \<Rightarrow> nat \<Rightarrow> byte list" where
  "flv_packet_end packet codec idx = flv_packet_ex packet (length (p_data packet)) codec 0 PACKETTYPE_SEQ_END idx"

definition flv_packet_audio_start :: "encoder_packet \<Rightarrow> audio_id_t \<Rightarrow> nat \<Rightarrow> byte list option" where
  "flv_packet_audio_start packet codec idx = flv_packet_audio_ex packet codec 0 AUDIO_PACKETTYPE_SEQ_START idx"

definition flv_packet_audio_frames :: "encoder_packet \<Rightarrow> audio_id_t \<Rightarrow> s32 \<Rightarrow> nat \<Rightarrow> byte list option" where
  "flv_packet_audio_frames packet codec dts_offset idx =
    flv_packet_audio_ex packet codec dts_offset AUDIO_PACKETTYPE_FRAMES idx"

definition write_number :: "string \<Rightarrow> int \<Rightarrow> ('s serializer, unit) state" where
  "write_number name v = do { s_wstring name; s_w8 DATA_TYPE_NUMBER; s_wbd (double_of_int v) }"

definition write_object_end :: "('s serializer, unit) state" where
  "write_object_end = do { s_w8 0; s_w8 0; s_w8 DATA_TYPE_OBJECT_END }"

definition write_color_info :: "int \<Rightarrow> int \<Rightarrow> int \<Rightarrow> int \<Rightarrow> int \<Rightarrow> int \<Rightarrow> ('s serializer, unit) state" where
  "write_color_info bits_per_raw_sample color_primaries color_trc color_space min_luminance max_luminance = do {
     s_w8 DATA_TYPE_STRING;
     s_wstring ''colorInfo'';
     s_w8 DATA_TYPE_OBJECT;
     s_wstring ''colorConfig'';
     s_w8 DATA_TYPE_OBJECT;
     write_number ''bitDepth'' bits_per_raw_sample;
     write_number ''colorPrimaries'' color_primaries;
     write_number ''transferCharacteristics'' color_trc;
     write_number ''matrixCoefficients'' color_space;
     write_object_end;
     (if max_luminance \<noteq> 0 then do {
        s_wstring ''hdrMdcv'';
        s_w8 DATA_TYPE_OBJECT;
        write_number ''maxLuminance'' max_luminance;
        write_number ''minLuminance'' min_luminance;
        write_object_end }
      else State_Monad.return ());
     write_object_end }"

definition flv_packet_metadata ::
  "video_id_t \<Rightarrow> int \<Rightarrow> int \<Rightarrow> int \<Rightarrow> int \<Rightarrow> int \<Rightarrow> int \<Rightarrow> nat \<Rightarrow> byte list" where
  "flv_packet_metadata codec_id bits_per_raw_sample color_primaries color_trc color_space min_luminance max_luminance idx =
    (let metadata = array_output (write_color_info bits_per_raw_sample color_primaries color_trc color_space
                      min_luminance max_luminance);
         is_multitrack = idx > 0;
         header_metadata_size = (if is_multitrack then 7 else 5)
     in array_output (do {
          s_w8 RTMP_PACKET_TYPE_VIDEO;
          s_wb24 (word_of_nat (length metadata) + header_metadata_size);
          s_wtimestamp 0;
          s_wb24 0;
          s_w8 (FRAME_HEADER_EX OR (if is_multitrack then PACKETTYPE_MULTITRACK else PACKETTYPE_METADATA));
          (if is_multitrack then do {
             s_w8 (MULTITRACKTYPE_ONE_TRACK OR PACKETTYPE_METADATA);
             s_w4cc codec_id;
             s_w8 (word_of_nat idx) }
           else s_w4cc codec_id);
          s_write metadata;
          write_previous_tag_size }))"

end
