(* ===== verification/Flv_Tags.thy ===== *)
theory Flv_Tags
  imports Flv_Mux
begin

text \<open>
  The tags the FLV muxer writes, against a reader of the format: a sequence of tags reads back
  as their types, time stamps and bodies, and each function of \<open>Flv_Mux\<close> writes exactly one
  tag with the body that the format prescribes.
\<close>

section \<open>Tags\<close>

record flv_tag =
  tag_type :: byte
  tag_time :: nat
  tag_body :: "byte list"

definition tag_bytes :: "flv_tag \<Rightarrow> byte list" where
  "tag_bytes t =
    tag_type t # be24 (word_of_nat (length (tag_body t))) @ be24 (word_of_nat (tag_time t)) @
    [word_of_nat (tag_time t div 2 ^ 24)] @ be24 0 @ tag_body t @ be32 (word_of_nat (11 + length (tag_body t)))"

definition tag_ok :: "flv_tag \<Rightarrow> bool" where
  "tag_ok t \<longleftrightarrow> length (tag_body t) < 2 ^ 24 \<and> tag_time t < 2 ^ 31"

text \<open>A reader of tags: type, body size, time stamp with its extension, stream 0, body, size of the tag.\<close>

function read_tags :: "byte list \<Rightarrow> flv_tag list option" where
  "read_tags bs =
    (if bs = [] then Some []
     else if length bs < 11 then None
     else
       (let n = from_be (take 3 (drop 1 bs))
        in if length bs < 15 + n \<or> from_be (take 3 (drop 8 bs)) \<noteq> 0 \<or> from_be (take 4 (drop (11 + n) bs)) \<noteq> 11 + n
           then None
           else map_option (Cons \<lparr>tag_type = bs ! 0,
               tag_time = from_be (take 3 (drop 4 bs)) + 2 ^ 24 * unat (bs ! 7),
               tag_body = take n (drop 11 bs)\<rparr>) (read_tags (drop (15 + n) bs))))"
  by pat_completeness auto
termination by (relation "measure length") auto

declare read_tags.simps [simp del]

lemma from_be_be24: "from_be (be24 w) = unat w mod 2 ^ 24"
proof -
  have "256 * (unat w div 256 mod 65536) + unat w mod 256 = unat w mod 16777216"
    using mod_mult2_eq [of "unat w" 256 65536] by simp
  then show ?thesis
    by (simp add: be24_def from_be_append from_be_be16 unsigned_ucast_eq take_bit_eq_mod drop_bit_eq_div unat_div
        from_be_def [of "[_]"])
qed

lemma from_be_be24_of_nat: "n < 2 ^ 24 \<Longrightarrow> from_be (be24 (word_of_nat n)) = n"
  by (simp add: from_be_be24 unat_of_nat)

lemma length_tag_bytes [simp]: "length (tag_bytes t) = 15 + length (tag_body t)"
  by (simp add: tag_bytes_def)

lemma read_tags_Nil [simp]: "read_tags [] = Some []"
  by (simp add: read_tags.simps)

lemma read_tags_tag:
  assumes "tag_ok t"
  shows "read_tags (tag_bytes t @ rest) = map_option (Cons t) (read_tags rest)"
proof -
  let ?n = "length (tag_body t)" and ?bs = "tag_bytes t @ rest"
  have n: "?n < 2 ^ 24" and tm: "tag_time t < 2 ^ 31" using assms by (auto simp: tag_ok_def)
  have sz: "from_be (take 3 (drop 1 ?bs)) = ?n"
    using n by (simp add: tag_bytes_def from_be_be24 unat_of_nat)
  have sid: "from_be (take 3 (drop 8 ?bs)) = 0"
    by (simp add: tag_bytes_def from_be_be24)
  have lo: "from_be (take 3 (drop 4 ?bs)) = tag_time t mod 2 ^ 24"
    using tm by (simp add: tag_bytes_def from_be_be24 unat_of_nat)
  have hi: "unat (?bs ! 7) = tag_time t div 2 ^ 24"
    using tm by (simp add: tag_bytes_def nth_append nth_Cons' unat_of_nat less_mult_imp_div_less)
  define head where "head = tag_type t # be24 (word_of_nat ?n) @ be24 (word_of_nat (tag_time t)) @
    [word_of_nat (tag_time t div 2 ^ 24)] @ be24 0"
  have "?bs = (head @ tag_body t) @ be32 (word_of_nat (11 + ?n)) @ rest" by (simp add: head_def tag_bytes_def)
  moreover have "length (head @ tag_body t) = 11 + ?n" by (simp add: head_def)
  ultimately have "take 4 (drop (11 + ?n) ?bs) = be32 (word_of_nat (11 + ?n))" by simp
  then have tail: "from_be (take 4 (drop (11 + ?n) ?bs)) = 11 + ?n"
    using n from_be_be32_of_nat [of "11 + ?n"] by simp
  have body: "take ?n (drop 11 ?bs) = tag_body t" "?bs ! 0 = tag_type t" by (simp_all add: tag_bytes_def)
  have rest: "drop (15 + ?n) ?bs = rest" by simp
  have tme: "tag_time t mod 2 ^ 24 + 2 ^ 24 * (tag_time t div 2 ^ 24) = tag_time t" by presburger
  have nn: "?bs \<noteq> []" "\<not> length ?bs < 11" "\<not> length ?bs < 15 + ?n" by (auto simp: tag_bytes_def)
  have whole: "\<lparr>tag_type = tag_type t, tag_time = tag_time t, tag_body = tag_body t\<rparr> = t" by (cases t) simp
  show ?thesis
    unfolding read_tags.simps [of ?bs] Let_def sz sid tail lo hi body rest tme whole using nn by simp
qed

lemma read_tags_concat:
  "list_all tag_ok ts \<Longrightarrow> read_tags (concat (map tag_bytes ts)) = Some ts"
  by (induction ts) (auto simp: read_tags_tag)

lemma read_tags_append:
  assumes "list_all tag_ok ts"
  shows "read_tags (concat (map tag_bytes ts) @ rest) = map_option ((@) ts) (read_tags rest)"
  using assms by (induction ts) (cases "read_tags rest"; simp add: read_tags_tag)+

section \<open>Time stamps\<close>

text \<open>A tag holds the low 31 bits of a time stamp.\<close>

definition flv_time :: "s32 \<Rightarrow> nat" where
  "flv_time t = unat (take_bit 31 t)"

lemma flv_time_less [simp]: "flv_time t < 2 ^ 31"
  using take_bit_nat_less_exp [of 31 "unat t"] by (simp add: flv_time_def unsigned_take_bit_eq)

lemma flv_time_nonneg:
  assumes "0 \<le> sint t"
  shows "int (flv_time t) = sint t"
proof -
  have "\<not> bit (uint t) 31" using assms bit_last_iff [of t] by (simp add: bit_uint_iff)
  then have "sint t = take_bit 31 (uint t)" by (simp add: sint_uint signed_take_bit_eq_if_positive)
  then show ?thesis by (simp add: flv_time_def unsigned_take_bit_eq of_nat_take_bit)
qed

lemma be24_time: "be24 (word_of_nat (flv_time t)) = be24 t"
proof -
  have "(word_of_nat (flv_time t) :: u32) = take_bit 31 t" by (simp add: flv_time_def)
  then show ?thesis
    unfolding be24_def be16_def
    by (simp only:) (auto intro!: bit_word_eqI simp: bit_simps)
qed

lemma byte_time: "(word_of_nat (flv_time t div 16777216) :: u8) = ucast (drop_bit 24 t) AND 0x7F"
proof -
  have "flv_time t div 16777216 = unat (drop_bit 24 (take_bit 31 t))" by (simp add: flv_time_def drop_bit_eq_div unat_div)
  then have "(word_of_nat (flv_time t div 16777216) :: u8) = ucast (drop_bit 24 (take_bit 31 t))"
    by (simp add: unsigned_ucast_eq)
  moreover have "b AND 0x7F = take_bit 7 b" for b :: u8 by (simp add: take_bit_eq_mask mask_eq_exp_minus_1)
  ultimately show ?thesis by (simp only:) (rule bit_word_eqI, auto simp: bit_simps)
qed

lemma be24_mask: "be24 (t AND 0xFFFFFF) = be24 t"
proof -
  have "t AND 0xFFFFFF = take_bit 24 t" by (simp add: take_bit_eq_mask mask_eq_exp_minus_1)
  then show ?thesis
    unfolding be24_def be16_def by (simp only:) (auto intro!: bit_word_eqI simp: bit_simps)
qed

section \<open>Writing a tag\<close>

text \<open>
  \<open>writes acc m bs\<close>: started on an array serializer that holds \<open>acc\<close>, the program leaves \<open>bs\<close>.
\<close>

definition writes :: "byte list \<Rightarrow> (array_output_data serializer, unit) state \<Rightarrow> byte list \<Rightarrow> bool" where
  "writes acc m bs \<longleftrightarrow> (\<forall>s. arr.ready s \<longrightarrow> array_content s = acc \<longrightarrow> array_content (snd (run_state m s)) = bs)"

lemma writes_then:
  assumes "arr.emits m b x" and "writes (acc @ b) n bs"
  shows "writes acc (m \<bind> (\<lambda>_. n)) bs"
  unfolding writes_def
proof (intro allI impI)
  fix s assume s: "arr.ready s" "array_content s = acc"
  obtain s1 where 1: "run_state m s = (x, s1)" "arr.stored s b s1" using arr.emitsD [OF assms(1) s(1)] by blast
  then have "arr.ready s1" "array_content s1 = acc @ b"
    using s by (auto simp: arr.stored_def arr.ready_def)
  then show "array_content (snd (run_state (m \<bind> (\<lambda>_. n)) s)) = bs" using assms(2) 1 by (simp add: writes_def)
qed

lemma writes_emits:
  assumes "arr.emits m b ()"
  shows "writes acc m (acc @ b)"
  unfolding writes_def
proof (intro allI impI)
  fix s assume s: "arr.ready s" "array_content s = acc"
  obtain s1 where 1: "run_state m s = ((), s1)" "arr.stored s b s1" using arr.emitsD [OF assms s(1)] by blast
  then show "array_content (snd (run_state m s)) = acc @ b"
    using s by (auto simp: arr.stored_def arr.ready_def)
qed

lemma writes_get_pos:
  assumes "writes acc (f (int (length acc))) bs"
  shows "writes acc (serializer_get_pos \<bind> f) bs"
  using assms arr.get_pos_law by (auto simp: writes_def arr.ready_def)

lemma writes_previous:
  assumes "from \<le> length acc"
  shows "writes acc (write_previous_tag_size_without_header (word_of_nat from))
    (acc @ be32 (word_of_nat (length acc - from)))"
proof -
  have "(word_of_int (int (length acc)) - word_of_nat from :: u32) = word_of_nat (length acc - from)"
    using assms by (simp add: of_nat_diff)
  then show ?thesis
    unfolding write_previous_tag_size_without_header_def
    using writes_get_pos [OF writes_emits [OF arr.emits_s_wb32]] by metis
qed

lemma writes_previous_0: "writes acc write_previous_tag_size (acc @ be32 (word_of_nat (length acc)))"
  using writes_previous [of 0 acc] by (simp add: write_previous_tag_size_def)

lemma array_output_writes: "writes [] m bs \<Longrightarrow> array_output m = bs"
  by (simp add: writes_def array_output_def arr.ready_def array_valid_def array_content_def array_cursor_def
      array_output_serializer_init_def)

lemmas writes_steps = writes_then arr.emits_s_w8 arr.emits_s_wb24 arr.emits_s_wb32 arr.emits_s_wb64 arr.emits_s_write
  writes_previous_0

section \<open>The tags of the muxer\<close>

definition packet_time :: "encoder_packet \<Rightarrow> s32 \<Rightarrow> nat" where
  "packet_time p off = flv_time (get_ms_time p (p_dts p) - off)"

definition ct_offset :: "encoder_packet \<Rightarrow> byte list" where
  "ct_offset p = be24 (get_ms_time p (p_pts p) - get_ms_time p (p_dts p))"

definition mux_tag :: "encoder_packet \<Rightarrow> s32 \<Rightarrow> bool \<Rightarrow> flv_tag" where
  "mux_tag p off hdr =
    (if p_type p = OBS_ENCODER_VIDEO
     then \<lparr>tag_type = RTMP_PACKET_TYPE_VIDEO, tag_time = packet_time p off,
       tag_body = (if p_keyframe p then 0x17 else 0x27) # (if hdr then 0 else 1) # ct_offset p @ p_data p\<rparr>
     else \<lparr>tag_type = RTMP_PACKET_TYPE_AUDIO, tag_time = packet_time p off,
       tag_body = 0xAF # (if hdr then 0 else 1) # p_data p\<rparr>)"

lemma flv_packet_mux_tag:
  assumes "p_data p \<noteq> []"
  shows "flv_packet_mux p off hdr = tag_bytes (mux_tag p off hdr)"
proof (cases "p_type p = OBS_ENCODER_VIDEO")
  case True
  have "array_output (flv_video off p hdr) = tag_bytes (mux_tag p off hdr)"
    unfolding flv_video_def Let_def if_not_P [OF assms]
    by (rule trans, rule array_output_writes, (rule writes_steps)+)
      (simp add: True tag_bytes_def mux_tag_def packet_time_def be24_time byte_time ct_offset_def add.commute)
  then show ?thesis using True by (simp add: flv_packet_mux_def)
next
  case False
  have "array_output (flv_audio off p hdr) = tag_bytes (mux_tag p off hdr)"
    unfolding flv_audio_def Let_def if_not_P [OF assms]
    by (rule trans, rule array_output_writes, (rule writes_steps)+)
      (simp add: False tag_bytes_def mux_tag_def packet_time_def be24_time byte_time ct_offset_def add.commute)
  then show ?thesis using False by (simp add: flv_packet_mux_def)
qed

lemma flv_packet_mux_empty: "p_data p = [] \<Longrightarrow> flv_packet_mux p off hdr = []"
  by (simp add: flv_packet_mux_def flv_video_def flv_audio_def array_output_def array_output_serializer_init_def)

text \<open>Extended tags.\<close>

definition video_fourcc :: "video_id_t \<Rightarrow> byte list" where
  "video_fourcc c = (case c of CODEC_NONE \<Rightarrow> [] | CODEC_AV1 \<Rightarrow> bytes_of_string ''av01''
     | CODEC_HEVC \<Rightarrow> bytes_of_string ''hvc1'' | CODEC_H264 \<Rightarrow> bytes_of_string ''avc1'')"

definition audio_fourcc :: "audio_id_t \<Rightarrow> byte list" where
  "audio_fourcc c = (case c of AUDIO_CODEC_NONE \<Rightarrow> [] | AUDIO_CODEC_AAC \<Rightarrow> bytes_of_string ''mp4a'')"

lemma emits_s_w4cc: "arr.emits (s_w4cc c) (video_fourcc c) ()"
  using arr.emits_then [OF arr.emits_s_w8 arr.emits_then [OF arr.emits_s_w8 arr.emits_then [OF arr.emits_s_w8 arr.emits_s_w8]]]
    arr.emits_return [of "()"]
  by (cases c) (simp_all add: s_w4cc_def video_fourcc_def bytes_of_string_def)

lemma emits_s_wa4cc: "arr.emits (s_wa4cc c) (audio_fourcc c) ()"
  using arr.emits_then [OF arr.emits_s_w8 arr.emits_then [OF arr.emits_s_w8 arr.emits_then [OF arr.emits_s_w8 arr.emits_s_w8]]]
    arr.emits_return [of "()"]
  by (cases c) (simp_all add: s_wa4cc_def audio_fourcc_def bytes_of_string_def)

lemma emits_s_wtimestamp: "arr.emits (s_wtimestamp t) (be24 t @ [ucast (drop_bit 24 t) AND 0x7F]) ()"
  unfolding s_wtimestamp_def
  using arr.emits_then [OF arr.emits_s_wb24 [of "t AND 0xFFFFFF", unfolded be24_mask] arr.emits_s_w8] .

definition video_frame_type :: "encoder_packet \<Rightarrow> byte" where
  "video_frame_type p = (if p_keyframe p then FT_KEY else FT_INTER)"

definition video_ex_body :: "encoder_packet \<Rightarrow> video_id_t \<Rightarrow> byte \<Rightarrow> nat \<Rightarrow> byte list" where
  "video_ex_body p c type idx =
    (if idx > 0 then [FRAME_HEADER_EX OR PACKETTYPE_MULTITRACK OR video_frame_type p] @
         [MULTITRACKTYPE_ONE_TRACK OR type] @ video_fourcc c @ [word_of_nat idx]
     else [FRAME_HEADER_EX OR type OR video_frame_type p] @ video_fourcc c) @
    (if has_ct_offset c type then ct_offset p else []) @ p_data p"

definition video_ex_tag :: "encoder_packet \<Rightarrow> video_id_t \<Rightarrow> s32 \<Rightarrow> byte \<Rightarrow> nat \<Rightarrow> flv_tag" where
  "video_ex_tag p c off type idx =
    \<lparr>tag_type = RTMP_PACKET_TYPE_VIDEO, tag_time = packet_time p off, tag_body = video_ex_body p c type idx\<rparr>"

definition audio_ex_tag :: "encoder_packet \<Rightarrow> audio_id_t \<Rightarrow> s32 \<Rightarrow> byte \<Rightarrow> nat \<Rightarrow> flv_tag" where
  "audio_ex_tag p c off type idx =
    \<lparr>tag_type = RTMP_PACKET_TYPE_AUDIO, tag_time = packet_time p off,
     tag_body =
       (if idx > 0 then [AUDIO_HEADER_EX OR AUDIO_PACKETTYPE_MULTITRACK] @ [MULTITRACKTYPE_ONE_TRACK OR type] @
          audio_fourcc c @ [word_of_nat idx]
        else [AUDIO_HEADER_EX OR type] @ audio_fourcc c) @ p_data p\<rparr>"

lemmas ex_steps = writes_steps arr.emits_if arr.emits_then arr.emits_return emits_s_w4cc emits_s_wa4cc emits_s_wtimestamp
  arr.emits_s_wb16

lemmas ex_simps = tag_bytes_def packet_time_def be24_time byte_time ct_offset_def

lemma length_video_fourcc: "c \<noteq> CODEC_NONE \<Longrightarrow> length (video_fourcc c) = 4"
  by (cases c) (simp_all add: video_fourcc_def)

lemma length_audio_fourcc: "c \<noteq> AUDIO_CODEC_NONE \<Longrightarrow> length (audio_fourcc c) = 4"
  by (cases c) (simp_all add: audio_fourcc_def)

lemma flv_packet_ex_tag:
  assumes "c \<noteq> CODEC_NONE"
  shows "flv_packet_ex p (length (p_data p)) c off type idx = tag_bytes (video_ex_tag p c off type idx)"
  unfolding flv_packet_ex_def Let_def
  by (rule trans, rule array_output_writes, (rule ex_steps)+)
    (simp add: ex_simps video_ex_tag_def video_ex_body_def video_frame_type_def length_video_fourcc [OF assms] add.commute)

lemma flv_packet_audio_ex_tag:
  assumes "c \<noteq> AUDIO_CODEC_NONE" and "p_data p \<noteq> []"
  shows "flv_packet_audio_ex p c off type idx = Some (tag_bytes (audio_ex_tag p c off type idx))"
  unfolding flv_packet_audio_ex_def Let_def if_not_P [OF assms(2)] option.inject
  by (rule trans, rule array_output_writes, (rule ex_steps)+)
    (simp add: ex_simps audio_ex_tag_def length_audio_fourcc [OF assms(1)] add.commute)

section \<open>Meta data\<close>

text \<open>The script data with given values of duration and file size.\<close>

definition meta_head :: "byte list" where
  "meta_head = amf_str ''@setDataFrame'' @ amf_str ''onMetaData'' @ AMF_ECMA_ARRAY # be32 20"

definition meta_info :: "u64 \<Rightarrow> u64 \<Rightarrow> byte list" where
  "meta_info duration sz = amf_num ''duration'' duration @ amf_num ''fileSize'' sz"

definition meta_values :: "flv_context \<Rightarrow> u64 \<Rightarrow> nat \<Rightarrow> byte list" where
  "meta_values cx codec_id channels =
    (let vencoder = obs_output_get_video_encoder cx; aencoder = obs_output_get_audio_encoder cx 0
     in amf_num ''width'' (double_of_int (uint (obs_encoder_get_width vencoder))) @
        amf_num ''height'' (double_of_int (uint (obs_encoder_get_height vencoder))) @
        amf_num ''videocodecid'' codec_id @
        amf_num ''videodatarate'' (encoder_bitrate vencoder) @
        amf_num ''framerate'' (video_output_get_frame_rate (obs_encoder_video vencoder)) @
        amf_num ''audiocodecid'' (double_of_int 10) @
        amf_num ''audiodatarate'' (encoder_bitrate aencoder) @
        amf_num ''audiosamplerate'' (double_of_int (uint (obs_encoder_get_sample_rate aencoder))) @
        amf_num ''audiosamplesize'' (double_of_int 16) @
        amf_num ''audiochannels'' (double_of_int (int channels)) @
        amf_bool ''stereo'' (channels = 2) @ amf_bool ''2.1'' (channels = 3) @ amf_bool ''3.1'' (channels = 4) @
        amf_bool ''4.0'' (channels = 4) @ amf_bool ''4.1'' (channels = 5) @ amf_bool ''5.1'' (channels = 6) @
        amf_bool ''7.1'' (channels = 8) @
        amf_name ''encoder'' @ amf_str (MODULE_NAME @ '' (libobs version '' @ fc_version cx @ '')'') @
        [0, 0, AMF_OBJECT_END])"

definition meta_bytes :: "flv_context \<Rightarrow> u64 \<Rightarrow> u64 \<Rightarrow> byte list" where
  "meta_bytes cx duration sz =
    meta_head @ meta_info duration sz @
    meta_values cx (the (encoder_video_codec (obs_output_get_video_encoder cx)))
      (unat (audio_output_get_channels (obs_encoder_audio (obs_output_get_audio_encoder cx 0))))"

definition context_ok :: "flv_context \<Rightarrow> bool" where
  "context_ok cx \<longleftrightarrow> obs_output_get_video_encoder cx \<noteq> None \<and>
     obs_encoder_audio (obs_output_get_audio_encoder cx 0) \<noteq> None \<and> length (fc_version cx) \<le> 1024"

lemma build_flv_meta_data_bytes:
  assumes "context_ok cx"
  shows "build_flv_meta_data cx = Some (meta_bytes cx 0 0)"
proof -
  obtain codec_id audio where c: "encoder_video_codec (obs_output_get_video_encoder cx) = Some codec_id"
      "obs_encoder_audio (obs_output_get_audio_encoder cx 0) = Some audio"
    using assms by (auto simp: context_ok_def encoder_video_codec_def obs_encoder_get_codec_def)
  show ?thesis
    using assms c
    by (simp add: build_flv_meta_data_def meta_bytes_def meta_head_def meta_info_def meta_values_def Let_def
        enc_str_room enc_num_val_room enc_bool_val_room enc_str_val_room put_byte_def AMF_EncodeInt32_def
        context_ok_def MODULE_NAME_def)
qed

definition flv_header :: "byte list" where
  "flv_header = bytes_of_string ''FLV'' @ [1, 5] @ be32 9 @ be32 0"

definition meta_tag :: "flv_context \<Rightarrow> u64 \<Rightarrow> u64 \<Rightarrow> flv_tag" where
  "meta_tag cx duration sz = \<lparr>tag_type = RTMP_PACKET_TYPE_INFO, tag_time = 0, tag_body = meta_bytes cx duration sz\<rparr>"

lemma length_meta [simp]:
  "length meta_head = 34" "length (meta_info d s) = 38" "length flv_header = 13"
  by (simp_all add: meta_head_def meta_info_def flv_header_def)

lemma meta_tag_ok: "context_ok cx \<Longrightarrow> tag_ok (meta_tag cx d s)"
  by (simp add: context_ok_def tag_ok_def meta_tag_def meta_bytes_def meta_values_def MODULE_NAME_def Let_def)

lemma be32_zero: "be32 0 = [0, 0, 0, 0]"
  by (simp add: be32_def be16_def)

lemma be24_zero: "be24 0 = [0, 0, 0]"
  by (simp add: be24_def be16_def)

lemma flv_meta_data_tag:
  assumes "context_ok cx"
  shows "flv_meta_data cx wh = Some ((if wh then flv_header else []) @ tag_bytes (meta_tag cx 0 0))"
proof -
  let ?m = "meta_bytes cx 0 0" and ?h = "if wh then flv_header else []"
  have head: "arr.emits (if wh then do { s_write (bytes_of_string ''FLV''); s_w8 1; s_w8 5; s_wb32 9; s_wb32 0 }
      else State_Monad.return ()) ?h ()"
    using arr.emits_then [OF arr.emits_s_write arr.emits_then [OF arr.emits_s_w8 arr.emits_then [OF arr.emits_s_w8
        arr.emits_then [OF arr.emits_s_wb32 arr.emits_s_wb32]]]] arr.emits_return [of "()"]
    by (simp add: flv_header_def)
  let ?out = "?h @ [RTMP_PACKET_TYPE_INFO] @ be24 (word_of_nat (length ?m)) @ be32 0 @ be24 0 @ ?m"
  have prev: "writes (((((([] @ ?h) @ [RTMP_PACKET_TYPE_INFO]) @ be24 (word_of_nat (length ?m))) @ be32 0) @ be24 0) @ ?m)
      (write_previous_tag_size_without_header (word_of_int (int (length ([] @ ?h)))))
      (?out @ be32 (word_of_nat (length ?out - length ?h)))"
    using writes_previous [of "length ?h" ?out] by simp
  have "array_output (do {
      (if wh then do { s_write (bytes_of_string ''FLV''); s_w8 1; s_w8 5; s_wb32 9; s_wb32 0 }
       else State_Monad.return ());
      start_pos \<leftarrow> serializer_get_pos;
      s_w8 RTMP_PACKET_TYPE_INFO; s_wb24 (word_of_nat (length ?m)); s_wb32 0; s_wb24 0; s_write ?m;
      write_previous_tag_size_without_header (word_of_int start_pos) }) =
    ?out @ be32 (word_of_nat (length ?out - length ?h))"
    by (rule array_output_writes, rule writes_then [OF head], rule writes_get_pos, (rule writes_steps(1-6))+) (rule prev)
  then show ?thesis
    by (simp add: flv_meta_data_def build_flv_meta_data_bytes [OF assms] tag_bytes_def meta_tag_def be32_zero be24_zero)
qed

text \<open>
  The patch of the meta data: \<^const>\<open>FLV_INFO_SIZE_OFFSET\<close> is where duration and size stand.
\<close>

definition flv_file_bytes :: "flv_context \<Rightarrow> u64 \<Rightarrow> u64 \<Rightarrow> byte list \<Rightarrow> byte list" where
  "flv_file_bytes cx duration sz rest = flv_header @ tag_bytes (meta_tag cx duration sz) @ rest"

lemma write_file_info_patches:
  assumes "f_bytes f = flv_file_bytes cx d0 s0 rest"
  shows "\<exists>p. write_file_info f dur sz = Some \<lparr>f_bytes = flv_file_bytes cx (double_quotient (sint dur) 1000) (double_of_int sz) rest,
    f_pos = p\<rparr>"
proof -
  let ?enc = "meta_info (double_quotient (sint dur) 1000) (double_of_int sz)"
  define pre where "pre = flv_header @ take 11 (tag_bytes (meta_tag cx d0 s0)) @ meta_head"
  define post where "post d s = drop 72 (tag_body (meta_tag cx d s)) @ be32 (word_of_nat (11 + length (tag_body (meta_tag cx d s)))) @ rest" for d s
  have split: "flv_file_bytes cx d s rest = pre @ meta_info d s @ post d s" for d s
    by (simp add: flv_file_bytes_def pre_def post_def tag_bytes_def meta_tag_def meta_bytes_def)
  have len: "length pre = 58" by (simp add: pre_def tag_bytes_def)
  have same: "post d s = post d' s'" for d s d' s' by (simp add: post_def meta_tag_def meta_bytes_def)
  have "write_file_info f dur sz = Some \<lparr>f_bytes = write_at (pre @ meta_info d0 s0 @ post d0 s0) 58 ?enc, f_pos = 58 + 38\<rparr>"
    using assms len
    by (cases f) (simp add: write_file_info_def enc_num_val_room os_fseeki64_def fwrite_def FLV_INFO_SIZE_OFFSET_def split
        meta_info_def amf_num_def amf_name_def)
  moreover have "write_at (pre @ meta_info d0 s0 @ post d0 s0) 58 ?enc = pre @ ?enc @ post d0 s0"
    using len by (simp add: write_at_def)
  ultimately show ?thesis
    using split [of "double_quotient (sint dur) 1000" "double_of_int sz"] same by metis
qed

end
