(* ===== verification/Flv_Output.thy ===== *)
theory Flv_Output
  imports Flv_Tags Avc Rtmp_Av1 Rtmp_Hevc
begin

text \<open>
  The FLV file output (\<open>plugins/obs-outputs/flv-output.c\<close>): headers, packets and footers of a
  recording with several tracks.  The calls into \<open>libobs\<close> that may fail at the start are
  parameters of \<open>flv_output_start\<close>; the signals to \<open>libobs\<close> are recorded.  \<open>None\<close>: a function that
  the code calls is undefined on its input or an uninitialised pointer is freed.

  The addresses of buffers, on which the start-code scanner's alignment depends, come from
  \<open>fe_addr\<close>; \<open>fe_hdr_peak\<close> is the nominal peak level of \<open>libobs\<close>.
\<close>

section \<open>State\<close>

datatype flv_signal = Signal_Stop int | End_Data_Capture | Begin_Data_Capture

record flv_env =
  fe_addr :: "byte list \<Rightarrow> nat"
  fe_hdr_peak :: int

record flv_output =
  fl_output :: flv_context
  fl_path :: string
  fl_file :: "c_file option"
  fl_active :: bool
  fl_stopping :: bool
  fl_stop_ts :: u64
  fl_sent_headers :: bool
  fl_last_packet_ts :: s64
  fl_audio_codec :: "nat \<Rightarrow> audio_id_t"
  fl_video_codec :: "nat \<Rightarrow> video_id_t"
  fl_got_first_packet :: bool
  fl_start_dts_offset :: s32
  fl_closed :: "byte list option"
  fl_signals :: "flv_signal list"

definition flv_output_create :: "flv_context \<Rightarrow> flv_output" where
  "flv_output_create output =
    \<lparr>fl_output = output, fl_path = '''', fl_file = None, fl_active = False, fl_stopping = False, fl_stop_ts = 0,
     fl_sent_headers = False, fl_last_packet_ts = 0, fl_audio_codec = (\<lambda>_. AUDIO_CODEC_NONE),
     fl_video_codec = (\<lambda>_. CODEC_NONE), fl_got_first_packet = False, fl_start_dts_offset = 0, fl_closed = None,
     fl_signals = []\<rparr>"

definition file_append :: "byte list \<Rightarrow> flv_output \<Rightarrow> flv_output" where
  "file_append d stream = stream\<lparr>fl_file := map_option (\<lambda>f. snd (fwrite f d)) (fl_file stream)\<rparr>"

section \<open>Writing packets\<close>

definition write_packet :: "encoder_packet \<Rightarrow> bool \<Rightarrow> flv_output \<Rightarrow> flv_output" where
  "write_packet packet is_header stream =
    (let stream1 = stream\<lparr>fl_last_packet_ts := scast (get_ms_time packet (p_dts packet))\<rparr>
     in file_append (flv_packet_mux packet (if is_header then 0 else fl_start_dts_offset stream1) is_header) stream1)"

definition write_packet_ex :: "encoder_packet \<Rightarrow> nat \<Rightarrow> bool \<Rightarrow> bool \<Rightarrow> nat \<Rightarrow> flv_output \<Rightarrow> flv_output" where
  "write_packet_ex packet sz is_header is_footer idx stream =
    file_append
      (if is_header then flv_packet_start packet sz (fl_video_codec stream idx) idx
       else if is_footer then flv_packet_end packet (fl_video_codec stream idx) idx
       else flv_packet_frames packet (fl_video_codec stream idx) (fl_start_dts_offset stream) idx) stream"

definition write_audio_packet_ex :: "encoder_packet \<Rightarrow> bool \<Rightarrow> nat \<Rightarrow> flv_output \<Rightarrow> flv_output option" where
  "write_audio_packet_ex packet is_header idx stream =
    map_option (\<lambda>data. file_append data stream)
      (if is_header then flv_packet_audio_start packet (fl_audio_codec stream idx) idx
       else flv_packet_audio_frames packet (fl_audio_codec stream idx) (fl_start_dts_offset stream) idx)"

section \<open>Headers and footers\<close>

definition write_meta_data :: "flv_output \<Rightarrow> flv_output option" where
  "write_meta_data stream = map_option (\<lambda>d. file_append d stream) (flv_meta_data (fl_output stream) True)"

definition header_packet :: "obs_encoder_type \<Rightarrow> bool \<Rightarrow> byte list \<Rightarrow> encoder_packet" where
  "header_packet type key d =
    \<lparr>p_data = d, p_pts = 0, p_dts = 0, p_timebase_num = 0, p_timebase_den = 1, p_type = type, p_keyframe = key,
     p_dts_usec = 0, p_sys_dts_usec = 0, p_priority = 0, p_drop_priority = 0, p_track_idx = 0, p_encoder = None\<rparr>"

definition write_audio_header :: "nat \<Rightarrow> flv_output \<Rightarrow> (bool \<times> flv_output) option" where
  "write_audio_header idx stream =
    (case obs_output_get_audio_encoder (fl_output stream) idx of
       None \<Rightarrow> Some (False, stream)
     | Some aencoder \<Rightarrow>
         (case obs_encoder_get_extra_data (Some aencoder) of
            None \<Rightarrow> Some (True, stream)
          | Some d \<Rightarrow>
              if idx = 0 then Some (True, write_packet (header_packet OBS_ENCODER_AUDIO False d) True stream)
              else map_option (Pair True) (write_audio_packet_ex (header_packet OBS_ENCODER_AUDIO False d) True idx stream)))"

definition write_video_header :: "flv_env \<Rightarrow> nat \<Rightarrow> flv_output \<Rightarrow> (bool \<times> flv_output) option" where
  "write_video_header env idx stream =
    (case obs_output_get_video_encoder2 (fl_output stream) idx of
       None \<Rightarrow> Some (False, stream)
     | Some vencoder \<Rightarrow>
         (case obs_encoder_get_extra_data (Some vencoder) of
            None \<Rightarrow> Some (False, stream)
          | Some header \<Rightarrow>
              (let packet = header_packet OBS_ENCODER_VIDEO True
               in case fl_video_codec stream idx of
                 CODEC_NONE \<Rightarrow> Some (False, stream)
               | CODEC_H264 \<Rightarrow>
                   (let d = obs_parse_avc_header (fe_addr env header) header
                    in Some (True, if idx = 0 then write_packet (packet d) True stream
                                   else write_packet_ex (packet d) (length d) True False idx stream))
               | CODEC_HEVC \<Rightarrow>
                   map_option (\<lambda>(d, sz). (True,
                       write_packet_ex (packet (case d of None \<Rightarrow> [] | Some d \<Rightarrow> d)) sz True False idx stream))
                     (obs_parse_hevc_header (fe_addr env header) header)
               | CODEC_AV1 \<Rightarrow>
                   map_option (\<lambda>d. (True, write_packet_ex (packet d) (length d) True False idx stream))
                     (obs_parse_av1_header header))))"

definition bits_per_raw_sample :: "video_format \<Rightarrow> int" where
  "bits_per_raw_sample format =
    (if format \<in> {VIDEO_FORMAT_I010, VIDEO_FORMAT_P010, VIDEO_FORMAT_I210} then 10
     else if format \<in> {VIDEO_FORMAT_I412, VIDEO_FORMAT_YA2L} then 12 else 8)"

text \<open>Primaries, transfer characteristics and matrix coefficients.\<close>

definition color_codes :: "video_colorspace \<Rightarrow> int \<times> int \<times> int" where
  "color_codes cs = (case cs of
      VIDEO_CS_601 \<Rightarrow> (6, 6, 6)
    | VIDEO_CS_DEFAULT \<Rightarrow> (1, 1, 1)
    | VIDEO_CS_709 \<Rightarrow> (1, 1, 1)
    | VIDEO_CS_SRGB \<Rightarrow> (1, 13, 1)
    | VIDEO_CS_2100_PQ \<Rightarrow> (9, 16, 9)
    | VIDEO_CS_2100_HLG \<Rightarrow> (9, 18, 9))"

definition write_video_metadata :: "flv_env \<Rightarrow> nat \<Rightarrow> flv_output \<Rightarrow> bool \<times> flv_output" where
  "write_video_metadata env idx stream =
    (case obs_output_get_video_encoder2 (fl_output stream) idx of
       None \<Rightarrow> (False, stream)
     | Some encoder \<Rightarrow>
         (case obs_encoder_video (Some encoder) of
            None \<Rightarrow> (False, stream)
          | Some info \<Rightarrow>
              if \<not> (vo_colorspace info = VIDEO_CS_2100_PQ \<or> vo_colorspace info = VIDEO_CS_2100_HLG) then (True, stream)
              else if fl_video_codec stream idx = CODEC_H264 then (True, stream)
              else
                (let (pri, trc, spc) = color_codes (vo_colorspace info);
                     max_luminance = (if trc = 18 then 1000 else if trc = 16 then fe_hdr_peak env else 0)
                 in (True, file_append (flv_packet_metadata (fl_video_codec stream idx)
                       (bits_per_raw_sample (vo_format info)) pri trc spc 0 max_luminance idx) stream))))"

text \<open>The codecs of the leading tracks that have an encoder.\<close>

definition set_audio_codecs :: "flv_output \<Rightarrow> flv_output" where
  "set_audio_codecs stream =
    foldl (\<lambda>st i. case obs_encoder_get_codec (obs_output_get_audio_encoder (fl_output st) i) of
        None \<Rightarrow> st | Some codec \<Rightarrow> st\<lparr>fl_audio_codec := (fl_audio_codec st)(i := to_audio_type codec)\<rparr>) stream
      (takeWhile (\<lambda>i. obs_output_get_audio_encoder (fl_output stream) i \<noteq> None) [0..<MAX_OUTPUT_AUDIO_ENCODERS])"

definition set_video_codecs :: "flv_output \<Rightarrow> flv_output" where
  "set_video_codecs stream =
    foldl (\<lambda>st i. case obs_encoder_get_codec (obs_output_get_video_encoder2 (fl_output st) i) of
        None \<Rightarrow> st | Some codec \<Rightarrow> st\<lparr>fl_video_codec := (fl_video_codec st)(i := to_video_type codec)\<rparr>) stream
      (takeWhile (\<lambda>i. obs_output_get_video_encoder2 (fl_output stream) i \<noteq> None) [0..<MAX_OUTPUT_VIDEO_ENCODERS])"

text \<open>The loop over the video tracks; \<open>False\<close>: it returned early.\<close>

fun write_video_headers :: "flv_env \<Rightarrow> nat list \<Rightarrow> flv_output \<Rightarrow> (bool \<times> flv_output) option" where
  "write_video_headers env [] stream = Some (True, stream)"
| "write_video_headers env (i # is) stream =
    (case obs_output_get_video_encoder2 (fl_output stream) i of
       None \<Rightarrow> write_video_headers env is stream
     | Some enc \<Rightarrow>
         (case write_video_header env i stream of
            None \<Rightarrow> None
          | Some (False, stream1) \<Rightarrow> Some (False, stream1)
          | Some (True, stream1) \<Rightarrow>
              (case write_video_metadata env i stream1 of
                 (False, stream2) \<Rightarrow> Some (False, stream2)
               | (True, stream2) \<Rightarrow> write_video_headers env is stream2)))"

fun write_audio_headers :: "nat list \<Rightarrow> flv_output \<Rightarrow> flv_output option" where
  "write_audio_headers [] stream = Some stream"
| "write_audio_headers (i # is) stream =
    (case write_audio_header i stream of
       None \<Rightarrow> None
     | Some (False, stream1) \<Rightarrow> Some stream1
     | Some (True, stream1) \<Rightarrow> write_audio_headers is stream1)"

text \<open>The last loop ends at the latest with the first index past the audio encoders.\<close>

definition write_headers :: "flv_env \<Rightarrow> flv_output \<Rightarrow> flv_output option" where
  "write_headers env stream0 = do {
     stream \<leftarrow> write_meta_data (set_video_codecs (set_audio_codecs stream0));
     (_, stream) \<leftarrow> write_audio_header 0 stream;
     (complete, stream) \<leftarrow> write_video_headers env [0..<MAX_OUTPUT_VIDEO_ENCODERS] stream;
     (if complete then write_audio_headers [1..<MAX_OUTPUT_AUDIO_ENCODERS + 1] stream else Some stream) }"

definition write_video_footer :: "nat \<Rightarrow> flv_output \<Rightarrow> flv_output" where
  "write_video_footer idx stream = write_packet_ex (header_packet OBS_ENCODER_VIDEO False []) 0 False True idx stream"

definition write_footers :: "flv_output \<Rightarrow> flv_output" where
  "write_footers stream =
    foldl (\<lambda>st i. if obs_output_get_video_encoder2 (fl_output st) i = None \<or> i = 0 \<and> fl_video_codec st i = CODEC_H264
        then st else write_video_footer i st) stream [0..<MAX_OUTPUT_VIDEO_ENCODERS]"

section \<open>The output\<close>

definition flv_output_start :: "bool \<Rightarrow> bool \<Rightarrow> bool \<Rightarrow> string \<Rightarrow> flv_output \<Rightarrow> bool \<times> flv_output" where
  "flv_output_start can_begin encoders_ready opened path stream =
    (if \<not> can_begin \<or> \<not> encoders_ready then (False, stream)
     else
       (let stream1 = stream\<lparr>fl_got_first_packet := False, fl_sent_headers := False, fl_stopping := False, fl_path := path,
              fl_file := (if opened then Some \<lparr>f_bytes = [], f_pos = 0\<rparr> else None)\<rparr>
        in if \<not> opened then (False, stream1)
           else (True, stream1\<lparr>fl_active := True, fl_signals := fl_signals stream1 @ [Begin_Data_Capture]\<rparr>)))"

definition flv_output_stop :: "u64 \<Rightarrow> flv_output \<Rightarrow> flv_output" where
  "flv_output_stop ts stream = stream\<lparr>fl_stop_ts := ts div 1000, fl_stopping := True\<rparr>"

definition OBS_OUTPUT_ENCODE_ERROR :: int where
  "OBS_OUTPUT_ENCODE_ERROR = -8"

definition close_file :: "flv_output \<Rightarrow> flv_output option" where
  "close_file stream =
    (let stream1 = write_footers stream
     in case fl_file stream1 of
          None \<Rightarrow> Some stream1
        | Some f \<Rightarrow> map_option (\<lambda>f'. stream1\<lparr>fl_file := Some f', fl_closed := Some (f_bytes f')\<rparr>)
            (write_file_info f (fl_last_packet_ts stream1) (os_ftelli64 f)))"

definition flv_output_actual_stop :: "int \<Rightarrow> flv_output \<Rightarrow> flv_output option" where
  "flv_output_actual_stop code stream =
    map_option (\<lambda>st. st\<lparr>fl_signals := fl_signals st @ [if code \<noteq> 0 then Signal_Stop code else End_Data_Capture]\<rparr>)
      (let stream1 = stream\<lparr>fl_active := False\<rparr> in if fl_file stream1 = None then Some stream1 else close_file stream1)"

definition mark_first_packet :: "encoder_packet \<Rightarrow> flv_output \<Rightarrow> flv_output" where
  "mark_first_packet packet stream =
    (if \<not> fl_got_first_packet stream
     then stream\<lparr>fl_start_dts_offset := get_ms_time packet (p_dts packet), fl_got_first_packet := True\<rparr> else stream)"

definition write_data :: "flv_env \<Rightarrow> encoder_packet \<Rightarrow> flv_output \<Rightarrow> flv_output option" where
  "write_data env packet stream0 =
    (let stream = mark_first_packet packet stream0; idx = p_track_idx packet
     in if p_type packet = OBS_ENCODER_VIDEO then
          (case fl_video_codec stream idx of
             CODEC_NONE \<Rightarrow> Some stream
           | CODEC_H264 \<Rightarrow>
               (let parsed = obs_parse_avc_packet (fe_addr env (p_data packet)) packet
                in Some (if idx \<noteq> 0 then write_packet_ex parsed (length (p_data parsed)) False False idx stream
                         else write_packet parsed False stream))
           | CODEC_HEVC \<Rightarrow>
               (let parsed = obs_parse_hevc_packet (fe_addr env (p_data packet)) packet
                in Some (write_packet_ex parsed (length (p_data parsed)) False False idx stream))
           | CODEC_AV1 \<Rightarrow>
               map_option (\<lambda>parsed. write_packet_ex parsed (length (p_data parsed)) False False idx stream)
                 (obs_parse_av1_packet packet))
        else if idx \<noteq> 0 then write_audio_packet_ex packet False idx stream
        else Some (write_packet packet False stream))"

definition flv_output_data :: "flv_env \<Rightarrow> encoder_packet option \<Rightarrow> flv_output \<Rightarrow> flv_output option" where
  "flv_output_data env packet stream =
    (if \<not> fl_active stream then Some stream
     else case packet of
       None \<Rightarrow> flv_output_actual_stop OBS_OUTPUT_ENCODE_ERROR stream
     | Some packet \<Rightarrow>
         if fl_stopping stream \<and> sint (p_sys_dts_usec packet) \<ge> sint (fl_stop_ts stream)
         then flv_output_actual_stop 0 stream
         else do {
           stream1 \<leftarrow> (if fl_sent_headers stream then Some stream
                       else map_option (\<lambda>st. st\<lparr>fl_sent_headers := True\<rparr>) (write_headers env stream));
           write_data env packet stream1 })"

end
