(* ===== verification/Flv_Recording.thy ===== *)
theory Flv_Recording
  imports Flv_Output
begin

text \<open>
  Whole FLV recordings: every step of the output only appends to the file, the file is at every
  moment a header, the meta data and one tag per header and packet in the order they came, and
  closing it adds the end-of-sequence tags and fills in duration and size.
\<close>

section \<open>Appending\<close>

text \<open>\<open>grown st bs st'\<close>: the file, which stands at its end, grew by \<open>bs\<close>.\<close>

definition grown :: "flv_output \<Rightarrow> byte list \<Rightarrow> flv_output \<Rightarrow> bool" where
  "grown st bs st' \<longleftrightarrow> (\<exists>old x. fl_file st = Some \<lparr>f_bytes = old, f_pos = length old\<rparr> \<and>
     st' = st\<lparr>fl_file := Some \<lparr>f_bytes = old @ bs, f_pos = length (old @ bs)\<rparr>, fl_last_packet_ts := x\<rparr>)"

definition at_end :: "flv_output \<Rightarrow> bool" where
  "at_end st \<longleftrightarrow> (\<exists>old. fl_file st = Some \<lparr>f_bytes = old, f_pos = length old\<rparr>)"

lemma fwrite_end: "fwrite \<lparr>f_bytes = old, f_pos = length old\<rparr> d = (length d, \<lparr>f_bytes = old @ d, f_pos = length (old @ d)\<rparr>)"
  by (simp add: fwrite_def)

lemma grown_refl:
  assumes "at_end st"
  shows "grown st [] st"
proof -
  obtain old where "fl_file st = Some \<lparr>f_bytes = old, f_pos = length old\<rparr>" using assms by (auto simp: at_end_def)
  then show ?thesis
    unfolding grown_def by (intro exI [of _ old] exI [of _ "fl_last_packet_ts st"]) (cases st, simp)
qed

lemma grown_trans:
  assumes "grown st as st1" and "grown st1 bs st2"
  shows "grown st (as @ bs) st2"
proof -
  obtain old x where 1: "fl_file st = Some \<lparr>f_bytes = old, f_pos = length old\<rparr>"
      "st1 = st\<lparr>fl_file := Some \<lparr>f_bytes = old @ as, f_pos = length (old @ as)\<rparr>, fl_last_packet_ts := x\<rparr>"
    using assms(1) unfolding grown_def by (elim exE conjE) rule
  obtain old1 y where 2: "fl_file st1 = Some \<lparr>f_bytes = old1, f_pos = length old1\<rparr>"
      "st2 = st1\<lparr>fl_file := Some \<lparr>f_bytes = old1 @ bs, f_pos = length (old1 @ bs)\<rparr>, fl_last_packet_ts := y\<rparr>"
    using assms(2) unfolding grown_def by (elim exE conjE) rule
  have "old1 = old @ as" using 1(2) 2(1) by simp
  then show ?thesis
    unfolding grown_def using 1 2(2) by (intro exI [of _ old] exI [of _ y]) simp
qed

lemma grown_at_end: "grown st bs st' \<Longrightarrow> at_end st'"
  unfolding grown_def at_end_def by auto

lemma grown_keeps:
  assumes "grown st bs st'"
  shows "fl_output st' = fl_output st" "fl_video_codec st' = fl_video_codec st" "fl_audio_codec st' = fl_audio_codec st"
    "fl_start_dts_offset st' = fl_start_dts_offset st" "fl_active st' = fl_active st" "fl_stopping st' = fl_stopping st"
    "fl_sent_headers st' = fl_sent_headers st" "fl_got_first_packet st' = fl_got_first_packet st"
    "fl_stop_ts st' = fl_stop_ts st"
  using assms unfolding grown_def by auto

lemma grown_file:
  assumes "grown st bs st'" and "fl_file st = Some \<lparr>f_bytes = old, f_pos = length old\<rparr>"
  shows "fl_file st' = Some \<lparr>f_bytes = old @ bs, f_pos = length (old @ bs)\<rparr>"
  using assms unfolding grown_def by auto

lemma grown_file_append:
  assumes "at_end st"
  shows "grown st d (file_append d st)"
proof -
  obtain old where "fl_file st = Some \<lparr>f_bytes = old, f_pos = length old\<rparr>" using assms by (auto simp: at_end_def)
  then show ?thesis
    unfolding grown_def file_append_def
    by (intro exI [of _ old] exI [of _ "fl_last_packet_ts st"]) (simp add: fwrite_end)
qed

lemma grown_write_packet:
  assumes "at_end st"
  shows "grown st (flv_packet_mux p (if hdr then 0 else fl_start_dts_offset st) hdr) (write_packet p hdr st)"
proof -
  obtain old where "fl_file st = Some \<lparr>f_bytes = old, f_pos = length old\<rparr>" using assms by (auto simp: at_end_def)
  then show ?thesis
    unfolding grown_def file_append_def write_packet_def Let_def
    by (intro exI [of _ old] exI [of _ "scast (get_ms_time p (p_dts p))"]) (simp add: fwrite_end)
qed

section \<open>The tags of packets\<close>

definition parsed_packet :: "flv_env \<Rightarrow> video_id_t \<Rightarrow> encoder_packet \<Rightarrow> encoder_packet option" where
  "parsed_packet env c p =
    (if p_type p \<noteq> OBS_ENCODER_VIDEO then Some p
     else case c of
       CODEC_NONE \<Rightarrow> None
     | CODEC_H264 \<Rightarrow> Some (obs_parse_avc_packet (fe_addr env (p_data p)) p)
     | CODEC_HEVC \<Rightarrow> Some (obs_parse_hevc_packet (fe_addr env (p_data p)) p)
     | CODEC_AV1 \<Rightarrow> obs_parse_av1_packet p)"

definition frames_type :: "video_id_t \<Rightarrow> encoder_packet \<Rightarrow> byte" where
  "frames_type c p = (if (c = CODEC_H264 \<or> c = CODEC_HEVC) \<and> p_dts p = p_pts p then PACKETTYPE_FRAMESX else PACKETTYPE_FRAMES)"

text \<open>The tag of a packet \<open>p\<close> with its parsed data \<open>q\<close>.\<close>

definition packet_tag :: "video_id_t \<Rightarrow> audio_id_t \<Rightarrow> s32 \<Rightarrow> encoder_packet \<Rightarrow> encoder_packet \<Rightarrow> flv_tag" where
  "packet_tag vc ac off p q =
    (let idx = p_track_idx p
     in if p_type p = OBS_ENCODER_VIDEO then
          (if vc = CODEC_H264 \<and> idx = 0 then mux_tag q off False else video_ex_tag q vc off (frames_type vc q) idx)
        else if idx = 0 then mux_tag p off False else audio_ex_tag p ac off AUDIO_PACKETTYPE_FRAMES idx)"

definition MAX_TAG_DATA :: nat where
  "MAX_TAG_DATA = 2 ^ 24 - 16"

text \<open>A packet of a known track whose data fits into a tag.\<close>

definition packet_ok :: "flv_env \<Rightarrow> (nat \<Rightarrow> video_id_t) \<Rightarrow> (nat \<Rightarrow> audio_id_t) \<Rightarrow> encoder_packet \<Rightarrow> bool" where
  "packet_ok env vc ac p \<longleftrightarrow>
    (case parsed_packet env (vc (p_track_idx p)) p of None \<Rightarrow> False
     | Some q \<Rightarrow> p_data q \<noteq> [] \<and> length (p_data q) < MAX_TAG_DATA) \<and>
    (p_type p = OBS_ENCODER_AUDIO \<and> p_track_idx p \<noteq> 0 \<longrightarrow> ac (p_track_idx p) \<noteq> AUDIO_CODEC_NONE)"

lemma parse_av1_type: "obs_parse_av1_packet p = Some q \<Longrightarrow> p_type q = p_type p"
  by (auto simp: obs_parse_av1_packet_def Let_def)

lemma parsed_packet_type: "parsed_packet env c p = Some q \<Longrightarrow> p_type q = p_type p"
  by (auto simp: parsed_packet_def obs_parse_avc_packet_def obs_parse_hevc_packet_def parse_av1_type Let_def
      split: if_splits video_id_t.splits prod.splits)

lemma tag_ok_mux: "length (p_data p) < MAX_TAG_DATA \<Longrightarrow> tag_ok (mux_tag p off hdr)"
  by (auto simp: tag_ok_def mux_tag_def packet_time_def ct_offset_def MAX_TAG_DATA_def flv_time_less [simplified])

lemma length_fourcc_le: "length (video_fourcc c) \<le> 4" "length (audio_fourcc a) \<le> 4"
  by (cases c; simp add: video_fourcc_def) (cases a; simp add: audio_fourcc_def)

lemma tag_ok_video_ex: "length (p_data p) < MAX_TAG_DATA \<Longrightarrow> tag_ok (video_ex_tag p c off type idx)"
  using length_fourcc_le(1) [of c]
  by (auto simp: tag_ok_def video_ex_tag_def video_ex_body_def packet_time_def ct_offset_def MAX_TAG_DATA_def
      flv_time_less [simplified])

lemma tag_ok_audio_ex: "length (p_data p) < MAX_TAG_DATA \<Longrightarrow> tag_ok (audio_ex_tag p c off type idx)"
  using length_fourcc_le(2) [of c]
  by (auto simp: tag_ok_def audio_ex_tag_def packet_time_def MAX_TAG_DATA_def flv_time_less [simplified])

lemma packet_tag_ok:
  assumes "packet_ok env vc ac p" and "parsed_packet env (vc (p_track_idx p)) p = Some q"
  shows "tag_ok (packet_tag (vc (p_track_idx p)) (ac (p_track_idx p)) off p q)"
proof -
  have q: "length (p_data q) < MAX_TAG_DATA" using assms by (simp add: packet_ok_def)
  have "p_type p \<noteq> OBS_ENCODER_VIDEO \<Longrightarrow> q = p" using assms(2) by (simp add: parsed_packet_def)
  then show ?thesis using q by (auto simp: packet_tag_def Let_def tag_ok_mux tag_ok_video_ex tag_ok_audio_ex)
qed

lemma write_data_grown:
  assumes "at_end st" and "fl_got_first_packet st" and "packet_ok env (fl_video_codec st) (fl_audio_codec st) p"
    and "parsed_packet env (fl_video_codec st (p_track_idx p)) p = Some q"
  shows "\<exists>st'. write_data env p st = Some st' \<and>
    grown st (tag_bytes (packet_tag (fl_video_codec st (p_track_idx p)) (fl_audio_codec st (p_track_idx p))
      (fl_start_dts_offset st) p q)) st'"
proof -
  let ?i = "p_track_idx p" and ?c = "fl_video_codec st (p_track_idx p)" and ?off = "fl_start_dts_offset st"
  have ne: "p_data q \<noteq> []" using assms(3,4) by (simp add: packet_ok_def)
  have first: "mark_first_packet p st = st" using assms(2) by (simp add: mark_first_packet_def)
  show ?thesis
  proof (cases "p_type p = OBS_ENCODER_VIDEO")
    case True
    have c: "?c \<noteq> CODEC_NONE" using assms(4) True by (auto simp: parsed_packet_def)
    have ty: "p_type q = OBS_ENCODER_VIDEO" using parsed_packet_type [OF assms(4)] True by simp
    have wd: "write_data env p st = Some (if ?c = CODEC_H264 \<and> ?i = 0 then write_packet q False st
        else write_packet_ex q (length (p_data q)) False False ?i st)"
      using assms(4) True c first
      by (cases ?c) (auto simp: write_data_def parsed_packet_def Let_def)
    have "flv_packet_frames q ?c ?off ?i = tag_bytes (video_ex_tag q ?c ?off (frames_type ?c q) ?i)"
      using flv_packet_ex_tag [OF c] by (simp add: flv_packet_frames_def frames_type_def Let_def)
    then have ex: "grown st (tag_bytes (video_ex_tag q ?c ?off (frames_type ?c q) ?i))
        (write_packet_ex q (length (p_data q)) False False ?i st)"
      using grown_file_append [OF assms(1)] by (simp add: write_packet_ex_def)
    have mux: "grown st (tag_bytes (mux_tag q ?off False)) (write_packet q False st)"
      using grown_write_packet [OF assms(1), of q False] flv_packet_mux_tag [OF ne] by simp
    show ?thesis unfolding wd packet_tag_def Let_def using ex mux True by (cases "?c = CODEC_H264 \<and> ?i = 0") auto
  next
    case False
    then have q: "q = p" and a: "p_type p = OBS_ENCODER_AUDIO"
      using assms(4) by (auto simp: parsed_packet_def intro: obs_encoder_type.exhaust)
    have wd: "write_data env p st = (if ?i \<noteq> 0 then write_audio_packet_ex p False ?i st else Some (write_packet p False st))"
      using False first by (simp add: write_data_def Let_def)
    have ac: "?i \<noteq> 0 \<Longrightarrow> fl_audio_codec st ?i \<noteq> AUDIO_CODEC_NONE" using assms(3) a by (simp add: packet_ok_def)
    have "?i \<noteq> 0 \<Longrightarrow> write_audio_packet_ex p False ?i st =
        Some (file_append (tag_bytes (audio_ex_tag p (fl_audio_codec st ?i) ?off AUDIO_PACKETTYPE_FRAMES ?i)) st)"
      using flv_packet_audio_ex_tag [OF ac] ne q by (simp add: write_audio_packet_ex_def flv_packet_audio_frames_def)
    then show ?thesis
      using wd grown_write_packet [OF assms(1), of p False] grown_file_append [OF assms(1)] False a q ne
        flv_packet_mux_tag [of p ?off False]
      by (auto simp: packet_tag_def Let_def)
  qed
qed

section \<open>Headers\<close>

text \<open>The configuration record of a video track, when there is one.\<close>

definition video_config :: "flv_env \<Rightarrow> obs_encoder \<Rightarrow> byte list option" where
  "video_config env e =
    (case e_extra_data e of
       None \<Rightarrow> None
     | Some h \<Rightarrow>
         (case to_video_type (e_codec e) of
            CODEC_NONE \<Rightarrow> None
          | CODEC_H264 \<Rightarrow> Some (obs_parse_avc_header (fe_addr env h) h)
          | CODEC_HEVC \<Rightarrow>
              (case obs_parse_hevc_header (fe_addr env h) h of
                 Some (Some d, n) \<Rightarrow> if n = length d then Some d else None | _ \<Rightarrow> None)
          | CODEC_AV1 \<Rightarrow> obs_parse_av1_header h))"

definition fits :: "byte list \<Rightarrow> bool" where
  "fits d \<longleftrightarrow> d \<noteq> [] \<and> length d < MAX_TAG_DATA"

definition video_track_ok :: "flv_env \<Rightarrow> obs_encoder \<Rightarrow> bool" where
  "video_track_ok env e \<longleftrightarrow> obs_encoder_video (Some e) \<noteq> None \<and>
    (case video_config env e of None \<Rightarrow> False | Some d \<Rightarrow> fits d)"

definition audio_track_ok :: "obs_encoder \<Rightarrow> bool" where
  "audio_track_ok e \<longleftrightarrow> e_codec e = ''aac'' \<and> (case e_extra_data e of None \<Rightarrow> True | Some d \<Rightarrow> fits d)"

text \<open>The tracks are numbered from 0, and each has a codec of the format and its header.\<close>

definition tracks_ok :: "flv_env \<Rightarrow> nat \<Rightarrow> nat \<Rightarrow> flv_context \<Rightarrow> bool" where
  "tracks_ok env nv na cx \<longleftrightarrow> nv \<le> MAX_OUTPUT_VIDEO_ENCODERS \<and> na \<le> MAX_OUTPUT_AUDIO_ENCODERS \<and>
    (\<forall>i < MAX_OUTPUT_VIDEO_ENCODERS. case fc_video_encoders cx i of None \<Rightarrow> nv \<le> i | Some e \<Rightarrow> i < nv \<and> video_track_ok env e) \<and>
    (\<forall>i < MAX_OUTPUT_AUDIO_ENCODERS. case fc_audio_encoders cx i of None \<Rightarrow> na \<le> i | Some e \<Rightarrow> i < na \<and> audio_track_ok e)"

definition track_video :: "flv_context \<Rightarrow> nat \<Rightarrow> obs_encoder" where
  "track_video cx i = the (fc_video_encoders cx i)"

definition track_audio :: "flv_context \<Rightarrow> nat \<Rightarrow> obs_encoder" where
  "track_audio cx i = the (fc_audio_encoders cx i)"

definition audio_header_tags :: "flv_context \<Rightarrow> nat \<Rightarrow> flv_tag list" where
  "audio_header_tags cx i =
    (case e_extra_data (track_audio cx i) of
       None \<Rightarrow> []
     | Some d \<Rightarrow>
         (let p = header_packet OBS_ENCODER_AUDIO False d
          in [if i = 0 then mux_tag p 0 True else audio_ex_tag p AUDIO_CODEC_AAC 0 AUDIO_PACKETTYPE_SEQ_START i]))"

definition color_bytes :: "int \<Rightarrow> int \<Rightarrow> int \<Rightarrow> int \<Rightarrow> int \<Rightarrow> int \<Rightarrow> byte list" where
  "color_bytes bits pri trc spc lo hi =
    AMF_STRING # amf_name ''colorInfo'' @ DATA_TYPE_OBJECT # amf_name ''colorConfig'' @ DATA_TYPE_OBJECT #
    amf_num ''bitDepth'' (double_of_int bits) @ amf_num ''colorPrimaries'' (double_of_int pri) @
    amf_num ''transferCharacteristics'' (double_of_int trc) @ amf_num ''matrixCoefficients'' (double_of_int spc) @
    [0, 0, DATA_TYPE_OBJECT_END] @
    (if hi \<noteq> 0 then amf_name ''hdrMdcv'' @ DATA_TYPE_OBJECT # amf_num ''maxLuminance'' (double_of_int hi) @
       amf_num ''minLuminance'' (double_of_int lo) @ [0, 0, DATA_TYPE_OBJECT_END] else []) @
    [0, 0, DATA_TYPE_OBJECT_END]"

definition color_tag :: "video_id_t \<Rightarrow> byte list \<Rightarrow> nat \<Rightarrow> flv_tag" where
  "color_tag c d idx =
    \<lparr>tag_type = RTMP_PACKET_TYPE_VIDEO, tag_time = 0,
     tag_body =
       (if idx > 0 then [FRAME_HEADER_EX OR PACKETTYPE_MULTITRACK] @ [MULTITRACKTYPE_ONE_TRACK OR PACKETTYPE_METADATA] @
          video_fourcc c @ [word_of_nat idx]
        else [FRAME_HEADER_EX OR PACKETTYPE_METADATA] @ video_fourcc c) @ d\<rparr>"

definition color_tags :: "flv_env \<Rightarrow> flv_context \<Rightarrow> nat \<Rightarrow> flv_tag list" where
  "color_tags env cx i =
    (let e = track_video cx i; info = the (obs_encoder_video (Some e)); c = to_video_type (e_codec e);
         (pri, trc, spc) = color_codes (vo_colorspace info)
     in if vo_colorspace info \<notin> {VIDEO_CS_2100_PQ, VIDEO_CS_2100_HLG} \<or> c = CODEC_H264 then []
        else [color_tag c (color_bytes (bits_per_raw_sample (vo_format info)) pri trc spc 0
          (if vo_colorspace info = VIDEO_CS_2100_HLG then 1000 else fe_hdr_peak env)) i])"

definition video_header_tag :: "flv_env \<Rightarrow> flv_context \<Rightarrow> nat \<Rightarrow> flv_tag" where
  "video_header_tag env cx i =
    (let e = track_video cx i; c = to_video_type (e_codec e);
         p = header_packet OBS_ENCODER_VIDEO True (the (video_config env e))
     in if c = CODEC_H264 \<and> i = 0 then mux_tag p 0 True else video_ex_tag p c 0 PACKETTYPE_SEQ_START i)"

definition header_tags :: "flv_env \<Rightarrow> nat \<Rightarrow> nat \<Rightarrow> flv_context \<Rightarrow> flv_tag list" where
  "header_tags env nv na cx =
    audio_header_tags cx 0 @
    concat (map (\<lambda>i. video_header_tag env cx i # color_tags env cx i) [0..<nv]) @
    concat (map (audio_header_tags cx) [1..<na])"

text \<open>A stream whose codecs are set.\<close>

definition codecs_set :: "nat \<Rightarrow> nat \<Rightarrow> flv_output \<Rightarrow> bool" where
  "codecs_set nv na st \<longleftrightarrow>
    (\<forall>i < nv. fl_video_codec st i = to_video_type (e_codec (track_video (fl_output st) i))) \<and>
    (\<forall>i < na. fl_audio_codec st i = to_audio_type (e_codec (track_audio (fl_output st) i)))"

lemma tracks_ok_audio:
  assumes "tracks_ok env nv na cx" and "i < na"
  obtains e where "fc_audio_encoders cx i = Some e" "audio_track_ok e" "i < MAX_OUTPUT_AUDIO_ENCODERS"
proof -
  have i: "i < MAX_OUTPUT_AUDIO_ENCODERS" using assms by (simp add: tracks_ok_def)
  then have "case fc_audio_encoders cx i of None \<Rightarrow> na \<le> i | Some e \<Rightarrow> i < na \<and> audio_track_ok e"
    using assms(1) unfolding tracks_ok_def by blast
  then show thesis using that assms(2) i by (cases "fc_audio_encoders cx i") auto
qed

lemma tracks_ok_video:
  assumes "tracks_ok env nv na cx" and "i < nv"
  obtains e where "fc_video_encoders cx i = Some e" "video_track_ok env e" "i < MAX_OUTPUT_VIDEO_ENCODERS"
proof -
  have i: "i < MAX_OUTPUT_VIDEO_ENCODERS" using assms by (simp add: tracks_ok_def)
  then have "case fc_video_encoders cx i of None \<Rightarrow> nv \<le> i | Some e \<Rightarrow> i < nv \<and> video_track_ok env e"
    using assms(1) unfolding tracks_ok_def by blast
  then show thesis using that assms(2) i by (cases "fc_video_encoders cx i") auto
qed

lemma tracks_ok_past:
  assumes "tracks_ok env nv na cx"
  shows "nv \<le> i \<Longrightarrow> obs_output_get_video_encoder2 cx i = None"
    and "na \<le> i \<Longrightarrow> obs_output_get_audio_encoder cx i = None"
proof -
  assume i: "nv \<le> i"
  have "fc_video_encoders cx i = None" if b: "i < MAX_OUTPUT_VIDEO_ENCODERS"
  proof -
    have "case fc_video_encoders cx i of None \<Rightarrow> nv \<le> i | Some e \<Rightarrow> i < nv \<and> video_track_ok env e"
      using assms(1) b unfolding tracks_ok_def by blast
    then show ?thesis using i by (cases "fc_video_encoders cx i") auto
  qed
  then show "obs_output_get_video_encoder2 cx i = None" by (simp add: obs_output_get_video_encoder2_def)
next
  assume i: "na \<le> i"
  have "fc_audio_encoders cx i = None" if b: "i < MAX_OUTPUT_AUDIO_ENCODERS"
  proof -
    have "case fc_audio_encoders cx i of None \<Rightarrow> na \<le> i | Some e \<Rightarrow> i < na \<and> audio_track_ok e"
      using assms(1) b unfolding tracks_ok_def by blast
    then show ?thesis using i by (cases "fc_audio_encoders cx i") auto
  qed
  then show "obs_output_get_audio_encoder cx i = None" by (simp add: obs_output_get_audio_encoder_def)
qed

lemma codecs_set_grown: "grown st bs st' \<Longrightarrow> codecs_set nv na st \<Longrightarrow> codecs_set nv na st'"
  by (simp add: codecs_set_def grown_keeps)

lemma audio_header_grown:
  assumes "at_end st" and "fl_output st = cx" and "tracks_ok env nv na cx" and "codecs_set nv na st" and "i < na"
  shows "\<exists>st'. write_audio_header i st = Some (True, st') \<and> grown st (concat (map tag_bytes (audio_header_tags cx i))) st'"
proof -
  obtain e where e: "fc_audio_encoders cx i = Some e" "audio_track_ok e" "i < MAX_OUTPUT_AUDIO_ENCODERS"
    by (rule tracks_ok_audio [OF assms(3,5)])
  have te: "track_audio cx i = e" using e by (simp add: track_audio_def)
  have enc: "obs_output_get_audio_encoder (fl_output st) i = Some e"
    using e assms(2) by (simp add: obs_output_get_audio_encoder_def)
  have c: "fl_audio_codec st i = AUDIO_CODEC_AAC"
    using assms(2,4,5) te e(2) by (simp add: codecs_set_def audio_track_ok_def to_audio_type_def)
  show ?thesis
  proof (cases "e_extra_data e")
    case None
    then show ?thesis
      using enc te grown_refl [OF assms(1)]
      by (simp add: write_audio_header_def obs_encoder_get_extra_data_def audio_header_tags_def)
  next
    case (Some d)
    let ?p = "header_packet OBS_ENCODER_AUDIO False d"
    have ne: "p_data ?p \<noteq> []" using e(2) Some by (simp add: audio_track_ok_def fits_def header_packet_def)
    have "flv_packet_audio_start ?p AUDIO_CODEC_AAC i = Some (tag_bytes (audio_ex_tag ?p AUDIO_CODEC_AAC 0 AUDIO_PACKETTYPE_SEQ_START i))"
      using flv_packet_audio_ex_tag [OF _ ne] by (simp add: flv_packet_audio_start_def)
    then show ?thesis
      using Some enc te c grown_write_packet [OF assms(1), of ?p True] grown_file_append [OF assms(1)]
        flv_packet_mux_tag [OF ne]
      by (simp add: write_audio_header_def obs_encoder_get_extra_data_def audio_header_tags_def write_audio_packet_ex_def
          Let_def)
  qed
qed

lemma emits_s_wstring: "arr.emits (s_wstring str) (amf_name str) ()"
  using arr.emits_then [OF arr.emits_s_wb16 arr.emits_then [OF arr.emits_s_write arr.emits_return]]
  by (simp add: s_wstring_def amf_name_def)

lemma emits_write_number: "arr.emits (write_number str v) (amf_num str (double_of_int v)) ()"
  using arr.emits_then [OF emits_s_wstring arr.emits_then [OF arr.emits_s_w8 arr.emits_s_wb64]]
  by (simp add: write_number_def s_wbd_def amf_num_def AMF_NUMBER_def DATA_TYPE_NUMBER_def)

lemma emits_write_object_end: "arr.emits write_object_end [0, 0, DATA_TYPE_OBJECT_END] ()"
  using arr.emits_then [OF arr.emits_s_w8 arr.emits_then [OF arr.emits_s_w8 arr.emits_s_w8]]
  by (simp add: write_object_end_def)

lemma array_output_emits: "arr.emits m bs () \<Longrightarrow> array_output m = bs"
  using array_output_writes writes_emits [of m bs "[]"] by simp

lemma array_output_color:
  "array_output (write_color_info bits pri trc spc lo hi) = color_bytes bits pri trc spc lo hi"
  unfolding write_color_info_def
  by (rule trans, rule array_output_emits,
      (rule arr.emits_then arr.emits_if arr.emits_return arr.emits_s_w8 emits_s_wstring emits_write_number emits_write_object_end)+)
    (simp add: color_bytes_def AMF_STRING_def DATA_TYPE_STRING_def)

lemma flv_packet_metadata_tag:
  assumes "c \<noteq> CODEC_NONE"
  shows "flv_packet_metadata c bits pri trc spc lo hi idx = tag_bytes (color_tag c (color_bytes bits pri trc spc lo hi) idx)"
  unfolding flv_packet_metadata_def Let_def array_output_color
  by (rule trans, rule array_output_writes, (rule ex_steps)+)
    (simp add: tag_bytes_def color_tag_def length_video_fourcc [OF assms] be24_zero add.commute)

lemma video_header_grown:
  assumes "at_end st" and "fl_output st = cx" and "tracks_ok env nv na cx" and "codecs_set nv na st" and "i < nv"
  shows "\<exists>st'. write_video_header env i st = Some (True, st') \<and> grown st (tag_bytes (video_header_tag env cx i)) st'"
proof -
  obtain e where e: "fc_video_encoders cx i = Some e" "video_track_ok env e" "i < MAX_OUTPUT_VIDEO_ENCODERS"
    by (rule tracks_ok_video [OF assms(3,5)])
  obtain d where d: "video_config env e = Some d" "fits d"
    using e(2) by (auto simp: video_track_ok_def split: option.splits)
  let ?p = "header_packet OBS_ENCODER_VIDEO True d" and ?c = "to_video_type (e_codec e)"
  have te: "track_video cx i = e" using e by (simp add: track_video_def)
  have enc: "obs_output_get_video_encoder2 (fl_output st) i = Some e"
    using e assms(2) by (simp add: obs_output_get_video_encoder2_def)
  have c: "fl_video_codec st i = ?c" using assms(2,4,5) te by (simp add: codecs_set_def)
  have cn: "?c \<noteq> CODEC_NONE" using d(1) by (auto simp: video_config_def split: option.splits)
  have ne: "p_data ?p \<noteq> []" using d(2) by (simp add: fits_def header_packet_def)
  have wd: "write_video_header env i st = Some (True, if ?c = CODEC_H264 \<and> i = 0 then write_packet ?p True st
      else write_packet_ex ?p (length (p_data ?p)) True False i st)"
    using d(1) cn c enc
    by (cases ?c) (auto simp: write_video_header_def video_config_def obs_encoder_get_extra_data_def Let_def header_packet_def
        split: option.splits if_splits)
  have "grown st (tag_bytes (video_ex_tag ?p ?c 0 PACKETTYPE_SEQ_START i)) (write_packet_ex ?p (length (p_data ?p)) True False i st)"
    using grown_file_append [OF assms(1)] flv_packet_ex_tag [OF cn]
    by (simp add: write_packet_ex_def flv_packet_start_def c)
  moreover have "grown st (tag_bytes (mux_tag ?p 0 True)) (write_packet ?p True st)"
    using grown_write_packet [OF assms(1), of ?p True] flv_packet_mux_tag [OF ne] by simp
  ultimately show ?thesis
    unfolding wd video_header_tag_def te Let_def d(1) option.sel by (cases "?c = CODEC_H264 \<and> i = 0") auto
qed

lemma video_metadata_grown:
  assumes "at_end st" and "fl_output st = cx" and "tracks_ok env nv na cx" and "codecs_set nv na st" and "i < nv"
  shows "\<exists>st'. write_video_metadata env i st = (True, st') \<and> grown st (concat (map tag_bytes (color_tags env cx i))) st'"
proof -
  obtain e where e: "fc_video_encoders cx i = Some e" "video_track_ok env e" "i < MAX_OUTPUT_VIDEO_ENCODERS"
    by (rule tracks_ok_video [OF assms(3,5)])
  obtain info where info: "obs_encoder_video (Some e) = Some info" using e(2) by (auto simp: video_track_ok_def)
  let ?c = "to_video_type (e_codec e)"
  have te: "track_video cx i = e" using e by (simp add: track_video_def)
  have enc: "obs_output_get_video_encoder2 (fl_output st) i = Some e"
    using e assms(2) by (simp add: obs_output_get_video_encoder2_def)
  have c: "fl_video_codec st i = ?c" using assms(2,4,5) te by (simp add: codecs_set_def)
  have cn: "?c \<noteq> CODEC_NONE" using e(2) by (auto simp: video_track_ok_def video_config_def split: option.splits)
  show ?thesis
    using grown_refl [OF assms(1)] grown_file_append [OF assms(1)]
    by (cases "vo_colorspace info")
      (auto simp: write_video_metadata_def color_tags_def enc c te info color_codes_def flv_packet_metadata_tag [OF cn])
qed

lemma video_headers_grown:
  assumes "at_end st" and "fl_output st = cx" and "tracks_ok env nv na cx" and "codecs_set nv na st"
  shows "\<exists>st'. write_video_headers env is st = Some (True, st') \<and>
    grown st (concat (map tag_bytes (concat (map (\<lambda>i. video_header_tag env cx i # color_tags env cx i) (filter (\<lambda>i. i < nv) is))))) st'"
  using assms
proof (induction "is" arbitrary: st)
  case Nil
  then show ?case using grown_refl by simp
next
  case (Cons i "is")
  show ?case
  proof (cases "i < nv")
    case False
    then show ?thesis using Cons tracks_ok_past(1) [OF Cons.prems(3), of i] by simp
  next
    case True
    obtain st1 where 1: "write_video_header env i st = Some (True, st1)" "grown st (tag_bytes (video_header_tag env cx i)) st1"
      using video_header_grown [OF Cons.prems True] by blast
    have st1: "at_end st1" "fl_output st1 = cx" "codecs_set nv na st1"
      using grown_at_end [OF 1(2)] grown_keeps(1) [OF 1(2)] codecs_set_grown [OF 1(2) Cons.prems(4)] Cons.prems(2) by simp_all
    obtain st2 where 2: "write_video_metadata env i st1 = (True, st2)" "grown st1 (concat (map tag_bytes (color_tags env cx i))) st2"
      using video_metadata_grown [OF st1(1,2) Cons.prems(3) st1(3) True] by blast
    have st2: "at_end st2" "fl_output st2 = cx" "codecs_set nv na st2"
      using grown_at_end [OF 2(2)] grown_keeps(1) [OF 2(2)] codecs_set_grown [OF 2(2) st1(3)] st1(2) by simp_all
    obtain st3 where 3: "write_video_headers env is st2 = Some (True, st3)"
        "grown st2 (concat (map tag_bytes (concat (map (\<lambda>i. video_header_tag env cx i # color_tags env cx i) (filter (\<lambda>i. i < nv) is))))) st3"
      using Cons.IH [OF st2(1,2) Cons.prems(3) st2(3)] by blast
    obtain e where e: "fc_video_encoders cx i = Some e" "i < MAX_OUTPUT_VIDEO_ENCODERS"
      by (rule tracks_ok_video [OF Cons.prems(3) True])
    then have "obs_output_get_video_encoder2 (fl_output st) i = Some e"
      using Cons.prems(2) by (simp add: obs_output_get_video_encoder2_def)
    then show ?thesis
      using 1(1) 2(1) 3(1) grown_trans [OF grown_trans [OF 1(2) 2(2)] 3(2)] True by simp
  qed
qed

lemma audio_headers_grown:
  assumes "at_end st" and "fl_output st = cx" and "tracks_ok env nv na cx" and "codecs_set nv na st"
  shows "\<exists>st'. write_audio_headers [k..<m] st = Some st' \<and>
    grown st (concat (map tag_bytes (concat (map (audio_header_tags cx) [k..<min m na])))) st'"
  using assms
proof (induction "m - k" arbitrary: k st)
  case 0
  then show ?case using grown_refl by simp
next
  case (Suc n)
  then have k: "[k..<m] = k # [Suc k..<m]" by (simp add: upt_conv_Cons)
  show ?case
  proof (cases "k < na")
    case False
    have "write_audio_header k st = Some (False, st)"
      using tracks_ok_past(2) [OF Suc.prems(3), of k] False Suc.prems(2) by (simp add: write_audio_header_def)
    then show ?thesis using k False grown_refl [OF Suc.prems(1)] by simp
  next
    case True
    obtain st1 where 1: "write_audio_header k st = Some (True, st1)" "grown st (concat (map tag_bytes (audio_header_tags cx k))) st1"
      using audio_header_grown [OF Suc.prems True] by blast
    have st1: "at_end st1" "fl_output st1 = cx" "codecs_set nv na st1"
      using grown_at_end [OF 1(2)] grown_keeps(1) [OF 1(2)] codecs_set_grown [OF 1(2) Suc.prems(4)] Suc.prems(2) by simp_all
    obtain st2 where 2: "write_audio_headers [Suc k..<m] st1 = Some st2"
        "grown st1 (concat (map tag_bytes (concat (map (audio_header_tags cx) [Suc k..<min m na])))) st2"
      using Suc.hyps(1) [OF _ st1(1,2) Suc.prems(3) st1(3)] Suc.hyps(2) by (metis Suc_inject Suc_diff_Suc zero_less_Suc zero_less_diff)
    have "[k..<min m na] = k # [Suc k..<min m na]" using Suc.hyps(2) True by (simp add: upt_conv_Cons)
    then show ?thesis using k 1(1) 2(1) grown_trans [OF 1(2) 2(2)] by simp
  qed
qed

text \<open>Setting the codecs.\<close>

lemma takeWhile_upt:
  assumes "n \<le> m" and "\<And>i. i < n \<Longrightarrow> P i" and "n < m \<Longrightarrow> \<not> P n"
  shows "takeWhile P [0..<m] = [0..<n]"
proof -
  have "[0..<m] = [0..<n] @ [n..<m]" using assms(1) upt_add_eq_append [of 0 n "m - n"] by simp
  moreover have "takeWhile P ([0..<n] @ [n..<m]) = [0..<n] @ takeWhile P [n..<m]"
    using assms(2) by (intro takeWhile_append2) simp
  moreover have "takeWhile P [n..<m] = []" using assms(3) by (cases "n < m") (simp_all add: upt_conv_Cons)
  ultimately show ?thesis by simp
qed

definition with_codecs :: "nat \<Rightarrow> nat \<Rightarrow> flv_output \<Rightarrow> flv_output" where
  "with_codecs nv na st =
    st\<lparr>fl_audio_codec := (\<lambda>i. if i < na then to_audio_type (e_codec (track_audio (fl_output st) i)) else fl_audio_codec st i),
       fl_video_codec := (\<lambda>i. if i < nv then to_video_type (e_codec (track_video (fl_output st) i)) else fl_video_codec st i)\<rparr>"

lemma set_audio_codecs_eq:
  assumes "tracks_ok env nv na (fl_output st)"
  shows "set_audio_codecs st = with_codecs 0 na st"
proof -
  let ?cx = "fl_output st"
  have some: "obs_output_get_audio_encoder ?cx i = Some (track_audio ?cx i)" if "i < na" for i
    using tracks_ok_audio [OF assms that] by (metis obs_output_get_audio_encoder_def linorder_not_le option.sel track_audio_def)
  have "takeWhile (\<lambda>i. obs_output_get_audio_encoder ?cx i \<noteq> None) [0..<MAX_OUTPUT_AUDIO_ENCODERS] = [0..<na]"
    using assms some tracks_ok_past(2) [OF assms, of na] by (intro takeWhile_upt) (auto simp: tracks_ok_def)
  moreover have "foldl (\<lambda>st i. case obs_encoder_get_codec (obs_output_get_audio_encoder (fl_output st) i) of
        None \<Rightarrow> st | Some codec \<Rightarrow> st\<lparr>fl_audio_codec := (fl_audio_codec st)(i := to_audio_type codec)\<rparr>) st [0..<n] = with_codecs 0 n st"
    if "n \<le> na" for n
    using that
  proof (induction n)
    case 0
    then show ?case by (simp add: with_codecs_def)
  next
    case (Suc n)
    then show ?case
      using some [of n] by (auto simp: with_codecs_def obs_encoder_get_codec_def fun_eq_iff less_Suc_eq)
  qed
  ultimately show ?thesis by (simp add: set_audio_codecs_def)
qed

lemma set_video_codecs_eq:
  assumes "tracks_ok env nv na (fl_output st)"
  shows "set_video_codecs st = with_codecs nv 0 st"
proof -
  let ?cx = "fl_output st"
  have some: "obs_output_get_video_encoder2 ?cx i = Some (track_video ?cx i)" if "i < nv" for i
    using tracks_ok_video [OF assms that] by (metis obs_output_get_video_encoder2_def linorder_not_le option.sel track_video_def)
  have "takeWhile (\<lambda>i. obs_output_get_video_encoder2 ?cx i \<noteq> None) [0..<MAX_OUTPUT_VIDEO_ENCODERS] = [0..<nv]"
    using assms some tracks_ok_past(1) [OF assms, of nv] by (intro takeWhile_upt) (auto simp: tracks_ok_def)
  moreover have "foldl (\<lambda>st i. case obs_encoder_get_codec (obs_output_get_video_encoder2 (fl_output st) i) of
        None \<Rightarrow> st | Some codec \<Rightarrow> st\<lparr>fl_video_codec := (fl_video_codec st)(i := to_video_type codec)\<rparr>) st [0..<n] = with_codecs n 0 st"
    if "n \<le> nv" for n
    using that
  proof (induction n)
    case 0
    then show ?case by (simp add: with_codecs_def)
  next
    case (Suc n)
    then show ?case
      using some [of n] by (auto simp: with_codecs_def obs_encoder_get_codec_def fun_eq_iff less_Suc_eq)
  qed
  ultimately show ?thesis by (simp add: set_video_codecs_def)
qed

lemma write_headers_grown:
  assumes "at_end st" and "fl_output st = cx" and "context_ok cx" and "tracks_ok env nv na cx"
  shows "\<exists>st'. write_headers env st = Some st' \<and>
    grown (with_codecs nv na st) (flv_file_bytes cx 0 0 (concat (map tag_bytes (header_tags env nv na cx)))) st'"
proof -
  let ?st = "with_codecs nv na st"
  have na: "0 < na"
    using assms(3) tracks_ok_past(2) [OF assms(4), of 0] by (cases na) (auto simp: context_ok_def obs_encoder_audio_def)
  have "with_codecs nv 0 (with_codecs 0 na st) = ?st" by (simp add: with_codecs_def cong: if_cong)
  moreover have "tracks_ok env nv na (fl_output st)" "tracks_ok env nv na (fl_output (with_codecs 0 na st))"
    using assms(2,4) by (simp_all add: with_codecs_def)
  ultimately have codecs: "set_video_codecs (set_audio_codecs st) = ?st"
    by (simp add: set_audio_codecs_eq set_video_codecs_eq)
  have st: "at_end ?st" "fl_output ?st = cx" "codecs_set nv na ?st"
    using assms(1,2) by (simp_all add: at_end_def with_codecs_def codecs_set_def)
  let ?b0 = "flv_header @ tag_bytes (meta_tag cx 0 0)"
  obtain st0 where 0: "write_meta_data ?st = Some st0" "grown ?st ?b0 st0"
    using flv_meta_data_tag [OF assms(3), of True] grown_file_append [OF st(1)] by (auto simp: write_meta_data_def st(2))
  have st0: "at_end st0" "fl_output st0 = cx" "codecs_set nv na st0"
    using grown_at_end [OF 0(2)] grown_keeps(1) [OF 0(2)] codecs_set_grown [OF 0(2) st(3)] st(2) by simp_all
  obtain st1 where 1: "write_audio_header 0 st0 = Some (True, st1)" "grown st0 (concat (map tag_bytes (audio_header_tags cx 0))) st1"
    using audio_header_grown [OF st0(1,2) assms(4) st0(3) na] by blast
  have st1: "at_end st1" "fl_output st1 = cx" "codecs_set nv na st1"
    using grown_at_end [OF 1(2)] grown_keeps(1) [OF 1(2)] codecs_set_grown [OF 1(2) st0(3)] st0(2) by simp_all
  have vs: "filter (\<lambda>i. i < nv) [0..<MAX_OUTPUT_VIDEO_ENCODERS] = [0..<nv]"
  proof -
    have "[0..<MAX_OUTPUT_VIDEO_ENCODERS] = [0..<nv] @ [nv..<MAX_OUTPUT_VIDEO_ENCODERS]"
      using assms(4) upt_add_eq_append [of 0 nv "MAX_OUTPUT_VIDEO_ENCODERS - nv"] by (simp add: tracks_ok_def)
    then show ?thesis by (simp add: filter_id_conv)
  qed
  obtain st2 where 2: "write_video_headers env [0..<MAX_OUTPUT_VIDEO_ENCODERS] st1 = Some (True, st2)"
      "grown st1 (concat (map tag_bytes (concat (map (\<lambda>i. video_header_tag env cx i # color_tags env cx i) [0..<nv])))) st2"
    using video_headers_grown [OF st1(1,2) assms(4) st1(3), of "[0..<MAX_OUTPUT_VIDEO_ENCODERS]"] unfolding vs by blast
  have st2: "at_end st2" "fl_output st2 = cx" "codecs_set nv na st2"
    using grown_at_end [OF 2(2)] grown_keeps(1) [OF 2(2)] codecs_set_grown [OF 2(2) st1(3)] st1(2) by simp_all
  have "min (MAX_OUTPUT_AUDIO_ENCODERS + 1) na = na" using assms(4) by (simp add: tracks_ok_def)
  then obtain st3 where 3: "write_audio_headers [1..<MAX_OUTPUT_AUDIO_ENCODERS + 1] st2 = Some st3"
      "grown st2 (concat (map tag_bytes (concat (map (audio_header_tags cx) [1..<na])))) st3"
    using audio_headers_grown [OF st2(1,2) assms(4) st2(3), of 1 "MAX_OUTPUT_AUDIO_ENCODERS + 1"] by metis
  have "write_headers env st = Some st3"
    unfolding write_headers_def codecs 0(1) using 1(1) 2(1) 3(1) by simp
  moreover have "grown ?st (flv_file_bytes cx 0 0 (concat (map tag_bytes (header_tags env nv na cx)))) st3"
    using grown_trans [OF 0(2) grown_trans [OF 1(2) grown_trans [OF 2(2) 3(2)]]]
    by (simp add: flv_file_bytes_def header_tags_def)
  ultimately show ?thesis by blast
qed

text \<open>The header tags are well formed.\<close>

lemma length_color_bytes: "length (color_bytes bits pri trc spc lo hi) < 1000"
  by (simp add: color_bytes_def)

lemma color_tags_ok: "list_all tag_ok (color_tags env cx i)"
  using length_fourcc_le(1)
  by (auto simp: color_tags_def tag_ok_def color_tag_def Let_def split: prod.split
      intro!: le_less_trans [OF add_right_mono [OF length_fourcc_le(1)]] less_trans [OF length_color_bytes])

lemma header_tags_ok:
  assumes "tracks_ok env nv na cx" and "0 < na"
  shows "list_all tag_ok (header_tags env nv na cx)"
proof -
  have audio: "list_all tag_ok (audio_header_tags cx i)" if i: "i < na" for i
  proof -
    obtain e where "fc_audio_encoders cx i = Some e" "audio_track_ok e" by (rule tracks_ok_audio [OF assms(1) i])
    then show ?thesis
      by (auto simp: audio_header_tags_def track_audio_def audio_track_ok_def fits_def Let_def header_packet_def
          intro!: tag_ok_mux tag_ok_audio_ex split: option.splits)
  qed
  have video: "tag_ok (video_header_tag env cx i)" if i: "i < nv" for i
  proof -
    obtain e where "fc_video_encoders cx i = Some e" "video_track_ok env e" by (rule tracks_ok_video [OF assms(1) i])
    then show ?thesis
      by (auto simp: video_header_tag_def track_video_def video_track_ok_def fits_def Let_def header_packet_def
          intro!: tag_ok_mux tag_ok_video_ex split: option.splits)
  qed
  show ?thesis
    using audio video color_tags_ok assms(2) unfolding header_tags_def by (auto simp: list_all_iff)
qed

section \<open>Recordings\<close>

fun flv_run :: "flv_env \<Rightarrow> encoder_packet list \<Rightarrow> flv_output \<Rightarrow> flv_output option" where
  "flv_run env [] st = Some st"
| "flv_run env (p # ps) st = (case flv_output_data env (Some p) st of None \<Rightarrow> None | Some st' \<Rightarrow> flv_run env ps st')"

definition video_codec_of :: "flv_context \<Rightarrow> nat \<Rightarrow> video_id_t" where
  "video_codec_of cx i = to_video_type (e_codec (track_video cx i))"

definition audio_codec_of :: "flv_context \<Rightarrow> nat \<Rightarrow> audio_id_t" where
  "audio_codec_of cx i = to_audio_type (e_codec (track_audio cx i))"

text \<open>A packet of one of the tracks, whose data fits into a tag, and its tag.\<close>

definition track_packet :: "flv_env \<Rightarrow> nat \<Rightarrow> nat \<Rightarrow> flv_context \<Rightarrow> encoder_packet \<Rightarrow> bool" where
  "track_packet env nv na cx p \<longleftrightarrow> p_track_idx p < (if p_type p = OBS_ENCODER_VIDEO then nv else na) \<and>
    packet_ok env (video_codec_of cx) (audio_codec_of cx) p"

definition recorded_tag :: "flv_env \<Rightarrow> flv_context \<Rightarrow> s32 \<Rightarrow> encoder_packet \<Rightarrow> flv_tag" where
  "recorded_tag env cx off p =
    packet_tag (video_codec_of cx (p_track_idx p)) (audio_codec_of cx (p_track_idx p)) off p
      (the (parsed_packet env (video_codec_of cx (p_track_idx p)) p))"

definition recording :: "nat \<Rightarrow> nat \<Rightarrow> flv_context \<Rightarrow> s32 \<Rightarrow> flv_tag list \<Rightarrow> flv_output \<Rightarrow> bool" where
  "recording nv na cx off ts st \<longleftrightarrow> fl_active st \<and> \<not> fl_stopping st \<and> fl_sent_headers st \<and> fl_got_first_packet st \<and>
    fl_start_dts_offset st = off \<and> fl_output st = cx \<and> codecs_set nv na st \<and> list_all tag_ok ts \<and>
    (let bs = flv_file_bytes cx 0 0 (concat (map tag_bytes ts)) in fl_file st = Some \<lparr>f_bytes = bs, f_pos = length bs\<rparr>)"

lemma packet_ok_cong:
  assumes "p_type p = OBS_ENCODER_VIDEO \<Longrightarrow> vc (p_track_idx p) = vc' (p_track_idx p)"
    and "p_type p \<noteq> OBS_ENCODER_VIDEO \<Longrightarrow> ac (p_track_idx p) = ac' (p_track_idx p)"
  shows "packet_ok env vc ac p = packet_ok env vc' ac' p"
    and "parsed_packet env (vc (p_track_idx p)) p = parsed_packet env (vc' (p_track_idx p)) p"
    and "packet_tag (vc (p_track_idx p)) (ac (p_track_idx p)) off p q = packet_tag (vc' (p_track_idx p)) (ac' (p_track_idx p)) off p q"
  using assms by (cases "p_type p"; simp add: packet_ok_def parsed_packet_def packet_tag_def)+

lemma write_data_recorded:
  assumes "at_end st" and "fl_got_first_packet st" and "codecs_set nv na st" and "fl_output st = cx"
    and "track_packet env nv na cx p"
  shows "\<exists>st'. write_data env p st = Some st' \<and> grown st (tag_bytes (recorded_tag env cx (fl_start_dts_offset st) p)) st'"
    and "tag_ok (recorded_tag env cx off p)"
proof -
  let ?vc = "fl_video_codec st" and ?ac = "fl_audio_codec st"
  have v: "p_type p = OBS_ENCODER_VIDEO \<Longrightarrow> ?vc (p_track_idx p) = video_codec_of cx (p_track_idx p)"
    and a: "p_type p \<noteq> OBS_ENCODER_VIDEO \<Longrightarrow> ?ac (p_track_idx p) = audio_codec_of cx (p_track_idx p)"
    using assms(3-5) by (auto simp: codecs_set_def track_packet_def video_codec_of_def audio_codec_of_def)
  have same: "packet_ok env ?vc ?ac p = packet_ok env (video_codec_of cx) (audio_codec_of cx) p"
    "parsed_packet env (?vc (p_track_idx p)) p = parsed_packet env (video_codec_of cx (p_track_idx p)) p"
    "packet_tag (?vc (p_track_idx p)) (?ac (p_track_idx p)) o1 p q =
      packet_tag (video_codec_of cx (p_track_idx p)) (audio_codec_of cx (p_track_idx p)) o1 p q" for o1 q
    by (rule packet_ok_cong; fact v a)+
  have ok: "packet_ok env ?vc ?ac p" "packet_ok env (video_codec_of cx) (audio_codec_of cx) p"
    using assms(5) same(1) by (simp_all add: track_packet_def)
  obtain q where q: "parsed_packet env (video_codec_of cx (p_track_idx p)) p = Some q"
    using ok(2) by (auto simp: packet_ok_def split: option.splits)
  have "parsed_packet env (?vc (p_track_idx p)) p = Some q" using same(2) q by simp
  from write_data_grown [OF assms(1,2) ok(1) this]
  show "\<exists>st'. write_data env p st = Some st' \<and> grown st (tag_bytes (recorded_tag env cx (fl_start_dts_offset st) p)) st'"
    by (simp only: recorded_tag_def q option.sel same(3))
  show "tag_ok (recorded_tag env cx off p)"
    using packet_tag_ok [OF ok(2) q] by (simp add: recorded_tag_def q)
qed

lemma recording_step:
  assumes "recording nv na cx off ts st" and "track_packet env nv na cx p"
  shows "\<exists>st'. flv_output_data env (Some p) st = Some st' \<and> recording nv na cx off (ts @ [recorded_tag env cx off p]) st'"
proof -
  have st: "at_end st" "fl_got_first_packet st" "codecs_set nv na st" "fl_output st = cx" "fl_start_dts_offset st = off"
    using assms(1) by (simp_all add: recording_def at_end_def Let_def)
  obtain st' where w: "write_data env p st = Some st'" "grown st (tag_bytes (recorded_tag env cx off p)) st'"
    using write_data_recorded(1) [OF st(1-4) assms(2)] st(5) by auto
  have "flv_output_data env (Some p) st = Some st'"
    using assms(1) w(1) by (simp add: recording_def flv_output_data_def)
  moreover have "recording nv na cx off (ts @ [recorded_tag env cx off p]) st'"
    using assms(1) grown_file [OF w(2)] codecs_set_grown [OF w(2) st(3)] grown_keeps [OF w(2)]
      write_data_recorded(2) [OF st(1-4) assms(2)]
    unfolding recording_def Let_def by (simp add: flv_file_bytes_def)
  ultimately show ?thesis by blast
qed

lemma recording_run:
  assumes "recording nv na cx off ts st" and "list_all (track_packet env nv na cx) ps"
  shows "\<exists>st'. flv_run env ps st = Some st' \<and> recording nv na cx off (ts @ map (recorded_tag env cx off) ps) st'"
  using assms
proof (induction ps arbitrary: ts st)
  case Nil
  then show ?case by simp
next
  case (Cons p ps)
  obtain st1 where 1: "flv_output_data env (Some p) st = Some st1"
      "recording nv na cx off (ts @ [recorded_tag env cx off p]) st1"
    using recording_step [OF Cons.prems(1)] Cons.prems(2) by fastforce
  then show ?case using Cons.IH [OF 1(2)] Cons.prems(2) by simp
qed

text \<open>The time stamp that becomes the duration: of the last packet that is written in the old style.\<close>

definition old_style :: "flv_context \<Rightarrow> encoder_packet \<Rightarrow> bool" where
  "old_style cx p \<longleftrightarrow> p_track_idx p = 0 \<and> (p_type p = OBS_ENCODER_VIDEO \<longrightarrow> video_codec_of cx 0 = CODEC_H264)"

lemma write_data_last:
  assumes "write_data env p st = Some st'" and "codecs_set nv na st" and "fl_output st = cx" and "track_packet env nv na cx p"
  shows "fl_last_packet_ts st' = (if old_style cx p then scast (get_ms_time p (p_dts p)) else fl_last_packet_ts st)"
proof -
  have v: "p_type p = OBS_ENCODER_VIDEO \<Longrightarrow> fl_video_codec st (p_track_idx p) = video_codec_of cx (p_track_idx p)"
    using assms(2-4) by (auto simp: codecs_set_def track_packet_def video_codec_of_def)
  have ms: "get_ms_time (obs_parse_avc_packet b p) (p_dts (obs_parse_avc_packet b p)) = get_ms_time p (p_dts p)" for b
    by (simp add: get_ms_time_def obs_parse_avc_packet_def Let_def split: prod.split)
  show ?thesis
    using assms(1) v
    by (cases "p_type p"; cases "fl_video_codec st (p_track_idx p)")
      (auto simp: write_data_def Let_def mark_first_packet_def old_style_def write_packet_def write_packet_ex_def
        write_audio_packet_ex_def file_append_def ms split: if_splits)
qed

lemma recording_begins:
  assumes "fl_output st0 = cx" and "flv_output_start True True True path st0 = (True, st)"
    and "context_ok cx" and "tracks_ok env nv na cx" and "track_packet env nv na cx p"
  shows "\<exists>st'. flv_output_data env (Some p) st = Some st' \<and>
    recording nv na cx (get_ms_time p (p_dts p)) (header_tags env nv na cx @ [recorded_tag env cx (get_ms_time p (p_dts p)) p]) st' \<and>
    (old_style cx p \<longrightarrow> fl_last_packet_ts st' = scast (get_ms_time p (p_dts p)))"
proof -
  let ?off = "get_ms_time p (p_dts p)"
  have st: "at_end st" "fl_output st = cx" "fl_active st" "\<not> fl_stopping st" "\<not> fl_sent_headers st" "\<not> fl_got_first_packet st"
    "fl_file st = Some \<lparr>f_bytes = [], f_pos = 0\<rparr>"
    using assms(1,2) by (auto simp: flv_output_start_def Let_def at_end_def)
  have na: "0 < na"
    using assms(3) tracks_ok_past(2) [OF assms(4), of 0] by (cases na) (auto simp: context_ok_def obs_encoder_audio_def)
  let ?hs = "header_tags env nv na cx"
  obtain st1 where 1: "write_headers env st = Some st1" "grown (with_codecs nv na st) (flv_file_bytes cx 0 0 (concat (map tag_bytes ?hs))) st1"
    using write_headers_grown [OF st(1,2) assms(3,4)] by blast
  define st2 where "st2 = st1\<lparr>fl_sent_headers := True, fl_start_dts_offset := ?off, fl_got_first_packet := True\<rparr>"
  have k: "fl_got_first_packet st1 = False" "fl_active st1" "\<not> fl_stopping st1" "fl_output st1 = cx" "codecs_set nv na st1"
    using grown_keeps [OF 1(2)] st codecs_set_grown [OF 1(2)] by (auto simp: with_codecs_def codecs_set_def)
  have "recording nv na cx ?off ?hs st2"
    using grown_file [OF 1(2)] k st(7) header_tags_ok [OF assms(4) na]
    by (simp add: recording_def st2_def with_codecs_def codecs_set_def Let_def)
  from recording_step [OF this assms(5)] obtain st' where
    2: "flv_output_data env (Some p) st2 = Some st'" "recording nv na cx ?off (?hs @ [recorded_tag env cx ?off p]) st'" by blast
  have m: "mark_first_packet p (st1\<lparr>fl_sent_headers := True\<rparr>) = st2" "mark_first_packet p st2 = st2"
    using k(1) by (simp_all add: mark_first_packet_def st2_def)
  have "write_data env p (st1\<lparr>fl_sent_headers := True\<rparr>) = write_data env p st2"
    unfolding write_data_def m ..
  moreover have "flv_output_data env (Some p) st2 = write_data env p st2"
    using k by (simp add: flv_output_data_def st2_def)
  ultimately have "flv_output_data env (Some p) st = Some st'"
    using st(3-5) 1(1) 2(1) by (simp add: flv_output_data_def)
  moreover have "write_data env p st2 = Some st'" using 2(1) \<open>flv_output_data env (Some p) st2 = write_data env p st2\<close> by simp
  from write_data_last [OF this _ _ assms(5)] have "old_style cx p \<longrightarrow> fl_last_packet_ts st' = scast ?off"
    using k(4,5) by (simp add: st2_def codecs_set_def)
  ultimately show ?thesis using 2(2) by blast
qed

lemma recording_run_last:
  assumes "recording nv na cx off ts st" and "list_all (track_packet env nv na cx) ps" and "flv_run env ps st = Some st'"
  shows "fl_last_packet_ts st' = (case rev (filter (old_style cx) ps) of
      [] \<Rightarrow> fl_last_packet_ts st | p # _ \<Rightarrow> scast (get_ms_time p (p_dts p)))"
  using assms
proof (induction ps arbitrary: ts st)
  case Nil
  then show ?case by simp
next
  case (Cons p ps)
  have p: "track_packet env nv na cx p" "list_all (track_packet env nv na cx) ps" using Cons.prems(2) by simp_all
  obtain st1 where 1: "flv_output_data env (Some p) st = Some st1"
      "recording nv na cx off (ts @ [recorded_tag env cx off p]) st1"
    using recording_step [OF Cons.prems(1) p(1)] by blast
  have w: "write_data env p st = Some st1" "codecs_set nv na st" "fl_output st = cx"
    using 1(1) Cons.prems(1) by (simp_all add: recording_def flv_output_data_def)
  have l: "fl_last_packet_ts st1 = (if old_style cx p then scast (get_ms_time p (p_dts p)) else fl_last_packet_ts st)"
    by (rule write_data_last [OF w p(1)])
  have "flv_run env ps st1 = Some st'" using Cons.prems(3) 1(1) by simp
  from Cons.IH [OF 1(2) p(2) this] show ?case
    using l by (cases "rev (filter (old_style cx) ps)") auto
qed

section \<open>Closing\<close>

definition footer_tag :: "flv_context \<Rightarrow> nat \<Rightarrow> flv_tag" where
  "footer_tag cx i = video_ex_tag (header_packet OBS_ENCODER_VIDEO False []) (video_codec_of cx i) 0 PACKETTYPE_SEQ_END i"

definition footer_tags :: "nat \<Rightarrow> flv_context \<Rightarrow> flv_tag list" where
  "footer_tags nv cx = map (footer_tag cx) (filter (\<lambda>i. \<not> (i = 0 \<and> video_codec_of cx 0 = CODEC_H264)) [0..<nv])"

lemma footers_grown:
  assumes "at_end st" and "fl_output st = cx" and "tracks_ok env nv na cx" and "codecs_set nv na st" and "k \<le> nv"
  shows "grown st (concat (map tag_bytes (footer_tags k cx)))
    (foldl (\<lambda>st i. if obs_output_get_video_encoder2 (fl_output st) i = None \<or> i = 0 \<and> fl_video_codec st i = CODEC_H264
        then st else write_video_footer i st) st [0..<k])" (is "grown st _ (foldl ?f st [0..<k])")
  using assms(5)
proof (induction k)
  case 0
  then show ?case using grown_refl [OF assms(1)] by (simp add: footer_tags_def)
next
  case (Suc k)
  let ?st = "foldl ?f st [0..<k]"
  have g: "grown st (concat (map tag_bytes (footer_tags k cx))) ?st" using Suc by simp
  have st: "at_end ?st" "fl_output ?st = cx" "codecs_set nv na ?st"
    using grown_at_end [OF g] grown_keeps(1) [OF g] codecs_set_grown [OF g assms(4)] assms(2) by simp_all
  have k: "k < nv" using Suc.prems by simp
  obtain e where e: "fc_video_encoders cx k = Some e" "video_track_ok env e" "k < MAX_OUTPUT_VIDEO_ENCODERS"
    by (rule tracks_ok_video [OF assms(3) k])
  have c: "fl_video_codec ?st k = video_codec_of cx k"
    using st(2,3) Suc.prems by (simp add: codecs_set_def video_codec_of_def)
  have cn: "video_codec_of cx k \<noteq> CODEC_NONE"
    using e by (auto simp: video_codec_of_def track_video_def video_track_ok_def video_config_def split: option.splits)
  have enc: "obs_output_get_video_encoder2 (fl_output ?st) k \<noteq> None"
    using e st(2) by (simp add: obs_output_get_video_encoder2_def)
  have "write_video_footer k ?st = file_append (tag_bytes (footer_tag cx k)) ?st"
    using flv_packet_ex_tag [OF cn, of "header_packet OBS_ENCODER_VIDEO False []" 0 PACKETTYPE_SEQ_END k] c
    by (simp add: write_video_footer_def write_packet_ex_def flv_packet_end_def footer_tag_def)
  then have f: "grown ?st (tag_bytes (footer_tag cx k)) (write_video_footer k ?st)" using grown_file_append [OF st(1)] by simp
  show ?case
  proof (cases "k = 0 \<and> video_codec_of cx 0 = CODEC_H264")
    case True
    then show ?thesis using g c by (simp add: footer_tags_def)
  next
    case False
    then show ?thesis using grown_trans [OF g f] enc c by (auto simp: footer_tags_def)
  qed
qed

lemma write_footers_grown:
  assumes "at_end st" and "fl_output st = cx" and "tracks_ok env nv na cx" and "codecs_set nv na st"
  shows "grown st (concat (map tag_bytes (footer_tags nv cx))) (write_footers st)"
proof -
  let ?f = "\<lambda>st i. if obs_output_get_video_encoder2 (fl_output st) i = None \<or> i = 0 \<and> fl_video_codec st i = CODEC_H264
        then st else write_video_footer i st"
  have g: "grown st (concat (map tag_bytes (footer_tags nv cx))) (foldl ?f st [0..<nv])"
    by (rule footers_grown [OF assms order_refl])
  have "foldl ?f st' xs = st'" if "fl_output st' = cx" "\<forall>x \<in> set xs. nv \<le> x" for st' xs
    using that tracks_ok_past(1) [OF assms(3)] by (induction xs) auto
  moreover have "[0..<MAX_OUTPUT_VIDEO_ENCODERS] = [0..<nv] @ [nv..<MAX_OUTPUT_VIDEO_ENCODERS]"
    using assms(3) upt_add_eq_append [of 0 nv "MAX_OUTPUT_VIDEO_ENCODERS - nv"] by (simp add: tracks_ok_def)
  ultimately show ?thesis
    using g grown_keeps(1) [OF g] assms(2) unfolding write_footers_def by simp
qed

lemma footer_keeps:
  "fl_last_packet_ts (write_footers st) = fl_last_packet_ts st \<and> fl_signals (write_footers st) = fl_signals st \<and>
   fl_active (write_footers st) = fl_active st"
proof -
  have "fl_last_packet_ts (foldl f st xs) = fl_last_packet_ts st \<and> fl_signals (foldl f st xs) = fl_signals st \<and>
      fl_active (foldl f st xs) = fl_active st"
    if f: "f = (\<lambda>st i. if obs_output_get_video_encoder2 (fl_output st) i = None \<or> i = 0 \<and> fl_video_codec st i = CODEC_H264
        then st else write_video_footer i st)" for f xs
    by (induction xs arbitrary: st) (auto simp: f write_video_footer_def write_packet_ex_def file_append_def)
  then show ?thesis unfolding write_footers_def by blast
qed

lemma footer_tags_ok: "list_all tag_ok (footer_tags nv cx)"
  by (auto simp: footer_tags_def list_all_iff footer_tag_def header_packet_def MAX_TAG_DATA_def intro!: tag_ok_video_ex)

lemma recording_closes:
  assumes "recording nv na cx off ts st" and "tracks_ok env nv na cx"
    and "sint (p_sys_dts_usec p) \<ge> sint (stop_ts div 1000)"
  shows "\<exists>st'. flv_output_data env (Some p) (flv_output_stop stop_ts st) = Some st' \<and> \<not> fl_active st' \<and>
    fl_signals st' = fl_signals st @ [End_Data_Capture] \<and>
    (let bs = flv_file_bytes cx 0 0 (concat (map tag_bytes (ts @ footer_tags nv cx)))
     in fl_closed st' = Some (flv_file_bytes cx (double_quotient (sint (fl_last_packet_ts st)) 1000)
          (double_of_int (int (length bs))) (concat (map tag_bytes (ts @ footer_tags nv cx)))))"
proof -
  define s1 where "s1 = (flv_output_stop stop_ts st)\<lparr>fl_active := False\<rparr>"
  let ?old = "flv_file_bytes cx 0 0 (concat (map tag_bytes ts))"
  let ?rest = "concat (map tag_bytes (ts @ footer_tags nv cx))"
  have s1: "at_end s1" "fl_output s1 = cx" "codecs_set nv na s1" "fl_file s1 = Some \<lparr>f_bytes = ?old, f_pos = length ?old\<rparr>"
    using assms(1) by (simp_all add: recording_def at_end_def s1_def flv_output_stop_def codecs_set_def Let_def)
  have g: "grown s1 (concat (map tag_bytes (footer_tags nv cx))) (write_footers s1)"
    by (rule write_footers_grown [OF s1(1,2) assms(2) s1(3)])
  define f where "f = \<lparr>f_bytes = flv_file_bytes cx 0 0 ?rest, f_pos = length (flv_file_bytes cx 0 0 ?rest)\<rparr>"
  have ff: "fl_file (write_footers s1) = Some f"
    using grown_file [OF g s1(4)] by (simp add: f_def flv_file_bytes_def)
  have same: "fl_last_packet_ts (write_footers s1) = fl_last_packet_ts st" "fl_signals (write_footers s1) = fl_signals st"
    "\<not> fl_active (write_footers s1)"
    using footer_keeps [of s1] by (simp_all add: s1_def flv_output_stop_def)
  let ?d = "double_quotient (sint (fl_last_packet_ts st)) 1000" and ?n = "double_of_int (int (length (flv_file_bytes cx 0 0 ?rest)))"
  have fb: "f_bytes f = flv_file_bytes cx 0 0 ?rest" and tell: "os_ftelli64 f = int (length (flv_file_bytes cx 0 0 ?rest))"
    by (simp_all add: f_def os_ftelli64_def)
  obtain pos where w: "write_file_info f (fl_last_packet_ts st) (os_ftelli64 f) = Some \<lparr>f_bytes = flv_file_bytes cx ?d ?n ?rest, f_pos = pos\<rparr>"
    using write_file_info_patches [OF fb] tell by metis
  have "flv_output_data env (Some p) (flv_output_stop stop_ts st) = flv_output_actual_stop 0 (flv_output_stop stop_ts st)"
    using assms(1,3) by (simp add: flv_output_data_def recording_def flv_output_stop_def)
  also have "\<dots> = map_option (\<lambda>st. st\<lparr>fl_signals := fl_signals st @ [End_Data_Capture]\<rparr>) (close_file s1)"
    using s1(4) by (simp add: flv_output_actual_stop_def s1_def [symmetric])
  also have "\<dots> = Some ((write_footers s1)\<lparr>fl_file := Some \<lparr>f_bytes = flv_file_bytes cx ?d ?n ?rest, f_pos = pos\<rparr>,
      fl_closed := Some (flv_file_bytes cx ?d ?n ?rest), fl_signals := fl_signals st @ [End_Data_Capture]\<rparr>)"
    using ff w same by (simp add: close_file_def)
  finally show ?thesis using same(3) by (simp add: Let_def)
qed

end
