(* ===== verification/Flv_File.thy ===== *)
theory Flv_File
  imports Flv_Recording Hevc_Config
begin

text \<open>
  The properties of FLV recordings: what a recording holds while it runs and after it is closed,
  extended tags read back, and two inputs on which the output fails.
\<close>

section \<open>While the recording runs\<close>

lemma read_flv_file:
  assumes "context_ok cx" and "list_all tag_ok ts" and "bs = flv_file_bytes cx d n (concat (map tag_bytes ts))"
  shows "take 13 bs = flv_header" "read_tags (drop 13 bs) = Some (meta_tag cx d n # ts)"
proof -
  have "bs = flv_header @ concat (map tag_bytes (meta_tag cx d n # ts))" using assms(3) by (simp add: flv_file_bytes_def)
  then show "take 13 bs = flv_header" "read_tags (drop 13 bs) = Some (meta_tag cx d n # ts)"
    using read_tags_concat [of "meta_tag cx d n # ts"] assms(2) meta_tag_ok [OF assms(1)] by simp_all
qed

text \<open>The state of a recording after its packets.\<close>

lemma recording_reached:
  assumes "fl_output st0 = cx" and "flv_output_start True True True path st0 = (True, st)" and "context_ok cx"
    and "tracks_ok env nv na cx" and "ps \<noteq> []" and "list_all (track_packet env nv na cx) ps"
  shows "\<exists>st'. flv_run env ps st = Some st' \<and> recording nv na cx (get_ms_time (hd ps) (p_dts (hd ps)))
    (header_tags env nv na cx @ map (recorded_tag env cx (get_ms_time (hd ps) (p_dts (hd ps)))) ps) st'"
proof -
  obtain p qs where ps: "ps = p # qs" using assms(5) by (cases ps) auto
  have ok: "track_packet env nv na cx p" "list_all (track_packet env nv na cx) qs" using assms(6) ps by simp_all
  let ?off = "get_ms_time p (p_dts p)"
  obtain st1 where 1: "flv_output_data env (Some p) st = Some st1"
      "recording nv na cx ?off (header_tags env nv na cx @ [recorded_tag env cx ?off p]) st1"
    using recording_begins [OF assms(1-4) ok(1)] by blast
  obtain st' where "flv_run env qs st1 = Some st'"
      "recording nv na cx ?off ((header_tags env nv na cx @ [recorded_tag env cx ?off p]) @ map (recorded_tag env cx ?off) qs) st'"
    using recording_run [OF 1(2) ok(2)] by blast
  then show ?thesis using 1(1) ps by auto
qed

lemma recorded_last:
  assumes "fl_output st0 = cx" and "flv_output_start True True True path st0 = (True, st)" and "context_ok cx"
    and "tracks_ok env nv na cx" and "ps \<noteq> []" and "list_all (track_packet env nv na cx) ps"
    and "flv_run env ps st = Some st'" and "rev (filter (old_style cx) ps) = q # qs"
  shows "fl_last_packet_ts st' = scast (get_ms_time q (p_dts q))"
proof -
  obtain p rs where ps: "ps = p # rs" using assms(5) by (cases ps) auto
  have ok: "track_packet env nv na cx p" "list_all (track_packet env nv na cx) rs" using assms(6) ps by simp_all
  obtain st1 where 1: "flv_output_data env (Some p) st = Some st1"
      "recording nv na cx (get_ms_time p (p_dts p)) (header_tags env nv na cx @ [recorded_tag env cx (get_ms_time p (p_dts p)) p]) st1"
      "old_style cx p \<Longrightarrow> fl_last_packet_ts st1 = scast (get_ms_time p (p_dts p))"
    using recording_begins [OF assms(1-4) ok(1)] by blast
  have "flv_run env rs st1 = Some st'" using assms(7) ps 1(1) by simp
  from recording_run_last [OF 1(2) ok(2) this] show ?thesis
    using assms(8) ps 1(3) by (cases "rev (filter (old_style cx) rs)") (auto split: if_splits)
qed

text \<open>
  C36.  At every moment of an FLV recording with any number of tracks the file is the FLV header, the
  meta data, the sequence headers of all tracks, and one tag per packet, in the order in which the
  packets came, with times relative to the first.
\<close>

theorem flv_recording_tags:
  assumes "fl_output st0 = cx" and "flv_output_start True True True path st0 = (True, st)" and "context_ok cx"
    and "tracks_ok env nv na cx" and "ps \<noteq> []" and "list_all (track_packet env nv na cx) ps"
  shows "\<exists>st' f. flv_run env ps st = Some st' \<and> fl_file st' = Some f \<and> take 13 (f_bytes f) = flv_header \<and>
    read_tags (drop 13 (f_bytes f)) = Some (meta_tag cx 0 0 # header_tags env nv na cx @
      map (recorded_tag env cx (get_ms_time (hd ps) (p_dts (hd ps)))) ps)"
proof -
  define ts where "ts = header_tags env nv na cx @ map (recorded_tag env cx (get_ms_time (hd ps) (p_dts (hd ps)))) ps"
  define bs where "bs = flv_file_bytes cx 0 0 (concat (map tag_bytes ts))"
  obtain st' where st': "flv_run env ps st = Some st'" "recording nv na cx (get_ms_time (hd ps) (p_dts (hd ps))) ts st'"
    using recording_reached [OF assms] unfolding ts_def by blast
  then have "list_all tag_ok ts" "fl_file st' = Some \<lparr>f_bytes = bs, f_pos = length bs\<rparr>"
    by (simp_all add: recording_def bs_def Let_def)
  with st'(1) read_flv_file [OF assms(3) this(1) bs_def] show ?thesis unfolding ts_def by force
qed

text \<open>An example: an H.264 and an AAC encoder that know their headers.\<close>

definition av_encoder :: "nat \<Rightarrow> obs_encoder_type \<Rightarrow> string \<Rightarrow> byte list \<Rightarrow> obs_encoder" where
  "av_encoder ptr type codec extra = \<lparr>e_ptr = ptr, e_type = type, e_codec = codec, e_id = codec, e_name = codec,
     e_extra_data = Some extra, e_settings = \<lparr>set_int = (\<lambda>_. 0), set_double = (\<lambda>_. double_of_int 160), set_json = ''{}''\<rparr>,
     e_scaled_width = 0, e_scaled_height = 0, e_samplerate = 48000, e_framesize = 1024,
     e_video = Some \<lparr>vo_format = VIDEO_FORMAT_NV12, vo_fps_num = 30, vo_fps_den = 1, vo_width = 1920, vo_height = 1080,
       vo_colorspace = VIDEO_CS_709, vo_range = VIDEO_RANGE_PARTIAL\<rparr>,
     e_fps_override = None, e_audio = Some \<lparr>au_samples_per_sec = 48000, au_speakers = SPEAKERS_STEREO\<rparr>\<rparr>"

definition flv_example :: flv_context where
  "flv_example = \<lparr>fc_video_encoders = (\<lambda>i. if i = 0 then Some (av_encoder 1 OBS_ENCODER_VIDEO ''h264'' [1, 0x64, 0, 0x1F, 0xFF, 0xE1, 0, 0]) else None),
     fc_audio_encoders = (\<lambda>i. if i = 0 then Some (av_encoder 2 OBS_ENCODER_AUDIO ''aac'' [0x11, 0x90]) else None),
     fc_version = ''31.0''\<rparr>"

definition flv_example_env :: flv_env where
  "flv_example_env = \<lparr>fe_addr = (\<lambda>_. 0), fe_hdr_peak = 1000\<rparr>"

definition aac_packet :: "s64 \<Rightarrow> encoder_packet" where
  "aac_packet ts = (header_packet OBS_ENCODER_AUDIO False [0x21, 0x10, 0x04])\<lparr>p_pts := ts, p_dts := ts, p_timebase_den := 48000\<rparr>"

lemma flv_example_ok:
  "context_ok flv_example" "tracks_ok flv_example_env 1 1 flv_example" "track_packet flv_example_env 1 1 flv_example (aac_packet ts)"
proof -
  show "context_ok flv_example"
    by (simp add: context_ok_def obs_output_get_video_encoder_def first_index_def upt_rec MAX_OUTPUT_VIDEO_ENCODERS_def flv_example_def
        obs_output_get_video_encoder2_def obs_output_get_audio_encoder_def MAX_OUTPUT_AUDIO_ENCODERS_def obs_encoder_audio_def
        av_encoder_def)
  show "tracks_ok flv_example_env 1 1 flv_example"
    by (auto simp: tracks_ok_def flv_example_def MAX_OUTPUT_VIDEO_ENCODERS_def MAX_OUTPUT_AUDIO_ENCODERS_def video_track_ok_def
        audio_track_ok_def av_encoder_def obs_encoder_video_def video_config_def to_video_type_def obs_parse_avc_header_def
        Avc.has_start_code_def fits_def MAX_TAG_DATA_def)
  show "track_packet flv_example_env 1 1 flv_example (aac_packet ts)"
    by (simp add: track_packet_def packet_ok_def parsed_packet_def aac_packet_def header_packet_def MAX_TAG_DATA_def)
qed

lemma flv_example_start:
  "flv_output_start True True True ''a.flv'' (flv_output_create flv_example) =
    (True, snd (flv_output_start True True True ''a.flv'' (flv_output_create flv_example)))"
  "fl_output (flv_output_create flv_example) = flv_example"
  by (simp_all add: flv_output_start_def flv_output_create_def Let_def)

theorem flv_recording_tags_witness:
  "\<exists>st' f. flv_run flv_example_env [aac_packet 0, aac_packet 1024]
      (snd (flv_output_start True True True ''a.flv'' (flv_output_create flv_example))) = Some st' \<and> fl_file st' = Some f \<and>
    take 13 (f_bytes f) = flv_header \<and>
    read_tags (drop 13 (f_bytes f)) = Some (meta_tag flv_example 0 0 # header_tags flv_example_env 1 1 flv_example @
      map (recorded_tag flv_example_env flv_example (get_ms_time (aac_packet 0) (p_dts (aac_packet 0)))) [aac_packet 0, aac_packet 1024])"
  using flv_recording_tags [OF flv_example_start(2,1) flv_example_ok(1,2), of "[aac_packet 0, aac_packet 1024]"] flv_example_ok(3)
  by simp

section \<open>After it is closed\<close>

text \<open>
  C37.  Stopping an FLV recording closes it with the end-of-sequence tags of its video tracks, and the
  meta data then hold the exact size of the file and as duration the time stamp of the last packet
  that was written in the old style.
\<close>

theorem flv_recording_closed:
  assumes "fl_output st0 = cx" and "flv_output_start True True True path st0 = (True, st)" and "context_ok cx"
    and "tracks_ok env nv na cx" and "ps \<noteq> []" and "list_all (track_packet env nv na cx) ps"
    and "sint (p_sys_dts_usec p) \<ge> sint (ts div 1000)"
  shows "\<exists>st' st'' bs. flv_run env ps st = Some st' \<and> flv_output_data env (Some p) (flv_output_stop ts st') = Some st'' \<and>
    \<not> fl_active st'' \<and> fl_signals st'' = fl_signals st' @ [End_Data_Capture] \<and> fl_closed st'' = Some bs \<and> take 13 bs = flv_header \<and>
    read_tags (drop 13 bs) = Some (meta_tag cx (double_quotient (sint (fl_last_packet_ts st')) 1000) (double_of_int (int (length bs))) #
      header_tags env nv na cx @ map (recorded_tag env cx (get_ms_time (hd ps) (p_dts (hd ps)))) ps @ footer_tags nv cx) \<and>
    (\<forall>q qs. rev (filter (old_style cx) ps) = q # qs \<longrightarrow> fl_last_packet_ts st' = scast (get_ms_time q (p_dts q)))"
proof -
  let ?off = "get_ms_time (hd ps) (p_dts (hd ps))"
  let ?ts = "header_tags env nv na cx @ map (recorded_tag env cx ?off) ps"
  obtain st' where st': "flv_run env ps st = Some st'" "recording nv na cx ?off ?ts st'"
    using recording_reached [OF assms(1-6)] by blast
  define bs0 where "bs0 = flv_file_bytes cx 0 0 (concat (map tag_bytes (?ts @ footer_tags nv cx)))"
  define bs where "bs = flv_file_bytes cx (double_quotient (sint (fl_last_packet_ts st')) 1000) (double_of_int (int (length bs0)))
    (concat (map tag_bytes (?ts @ footer_tags nv cx)))"
  obtain st'' where c: "flv_output_data env (Some p) (flv_output_stop ts st') = Some st''" "\<not> fl_active st''"
      "fl_signals st'' = fl_signals st' @ [End_Data_Capture]" "fl_closed st'' = Some bs"
    using recording_closes [OF st'(2) assms(4,7)] unfolding Let_def bs_def bs0_def by blast
  have len: "length bs0 = length bs" by (simp add: bs_def bs0_def flv_file_bytes_def meta_tag_def meta_bytes_def)
  have ok: "list_all tag_ok (?ts @ footer_tags nv cx)"
    using st'(2) footer_tags_ok by (simp add: recording_def)
  note r = read_flv_file [OF assms(3) ok bs_def]
  have "fl_last_packet_ts st' = scast (get_ms_time q (p_dts q))" if f: "rev (filter (old_style cx) ps) = q # qs" for q qs
    by (rule recorded_last [OF assms(1-6) st'(1) f])
  then show ?thesis using st'(1) c r unfolding len by auto
qed

theorem flv_recording_closed_witness:
  "\<exists>st' st'' bs. flv_run flv_example_env [aac_packet 0, aac_packet 1024]
      (snd (flv_output_start True True True ''a.flv'' (flv_output_create flv_example))) = Some st' \<and>
    flv_output_data flv_example_env (Some (aac_packet 2048)) (flv_output_stop 0 st') = Some st'' \<and>
    \<not> fl_active st'' \<and> fl_signals st'' = fl_signals st' @ [End_Data_Capture] \<and> fl_closed st'' = Some bs \<and> take 13 bs = flv_header \<and>
    read_tags (drop 13 bs) = Some (meta_tag flv_example (double_quotient (sint (fl_last_packet_ts st')) 1000) (double_of_int (int (length bs))) #
      header_tags flv_example_env 1 1 flv_example @
      map (recorded_tag flv_example_env flv_example (get_ms_time (aac_packet 0) (p_dts (aac_packet 0)))) [aac_packet 0, aac_packet 1024] @
      footer_tags 1 flv_example) \<and>
    (\<forall>q qs. rev (filter (old_style flv_example) [aac_packet 0, aac_packet 1024]) = q # qs \<longrightarrow>
      fl_last_packet_ts st' = scast (get_ms_time q (p_dts q)))"
  using flv_recording_closed [OF flv_example_start(2,1) flv_example_ok(1,2), of "[aac_packet 0, aac_packet 1024]" 0 "aac_packet 2048"]
    flv_example_ok(3) by (simp add: aac_packet_def header_packet_def)

section \<open>Extended tags read back\<close>

record video_frame =
  vf_key :: bool
  vf_kind :: byte
  vf_fourcc :: "byte list"
  vf_track :: nat
  vf_offset :: nat
  vf_data :: "byte list"

text \<open>A reader of the body of an extended video tag with one track; the composition time offset has 24 bits.\<close>

definition read_video_ex :: "byte list \<Rightarrow> video_frame option" where
  "read_video_ex bs = (case bs of
      [] \<Rightarrow> None
    | b # r \<Rightarrow>
        if b AND 0x80 = 0 then None
        else
          (let (kind, fourcc, track, rest) =
                 (if b AND 0x0F = PACKETTYPE_MULTITRACK then (r ! 0 AND 0x0F, take 4 (drop 1 r), unat (r ! 5), drop 6 r)
                  else (b AND 0x0F, take 4 r, 0, drop 4 r));
               offset = (kind = PACKETTYPE_FRAMES \<and> fourcc \<in> {bytes_of_string ''avc1'', bytes_of_string ''hvc1''})
           in Some \<lparr>vf_key = (drop_bit 4 b AND 7 = 1), vf_kind = kind, vf_fourcc = fourcc, vf_track = track,
                vf_offset = (if offset then from_be (take 3 rest) else 0), vf_data = (if offset then drop 3 rest else rest)\<rparr>))"

lemmas ex_consts = FRAME_HEADER_EX_def PACKETTYPE_MULTITRACK_def FT_KEY_def FT_INTER_def PACKETTYPE_FRAMES_def
  PACKETTYPE_FRAMESX_def MULTITRACKTYPE_ONE_TRACK_def

lemma video_fourcc_offset:
  "c \<noteq> CODEC_NONE \<Longrightarrow> video_fourcc c \<in> {bytes_of_string ''avc1'', bytes_of_string ''hvc1''} \<longleftrightarrow> c = CODEC_H264 \<or> c = CODEC_HEVC"
  by (cases c) (auto simp: video_fourcc_def bytes_of_string_def)

lemma read_video_ex_body:
  assumes "c \<noteq> CODEC_NONE" and "idx < 256" and "kind = PACKETTYPE_FRAMES \<or> kind = PACKETTYPE_FRAMESX"
  shows "read_video_ex (video_ex_body p c kind idx) = Some \<lparr>vf_key = p_keyframe p, vf_kind = kind, vf_fourcc = video_fourcc c,
    vf_track = idx, vf_offset = (if has_ct_offset c kind then from_be (ct_offset p) else 0), vf_data = p_data p\<rparr>"
proof -
  have off: "kind = PACKETTYPE_FRAMES \<and> video_fourcc c \<in> {bytes_of_string ''avc1'', bytes_of_string ''hvc1''} \<longleftrightarrow> has_ct_offset c kind"
    using video_fourcc_offset [OF assms(1)] by (auto simp: has_ct_offset_def)
  have ct: "length (ct_offset p) = 3" by (simp add: ct_offset_def)
  have k: "(FRAME_HEADER_EX OR kind OR video_frame_type p) AND 0x0F = kind" "kind AND 0x0F = kind"
      "(FRAME_HEADER_EX OR kind OR video_frame_type p) AND 0x80 \<noteq> 0" "kind \<noteq> PACKETTYPE_MULTITRACK"
      "drop_bit 4 (FRAME_HEADER_EX OR kind OR video_frame_type p) AND 7 = 1 \<longleftrightarrow> p_keyframe p"
    using assms(3) by (auto simp: ex_consts video_frame_type_def drop_bit_eq_div)
  have m: "(FRAME_HEADER_EX OR PACKETTYPE_MULTITRACK OR video_frame_type p) AND 0x0F = PACKETTYPE_MULTITRACK"
      "(FRAME_HEADER_EX OR PACKETTYPE_MULTITRACK OR video_frame_type p) AND 0x80 \<noteq> 0"
      "drop_bit 4 (FRAME_HEADER_EX OR PACKETTYPE_MULTITRACK OR video_frame_type p) AND 7 = 1 \<longleftrightarrow> p_keyframe p"
      "(MULTITRACKTYPE_ONE_TRACK OR kind) AND 0x0F = kind"
    using assms(3) by (auto simp: ex_consts video_frame_type_def drop_bit_eq_div)
  have tr: "unat (word_of_nat idx :: u8) = idx" using assms(2) by (simp add: unat_of_nat)
  note l = length_video_fourcc [OF assms(1)]
  show ?thesis
  proof (cases "idx > 0")
    case True
    then show ?thesis
      unfolding video_ex_body_def off [symmetric] read_video_ex_def using l ct
      by (simp add: m m(3) [unfolded drop_bit_or] tr nth_append nth_Cons' split del: if_split cong: if_cong)
  next
    case False
    then show ?thesis
      unfolding video_ex_body_def off [symmetric] read_video_ex_def using l ct
      by (simp add: k k(5) [unfolded drop_bit_or] split del: if_split cong: if_cong)
  qed
qed

text \<open>
  C38.  A frame of any codec on any of 256 tracks, written as an extended tag, reads back: one tag with
  the time of the packet, whose body has the key frame flag, codec, track, composition time offset and
  data.  Where the tag leaves the offset out, it is zero.
\<close>

theorem flv_frames_read_back:
  assumes "c \<noteq> CODEC_NONE" and "idx < 256" and "length (p_data p) < MAX_TAG_DATA"
  shows "\<exists>t. read_tags (flv_packet_frames p c off idx) = Some [t] \<and> tag_type t = RTMP_PACKET_TYPE_VIDEO \<and>
    tag_time t = packet_time p off \<and>
    read_video_ex (tag_body t) = Some \<lparr>vf_key = p_keyframe p, vf_kind = frames_type c p, vf_fourcc = video_fourcc c, vf_track = idx,
      vf_offset = (if c = CODEC_AV1 then 0
        else unat (get_ms_time p (p_pts p) - get_ms_time p (p_dts p)) mod 2 ^ 24), vf_data = p_data p\<rparr>"
proof -
  let ?t = "video_ex_tag p c off (frames_type c p) idx"
  have "flv_packet_frames p c off idx = tag_bytes ?t"
    using flv_packet_ex_tag [OF assms(1)] by (simp add: flv_packet_frames_def frames_type_def Let_def)
  then have r: "read_tags (flv_packet_frames p c off idx) = Some [?t]"
    using read_tags_tag [OF tag_ok_video_ex [OF assms(3)], where rest = "[]"] by simp
  have k: "frames_type c p = PACKETTYPE_FRAMES \<or> frames_type c p = PACKETTYPE_FRAMESX" by (simp add: frames_type_def)
  have "(if has_ct_offset c (frames_type c p) then from_be (ct_offset p) else 0) =
      (if c = CODEC_AV1 then 0 else unat (get_ms_time p (p_pts p) - get_ms_time p (p_dts p)) mod 2 ^ 24)"
    using assms(1) by (cases c) (auto simp: has_ct_offset_def frames_type_def ct_offset_def from_be_be24 ex_consts)
  then have "read_video_ex (tag_body ?t) = Some \<lparr>vf_key = p_keyframe p, vf_kind = frames_type c p, vf_fourcc = video_fourcc c,
      vf_track = idx, vf_offset = (if c = CODEC_AV1 then 0
        else unat (get_ms_time p (p_pts p) - get_ms_time p (p_dts p)) mod 2 ^ 24), vf_data = p_data p\<rparr>"
    using read_video_ex_body [OF assms(1,2) k] by (simp add: video_ex_tag_def)
  then show ?thesis using r by (intro exI [of _ ?t]) (simp add: video_ex_tag_def)
qed

theorem flv_frames_read_back_witness:
  "\<exists>t. read_tags (flv_packet_frames (aac_packet 480) CODEC_HEVC 0 2) = Some [t] \<and> tag_type t = RTMP_PACKET_TYPE_VIDEO \<and>
    tag_time t = packet_time (aac_packet 480) 0 \<and>
    read_video_ex (tag_body t) = Some \<lparr>vf_key = False, vf_kind = PACKETTYPE_FRAMESX, vf_fourcc = video_fourcc CODEC_HEVC, vf_track = 2,
      vf_offset = 0, vf_data = [0x21, 0x10, 0x04]\<rparr>"
  using flv_frames_read_back [of CODEC_HEVC 2 "aac_packet 480" 0]
  by (simp add: aac_packet_def header_packet_def MAX_TAG_DATA_def frames_type_def)

section \<open>Failures\<close>

text \<open>
  C39.  When an HEVC encoder's extra data lack a parameter set, the parser returns a size without a
  header; the output then writes a sequence header that announces bytes that are not there, and the
  file cannot be read past it.
\<close>

theorem flv_hevc_header_unreadable:
  assumes "at_end st" and "obs_output_get_video_encoder2 (fl_output st) idx = Some e" and "e_extra_data e = Some h"
    and "fl_video_codec st idx = CODEC_HEVC" and "obs_parse_hevc_header (fe_addr env h) h = Some (None, sz)"
    and "0 < sz" and "sz < MAX_TAG_DATA"
  shows "\<exists>st' bs. write_video_header env idx st = Some (True, st') \<and> grown st bs st' \<and> read_tags bs = None"
proof -
  let ?p = "header_packet OBS_ENCODER_VIDEO True []" and ?k = "if idx > 0 then 7 else 5 :: nat"
  let ?bs = "flv_packet_start ?p sz CODEC_HEVC idx"
  have w: "write_video_header env idx st = Some (True, write_packet_ex ?p sz True False idx st)"
    using assms(2-5) by (simp add: write_video_header_def obs_encoder_get_extra_data_def Let_def)
  have g: "grown st ?bs (write_packet_ex ?p sz True False idx st)"
    using grown_file_append [OF assms(1)] assms(4) by (simp add: write_packet_ex_def)
  have nf: "\<not> has_ct_offset CODEC_HEVC PACKETTYPE_SEQ_START" by (simp add: has_ct_offset_def ex_consts PACKETTYPE_SEQ_START_def)
  define body where "body = video_ex_body ?p CODEC_HEVC PACKETTYPE_SEQ_START idx"
  have lb: "length body = ?k"
    using length_video_fourcc [of CODEC_HEVC] nf by (simp add: body_def video_ex_body_def header_packet_def)
  have "?bs = RTMP_PACKET_TYPE_VIDEO # be24 (word_of_nat (sz + ?k)) @ be24 0 @ [0] @ be24 0 @ body @ be32 (word_of_nat (11 + ?k))"
    unfolding flv_packet_start_def flv_packet_ex_def Let_def body_def video_ex_body_def
    by (rule trans, rule array_output_writes, (rule ex_steps)+)
      (simp add: nf header_packet_def get_ms_time_def s64_div_def trunc_div_def video_frame_type_def length_video_fourcc add.commute)
  then have b: "take 3 (drop 1 ?bs) = be24 (word_of_nat (sz + ?k))" "length ?bs = 15 + ?k" "?bs \<noteq> []" using lb by simp_all
  have "from_be (take 3 (drop 1 ?bs)) = sz + ?k"
    unfolding b(1) using assms(7) by (intro from_be_be24_of_nat) (simp add: MAX_TAG_DATA_def)
  then have "read_tags ?bs = None"
    unfolding read_tags.simps [of ?bs] using b(2,3) assms(6) by simp
  then show ?thesis using w g by blast
qed

definition hevc_sei_only :: "byte list" where
  "hevc_sei_only = annexb [([0, 0, 0, 1], [0x26, 1, 9])]"

definition hevc_example :: flv_output where
  "hevc_example = (flv_output_create (flv_example\<lparr>fc_video_encoders := (\<lambda>i. if i = 0
     then Some (av_encoder 1 OBS_ENCODER_VIDEO ''hevc'' hevc_sei_only) else None)\<rparr>))
     \<lparr>fl_file := Some \<lparr>f_bytes = flv_header, f_pos = 13\<rparr>, fl_video_codec := (\<lambda>_. CODEC_HEVC)\<rparr>"

lemma hevc_sei_only_parsed: "obs_parse_hevc_header 0 hevc_sei_only = Some (None, 7)"
proof -
  let ?us = "[([0, 0, 0, 1], [0x26, 1, 9])] :: (byte list \<times> byte list) list"
  have hs: "header_stream ?us"
    by (simp add: header_stream_def start_code_def Rtmp_Hevc.has_start_code_def unit_ok_def is_startcode_def)
  have "hvcc_scan [0, 0, 0, 3, 0x26, 1, 9] hvcc_init = Some (Some hvcc_init)"
    by (simp add: hvcc_scan.simps [of "_ # _"] hvcc_scan.simps [of "[]"] rb32_def array_idx_to_type_def hevc_types drop_bit_eq_div)
  moreover have "\<not> hvcc_complete (hvcc_adjust hvcc_init)"
    by (simp add: hvcc_complete_def hvcc_adjust_def hvcc_init_def)
  ultimately show ?thesis
    unfolding hevc_sei_only_def obs_parse_hevc_header_stream [OF hs] by (simp add: length_prefixed_def be32_def be16_def)
qed

theorem flv_hevc_header_unreadable_witness:
  "\<exists>st' bs. write_video_header flv_example_env 0 hevc_example = Some (True, st') \<and> grown hevc_example bs st' \<and> read_tags bs = None"
proof (rule flv_hevc_header_unreadable)
  show "at_end hevc_example" by (simp add: at_end_def hevc_example_def flv_output_create_def)
  show "obs_output_get_video_encoder2 (fl_output hevc_example) 0 = Some (av_encoder 1 OBS_ENCODER_VIDEO ''hevc'' hevc_sei_only)"
    by (simp add: hevc_example_def flv_output_create_def obs_output_get_video_encoder2_def MAX_OUTPUT_VIDEO_ENCODERS_def)
  show "e_extra_data (av_encoder 1 OBS_ENCODER_VIDEO ''hevc'' hevc_sei_only) = Some hevc_sei_only" by (simp add: av_encoder_def)
  show "fl_video_codec hevc_example 0 = CODEC_HEVC" by (simp add: hevc_example_def)
  show "obs_parse_hevc_header (fe_addr flv_example_env hevc_sei_only) hevc_sei_only = Some (None, 7)"
    by (simp add: flv_example_env_def hevc_sei_only_parsed)
qed (simp_all add: MAX_TAG_DATA_def)

text \<open>An empty audio packet on a further track frees a pointer that was never set.\<close>

lemma flv_empty_audio_undefined:
  "fl_active st \<Longrightarrow> fl_sent_headers st \<Longrightarrow> \<not> fl_stopping st \<Longrightarrow> p_type p = OBS_ENCODER_AUDIO \<Longrightarrow> p_track_idx p \<noteq> 0 \<Longrightarrow>
    p_data p = [] \<Longrightarrow> flv_output_data env (Some p) st = None"
  by (simp add: flv_output_data_def write_data_def Let_def write_audio_packet_ex_def flv_packet_audio_frames_def
      flv_packet_audio_ex_def)

end
