(* ===== verification/Interleave_Flv.thy ===== *)
theory Interleave_Flv
  imports Interleave_Time Flv_File
begin

text \<open>
  The interleaver in front of the FLV output: every packet that leaves the interleaver carries the
  decode time its \<open>dts\<close> and time base say, so the order that the interleaver keeps in microseconds
  becomes an order of the milliseconds in the file.
\<close>

section \<open>Sent packets are stamped\<close>

definition stamped :: "s32 \<Rightarrow> s32 \<Rightarrow> encoder_packet \<Rightarrow> bool" where
  "stamped dv da p \<longleftrightarrow> p_dts_usec p = packet_dts_usec p \<and> p_timebase_den p \<in> {dv, da}"

definition all_stamped :: "s32 \<Rightarrow> s32 \<Rightarrow> obs_output \<Rightarrow> bool" where
  "all_stamped dv da out \<longleftrightarrow> (\<forall>x \<in> set (sent_packets out). stamped dv da (fst x)) \<and>
     (started out \<longrightarrow> (\<forall>p \<in> set (interleaved_packets out). stamped dv da p)) \<and>
     (\<forall>p \<in> set (interleaved_packets out). p_timebase_den p \<in> {dv, da})"

lemma stamped_offset: "p_timebase_den p \<in> {dv, da} \<Longrightarrow> stamped dv da (apply_interleaved_packet_offset out p)"
  by (simp add: stamped_def apply_interleaved_packet_offset_def packet_dts_usec_def Let_def)

lemma stamped_stamp: "stamp q = stamp p \<Longrightarrow> stamped dv da q = stamped dv da p"
proof -
  assume "stamp q = stamp p"
  then have "q = p\<lparr>p_data := p_data q\<rparr>" by (cases p; cases q) (simp add: stamp_def)
  then show ?thesis by (metis (no_types, lifting) encoder_packet.select_convs encoder_packet.surjective encoder_packet.update_convs(1)
        packet_dts_usec_def stamped_def)
qed

lemma send_stamped:
  assumes "send_interleaved cap out = Some out'" and "all_stamped dv da out" and "started out" and "keeps_stamps cap"
  shows "all_stamped dv da out'" "started out'"
proof -
  obtain p t where o': "interleaved_packets out = p # interleaved_packets out'"
    "sent_packets out' = sent_packets out @ [(if p_type p = OBS_ENCODER_VIDEO then cap (length (sent_packets out)) p else p, t)]"
    using assms(1) by (rule send_interleaved_Some)
  have "started out'" using send_forwards [OF assms(1)] assms(3) same_tracks_received by (metis forwards_def)
  moreover have "stamped dv da (cap n p)" "stamped dv da p" for n
    using assms(2-4) o'(1) stamped_stamp [of "cap n p" p] by (simp_all add: all_stamped_def keeps_stamps_def)
  ultimately show "all_stamped dv da out'" "started out'" using assms(2,3) o' by (auto simp: all_stamped_def)
qed

lemma stream_stamped:
  assumes "stream_packets cap out = Some out'" and "all_stamped dv da out" and "started out" and "keeps_stamps cap"
  shows "all_stamped dv da out'"
  using assms send_stamped by (auto simp: stream_packets_def Let_def split: if_splits option.splits)

lemma quiet_subset: "quiet out out' \<Longrightarrow> set (interleaved_packets out') \<subseteq> set (interleaved_packets out)"
  by (auto simp: quiet_def dest: in_set_dropD)

lemma quiet_stamped:
  assumes "quiet out out'" and "all_stamped dv da out" and "started out' \<longrightarrow> started out"
  shows "all_stamped dv da out'"
proof -
  have "set (interleaved_packets out') \<subseteq> set (interleaved_packets out)" "sent_packets out' = sent_packets out"
    using assms(1) quiet_subset by (auto simp: quiet_def)
  then show ?thesis using assms(2,3) by (auto simp: all_stamped_def)
qed

lemma quiet_unstamped:
  assumes "quiet out out'" and "\<forall>x \<in> set (sent_packets out). stamped dv da (fst x)"
    and "\<forall>p \<in> set (interleaved_packets out). p_timebase_den p \<in> {dv, da}" and "unstarted out'"
  shows "all_stamped dv da out'"
proof -
  have "set (interleaved_packets out') \<subseteq> set (interleaved_packets out)" "sent_packets out' = sent_packets out"
    using assms(1) quiet_subset by (auto simp: quiet_def)
  then show ?thesis using assms(2-4) by (auto simp: all_stamped_def unstarted_def)
qed

lemma start_stamped:
  assumes c: "collecting a dv da rs out" and st: "started out" and hv: "has_video out"
    and s: "start_interleaving cap out = Some out'" and cap: "keeps_stamps cap"
    and sent: "\<forall>x \<in> set (sent_packets out). stamped dv da (fst x)"
    and den: "\<forall>p \<in> set (interleaved_packets out). p_timebase_den p \<in> {dv, da}"
  shows "all_stamped dv da out'"
proof -
  obtain b out1 where p: "prune_interleaved_packets out = Some (b, out1)"
    using s by (auto simp: start_interleaving_def split: option.splits)
  note c1 = quiet_collecting [OF c quiet_prune [OF p]]
  show ?thesis
  proof (cases b)
    case False
    then show ?thesis
      using s p prune_unstarted [OF c hv] quiet_unstamped [OF quiet_prune [OF p] sent den] by (auto simp: start_interleaving_def)
  next
    case True
    obtain ready out2 where i: "initialize_interleaved_packets out1 = Some (ready, out2)"
      using s p True by (auto simp: start_interleaving_def split: option.splits)
    show ?thesis
    proof (cases ready)
      case False
      then show ?thesis
        using s p i True initialize_unstarted [OF c1]
          quiet_unstamped [OF quiet_trans [OF quiet_prune [OF p] initialize_False] sent den]
        by (auto simp: start_interleaving_def)
    next
      case ready: True
      then have "initialize_interleaved_packets out1 = Some (True, out2)" using i by simp
      then obtain out3 k where o3: "quiet out1 out3" "shift_packets k out3 = Some out2" "received_audio out3 = received_audio out1"
          "received_video out3 = received_video out1" by (rule initialize_True)
      let ?o = "apply_ept_offsets (resort_interleaved_packets out2)"
      have q: "quiet out out3" by (rule quiet_trans [OF quiet_prune [OF p] o3(1)])
      then have d3: "\<forall>p \<in> set (interleaved_packets out3). p_timebase_den p \<in> {dv, da}" and s3: "sent_packets out3 = sent_packets out"
        using den quiet_subset [OF q] by (auto simp: quiet_def)
      note sh = shift_packets_Some [OF o3(2)]
      have "set (interleaved_packets ?o) = set (interleaved_packets out2)"
        using resort_fields(2) [of out2] by (metis apply_ept_fields(1) set_mset_mset)
      moreover have "\<forall>p \<in> set (interleaved_packets out2). stamped dv da p"
        unfolding sh(1) using d3 stamped_offset by auto
      ultimately have "all_stamped dv da ?o"
        using sent s3 sh(2) resort_fields(3) by (auto simp: all_stamped_def stamped_def)
      moreover have "started ?o"
      proof -
        have "prune_interleaved_packets out = Some (True, out1)" using p True by simp
        note fl = prune_flags [OF this]
        have "same_tracks out out3" using q by (simp add: quiet_def)
        then have "same_tracks out ?o"
          using sh(3) resort_fields(8) [of out2] apply_ept_fields(9) [of "resort_interleaved_packets out2"] same_tracks_trans by blast
        then show ?thesis using st same_tracks_received [of out ?o] sh(4,5) o3(3,4) fl resort_fields(4,5) by simp
      qed
      moreover have "send_interleaved cap ?o = Some out'" using s p i True ready by (simp add: start_interleaving_def)
      ultimately show ?thesis using send_stamped(1) cap by blast
    qed
  qed
qed

lemma queued_started: "started out \<Longrightarrow> started (queued p t out)"
  by (simp add: queued_def Let_def started_def all_video_received_def) (simp add: insert_interleaved_packet_def)

lemma interleave_stamped:
  assumes r: "running a dv da (tracked out p # rs) out" and i: "interleave_packets cap p t out = Some out'"
    and k: "known_packet out p" and cap: "keeps_stamps cap" and s: "all_stamped dv da out" and d: "timed dv da p"
  shows "all_stamped dv da out'"
proof -
  let ?r = "tracked out p"
  have den: "p_timebase_den ?r \<in> {dv, da}" using d by (simp add: tracked_def timed_def)
  have act: "output_active out" using r by (auto simp: running_def collecting_def streaming_def)
  show ?thesis
  proof (cases "waiting_for_keyframe out ?r")
    case True
    then have o': "out' = discard_unused_audio_packets out (p_dts_usec ?r)"
      using i act by (simp add: interleave_packets_cases Let_def)
    have "started out' = started out"
      using o' same_tracks_received [of out out'] quiet_discard_unused [of out "p_dts_usec ?r"]
      by (simp add: quiet_def discard_unused_audio_packets_def Let_def)
    then show ?thesis using quiet_stamped [OF quiet_discard_unused s] o' by blast
  next
    case False
    show ?thesis
    proof (cases "started out")
      case True
      let ?q = "set_higher_ts (queued ?r t out) (apply_interleaved_packet_offset out ?r)"
      have e: "stream_packets cap ?q = Some out'" using i act False True by (simp add: interleave_packets_cases Let_def)
      have st: "started ?q"
        using same_tracks_received [of "queued ?r t out" ?q] queued_started [OF True, of ?r t] by simp
      have "all_stamped dv da ?q"
        using s True den stamped_offset [OF den, of out] by (auto simp: all_stamped_def queued_packets stamped_def)
      then show ?thesis using stream_stamped [OF e _ st cap] by blast
    next
      case ns: False
      have c: "collecting a dv da (?r # rs) out" and un: "unstarted out"
        using r ns by (auto simp: running_def streaming_def)
      then have tt: "two_tracks a out" and tr: "on_track a ?r" by (auto simp: collecting_def)
      note cq = collecting_queued [OF c ns, of t] and qv = queued_video [OF un tt tr, of t]
      have sent: "\<forall>x \<in> set (sent_packets (queued ?r t out)). stamped dv da (fst x)"
        and dens: "\<forall>p \<in> set (interleaved_packets (queued ?r t out)). p_timebase_den p \<in> {dv, da}"
        using s ns den by (auto simp: all_stamped_def queued_packets)
      show ?thesis
      proof (cases "started (queued ?r t out)")
        case True
        have "two_tracks a (queued ?r t out)" using cq by (simp add: collecting_def)
        then have "has_video (queued ?r t out)" using True qv two_tracks_started by blast
        moreover have "start_interleaving cap (queued ?r t out) = Some out'"
          using i act ns False True by (simp add: interleave_packets_cases Let_def)
        ultimately show ?thesis using start_stamped [OF cq True _ _ cap sent dens] by blast
      next
        case ns': False
        then have "out' = queued ?r t out" using i act ns False by (simp add: interleave_packets_cases Let_def)
        then show ?thesis using sent dens ns' by (simp add: all_stamped_def)
      qed
    qed
  qed
qed

lemma interleave_all_stamped:
  assumes "running a dv da (map (tracked out \<circ> fst) ps) out" "interleave_all cap ps out = Some out'"
    "\<forall>(p, t) \<in> set ps. known_packet out p \<and> timed dv da p" "keeps_stamps cap" "all_stamped dv da out"
  shows "all_stamped dv da out'"
  using assms
proof (induction ps arbitrary: out)
  case (Cons x ps)
  obtain p t where x: "x = (p, t)" by fastforce
  obtain out1 where o1: "interleave_packets cap p t out = Some out1" "interleave_all cap ps out1 = Some out'"
    using Cons.prems(2) x by (auto split: option.splits)
  have k: "known_packet out p" "timed dv da p" using Cons.prems(3) x by auto
  have t: "same_tracks out out1" using interleave_keeps_known [OF o1(1) k(1)] by (simp add: keeps_known_def)
  have tr: "tracked out1 = tracked out" using same_tracks_cong(4) [OF t] by blast
  have r: "running a dv da (tracked out p # map (tracked out \<circ> fst) ps) out" using Cons.prems(1) x by (simp add: comp_def)
  have "running a dv da (map (tracked out1 \<circ> fst) ps) out1"
    unfolding tr using running_step [OF r o1(1) k(1) Cons.prems(4)] by (simp add: comp_def)
  moreover have "\<forall>(p, t) \<in> set ps. known_packet out1 p \<and> timed dv da p" using Cons.prems(3) same_tracks_cong(2) [OF t] by auto
  moreover have "all_stamped dv da out1" using interleave_stamped [OF r o1(1) k(1) Cons.prems(4,5) k(2)] .
  ultimately show ?case using Cons.IH [OF _ o1(2)] Cons.prems(4) by blast
qed simp

section \<open>From microseconds to milliseconds\<close>

lemma sint_of_int32: "- (2 ^ 31) \<le> x \<Longrightarrow> x < 2 ^ 31 \<Longrightarrow> sint (word_of_int x :: s32) = x"
  by (simp add: sint_sbintrunc' signed_take_bit_int_eq_self)

lemma sint_sub32:
  fixes v w :: s32
  assumes "- (2 ^ 31) \<le> sint v - sint w" and "sint v - sint w < 2 ^ 31"
  shows "sint (v - w) = sint v - sint w"
  using sint_of_int32 [OF assms] by simp

lemma ms_of_usec:
  assumes "p_dts_usec p = packet_dts_usec p" and "0 < sint (p_timebase_den p)" and "0 \<le> sint (p_dts p)" and "sint (p_dts p) \<le> 2 ^ 42"
    and "usec p < 2 ^ 31 * 1000"
  shows "sint (get_ms_time p (p_dts p)) = usec p div 1000" "0 \<le> usec p"
proof -
  let ?d = "sint (p_dts p)" and ?n = "sint (p_timebase_den p)"
  have u: "usec p = ?d * 1000000 div ?n"
    using packet_usec [of p] assms(1-4) by (simp add: usec_def usec_of_def trunc_div_nonneg)
  then show nn: "0 \<le> usec p" using assms(2,3) by (simp add: pos_imp_zdiv_nonneg_iff)
  have "usec p div 1000 = ?d * 1000 * 1000 div (?n * 1000)" unfolding u using assms(2) by (simp add: zdiv_zmult2_eq mult.commute)
  then have e: "usec p div 1000 = ?d * 1000 div ?n" by (simp add: mult.commute)
  have m: "sint (p_dts p * 1000) = ?d * 1000" using sint_arith(2) [of "p_dts p" 1000] assms(3,4) by simp
  have den: "sint (scast (p_timebase_den p) :: s64) = ?n" by (simp add: sint_up_scast is_up)
  have low: "(ucast (word_of_int x :: s64) :: s32) = word_of_int x" for x by (rule bit_word_eqI) (simp add: bit_simps)
  have "get_ms_time p (p_dts p) = word_of_int (?d * 1000 div ?n)"
    unfolding get_ms_time_def s64_div_def m den using assms(2,3) by (simp add: trunc_div_nonneg low)
  moreover have "0 \<le> ?d * 1000 div ?n" "?d * 1000 div ?n < 2 ^ 31" using e nn assms(5) by linarith+
  ultimately show "sint (get_ms_time p (p_dts p)) = usec p div 1000"
    unfolding e by (simp add: sint_of_int32)
qed

text \<open>Parsing keeps the times, so a tag has the time of its packet.\<close>

lemma parsed_packet_time:
  assumes "parsed_packet env c p = Some q"
  shows "packet_time q off = packet_time p off"
proof -
  have "p_dts q = p_dts p \<and> p_timebase_den q = p_timebase_den p"
    using assms
    by (auto simp: parsed_packet_def obs_parse_avc_packet_def obs_parse_hevc_packet_def obs_parse_av1_packet_def Let_def
        split: if_splits video_id_t.splits prod.splits)
  then show ?thesis by (simp add: packet_time_def get_ms_time_def)
qed

lemma recorded_tag_time:
  assumes "track_packet env nv na cx p"
  shows "tag_time (recorded_tag env cx off p) = packet_time p off"
proof -
  obtain q where q: "parsed_packet env (video_codec_of cx (p_track_idx p)) p = Some q"
    using assms by (auto simp: track_packet_def packet_ok_def split: option.splits)
  show ?thesis
    using parsed_packet_time [OF q, of off]
    by (simp add: recorded_tag_def q packet_tag_def mux_tag_def video_ex_tag_def audio_ex_tag_def Let_def)
qed

definition recordable :: "s32 \<Rightarrow> s32 \<Rightarrow> encoder_packet \<Rightarrow> bool" where
  "recordable dv da p \<longleftrightarrow> stamped dv da p \<and> 0 \<le> sint (p_dts p) \<and> sint (p_dts p) \<le> 2 ^ 42 \<and> usec p < 2 ^ 31 * 1000"

lemma recorded_times_sorted:
  assumes "sorted (map usec ps)" and "list_all (recordable dv da) ps" and "0 < sint dv" and "0 < sint da"
  shows "sorted (map (\<lambda>p. packet_time p (get_ms_time (hd ps) (p_dts (hd ps)))) ps)"
proof (cases ps)
  case (Cons h qs)
  let ?ms = "\<lambda>p. sint (get_ms_time p (p_dts p))"
  have ms: "?ms p = usec p div 1000 \<and> 0 \<le> ?ms p \<and> ?ms p < 2 ^ 31" if p: "p \<in> set ps" for p
  proof -
    have r: "stamped dv da p" "0 \<le> sint (p_dts p)" "sint (p_dts p) \<le> 2 ^ 42" "usec p < 2 ^ 31 * 1000"
      using assms(2) p by (auto simp: list_all_iff recordable_def)
    then have "p_dts_usec p = packet_dts_usec p" "0 < sint (p_timebase_den p)" using assms(3,4) by (auto simp: stamped_def)
    note m = ms_of_usec [OF this r(2-4)]
    show ?thesis using m r(4) by linarith
  qed
  have time: "int (packet_time p (get_ms_time h (p_dts h))) = ?ms p - ?ms h" if p: "p \<in> set ps" for p
  proof -
    have "usec h \<le> usec p" using assms(1) p Cons by auto
    then have le: "?ms h \<le> ?ms p" using ms [OF p] ms [of h] Cons by (simp add: zdiv_mono1)
    have "sint (get_ms_time p (p_dts p) - get_ms_time h (p_dts h)) = ?ms p - ?ms h"
      using ms [OF p] ms [of h] Cons by (intro sint_sub32) auto
    then show ?thesis using flv_time_nonneg [of "get_ms_time p (p_dts p) - get_ms_time h (p_dts h)"] le by (simp add: packet_time_def)
  qed
  have "packet_time p (get_ms_time h (p_dts h)) \<le> packet_time q (get_ms_time h (p_dts h))"
    if "p \<in> set ps" "q \<in> set ps" "usec p \<le> usec q" for p q
    using time [OF that(1)] time [OF that(2)] ms [OF that(1)] ms [OF that(2)] zdiv_mono1 [OF that(3), of 1000] by simp
  then have "sorted_wrt (\<lambda>p q. packet_time p (get_ms_time h (p_dts h)) \<le> packet_time q (get_ms_time h (p_dts h))) ps"
    using assms(1) by (auto simp: sorted_map intro: sorted_wrt_mono_rel [rotated])
  then show ?thesis using Cons by (simp add: sorted_map)
qed simp

section \<open>The composition\<close>


lemma avc_packet_data:
  assumes "stream_ok us" and "p_data src = annexb us" and "length (length_prefixed (map snd us)) < 2 ^ 62"
  shows "p_data (obs_parse_avc_packet base src) = length_prefixed (map snd us)"
  using serialize_after_ref [OF arr.emits_serialize_nals [OF assms(1)] assms(3),
      of compute_avc_keyframe_priority base "p_keyframe src" "p_priority src"] assms(2)
  by (auto simp: obs_parse_avc_packet_def serialize_avc_data_def Let_def split: prod.split)

lemma known_packet_change:
  "known_packet out (p\<lparr>p_data := d\<rparr>) = known_packet out p" "known_packet out (p\<lparr>p_dts := x\<rparr>) = known_packet out p"
  "known_packet out (p\<lparr>p_pts := x\<rparr>) = known_packet out p" "known_packet out (p\<lparr>p_dts_usec := x\<rparr>) = known_packet out p"
proof -
  have "is_encoder e (p\<lparr>p_data := d\<rparr>) = is_encoder e p" "is_encoder e (p\<lparr>p_dts := x\<rparr>) = is_encoder e p"
    "is_encoder e (p\<lparr>p_pts := x\<rparr>) = is_encoder e p" "is_encoder e (p\<lparr>p_dts_usec := x\<rparr>) = is_encoder e p" for e
    by (cases e; simp add: is_encoder_def)+
  then show "known_packet out (p\<lparr>p_data := d\<rparr>) = known_packet out p" "known_packet out (p\<lparr>p_dts := x\<rparr>) = known_packet out p"
    "known_packet out (p\<lparr>p_pts := x\<rparr>) = known_packet out p" "known_packet out (p\<lparr>p_dts_usec := x\<rparr>) = known_packet out p"
    by (simp_all add: known_packet_def)
qed

definition idr_video :: encoder_packet where
  "idr_video = (av_video True 0 0)\<lparr>p_data := annexb [([0, 0, 0, 1], [0x65, 0x88])]\<rparr>"

definition aac_audio :: "s64 \<Rightarrow> s64 \<Rightarrow> encoder_packet" where
  "aac_audio dts us = (av_audio False dts us)\<lparr>p_data := [0x21, 0x10]\<rparr>"

definition av_arrivals :: "(encoder_packet \<times> encoder_packet_time option) list" where
  "av_arrivals = [(idr_video, None), (aac_audio 0 0, None), (aac_audio 1024 21333, None), (idr_video\<lparr>p_dts := 1, p_pts := 1, p_dts_usec := 33333\<rparr>, None)]"

lemma av_arrivals_sent:
  "\<exists>out'. interleave_all (\<lambda>_ p. p) av_arrivals (reset_packet_data av_output) = Some out' \<and>
    map fst (sent_packets out') = [idr_video, aac_audio 0 0]"
  by (simp add: av_arrivals_def idr_video_def aac_audio_def run_simps)


end
