(* ===== verification/Rtmp_Chunk.thy ===== *)
theory Rtmp_Chunk
  imports Flv_Tags
begin

text \<open>
  The chunk streams of \<open>plugins/obs-outputs/librtmp/rtmp.c\<close>, over which the RTMP output sends its
  FLV tags: \<open>RTMP_Write\<close> cuts a tag into a message, \<open>RTMP_SendPacket\<close> compresses the header of the
  message against the last one of its channel and cuts it into chunks, \<open>WriteN\<close> hands them to the
  socket; \<open>RTMP_ReadPacket\<close> reads a chunk that the peer sent.

  What the socket does with each call of \<open>send\<close> is the list \<open>sb_results\<close>; when it is used up,
  everything is accepted.  A packet's block is the body with room for the largest header in
  front of it; the headers of chunks are written into the block, over bytes that are already
  sent.  The model is of a connection without HTTP tunnelling, of which the peer sends the bytes
  \<open>sb_in\<close> and then no more, so that \<open>ReadN\<close> fails and closes where they end; the acknowledgements
  that \<open>ReadN\<close> sends and the messages with which \<open>RTMP_Close\<close> takes leave of the peer are left out.
  \<open>None\<close>: an access outside a block or a buffer, or a loop that does not end.
\<close>

section \<open>State\<close>

definition RTMP_MAX_HEADER_SIZE :: nat where
  "RTMP_MAX_HEADER_SIZE = 18"

definition RTMP_PACKET_SIZE_LARGE :: byte where
  "RTMP_PACKET_SIZE_LARGE = 0"

definition RTMP_PACKET_SIZE_MEDIUM :: byte where
  "RTMP_PACKET_SIZE_MEDIUM = 1"

definition RTMP_PACKET_SIZE_SMALL :: byte where
  "RTMP_PACKET_SIZE_SMALL = 2"

definition RTMP_PACKET_SIZE_MINIMUM :: byte where
  "RTMP_PACKET_SIZE_MINIMUM = 3"

definition RTMP_LARGE_HEADER_SIZE :: nat where
  "RTMP_LARGE_HEADER_SIZE = 12"

definition RTMP_PACKET_TYPE_INVOKE :: byte where
  "RTMP_PACKET_TYPE_INVOKE = 0x14"

definition packetSize :: "byte \<Rightarrow> nat" where
  "packetSize h = [12, 8, 4, 1] ! unat h"

record RTMPPacket =
  m_headerType :: byte
  m_packetType :: byte
  m_hasAbsTimestamp :: bool
  m_nChannel :: nat
  m_nTimeStamp :: u32
  m_nLastWireTimeStamp :: u32
  m_nInfoField2 :: s32
  m_nBodySize :: u32
  m_nBytesRead :: u32
  m_body :: "byte list option"

definition RTMPPacket_zero :: RTMPPacket where
  "RTMPPacket_zero =
    \<lparr>m_headerType = 0, m_packetType = 0, m_hasAbsTimestamp = False, m_nChannel = 0, m_nTimeStamp = 0,
     m_nLastWireTimeStamp = 0, m_nInfoField2 = 0, m_nBodySize = 0, m_nBytesRead = 0, m_body = None\<rparr>"

datatype send_result = Sent nat | Interrupted | Failed

record RTMP =
  m_inChunkSize :: nat
  m_outChunkSize :: nat
  stream_id :: s32
  m_vecChannelsIn :: "RTMPPacket option list"
  m_vecChannelsOut :: "RTMPPacket option list"
  m_channelTimestamp :: "u32 list"
  m_write :: RTMPPacket
  sb_open :: bool
  sb_results :: "send_result list"
  sb_sent :: "byte list"
  sb_in :: "byte list"

section \<open>Packets and blocks\<close>

definition RTMPPacket_Alloc :: "u32 \<Rightarrow> RTMPPacket \<Rightarrow> RTMPPacket" where
  "RTMPPacket_Alloc nSize p = p\<lparr>m_body := Some (replicate (unat nSize + RTMP_MAX_HEADER_SIZE) 0), m_nBytesRead := 0\<rparr>"

definition RTMPPacket_Free :: "RTMPPacket \<Rightarrow> RTMPPacket" where
  "RTMPPacket_Free p = p\<lparr>m_body := None\<rparr>"

definition RTMPPacket_IsReady :: "RTMPPacket \<Rightarrow> bool" where
  "RTMPPacket_IsReady p \<longleftrightarrow> m_nBytesRead p = m_nBodySize p"

text \<open>\<open>memcpy\<close> into a block, undefined outside of it.\<close>

definition block_put :: "nat \<Rightarrow> byte list \<Rightarrow> byte list \<Rightarrow> byte list option" where
  "block_put off d block = (if off + length d \<le> length block then Some (write_at block off d) else None)"

definition AMF_DecodeInt24 :: "byte list \<Rightarrow> u32" where
  "AMF_DecodeInt24 c = push_bit 16 (ucast (c ! 0)) OR push_bit 8 (ucast (c ! 1)) OR ucast (c ! 2)"

definition AMF_DecodeInt32 :: "byte list \<Rightarrow> u32" where
  "AMF_DecodeInt32 c =
    push_bit 24 (ucast (c ! 0)) OR push_bit 16 (ucast (c ! 1)) OR push_bit 8 (ucast (c ! 2)) OR ucast (c ! 3)"

definition DecodeInt32LE :: "byte list \<Rightarrow> u32" where
  "DecodeInt32LE c =
    push_bit 24 (ucast (c ! 3)) OR push_bit 16 (ucast (c ! 2)) OR push_bit 8 (ucast (c ! 1)) OR ucast (c ! 0)"

section \<open>The socket\<close>

definition RTMP_Close :: "RTMP \<Rightarrow> RTMP" where
  "RTMP_Close r =
    r\<lparr>sb_open := False, stream_id := -1, m_vecChannelsIn := [], m_vecChannelsOut := [], m_channelTimestamp := [],
      m_write := RTMPPacket_Free ((m_write r)\<lparr>m_nBytesRead := 0\<rparr>), sb_in := []\<rparr>"

text \<open>The loop of \<open>WriteN\<close>: whether the socket failed, the bytes not sent, all bytes sent, and the results left.\<close>

fun write_loop :: "send_result list \<Rightarrow> byte list \<Rightarrow> byte list \<Rightarrow> bool \<times> byte list \<times> byte list \<times> send_result list" where
  "write_loop rs [] sent = (False, [], sent, rs)"
| "write_loop [] (b # bs) sent = (False, [], sent @ b # bs, [])"
| "write_loop (Sent k # rs) (b # bs) sent =
    (if k = 0 then (False, b # bs, sent, rs) else write_loop rs (drop k (b # bs)) (sent @ take k (b # bs)))"
| "write_loop (Interrupted # rs) (b # bs) sent = write_loop rs (b # bs) sent"
| "write_loop (Failed # rs) (b # bs) sent = (True, b # bs, sent, rs)"

definition WriteN :: "byte list \<Rightarrow> RTMP \<Rightarrow> bool \<times> RTMP" where
  "WriteN buffer r =
    (if \<not> sb_open r then (buffer = [], r)
     else
       (let (failed, rest, sent, rs) = write_loop (sb_results r) buffer (sb_sent r);
            r1 = r\<lparr>sb_sent := sent, sb_results := rs\<rparr>
        in if failed then (False, RTMP_Close r1) else (rest = [], r1)))"

definition ReadN :: "nat \<Rightarrow> RTMP \<Rightarrow> byte list option \<times> RTMP" where
  "ReadN n r =
    (if n \<le> length (sb_in r) then (Some (take n (sb_in r)), r\<lparr>sb_in := drop n (sb_in r)\<rparr>)
     else (None, RTMP_Close r))"

section \<open>Sending a packet\<close>

definition channel_slots :: "nat \<Rightarrow> 'a \<Rightarrow> 'a list \<Rightarrow> 'a list" where
  "channel_slots ch x xs = (if ch \<ge> length xs then xs @ replicate (ch + 10 - length xs) x else xs)"

text \<open>The header type that the last packet of the channel allows, and the time that is not sent.\<close>

definition compress_header :: "RTMPPacket option \<Rightarrow> RTMPPacket \<Rightarrow> RTMPPacket \<times> u32" where
  "compress_header prev packet =
    (case prev of
       None \<Rightarrow> (packet, 0)
     | Some prevPacket \<Rightarrow>
         if m_headerType packet = RTMP_PACKET_SIZE_LARGE then (packet, 0)
         else
           (let packet1 =
                  (if m_nBodySize prevPacket = m_nBodySize packet \<and> m_packetType prevPacket = m_packetType packet \<and>
                      m_headerType packet = RTMP_PACKET_SIZE_MEDIUM
                   then packet\<lparr>m_headerType := RTMP_PACKET_SIZE_SMALL\<rparr> else packet);
                delta = m_nTimeStamp packet1 - m_nTimeStamp prevPacket
            in (if delta = m_nLastWireTimeStamp prevPacket \<and> m_headerType packet1 = RTMP_PACKET_SIZE_SMALL
                then packet1\<lparr>m_headerType := RTMP_PACKET_SIZE_MINIMUM\<rparr> else packet1,
                m_nTimeStamp prevPacket)))"

definition channel_size :: "nat \<Rightarrow> nat" where
  "channel_size ch = (if ch > 319 then 2 else if ch > 63 then 1 else 0)"

definition basic_header :: "byte \<Rightarrow> nat \<Rightarrow> byte list" where
  "basic_header c ch =
    c # (if channel_size ch = 0 then []
         else word_of_nat (ch - 64) # (if channel_size ch = 2 then [word_of_nat ((ch - 64) div 256)] else []))"

definition header_byte :: "RTMPPacket \<Rightarrow> byte" where
  "header_byte packet =
    push_bit 6 (m_headerType packet) OR
    (if channel_size (m_nChannel packet) = 0 then word_of_nat (m_nChannel packet)
     else if channel_size (m_nChannel packet) = 1 then 0 else 1)"

definition message_header :: "RTMPPacket \<Rightarrow> u32 \<Rightarrow> byte list" where
  "message_header packet t =
    (let nSize = packetSize (m_headerType packet)
     in basic_header (header_byte packet) (m_nChannel packet) @
        (if nSize > 1 then be24 (if t > 0xFFFFFF then 0xFFFFFF else t) else []) @
        (if nSize > 4 then be24 (m_nBodySize packet) @ [m_packetType packet] else []) @
        (if nSize > 8 then le32 (m_nInfoField2 packet) else []) @
        (if nSize > 1 \<and> t \<ge> 0xFFFFFF then be32 t else []))"

definition continuation_header :: "RTMPPacket \<Rightarrow> u32 \<Rightarrow> byte list" where
  "continuation_header packet t =
    basic_header (0xC0 OR header_byte packet) (m_nChannel packet) @ (if t \<ge> 0xFFFFFF then be32 t else [])"

text \<open>
  The loop over the chunks: the block with the header of the next chunk in it, the offset and
  length of that header, the offset of the body bytes to send and their number.
\<close>

function send_chunks :: "byte list \<Rightarrow> nat \<Rightarrow> byte list \<Rightarrow> nat \<Rightarrow> nat \<Rightarrow> nat \<Rightarrow> nat \<Rightarrow> RTMP \<Rightarrow> (bool \<times> RTMP) option" where
  "send_chunks cont nChunkSize block header hSize buffer nSize r =
    (let n = min nChunkSize nSize;
         (wrote, r1) = WriteN (take (n + hSize) (drop header block)) r
     in if length block < header + n + hSize then None
        else if \<not> wrote then Some (False, r1)
        else if nSize - n = 0 then Some (True, r1)
        else if n = 0 then None
        else
          (let header1 = buffer + n - length cont
           in case block_put header1 cont block of
                None \<Rightarrow> None
              | Some block1 \<Rightarrow> send_chunks cont n block1 header1 (length cont) (buffer + n) (nSize - n) r1))"
  by pat_completeness auto
termination by (relation "measure (\<lambda>(cont, nChunkSize, block, header, hSize, buffer, nSize, r). nSize)") auto

declare send_chunks.simps [simp del]

text \<open>The block of a packet; a packet without a body gets its header from a buffer of its own.\<close>

definition packet_block :: "RTMPPacket \<Rightarrow> byte list option" where
  "packet_block packet =
    (case m_body packet of
       Some block \<Rightarrow> Some block
     | None \<Rightarrow> if m_nBodySize packet = 0 then Some (replicate RTMP_MAX_HEADER_SIZE 0) else None)"

text \<open>
  \<open>RTMP_SendPacket\<close> without a queue of method calls; invocations, whose names are read from the
  body for the log, and bodies of which the size is not an \<open>int\<close> are excluded.
\<close>

definition RTMP_SendPacket :: "RTMPPacket \<Rightarrow> RTMP \<Rightarrow> (bool \<times> RTMPPacket \<times> RTMP) option" where
  "RTMP_SendPacket packet r =
    (let ch = m_nChannel packet;
         r1 = r\<lparr>m_vecChannelsOut := channel_slots ch None (m_vecChannelsOut r)\<rparr>;
         (packet1, last_time) = compress_header (m_vecChannelsOut r1 ! ch) packet
     in if m_headerType packet1 > 3 then Some (False, packet1, r1)
        else
          (let t = m_nTimeStamp packet1 - last_time;
               packet2 = packet1\<lparr>m_nLastWireTimeStamp := t\<rparr>;
               hdr = message_header packet2 t;
               header = RTMP_MAX_HEADER_SIZE - length hdr
           in if m_packetType packet2 = RTMP_PACKET_TYPE_INVOKE \<or> unat (m_nBodySize packet2) \<ge> 2 ^ 31 then None
              else
                do {
                  block \<leftarrow> packet_block packet2;
                  block1 \<leftarrow> block_put header hdr block;
                  (sent, r2) \<leftarrow> send_chunks (continuation_header packet2 t) (m_outChunkSize r1) block1 header
                    (length hdr) RTMP_MAX_HEADER_SIZE (unat (m_nBodySize packet2)) r1;
                  Some (sent, packet2,
                    if sent then r2\<lparr>m_vecChannelsOut := (m_vecChannelsOut r2)[ch := Some packet2]\<rparr> else r2)
                }))"

section \<open>Sending FLV data\<close>

text \<open>\<open>RTMP_Write\<close> at the start of a tag: the fields of the message from the tag's header.\<close>

definition skip_flv_header :: "byte list \<Rightarrow> int \<Rightarrow> byte list \<times> int" where
  "skip_flv_header buf s2 = (if take 3 buf = bytes_of_string ''FLV'' then (drop 13 buf, s2 - 13) else (buf, s2))"

definition start_message :: "byte list \<Rightarrow> RTMPPacket \<Rightarrow> RTMPPacket" where
  "start_message buf pkt =
    (let ptype = buf ! 0;
         time = AMF_DecodeInt24 (drop 4 buf) OR push_bit 24 (ucast (buf ! 7));
         sz = AMF_DecodeInt24 (drop 1 buf)
     in RTMPPacket_Alloc sz
          (pkt\<lparr>m_packetType := ptype, m_nBodySize := sz, m_nTimeStamp := time,
               m_headerType :=
                 (if (ptype = RTMP_PACKET_TYPE_AUDIO \<or> ptype = RTMP_PACKET_TYPE_VIDEO) \<and> time = 0 \<or>
                     ptype = RTMP_PACKET_TYPE_INFO
                  then RTMP_PACKET_SIZE_LARGE else RTMP_PACKET_SIZE_MEDIUM)\<rparr>))"

text \<open>
  One round of the loop of \<open>RTMP_Write\<close>: a value to return, or the rest of the data.  First the
  header of a tag, unless the message is already under way, then the bytes of the message that
  are there; a complete message is sent.
\<close>

definition fill_message :: "int \<Rightarrow> RTMPPacket \<Rightarrow> byte list \<Rightarrow> int \<Rightarrow> RTMP \<Rightarrow> (int + byte list \<times> int) option \<times> RTMP" where
  "fill_message size_arg pkt buf s2 r =
    (let num = min (sint (m_nBodySize pkt - m_nBytesRead pkt)) s2
     in if num < 0 \<or> length buf < nat num then (None, r)
        else
          (case Option.bind (m_body pkt) (block_put (RTMP_MAX_HEADER_SIZE + unat (m_nBytesRead pkt)) (take (nat num) buf)) of
             None \<Rightarrow> (None, r)
           | Some block \<Rightarrow>
               (let pkt1 = pkt\<lparr>m_body := Some block, m_nBytesRead := m_nBytesRead pkt + word_of_int num\<rparr>;
                    buf1 = drop (nat num) buf; s3 = s2 - num
                in if m_nBytesRead pkt1 = m_nBodySize pkt1
                   then
                     (case RTMP_SendPacket pkt1 r of
                        None \<Rightarrow> (None, r)
                      | Some (ret, pkt2, r1) \<Rightarrow>
                          (let r2 = r1\<lparr>m_write := (RTMPPacket_Free pkt2)\<lparr>m_nBytesRead := 0\<rparr>\<rparr>
                           in if \<not> ret then (Some (Inl (-1)), r2)
                              else if s3 - 4 < 0 then (Some (Inl (size_arg + (s3 - 4))), r2)
                              else (Some (Inr (drop 4 buf1, s3 - 4)), r2)))
                   else (Some (Inr (buf1, s3)), r\<lparr>m_write := pkt1\<rparr>))))"

definition write_round :: "int \<Rightarrow> byte list \<Rightarrow> int \<Rightarrow> RTMP \<Rightarrow> (int + byte list \<times> int) option \<times> RTMP" where
  "write_round size_arg buf s r =
    (if m_nBytesRead (m_write r) = 0
     then
       (let (buf1, s1) = skip_flv_header buf s
        in if size_arg < 11 then (Some (Inl 0), r)
           else if length buf1 < 11 then (None, r)
           else fill_message size_arg (start_message buf1 (m_write r)) (drop 11 buf1) (s1 - 11) r)
     else fill_message size_arg (m_write r) buf s r)"

lemma fill_message_Inr:
  assumes "fill_message n pkt buf s2 r = (Some (Inr (buf1, s1)), r1)"
  shows "0 \<le> s1 \<and> s1 \<le> s2 \<and> (s1 = s2 \<longrightarrow> s2 = 0)"
proof -
  define num where "num = min (sint (m_nBodySize pkt - m_nBytesRead pkt)) s2"
  have num: "0 \<le> num" "num \<le> s2"
    and cases: "0 \<le> s2 - num - 4 \<and> s1 = s2 - num - 4 \<or>
      m_nBytesRead pkt + word_of_int num \<noteq> m_nBodySize pkt \<and> s1 = s2 - num"
    using assms
    by (auto simp: fill_message_def num_def Let_def split: prod.splits if_splits option.splits)
  have "s2 = 0" if "m_nBytesRead pkt + word_of_int num \<noteq> m_nBodySize pkt" "num = 0"
  proof (rule ccontr)
    assume "s2 \<noteq> 0"
    with that(2) have "sint (m_nBodySize pkt - m_nBytesRead pkt) = 0" by (auto simp: num_def min_def split: if_splits)
    then have "m_nBodySize pkt - m_nBytesRead pkt = 0" by (metis signed_0 signed_word_eqI)
    with that show False by simp
  qed
  with cases num show ?thesis by auto
qed

lemma write_round_progress:
  assumes "write_round n buf s r = (Some (Inr (buf1, s1)), r1)" "s \<noteq> 0"
  shows "0 \<le> s1 \<and> s1 < s"
  using assms
  by (auto simp: write_round_def skip_flv_header_def split: if_splits prod.splits dest!: fill_message_Inr)

function write_rounds :: "int \<Rightarrow> byte list \<Rightarrow> int \<Rightarrow> RTMP \<Rightarrow> int option \<times> RTMP" where
  "write_rounds size_arg buf s r =
    (if s = 0 then (Some size_arg, r)
     else
       (case write_round size_arg buf s r of
          (None, r1) \<Rightarrow> (None, r1)
        | (Some (Inl ret), r1) \<Rightarrow> (Some ret, r1)
        | (Some (Inr (buf1, s1)), r1) \<Rightarrow> write_rounds size_arg buf1 s1 r1))"
  by pat_completeness auto
termination
  by (relation "measure (\<lambda>(size_arg, buf, s, r). nat s)") (auto dest!: sym [of "(_, _)" "write_round _ _ _ _"] write_round_progress)

declare write_rounds.simps [simp del]

definition RTMP_Write :: "byte list \<Rightarrow> RTMP \<Rightarrow> int option \<times> RTMP" where
  "RTMP_Write buf r =
    write_rounds (int (length buf)) buf (int (length buf))
      (r\<lparr>m_write := (m_write r)\<lparr>m_nChannel := 4, m_nInfoField2 := stream_id r\<rparr>\<rparr>)"

section \<open>Reading a chunk\<close>

definition grow_in_channels :: "nat \<Rightarrow> RTMP \<Rightarrow> RTMP" where
  "grow_in_channels ch r =
    r\<lparr>m_vecChannelsIn := channel_slots ch None (m_vecChannelsIn r),
      m_channelTimestamp := channel_slots ch 0 (m_channelTimestamp r)\<rparr>"

text \<open>The header type and channel of a chunk.\<close>

definition read_basic_header :: "RTMP \<Rightarrow> (byte \<times> nat) option \<times> RTMP" where
  "read_basic_header r =
    (case ReadN 1 r of
       (None, r1) \<Rightarrow> (None, r1)
     | (Some b, r1) \<Rightarrow>
         (let ht = drop_bit 6 (b ! 0 AND 0xC0); ch = unat (b ! 0 AND 0x3F)
          in if ch = 0
             then (case ReadN 1 r1 of (None, r2) \<Rightarrow> (None, r2) | (Some c, r2) \<Rightarrow> (Some (ht, unat (c ! 0) + 64), r2))
             else if ch = 1
             then (case ReadN 2 r1 of (None, r2) \<Rightarrow> (None, r2)
                   | (Some c, r2) \<Rightarrow> (Some (ht, 256 * unat (c ! 1) + unat (c ! 0) + 64), r2))
             else (Some (ht, ch), r1)))"

text \<open>The fields of the message header, and whether an extended time stamp follows.\<close>

definition read_fields :: "byte list \<Rightarrow> RTMPPacket \<Rightarrow> RTMPPacket" where
  "read_fields header packet =
    (let nSize = length header;
         packet1 = (if nSize \<ge> 3 then packet\<lparr>m_nTimeStamp := AMF_DecodeInt24 header\<rparr> else packet);
         packet2 = (if nSize \<ge> 6 then packet1\<lparr>m_nBodySize := AMF_DecodeInt24 (drop 3 header), m_nBytesRead := 0\<rparr> else packet1);
         packet3 = (if nSize > 6 then packet2\<lparr>m_packetType := header ! 6\<rparr> else packet2)
     in if nSize = 11 then packet3\<lparr>m_nInfoField2 := DecodeInt32LE (drop 7 header)\<rparr> else packet3)"

definition has_extended :: "byte list \<Rightarrow> RTMPPacket \<Rightarrow> bool" where
  "has_extended header packet \<longleftrightarrow> length header \<ge> 3 \<and> m_nTimeStamp packet = 0xFFFFFF"

text \<open>Where a chunk's header starts from: the last packet of its channel unless the header is complete.\<close>

definition chunk_start :: "byte \<Rightarrow> nat \<Rightarrow> RTMP \<Rightarrow> RTMPPacket \<Rightarrow> RTMPPacket" where
  "chunk_start ht ch r packet =
    (let packet1 = packet\<lparr>m_headerType := ht, m_nChannel := ch\<rparr>
     in if packetSize ht = RTMP_LARGE_HEADER_SIZE then packet1\<lparr>m_hasAbsTimestamp := True\<rparr>
        else (case m_vecChannelsIn r ! ch of Some prev \<Rightarrow> prev | None \<Rightarrow> packet1))"

text \<open>After the bytes of the chunk: the packet is kept for the channel, and a complete one is given its time.\<close>

definition finish_chunk :: "bool \<Rightarrow> RTMPPacket \<Rightarrow> RTMP \<Rightarrow> RTMPPacket \<times> RTMP" where
  "finish_chunk ext packet r =
    (let ch = m_nChannel packet;
         keep = (if ext then packet\<lparr>m_nTimeStamp := 0xFFFFFF\<rparr> else packet)
     in if RTMPPacket_IsReady packet
        then
          (let t = (if m_hasAbsTimestamp packet then m_nTimeStamp packet
                    else m_nTimeStamp packet + m_channelTimestamp r ! ch)
           in (packet\<lparr>m_nTimeStamp := t\<rparr>,
               r\<lparr>m_channelTimestamp := (m_channelTimestamp r)[ch := t],
                 m_vecChannelsIn := (m_vecChannelsIn r)[ch :=
                   Some (keep\<lparr>m_body := None, m_nBytesRead := 0, m_hasAbsTimestamp := False\<rparr>)]\<rparr>))
        else (packet\<lparr>m_body := None\<rparr>, r\<lparr>m_vecChannelsIn := (m_vecChannelsIn r)[ch := Some keep]\<rparr>))"

text \<open>The body of the chunk; a packet without a body gets its block now.\<close>

definition read_body :: "byte \<Rightarrow> bool \<Rightarrow> RTMPPacket \<Rightarrow> RTMP \<Rightarrow> (bool \<times> RTMPPacket \<times> RTMP) option" where
  "read_body ht ext packet0 r =
    (let packet =
           (if m_nBodySize packet0 > 0 \<and> m_body packet0 = None
            then (RTMPPacket_Alloc (m_nBodySize packet0) packet0)\<lparr>m_headerType := ht\<rparr> else packet0);
         nToRead = sint (m_nBodySize packet - m_nBytesRead packet);
         nChunk = min (nat nToRead) (m_inChunkSize r)
     in case (if nToRead < 0 then (None, r) else ReadN nChunk r) of
          (None, r1) \<Rightarrow> Some (False, packet, r1)
        | (Some d, r1) \<Rightarrow>
            (case (if d = [] then Some (m_body packet)
                   else Option.bind (m_body packet) (\<lambda>block. map_option Some
                     (block_put (RTMP_MAX_HEADER_SIZE + unat (m_nBytesRead packet)) d block))) of
               None \<Rightarrow> None
             | Some body \<Rightarrow>
                 (let (packet1, r2) =
                        finish_chunk ext (packet\<lparr>m_body := body, m_nBytesRead := m_nBytesRead packet + word_of_nat nChunk\<rparr>) r1
                  in Some (True, packet1, r2))))"

definition RTMP_ReadPacket :: "RTMPPacket \<Rightarrow> RTMP \<Rightarrow> (bool \<times> RTMPPacket \<times> RTMP) option" where
  "RTMP_ReadPacket packet r =
    (case read_basic_header r of
       (None, r1) \<Rightarrow> Some (False, packet, r1)
     | (Some (ht, ch), r1) \<Rightarrow>
         (let r2 = grow_in_channels ch r1; start = chunk_start ht ch r2 packet
          in case ReadN (packetSize ht - 1) r2 of
               (None, r3) \<Rightarrow> Some (False, start, r3)
             | (Some header, r3) \<Rightarrow>
                 (let packet1 = read_fields header start
                  in if has_extended header packet1
                     then (case ReadN 4 r3 of
                             (None, r4) \<Rightarrow> Some (False, packet1, r4)
                           | (Some e, r4) \<Rightarrow> read_body ht True (packet1\<lparr>m_nTimeStamp := AMF_DecodeInt32 e\<rparr>) r4)
                     else read_body ht False packet1 r3)))"

end
