(* ===== verification/Rtmp_Wire.thy ===== *)
theory Rtmp_Wire
  imports Rtmp_Chunk
begin

text \<open>
  What travels over a chunk stream: the bytes that \<open>RTMP_SendPacket\<close> sends for a message, and the
  messages that \<open>RTMP_ReadPacket\<close> makes of them at the other end.  The sender's and the receiver's
  memory of a channel agree after every message, so header compression loses nothing.
\<close>

section \<open>Numbers\<close>

lemma decode_be24: "AMF_DecodeInt24 (be24 w @ xs) = take_bit 24 w"
proof (rule bit_word_eqI)
  fix n :: nat
  consider "n < 8" | "8 \<le> n \<and> n < 16" | "16 \<le> n" by linarith
  then show "bit (AMF_DecodeInt24 (be24 w @ xs)) n = bit (take_bit 24 w) n"
    by cases (auto simp: AMF_DecodeInt24_def be24_def be16_def bit_simps)
qed

lemma decode_le32: "DecodeInt32LE (le32 w @ xs) = w"
proof (rule bit_word_eqI)
  fix n :: nat
  assume "n < LENGTH(32)"
  then consider "n < 8" | "8 \<le> n \<and> n < 16" | "16 \<le> n \<and> n < 24" | "24 \<le> n \<and> n < 32" by fastforce
  then show "bit (DecodeInt32LE (le32 w @ xs)) n = bit w n"
    by cases (auto simp: DecodeInt32LE_def le32_def le16_def bit_simps)
qed

section \<open>Writing to a live socket\<close>

text \<open>A socket that is open and neither fails nor is closed by its peer; it may accept less than it is given.\<close>

definition healthy :: "send_result list \<Rightarrow> bool" where
  "healthy rs \<longleftrightarrow> list_all (\<lambda>x. x \<noteq> Failed \<and> x \<noteq> Sent 0) rs"

definition live :: "RTMP \<Rightarrow> bool" where
  "live r \<longleftrightarrow> sb_open r \<and> healthy (sb_results r)"

definition sends :: "RTMP \<Rightarrow> byte list \<Rightarrow> RTMP \<Rightarrow> bool" where
  "sends r d r1 \<longleftrightarrow> (\<exists>rs. r1 = r\<lparr>sb_sent := sb_sent r @ d, sb_results := rs\<rparr> \<and> healthy rs)"

lemma write_loop_healthy:
  assumes "healthy rs"
  shows "\<exists>rs1. write_loop rs buf sent = (False, [], sent @ buf, rs1) \<and> healthy rs1"
  using assms by (induction rs buf sent rule: write_loop.induct) (auto simp: healthy_def)

lemma WriteN_live:
  assumes "live r"
  shows "\<exists>r1. WriteN buf r = (True, r1) \<and> sends r buf r1"
  using assms write_loop_healthy [of "sb_results r" buf "sb_sent r"]
  by (auto simp: live_def WriteN_def sends_def)

lemma sends_live: "live r \<Longrightarrow> sends r d r1 \<Longrightarrow> live r1"
  by (auto simp: live_def sends_def)

lemma sends_trans: "sends r d r1 \<Longrightarrow> sends r1 e r2 \<Longrightarrow> sends r (d @ e) r2"
  by (auto simp: sends_def)

section \<open>Chunks\<close>

text \<open>A body in chunks of \<open>c\<close> bytes with a header in front of each but the first.\<close>

function chunked :: "byte list \<Rightarrow> nat \<Rightarrow> byte list \<Rightarrow> byte list" where
  "chunked cont c d = (if c = 0 \<or> length d \<le> c then d else take c d @ cont @ chunked cont c (drop c d))"
  by pat_completeness auto
termination by (relation "measure (\<lambda>(cont, c, d). length d)") auto

declare chunked.simps [simp del]

lemma send_chunks_live:
  assumes "live r" "0 < c" "header + hSize = buffer" "length block = buffer + nSize" "length cont \<le> buffer"
  shows "\<exists>r1. send_chunks cont c block header hSize buffer nSize r = Some (True, r1) \<and>
    sends r (take hSize (drop header block) @ chunked cont c (drop buffer block)) r1"
  using assms
proof (induction nSize arbitrary: c block header hSize buffer r rule: less_induct)
  case (less nSize)
  let ?n = "min c nSize" and ?d = "drop buffer block"
  obtain r1 where r1: "WriteN (take (?n + hSize) (drop header block)) r = (True, r1)"
      "sends r (take (?n + hSize) (drop header block)) r1"
    using WriteN_live [OF less.prems(1)] by blast
  have split: "take (?n + hSize) (drop header block) = take hSize (drop header block) @ take ?n ?d"
    using less.prems(3) by (simp add: take_add add.commute)
  show ?case
  proof (cases "nSize \<le> c")
    case True
    then have "chunked cont c ?d = ?d" "?n = nSize" using less.prems(4) by (auto simp: chunked.simps)
    then show ?thesis
      using r1 split less.prems by (simp add: send_chunks.simps [of cont c])
  next
    case False
    let ?h = "buffer + c - length cont" and ?block = "write_at block (buffer + c - length cont) cont"
    have put: "block_put ?h cont block = Some ?block" using less.prems False by (simp add: block_put_def)
    have len: "length ?block = buffer + c + (nSize - c)" using less.prems False by (simp add: buf_simps)
    have "\<exists>r2. send_chunks cont c ?block ?h (length cont) (buffer + c) (nSize - c) r1 = Some (True, r2) \<and>
        sends r1 (take (length cont) (drop ?h ?block) @ chunked cont c (drop (buffer + c) ?block)) r2"
      using less.prems False len sends_live [OF less.prems(1) r1(2)] by (intro less.IH) auto
    moreover have "take (length cont) (drop ?h ?block) = cont" "drop (buffer + c) ?block = drop c ?d"
      using less.prems False by (simp_all add: write_at_def add.commute)
    moreover have "chunked cont c ?d = take c ?d @ cont @ chunked cont c (drop c ?d)"
      using less.prems False by (simp add: chunked.simps [of cont c ?d])
    ultimately obtain r2 where r2: "send_chunks cont c ?block ?h (length cont) (buffer + c) (nSize - c) r1 = Some (True, r2)"
        "sends r1 (cont @ chunked cont c (drop c ?d)) r2"
      and ch: "chunked cont c ?d = take c ?d @ cont @ chunked cont c (drop c ?d)"
      by auto
    from sends_trans [OF r1(2) r2(2)] have "sends r (take hSize (drop header block) @ chunked cont c ?d) r2"
      using False unfolding split ch by simp
    then show ?thesis
      using r1(1) r2(1) False less.prems put by (simp add: send_chunks.simps [of cont c block])
  qed
qed

section \<open>Messages on the wire\<close>

definition packet_data :: "RTMPPacket \<Rightarrow> byte list" where
  "packet_data p = (case m_body p of None \<Rightarrow> [] | Some block \<Rightarrow> drop RTMP_MAX_HEADER_SIZE block)"

definition wire_bytes :: "nat \<Rightarrow> RTMPPacket \<Rightarrow> byte list" where
  "wire_bytes c p =
    message_header p (m_nLastWireTimeStamp p) @
    chunked (continuation_header p (m_nLastWireTimeStamp p)) c (packet_data p)"

text \<open>What \<open>RTMP_Write\<close> gives to \<open>RTMP_SendPacket\<close>.\<close>

definition sendable :: "RTMPPacket \<Rightarrow> bool" where
  "sendable p \<longleftrightarrow>
    2 \<le> m_nChannel p \<and> m_nChannel p < 64 \<and> m_headerType p \<in> {RTMP_PACKET_SIZE_LARGE, RTMP_PACKET_SIZE_MEDIUM} \<and>
    m_packetType p \<noteq> RTMP_PACKET_TYPE_INVOKE \<and> unat (m_nBodySize p) < 2 ^ 24 \<and>
    (\<exists>block. m_body p = Some block \<and> length block = RTMP_MAX_HEADER_SIZE + unat (m_nBodySize p))"

definition on_wire :: "RTMPPacket option \<Rightarrow> RTMPPacket \<Rightarrow> RTMPPacket" where
  "on_wire prev p =
    (let (p1, last_time) = compress_header prev p in p1\<lparr>m_nLastWireTimeStamp := m_nTimeStamp p1 - last_time\<rparr>)"

lemmas header_type_defs = RTMP_PACKET_SIZE_LARGE_def RTMP_PACKET_SIZE_MEDIUM_def RTMP_PACKET_SIZE_SMALL_def
  RTMP_PACKET_SIZE_MINIMUM_def

lemma on_wire_fields:
  "m_packetType (on_wire prev p) = m_packetType p" "m_nChannel (on_wire prev p) = m_nChannel p"
  "m_nTimeStamp (on_wire prev p) = m_nTimeStamp p" "m_nInfoField2 (on_wire prev p) = m_nInfoField2 p"
  "m_nBodySize (on_wire prev p) = m_nBodySize p" "m_body (on_wire prev p) = m_body p"
  "m_nBytesRead (on_wire prev p) = m_nBytesRead p"
  by (auto simp: on_wire_def compress_header_def Let_def split: option.splits)

lemma on_wire_type:
  assumes "m_headerType p \<in> {RTMP_PACKET_SIZE_LARGE, RTMP_PACKET_SIZE_MEDIUM}"
  shows "m_headerType (on_wire prev p) \<in> {0, 1, 2, 3}"
  using assms by (auto simp: on_wire_def compress_header_def Let_def header_type_defs split: option.splits)

lemma packetSize_cases [simp]: "packetSize 0 = 12" "packetSize 1 = 8" "packetSize 2 = 4" "packetSize 3 = 1"
  by (simp_all add: packetSize_def)

lemma length_message_header:
  assumes "m_nChannel p < 64" "m_headerType p \<in> {0, 1, 2, 3}"
  shows "length (message_header p t) \<le> RTMP_MAX_HEADER_SIZE"
  using assms by (auto simp: message_header_def basic_header_def channel_size_def RTMP_MAX_HEADER_SIZE_def Let_def)

lemma length_continuation_header:
  "m_nChannel p < 64 \<Longrightarrow> length (continuation_header p t) \<le> RTMP_MAX_HEADER_SIZE"
  by (auto simp: continuation_header_def basic_header_def channel_size_def RTMP_MAX_HEADER_SIZE_def)

lemma SendPacket_live:
  assumes "live r" "0 < m_outChunkSize r" "sendable p"
  defines "slots \<equiv> channel_slots (m_nChannel p) None (m_vecChannelsOut r)"
  defines "q \<equiv> on_wire (slots ! m_nChannel p) p"
  shows "\<exists>rs. healthy rs \<and> RTMP_SendPacket p r = Some (True, q,
    r\<lparr>sb_sent := sb_sent r @ wire_bytes (m_outChunkSize r) q, sb_results := rs,
      m_vecChannelsOut := slots[m_nChannel p := Some q]\<rparr>)"
proof -
  obtain block where block: "m_body p = Some block" "length block = RTMP_MAX_HEADER_SIZE + unat (m_nBodySize p)"
    using assms(3) by (auto simp: sendable_def)
  have p: "m_nChannel p < 64" "unat (m_nBodySize p) < 2 ^ 24" "m_packetType p \<noteq> RTMP_PACKET_TYPE_INVOKE"
    using assms(3) by (auto simp: sendable_def)
  have ht: "m_headerType q \<in> {0, 1, 2, 3}" using assms(3) on_wire_type by (simp add: q_def sendable_def)
  obtain p1 last_time where c: "compress_header (slots ! m_nChannel p) p = (p1, last_time)" by fastforce
  define t where "t = m_nTimeStamp p1 - last_time"
  have q: "q = p1\<lparr>m_nLastWireTimeStamp := t\<rparr>" "m_nLastWireTimeStamp q = t"
    using c by (simp_all add: q_def on_wire_def t_def)
  have ht1: "\<not> m_headerType p1 > 3" using ht q(1) by auto
  note f = on_wire_fields [of "slots ! m_nChannel p" p, folded q_def]
  have p1: "m_packetType p1 = m_packetType p" "m_nBodySize p1 = m_nBodySize p" "m_body p1 = Some block"
    using f q(1) block(1) by simp_all
  let ?hdr = "message_header q t" and ?cont = "continuation_header q t" and ?r = "r\<lparr>m_vecChannelsOut := slots\<rparr>"
  have lh: "length ?hdr \<le> RTMP_MAX_HEADER_SIZE" using length_message_header [of q] p f ht by simp
  define h where "h = RTMP_MAX_HEADER_SIZE - length ?hdr"
  have put: "block_put h ?hdr block = Some (write_at block h ?hdr)"
    using lh block(2) by (simp add: block_put_def h_def)
  have drops: "take (length ?hdr) (drop h (write_at block h ?hdr)) = ?hdr"
      "drop RTMP_MAX_HEADER_SIZE (write_at block h ?hdr) = packet_data q"
    using lh block f by (simp_all add: write_at_def h_def packet_data_def)
  have "\<exists>r1. send_chunks ?cont (m_outChunkSize ?r) (write_at block h ?hdr) h (length ?hdr) RTMP_MAX_HEADER_SIZE
      (unat (m_nBodySize q)) ?r = Some (True, r1) \<and>
      sends ?r (take (length ?hdr) (drop h (write_at block h ?hdr)) @
        chunked ?cont (m_outChunkSize ?r) (drop RTMP_MAX_HEADER_SIZE (write_at block h ?hdr))) r1"
    using assms(1,2) lh block f p length_continuation_header [of q t]
    by (intro send_chunks_live) (auto simp: live_def h_def buf_simps)
  then obtain r1 where r1: "send_chunks ?cont (m_outChunkSize r) (write_at block h ?hdr) h (length ?hdr)
      RTMP_MAX_HEADER_SIZE (unat (m_nBodySize q)) ?r = Some (True, r1)"
      "sends ?r (wire_bytes (m_outChunkSize r) q) r1"
    unfolding drops by (auto simp: wire_bytes_def q(2))
  then obtain rs where rs: "r1 = ?r\<lparr>sb_sent := sb_sent r @ wire_bytes (m_outChunkSize r) q, sb_results := rs\<rparr>" "healthy rs"
    by (auto simp: sends_def)
  have "RTMP_SendPacket p r = Some (True, q, r1\<lparr>m_vecChannelsOut := (m_vecChannelsOut r1)[m_nChannel p := Some q]\<rparr>)"
    using c ht1 block p f put r1(1) p1
    by (simp add: RTMP_SendPacket_def Let_def q(1)[symmetric] t_def[symmetric] h_def[symmetric] slots_def[symmetric]
        packet_block_def cong: if_cong)
  then show ?thesis using rs by auto
qed

section \<open>Receiving\<close>

lemma ReadN_Some: "ReadN n r = (Some d, r1) \<Longrightarrow> sb_in r = d @ sb_in r1 \<and> length d = n"
  by (auto simp: ReadN_def split: if_splits)

lemma ReadN_append: "length d = n \<Longrightarrow> sb_in r = d @ rest \<Longrightarrow> ReadN n r = (Some d, r\<lparr>sb_in := rest\<rparr>)"
  by (simp add: ReadN_def)

lemma finish_chunk_in: "finish_chunk ext p r = (p1, r1) \<Longrightarrow> sb_in r1 = sb_in r"
  by (auto simp: finish_chunk_def Let_def split: if_splits)

lemma read_body_in: "read_body ht ext p r = Some (True, p1, r1) \<Longrightarrow> length (sb_in r1) \<le> length (sb_in r)"
  by (auto simp: read_body_def Let_def ReadN_def split: if_splits option.splits prod.splits dest!: finish_chunk_in)

lemma read_basic_header_in:
  "read_basic_header r = (Some h, r1) \<Longrightarrow> length (sb_in r1) < length (sb_in r)"
  by (auto simp: read_basic_header_def Let_def split: if_splits option.splits prod.splits dest!: ReadN_Some)

text \<open>Every chunk takes at least a byte from the socket.\<close>

lemma ReadPacket_progress:
  assumes "RTMP_ReadPacket p r = Some (True, p1, r1)"
  shows "length (sb_in r1) < length (sb_in r)"
  using assms
  by (auto simp: RTMP_ReadPacket_def Let_def grow_in_channels_def split: option.splits prod.splits if_splits
      dest!: read_basic_header_in read_body_in ReadN_Some)

text \<open>The messages that complete when chunks are read until there are no more.\<close>

function receive :: "RTMP \<Rightarrow> (RTMPPacket list \<times> RTMP) option" where
  "receive r =
    (if sb_in r = [] then Some ([], r)
     else
       (case RTMP_ReadPacket RTMPPacket_zero r of
          None \<Rightarrow> None
        | Some (ok, p, r1) \<Rightarrow>
            if \<not> ok then Some ([], r1)
            else map_option (\<lambda>(ps, r2). (if RTMPPacket_IsReady p then p # ps else ps, r2)) (receive r1)))"
  by pat_completeness auto
termination by (relation "measure (\<lambda>r. length (sb_in r))") (auto dest: ReadPacket_progress)

declare receive.simps [simp del]

section \<open>Reading a chunk that was sent\<close>

lemma header_byte_fields:
  assumes "m_headerType p \<in> {0, 1, 2, 3}" "m_nChannel p < 64"
  shows "drop_bit 6 (header_byte p AND 0xC0) = m_headerType p" "unat (header_byte p AND 0x3F) = m_nChannel p"
    "drop_bit 6 ((0xC0 OR header_byte p) AND 0xC0) = 3" "unat ((0xC0 OR header_byte p) AND 0x3F) = m_nChannel p"
proof -
  define x :: byte where "x = word_of_nat (m_nChannel p)"
  have ux: "unat x = m_nChannel p" using assms(2) by (simp add: x_def unat_of_nat)
  then have "take_bit 6 x = x" using assms(2) by (simp add: word_unat_eq_iff unsigned_take_bit_eq take_bit_nat_eq_self)
  then have x: "bit x n \<Longrightarrow> n < 6" for n by (metis bit_take_bit_iff)
  have masks: "(0xC0 :: byte) = push_bit 6 (mask 2)" "(0x3F :: byte) = mask 6" "(3 :: byte) = mask 2"
    by (simp_all add: mask_eq_exp_minus_1)
  have ht: "take_bit 2 (m_headerType p) = m_headerType p" using assms(1) by (auto simp: take_bit_eq_mask mask_eq_exp_minus_1)
  then have h: "bit (m_headerType p) n \<Longrightarrow> n < 2" for n by (metis bit_take_bit_iff)
  have hb: "header_byte p = push_bit 6 (m_headerType p) OR x"
    using assms(2) by (simp add: header_byte_def channel_size_def x_def)
  have bits: "bit (header_byte p) n \<longleftrightarrow> 6 \<le> n \<and> n < 8 \<and> bit (m_headerType p) (n - 6) \<or> bit x n" if "n < 8" for n
    using that by (auto simp: hb bit_simps)
  show "drop_bit 6 (header_byte p AND 0xC0) = m_headerType p"
    unfolding masks(1) hb by (rule bit_word_eqI) (auto simp: bit_simps dest: h x)
  have "header_byte p AND 0x3F = x" "(0xC0 OR header_byte p) AND 0x3F = x"
    unfolding masks hb by (rule bit_word_eqI; auto simp: bit_simps dest: x)+
  then show "unat (header_byte p AND 0x3F) = m_nChannel p" "unat ((0xC0 OR header_byte p) AND 0x3F) = m_nChannel p"
    using ux by simp_all
  show "drop_bit 6 ((0xC0 OR header_byte p) AND 0xC0) = 3"
    unfolding masks hb by (rule bit_word_eqI) (auto simp: bit_simps dest: h x)
qed

lemma read_basic_header_sent:
  assumes "m_headerType p \<in> {0, 1, 2, 3}" "2 \<le> m_nChannel p" "m_nChannel p < 64"
  shows "sb_in r = basic_header (header_byte p) (m_nChannel p) @ rest \<Longrightarrow>
      read_basic_header r = (Some (m_headerType p, m_nChannel p), r\<lparr>sb_in := rest\<rparr>)"
    "sb_in r = basic_header (0xC0 OR header_byte p) (m_nChannel p) @ rest \<Longrightarrow>
      read_basic_header r = (Some (3, m_nChannel p), r\<lparr>sb_in := rest\<rparr>)"
  using header_byte_fields [OF assms(1,3)] assms(2,3)
  by (simp_all add: read_basic_header_def basic_header_def channel_size_def ReadN_def Let_def)

lemma sint_nat32: "n < 2 ^ 31 \<Longrightarrow> sint (word_of_nat n :: u32) = int n"
proof -
  assume "n < 2 ^ 31"
  moreover have "(word_of_nat n :: u32) = word_of_int (int n)" by simp
  ultimately show ?thesis by (simp add: sint_sbintrunc' signed_take_bit_int_eq_self del: of_int_of_nat_eq)
qed

text \<open>The bytes of one chunk: \<open>d\<close> is the data of the whole message, of which \<open>k\<close> bytes have been read.\<close>

lemma read_body_sent:
  assumes "length d = unat (m_nBodySize q)" "length d < 2 ^ 24" "unat (m_nBytesRead q) = k"
    and body: "case m_body q of None \<Rightarrow> k = 0
      | Some block \<Rightarrow> length block = RTMP_MAX_HEADER_SIZE + length d \<and> take k (drop RTMP_MAX_HEADER_SIZE block) = take k d"
    and c: "m = min (length d - k) (m_inChunkSize r)" and "k < length d \<or> m_body q = None"
    and inp: "sb_in r = take m (drop k d) @ rest"
  shows "\<exists>q1. read_body ht False q r = (let (p1, r1) = finish_chunk False q1 (r\<lparr>sb_in := rest\<rparr>) in Some (True, p1, r1)) \<and>
    (\<exists>h b. q1 = q\<lparr>m_headerType := h, m_body := b, m_nBytesRead := word_of_nat (k + m)\<rparr> \<and>
      (case b of None \<Rightarrow> d = []
       | Some block \<Rightarrow> d \<noteq> [] \<and> length block = RTMP_MAX_HEADER_SIZE + length d \<and>
           take (k + m) (drop RTMP_MAX_HEADER_SIZE block) = take (k + m) d))"
proof -
  define q0 where "q0 = (if m_nBodySize q > 0 \<and> m_body q = None
    then (RTMPPacket_Alloc (m_nBodySize q) q)\<lparr>m_headerType := ht\<rparr> else q)"
  have k: "k \<le> length d" using assms(6) body by auto
  have n0: "m_nBodySize q > 0 \<longleftrightarrow> d \<noteq> []" using assms(1) by (metis length_0_conv unat_eq_zero word_gt_0)
  have q0: "m_nBodySize q0 = m_nBodySize q" "unat (m_nBytesRead q0) = k"
    using assms(3) body by (auto simp: q0_def RTMPPacket_Alloc_def split: option.splits)
  have ws: "m_nBodySize q0 = word_of_nat (length d)" "m_nBytesRead q0 = word_of_nat k"
    using q0(1) assms(1) by (simp_all flip: q0(2))
  have sub: "m_nBodySize q0 - m_nBytesRead q0 = word_of_nat (length d - k)"
    using k ws by (simp add: of_nat_diff)
  have todo: "sint (m_nBodySize q0 - m_nBytesRead q0) = int (length d - k)"
    using sint_nat32 [of "length d - k"] assms(2) sub by simp
  have ln: "length (take m (drop k d)) = m" using c by simp
  have read: "ReadN m r = (Some (take m (drop k d)), r\<lparr>sb_in := rest\<rparr>)" by (rule ReadN_append [OF ln inp])
  have nm: "min (nat (int (length d - k))) (m_inChunkSize r) = m" using c by simp
  have kw: "m_nBytesRead q0 + word_of_nat m = word_of_nat (k + m)" using ws(2) by simp
  define b where "b = (if d = [] then None
    else map_option (\<lambda>block. write_at block (RTMP_MAX_HEADER_SIZE + k) (take m (drop k d))) (m_body q0))"
  have blk: "\<exists>block. m_body q0 = Some block \<and> length block = RTMP_MAX_HEADER_SIZE + length d \<and>
      take k (drop RTMP_MAX_HEADER_SIZE block) = take k d" if "d \<noteq> []"
    using that body n0 assms(1) by (auto simp: q0_def RTMPPacket_Alloc_def split: option.splits)
  have nb: "m_body q0 = None" if "d = []" using that n0 assms(6) by (auto simp: q0_def)
  have stored: "(if take m (drop k d) = [] then Some (m_body q0)
      else Option.bind (m_body q0) (\<lambda>block. map_option Some
        (block_put (RTMP_MAX_HEADER_SIZE + unat (m_nBytesRead q0)) (take m (drop k d)) block))) = Some b"
  proof (cases "d = []")
    case False
    then obtain block where "m_body q0 = Some block" "length block = RTMP_MAX_HEADER_SIZE + length d" using blk by blast
    then show ?thesis using False q0(2) k ln c by (auto simp: b_def block_put_def)
  qed (simp add: b_def nb)
  have "case b of None \<Rightarrow> d = [] | Some block \<Rightarrow> d \<noteq> [] \<and> length block = RTMP_MAX_HEADER_SIZE + length d \<and>
           take (k + m) (drop RTMP_MAX_HEADER_SIZE block) = take (k + m) d"
  proof (cases "d = []")
    case False
    then obtain block where bl: "m_body q0 = Some block" "length block = RTMP_MAX_HEADER_SIZE + length d"
        "take k (drop RTMP_MAX_HEADER_SIZE block) = take k d" using blk by blast
    have "take (k + m) (drop RTMP_MAX_HEADER_SIZE (write_at block (RTMP_MAX_HEADER_SIZE + k) (take m (drop k d)))) =
        take k (drop RTMP_MAX_HEADER_SIZE block) @ take m (drop k d)"
      using bl k ln by (simp add: write_at_def drop_take)
    then show ?thesis using False bl k ln c by (auto simp: b_def buf_simps take_add)
  qed (simp add: b_def)
  moreover have "q0\<lparr>m_body := b, m_nBytesRead := word_of_nat (k + m)\<rparr> =
      q\<lparr>m_headerType := m_headerType q0, m_body := b, m_nBytesRead := word_of_nat (k + m)\<rparr>"
    by (auto simp: q0_def RTMPPacket_Alloc_def)
  moreover have "read_body ht False q r =
      (let (p1, r1) = finish_chunk False (q0\<lparr>m_body := b, m_nBytesRead := word_of_nat (k + m)\<rparr>) (r\<lparr>sb_in := rest\<rparr>)
       in Some (True, p1, r1))"
    unfolding read_body_def q0_def [symmetric] Let_def todo nm
    by (simp only: of_nat_less_0_iff if_False read prod.case option.case stored kw)
  ultimately show ?thesis by blast
qed

section \<open>Agreement of sender and receiver\<close>

text \<open>What the receiver remembers of the last packet of a channel.\<close>

definition synced :: "nat \<Rightarrow> RTMPPacket option \<Rightarrow> RTMP \<Rightarrow> bool" where
  "synced ch prev r \<longleftrightarrow>
    (case prev of
       None \<Rightarrow> True
     | Some p \<Rightarrow>
         ch < length (m_vecChannelsIn r) \<and> ch < length (m_channelTimestamp r) \<and>
         m_channelTimestamp r ! ch = m_nTimeStamp p \<and>
         (\<exists>q. m_vecChannelsIn r ! ch = Some q \<and> m_nChannel q = ch \<and> m_body q = None \<and> m_nBytesRead q = 0 \<and>
           \<not> m_hasAbsTimestamp q \<and> m_nBodySize q = m_nBodySize p \<and> m_packetType q = m_packetType p \<and>
           m_nInfoField2 q = m_nInfoField2 p \<and> m_nTimeStamp q = m_nLastWireTimeStamp p))"

text \<open>How a packet on the wire may depend on the one before it.\<close>

definition follows :: "RTMPPacket option \<Rightarrow> RTMPPacket \<Rightarrow> bool" where
  "follows prev p \<longleftrightarrow>
    (if m_headerType p = 0 then m_nLastWireTimeStamp p = m_nTimeStamp p
     else \<exists>pp. prev = Some pp \<and> m_nLastWireTimeStamp p = m_nTimeStamp p - m_nTimeStamp pp \<and>
       m_nInfoField2 p = m_nInfoField2 pp \<and> m_headerType p \<in> {1, 2, 3} \<and>
       (m_headerType p \<in> {2, 3} \<longrightarrow> m_nBodySize p = m_nBodySize pp \<and> m_packetType p = m_packetType pp) \<and>
       (m_headerType p = 3 \<longrightarrow> m_nLastWireTimeStamp p = m_nLastWireTimeStamp pp))"

lemma on_wire_follows:
  assumes "sendable p"
    and "m_headerType p \<noteq> RTMP_PACKET_SIZE_LARGE \<Longrightarrow> \<exists>pp. prev = Some pp \<and> m_nInfoField2 p = m_nInfoField2 pp"
  shows "follows prev (on_wire prev p)"
  using assms
  by (auto simp: sendable_def follows_def on_wire_def compress_header_def Let_def header_type_defs split: option.splits)

text \<open>The receiver has read the header of \<open>p\<close>.\<close>

definition carries :: "RTMPPacket \<Rightarrow> RTMPPacket \<Rightarrow> bool" where
  "carries p q \<longleftrightarrow>
    m_packetType q = m_packetType p \<and> m_nChannel q = m_nChannel p \<and> m_nTimeStamp q = m_nLastWireTimeStamp p \<and>
    m_nInfoField2 q = m_nInfoField2 p \<and> m_nBodySize q = m_nBodySize p \<and>
    (m_hasAbsTimestamp q \<longleftrightarrow> m_headerType p = 0)"

text \<open>The time of \<open>p\<close> can be computed from what is on the wire.\<close>

definition timed :: "RTMPPacket \<Rightarrow> RTMP \<Rightarrow> bool" where
  "timed p r \<longleftrightarrow>
    m_nChannel p < length (m_vecChannelsIn r) \<and> m_nChannel p < length (m_channelTimestamp r) \<and>
    m_nTimeStamp p = (if m_headerType p = 0 then m_nLastWireTimeStamp p
      else m_nLastWireTimeStamp p + m_channelTimestamp r ! m_nChannel p)"

lemma channel_slots_nth [simp]: "channel_slots ch x xs ! ch = (if ch < length xs then xs ! ch else x)"
  by (auto simp: channel_slots_def nth_append)

lemma channel_slots_length [simp]: "ch < length (channel_slots ch x xs)"
  by (auto simp: channel_slots_def)

lemma grow_timed:
  assumes "follows prev p" "synced (m_nChannel p) prev r"
  shows "timed p (grow_in_channels (m_nChannel p) r)"
  using assms by (auto simp: follows_def synced_def timed_def grow_in_channels_def split: if_splits option.splits)

lemma small_time: "t < 0xFFFFFF \<Longrightarrow> take_bit 24 (t :: u32) = t"
proof -
  assume "t < 0xFFFFFF"
  then have "unat t < 2 ^ 24" by (simp add: word_less_nat_alt)
  then show ?thesis by (simp add: word_unat_eq_iff unsigned_take_bit_eq take_bit_nat_eq_self)
qed

lemma small_size: "unat n < 2 ^ 24 \<Longrightarrow> take_bit 24 (n :: u32) = n"
  by (simp add: word_unat_eq_iff unsigned_take_bit_eq take_bit_nat_eq_self)

lemma header_carried:
  assumes "follows prev p" "synced (m_nChannel p) prev r" "2 \<le> m_nChannel p" "m_nChannel p < 64"
    and t: "m_nLastWireTimeStamp p < 0xFFFFFF" and n: "unat (m_nBodySize p) < 2 ^ 24"
    and inp: "sb_in r = message_header p (m_nLastWireTimeStamp p) @ rest"
  shows "\<exists>q. RTMP_ReadPacket RTMPPacket_zero r =
      read_body (m_headerType p) False q (grow_in_channels (m_nChannel p) (r\<lparr>sb_in := rest\<rparr>)) \<and>
    carries p q \<and> m_nBytesRead q = 0 \<and> m_body q = None"
proof -
  let ?t = "m_nLastWireTimeStamp p" and ?ch = "m_nChannel p"
  have ht: "m_headerType p \<in> {0, 1, 2, 3}" using assms(1) by (auto simp: follows_def split: if_splits)
  have t24: "take_bit 24 ?t = ?t" "take_bit 24 (m_nBodySize p) = m_nBodySize p" "?t \<noteq> 0xFFFFFF" "\<not> ?t > 0xFFFFFF" "\<not> ?t \<ge> 0xFFFFFF"
    using t small_time small_size n by auto
  define body where "body = drop 1 (message_header p ?t)"
  define g where "g = grow_in_channels ?ch (r\<lparr>sb_in := body @ rest\<rparr>)"
  have split: "message_header p ?t = basic_header (header_byte p) ?ch @ body"
    using assms(4) by (simp add: body_def message_header_def basic_header_def channel_size_def Let_def)
  have bh: "read_basic_header r = (Some (m_headerType p, ?ch), r\<lparr>sb_in := body @ rest\<rparr>)"
    using ht assms(3,4) inp split by (intro read_basic_header_sent) auto
  have body: "body = (if m_headerType p = 3 then [] else be24 ?t) @
      (if m_headerType p = 0 \<or> m_headerType p = 1 then be24 (m_nBodySize p) @ [m_packetType p] else []) @
      (if m_headerType p = 0 then le32 (m_nInfoField2 p) else [])"
    using ht assms(4) t24 by (auto simp: body_def message_header_def basic_header_def channel_size_def Let_def)
  have len: "length body = packetSize (m_headerType p) - 1" using ht by (auto simp: body)
  have rd: "ReadN (packetSize (m_headerType p) - 1) g = (Some body, grow_in_channels ?ch (r\<lparr>sb_in := rest\<rparr>))"
    using len by (simp add: ReadN_append g_def grow_in_channels_def)
  define q where "q = read_fields body (chunk_start (m_headerType p) ?ch g RTMPPacket_zero)"
  have start: "m_vecChannelsIn g ! ?ch = (if ?ch < length (m_vecChannelsIn r) then m_vecChannelsIn r ! ?ch else None)"
    by (simp add: g_def grow_in_channels_def)
  have q: "carries p q \<and> m_nBytesRead q = 0 \<and> m_body q = None \<and> m_nTimeStamp q = ?t"
  proof (cases "m_headerType p = 0")
    case True
    then show ?thesis
      using assms(1) t24 decode_be24 [of ?t] decode_be24 [of "m_nBodySize p"] decode_le32 [of _ "[]"]
      by (simp add: q_def body read_fields_def chunk_start_def RTMP_LARGE_HEADER_SIZE_def RTMPPacket_zero_def carries_def
          nth_append Let_def)
  next
    case False
    then obtain pp where pp: "prev = Some pp" "m_nInfoField2 p = m_nInfoField2 pp"
        "m_headerType p \<in> {2, 3} \<Longrightarrow> m_nBodySize p = m_nBodySize pp \<and> m_packetType p = m_packetType pp"
        "m_headerType p = 3 \<Longrightarrow> ?t = m_nLastWireTimeStamp pp" "m_headerType p \<in> {1, 2, 3}"
      using assms(1) by (auto simp: follows_def)
    with assms(2) False obtain q0 where "chunk_start (m_headerType p) ?ch g RTMPPacket_zero = q0" "m_nChannel q0 = ?ch"
        "m_body q0 = None" "m_nBytesRead q0 = 0" "\<not> m_hasAbsTimestamp q0" "m_nBodySize q0 = m_nBodySize pp"
        "m_packetType q0 = m_packetType pp" "m_nInfoField2 q0 = m_nInfoField2 pp" "m_nTimeStamp q0 = m_nLastWireTimeStamp pp"
      by (auto simp: synced_def chunk_start_def start RTMP_LARGE_HEADER_SIZE_def)
    then show ?thesis
      using pp t24 decode_be24 [of ?t] decode_be24 [of ?t "[]"] decode_be24 [of "m_nBodySize p"]
      by (auto simp: q_def body read_fields_def carries_def nth_append Let_def)
  qed
  then have "\<not> has_extended body q" using t24 by (simp add: has_extended_def)
  then show ?thesis using bh rd q by (auto simp: RTMP_ReadPacket_def Let_def g_def q_def)
qed

section \<open>Whole messages\<close>

definition message_tag :: "RTMPPacket \<Rightarrow> flv_tag" where
  "message_tag q = \<lparr>tag_type = m_packetType q, tag_time = unat (m_nTimeStamp q), tag_body = packet_data q\<rparr>"

text \<open>A message of which \<open>k\<close> bytes have been read and more are to come.\<close>

definition partly_read :: "RTMPPacket \<Rightarrow> byte list \<Rightarrow> nat \<Rightarrow> RTMP \<Rightarrow> bool" where
  "partly_read p d k r \<longleftrightarrow>
    timed p r \<and> 0 < k \<and> k < length d \<and>
    (\<exists>q block. m_vecChannelsIn r ! m_nChannel p = Some q \<and> carries p q \<and> unat (m_nBytesRead q) = k \<and> m_body q = Some block \<and>
      length block = RTMP_MAX_HEADER_SIZE + length d \<and> take k (drop RTMP_MAX_HEADER_SIZE block) = take k d)"

lemma read_step:
  assumes "carries p q" "timed p r" "length d = unat (m_nBodySize p)" "length d < 2 ^ 24" "unat (m_nBytesRead q) = k"
    and "case m_body q of None \<Rightarrow> k = 0
      | Some block \<Rightarrow> length block = RTMP_MAX_HEADER_SIZE + length d \<and> take k (drop RTMP_MAX_HEADER_SIZE block) = take k d"
    and "m = min (length d - k) (m_inChunkSize r)" "0 < m_inChunkSize r" "k < length d \<or> m_body q = None"
    and "sb_in r = take m (drop k d) @ rest"
  shows "\<exists>q1 r1. read_body ht False q r = Some (True, q1, r1) \<and> sb_in r1 = rest \<and> m_inChunkSize r1 = m_inChunkSize r \<and>
    (if k + m = length d
     then RTMPPacket_IsReady q1 \<and> synced (m_nChannel p) (Some p) r1 \<and> m_nInfoField2 q1 = m_nInfoField2 p \<and>
       message_tag q1 = \<lparr>tag_type = m_packetType p, tag_time = unat (m_nTimeStamp p), tag_body = d\<rparr>
     else \<not> RTMPPacket_IsReady q1 \<and> partly_read p d (k + m) r1)"
proof -
  obtain q1 h b where q1: "read_body ht False q r = (let (p1, r1) = finish_chunk False q1 (r\<lparr>sb_in := rest\<rparr>) in Some (True, p1, r1))"
      "q1 = q\<lparr>m_headerType := h, m_body := b, m_nBytesRead := word_of_nat (k + m)\<rparr>"
      "case b of None \<Rightarrow> d = [] | Some block \<Rightarrow> d \<noteq> [] \<and> length block = RTMP_MAX_HEADER_SIZE + length d \<and>
        take (k + m) (drop RTMP_MAX_HEADER_SIZE block) = take (k + m) d"
    using read_body_sent [of d q k m r rest ht] assms by (auto simp: carries_def)
  have km: "k + m \<le> length d" using assms(6,7,9) by (auto split: option.splits)
  have un: "unat (word_of_nat (k + m) :: u32) = k + m" using km assms(4) by (simp add: unat_of_nat take_bit_nat_eq_self del: of_nat_add)
  have ready: "RTMPPacket_IsReady q1 \<longleftrightarrow> k + m = length d"
    using q1(2) assms(1,3) un by (auto simp: RTMPPacket_IsReady_def carries_def word_unat_eq_iff simp del: of_nat_add)
  show ?thesis
  proof (cases "k + m = length d")
    case True
    have "packet_data q1 = d" using q1(2,3) True by (auto simp: packet_data_def split: option.splits)
    then show ?thesis
      using q1(1,2) True ready assms(1,2)
      by (auto simp: finish_chunk_def Let_def carries_def timed_def synced_def message_tag_def packet_data_def
          RTMPPacket_IsReady_def simp del: of_nat_add)
  next
    case False
    then have "k < length d" "0 < m" using km assms(7,8) by auto
    then show ?thesis
      using q1 False ready assms(1,2) km un
      by (auto simp: finish_chunk_def Let_def carries_def timed_def partly_read_def RTMPPacket_IsReady_def
          simp del: of_nat_add split: option.splits)
  qed
qed

text \<open>The result of receiving a message: it comes first, and the rest is received from a state that agrees.\<close>

definition receives :: "RTMPPacket \<Rightarrow> byte list \<Rightarrow> byte list \<Rightarrow> RTMP \<Rightarrow> bool" where
  "receives p d rest r \<longleftrightarrow>
    (\<exists>q r1. receive r = map_option (\<lambda>(ps, r2). (q # ps, r2)) (receive r1) \<and> sb_in r1 = rest \<and>
      m_inChunkSize r1 = m_inChunkSize r \<and> synced (m_nChannel p) (Some p) r1 \<and> m_nInfoField2 q = m_nInfoField2 p \<and>
      message_tag q = \<lparr>tag_type = m_packetType p, tag_time = unat (m_nTimeStamp p), tag_body = d\<rparr>)"

lemma receive_ready:
  assumes "RTMP_ReadPacket RTMPPacket_zero r = Some (True, q, r1)" "sb_in r \<noteq> []" "RTMPPacket_IsReady q"
  shows "receive r = map_option (\<lambda>(ps, r2). (q # ps, r2)) (receive r1)"
  using assms by (simp add: receive.simps [of r])

lemma receive_partly:
  assumes "RTMP_ReadPacket RTMPPacket_zero r = Some (True, q, r1)" "sb_in r \<noteq> []" "\<not> RTMPPacket_IsReady q"
  shows "receive r = receive r1"
  using assms by (cases "receive r1") (auto simp: receive.simps [of r])

lemma receives_rest:
  assumes "partly_read p d k r" "follows prev p" "2 \<le> m_nChannel p" "m_nChannel p < 64"
    and "length d = unat (m_nBodySize p)" "length d < 2 ^ 24" "0 < m_inChunkSize r" "m_nLastWireTimeStamp p < 0xFFFFFF"
    and "cont = continuation_header p (m_nLastWireTimeStamp p)"
    and "sb_in r = cont @ chunked cont (m_inChunkSize r) (drop k d) @ rest"
  shows "receives p d rest r"
  using assms
proof (induction "length d - k" arbitrary: k r rule: less_induct)
  case less
  let ?c = "m_inChunkSize r" and ?e = "drop k d"
  obtain q block where q: "m_vecChannelsIn r ! m_nChannel p = Some q" "carries p q" "unat (m_nBytesRead q) = k"
      "m_body q = Some block" "length block = RTMP_MAX_HEADER_SIZE + length d"
      "take k (drop RTMP_MAX_HEADER_SIZE block) = take k d"
    and k: "0 < k" "k < length d" and tm: "timed p r"
    using less.prems(1) by (auto simp: partly_read_def)
  have ht: "m_headerType p \<in> {0, 1, 2, 3}" using less.prems(2) by (auto simp: follows_def split: if_splits)
  have cont: "cont = basic_header (0xC0 OR header_byte p) (m_nChannel p)"
    using less.prems(8,9) by (simp add: continuation_header_def)
  define m where "m = min (length d - k) ?c"
  define tl where "tl = (if length ?e \<le> ?c then [] else cont @ chunked cont ?c (drop ?c ?e))"
  have ch: "chunked cont ?c ?e = take m ?e @ tl"
    using less.prems(7) by (auto simp: tl_def m_def chunked.simps [of cont ?c ?e])
  let ?r = "r\<lparr>sb_in := take m ?e @ tl @ rest\<rparr>"
  have bh: "read_basic_header r = (Some (3, m_nChannel p), ?r)"
    using ht less.prems(3,4,10) ch cont by (intro read_basic_header_sent(2)) auto
  have "grow_in_channels (m_nChannel p) ?r = ?r" using tm by (simp add: grow_in_channels_def channel_slots_def timed_def)
  moreover have "chunk_start 3 (m_nChannel p) ?r RTMPPacket_zero = q"
    using q(1) by (simp add: chunk_start_def RTMP_LARGE_HEADER_SIZE_def)
  ultimately have rp: "RTMP_ReadPacket RTMPPacket_zero r = read_body 3 False q ?r"
    using bh by (simp add: RTMP_ReadPacket_def Let_def ReadN_def read_fields_def has_extended_def)
  have "\<exists>q1 r1. read_body 3 False q ?r = Some (True, q1, r1) \<and> sb_in r1 = tl @ rest \<and> m_inChunkSize r1 = m_inChunkSize ?r \<and>
    (if k + m = length d
     then RTMPPacket_IsReady q1 \<and> synced (m_nChannel p) (Some p) r1 \<and> m_nInfoField2 q1 = m_nInfoField2 p \<and>
       message_tag q1 = \<lparr>tag_type = m_packetType p, tag_time = unat (m_nTimeStamp p), tag_body = d\<rparr>
     else \<not> RTMPPacket_IsReady q1 \<and> partly_read p d (k + m) r1)"
    using q k tm less.prems(5,6,7) by (intro read_step) (auto simp: timed_def m_def)
  then obtain q1 r1 where st: "RTMP_ReadPacket RTMPPacket_zero r = Some (True, q1, r1)" "sb_in r1 = tl @ rest"
      "m_inChunkSize r1 = ?c"
      "if k + m = length d
     then RTMPPacket_IsReady q1 \<and> synced (m_nChannel p) (Some p) r1 \<and> m_nInfoField2 q1 = m_nInfoField2 p \<and>
       message_tag q1 = \<lparr>tag_type = m_packetType p, tag_time = unat (m_nTimeStamp p), tag_body = d\<rparr>
     else \<not> RTMPPacket_IsReady q1 \<and> partly_read p d (k + m) r1"
    using rp by auto
  have ne: "sb_in r \<noteq> []" using less.prems(10) cont by (simp add: basic_header_def)
  show ?case
  proof (cases "k + m = length d")
    case True
    then have "tl = []" using k by (auto simp: tl_def m_def min_def split: if_splits)
    then show ?thesis using st True receive_ready [OF st(1) ne] by (auto simp: receives_def)
  next
    case False
    then have m: "m = ?c" "\<not> length ?e \<le> ?c" using k by (auto simp: m_def min_def split: if_splits)
    have "receives p d rest r1"
    proof (rule less.hyps [of "k + m"])
      show "length d - (k + m) < length d - k" using less.prems(7) m k by simp
      show "sb_in r1 = cont @ chunked cont (m_inChunkSize r1) (drop (k + m) d) @ rest"
        using st m by (simp add: tl_def add.commute)
    qed (use st False less.prems in auto)
    then show ?thesis using st(3,4) False receive_partly [OF st(1) ne] by (simp add: receives_def)
  qed
qed

lemma receives_message:
  assumes "follows prev p" "synced (m_nChannel p) prev r" "2 \<le> m_nChannel p" "m_nChannel p < 64"
    and "m_nLastWireTimeStamp p < 0xFFFFFF" "length (packet_data p) = unat (m_nBodySize p)" "unat (m_nBodySize p) < 2 ^ 24"
    and "0 < m_inChunkSize r" "sb_in r = wire_bytes (m_inChunkSize r) p @ rest"
  shows "receives p (packet_data p) rest r"
proof -
  let ?t = "m_nLastWireTimeStamp p" and ?c = "m_inChunkSize r" and ?d = "packet_data p"
  define cont where "cont = continuation_header p ?t"
  define m where "m = min (length ?d) ?c"
  define tl where "tl = (if length ?d \<le> ?c then [] else cont @ chunked cont ?c (drop ?c ?d))"
  have ch: "chunked cont ?c ?d = take m ?d @ tl"
    using assms(8) by (auto simp: tl_def m_def chunked.simps [of cont ?c ?d])
  let ?r = "grow_in_channels (m_nChannel p) (r\<lparr>sb_in := take m ?d @ tl @ rest\<rparr>)"
  have inp: "sb_in r = message_header p ?t @ take m ?d @ tl @ rest"
    using assms(9) ch by (simp add: wire_bytes_def cont_def)
  from header_carried [OF assms(1-5,7) inp] obtain q where q: "RTMP_ReadPacket RTMPPacket_zero r =
      read_body (m_headerType p) False q ?r" "carries p q" "m_nBytesRead q = 0" "m_body q = None"
    by blast
  have tm: "timed p ?r" using assms(1,2) by (intro grow_timed) (auto simp: synced_def split: option.splits)
  have gr: "m_inChunkSize ?r = ?c" "sb_in ?r = take m ?d @ tl @ rest" by (simp_all add: grow_in_channels_def)
  have "\<exists>q1 r1. read_body (m_headerType p) False q ?r = Some (True, q1, r1) \<and> sb_in r1 = tl @ rest \<and>
      m_inChunkSize r1 = m_inChunkSize ?r \<and>
    (if 0 + m = length ?d
     then RTMPPacket_IsReady q1 \<and> synced (m_nChannel p) (Some p) r1 \<and> m_nInfoField2 q1 = m_nInfoField2 p \<and>
       message_tag q1 = \<lparr>tag_type = m_packetType p, tag_time = unat (m_nTimeStamp p), tag_body = ?d\<rparr>
     else \<not> RTMPPacket_IsReady q1 \<and> partly_read p ?d (0 + m) r1)"
    using q tm gr assms(6-8) by (intro read_step) (auto simp: m_def)
  then obtain q1 r1 where st: "RTMP_ReadPacket RTMPPacket_zero r = Some (True, q1, r1)" "sb_in r1 = tl @ rest"
      "m_inChunkSize r1 = ?c"
      "if m = length ?d
     then RTMPPacket_IsReady q1 \<and> synced (m_nChannel p) (Some p) r1 \<and> m_nInfoField2 q1 = m_nInfoField2 p \<and>
       message_tag q1 = \<lparr>tag_type = m_packetType p, tag_time = unat (m_nTimeStamp p), tag_body = ?d\<rparr>
     else \<not> RTMPPacket_IsReady q1 \<and> partly_read p ?d m r1"
    using q(1) gr(1) unfolding add_0 by auto
  have ne: "sb_in r \<noteq> []" using inp by (simp add: message_header_def basic_header_def Let_def)
  show ?thesis
  proof (cases "m = length ?d")
    case True
    then have "tl = []" by (auto simp: tl_def m_def min_def split: if_splits)
    then show ?thesis using st True receive_ready [OF st(1) ne] by (auto simp: receives_def)
  next
    case False
    then have m: "m = ?c" "\<not> length ?d \<le> ?c" by (auto simp: m_def min_def split: if_splits)
    have "receives p ?d rest r1"
    proof (rule receives_rest)
      show "sb_in r1 = cont @ chunked cont (m_inChunkSize r1) (drop m ?d) @ rest" using st m by (simp add: tl_def)
    qed (use st False assms cont_def in auto)
    then show ?thesis using st(3,4) False receive_partly [OF st(1) ne] by (simp add: receives_def)
  qed
qed

end
