(* ===== verification/Rtmp_Messages.thy ===== *)
theory Rtmp_Messages
  imports Rtmp_Wire
begin

text \<open>
  FLV tags over a connection: \<open>RTMP_Write\<close> sends a tag as one message, and a peer that reads the
  bytes with \<open>RTMP_ReadPacket\<close> gets the types, times and bodies of the tags back, in order.
\<close>

section \<open>One tag\<close>

definition media_tag :: "flv_tag \<Rightarrow> bool" where
  "media_tag t \<longleftrightarrow> tag_ok t \<and> tag_type t \<in> {RTMP_PACKET_TYPE_AUDIO, RTMP_PACKET_TYPE_VIDEO, RTMP_PACKET_TYPE_INFO}"

text \<open>Tags that get a complete header.\<close>

definition complete_header :: "flv_tag \<Rightarrow> bool" where
  "complete_header t \<longleftrightarrow> tag_time t = 0 \<or> tag_type t = RTMP_PACKET_TYPE_INFO"

definition tag_packet :: "s32 \<Rightarrow> flv_tag \<Rightarrow> RTMPPacket \<Rightarrow> bool" where
  "tag_packet sid t p \<longleftrightarrow>
    sendable p \<and> m_nChannel p = 4 \<and> m_nInfoField2 p = sid \<and> m_packetType p = tag_type t \<and>
    m_nTimeStamp p = word_of_nat (tag_time t) \<and> packet_data p = tag_body t \<and>
    m_headerType p = (if complete_header t then RTMP_PACKET_SIZE_LARGE else RTMP_PACKET_SIZE_MEDIUM)"

lemma tag_time_bytes:
  assumes "n < 2 ^ 31"
  shows "take_bit 24 (word_of_nat n :: u32) OR push_bit 24 (ucast (word_of_nat (n div 2 ^ 24) :: byte)) = word_of_nat n"
proof -
  have "unat (word_of_nat (n div 2 ^ 24) :: byte) = n div 2 ^ 24"
    using assms by (simp add: unat_of_nat take_bit_nat_eq_self less_mult_imp_div_less)
  moreover have "unat (drop_bit 24 (word_of_nat n :: u32)) = n div 2 ^ 24"
    using assms by (simp add: drop_bit_eq_div unat_div unat_of_nat take_bit_nat_eq_self)
  ultimately have "(ucast (word_of_nat (n div 2 ^ 24) :: byte) :: u32) = drop_bit 24 (word_of_nat n)"
    using assms by (simp add: word_unat_eq_iff unsigned_ucast_eq take_bit_nat_eq_self less_mult_imp_div_less)
  then show ?thesis
    by (simp only:) (rule bit_word_eqI, auto simp: bit_simps)
qed

lemma start_message_tag:
  assumes "media_tag t" "m_nChannel pkt = 4" "m_nInfoField2 pkt = sid"
  defines "pkt1 \<equiv> start_message (tag_bytes t) pkt"
  shows "m_packetType pkt1 = tag_type t" "m_nTimeStamp pkt1 = word_of_nat (tag_time t)"
    "m_nBodySize pkt1 = word_of_nat (length (tag_body t))" "m_nBytesRead pkt1 = 0"
    "m_body pkt1 = Some (replicate (length (tag_body t) + RTMP_MAX_HEADER_SIZE) 0)"
    "m_headerType pkt1 = (if complete_header t then RTMP_PACKET_SIZE_LARGE else RTMP_PACKET_SIZE_MEDIUM)"
    "m_nChannel pkt1 = 4" "m_nInfoField2 pkt1 = sid"
proof -
  let ?buf = "tag_bytes t" and ?n = "length (tag_body t)"
  have n: "?n < 2 ^ 24" and tm: "tag_time t < 2 ^ 31" using assms(1) by (auto simp: media_tag_def tag_ok_def)
  have "AMF_DecodeInt24 (drop 1 ?buf) = take_bit 24 (word_of_nat ?n)"
    using decode_be24 [of "word_of_nat ?n"] by (simp add: tag_bytes_def)
  then have sz: "AMF_DecodeInt24 (drop (Suc 0) ?buf) = word_of_nat ?n"
    using n by (simp add: word_unat_eq_iff unsigned_take_bit_eq unat_of_nat take_bit_nat_eq_self)
  have "AMF_DecodeInt24 (drop 4 ?buf) = take_bit 24 (word_of_nat (tag_time t))"
    using decode_be24 [of "word_of_nat (tag_time t)"] by (simp add: tag_bytes_def)
  moreover have "?buf ! 7 = word_of_nat (tag_time t div 2 ^ 24)" by (simp add: tag_bytes_def nth_append nth_Cons')
  ultimately have time: "AMF_DecodeInt24 (drop 4 ?buf) OR push_bit 24 (ucast (?buf ! 7)) = word_of_nat (tag_time t)"
    using tag_time_bytes [OF tm] by simp
  have ty: "?buf ! 0 = tag_type t" by (simp add: tag_bytes_def)
  have zero: "(word_of_nat (tag_time t) :: u32) = 0 \<longleftrightarrow> tag_time t = 0"
    using tm by (simp add: word_unat_eq_iff unat_of_nat take_bit_nat_eq_self)
  note facts = pkt1_def start_message_def Let_def RTMPPacket_Alloc_def
  show "m_packetType pkt1 = tag_type t" "m_nTimeStamp pkt1 = word_of_nat (tag_time t)"
    "m_nBodySize pkt1 = word_of_nat (length (tag_body t))" "m_nBytesRead pkt1 = 0"
    "m_nChannel pkt1 = 4" "m_nInfoField2 pkt1 = sid"
    using sz time ty assms(2,3) by (simp_all add: facts)
  show "m_body pkt1 = Some (replicate (length (tag_body t) + RTMP_MAX_HEADER_SIZE) 0)"
    using sz n by (simp add: facts unat_of_nat take_bit_nat_eq_self)
  show "m_headerType pkt1 = (if complete_header t then RTMP_PACKET_SIZE_LARGE else RTMP_PACKET_SIZE_MEDIUM)"
    using assms(1) time ty zero by (auto simp: facts complete_header_def media_tag_def)
qed

text \<open>The sender between two tags.\<close>

definition idle :: "RTMP \<Rightarrow> bool" where
  "idle r \<longleftrightarrow> live r \<and> 0 < m_outChunkSize r \<and> m_nBytesRead (m_write r) = 0"

definition last_sent :: "RTMP \<Rightarrow> RTMPPacket option" where
  "last_sent r = (if 4 < length (m_vecChannelsOut r) then m_vecChannelsOut r ! 4 else None)"

lemma RTMP_Write_tag:
  assumes "idle r" "media_tag t"
  shows "\<exists>p r1. RTMP_Write (tag_bytes t) r = (Some (int (length (tag_bytes t))), r1) \<and> tag_packet (stream_id r) t p \<and> idle r1 \<and>
    sb_sent r1 = sb_sent r @ wire_bytes (m_outChunkSize r) (on_wire (last_sent r) p) \<and>
    last_sent r1 = Some (on_wire (last_sent r) p) \<and> m_outChunkSize r1 = m_outChunkSize r \<and> stream_id r1 = stream_id r \<and>
    sb_in r1 = sb_in r"
proof -
  let ?n = "length (tag_body t)" and ?buf = "tag_bytes t"
  define r0 where "r0 = r\<lparr>m_write := (m_write r)\<lparr>m_nChannel := 4, m_nInfoField2 := stream_id r\<rparr>\<rparr>"
  define pkt where "pkt = start_message ?buf (m_write r0)"
  note pkt = start_message_tag [OF assms(2), of "m_write r0" "stream_id r", folded pkt_def]
  have w: "m_nChannel (m_write r0) = 4" "m_nInfoField2 (m_write r0) = stream_id r" "m_nBytesRead (m_write r0) = 0"
    using assms(1) by (simp_all add: r0_def idle_def)
  note pkt = pkt [OF w(1,2)]
  have n: "?n < 2 ^ 24" using assms(2) by (simp add: media_tag_def tag_ok_def)
  have bs: "unat (m_nBodySize pkt) = ?n" using n pkt(3) by (simp add: unat_of_nat take_bit_nat_eq_self)
  define block where "block = write_at (replicate (?n + RTMP_MAX_HEADER_SIZE) 0) RTMP_MAX_HEADER_SIZE (tag_body t)"
  have blk: "length block = RTMP_MAX_HEADER_SIZE + ?n" "drop RTMP_MAX_HEADER_SIZE block = tag_body t"
    by (simp_all add: block_def write_at_def)
  define p where "p = pkt\<lparr>m_body := Some block, m_nBytesRead := m_nBodySize pkt\<rparr>"
  have ty: "tag_type t \<noteq> 0x46" "tag_type t \<noteq> RTMP_PACKET_TYPE_INVOKE"
    using assms(2) by (auto simp: media_tag_def RTMP_PACKET_TYPE_AUDIO_def RTMP_PACKET_TYPE_VIDEO_def
        RTMP_PACKET_TYPE_INFO_def RTMP_PACKET_TYPE_INVOKE_def)
  have skip: "skip_flv_header ?buf (int (length ?buf)) = (?buf, int (length ?buf))"
    using ty(1) by (auto simp: skip_flv_header_def tag_bytes_def bytes_of_string_def)
  have tp: "tag_packet (stream_id r) t p"
    using pkt blk ty bs n by (auto simp: tag_packet_def p_def sendable_def packet_data_def)
  then have send: "sendable p" and ch: "m_nChannel p = 4" by (simp_all add: tag_packet_def)
  have live: "live r0" "0 < m_outChunkSize r0" using assms(1) by (auto simp: idle_def live_def r0_def)
  have slot: "channel_slots 4 None (m_vecChannelsOut r0) ! 4 = last_sent r" by (simp add: r0_def last_sent_def)
  define q where "q = on_wire (last_sent r) p"
  obtain rs where rs: "healthy rs" "RTMP_SendPacket p r0 = Some (True, q, r0\<lparr>sb_sent := sb_sent r0 @
      wire_bytes (m_outChunkSize r0) q, sb_results := rs, m_vecChannelsOut := (channel_slots 4 None (m_vecChannelsOut r0))[4 := Some q]\<rparr>)"
    using SendPacket_live [OF live send] unfolding ch slot q_def by blast
  define r1 where "r1 = r0\<lparr>sb_sent := sb_sent r0 @ wire_bytes (m_outChunkSize r0) q, sb_results := rs,
    m_vecChannelsOut := (channel_slots 4 None (m_vecChannelsOut r0))[4 := Some q],
    m_write := (RTMPPacket_Free q)\<lparr>m_nBytesRead := 0\<rparr>\<rparr>"
  have tk: "take ?n (drop 11 ?buf) = tag_body t" by (simp add: tag_bytes_def)
  have sn: "sint (m_nBodySize pkt - m_nBytesRead pkt) = int ?n" using pkt(3,4) n sint_nat32 [of ?n] by simp
  have num: "min (int ?n) (int (length ?buf) - 11) = int ?n" by simp
  have wn: "word_of_int (int ?n) = m_nBodySize pkt" using pkt(3) by simp
  have put: "block_put (RTMP_MAX_HEADER_SIZE + unat (m_nBytesRead pkt)) (tag_body t)
      (replicate (?n + RTMP_MAX_HEADER_SIZE) 0) = Some block"
    using pkt(4) by (simp add: block_put_def block_def)
  have pk: "pkt\<lparr>m_body := Some block, m_nBytesRead := m_nBytesRead pkt + word_of_int (int ?n)\<rparr> = p"
    and full: "m_nBytesRead p = m_nBodySize p"
    using pkt(4) wn by (simp_all add: p_def)
  have fill: "fill_message (int (length ?buf)) pkt (drop 11 ?buf) (int (length ?buf) - 11) r0 =
      (Some (Inr (drop (15 + ?n) ?buf, 0)), r1)"
    unfolding fill_message_def Let_def sn num nat_int tk pkt(5) Option.bind.bind_lunit put option.case pk
    using rs(2) full by (simp add: r1_def)
  have "write_round (int (length ?buf)) ?buf (int (length ?buf)) r0 = (Some (Inr (drop (15 + ?n) ?buf, 0)), r1)"
    using fill w(3) skip by (simp add: write_round_def pkt_def)
  then have "RTMP_Write ?buf r = (Some (int (length ?buf)), r1)"
    by (simp add: RTMP_Write_def r0_def[symmetric] write_rounds.simps [of _ ?buf] write_rounds.simps [of _ _ 0])
  moreover have "idle r1" using rs(1) live by (auto simp: idle_def live_def r1_def RTMPPacket_Free_def)
  moreover have "last_sent r1 = Some q" by (simp add: last_sent_def r1_def)
  ultimately show ?thesis using tp by (auto simp: q_def r1_def r0_def)
qed

section \<open>Sequences of tags\<close>

fun write_tags :: "flv_tag list \<Rightarrow> RTMP \<Rightarrow> int option list \<times> RTMP" where
  "write_tags [] r = ([], r)"
| "write_tags (t # ts) r =
    (let (ret, r1) = RTMP_Write (tag_bytes t) r; (rets, r2) = write_tags ts r1 in (ret # rets, r2))"

text \<open>
  The times of tags for which no extended time stamp is needed: after the tag at time \<open>T\<close>, a tag
  has a complete header, or comes no earlier and less than \<open>0xFFFFFF\<close> milliseconds later.
\<close>

fun steady :: "nat option \<Rightarrow> flv_tag list \<Rightarrow> bool" where
  "steady T [] \<longleftrightarrow> True"
| "steady T (t # ts) \<longleftrightarrow>
    (if complete_header t then tag_time t < 0xFFFFFF
     else case T of None \<Rightarrow> False | Some t0 \<Rightarrow> t0 \<le> tag_time t \<and> tag_time t - t0 < 0xFFFFFF) \<and>
    steady (Some (tag_time t)) ts"

definition channel_at :: "s32 \<Rightarrow> nat option \<Rightarrow> RTMPPacket option \<Rightarrow> bool" where
  "channel_at sid T prev \<longleftrightarrow>
    (case prev of None \<Rightarrow> T = None
     | Some pp \<Rightarrow> \<exists>t0. T = Some t0 \<and> m_nInfoField2 pp = sid \<and> m_nTimeStamp pp = word_of_nat t0)"

lemma word_of_nat_less_limit: "n < 0xFFFFFF \<Longrightarrow> (word_of_nat n :: u32) < 0xFFFFFF"
  by (simp add: word_less_nat_alt unat_of_nat take_bit_nat_eq_self)

lemma wire_time_small:
  assumes "tag_packet sid t p" "channel_at sid T prev" "steady T (t # ts)"
  shows "m_nLastWireTimeStamp (on_wire prev p) < 0xFFFFFF"
proof (cases "complete_header t")
  case True
  then have "m_nLastWireTimeStamp (on_wire prev p) = m_nTimeStamp p"
    using assms(1) by (auto simp: on_wire_def compress_header_def tag_packet_def split: option.splits)
  then show ?thesis using True assms(1,3) word_of_nat_less_limit by (simp add: tag_packet_def)
next
  case False
  then obtain pp t0 where pp: "prev = Some pp" "m_nTimeStamp pp = word_of_nat t0" "t0 \<le> tag_time t" "tag_time t - t0 < 0xFFFFFF"
    using assms(2,3) by (auto simp: channel_at_def split: option.splits)
  have "m_nLastWireTimeStamp (on_wire prev p) = m_nTimeStamp p - m_nTimeStamp pp"
    using False assms(1) pp(1) by (auto simp: on_wire_def compress_header_def tag_packet_def header_type_defs Let_def)
  also have "\<dots> = word_of_nat (tag_time t - t0)" using assms(1) pp(2,3) by (simp add: tag_packet_def of_nat_diff)
  finally show ?thesis using word_of_nat_less_limit [OF pp(4)] by simp
qed

lemma wire_follows:
  assumes "tag_packet sid t p" "channel_at sid T prev" "steady T (t # ts)"
  shows "follows prev (on_wire prev p)"
  using assms by (intro on_wire_follows) (auto simp: tag_packet_def channel_at_def split: if_splits option.splits)

lemma tag_received:
  assumes "tag_packet sid t p" "channel_at sid T prev" "steady T (t # ts)" "synced 4 prev peer" "media_tag t"
    and "0 < m_inChunkSize peer" "sb_in peer = wire_bytes (m_inChunkSize peer) (on_wire prev p) @ rest"
  shows "\<exists>q peer1. receive peer = map_option (\<lambda>(ps, x). (q # ps, x)) (receive peer1) \<and> sb_in peer1 = rest \<and>
    m_inChunkSize peer1 = m_inChunkSize peer \<and> synced 4 (Some (on_wire prev p)) peer1 \<and>
    m_nInfoField2 q = sid \<and> message_tag q = t"
proof -
  let ?q = "on_wire prev p"
  have f: "m_nChannel ?q = 4" "m_nInfoField2 ?q = sid" "m_packetType ?q = tag_type t"
      "m_nTimeStamp ?q = word_of_nat (tag_time t)" "packet_data ?q = tag_body t"
    using assms(1) by (auto simp: on_wire_fields tag_packet_def packet_data_def)
  have sz: "unat (m_nBodySize ?q) = length (tag_body t)"
    using assms(1) by (auto simp: on_wire_fields tag_packet_def packet_data_def sendable_def dest!: arg_cong [of _ _ length])
  have tm: "tag_time t < 2 ^ 31" "length (tag_body t) < 2 ^ 24" using assms(5) by (auto simp: media_tag_def tag_ok_def)
  have "receives ?q (packet_data ?q) rest peer"
    using wire_follows [OF assms(1-3)] wire_time_small [OF assms(1-3)] f sz tm assms(4,6,7)
    by (intro receives_message) auto
  then obtain q peer1 where q: "receive peer = map_option (\<lambda>(ps, x). (q # ps, x)) (receive peer1)" "sb_in peer1 = rest"
      "m_inChunkSize peer1 = m_inChunkSize peer" "synced 4 (Some ?q) peer1" "m_nInfoField2 q = sid"
      "message_tag q = \<lparr>tag_type = tag_type t, tag_time = unat (word_of_nat (tag_time t) :: u32), tag_body = tag_body t\<rparr>"
    unfolding receives_def f by blast
  moreover have "unat (word_of_nat (tag_time t) :: u32) = tag_time t" using tm by (simp add: unat_of_nat take_bit_nat_eq_self)
  ultimately show ?thesis by (metis flv_tag.surjective old.unit.exhaust)
qed

lemma tags_received:
  assumes "idle r" "list_all media_tag ts" "steady T ts" "channel_at (stream_id r) T (last_sent r)"
  shows "\<exists>r1 d. write_tags ts r = (map (\<lambda>t. Some (int (length (tag_bytes t)))) ts, r1) \<and> idle r1 \<and>
    sb_sent r1 = sb_sent r @ d \<and> stream_id r1 = stream_id r \<and> m_outChunkSize r1 = m_outChunkSize r \<and>
    (\<forall>peer rest. synced 4 (last_sent r) peer \<longrightarrow> m_inChunkSize peer = m_outChunkSize r \<longrightarrow> sb_in peer = d @ rest \<longrightarrow>
      (\<exists>ps peer1. receive peer = map_option (\<lambda>(qs, x). (ps @ qs, x)) (receive peer1) \<and> sb_in peer1 = rest \<and>
        map message_tag ps = ts \<and> list_all (\<lambda>p. m_nInfoField2 p = stream_id r) ps))"
  using assms
proof (induction ts arbitrary: r T)
  case Nil
  then show ?case by (auto intro!: exI [of _ "[]"] simp: option.map_id)
next
  case (Cons t ts)
  from Cons.prems(2) have t: "media_tag t" "list_all media_tag ts" by auto
  let ?prev = "last_sent r" and ?sid = "stream_id r" and ?c = "m_outChunkSize r"
  obtain p r1 where w: "RTMP_Write (tag_bytes t) r = (Some (int (length (tag_bytes t))), r1)" "tag_packet ?sid t p" "idle r1"
      "sb_sent r1 = sb_sent r @ wire_bytes ?c (on_wire ?prev p)" "last_sent r1 = Some (on_wire ?prev p)"
      "m_outChunkSize r1 = ?c" "stream_id r1 = ?sid"
    using RTMP_Write_tag [OF Cons.prems(1) t(1)] by blast
  have "channel_at ?sid (Some (tag_time t)) (last_sent r1)"
    using w(2,5) by (auto simp: channel_at_def on_wire_fields tag_packet_def)
  then obtain r2 d where r2: "write_tags ts r1 = (map (\<lambda>t. Some (int (length (tag_bytes t)))) ts, r2)" "idle r2"
      "sb_sent r2 = sb_sent r1 @ d" "stream_id r2 = ?sid" "m_outChunkSize r2 = ?c"
    and peers: "\<And>peer rest. synced 4 (last_sent r1) peer \<Longrightarrow> m_inChunkSize peer = ?c \<Longrightarrow> sb_in peer = d @ rest \<Longrightarrow>
      \<exists>ps peer1. receive peer = map_option (\<lambda>(qs, x). (ps @ qs, x)) (receive peer1) \<and> sb_in peer1 = rest \<and>
        map message_tag ps = ts \<and> list_all (\<lambda>p. m_nInfoField2 p = ?sid) ps"
    using Cons.IH [of r1 "Some (tag_time t)"] w(3,6,7) t(2) Cons.prems(3) by auto
  have "\<exists>ps peer1. receive peer = map_option (\<lambda>(qs, x). (ps @ qs, x)) (receive peer1) \<and> sb_in peer1 = rest \<and>
        map message_tag ps = t # ts \<and> list_all (\<lambda>p. m_nInfoField2 p = ?sid) ps"
    if peer: "synced 4 ?prev peer" "m_inChunkSize peer = ?c" "sb_in peer = (wire_bytes ?c (on_wire ?prev p) @ d) @ rest" for peer rest
  proof -
    have "0 < m_inChunkSize peer" using peer(2) Cons.prems(1) by (simp add: idle_def)
    then obtain q peer1 where q: "receive peer = map_option (\<lambda>(ps, x). (q # ps, x)) (receive peer1)"
        "sb_in peer1 = d @ rest" "m_inChunkSize peer1 = ?c" "synced 4 (last_sent r1) peer1" "m_nInfoField2 q = ?sid"
        "message_tag q = t"
      using tag_received [OF w(2) Cons.prems(4,3) peer(1) t(1), of "d @ rest"] peer(2,3) w(5) by auto
    obtain ps peer2 where ps: "receive peer1 = map_option (\<lambda>(qs, x). (ps @ qs, x)) (receive peer2)" "sb_in peer2 = rest"
        "map message_tag ps = ts" "list_all (\<lambda>p. m_nInfoField2 p = ?sid) ps"
      using peers [OF q(4,3,2)] by blast
    have "receive peer = map_option (\<lambda>(qs, x). ((q # ps) @ qs, x)) (receive peer2)"
      unfolding q(1) ps(1) by (cases "receive peer2") auto
    then show ?thesis using q(5,6) ps(2-4) by (intro exI [of _ "q # ps"] exI [of _ peer2]) simp
  qed
  then show ?case
    using w(1,4) r2 by (intro exI [of _ r2] exI [of _ "wire_bytes ?c (on_wire ?prev p) @ d"]) auto
qed

lemma write_tags_received:
  assumes "idle r" "m_vecChannelsOut r = []" "list_all media_tag ts" "steady None ts"
    and "m_vecChannelsIn peer = []" "m_inChunkSize peer = m_outChunkSize r"
  shows "\<exists>r1 d ps peer1. write_tags ts r = (map (\<lambda>t. Some (int (length (tag_bytes t)))) ts, r1) \<and>
    sb_sent r1 = sb_sent r @ d \<and> receive (peer\<lparr>sb_in := d\<rparr>) = Some (ps, peer1) \<and>
    map message_tag ps = ts \<and> list_all (\<lambda>p. m_nInfoField2 p = stream_id r) ps"
proof -
  have none: "last_sent r = None" using assms(2) by (simp add: last_sent_def)
  then have "channel_at (stream_id r) None (last_sent r)" by (simp add: channel_at_def)
  then obtain r1 d where r1: "write_tags ts r = (map (\<lambda>t. Some (int (length (tag_bytes t)))) ts, r1)"
      "sb_sent r1 = sb_sent r @ d"
    and peers: "\<And>peer rest. synced 4 (last_sent r) peer \<Longrightarrow> m_inChunkSize peer = m_outChunkSize r \<Longrightarrow> sb_in peer = d @ rest \<Longrightarrow>
      \<exists>ps peer1. receive peer = map_option (\<lambda>(qs, x). (ps @ qs, x)) (receive peer1) \<and> sb_in peer1 = rest \<and>
        map message_tag ps = ts \<and> list_all (\<lambda>p. m_nInfoField2 p = stream_id r) ps"
    using tags_received [OF assms(1,3,4)] by blast
  have "synced 4 (last_sent r) (peer\<lparr>sb_in := d\<rparr>)" by (simp add: none synced_def)
  then obtain ps peer1 where ps: "receive (peer\<lparr>sb_in := d\<rparr>) = map_option (\<lambda>(qs, x). (ps @ qs, x)) (receive peer1)"
      "sb_in peer1 = []" "map message_tag ps = ts" "list_all (\<lambda>p. m_nInfoField2 p = stream_id r) ps"
    using peers [of "peer\<lparr>sb_in := d\<rparr>" "[]"] assms(6) by auto
  moreover have "receive peer1 = Some ([], peer1)" using ps(2) by (simp add: receive.simps)
  ultimately show ?thesis using r1 by auto
qed

section \<open>Properties\<close>


definition connection :: "nat \<Rightarrow> send_result list \<Rightarrow> RTMP" where
  "connection c rs =
    \<lparr>m_inChunkSize = c, m_outChunkSize = c, stream_id = 1, m_vecChannelsIn = [], m_vecChannelsOut = [],
     m_channelTimestamp = [], m_write = RTMPPacket_zero, sb_open = True, sb_results = rs, sb_sent = [], sb_in = []\<rparr>"

definition sample_tags :: "flv_tag list" where
  "sample_tags =
    [\<lparr>tag_type = RTMP_PACKET_TYPE_INFO, tag_time = 0, tag_body = [1, 2, 3, 4, 5, 6, 7]\<rparr>,
     \<lparr>tag_type = RTMP_PACKET_TYPE_VIDEO, tag_time = 33, tag_body = [9, 9, 9]\<rparr>,
     \<lparr>tag_type = RTMP_PACKET_TYPE_VIDEO, tag_time = 66, tag_body = [8, 8, 8]\<rparr>]"

lemma sample_tags_ok: "list_all media_tag sample_tags" "steady None sample_tags"
  by (simp_all add: sample_tags_def media_tag_def tag_ok_def complete_header_def RTMP_PACKET_TYPE_INFO_def
      RTMP_PACKET_TYPE_VIDEO_def)



end
