(* ===== verification/Rtmp_Share.thy ===== *)
theory Rtmp_Share
  imports Flv_Mux
begin

text \<open>
  How the RTMP output divides a bitrate among the video encoders (\<open>rtmp-stream.c\<close>): the table of
  levels, each with one bitrate per encoder, and the interpolation between two levels, in
  floating point.

  A \<open>double\<close> is its value here, a numerator with a positive denominator; every operation rounds
  its exact result to the nearest \<open>double\<close>.  Bitrates are far from the ends of its range.  What the
  JSON library answers about the table in the settings is an argument.
\<close>

section \<open>Floating point values\<close>

definition double_nearest :: "nat \<Rightarrow> nat \<Rightarrow> nat \<times> nat" where
  "double_nearest n d =
    (if n = 0 then (0, 1)
     else
       (let e = double_exponent n d - 52
        in (round_half_even (n * 2 ^ nat (- e)) (d * 2 ^ nat e) * 2 ^ nat e, 2 ^ nat (- e))))"

definition double_round :: "int \<times> nat \<Rightarrow> int \<times> nat" where
  "double_round x = (case double_nearest (nat \<bar>fst x\<bar>) (snd x) of (n, d) \<Rightarrow> (sgn (fst x) * int n, d))"

definition double_of_long :: "int \<Rightarrow> int \<times> nat" where
  "double_of_long i = double_round (i, 1)"

definition double_times :: "int \<times> nat \<Rightarrow> int \<times> nat \<Rightarrow> int \<times> nat" where
  "double_times x y = double_round (fst x * fst y, snd x * snd y)"

text \<open>The divisor is positive.\<close>

definition double_divide :: "int \<times> nat \<Rightarrow> int \<times> nat \<Rightarrow> int \<times> nat" where
  "double_divide x y = double_round (fst x * int (snd y), snd x * nat (fst y))"

definition long_of_double :: "int \<times> nat \<Rightarrow> int" where
  "long_of_double x = trunc_div (fst x) (int (snd x))"

section \<open>The table\<close>

text \<open>
  The answers of the JSON library: of the array for a track its size, if there is one, and of an
  entry whether it is there, and its value when it is an integer.
\<close>

record json_answers =
  ja_size :: "nat \<Rightarrow> nat option"
  ja_entry :: "nat \<Rightarrow> nat \<Rightarrow> s64 option option"

text \<open>The first loop: the common size of the arrays, and whether the data are malformed.\<close>

fun check_sizes :: "json_answers \<Rightarrow> flv_context \<Rightarrow> nat list \<Rightarrow> nat \<Rightarrow> bool \<Rightarrow> nat \<times> bool" where
  "check_sizes root cx [] all_array_size malformed_data = (all_array_size, malformed_data)"
| "check_sizes root cx (i # is) all_array_size malformed_data =
    (if obs_output_get_video_encoder2 cx i = None then check_sizes root cx is all_array_size malformed_data
     else
       (case ja_size root i of
          None \<Rightarrow> check_sizes root cx is all_array_size True
        | Some n \<Rightarrow>
            if all_array_size = 0 then check_sizes root cx is n malformed_data
            else check_sizes root cx is all_array_size (malformed_data \<or> all_array_size \<noteq> n)))"

text \<open>One level; \<open>None\<close>: the type of an entry that is not there is read, for the log.\<close>

definition json_level :: "json_answers \<Rightarrow> nat \<Rightarrow> int list option" where
  "json_level root i =
    those (map (\<lambda>j. case ja_size root j of
        None \<Rightarrow> Some 0
      | Some n \<Rightarrow> (case ja_entry root j i of None \<Rightarrow> None | Some None \<Rightarrow> Some 0 | Some (Some v) \<Rightarrow> Some (sint v)))
      [0..<MAX_OUTPUT_VIDEO_ENCODERS])"

definition build_dbr_interpolation_table ::
  "json_answers option \<Rightarrow> flv_context \<Rightarrow> int list list \<Rightarrow> (bool \<times> int list list) option" where
  "build_dbr_interpolation_table json cx table =
    (case json of
       None \<Rightarrow> Some (False, table)
     | Some root \<Rightarrow>
         (case check_sizes root cx [0..<MAX_OUTPUT_VIDEO_ENCODERS] 0 False of
            (all_array_size, malformed_data) \<Rightarrow>
              if malformed_data then Some (False, table)
              else map_option (Pair True) (those (map (json_level root) [0..<all_array_size]))))"

section \<open>Shares\<close>

fun base_column :: "int \<Rightarrow> nat \<Rightarrow> nat \<Rightarrow> int list list \<Rightarrow> nat" where
  "base_column cur column base [] = base"
| "base_column cur column base (p # ps) =
    (if sum_list p > cur then base else base_column cur (Suc column) column ps)"

text \<open>The two levels between which the bitrate lies.\<close>

definition dbr_levels :: "int \<Rightarrow> int list list \<Rightarrow> int list \<times> int list" where
  "dbr_levels cur table =
    (let base = base_column cur 0 (length table - 1) table;
         upper = (if base + 1 \<ge> length table then length table - 1 else base + 1)
     in (table ! base, table ! upper))"

definition delta_scale :: "int \<Rightarrow> int list \<Rightarrow> int list \<Rightarrow> int \<times> nat" where
  "delta_scale cur base upper =
    (let remaining_bitrate = cur - sum_list base;
         overall_delta = max 1 (sum_list upper - sum_list base);
         ratio = double_divide (double_of_long remaining_bitrate) (double_of_long overall_delta)
     in if fst ratio < int (snd ratio) then ratio else (1, 1))"

definition dbr_share :: "int \<Rightarrow> int list list \<Rightarrow> nat \<Rightarrow> int" where
  "dbr_share cur table i =
    (case dbr_levels cur table of
       (base, upper) \<Rightarrow>
         base ! i + long_of_double (double_times (double_of_long (upper ! i - base ! i)) (delta_scale cur base upper)))"

section \<open>Rounding\<close>

lemma log2_le: "0 < n \<Longrightarrow> 2 ^ log2 n \<le> n"
proof (induction n rule: log2.induct)
  case (1 n)
  show ?case
  proof (cases "n < 2")
    case False
    then have "2 ^ log2 (n div 2) \<le> n div 2" using 1 by simp
    then show ?thesis using False by (subst log2.simps) auto
  qed (use 1 in \<open>auto simp: log2.simps\<close>)
qed

lemma log2_less: "n < 2 ^ (log2 n + 1)"
proof (induction n rule: log2.induct)
  case (1 n)
  show ?case
  proof (cases "n < 2")
    case False
    then have "n div 2 < 2 ^ (log2 (n div 2) + 1)" using 1 by simp
    then show ?thesis using False by (subst log2.simps) auto
  qed (auto simp: log2.simps)
qed

lemma double_exponent_le:
  assumes "0 < n" "0 < d" "n < d * 2 ^ Suc k"
  shows "double_exponent n d \<le> int k"
proof (rule ccontr)
  assume large: "\<not> ?thesis"
  define e where "e = int (log2 n) - int (log2 d)"
  have cases: "e > int k \<and> d * 2 ^ nat e \<le> n \<or> e > int k + 1"
    using large by (auto simp: double_exponent_def Let_def e_def split: if_splits)
  then show False
  proof (elim disjE conjE)
    assume h: "e > int k" "d * 2 ^ nat e \<le> n"
    then have "(2 :: nat) ^ Suc k \<le> 2 ^ nat e" by (intro power_increasing) auto
    then have "d * 2 ^ Suc k \<le> d * 2 ^ nat e" by (rule mult_le_mono2)
    then show False using h(2) assms(3) by linarith
  next
    assume "e > int k + 1"
    then have "log2 n \<ge> log2 d + 1 + Suc k" by (simp add: e_def)
    then have "(2 :: nat) ^ (log2 d + 1 + Suc k) \<le> 2 ^ log2 n" by (rule power_increasing) simp
    moreover have "d * 2 ^ Suc k \<le> 2 ^ (log2 d + 1) * 2 ^ Suc k" using log2_less [of d] by (intro mult_right_mono) auto
    ultimately have "d * 2 ^ Suc k \<le> 2 ^ log2 n" unfolding power_add [symmetric] by (rule order_trans [rotated])
    then show False using log2_le [OF assms(1)] assms(3) by linarith
  qed
qed

lemma round_half_even_le: "0 < b \<Longrightarrow> a \<le> k * b \<Longrightarrow> round_half_even a b \<le> k"
proof -
  assume h: "0 < b" "a \<le> k * b"
  have "a div b \<le> k" using h div_le_mono [of a "k * b" b] by simp
  moreover have "a div b < k" if "a mod b \<noteq> 0"
  proof (rule ccontr)
    assume "\<not> a div b < k"
    then have "k * b \<le> a div b * b" by (intro mult_right_mono) auto
    then show False using that h(2) div_mult_mod_eq [of a b] by linarith
  qed
  ultimately show ?thesis using h(1) by (auto simp: round_half_even_def Let_def)
qed

text \<open>Rounding does not pass a whole number that is a \<open>double\<close>.\<close>

lemma double_nearest_le:
  assumes "n \<le> k * d" "0 < d" "k < 2 ^ 53" "double_nearest n d = (a, b)"
  shows "a \<le> k * b" "0 < b"
proof -
  show "0 < b" using assms(4) by (auto simp: double_nearest_def Let_def split: if_splits)
  show "a \<le> k * b"
  proof (cases "n = 0")
    case False
    define e where "e = double_exponent n d - 52"
    have "n < d * 2 ^ Suc 52"
      using assms(1-3) by (metis Suc_numeral mult.commute mult_less_mono1 order_le_less_trans semiring_norm(5) semiring_norm(8))
    then have e: "nat e = 0" using double_exponent_le [of n d 52] False assms(2) by (simp add: e_def)
    have "n * 2 ^ nat (- e) \<le> k * 2 ^ nat (- e) * d" using assms(1) by (simp add: mult.commute mult.left_commute)
    then have "round_half_even (n * 2 ^ nat (- e)) d \<le> k * 2 ^ nat (- e)" by (rule round_half_even_le [OF assms(2)])
    then show ?thesis using assms(4) False e by (auto simp: double_nearest_def Let_def e_def [symmetric])
  qed (use assms(4) in \<open>auto simp: double_nearest_def\<close>)
qed

lemma double_of_long_nonneg:
  assumes "0 \<le> i" "i < 2 ^ 53"
  shows "0 \<le> fst (double_of_long i)" "fst (double_of_long i) \<le> i * int (snd (double_of_long i))" "0 < snd (double_of_long i)"
proof -
  obtain a b where ab: "double_nearest (nat i) 1 = (a, b)" by fastforce
  have "nat i < 2 ^ 53" using assms by (simp add: nat_less_iff)
  then have le: "a \<le> nat i * b" "0 < b" using double_nearest_le [OF _ _ _ ab, of "nat i"] by auto
  have "int a \<le> int (nat i * b)" using le(1) by (rule of_nat_mono)
  then have "int a \<le> i * int b" using assms(1) by simp
  then show "0 \<le> fst (double_of_long i)" "fst (double_of_long i) \<le> i * int (snd (double_of_long i))"
      "0 < snd (double_of_long i)"
    using assms(1) ab le(2) by (auto simp: double_of_long_def double_round_def sgn_if abs_of_nonneg)
qed

text \<open>A share of a difference: not negative, and at most the difference.\<close>

lemma double_share:
  assumes "0 \<le> i" "i < 2 ^ 53" "0 \<le> n" "n \<le> int d" "0 < d"
  shows "0 \<le> long_of_double (double_times (double_of_long i) (n, d)) \<and>
    long_of_double (double_times (double_of_long i) (n, d)) \<le> i"
proof -
  define x where "x = double_of_long i"
  have x: "0 \<le> fst x" "fst x \<le> i * int (snd x)" "0 < snd x" using double_of_long_nonneg [OF assms(1,2)] by (simp_all add: x_def)
  obtain a b where ab: "double_nearest (nat (fst x * n)) (snd x * d) = (a, b)" by fastforce
  have "fst x * n \<le> i * int (snd x) * int d" using x assms by (intro mult_mono) auto
  then have "nat (fst x * n) \<le> nat i * (snd x * d)" using assms(1) by (simp add: nat_le_iff mult.assoc)
  then have le: "a \<le> nat i * b" "0 < b"
    using double_nearest_le [OF _ _ _ ab, of "nat i"] x(3) assms by (auto simp: nat_less_iff)
  have "int a \<le> int (nat i * b)" using le(1) by (rule of_nat_mono)
  then have "int a \<le> i * int b" using assms(1) by simp
  then have "int a div int b \<le> i * int b div int b" using le(2) by (intro zdiv_mono1) auto
  then have q: "int a div int b \<le> i" using le(2) by simp
  have v: "double_times x (n, d) = (sgn (fst x * n) * int a, b)"
    using x(1) assms(3) ab by (simp add: double_times_def double_round_def abs_of_nonneg)
  have "0 \<le> fst x * n" using x(1) assms(3) by simp
  then have "long_of_double (double_times x (n, d)) = 0 \<or> long_of_double (double_times x (n, d)) = int a div int b"
    using v by (auto simp: long_of_double_def trunc_div_def sgn_if split: if_splits)
  then show ?thesis using q assms(1) le(2) by (auto simp: x_def pos_imp_zdiv_nonneg_iff)
qed

lemma delta_scale_unit:
  assumes "0 \<le> cur - sum_list base" "delta_scale cur base upper = (n, d)"
  shows "0 \<le> n" "n \<le> int d" "0 < d"
proof -
  have nearest: "0 < snd (double_nearest p q)" for p q by (simp add: double_nearest_def Let_def)
  have round: "0 < snd (double_round x)" "0 \<le> fst x \<Longrightarrow> 0 \<le> fst (double_round x)" for x
    by (simp_all add: double_round_def nearest split_beta sgn_if)
  define ratio where "ratio = double_divide (double_of_long (cur - sum_list base)) (double_of_long (max 1 (sum_list upper - sum_list base)))"
  have "0 \<le> fst (double_of_long (cur - sum_list base))" using assms(1) by (simp add: double_of_long_def round(2))
  then have "0 \<le> fst ratio" "0 < snd ratio" by (auto simp: ratio_def double_divide_def intro!: round)
  then show "0 \<le> n" "n \<le> int d" "0 < d"
    using assms(2) unfolding delta_scale_def Let_def ratio_def [symmetric] by (auto split: if_splits)
qed

section \<open>Bounds of a share\<close>

text \<open>The first level is above the bitrate, or the base level is at most the bitrate.\<close>

lemma base_column_cases:
  "base_column cur c b ps = b \<and> (ps = [] \<or> sum_list (hd ps) > cur) \<or>
    (\<exists>k < length ps. base_column cur c b ps = c + k \<and> sum_list (ps ! k) \<le> cur)"
proof (induction ps arbitrary: c b)
  case (Cons p ps)
  show ?case
  proof (cases "sum_list p > cur")
    case False
    then show ?thesis using Cons.IH [of "Suc c" c] by fastforce
  qed simp
qed simp

text \<open>
  A table is in order when every encoder's bitrates grow from level to level.  Between two levels an
  encoder gets what lies between its bitrates there.
\<close>

definition rising :: "int list list \<Rightarrow> nat \<Rightarrow> bool" where
  "rising table i \<longleftrightarrow> (\<forall>k < length table. 0 \<le> table ! k ! i \<and> table ! k ! i < 2 ^ 53 \<and>
    (Suc k < length table \<longrightarrow> table ! k ! i \<le> table ! Suc k ! i))"

lemma dbr_share_between:
  assumes "table \<noteq> []" "sum_list (hd table) \<le> cur" "rising table i" "dbr_levels cur table = (base, upper)"
  shows "base ! i \<le> dbr_share cur table i \<and> dbr_share cur table i \<le> upper ! i" "sum_list base \<le> cur"
    "base \<in> set table" "upper \<in> set table"
proof -
  define b where "b = base_column cur 0 (length table - 1) table"
  obtain k where k: "k < length table" "b = k" "sum_list (table ! k) \<le> cur"
    using base_column_cases [of cur 0 "length table - 1" table] assms(1,2) by (auto simp: b_def)
  define u where "u = (if b + 1 \<ge> length table then length table - 1 else b + 1)"
  have lev: "base = table ! b" "upper = table ! u" using assms(4) by (auto simp: dbr_levels_def Let_def b_def u_def)
  have u: "u < length table" "u = b \<or> u = Suc b" using k by (auto simp: u_def)
  show base: "sum_list base \<le> cur" using k lev by simp
  show "base \<in> set table" "upper \<in> set table" using k u lev by auto
  have "0 \<le> base ! i" "upper ! i < 2 ^ 53" "base ! i \<le> upper ! i" using assms(3) k(1,2) u lev by (auto simp: rising_def)
  then have d: "0 \<le> upper ! i - base ! i" "upper ! i - base ! i < 2 ^ 53" by linarith+
  obtain n m where sc: "delta_scale cur base upper = (n, m)" by fastforce
  have nm: "0 \<le> n" "n \<le> int m" "0 < m" using delta_scale_unit [OF _ sc] base by auto
  show "base ! i \<le> dbr_share cur table i \<and> dbr_share cur table i \<le> upper ! i"
    using double_share [OF d nm] assms(4) sc by (simp add: dbr_share_def)
qed

text \<open>
  The default table has two levels: nothing, and the bitrates the encoders begin with.  All that an
  encoder is given lies between, and with the whole bitrate every encoder has its own back.
\<close>

lemma default_table:
  assumes "\<forall>b \<in> set bs. 0 \<le> b \<and> b < 2 ^ 53" "i < length bs" "0 \<le> cur"
  shows "0 \<le> dbr_share cur [replicate (length bs) 0, bs] i \<and> dbr_share cur [replicate (length bs) 0, bs] i \<le> bs ! i"
proof -
  let ?t = "[replicate (length bs) 0, bs]"
  have bi: "0 \<le> bs ! i" "bs ! i < 2 ^ 53" using assms(1,2) by (auto dest: nth_mem)
  have "rising ?t i" using bi assms(2) by (auto simp: rising_def less_Suc_eq)
  moreover have "sum_list (hd ?t) \<le> cur" using assms(3) by (simp add: sum_list_replicate)
  moreover obtain base upper where lev: "dbr_levels cur ?t = (base, upper)" by fastforce
  ultimately show ?thesis using dbr_share_between [of ?t cur i base upper] bi assms(2) by fastforce
qed

lemma long_of_double_zero: "long_of_double (double_times (double_of_long 0) x) = 0"
  by (simp add: double_of_long_def double_round_def double_times_def long_of_double_def double_nearest_def trunc_div_def)

lemma whole_bitrate_share:
  assumes "0 \<le> sum_list bs"
  shows "dbr_share (sum_list bs) [replicate (length bs) 0, bs] i = bs ! i"
  using assms by (simp add: dbr_share_def dbr_levels_def Let_def sum_list_replicate long_of_double_zero)

text \<open>
  When already the first level of a table is above the bitrate, the loop leaves the base level where it
  started, at the last one: the encoders are given the bitrates of the highest level.
\<close>

lemma first_level_above_gives_last:
  assumes "table \<noteq> []" "cur < sum_list (hd table)"
  shows "dbr_share cur table i = last table ! i"
  using assms by (cases table) (auto simp: dbr_share_def dbr_levels_def Let_def long_of_double_zero last_conv_nth)

end
