(* ===== verification/Rtmp_Stream.thy ===== *)
theory Rtmp_Stream
  imports Rtmp_Messages Rtmp_Share Flv_Recording Deque
begin

text \<open>
  The RTMP output (\<open>plugins/obs-outputs/rtmp-stream.c\<close>): the queue between the encoders and the
  thread that sends, the frames it drops when the queue holds too much time, the bitrate it asks
  of the encoders instead when that is enabled, and the thread itself with headers, packets and
  footers.

  The calls of the encoders (\<open>rtmp_stream_data\<close>) and the rounds of the thread (\<open>send_round\<close>) are
  the steps; the mutexes make the parts that share state atomic.  Times of the clock are arguments.
  The quotient that is the congestion is kept as its two operands.  An update of an encoder with
  new settings is a signal.  The connection attempts and the Windows socket loop are not modelled.
  \<open>None\<close>: a function that the code calls is undefined on its input.
\<close>

section \<open>State\<close>

definition OBS_NAL_PRIORITY_HIGH :: int where
  "OBS_NAL_PRIORITY_HIGH = 2"

definition OBS_NAL_PRIORITY_HIGHEST :: int where
  "OBS_NAL_PRIORITY_HIGHEST = 3"

definition DBR_INC_TIMER :: u64 where
  "DBR_INC_TIMER = 4 * 1000000000"

definition DBR_TRIGGER_USEC :: u64 where
  "DBR_TRIGGER_USEC = 200 * 1000"

definition MIN_ESTIMATE_DURATION_MS :: u64 where
  "MIN_ESTIMATE_DURATION_MS = 1000"

definition MAX_ESTIMATE_DURATION_MS :: u64 where
  "MAX_ESTIMATE_DURATION_MS = 2000"

definition OBS_OUTPUT_DISCONNECTED :: int where
  "OBS_OUTPUT_DISCONNECTED = -5"

record dbr_frame =
  df_send_beg :: u64
  df_send_end :: u64
  df_size :: u64

datatype stream_signal = Stopped int | Capture_Ended | Set_Bitrate nat int

record rtmp_stream =
  rs_output :: flv_context
  rs_packets :: "encoder_packet deque"
  rs_sent_headers :: bool
  rs_got_first_packet :: bool
  rs_start_dts_offset :: s32
  rs_active :: bool
  rs_disconnected :: bool
  rs_encode_error :: bool
  rs_max_shutdown_time_sec :: s32
  rs_send_sem :: nat
  rs_stop_event :: bool
  rs_stop_ts :: u64
  rs_shutdown_timeout_ts :: u64
  rs_drop_threshold_usec :: s64
  rs_pframe_drop_threshold_usec :: s64
  rs_min_priority :: int
  rs_congestion :: "s64 \<times> s64"
  rs_last_dts_usec :: s64
  rs_total_bytes_sent :: u64
  rs_dropped_frames :: int
  rs_dbr_frames :: "dbr_frame deque"
  rs_dbr_data_size :: u64
  rs_dbr_inc_timeout :: u64
  rs_audio_bitrate :: int
  rs_dbr_est_bitrate :: int
  rs_dbr_orig_bitrate :: int
  rs_dbr_prev_bitrate :: int
  rs_dbr_cur_bitrate :: int
  rs_dbr_inc_bitrate :: int
  rs_dbr_floor_bitrate :: int
  rs_dbr_enabled :: bool
  rs_dbr_interpolation_table :: "int list list"
  rs_audio_codec :: "nat \<Rightarrow> audio_id_t"
  rs_video_codec :: "nat \<Rightarrow> video_id_t"
  rs_rtmp :: RTMP
  rs_signals :: "stream_signal list"

text \<open>What the program around the output provides: \<open>se_video\<close> is the main video.\<close>

record stream_env =
  se_flv :: flv_env
  se_video :: video_output_info

text \<open>A stream as \<open>rtmp_stream_create\<close> allocates it, on a connection that is not made yet.\<close>

definition rtmp_stream_create :: "flv_context \<Rightarrow> RTMP \<Rightarrow> rtmp_stream" where
  "rtmp_stream_create output r =
    \<lparr>rs_output = output, rs_packets = deque_init, rs_sent_headers = False, rs_got_first_packet = False,
     rs_start_dts_offset = 0, rs_active = False, rs_disconnected = False, rs_encode_error = False,
     rs_max_shutdown_time_sec = 0, rs_send_sem = 0, rs_stop_event = False, rs_stop_ts = 0, rs_shutdown_timeout_ts = 0,
     rs_drop_threshold_usec = 0, rs_pframe_drop_threshold_usec = 0, rs_min_priority = 0, rs_congestion = (0, 1),
     rs_last_dts_usec = 0, rs_total_bytes_sent = 0, rs_dropped_frames = 0, rs_dbr_frames = deque_init,
     rs_dbr_data_size = 0, rs_dbr_inc_timeout = 0, rs_audio_bitrate = 0, rs_dbr_est_bitrate = 0,
     rs_dbr_orig_bitrate = 0, rs_dbr_prev_bitrate = 0, rs_dbr_cur_bitrate = 0, rs_dbr_inc_bitrate = 0,
     rs_dbr_floor_bitrate = 0, rs_dbr_enabled = False, rs_dbr_interpolation_table = [],
     rs_audio_codec = (\<lambda>_. AUDIO_CODEC_NONE),
     rs_video_codec = (\<lambda>_. CODEC_NONE), rs_rtmp = r, rs_signals = []\<rparr>"

section \<open>The queue\<close>

definition num_buffered_packets :: "rtmp_stream \<Rightarrow> nat" where
  "num_buffered_packets stream = dq_size (rs_packets stream)"

definition add_packet :: "encoder_packet \<Rightarrow> rtmp_stream \<Rightarrow> bool \<times> rtmp_stream" where
  "add_packet packet stream = (True, stream\<lparr>rs_packets := deque_push_back (rs_packets stream) [packet]\<rparr>)"

definition get_next_packet :: "rtmp_stream \<Rightarrow> encoder_packet option \<times> rtmp_stream" where
  "get_next_packet stream =
    (if dq_size (rs_packets stream) = 0 then (None, stream)
     else
       (let (out, packets) = deque_pop_front (rs_packets stream) 1
        in (case out of [Some packet] \<Rightarrow> Some packet | _ \<Rightarrow> None, stream\<lparr>rs_packets := packets\<rparr>)))"

definition free_packets :: "rtmp_stream \<Rightarrow> rtmp_stream" where
  "free_packets stream =
    stream\<lparr>rs_packets := snd (drain deque_pop_front (dq_size (rs_packets stream)) (rs_packets stream))\<rparr>"

text \<open>The loop of \<open>drop_frames\<close>, once for each packet in the queue.\<close>

definition keeps_packet :: "int \<Rightarrow> encoder_packet \<Rightarrow> bool" where
  "keeps_packet highest_priority packet \<longleftrightarrow>
    p_type packet = OBS_ENCODER_AUDIO \<or> p_drop_priority packet \<ge> highest_priority"

fun drop_loop :: "nat \<Rightarrow> int \<Rightarrow> encoder_packet deque \<Rightarrow> encoder_packet deque \<Rightarrow> int \<Rightarrow> encoder_packet deque \<times> int" where
  "drop_loop 0 highest_priority packets new_buf dropped = (new_buf, dropped)"
| "drop_loop (Suc n) highest_priority packets new_buf dropped =
    (case deque_pop_front packets 1 of
       (out, packets1) \<Rightarrow>
         (case out of
            [Some packet] \<Rightarrow>
              if keeps_packet highest_priority packet
              then drop_loop n highest_priority packets1 (deque_push_back new_buf [packet]) dropped
              else drop_loop n highest_priority packets1 new_buf (dropped + 1)
          | _ \<Rightarrow> drop_loop n highest_priority packets1 new_buf dropped))"

definition drop_frames :: "int \<Rightarrow> rtmp_stream \<Rightarrow> rtmp_stream" where
  "drop_frames highest_priority stream =
    (let (new_buf, num_frames_dropped) =
           drop_loop (dq_size (rs_packets stream)) highest_priority (rs_packets stream) (deque_reserve deque_init 8) 0;
         stream1 = stream\<lparr>rs_packets := new_buf,
           rs_min_priority := (if rs_min_priority stream < highest_priority then highest_priority else rs_min_priority stream)\<rparr>
     in if num_frames_dropped = 0 then stream1
        else stream1\<lparr>rs_dropped_frames := rs_dropped_frames stream1 + num_frames_dropped\<rparr>)"

definition find_first_video_packet :: "rtmp_stream \<Rightarrow> encoder_packet option" where
  "find_first_video_packet stream =
    (case find (\<lambda>i. case deque_get (rs_packets stream) i of
             Some cur \<Rightarrow> p_type cur = OBS_ENCODER_VIDEO \<and> \<not> p_keyframe cur | None \<Rightarrow> False)
           [0..<dq_size (rs_packets stream)] of
       None \<Rightarrow> None
     | Some i \<Rightarrow> deque_get (rs_packets stream) i)"

section \<open>The bitrate\<close>

text \<open>
  \<open>obs_data_set_int\<close> on the settings of an encoder; of the settings their text, which this output does
  not read, is left as it is.
\<close>

definition set_encoder_bitrate :: "int \<Rightarrow> obs_encoder \<Rightarrow> obs_encoder" where
  "set_encoder_bitrate b enc =
    enc\<lparr>e_settings := (e_settings enc)\<lparr>
      set_int := (set_int (e_settings enc))(''bitrate'' := word_of_int b),
      set_double := (set_double (e_settings enc))(''bitrate'' := double_of_int b)\<rparr>\<rparr>"

definition dbr_update_encoder :: "nat \<Rightarrow> rtmp_stream \<Rightarrow> rtmp_stream" where
  "dbr_update_encoder i stream =
    (let cx = rs_output stream
     in case obs_output_get_video_encoder2 cx i of
          None \<Rightarrow> stream
        | Some enc \<Rightarrow>
            (let bitrate = dbr_share (rs_dbr_cur_bitrate stream) (rs_dbr_interpolation_table stream) i
             in if sint (set_int (e_settings enc) ''bitrate'') = bitrate then stream
                else stream\<lparr>
                  rs_output := cx\<lparr>fc_video_encoders := (fc_video_encoders cx)(i := Some (set_encoder_bitrate bitrate enc))\<rparr>,
                  rs_signals := rs_signals stream @ [Set_Bitrate i bitrate]\<rparr>))"

definition dbr_set_bitrate :: "rtmp_stream \<Rightarrow> rtmp_stream" where
  "dbr_set_bitrate stream =
    (if rs_dbr_interpolation_table stream = [] then stream
     else fold dbr_update_encoder [0..<MAX_OUTPUT_VIDEO_ENCODERS] stream)"

definition dbr_bitrate_lowered :: "u64 \<Rightarrow> rtmp_stream \<Rightarrow> bool \<times> rtmp_stream" where
  "dbr_bitrate_lowered now stream0 =
    (let prev_bitrate = rs_dbr_prev_bitrate stream0;
         estimated = rs_dbr_est_bitrate stream0 \<noteq> 0 \<and> rs_dbr_est_bitrate stream0 < rs_dbr_cur_bitrate stream0;
         stream =
           (if estimated
            then stream0\<lparr>rs_dbr_data_size := 0,
              rs_dbr_frames := snd (deque_pop_front (rs_dbr_frames stream0) (dq_size (rs_dbr_frames stream0)))\<rparr>
            else stream0);
         est_bitrate = (if estimated then max 50 (trunc_div (rs_dbr_est_bitrate stream0) 100 * 100) else 0)
     in if est_bitrate = 0 \<and> prev_bitrate = 0 then (False, stream)
        else
          (let new_bitrate = (if est_bitrate \<noteq> 0 then est_bitrate else prev_bitrate);
               new_bitrate = (if rs_dbr_floor_bitrate stream \<noteq> 0 \<and> new_bitrate < rs_dbr_floor_bitrate stream
                              then rs_dbr_floor_bitrate stream else new_bitrate)
           in if new_bitrate = rs_dbr_cur_bitrate stream then (False, stream)
              else (True, stream\<lparr>rs_dbr_prev_bitrate := 0, rs_dbr_cur_bitrate := new_bitrate,
                rs_dbr_inc_timeout := now + DBR_INC_TIMER\<rparr>)))"

definition dbr_inc_bitrate :: "u64 \<Rightarrow> rtmp_stream \<Rightarrow> rtmp_stream" where
  "dbr_inc_bitrate now stream =
    (let stream1 = stream\<lparr>rs_dbr_prev_bitrate := rs_dbr_cur_bitrate stream,
           rs_dbr_cur_bitrate := rs_dbr_cur_bitrate stream + rs_dbr_inc_bitrate stream\<rparr>
     in if rs_dbr_cur_bitrate stream1 \<ge> rs_dbr_orig_bitrate stream1
        then stream1\<lparr>rs_dbr_cur_bitrate := rs_dbr_orig_bitrate stream1\<rparr>
        else stream1\<lparr>rs_dbr_inc_timeout := now + DBR_INC_TIMER\<rparr>)"

definition dbr_add_frame :: "dbr_frame \<Rightarrow> rtmp_stream \<Rightarrow> rtmp_stream" where
  "dbr_add_frame back stream =
    (let frames = deque_push_back (rs_dbr_frames stream) [back];
         front = (case deque_peek_front frames 1 of [Some f] \<Rightarrow> f | _ \<Rightarrow> back);
         size1 = rs_dbr_data_size stream + df_size back;
         dur = (df_send_end back - df_send_beg front) div 1000000;
         (size2, frames1) =
           (if dur \<ge> MAX_ESTIMATE_DURATION_MS then (size1 - df_size front, snd (deque_pop_front frames 1)) else (size1, frames));
         est = (if dur \<ge> MIN_ESTIMATE_DURATION_MS then sint (size2 * 1000 div dur) else 0);
         est = trunc_div (est * 8) 1000;
         est = (if est \<noteq> 0 then max 50 (est - rs_audio_bitrate stream) else est)
     in stream\<lparr>rs_dbr_frames := frames1, rs_dbr_data_size := size2, rs_dbr_est_bitrate := est\<rparr>)"

definition check_to_drop_frames :: "u64 \<Rightarrow> bool \<Rightarrow> rtmp_stream \<Rightarrow> rtmp_stream" where
  "check_to_drop_frames now pframes stream0 =
    (let num_packets = num_buffered_packets stream0;
         priority = (if pframes then OBS_NAL_PRIORITY_HIGHEST else OBS_NAL_PRIORITY_HIGH);
         drop_threshold = (if pframes then rs_pframe_drop_threshold_usec stream0 else rs_drop_threshold_usec stream0);
         stream =
           (if \<not> pframes \<and> rs_dbr_enabled stream0 \<and> rs_dbr_inc_timeout stream0 \<noteq> 0 \<and> now \<ge> rs_dbr_inc_timeout stream0
            then dbr_set_bitrate (dbr_inc_bitrate now (stream0\<lparr>rs_dbr_inc_timeout := 0\<rparr>)) else stream0)
     in if num_packets < 5 then (if \<not> pframes then stream\<lparr>rs_congestion := (0, 1)\<rparr> else stream)
        else
          (case find_first_video_packet stream of
             None \<Rightarrow> stream
           | Some first \<Rightarrow>
               (let buffer_duration_usec = rs_last_dts_usec stream - p_dts_usec first;
                    stream1 = (if \<not> pframes then stream\<lparr>rs_congestion := (buffer_duration_usec, drop_threshold)\<rparr> else stream)
                in if rs_dbr_enabled stream1
                   then
                     (if pframes then stream1
                      else if buffer_duration_usec \<ge> DBR_TRIGGER_USEC
                      then (case dbr_bitrate_lowered now stream1 of
                              (changed, stream2) \<Rightarrow> if changed then dbr_set_bitrate stream2 else stream2)
                      else stream1)
                   else if sint buffer_duration_usec > sint drop_threshold then drop_frames priority stream1
                   else stream1)))"

definition add_video_packet :: "u64 \<Rightarrow> encoder_packet \<Rightarrow> rtmp_stream \<Rightarrow> bool \<times> rtmp_stream" where
  "add_video_packet now packet stream0 =
    (let stream = check_to_drop_frames now True (check_to_drop_frames now False stream0)
     in if p_drop_priority packet < rs_min_priority stream
        then (False, stream\<lparr>rs_dropped_frames := rs_dropped_frames stream + 1\<rparr>)
        else add_packet packet (stream\<lparr>rs_min_priority := 0, rs_last_dts_usec := p_dts_usec packet\<rparr>))"

definition rtmp_stream_data :: "stream_env \<Rightarrow> u64 \<Rightarrow> encoder_packet option \<Rightarrow> rtmp_stream \<Rightarrow> rtmp_stream option" where
  "rtmp_stream_data env now packet_arg stream =
    (if rs_disconnected stream \<or> \<not> rs_active stream then Some stream
     else case packet_arg of
       None \<Rightarrow> Some (stream\<lparr>rs_encode_error := True, rs_send_sem := rs_send_sem stream + 1\<rparr>)
     | Some packet \<Rightarrow>
         (let stream1 =
                (if \<not> rs_got_first_packet stream
                 then stream\<lparr>rs_start_dts_offset := get_ms_time packet (p_dts packet), rs_got_first_packet := True\<rparr>
                 else stream)
          in if p_type packet = OBS_ENCODER_VIDEO \<and> rs_video_codec stream1 (p_track_idx packet) = CODEC_NONE then Some stream1
             else
               (case (if p_type packet = OBS_ENCODER_VIDEO
                      then (case rs_video_codec stream1 (p_track_idx packet) of
                              CODEC_NONE \<Rightarrow> None
                            | CODEC_H264 \<Rightarrow> Some (obs_parse_avc_packet (fe_addr (se_flv env) (p_data packet)) packet)
                            | CODEC_HEVC \<Rightarrow> Some (obs_parse_hevc_packet (fe_addr (se_flv env) (p_data packet)) packet)
                            | CODEC_AV1 \<Rightarrow> obs_parse_av1_packet packet)
                      else Some (obs_encoder_packet_ref packet)) of
                  None \<Rightarrow> None
                | Some new_packet \<Rightarrow>
                    (let (added, stream2) =
                           (if p_type packet = OBS_ENCODER_VIDEO then add_video_packet now new_packet stream1
                            else add_packet new_packet stream1)
                     in Some (if added then stream2\<lparr>rs_send_sem := rs_send_sem stream2 + 1\<rparr> else stream2)))))"

section \<open>Sending\<close>

text \<open>\<open>process_recv_data\<close> reads one chunk when there is something to read.\<close>

definition handle_socket_read :: "rtmp_stream \<Rightarrow> (bool \<times> rtmp_stream) option" where
  "handle_socket_read stream =
    (if sb_in (rs_rtmp stream) = [] then Some (True, stream)
     else map_option (\<lambda>(ok, packet, r). (ok, stream\<lparr>rs_rtmp := r\<rparr>)) (RTMP_ReadPacket RTMPPacket_zero (rs_rtmp stream)))"

definition rtmp_write :: "byte list \<Rightarrow> rtmp_stream \<Rightarrow> (int \<times> rtmp_stream) option" where
  "rtmp_write data stream =
    (case RTMP_Write data (rs_rtmp stream) of
       (None, r) \<Rightarrow> None
     | (Some ret, r) \<Rightarrow> Some (ret, stream\<lparr>rs_rtmp := r\<rparr>))"

definition count_sent :: "byte list \<Rightarrow> rtmp_stream \<Rightarrow> rtmp_stream" where
  "count_sent data stream = stream\<lparr>rs_total_bytes_sent := rs_total_bytes_sent stream + word_of_nat (length data)\<rparr>"

definition send_packet :: "encoder_packet \<Rightarrow> bool \<Rightarrow> rtmp_stream \<Rightarrow> (int \<times> rtmp_stream) option" where
  "send_packet packet is_header stream = do {
     (ok, stream1) \<leftarrow> handle_socket_read stream;
     (if \<not> ok then Some (-1, stream1)
      else do {
        let data = flv_packet_mux packet (if is_header then 0 else rs_start_dts_offset stream1) is_header;
        (ret, stream2) \<leftarrow> rtmp_write data stream1;
        Some (ret, count_sent data stream2) }) }"

definition send_packet_ex :: "encoder_packet \<Rightarrow> nat \<Rightarrow> bool \<Rightarrow> bool \<Rightarrow> nat \<Rightarrow> rtmp_stream \<Rightarrow> (int \<times> rtmp_stream) option" where
  "send_packet_ex packet sz is_header is_footer idx stream = do {
     (ok, stream1) \<leftarrow> handle_socket_read stream;
     (if \<not> ok then Some (-1, stream1)
      else do {
        let codec = rs_video_codec stream1 idx;
        let data = (if is_header then flv_packet_start packet sz codec idx
                    else if is_footer then flv_packet_end packet codec idx
                    else flv_packet_frames packet codec (rs_start_dts_offset stream1) idx);
        (ret, stream2) \<leftarrow> rtmp_write data stream1;
        Some (ret, count_sent data stream2) }) }"

definition send_audio_packet_ex :: "encoder_packet \<Rightarrow> bool \<Rightarrow> nat \<Rightarrow> rtmp_stream \<Rightarrow> (int \<times> rtmp_stream) option" where
  "send_audio_packet_ex packet is_header idx stream = do {
     (ok, stream1) \<leftarrow> handle_socket_read stream;
     (if \<not> ok then Some (-1, stream1)
      else do {
        data \<leftarrow> (if is_header then flv_packet_audio_start packet (rs_audio_codec stream1 idx) idx
                 else flv_packet_audio_frames packet (rs_audio_codec stream1 idx) (rs_start_dts_offset stream1) idx);
        rtmp_write data stream1 }) }"

section \<open>Headers and footers\<close>

definition accepted :: "(int \<times> rtmp_stream) option \<Rightarrow> (bool \<times> rtmp_stream) option" where
  "accepted sent = map_option (\<lambda>(ret, stream). (ret \<ge> 0, stream)) sent"

definition send_meta_data :: "rtmp_stream \<Rightarrow> (bool \<times> rtmp_stream) option" where
  "send_meta_data stream = do {
     data \<leftarrow> flv_meta_data (rs_output stream) False;
     accepted (rtmp_write data stream) }"

definition send_audio_header :: "nat \<Rightarrow> rtmp_stream \<Rightarrow> (bool \<times> rtmp_stream) option" where
  "send_audio_header idx stream =
    (case obs_output_get_audio_encoder (rs_output stream) idx of
       None \<Rightarrow> Some (True, stream)
     | Some aencoder \<Rightarrow>
         (case obs_encoder_get_extra_data (Some aencoder) of
            None \<Rightarrow> Some (False, stream)
          | Some header \<Rightarrow>
              (let packet = header_packet OBS_ENCODER_AUDIO False header
               in if idx = 0 then accepted (send_packet packet True stream)
                  else accepted (send_audio_packet_ex packet True idx stream))))"

definition send_video_header :: "stream_env \<Rightarrow> nat \<Rightarrow> rtmp_stream \<Rightarrow> (bool \<times> rtmp_stream) option" where
  "send_video_header env idx stream =
    (case obs_output_get_video_encoder2 (rs_output stream) idx of
       None \<Rightarrow> Some (False, stream)
     | Some vencoder \<Rightarrow>
         (case obs_encoder_get_extra_data (Some vencoder) of
            None \<Rightarrow> Some (False, stream)
          | Some header \<Rightarrow>
              (let packet = header_packet OBS_ENCODER_VIDEO True; addr = fe_addr (se_flv env) header
               in case rs_video_codec stream idx of
                    CODEC_NONE \<Rightarrow> Some (False, stream)
                  | CODEC_H264 \<Rightarrow>
                      (let d = obs_parse_avc_header addr header
                       in if idx = 0 then accepted (send_packet (packet d) True stream)
                          else accepted (send_packet_ex (packet d) (length d) True False idx stream))
                  | CODEC_HEVC \<Rightarrow>
                      (case obs_parse_hevc_header addr header of
                         None \<Rightarrow> None
                       | Some (d, sz) \<Rightarrow>
                           accepted (send_packet_ex (packet (case d of None \<Rightarrow> [] | Some d \<Rightarrow> d)) sz True False idx stream))
                  | CODEC_AV1 \<Rightarrow>
                      (case obs_parse_av1_header header of
                         None \<Rightarrow> None
                       | Some d \<Rightarrow> accepted (send_packet_ex (packet d) (length d) True False idx stream)))))"

definition send_video_metadata :: "stream_env \<Rightarrow> nat \<Rightarrow> rtmp_stream \<Rightarrow> (bool \<times> rtmp_stream) option" where
  "send_video_metadata env idx stream =
    (case obs_output_get_video_encoder2 (rs_output stream) idx of
       None \<Rightarrow> Some (False, stream)
     | Some encoder \<Rightarrow>
         (case obs_encoder_video (Some encoder) of
            None \<Rightarrow> Some (False, stream)
          | Some info \<Rightarrow>
              if \<not> (vo_colorspace info = VIDEO_CS_2100_PQ \<or> vo_colorspace info = VIDEO_CS_2100_HLG) then Some (True, stream)
              else do {
                (ok, stream1) \<leftarrow> handle_socket_read stream;
                (if \<not> ok then Some (False, stream1)
                 else if rs_video_codec stream1 idx = CODEC_H264 then Some (True, stream1)
                 else
                   (let (pri, trc, spc) = color_codes (vo_colorspace (se_video env));
                        max_luminance = (if trc = 18 then 1000 else if trc = 16 then fe_hdr_peak (se_flv env) else 0);
                        data = flv_packet_metadata (rs_video_codec stream1 idx) (bits_per_raw_sample (vo_format (se_video env)))
                          pri trc spc 0 max_luminance idx
                    in map_option (\<lambda>(ok, stream2). (ok, count_sent data stream2)) (accepted (rtmp_write data stream1)))) }))"

definition send_video_footer :: "nat \<Rightarrow> rtmp_stream \<Rightarrow> (bool \<times> rtmp_stream) option" where
  "send_video_footer idx stream =
    accepted (send_packet_ex (header_packet OBS_ENCODER_VIDEO False []) 0 False True idx stream)"

text \<open>A loop over tracks that stops at the first failure.\<close>

fun send_each :: "(nat \<Rightarrow> rtmp_stream \<Rightarrow> (bool \<times> rtmp_stream) option) \<Rightarrow> nat list \<Rightarrow> rtmp_stream \<Rightarrow> (bool \<times> rtmp_stream) option" where
  "send_each f [] stream = Some (True, stream)"
| "send_each f (i # is) stream =
    (case f i stream of
       None \<Rightarrow> None
     | Some (ok, stream1) \<Rightarrow> if ok then send_each f is stream1 else Some (False, stream1))"

definition send_audio_track :: "nat \<Rightarrow> rtmp_stream \<Rightarrow> (bool \<times> rtmp_stream) option" where
  "send_audio_track i stream =
    (if obs_output_get_audio_encoder (rs_output stream) i = None then Some (True, stream) else send_audio_header i stream)"

definition send_video_track :: "stream_env \<Rightarrow> nat \<Rightarrow> rtmp_stream \<Rightarrow> (bool \<times> rtmp_stream) option" where
  "send_video_track env i stream =
    (if obs_output_get_video_encoder2 (rs_output stream) i = None then Some (True, stream)
     else do {
       (ok, stream1) \<leftarrow> send_video_metadata env i stream;
       (if ok then send_video_header env i stream1 else Some (False, stream1)) })"

definition send_headers :: "stream_env \<Rightarrow> rtmp_stream \<Rightarrow> (bool \<times> rtmp_stream) option" where
  "send_headers env stream = do {
     (ok, stream1) \<leftarrow> send_each send_audio_track [0..<MAX_OUTPUT_AUDIO_ENCODERS] (stream\<lparr>rs_sent_headers := True\<rparr>);
     (if ok then send_each (send_video_track env) [0..<MAX_OUTPUT_VIDEO_ENCODERS] stream1 else Some (False, stream1)) }"

definition send_footer_track :: "nat \<Rightarrow> rtmp_stream \<Rightarrow> (bool \<times> rtmp_stream) option" where
  "send_footer_track i stream =
    (if obs_output_get_video_encoder2 (rs_output stream) i = None \<or> i = 0 \<and> rs_video_codec stream i = CODEC_H264
     then Some (True, stream) else send_video_footer i stream)"

definition send_footers :: "rtmp_stream \<Rightarrow> (bool \<times> rtmp_stream) option" where
  "send_footers stream = send_each send_footer_track [0..<MAX_OUTPUT_VIDEO_ENCODERS] stream"

section \<open>The thread\<close>

definition can_shutdown_stream :: "u64 \<Rightarrow> encoder_packet \<Rightarrow> rtmp_stream \<Rightarrow> bool" where
  "can_shutdown_stream now packet stream \<longleftrightarrow>
    now \<ge> rs_shutdown_timeout_ts stream \<or> sint (p_sys_dts_usec packet) \<ge> sint (rs_stop_ts stream)"

definition send_any :: "encoder_packet \<Rightarrow> rtmp_stream \<Rightarrow> (int \<times> rtmp_stream) option" where
  "send_any packet stream =
    (let idx = p_track_idx packet
     in if p_type packet = OBS_ENCODER_VIDEO \<and> (rs_video_codec stream idx \<noteq> CODEC_H264 \<or> idx \<noteq> 0)
        then send_packet_ex packet (length (p_data packet)) False False idx stream
        else if p_type packet = OBS_ENCODER_AUDIO \<and> idx \<noteq> 0 then send_audio_packet_ex packet False idx stream
        else send_packet packet False stream)"

text \<open>
  One round of the loop after a successful wait for the semaphore, with the times before, at the start
  and at the end of the sending; \<open>False\<close>: the loop ends.
\<close>

definition send_round :: "stream_env \<Rightarrow> u64 \<Rightarrow> u64 \<Rightarrow> u64 \<Rightarrow> rtmp_stream \<Rightarrow> (bool \<times> rtmp_stream) option" where
  "send_round env now t_beg t_end stream0 =
    (let stream = stream0\<lparr>rs_send_sem := rs_send_sem stream0 - 1\<rparr>
     in if rs_stop_event stream \<and> rs_stop_ts stream = 0 then Some (False, stream)
        else
          (case get_next_packet stream of
             (None, stream1) \<Rightarrow> Some (True, stream1)
           | (Some packet, stream1) \<Rightarrow>
               if rs_stop_event stream1 \<and> can_shutdown_stream now packet stream1 then Some (False, stream1)
               else do {
                 (ok, stream2) \<leftarrow> (if rs_sent_headers stream1 then Some (True, stream1) else send_headers env stream1);
                 (if \<not> ok then Some (False, stream2\<lparr>rs_disconnected := True\<rparr>)
                  else do {
                    (sent, stream3) \<leftarrow> send_any packet stream2;
                    Some (if sent < 0 then (False, stream3\<lparr>rs_disconnected := True\<rparr>)
                          else if rs_dbr_enabled stream3
                          then (True, dbr_add_frame \<lparr>df_send_beg = t_beg, df_send_end = t_end,
                                  df_size = word_of_nat (length (p_data packet))\<rparr> stream3)
                          else (True, stream3)) }) }))"

text \<open>After the loop.\<close>

definition send_end :: "rtmp_stream \<Rightarrow> rtmp_stream option" where
  "send_end stream0 = do {
     (_, stream1) \<leftarrow> (if rs_disconnected stream0 then Some (True, stream0) else send_footers stream0);
     let stream2 = stream1\<lparr>rs_rtmp := RTMP_Close (rs_rtmp stream1)\<rparr>;
     let stream3 =
       (if rs_dbr_enabled stream2 \<and> rs_dbr_cur_bitrate stream2 \<noteq> rs_dbr_orig_bitrate stream2
        then dbr_set_bitrate (stream2\<lparr>rs_dbr_cur_bitrate := rs_dbr_orig_bitrate stream2\<rparr>) else stream2);
     let signal =
       (if \<not> rs_stop_event stream3 then Stopped OBS_OUTPUT_DISCONNECTED
        else if rs_encode_error stream0 then Stopped OBS_OUTPUT_ENCODE_ERROR else Capture_Ended);
     Some ((free_packets (stream3\<lparr>rs_signals := rs_signals stream3 @ [signal]\<rparr>))\<lparr>
       rs_stop_event := False, rs_active := False, rs_sent_headers := False\<rparr>) }"

definition rtmp_stream_stop :: "u64 \<Rightarrow> rtmp_stream \<Rightarrow> rtmp_stream" where
  "rtmp_stream_stop ts stream =
    (if rs_stop_event stream \<and> ts \<noteq> 0 then stream
     else
       (let stream1 = stream\<lparr>rs_stop_ts := ts div 1000\<rparr>;
            stream2 =
              (if ts \<noteq> 0
               then stream1\<lparr>rs_shutdown_timeout_ts := ts + word_of_int (sint (rs_max_shutdown_time_sec stream1)) * 1000000000\<rparr>
               else stream1)
        in if rs_active stream2
           then stream2\<lparr>rs_stop_event := True,
             rs_send_sem := rs_send_sem stream2 + (if rs_stop_ts stream2 = 0 then 1 else 0)\<rparr>
           else stream2\<lparr>rs_signals := rs_signals stream2 @ [Stopped 0]\<rparr>))"

section \<open>Connecting\<close>

text \<open>
  What \<open>init_connect\<close> gets from settings and encoders: \<open>cs_table_data\<close> is the text of a table in the
  settings, if there is one, as the JSON library reads it.
\<close>

record connect_settings =
  cs_service :: bool
  cs_drop_threshold_ms :: s64
  cs_pframe_drop_threshold_ms :: s64
  cs_max_shutdown_time_sec :: s64
  cs_dyn_bitrate :: bool
  cs_floor_pct :: s64
  cs_delay :: u32
  cs_table_data :: "json_answers option option"
  cs_caps :: "nat \<Rightarrow> bool \<times> bool"

definition encoder_bitrates :: "obs_encoder option list \<Rightarrow> int list" where
  "encoder_bitrates encs =
    map (\<lambda>enc. case enc of None \<Rightarrow> 0 | Some e \<Rightarrow> sint (set_int (e_settings e) ''bitrate'')) encs"

definition dbr_capable :: "connect_settings \<Rightarrow> flv_context \<Rightarrow> bool" where
  "dbr_capable cs cx =
    (let is_multitrack = list_ex (\<lambda>j. obs_output_get_video_encoder2 cx j \<noteq> None) [1..<MAX_OUTPUT_VIDEO_ENCODERS]
     in list_all (\<lambda>i. obs_output_get_video_encoder2 cx i = None \<or>
          (if is_multitrack then snd (cs_caps cs i) else fst (cs_caps cs i))) [0..<MAX_OUTPUT_VIDEO_ENCODERS])"

definition init_connect :: "connect_settings \<Rightarrow> rtmp_stream \<Rightarrow> (bool \<times> rtmp_stream) option" where
  "init_connect cs stream0 =
    (let stream = free_packets stream0; cx = rs_output stream
     in if \<not> cs_service cs then Some (False, stream)
        else
          (let videos = encoder_bitrates (map (obs_output_get_video_encoder2 cx) [0..<MAX_OUTPUT_VIDEO_ENCODERS]);
               audios = encoder_bitrates (map (obs_output_get_audio_encoder cx) [0..<MAX_OUTPUT_AUDIO_ENCODERS]);
               orig = sum_list videos;
               floor_pct = min 100 (sint (cs_floor_pct cs));
               drop_b = cs_drop_threshold_ms cs;
               drop_p = (if s64_less (cs_pframe_drop_threshold_ms cs) (drop_b + 200) then drop_b + 200
                         else cs_pframe_drop_threshold_ms cs);
               table0 = rs_dbr_interpolation_table stream @ [replicate MAX_OUTPUT_VIDEO_ENCODERS 0, videos]
           in map_option (\<lambda>(loaded, table). (True, stream\<lparr>
                rs_disconnected := False, rs_encode_error := False, rs_total_bytes_sent := 0, rs_dropped_frames := 0,
                rs_min_priority := 0, rs_got_first_packet := False,
                rs_max_shutdown_time_sec := scast (cs_max_shutdown_time_sec cs),
                rs_audio_codec := (\<lambda>i. case obs_output_get_audio_encoder cx i of
                  None \<Rightarrow> rs_audio_codec stream i | Some e \<Rightarrow> to_audio_type (e_codec e)),
                rs_video_codec := (\<lambda>i. case obs_output_get_video_encoder2 cx i of
                  None \<Rightarrow> rs_video_codec stream i | Some e \<Rightarrow> to_video_type (e_codec e)),
                rs_dbr_frames := deque_free (rs_dbr_frames stream),
                rs_audio_bitrate := sum_list audios, rs_dbr_data_size := 0,
                rs_dbr_orig_bitrate := orig, rs_dbr_cur_bitrate := orig, rs_dbr_est_bitrate := 0,
                rs_dbr_inc_bitrate := trunc_div orig 10, rs_dbr_inc_timeout := 0,
                rs_dbr_enabled := dbr_capable cs cx \<and> cs_dyn_bitrate cs \<and> cs_delay cs = 0 \<and> loaded,
                rs_dbr_interpolation_table := table,
                rs_dbr_floor_bitrate := (if floor_pct > 0 then trunc_div (orig * floor_pct) 100 else 0),
                rs_drop_threshold_usec := 1000 * drop_b, rs_pframe_drop_threshold_usec := 1000 * drop_p\<rparr>))
              (case cs_table_data cs of
                 None \<Rightarrow> Some (True, table0)
               | Some json \<Rightarrow> build_dbr_interpolation_table json cx table0)))"

text \<open>\<open>init_send\<close> on a connection that is made: the thread may run, and the meta data go first.\<close>

definition init_send :: "rtmp_stream \<Rightarrow> (bool \<times> rtmp_stream) option" where
  "init_send stream = send_meta_data (stream\<lparr>rs_send_sem := 0, rs_active := True\<rparr>)"

section \<open>What an update of the encoders changes\<close>

lemma dbr_update_encoder_frame:
  "\<exists>cx sg. dbr_update_encoder i s = s\<lparr>rs_output := cx, rs_signals := rs_signals s @ sg\<rparr> \<and>
    set sg \<subseteq> {Set_Bitrate i (dbr_share (rs_dbr_cur_bitrate s) (rs_dbr_interpolation_table s) i)}"
proof -
  have same: "\<exists>cx sg. s = s\<lparr>rs_output := cx, rs_signals := rs_signals s @ sg\<rparr> \<and> set sg \<subseteq> S" for S :: "stream_signal set"
    by (intro exI [of _ "rs_output s"] exI [of _ "[]"]) simp
  show ?thesis
  proof (cases "obs_output_get_video_encoder2 (rs_output s) i")
    case None
    then show ?thesis using same by (simp add: dbr_update_encoder_def Let_def)
  next
    case (Some enc)
    define b where "b = dbr_share (rs_dbr_cur_bitrate s) (rs_dbr_interpolation_table s) i"
    show ?thesis
    proof (cases "sint (set_int (e_settings enc) ''bitrate'') = b")
      case True
      then show ?thesis unfolding b_def [symmetric] using Some same by (simp add: dbr_update_encoder_def Let_def b_def)
    next
      case False
      have "dbr_update_encoder i s = s\<lparr>
          rs_output := (rs_output s)\<lparr>fc_video_encoders := (fc_video_encoders (rs_output s))(i := Some (set_encoder_bitrate b enc))\<rparr>,
          rs_signals := rs_signals s @ [Set_Bitrate i b]\<rparr>"
        using False Some by (simp add: dbr_update_encoder_def Let_def b_def)
      then show ?thesis unfolding b_def [symmetric] by (metis empty_set list.simps(15) order_refl)
    qed
  qed
qed

lemma dbr_updates_frame:
  "\<exists>cx sg. fold dbr_update_encoder is s = s\<lparr>rs_output := cx, rs_signals := rs_signals s @ sg\<rparr> \<and>
    (\<forall>g \<in> set sg. \<exists>i \<in> set is. g = Set_Bitrate i (dbr_share (rs_dbr_cur_bitrate s) (rs_dbr_interpolation_table s) i))"
proof (induction "is" arbitrary: s)
  case Nil
  show ?case by (intro exI [of _ "rs_output s"] exI [of _ "[]"]) simp
next
  case (Cons i "is")
  obtain cx sg where 1: "dbr_update_encoder i s = s\<lparr>rs_output := cx, rs_signals := rs_signals s @ sg\<rparr>"
      "set sg \<subseteq> {Set_Bitrate i (dbr_share (rs_dbr_cur_bitrate s) (rs_dbr_interpolation_table s) i)}"
    using dbr_update_encoder_frame by blast
  obtain cx' sg' where 2: "fold dbr_update_encoder is (dbr_update_encoder i s) =
        s\<lparr>rs_output := cx', rs_signals := rs_signals s @ sg @ sg'\<rparr>"
      "\<forall>g \<in> set sg'. \<exists>j \<in> set is. g = Set_Bitrate j (dbr_share (rs_dbr_cur_bitrate s) (rs_dbr_interpolation_table s) j)"
    using Cons.IH [of "dbr_update_encoder i s"] by (auto simp: 1(1))
  show ?case using 1(2) 2 by (intro exI [of _ cx'] exI [of _ "sg @ sg'"]) auto
qed

lemma dbr_set_bitrate_frame:
  obtains cx sg where "dbr_set_bitrate s = s\<lparr>rs_output := cx, rs_signals := rs_signals s @ sg\<rparr>"
    "\<And>g. g \<in> set sg \<Longrightarrow> \<exists>i < MAX_OUTPUT_VIDEO_ENCODERS.
      g = Set_Bitrate i (dbr_share (rs_dbr_cur_bitrate s) (rs_dbr_interpolation_table s) i)"
proof (cases "rs_dbr_interpolation_table s = []")
  case True
  then show ?thesis using that [of "[]" "rs_output s"] by (simp add: dbr_set_bitrate_def)
next
  case False
  then show ?thesis
    using dbr_updates_frame [of "[0..<MAX_OUTPUT_VIDEO_ENCODERS]" s] that by (auto simp: dbr_set_bitrate_def Bex_def)
qed

end
