(* ===== verification/Rtmp_Drops.thy ===== *)
theory Rtmp_Drops
  imports Rtmp_Stream
begin

text \<open>
  Which frames the RTMP output drops.  Every packet that reaches the queue has a fate: it is kept, and
  then sent or still queued, or it is dropped, on arrival or from the queue.  Only video is dropped,
  never a frame of the highest priority, and the next video packet that is kept after a dropped one
  has a higher priority than it: a frame that depends on a dropped one is not sent.
\<close>

section \<open>Fates\<close>

type_synonym fates = "(encoder_packet \<times> bool) list"

definition is_video :: "encoder_packet \<Rightarrow> bool" where
  "is_video p \<longleftrightarrow> p_type p = OBS_ENCODER_VIDEO"

definition kept :: "fates \<Rightarrow> encoder_packet list" where
  "kept fs = map fst (filter snd fs)"

definition dropped :: "fates \<Rightarrow> encoder_packet list" where
  "dropped fs = map fst (filter (\<lambda>(p, k). \<not> k) fs)"

text \<open>The priority of the first video packet that is kept, or \<open>m\<close>.\<close>

fun next_kept :: "int \<Rightarrow> fates \<Rightarrow> int" where
  "next_kept m [] = m"
| "next_kept m ((p, k) # fs) = (if k \<and> is_video p then p_drop_priority p else next_kept m fs)"

text \<open>Every dropped packet is video, and its priority is below that of the next video packet that is kept.\<close>

fun guarded :: "int \<Rightarrow> fates \<Rightarrow> bool" where
  "guarded m [] \<longleftrightarrow> True"
| "guarded m ((p, k) # fs) \<longleftrightarrow> (k \<or> is_video p \<and> p_drop_priority p < next_kept m fs) \<and> guarded m fs"

lemma next_kept_append: "next_kept m (xs @ ys) = next_kept (next_kept m ys) xs"
  by (induction xs) auto

lemma guarded_append: "guarded m (xs @ ys) \<longleftrightarrow> guarded (next_kept m ys) xs \<and> guarded m ys"
  by (induction xs) (auto simp: next_kept_append)

lemma next_kept_mono: "m \<le> m' \<Longrightarrow> next_kept m fs \<le> next_kept m' fs"
  by (induction fs) auto

lemma guarded_mono: "guarded m fs \<Longrightarrow> m \<le> m' \<Longrightarrow> guarded m' fs"
  by (induction fs) (auto intro: less_le_trans [OF _ next_kept_mono])

text \<open>Dropping from the queue.\<close>

definition drop_fates :: "int \<Rightarrow> fates \<Rightarrow> fates" where
  "drop_fates h fs = map (\<lambda>(p, k). (p, k \<and> keeps_packet h p)) fs"

lemma map_fst_drop_fates: "map fst (drop_fates h fs) = map fst fs"
  by (simp add: drop_fates_def split_beta)

lemma kept_drop_fates: "kept (drop_fates h fs) = filter (keeps_packet h) (kept fs)"
  by (induction fs) (auto simp: kept_def drop_fates_def)

lemma next_kept_drop: "h \<le> next_kept (max m h) (drop_fates h fs)" "next_kept m fs \<le> next_kept (max m h) (drop_fates h fs)"
  by (induction fs) (auto simp: drop_fates_def keeps_packet_def is_video_def)

lemma guarded_drop: "guarded m fs \<Longrightarrow> guarded (max m h) (drop_fates h fs)"
proof (induction fs)
  case (Cons x fs)
  obtain p k where x: "x = (p, k)" by fastforce
  have "drop_fates h (x # fs) = (p, k \<and> keeps_packet h p) # drop_fates h fs" by (simp add: drop_fates_def x)
  moreover have "k \<and> keeps_packet h p \<or> is_video p \<and> p_drop_priority p < next_kept (max m h) (drop_fates h fs)"
    using Cons.prems next_kept_drop(1) [of h m fs] next_kept_drop(2) [of m fs h] x
    by (cases "p_type p") (auto simp: keeps_packet_def is_video_def)
  ultimately show ?case using Cons by (simp add: x)
qed (simp add: drop_fates_def)

lemma length_dropped_drop:
  "length (dropped (drop_fates h fs)) = length (dropped fs) + length (filter (\<lambda>p. \<not> keeps_packet h p) (kept fs))"
  by (induction fs) (auto simp: dropped_def kept_def drop_fates_def)

lemma dropped_append: "dropped (xs @ ys) = dropped xs @ dropped ys" "kept (xs @ ys) = kept xs @ kept ys"
  by (simp_all add: dropped_def kept_def)

lemma kept_split:
  assumes "kept fs = p # ps"
  shows "\<exists>xs ys. fs = xs @ ys \<and> kept xs = [p] \<and> kept ys = ps"
proof -
  from assms obtain us vs where "fs = us @ (p, True) # vs" "\<forall>u \<in> set us. \<not> snd u" "map fst (filter snd vs) = ps"
    by (auto simp: kept_def filter_eq_Cons_iff)
  then show ?thesis
    by (intro exI [of _ "us @ [(p, True)]"] exI [of _ vs]) (auto simp: kept_def filter_empty_conv)
qed

section \<open>The queue operations\<close>

lemma drop_loop_elems:
  assumes "deque_wf packets" "deque_wf new_buf" "n = length (deque_elems packets)"
    "drop_loop n h packets new_buf c = (q, d)"
  shows "deque_wf q" "deque_elems q = deque_elems new_buf @ filter (keeps_packet h) (deque_elems packets)"
    "d = c + int (length (filter (\<lambda>p. \<not> keeps_packet h p) (deque_elems packets)))"
proof -
  have "deque_wf q \<and> deque_elems q = deque_elems new_buf @ filter (keeps_packet h) (deque_elems packets) \<and>
    d = c + int (length (filter (\<lambda>p. \<not> keeps_packet h p) (deque_elems packets)))"
    using assms
  proof (induction n arbitrary: packets new_buf c)
    case (Suc n)
    then obtain p ps where ps: "deque_elems packets = p # ps" by (metis length_Suc_conv)
    obtain out packets1 where pop: "deque_pop_front packets 1 = (out, packets1)" by fastforce
    have "1 \<le> length (deque_elems packets)" by (simp add: ps)
    note P = dqf.pop_wf [OF Suc.prems(1) this] dqf.pop_out [OF Suc.prems(1) this] dqf.pop_elems [OF Suc.prems(1) this]
    have out: "out = [Some p]" "deque_wf packets1" "deque_elems packets1 = ps" using P pop ps by auto
    show ?case
    proof (cases "keeps_packet h p")
      case True
      then have "drop_loop n h packets1 (deque_push_back new_buf [p]) c = (q, d)" using Suc.prems(4) pop out(1) by simp
      from Suc.IH [OF out(2) dqf.push_wf [OF Suc.prems(2)] _ this] show ?thesis
        using True Suc.prems(2,3) ps out(3) by (simp add: dqf.push_elems)
    next
      case False
      then have "drop_loop n h packets1 new_buf (c + 1) = (q, d)" using Suc.prems(4) pop out(1) by simp
      from Suc.IH [OF out(2) Suc.prems(2) _ this] show ?thesis using False Suc.prems(3) ps out(3) by simp
    qed
  qed simp
  then show "deque_wf q" "deque_elems q = deque_elems new_buf @ filter (keeps_packet h) (deque_elems packets)"
    "d = c + int (length (filter (\<lambda>p. \<not> keeps_packet h p) (deque_elems packets)))" by auto
qed

lemma reserved_empty: "deque_wf (deque_reserve deque_init n :: 'a deque)" "deque_elems (deque_reserve deque_init n :: 'a deque) = []"
  using deque_reserve_rep [OF deque_init_rep, of n, where ?'a = 'a] by (auto simp: deque_wf_rep deque_elems_rep)

text \<open>
  The queue of a stream with the history of its packets: \<open>past\<close> are the fates up to the last packet
  taken from the queue.
\<close>

definition queue_inv :: "encoder_packet list \<Rightarrow> fates \<Rightarrow> fates \<Rightarrow> rtmp_stream \<Rightarrow> bool" where
  "queue_inv taken past fs s \<longleftrightarrow>
    deque_wf (rs_packets s) \<and> kept past = taken \<and> kept fs = deque_elems (rs_packets s) \<and>
    guarded (rs_min_priority s) (past @ fs) \<and> rs_dropped_frames s = int (length (dropped (past @ fs))) \<and>
    rs_min_priority s \<le> OBS_NAL_PRIORITY_HIGHEST \<and>
    (\<forall>p \<in> set (dropped (past @ fs)). p_drop_priority p < OBS_NAL_PRIORITY_HIGHEST)"

lemma drop_frames_inv:
  assumes "queue_inv taken past fs s" "h \<le> OBS_NAL_PRIORITY_HIGHEST"
  shows "queue_inv taken past (drop_fates h fs) (drop_frames h s)"
proof -
  let ?q = "deque_elems (rs_packets s)"
  obtain q d where loop: "drop_loop (dq_size (rs_packets s)) h (rs_packets s) (deque_reserve deque_init 8) 0 = (q, d)"
    by fastforce
  have inv: "deque_wf (rs_packets s)" "kept past = taken" "kept fs = ?q" "guarded (rs_min_priority s) (past @ fs)"
      "rs_dropped_frames s = int (length (dropped (past @ fs)))" "rs_min_priority s \<le> OBS_NAL_PRIORITY_HIGHEST"
      "\<forall>p \<in> set (dropped (past @ fs)). p_drop_priority p < OBS_NAL_PRIORITY_HIGHEST"
    using assms(1) by (simp_all add: queue_inv_def)
  note L = drop_loop_elems [OF inv(1) reserved_empty(1) dqf.count_elems [OF inv(1)] loop]
  have s': "rs_packets (drop_frames h s) = q" "rs_min_priority (drop_frames h s) = max (rs_min_priority s) h"
      "rs_dropped_frames (drop_frames h s) = rs_dropped_frames s + d"
    using loop by (auto simp: drop_frames_def Let_def)
  have "guarded (max (rs_min_priority s) h) (past @ drop_fates h fs)"
    using inv(4) next_kept_drop(2) [of "rs_min_priority s" fs h] guarded_drop
    by (auto simp: guarded_append intro: guarded_mono)
  moreover have "set (dropped (drop_fates h fs)) \<subseteq> set (dropped fs) \<union> {p. p_drop_priority p < h}"
    by (auto simp: dropped_def drop_fates_def keeps_packet_def)
  moreover have "rs_dropped_frames s + d = int (length (dropped (past @ drop_fates h fs)))"
    using inv(3,5) L(3) by (simp add: dropped_append length_dropped_drop)
  ultimately show ?thesis
    using L(1,2) inv assms(2) reserved_empty(2) [of 8, where ?'a = encoder_packet]
    by (auto simp: queue_inv_def s' kept_drop_fates dropped_append)
qed

text \<open>What the bitrate control leaves alone.\<close>

definition same_stream :: "rtmp_stream \<Rightarrow> rtmp_stream \<Rightarrow> bool" where
  "same_stream s s1 \<longleftrightarrow>
    rs_active s1 = rs_active s \<and> rs_disconnected s1 = rs_disconnected s \<and> rs_video_codec s1 = rs_video_codec s"

definition same_queue :: "rtmp_stream \<Rightarrow> rtmp_stream \<Rightarrow> bool" where
  "same_queue s s1 \<longleftrightarrow> same_stream s s1 \<and>
    rs_packets s1 = rs_packets s \<and> rs_min_priority s1 = rs_min_priority s \<and> rs_dropped_frames s1 = rs_dropped_frames s"

lemma same_queue_trans: "same_queue s s1 \<Longrightarrow> same_queue s1 s2 \<Longrightarrow> same_queue s s2"
  by (simp add: same_queue_def same_stream_def)

lemma same_queue_inv: "same_queue s s1 \<Longrightarrow> queue_inv taken past fs s1 = queue_inv taken past fs s"
  by (simp add: same_queue_def queue_inv_def)

lemma dbr_set_bitrate_queue: "same_queue s (dbr_set_bitrate s)"
  by (rule dbr_set_bitrate_frame [of s]) (simp add: same_queue_def same_stream_def)

lemma dbr_same_queue:
  "same_queue s (dbr_set_bitrate s)" "same_queue s (dbr_inc_bitrate now s)" "same_queue s (s\<lparr>rs_dbr_inc_timeout := x\<rparr>)"
  "same_queue s (s\<lparr>rs_congestion := y\<rparr>)" "dbr_bitrate_lowered now s = (b, s1) \<Longrightarrow> same_queue s s1"
  by (rule dbr_set_bitrate_queue)
    (auto simp: dbr_inc_bitrate_def dbr_bitrate_lowered_def same_queue_def same_stream_def Let_def
      split: if_splits)

lemma same_stream_drop: "same_stream s (drop_frames h s)"
  by (auto simp: drop_frames_def same_stream_def Let_def split: prod.splits)

definition same_or_dropped :: "rtmp_stream \<Rightarrow> rtmp_stream \<Rightarrow> bool" where
  "same_or_dropped s s2 \<longleftrightarrow>
    same_queue s s2 \<or> (\<exists>s1 h. same_queue s s1 \<and> h \<le> OBS_NAL_PRIORITY_HIGHEST \<and> s2 = drop_frames h s1)"

lemma same_or_dropped_intros:
  "same_queue s s1 \<Longrightarrow> same_or_dropped s s1"
  "same_queue s s1 \<Longrightarrow> h \<le> OBS_NAL_PRIORITY_HIGHEST \<Longrightarrow> same_or_dropped s (drop_frames h s1)"
  by (auto simp: same_or_dropped_def)

lemma check_cases: "same_or_dropped s (check_to_drop_frames now pframes s)"
proof -
  define s1 where "s1 = (if \<not> pframes \<and> rs_dbr_enabled s \<and> rs_dbr_inc_timeout s \<noteq> 0 \<and> now \<ge> rs_dbr_inc_timeout s
    then dbr_set_bitrate (dbr_inc_bitrate now (s\<lparr>rs_dbr_inc_timeout := 0\<rparr>)) else s)"
  have s1: "same_queue s s1"
    using same_queue_trans [OF same_queue_trans [OF dbr_same_queue(3) dbr_same_queue(2)] dbr_same_queue(1)]
    by (simp add: s1_def) (simp add: same_queue_def same_stream_def)
  note cong = same_queue_trans [OF s1 dbr_same_queue(4)]
  have prio: "OBS_NAL_PRIORITY_HIGH \<le> OBS_NAL_PRIORITY_HIGHEST"
    by (simp add: OBS_NAL_PRIORITY_HIGHEST_def OBS_NAL_PRIORITY_HIGH_def)
  have low: "same_queue s (case dbr_bitrate_lowered now (s1\<lparr>rs_congestion := y\<rparr>) of
      (changed, s2) \<Rightarrow> if changed then dbr_set_bitrate s2 else s2)" for y
  proof (cases "dbr_bitrate_lowered now (s1\<lparr>rs_congestion := y\<rparr>)")
    case (Pair changed s2)
    have "same_queue s s2" by (rule same_queue_trans [OF cong dbr_same_queue(5) [OF Pair]])
    with same_queue_trans [OF this dbr_same_queue(1)] show ?thesis by (simp add: Pair)
  qed
  show ?thesis
    unfolding check_to_drop_frames_def s1_def [symmetric] Let_def
    by (auto intro: same_or_dropped_intros s1 cong low prio split: option.splits)
qed

lemma check_inv:
  assumes "queue_inv taken past fs s"
  shows "\<exists>fs1. queue_inv taken past fs1 (check_to_drop_frames now pframes s) \<and> map fst fs1 = map fst fs \<and>
    same_stream s (check_to_drop_frames now pframes s)"
  using check_cases [of s now pframes] unfolding same_or_dropped_def
proof (elim disjE exE conjE)
  assume "same_queue s (check_to_drop_frames now pframes s)"
  then show ?thesis using assms same_queue_inv by (auto simp: same_queue_def)
next
  fix s1 h
  assume "same_queue s s1" "h \<le> OBS_NAL_PRIORITY_HIGHEST" and eq: "check_to_drop_frames now pframes s = drop_frames h s1"
  then have "queue_inv taken past (drop_fates h fs) (drop_frames h s1)"
    using assms by (intro drop_frames_inv) (simp_all add: same_queue_inv)
  moreover have "same_stream s (drop_frames h s1)"
    using \<open>same_queue s s1\<close> same_stream_drop [of s1 h] by (simp add: same_queue_def same_stream_def)
  ultimately show ?thesis unfolding eq using map_fst_drop_fates by blast
qed

text \<open>One more packet at the end.\<close>

lemma queue_inv_keep:
  assumes "queue_inv taken past fs s" "is_video p \<Longrightarrow> rs_min_priority s \<le> p_drop_priority p"
    and "rs_packets s1 = deque_push_back (rs_packets s) [p]" "rs_dropped_frames s1 = rs_dropped_frames s"
    and "rs_min_priority s1 = (if is_video p then 0 else rs_min_priority s)"
  shows "queue_inv taken past (fs @ [(p, True)]) s1"
proof -
  have "rs_min_priority s \<le> next_kept (rs_min_priority s1) [(p, True)]" using assms(2,5) by simp
  then have "guarded (rs_min_priority s1) ((past @ fs) @ [(p, True)])"
    using assms(1) unfolding guarded_append [of _ "past @ fs"] by (auto simp: queue_inv_def intro: guarded_mono)
  moreover have "rs_min_priority s1 \<le> OBS_NAL_PRIORITY_HIGHEST"
    using assms(1,5) by (auto simp: queue_inv_def OBS_NAL_PRIORITY_HIGHEST_def)
  ultimately show ?thesis
    using assms(1,3,4) by (auto simp: queue_inv_def dqf.push_wf dqf.push_elems dropped_def kept_def)
qed

lemma queue_inv_drop:
  assumes "queue_inv taken past fs s" "is_video p" "p_drop_priority p < rs_min_priority s"
    and "rs_packets s1 = rs_packets s" "rs_dropped_frames s1 = rs_dropped_frames s + 1" "rs_min_priority s1 = rs_min_priority s"
  shows "queue_inv taken past (fs @ [(p, False)]) s1"
proof -
  have "guarded (rs_min_priority s1) ((past @ fs) @ [(p, False)])"
    using assms unfolding guarded_append [of _ "past @ fs"] by (simp add: queue_inv_def)
  then show ?thesis using assms by (auto simp: queue_inv_def dropped_def kept_def)
qed

lemma add_video_packet_inv:
  assumes "queue_inv taken past fs s" "is_video p" "add_video_packet now p s = (added, s1)"
  shows "\<exists>fs1 k. queue_inv taken past (fs1 @ [(p, k)]) s1 \<and> map fst fs1 = map fst fs \<and> same_stream s s1"
proof -
  define s2 where "s2 = check_to_drop_frames now True (check_to_drop_frames now False s)"
  obtain fs1 where 1: "queue_inv taken past fs1 (check_to_drop_frames now False s)" "map fst fs1 = map fst fs"
      "same_stream s (check_to_drop_frames now False s)"
    using check_inv [OF assms(1)] by blast
  then obtain fs2 where 2: "queue_inv taken past fs2 s2" "map fst fs2 = map fst fs" "same_stream s s2"
    using check_inv [OF 1(1), of now True] unfolding s2_def same_stream_def by metis
  show ?thesis
  proof (cases "p_drop_priority p < rs_min_priority s2")
    case True
    then have s1: "s1 = s2\<lparr>rs_dropped_frames := rs_dropped_frames s2 + 1\<rparr>"
      using assms(3) by (auto simp: add_video_packet_def s2_def [symmetric])
    have "queue_inv taken past (fs2 @ [(p, False)]) s1"
      by (rule queue_inv_drop [OF 2(1) assms(2) True]) (simp_all add: s1)
    then show ?thesis using 2(2,3) s1 by (auto simp: same_stream_def)
  next
    case False
    then have s1: "s1 = s2\<lparr>rs_min_priority := 0, rs_last_dts_usec := p_dts_usec p,
        rs_packets := deque_push_back (rs_packets s2) [p]\<rparr>"
      using assms(3) by (auto simp: add_video_packet_def add_packet_def s2_def [symmetric])
    have "queue_inv taken past (fs2 @ [(p, True)]) s1"
      by (rule queue_inv_keep [OF 2(1)]) (use False assms(2) in \<open>simp_all add: s1\<close>)
    then show ?thesis using 2(2,3) s1 by (auto simp: same_stream_def)
  qed
qed

lemma add_packet_inv:
  assumes "queue_inv taken past fs s" "\<not> is_video p"
  shows "queue_inv taken past (fs @ [(p, True)]) (snd (add_packet p s))" "same_stream s (snd (add_packet p s))"
  using queue_inv_keep [OF assms(1), of p "snd (add_packet p s)"] assms(2) by (simp_all add: add_packet_def same_stream_def)

lemma get_next_packet_inv:
  assumes "queue_inv taken past fs s" "get_next_packet s = (out, s1)"
  shows "\<exists>past1 fs1. queue_inv (taken @ (case out of None \<Rightarrow> [] | Some p \<Rightarrow> [p])) past1 fs1 s1 \<and> past1 @ fs1 = past @ fs \<and>
    same_stream s s1"
proof (cases "deque_elems (rs_packets s)")
  case Nil
  then have "dq_size (rs_packets s) = 0" using assms(1) dqf.count_elems [of "rs_packets s"] by (simp add: queue_inv_def)
  then show ?thesis using assms by (auto simp: get_next_packet_def same_stream_def)
next
  case (Cons p ps)
  have wf: "deque_wf (rs_packets s)" using assms(1) by (simp add: queue_inv_def)
  have le: "1 \<le> length (deque_elems (rs_packets s))" by (simp add: Cons)
  have sz: "dq_size (rs_packets s) \<noteq> 0" using dqf.count_elems [OF wf] Cons by simp
  obtain q where pop: "deque_pop_front (rs_packets s) 1 = ([Some p], q)" and q: "deque_wf q" "deque_elems q = ps"
    using dqf.pop_wf [OF wf le] dqf.pop_out [OF wf le] dqf.pop_elems [OF wf le] Cons
    by (cases "deque_pop_front (rs_packets s) 1") auto
  have s1: "out = Some p" "s1 = s\<lparr>rs_packets := q\<rparr>" using assms(2) sz pop by (auto simp: get_next_packet_def)
  obtain xs ys where xy: "fs = xs @ ys" "kept xs = [p]" "kept ys = ps"
    using kept_split [of fs p ps] assms(1) Cons by (auto simp: queue_inv_def)
  have "queue_inv (taken @ [p]) (past @ xs) ys s1"
    using assms(1) s1 xy q by (auto simp: queue_inv_def dropped_append)
  then show ?thesis
    using s1 xy(1) by (intro exI [of _ "past @ xs"] exI [of _ ys]) (auto simp: same_stream_def)
qed

section \<open>Runs\<close>

datatype stream_event = Deliver u64 encoder_packet | Take

text \<open>Packets that encoders deliver, and packets that the thread takes from the queue.\<close>

fun stream_run :: "stream_env \<Rightarrow> stream_event list \<Rightarrow> rtmp_stream \<Rightarrow> (encoder_packet list \<times> rtmp_stream) option" where
  "stream_run env [] s = Some ([], s)"
| "stream_run env (Deliver now p # es) s =
    (case rtmp_stream_data env now (Some p) s of None \<Rightarrow> None | Some s1 \<Rightarrow> stream_run env es s1)"
| "stream_run env (Take # es) s =
    (case get_next_packet s of
       (out, s1) \<Rightarrow> map_option (\<lambda>(ps, s2). ((case out of None \<Rightarrow> [] | Some p \<Rightarrow> [p]) @ ps, s2)) (stream_run env es s1))"

fun delivered :: "stream_event list \<Rightarrow> encoder_packet list" where
  "delivered [] = []"
| "delivered (Deliver now p # es) = p # delivered es"
| "delivered (Take # es) = delivered es"

definition stream_packet :: "stream_env \<Rightarrow> rtmp_stream \<Rightarrow> encoder_packet \<Rightarrow> encoder_packet option" where
  "stream_packet env s p = parsed_packet (se_flv env) (rs_video_codec s (p_track_idx p)) p"

lemma stream_packet_video: "stream_packet env s p = Some q \<Longrightarrow> is_video q = is_video p"
  using parsed_packet_type [of "se_flv env" "rs_video_codec s (p_track_idx p)" p q] by (simp add: stream_packet_def is_video_def)

lemma stream_packet_same: "same_stream s s1 \<Longrightarrow> stream_packet env s1 p = stream_packet env s p"
  by (simp add: stream_packet_def same_stream_def)

lemma rtmp_stream_data_inv:
  assumes "queue_inv taken past fs s" "rs_active s" "\<not> rs_disconnected s" "stream_packet env s p = Some q"
  shows "\<exists>s1 fs1 k. rtmp_stream_data env now (Some p) s = Some s1 \<and> queue_inv taken past (fs1 @ [(q, k)]) s1 \<and>
    map fst fs1 = map fst fs \<and> same_stream s s1"
proof -
  define s0 where "s0 = (if \<not> rs_got_first_packet s
    then s\<lparr>rs_start_dts_offset := get_ms_time p (p_dts p), rs_got_first_packet := True\<rparr> else s)"
  have s0: "same_queue s s0" by (simp add: s0_def same_queue_def same_stream_def)
  then have inv: "queue_inv taken past fs s0" using assms(1) same_queue_inv by blast
  define as where "as = (if is_video p then add_video_packet now q s0 else add_packet q s0)"
  obtain added s2 where as: "as = (added, s2)" by fastforce
  have "\<exists>fs1 k. queue_inv taken past (fs1 @ [(q, k)]) s2 \<and> map fst fs1 = map fst fs \<and> same_stream s0 s2"
  proof (cases "is_video p")
    case True
    then show ?thesis
      using add_video_packet_inv [OF inv _ as [unfolded as_def if_P [OF True]]] stream_packet_video [OF assms(4)] by auto
  next
    case False
    then show ?thesis
      using add_packet_inv [OF inv, of q] stream_packet_video [OF assms(4)] as as_def by auto
  qed
  then obtain fs1 k where fs1: "queue_inv taken past (fs1 @ [(q, k)]) s2" "map fst fs1 = map fst fs" "same_stream s0 s2" by blast
  define s1 where "s1 = (if added then s2\<lparr>rs_send_sem := rs_send_sem s2 + 1\<rparr> else s2)"
  have s21: "same_queue s2 s1" by (simp add: s1_def same_queue_def same_stream_def)
  have "queue_inv taken past (fs1 @ [(q, k)]) s1" using fs1(1) same_queue_inv [OF s21] by simp
  moreover have "same_stream s s1" using s0 s21 fs1(3) by (simp add: same_queue_def same_stream_def)
  moreover have "rtmp_stream_data env now (Some p) s = Some s1"
  proof -
    have q: "parsed_packet (se_flv env) (rs_video_codec s0 (p_track_idx p)) p = Some q"
      using assms(4) s0 by (simp add: stream_packet_def same_queue_def same_stream_def)
    have known: "\<not> (p_type p = OBS_ENCODER_VIDEO \<and> rs_video_codec s0 (p_track_idx p) = CODEC_NONE)"
      using q by (auto simp: parsed_packet_def)
    have new: "(if p_type p = OBS_ENCODER_VIDEO
        then (case rs_video_codec s0 (p_track_idx p) of
                CODEC_NONE \<Rightarrow> None
              | CODEC_H264 \<Rightarrow> Some (obs_parse_avc_packet (fe_addr (se_flv env) (p_data p)) p)
              | CODEC_HEVC \<Rightarrow> Some (obs_parse_hevc_packet (fe_addr (se_flv env) (p_data p)) p)
              | CODEC_AV1 \<Rightarrow> obs_parse_av1_packet p)
        else Some (obs_encoder_packet_ref p)) = Some q"
      using q by (simp add: parsed_packet_def obs_encoder_packet_ref_def split: if_splits)
    have add: "(if p_type p = OBS_ENCODER_VIDEO then add_video_packet now q s0 else add_packet q s0) = (added, s2)"
      using as by (simp add: as_def is_video_def)
    show ?thesis
      using assms(2,3) unfolding rtmp_stream_data_def Let_def s0_def [symmetric] option.case new add if_not_P [OF known] s1_def
      by simp
  qed
  ultimately show ?thesis using fs1(2) by blast
qed

lemma stream_run_inv:
  assumes "queue_inv taken past fs s" "rs_active s" "\<not> rs_disconnected s"
    and "list_all (\<lambda>p. stream_packet env s p \<noteq> None) (delivered es)"
  shows "\<exists>ps s1 past1 fs1. stream_run env es s = Some (ps, s1) \<and> queue_inv (taken @ ps) past1 fs1 s1 \<and>
    map fst (past1 @ fs1) = map fst (past @ fs) @ map (\<lambda>p. the (stream_packet env s p)) (delivered es) \<and> same_stream s s1"
  using assms
proof (induction es arbitrary: taken past fs s)
  case Nil
  then show ?case by (auto simp: same_stream_def)
next
  case (Cons e es)
  show ?case
  proof (cases e)
    case (Deliver now p)
    then obtain q where q: "stream_packet env s p = Some q" using Cons.prems(4) by auto
    obtain s1 fs1 k where 1: "rtmp_stream_data env now (Some p) s = Some s1" "queue_inv taken past (fs1 @ [(q, k)]) s1"
        "map fst fs1 = map fst fs" "same_stream s s1"
      using rtmp_stream_data_inv [OF Cons.prems(1-3) q] by blast
    note same = stream_packet_same [OF 1(4)]
    have "rs_active s1" "\<not> rs_disconnected s1" using 1(4) Cons.prems(2,3) by (simp_all add: same_stream_def)
    from Cons.IH [OF 1(2) this] Cons.prems(4) Deliver obtain ps s2 past2 fs2 where
      2: "stream_run env es s1 = Some (ps, s2)" "queue_inv (taken @ ps) past2 fs2 s2"
        "map fst (past2 @ fs2) = map fst (past @ fs1 @ [(q, k)]) @ map (\<lambda>p. the (stream_packet env s1 p)) (delivered es)"
        "same_stream s1 s2"
      by (auto simp: same)
    then show ?thesis
      using Deliver 1 q by (auto simp: same same_stream_def)
  next
    case Take
    obtain out s1 where nxt: "get_next_packet s = (out, s1)" by fastforce
    let ?o = "case out of None \<Rightarrow> [] | Some p \<Rightarrow> [p]"
    obtain past1 fs1 where 1: "queue_inv (taken @ ?o) past1 fs1 s1" "past1 @ fs1 = past @ fs" "same_stream s s1"
      using get_next_packet_inv [OF Cons.prems(1) nxt] by blast
    note same = stream_packet_same [OF 1(3)]
    have "rs_active s1" "\<not> rs_disconnected s1" using 1(3) Cons.prems(2,3) by (simp_all add: same_stream_def)
    from Cons.IH [OF 1(1) this] Cons.prems(4) Take obtain ps s2 past2 fs2 where
      2: "stream_run env es s1 = Some (ps, s2)" "queue_inv ((taken @ ?o) @ ps) past2 fs2 s2"
        "map fst (past2 @ fs2) = map fst (past1 @ fs1) @ map (\<lambda>p. the (stream_packet env s1 p)) (delivered es)"
        "same_stream s1 s2"
      by (auto simp: same)
    have "stream_run env (e # es) s = Some (?o @ ps, s2)" using Take nxt 2(1) by simp
    moreover have "queue_inv (taken @ ?o @ ps) past2 fs2 s2" using 2(2) by simp
    moreover have "map fst (past2 @ fs2) = map fst (past @ fs) @ map (\<lambda>p. the (stream_packet env s p)) (delivered (e # es))"
      using 2(3) unfolding 1(2) by (simp add: same Take)
    moreover have "same_stream s s2" using 1(3) 2(4) by (simp add: same_stream_def)
    ultimately show ?thesis by blast
  qed
qed

lemma dropped_video: "guarded m fs \<Longrightarrow> p \<in> set (dropped fs) \<Longrightarrow> is_video p"
  by (induction m fs rule: guarded.induct) (auto simp: dropped_def split: if_splits)

section \<open>Properties\<close>

text \<open>
  C22. However the encoders' deliveries and the thread's removals interleave, every delivered
  packet is kept or dropped: the kept ones are, in order, those taken by the thread followed by those in
  the queue; the dropped ones are counted, are video frames below the highest priority, and each
  has a lower priority than the next video packet that is kept, so that frames that depend on it
  are dropped with it.
\<close>

theorem rtmp_drops:
  assumes "rs_active s" "\<not> rs_disconnected s" "rs_packets s = deque_init" "rs_min_priority s = 0" "rs_dropped_frames s = 0"
    and "list_all (\<lambda>p. stream_packet env s p \<noteq> None) (delivered es)"
  shows "\<exists>taken s1 fates. stream_run env es s = Some (taken, s1) \<and>
    map fst fates = map (\<lambda>p. the (stream_packet env s p)) (delivered es) \<and>
    kept fates = taken @ deque_elems (rs_packets s1) \<and> rs_dropped_frames s1 = int (length (dropped fates)) \<and>
    guarded (rs_min_priority s1) fates \<and>
    (\<forall>p \<in> set (dropped fates). is_video p \<and> p_drop_priority p < OBS_NAL_PRIORITY_HIGHEST)"
proof -
  have "deque_wf (rs_packets s)" "deque_elems (rs_packets s) = []"
    using deque_init_rep [where ?'a = encoder_packet] assms(3) by (auto simp: deque_wf_rep deque_elems_rep)
  then have "queue_inv [] [] [] s"
    using assms(4,5) by (simp add: queue_inv_def kept_def dropped_def OBS_NAL_PRIORITY_HIGHEST_def)
  from stream_run_inv [OF this assms(1,2,6)] obtain ps s1 past fs where
    run: "stream_run env es s = Some (ps, s1)" "queue_inv ps past fs s1"
      "map fst (past @ fs) = map (\<lambda>p. the (stream_packet env s p)) (delivered es)" by auto
  then show ?thesis
    using dropped_video by (intro exI [of _ ps] exI [of _ s1] exI [of _ "past @ fs"]) (auto simp: queue_inv_def dropped_append)
qed

definition frame_packet :: "nat \<Rightarrow> bool \<Rightarrow> int \<Rightarrow> s64 \<Rightarrow> encoder_packet" where
  "frame_packet idx key prio t =
    \<lparr>p_data = [], p_pts = t, p_dts = t, p_timebase_num = 1, p_timebase_den = 1000000, p_type = OBS_ENCODER_VIDEO,
     p_keyframe = key, p_dts_usec = t, p_sys_dts_usec = t, p_priority = prio, p_drop_priority = prio, p_track_idx = idx,
     p_encoder = None\<rparr>"

definition example_stream :: rtmp_stream where
  "example_stream = (rtmp_stream_create \<lparr>fc_video_encoders = (\<lambda>_. None), fc_audio_encoders = (\<lambda>_. None), fc_version = ''1''\<rparr>
    (connection 4096 []))\<lparr>rs_active := True, rs_video_codec := (\<lambda>_. CODEC_H264), rs_drop_threshold_usec := 700000,
    rs_pframe_drop_threshold_usec := 900000\<rparr>"

definition example_env :: stream_env where
  "example_env = \<lparr>se_flv = \<lparr>fe_addr = (\<lambda>_. 0), fe_hdr_peak = 300\<rparr>,
    se_video = \<lparr>vo_format = VIDEO_FORMAT_NV12, vo_fps_num = 30, vo_fps_den = 1, vo_width = 1920, vo_height = 1080,
      vo_colorspace = VIDEO_CS_709, vo_range = VIDEO_RANGE_PARTIAL\<rparr>\<rparr>"

definition example_events :: "stream_event list" where
  "example_events = Deliver 0 (frame_packet 0 True 3 0) # Take #
    map (\<lambda>i. Deliver 0 (frame_packet 0 False 2 (word_of_nat (200000 * i)))) [1..<9]"

theorem rtmp_drops_witness:
  "\<exists>taken s1 fates. stream_run example_env example_events example_stream = Some (taken, s1) \<and>
    map fst fates = map (\<lambda>p. the (stream_packet example_env example_stream p)) (delivered example_events) \<and>
    kept fates = taken @ deque_elems (rs_packets s1) \<and> rs_dropped_frames s1 = int (length (dropped fates)) \<and>
    guarded (rs_min_priority s1) fates \<and>
    (\<forall>p \<in> set (dropped fates). is_video p \<and> p_drop_priority p < OBS_NAL_PRIORITY_HIGHEST)"
  by (rule rtmp_drops)
    (simp_all add: example_stream_def example_events_def rtmp_stream_create_def stream_packet_def parsed_packet_def
      frame_packet_def upt_rec)

text \<open>
  The priority that frames have to reach is shared by all tracks: a key frame of one track lets the next
  frame of every track pass, also of one whose frames before it were dropped.
\<close>

lemma key_frame_of_any_track_resumes:
  assumes "dq_size (rs_packets s) < 4" "deque_wf (rs_packets s)" "\<not> rs_dbr_enabled s"
    and "rs_min_priority s = OBS_NAL_PRIORITY_HIGHEST" "p_drop_priority k = OBS_NAL_PRIORITY_HIGHEST" "0 \<le> p_drop_priority p"
  shows "fst (add_video_packet now p (snd (add_video_packet now k s)))"
proof -
  have quiet: "check_to_drop_frames now pframes t = (if pframes then t else t\<lparr>rs_congestion := (0, 1)\<rparr>)"
    if "dq_size (rs_packets t) < 5" "\<not> rs_dbr_enabled t" for t pframes
    using that by (simp add: check_to_drop_frames_def num_buffered_packets_def Let_def)
  define s1 where "s1 = snd (add_video_packet now k s)"
  have s1: "s1 = s\<lparr>rs_congestion := (0, 1), rs_min_priority := 0, rs_last_dts_usec := p_dts_usec k,
      rs_packets := deque_push_back (rs_packets s) [k]\<rparr>"
    using assms by (simp add: s1_def add_video_packet_def quiet add_packet_def)
  have "dq_size (rs_packets s1) < 5"
    using assms(1,2) s1 dqf.count_elems [of "rs_packets s"] dqf.count_elems [OF dqf.push_wf, of "rs_packets s" "[k]"]
    by (simp add: dqf.push_elems)
  then show ?thesis
    unfolding s1_def [symmetric] using assms(3,6) s1 by (simp add: add_video_packet_def quiet add_packet_def)
qed

end
