(* ===== verification/Rtmp_Bitrate.thy ===== *)
theory Rtmp_Bitrate
  imports Rtmp_Drops
begin

text \<open>
  The bitrate that the RTMP output asks of the encoders: in every state of a session it lies between the
  floor from the settings and the bitrate the session began with, and every encoder is set to its
  share of it.
\<close>

section \<open>Sessions\<close>

text \<open>
  The steps of a session: a connection is made, sending begins, an encoder delivers, the thread makes a
  round or its last one, the user stops the stream.
\<close>

inductive stream_step :: "stream_env \<Rightarrow> rtmp_stream \<Rightarrow> rtmp_stream \<Rightarrow> bool" for env where
  connected: "stream_step env s (s\<lparr>rs_rtmp := r\<rparr>)"
| begins: "init_send s = Some (ok, s1) \<Longrightarrow> stream_step env s s1"
| data: "rtmp_stream_data env now packet s = Some s1 \<Longrightarrow> stream_step env s s1"
| round: "0 < rs_send_sem s \<Longrightarrow> send_round env now t_beg t_end s = Some (True, s1) \<Longrightarrow> stream_step env s s1"
| last_round: "0 < rs_send_sem s \<Longrightarrow> send_round env now t_beg t_end s = Some (False, s1) \<Longrightarrow> send_end s1 = Some s2 \<Longrightarrow>
    stream_step env s s2"
| stop: "stream_step env s (rtmp_stream_stop ts s)"

inductive_cases stream_stepE: "stream_step env s s1"

section \<open>The invariant\<close>

definition bitrate_in :: "int \<Rightarrow> int \<Rightarrow> int \<Rightarrow> bool" where
  "bitrate_in lo hi b \<longleftrightarrow> lo \<le> b \<and> b \<le> hi"

definition bitrate_inv :: "int \<Rightarrow> int \<Rightarrow> rtmp_stream \<Rightarrow> bool" where
  "bitrate_inv lo hi s \<longleftrightarrow>
    rs_dbr_floor_bitrate s = lo \<and> rs_dbr_orig_bitrate s = hi \<and> 0 \<le> rs_dbr_inc_bitrate s \<and> bitrate_in lo hi (rs_dbr_cur_bitrate s) \<and>
    (rs_dbr_prev_bitrate s = 0 \<or> bitrate_in lo hi (rs_dbr_prev_bitrate s))"

text \<open>The bitrate in the settings of a video encoder.\<close>

definition encoder_rate :: "rtmp_stream \<Rightarrow> nat \<Rightarrow> int option" where
  "encoder_rate s i =
    map_option (\<lambda>e. sint (set_int (e_settings e) ''bitrate'')) (obs_output_get_video_encoder2 (rs_output s) i)"

text \<open>Every encoder of those at the start has its share.\<close>

definition shared :: "(nat \<Rightarrow> int option) \<Rightarrow> int list list \<Rightarrow> rtmp_stream \<Rightarrow> bool" where
  "shared rates table s \<longleftrightarrow> rs_dbr_interpolation_table s = table \<and>
    (\<forall>i. encoder_rate s i = map_option (\<lambda>_. dbr_share (rs_dbr_cur_bitrate s) table i) (rates i))"

text \<open>States that agree on what the invariant is about.\<close>

definition same_rate :: "rtmp_stream \<Rightarrow> rtmp_stream \<Rightarrow> bool" where
  "same_rate s s1 \<longleftrightarrow>
    rs_dbr_floor_bitrate s1 = rs_dbr_floor_bitrate s \<and> rs_dbr_orig_bitrate s1 = rs_dbr_orig_bitrate s \<and>
    rs_dbr_inc_bitrate s1 = rs_dbr_inc_bitrate s \<and> rs_dbr_cur_bitrate s1 = rs_dbr_cur_bitrate s \<and>
    rs_dbr_prev_bitrate s1 = rs_dbr_prev_bitrate s \<and> rs_output s1 = rs_output s \<and> rs_dbr_enabled s1 = rs_dbr_enabled s \<and>
    rs_dbr_interpolation_table s1 = rs_dbr_interpolation_table s"

lemma same_rate_refl [simp]: "same_rate s s"
  by (simp add: same_rate_def)

lemma same_rate_trans [trans]: "same_rate s s1 \<Longrightarrow> same_rate s1 s2 \<Longrightarrow> same_rate s s2"
  by (simp add: same_rate_def)

lemma same_rate_inv: "same_rate s s1 \<Longrightarrow> bitrate_inv lo hi s1 = bitrate_inv lo hi s"
  by (simp add: same_rate_def bitrate_inv_def)

lemma same_rate_shared: "same_rate s s1 \<Longrightarrow> shared rates table s1 = shared rates table s"
  by (simp add: same_rate_def shared_def encoder_rate_def)

section \<open>Sending keeps the bitrate\<close>

lemma handle_socket_read_rate: "handle_socket_read s = Some (ok, s1) \<Longrightarrow> same_rate s s1"
  by (auto simp: handle_socket_read_def same_rate_def split: if_splits)

lemma rtmp_write_rate: "rtmp_write d s = Some (ret, s1) \<Longrightarrow> same_rate s s1"
  by (auto simp: rtmp_write_def same_rate_def split: prod.splits option.splits)

lemma count_sent_rate: "same_rate s (count_sent d s)"
  by (simp add: count_sent_def same_rate_def)

lemmas write_rates = handle_socket_read_rate rtmp_write_rate count_sent_rate

lemma send_packet_rate: "send_packet p h s = Some (ret, s1) \<Longrightarrow> same_rate s s1"
  by (auto simp: send_packet_def Let_def bind_eq_Some_conv split: if_splits
      intro: same_rate_trans dest!: handle_socket_read_rate rtmp_write_rate intro!: same_rate_trans [OF _ count_sent_rate])

lemma send_packet_ex_rate: "send_packet_ex p n h f i s = Some (ret, s1) \<Longrightarrow> same_rate s s1"
  by (auto simp: send_packet_ex_def Let_def bind_eq_Some_conv split: if_splits
      intro: same_rate_trans dest!: handle_socket_read_rate rtmp_write_rate intro!: same_rate_trans [OF _ count_sent_rate])

lemma send_audio_packet_ex_rate: "send_audio_packet_ex p h i s = Some (ret, s1) \<Longrightarrow> same_rate s s1"
  by (auto simp: send_audio_packet_ex_def bind_eq_Some_conv split: if_splits
      intro: same_rate_trans dest!: handle_socket_read_rate rtmp_write_rate)

lemma accepted_Some: "accepted x = Some (ok, s1) \<Longrightarrow> \<exists>ret. x = Some (ret, s1)"
  by (auto simp: accepted_def)

lemmas packet_rates = send_packet_rate send_packet_ex_rate send_audio_packet_ex_rate

lemma send_meta_data_rate: "send_meta_data s = Some (ok, s1) \<Longrightarrow> same_rate s s1"
  by (auto simp: send_meta_data_def bind_eq_Some_conv dest!: accepted_Some rtmp_write_rate)

lemma send_audio_header_rate: "send_audio_header i s = Some (ok, s1) \<Longrightarrow> same_rate s s1"
  by (auto simp: send_audio_header_def Let_def split: option.splits if_splits dest!: accepted_Some packet_rates)

lemma send_video_header_rate: "send_video_header env i s = Some (ok, s1) \<Longrightarrow> same_rate s s1"
  by (auto simp: send_video_header_def Let_def split: option.splits if_splits video_id_t.splits dest!: accepted_Some packet_rates)

lemma send_video_metadata_rate: "send_video_metadata env i s = Some (ok, s1) \<Longrightarrow> same_rate s s1"
  by (auto simp: send_video_metadata_def Let_def bind_eq_Some_conv split: option.splits if_splits prod.splits
      dest!: accepted_Some handle_socket_read_rate rtmp_write_rate intro: same_rate_trans intro!: same_rate_trans [OF _ count_sent_rate])

lemma send_each_rate:
  assumes "\<And>i s ok s1. f i s = Some (ok, s1) \<Longrightarrow> same_rate s s1"
  shows "send_each f is s = Some (ok, s1) \<Longrightarrow> same_rate s s1"
  by (induction "is" arbitrary: s) (auto split: option.splits if_splits dest!: assms intro: same_rate_trans)

lemma send_audio_track_rate: "send_audio_track i s = Some (ok, s1) \<Longrightarrow> same_rate s s1"
  by (auto simp: send_audio_track_def split: if_splits dest!: send_audio_header_rate)

lemma send_video_track_rate: "send_video_track env i s = Some (ok, s1) \<Longrightarrow> same_rate s s1"
  by (auto simp: send_video_track_def bind_eq_Some_conv split: if_splits intro: same_rate_trans
      dest!: send_video_header_rate send_video_metadata_rate)

lemma send_footer_track_rate: "send_footer_track i s = Some (ok, s1) \<Longrightarrow> same_rate s s1"
  by (auto simp: send_footer_track_def send_video_footer_def split: if_splits dest!: accepted_Some packet_rates)

lemma send_tracks_rate:
  "send_each send_audio_track is s = Some (ok, s1) \<Longrightarrow> same_rate s s1"
  "send_each (send_video_track env) is s = Some (ok, s1) \<Longrightarrow> same_rate s s1"
  by (erule send_each_rate [of send_audio_track, rotated], erule send_audio_track_rate)
    (erule send_each_rate [of "send_video_track env", rotated], erule send_video_track_rate)

lemma send_headers_rate:
  assumes "send_headers env s = Some (ok, s1)"
  shows "same_rate s s1"
proof -
  have "same_rate s (s\<lparr>rs_sent_headers := True\<rparr>)" by (simp add: same_rate_def)
  moreover have "same_rate (s\<lparr>rs_sent_headers := True\<rparr>) s1"
    using assms by (auto simp: send_headers_def bind_eq_Some_conv split: if_splits intro: same_rate_trans
        dest!: send_tracks_rate)
  ultimately show ?thesis by (rule same_rate_trans)
qed

lemma send_footers_rate: "send_footers s = Some (ok, s1) \<Longrightarrow> same_rate s s1"
  unfolding send_footers_def by (rule send_each_rate [OF send_footer_track_rate])

lemma get_next_packet_rate: "get_next_packet s = (out, s1) \<Longrightarrow> same_rate s s1"
  by (auto simp: get_next_packet_def same_rate_def split: if_splits prod.splits)

lemma dbr_add_frame_rate: "same_rate s (dbr_add_frame f s)"
  by (simp add: dbr_add_frame_def same_rate_def Let_def split: prod.splits)

lemma send_any_rate: "send_any p s = Some (ret, s1) \<Longrightarrow> same_rate s s1"
  by (auto simp: send_any_def Let_def split: if_splits dest!: packet_rates)

lemma send_round_rate:
  assumes "send_round env now t_beg t_end s = Some (ok, s1)"
  shows "same_rate s s1"
proof -
  define s0 where "s0 = s\<lparr>rs_send_sem := rs_send_sem s - 1\<rparr>"
  have s0: "same_rate s s0" by (simp add: s0_def same_rate_def)
  obtain out s2 where nxt: "get_next_packet s0 = (out, s2)" by fastforce
  note s2 = same_rate_trans [OF s0 get_next_packet_rate [OF nxt]]
  have disc: "same_rate t (t\<lparr>rs_disconnected := True\<rparr>)" for t by (simp add: same_rate_def)
  have hdr: "same_rate s2 s3" if "(if rs_sent_headers s2 then Some (True, s2) else send_headers env s2) = Some (b, s3)" for b s3
    using that by (auto split: if_splits dest: send_headers_rate)
  note round = assms [unfolded send_round_def Let_def s0_def [symmetric] nxt prod.case]
  show ?thesis
  proof (cases "rs_stop_event s0 \<and> rs_stop_ts s0 = 0 \<or> out = None \<or> (\<exists>p. out = Some p \<and> rs_stop_event s2 \<and> can_shutdown_stream now p s2)")
    case True
    then show ?thesis using round s0 s2 by (auto split: if_splits)
  next
    case False
    then obtain p where out: "out = Some p" by auto
    then obtain b s3 where 3: "(if rs_sent_headers s2 then Some (True, s2) else send_headers env s2) = Some (b, s3)"
      using round False by (auto simp: bind_eq_Some_conv split: if_splits)
    note s3 = same_rate_trans [OF s2 hdr [OF 3]]
    show ?thesis
    proof (cases b)
      case True
      then obtain ret s4 where 4: "send_any p s3 = Some (ret, s4)"
        using round False out 3 by (auto simp: bind_eq_Some_conv split: if_splits)
      note s4 = same_rate_trans [OF s3 send_any_rate [OF 4]]
      show ?thesis
        using round False out 3 True 4 same_rate_trans [OF s4 disc] same_rate_trans [OF s4 dbr_add_frame_rate] s4
        by (auto split: if_splits)
    next
      case b: False
      then show ?thesis using round False out 3 same_rate_trans [OF s3 disc] by (auto split: if_splits)
    qed
  qed
qed

section \<open>Changes of the bitrate\<close>

lemma dbr_set_bitrate_inv: "bitrate_inv lo hi s \<Longrightarrow> bitrate_inv lo hi (dbr_set_bitrate s)"
  by (rule dbr_set_bitrate_frame [of s]) (simp add: bitrate_inv_def)

lemma dbr_inc_bitrate_inv: "bitrate_inv lo hi s \<Longrightarrow> bitrate_inv lo hi (dbr_inc_bitrate now s)"
  by (auto simp: bitrate_inv_def dbr_inc_bitrate_def bitrate_in_def Let_def)

lemma rounded_estimate: "e < c \<Longrightarrow> c \<le> hi \<Longrightarrow> 50 \<le> hi \<Longrightarrow> max 50 (trunc_div e 100 * 100) \<le> (hi :: int)"
  using pos_imp_zdiv_nonneg_iff [of 100 "- e"] by (cases "0 \<le> e") (auto simp: trunc_div_def sgn_if)

lemma dbr_bitrate_lowered_inv:
  assumes "bitrate_inv lo hi s" "50 \<le> hi" "0 \<le> lo" "dbr_bitrate_lowered now s = (b, s1)"
  shows "bitrate_inv lo hi s1"
proof -
  have inv: "rs_dbr_floor_bitrate s = lo" "rs_dbr_cur_bitrate s \<le> hi" "rs_dbr_cur_bitrate s \<ge> lo" "lo \<le> hi"
      "rs_dbr_prev_bitrate s = 0 \<or> rs_dbr_prev_bitrate s \<le> hi"
    using assms(1) by (auto simp: bitrate_inv_def bitrate_in_def)
  obtain e where e: "max 50 (trunc_div (rs_dbr_est_bitrate s) 100 * 100) = e" by blast
  have est: "e \<le> hi" if "rs_dbr_est_bitrate s < rs_dbr_cur_bitrate s"
    using rounded_estimate [OF that inv(2) assms(2)] e by simp
  have e50: "50 \<le> e" using e by auto
  define new where "new = (if rs_dbr_est_bitrate s \<noteq> 0 \<and> rs_dbr_est_bitrate s < rs_dbr_cur_bitrate s
    then e else rs_dbr_prev_bitrate s)"
  have new: "new = 0 \<or> new \<le> hi" using est inv(5) by (auto simp: new_def)
  define s0 where "s0 = (if rs_dbr_est_bitrate s \<noteq> 0 \<and> rs_dbr_est_bitrate s < rs_dbr_cur_bitrate s
    then s\<lparr>rs_dbr_data_size := 0,
      rs_dbr_frames := snd (deque_pop_front (rs_dbr_frames s) (dq_size (rs_dbr_frames s)))\<rparr> else s)"
  have s0: "same_rate s s0" by (simp add: s0_def same_rate_def)
  define n where "n = (if lo \<noteq> 0 \<and> new < lo then lo else new)"
  have "s1 = s0 \<or> new \<noteq> 0 \<and> s1 = s0\<lparr>rs_dbr_prev_bitrate := 0, rs_dbr_cur_bitrate := n, rs_dbr_inc_timeout := now + DBR_INC_TIMER\<rparr>"
  proof -
    have zero: "((if rs_dbr_est_bitrate s \<noteq> 0 \<and> rs_dbr_est_bitrate s < rs_dbr_cur_bitrate s then e else 0) = 0 \<and>
        rs_dbr_prev_bitrate s = 0) = (new = 0)"
        "(if (if rs_dbr_est_bitrate s \<noteq> 0 \<and> rs_dbr_est_bitrate s < rs_dbr_cur_bitrate s then e else 0) \<noteq> 0
          then (if rs_dbr_est_bitrate s \<noteq> 0 \<and> rs_dbr_est_bitrate s < rs_dbr_cur_bitrate s then e else 0)
          else rs_dbr_prev_bitrate s) = new"
      using e50 by (auto simp: new_def)
    have fl: "rs_dbr_floor_bitrate s0 = lo" using s0 inv(1) by (simp add: same_rate_def)
    show ?thesis
      using assms(4) unfolding dbr_bitrate_lowered_def Let_def e s0_def [symmetric] zero fl n_def [symmetric]
      by (auto split: if_splits)
  qed
  then show ?thesis
  proof (elim disjE conjE)
    assume "s1 = s0"
    then show ?thesis using assms(1) same_rate_inv [OF s0] by simp
  next
    assume n0: "new \<noteq> 0"
      and s1: "s1 = s0\<lparr>rs_dbr_prev_bitrate := 0, rs_dbr_cur_bitrate := n, rs_dbr_inc_timeout := now + DBR_INC_TIMER\<rparr>"
    have "lo = 0 \<Longrightarrow> 0 \<le> new"
      using assms(1) e50 by (auto simp: new_def bitrate_inv_def bitrate_in_def)
    then have "bitrate_in lo hi n" using n0 new inv(4) assms(3) by (auto simp: bitrate_in_def n_def)
    moreover have "bitrate_inv lo hi s0" using assms(1) same_rate_inv [OF s0] by simp
    ultimately show ?thesis by (simp add: bitrate_inv_def s1)
  qed
qed

section \<open>Shares of the encoders\<close>

lemma dbr_update_encoder_rate:
  assumes "share = dbr_share (rs_dbr_cur_bitrate s) (rs_dbr_interpolation_table s) i" "\<bar>share\<bar> < 2 ^ 53"
  shows "encoder_rate (dbr_update_encoder i s) j = (if j = i then map_option (\<lambda>_. share) (encoder_rate s i) else encoder_rate s j)"
proof -
  have "sint (word_of_int share :: 64 word) = share"
    using assms(2) by (simp add: sint_sbintrunc' signed_take_bit_int_eq_self)
  then show ?thesis
    using assms(1) by (auto simp: dbr_update_encoder_def encoder_rate_def obs_output_get_video_encoder2_def Let_def
        set_encoder_bitrate_def split: option.splits)
qed

lemma dbr_updates_rates:
  assumes "\<And>i. i \<in> set is \<Longrightarrow> \<bar>dbr_share (rs_dbr_cur_bitrate s) (rs_dbr_interpolation_table s) i\<bar> < 2 ^ 53"
  shows "encoder_rate (fold dbr_update_encoder is s) j =
    (if j \<in> set is then map_option (\<lambda>_. dbr_share (rs_dbr_cur_bitrate s) (rs_dbr_interpolation_table s) j) (encoder_rate s j)
     else encoder_rate s j)"
  using assms
proof (induction "is" arbitrary: s)
  case (Cons i "is")
  have same: "rs_dbr_cur_bitrate (dbr_update_encoder i s) = rs_dbr_cur_bitrate s"
      "rs_dbr_interpolation_table (dbr_update_encoder i s) = rs_dbr_interpolation_table s"
    using dbr_update_encoder_frame [of i s] by auto
  have first: "encoder_rate (dbr_update_encoder i s) k = (if k = i
      then map_option (\<lambda>_. dbr_share (rs_dbr_cur_bitrate s) (rs_dbr_interpolation_table s) i) (encoder_rate s i) else encoder_rate s k)" for k
    using Cons.prems by (intro dbr_update_encoder_rate) auto
  show ?case
    using Cons.IH [of "dbr_update_encoder i s"] Cons.prems by (auto simp: same first option.map_comp comp_def)
qed simp

lemma dbr_set_bitrate_shared:
  assumes "rs_dbr_interpolation_table s = table" "table \<noteq> []" "\<And>i. i < MAX_OUTPUT_VIDEO_ENCODERS \<Longrightarrow> \<bar>dbr_share (rs_dbr_cur_bitrate s) table i\<bar> < 2 ^ 53"
    and "\<And>i. (encoder_rate s i = None) = (rates i = None)"
  shows "shared rates table (dbr_set_bitrate s)"
proof -
  have same: "rs_dbr_cur_bitrate (dbr_set_bitrate s) = rs_dbr_cur_bitrate s"
      "rs_dbr_interpolation_table (dbr_set_bitrate s) = table"
    using assms(1) by (rule_tac [!] dbr_set_bitrate_frame [of s]) simp_all
  have none: "encoder_rate s i = None" if "i \<ge> MAX_OUTPUT_VIDEO_ENCODERS" for i
    using that by (simp add: encoder_rate_def obs_output_get_video_encoder2_def)
  have "encoder_rate (dbr_set_bitrate s) i = map_option (\<lambda>_. dbr_share (rs_dbr_cur_bitrate s) table i) (encoder_rate s i)" for i
    using assms(1-3) dbr_updates_rates [of "[0..<MAX_OUTPUT_VIDEO_ENCODERS]" s i] none [of i] by (auto simp: dbr_set_bitrate_def)
  moreover have "map_option (\<lambda>_. x) (encoder_rate s i) = map_option (\<lambda>_. x) (rates i)" for x :: int and i
    using assms(4) [of i] by (cases "encoder_rate s i"; cases "rates i") auto
  ultimately show ?thesis by (simp add: shared_def same)
qed

text \<open>The default table, and the invariant of a session that uses it.\<close>

definition default_levels :: "(nat \<Rightarrow> int option) \<Rightarrow> int list list" where
  "default_levels rates = [replicate MAX_OUTPUT_VIDEO_ENCODERS 0,
    map (\<lambda>i. case rates i of None \<Rightarrow> 0 | Some b \<Rightarrow> b) [0..<MAX_OUTPUT_VIDEO_ENCODERS]]"

definition plain_rates :: "(nat \<Rightarrow> int option) \<Rightarrow> bool" where
  "plain_rates rates \<longleftrightarrow> (\<forall>i b. rates i = Some b \<longrightarrow> 0 \<le> b \<and> b < 2 ^ 53)"

definition session_inv :: "int \<Rightarrow> int \<Rightarrow> (nat \<Rightarrow> int option) \<Rightarrow> rtmp_stream \<Rightarrow> bool" where
  "session_inv lo hi rates s \<longleftrightarrow> bitrate_inv lo hi s \<and> shared rates (default_levels rates) s"

lemma default_share:
  assumes "plain_rates rates" "i < MAX_OUTPUT_VIDEO_ENCODERS" "0 \<le> cur"
  shows "0 \<le> dbr_share cur (default_levels rates) i \<and>
    dbr_share cur (default_levels rates) i \<le> (case rates i of None \<Rightarrow> 0 | Some b \<Rightarrow> b)"
proof -
  let ?bs = "map (\<lambda>i. case rates i of None \<Rightarrow> 0 | Some b \<Rightarrow> b) [0..<MAX_OUTPUT_VIDEO_ENCODERS]"
  have "\<forall>b \<in> set ?bs. 0 \<le> b \<and> b < 2 ^ 53" using assms(1) by (auto simp: plain_rates_def split: option.splits)
  then show ?thesis using default_table [of ?bs i cur] assms(2,3) by (simp add: default_levels_def)
qed

lemma session_inv_set:
  assumes "bitrate_inv lo hi s" "0 \<le> lo" "plain_rates rates" "rs_dbr_interpolation_table s = default_levels rates"
    and "\<And>i. (encoder_rate s i = None) = (rates i = None)"
  shows "session_inv lo hi rates (dbr_set_bitrate s)"
proof -
  have "0 \<le> rs_dbr_cur_bitrate s" using assms(1,2) by (auto simp: bitrate_inv_def bitrate_in_def)
  note share = default_share [OF assms(3) _ this]
  have "(case rates i of None \<Rightarrow> 0 | Some b \<Rightarrow> b) < 2 ^ 53" for i using assms(3) by (auto simp: plain_rates_def split: option.splits)
  then have "\<bar>dbr_share (rs_dbr_cur_bitrate s) (default_levels rates) i\<bar> < 2 ^ 53" if "i < MAX_OUTPUT_VIDEO_ENCODERS" for i
    using share [OF that] by (metis abs_of_nonneg order_le_less_trans)
  then show ?thesis
    unfolding session_inv_def
    using dbr_set_bitrate_inv [OF assms(1)] dbr_set_bitrate_shared [OF assms(4) _ _ assms(5)] by (simp add: default_levels_def)
qed

lemma same_rate_session: "same_rate s s1 \<Longrightarrow> session_inv lo hi rates s1 = session_inv lo hi rates s"
  by (simp add: session_inv_def same_rate_inv same_rate_shared)

lemma session_invD:
  assumes "session_inv lo hi rates s"
  shows "bitrate_inv lo hi s" "rs_dbr_interpolation_table s = default_levels rates" "(encoder_rate s i = None) = (rates i = None)"
  using assms by (auto simp: session_inv_def shared_def)

section \<open>Every step keeps the invariant\<close>

lemma dbr_bitrate_lowered_same:
  "dbr_bitrate_lowered now s = (False, s1) \<Longrightarrow> same_rate s s1"
  "dbr_bitrate_lowered now s = (b, s1) \<Longrightarrow> rs_output s1 = rs_output s \<and> rs_dbr_interpolation_table s1 = rs_dbr_interpolation_table s"
  by (auto simp: dbr_bitrate_lowered_def Let_def same_rate_def split: if_splits)

lemma lowered_session:
  assumes "session_inv lo hi rates s" "50 \<le> hi" "0 \<le> lo" "plain_rates rates" "dbr_bitrate_lowered now s = (b, s1)"
  shows "session_inv lo hi rates (if b then dbr_set_bitrate s1 else s1)"
proof (cases b)
  case True
  have same: "encoder_rate s1 i = encoder_rate s i" "rs_dbr_interpolation_table s1 = rs_dbr_interpolation_table s" for i
    using dbr_bitrate_lowered_same(2) [OF assms(5)] by (simp_all add: encoder_rate_def)
  show ?thesis
    using True session_invD [OF assms(1)] same dbr_bitrate_lowered_inv [OF _ assms(2,3,5)]
    by (simp add: session_inv_set [OF _ assms(3,4)])
next
  case False
  then show ?thesis using assms(1,5) same_rate_session [OF dbr_bitrate_lowered_same(1)] by auto
qed

lemma drop_frames_rate: "same_rate s (drop_frames h s)"
  by (simp add: drop_frames_def same_rate_def Let_def split: prod.splits)

lemma check_to_drop_frames_session:
  assumes "session_inv lo hi rates s" "50 \<le> hi" "0 \<le> lo" "plain_rates rates"
  shows "session_inv lo hi rates (check_to_drop_frames now pframes s)"
proof -
  define t where "t = dbr_inc_bitrate now (s\<lparr>rs_dbr_inc_timeout := 0\<rparr>)"
  define s1 where "s1 = (if \<not> pframes \<and> rs_dbr_enabled s \<and> rs_dbr_inc_timeout s \<noteq> 0 \<and> now \<ge> rs_dbr_inc_timeout s
    then dbr_set_bitrate t else s)"
  have rate: "same_rate r (r\<lparr>rs_congestion := y\<rparr>)" "same_rate r (r\<lparr>rs_dbr_inc_timeout := x\<rparr>)" for r x y
    by (simp_all add: same_rate_def)
  have "bitrate_inv lo hi (s\<lparr>rs_dbr_inc_timeout := 0\<rparr>)"
    using session_invD(1) [OF assms(1)] same_rate_inv [OF rate(2)] by simp
  then have "bitrate_inv lo hi t" by (simp add: t_def dbr_inc_bitrate_inv)
  moreover have "encoder_rate t i = encoder_rate s i" "rs_dbr_interpolation_table t = rs_dbr_interpolation_table s" for i
    by (simp_all add: t_def dbr_inc_bitrate_def Let_def encoder_rate_def)
  ultimately have "session_inv lo hi rates (dbr_set_bitrate t)"
    using session_invD [OF assms(1)] by (simp add: session_inv_set [OF _ assms(3,4)])
  then have s1: "session_inv lo hi rates s1" using assms(1) by (simp add: s1_def)
  then have cong: "session_inv lo hi rates (s1\<lparr>rs_congestion := y\<rparr>)" for y using same_rate_session [OF rate(1)] by simp
  have low: "session_inv lo hi rates (case dbr_bitrate_lowered now (s1\<lparr>rs_congestion := y\<rparr>) of
      (changed, s2) \<Rightarrow> if changed then dbr_set_bitrate s2 else s2)" for y
    by (cases "dbr_bitrate_lowered now (s1\<lparr>rs_congestion := y\<rparr>)") (use lowered_session [OF cong assms(2-4)] in auto)
  show ?thesis
    unfolding check_to_drop_frames_def t_def [symmetric] s1_def [symmetric] Let_def
    using s1 low cong by (auto simp: same_rate_session [OF drop_frames_rate] split: option.splits)
qed

lemma rtmp_stream_data_session:
  assumes "session_inv lo hi rates s" "50 \<le> hi" "0 \<le> lo" "plain_rates rates" "rtmp_stream_data env now p s = Some s1"
  shows "session_inv lo hi rates s1"
proof -
  have upd: "session_inv lo hi rates (t\<lparr>rs_send_sem := a\<rparr>) = session_inv lo hi rates t"
      "session_inv lo hi rates (t\<lparr>rs_start_dts_offset := b, rs_got_first_packet := True\<rparr>) = session_inv lo hi rates t"
      "session_inv lo hi rates (t\<lparr>rs_encode_error := True\<rparr>) = session_inv lo hi rates t"
      "session_inv lo hi rates (t\<lparr>rs_dropped_frames := n\<rparr>) = session_inv lo hi rates t"
      "session_inv lo hi rates (t\<lparr>rs_min_priority := 0, rs_last_dts_usec := d\<rparr>) = session_inv lo hi rates t"
      "session_inv lo hi rates (snd (add_packet q t)) = session_inv lo hi rates t" for t a b q n d
    by (rule same_rate_session, simp add: same_rate_def add_packet_def)+
  have "session_inv lo hi rates (snd (add_video_packet now q t))" if "session_inv lo hi rates t" for q t
  proof -
    define t1 where "t1 = check_to_drop_frames now True (check_to_drop_frames now False t)"
    have "session_inv lo hi rates t1" using that assms(2-4) by (simp add: t1_def check_to_drop_frames_session)
    then show ?thesis unfolding add_video_packet_def t1_def [symmetric] Let_def by (simp add: upd)
  qed
  then have vid: "session_inv lo hi rates t2" if "add_video_packet now q t = (b, t2)" "session_inv lo hi rates t" for q t b t2
    using that by (metis snd_conv)
  have aud: "session_inv lo hi rates t2" if "add_packet q t = (b, t2)" "session_inv lo hi rates t" for q t b t2
    using that upd(6) by (metis snd_conv)
  show ?thesis
    using assms(1,5) unfolding rtmp_stream_data_def Let_def
    by (auto simp: upd split: if_splits option.splits prod.splits dest: vid aud)
qed

text \<open>The end of a session gives the encoders their bitrates back.\<close>

lemma send_end_session:
  assumes "session_inv lo hi rates s" "0 \<le> lo" "plain_rates rates" "send_end s = Some s1"
  shows "session_inv lo hi rates s1" "rs_dbr_enabled s \<Longrightarrow> rs_dbr_cur_bitrate s1 = hi"
proof -
  obtain ok t where t: "(if rs_disconnected s then Some (True, s) else send_footers s) = Some (ok, t)"
    using assms(4) by (auto simp: send_end_def bind_eq_Some_conv)
  have same: "same_rate s t" using t send_footers_rate by (auto split: if_splits)
  define t2 where "t2 = t\<lparr>rs_rtmp := RTMP_Close (rs_rtmp t)\<rparr>"
  define u where "u = t2\<lparr>rs_dbr_cur_bitrate := rs_dbr_orig_bitrate t2\<rparr>"
  define t3 where "t3 = (if rs_dbr_enabled t2 \<and> rs_dbr_cur_bitrate t2 \<noteq> rs_dbr_orig_bitrate t2 then dbr_set_bitrate u else t2)"
  define g where "g = (if \<not> rs_stop_event t3 then Stopped OBS_OUTPUT_DISCONNECTED
    else if rs_encode_error s then Stopped OBS_OUTPUT_ENCODE_ERROR else Capture_Ended)"
  have s1: "s1 = (free_packets (t3\<lparr>rs_signals := rs_signals t3 @ [g]\<rparr>))\<lparr>
      rs_stop_event := False, rs_active := False, rs_sent_headers := False\<rparr>"
    using assms(4) by (simp only: send_end_def t Let_def bind.bind_lunit prod.case option.inject t2_def u_def t3_def g_def)
  have "same_rate t t2" by (simp add: t2_def same_rate_def)
  then have t2: "session_inv lo hi rates t2" using assms(1) same_rate_session same by blast
  have "bitrate_inv lo hi u" using session_invD(1) [OF t2] by (auto simp: u_def bitrate_inv_def bitrate_in_def)
  then have set: "session_inv lo hi rates (dbr_set_bitrate u)"
    using session_invD [OF t2] by (intro session_inv_set [OF _ assms(2,3)]) (auto simp: u_def encoder_rate_def)
  then have t3: "session_inv lo hi rates t3" using t2 by (simp add: t3_def)
  have "same_rate t3 s1" by (simp add: s1 same_rate_def free_packets_def)
  then show "session_inv lo hi rates s1" using t3 same_rate_session by blast
  have "rs_dbr_cur_bitrate (dbr_set_bitrate u) = rs_dbr_cur_bitrate u" by (rule dbr_set_bitrate_frame [of u]) simp
  then show "rs_dbr_cur_bitrate s1 = hi" if "rs_dbr_enabled s"
    using that same session_invD(1) [OF t2] \<open>same_rate t3 s1\<close>
    by (auto simp: t3_def same_rate_def t2_def u_def bitrate_inv_def split: if_splits)
qed

lemma stream_step_session:
  assumes "stream_step env s s1" "session_inv lo hi rates s" "50 \<le> hi" "0 \<le> lo" "plain_rates rates"
  shows "session_inv lo hi rates s1"
  using assms(1)
proof cases
  case (connected r)
  have "same_rate s s1" by (simp add: connected same_rate_def)
  then show ?thesis using assms(2) same_rate_session by blast
next
  case (begins ok)
  have "same_rate s (s\<lparr>rs_send_sem := 0, rs_active := True\<rparr>)" by (simp add: same_rate_def)
  then have "same_rate s s1"
    using begins by (auto simp: init_send_def intro: same_rate_trans dest!: send_meta_data_rate)
  then show ?thesis using assms(2) same_rate_session by blast
next
  case (data now packet)
  then show ?thesis using assms(2-5) rtmp_stream_data_session by blast
next
  case (round now t_beg t_end)
  then show ?thesis using assms(2) same_rate_session [OF send_round_rate] by blast
next
  case (last_round now t_beg t_end t)
  then show ?thesis using assms(2,4,5) same_rate_session [OF send_round_rate] send_end_session(1) by blast
next
  case (stop ts)
  have "same_rate s s1" by (auto simp: stop same_rate_def rtmp_stream_stop_def Let_def)
  then show ?thesis using assms(2) same_rate_session by blast
qed

lemma steps_session:
  "(stream_step env)\<^sup>*\<^sup>* s s1 \<Longrightarrow> session_inv lo hi rates s \<Longrightarrow> 50 \<le> hi \<Longrightarrow> 0 \<le> lo \<Longrightarrow> plain_rates rates \<Longrightarrow>
    session_inv lo hi rates s1"
  by (induction rule: rtranclp_induct) (auto intro: stream_step_session)

section \<open>The start of a session\<close>

lemma floor_of: "0 \<le> o1 \<Longrightarrow> 0 \<le> (p :: int) \<Longrightarrow> p \<le> 100 \<Longrightarrow> 0 \<le> trunc_div (o1 * p) 100 \<and> trunc_div (o1 * p) 100 \<le> (o1 :: int)"
proof -
  assume h: "0 \<le> o1" "0 \<le> p" "p \<le> 100"
  have "o1 * p \<le> o1 * 100" using h by (intro mult_left_mono) auto
  then have "o1 * p div 100 \<le> o1 * 100 div 100" by (intro zdiv_mono1) auto
  then show ?thesis using h by (simp add: trunc_div_def sgn_if abs_mult pos_imp_zdiv_nonneg_iff)
qed

lemma encoder_bitrates_rates:
  "encoder_bitrates (map (obs_output_get_video_encoder2 (rs_output s)) [0..<MAX_OUTPUT_VIDEO_ENCODERS]) =
    map (\<lambda>i. case encoder_rate s i of None \<Rightarrow> 0 | Some b \<Rightarrow> b) [0..<MAX_OUTPUT_VIDEO_ENCODERS]"
  by (auto simp: encoder_bitrates_def encoder_rate_def split: option.splits)

lemma default_levels_whole:
  assumes "plain_rates rates" "hi = sum_list (last (default_levels rates))" "rates i \<noteq> None \<Longrightarrow> i < MAX_OUTPUT_VIDEO_ENCODERS"
  shows "map_option (\<lambda>_. dbr_share hi (default_levels rates) i) (rates i) = rates i"
proof -
  let ?bs = "map (\<lambda>i. case rates i of None \<Rightarrow> 0 | Some b \<Rightarrow> b) [0..<MAX_OUTPUT_VIDEO_ENCODERS]"
  have "0 \<le> sum_list ?bs" using assms(1) by (intro sum_list_nonneg) (auto simp: plain_rates_def split: option.splits)
  then show ?thesis
    using whole_bitrate_share [of ?bs i] assms(2,3) by (cases "rates i") (auto simp: default_levels_def)
qed

lemma init_connect_session:
  assumes "init_connect cs s0 = Some (True, s)" "50 \<le> rs_dbr_orig_bitrate s" "plain_rates (encoder_rate s)"
    and "cs_table_data cs = None" "rs_dbr_prev_bitrate s0 = 0" "rs_dbr_interpolation_table s0 = []"
  shows "session_inv (rs_dbr_floor_bitrate s) (rs_dbr_orig_bitrate s) (encoder_rate s) s" "0 \<le> rs_dbr_floor_bitrate s"
    "rs_dbr_orig_bitrate s = sum_list (last (default_levels (encoder_rate s)))"
proof -
  define pct where "pct = min 100 (sint (cs_floor_pct cs))"
  have eqs: "rs_dbr_cur_bitrate s = rs_dbr_orig_bitrate s" "rs_dbr_inc_bitrate s = trunc_div (rs_dbr_orig_bitrate s) 10"
      "rs_dbr_floor_bitrate s = (if pct > 0 then trunc_div (rs_dbr_orig_bitrate s * pct) 100 else 0)"
      "rs_dbr_prev_bitrate s = 0" "rs_output s = rs_output s0"
      "rs_dbr_orig_bitrate s = sum_list (encoder_bitrates (map (obs_output_get_video_encoder2 (rs_output s0)) [0..<MAX_OUTPUT_VIDEO_ENCODERS]))"
      "rs_dbr_interpolation_table s = [replicate MAX_OUTPUT_VIDEO_ENCODERS 0,
        encoder_bitrates (map (obs_output_get_video_encoder2 (rs_output s0)) [0..<MAX_OUTPUT_VIDEO_ENCODERS])]"
    using assms(1,4-6) by (auto simp: init_connect_def Let_def free_packets_def pct_def split: if_splits)
  have "pct \<le> 100" by (simp add: pct_def)
  then have fl: "0 \<le> rs_dbr_floor_bitrate s \<and> rs_dbr_floor_bitrate s \<le> rs_dbr_orig_bitrate s"
    using floor_of [of "rs_dbr_orig_bitrate s" pct] assms(2) eqs(3) by auto
  then show "0 \<le> rs_dbr_floor_bitrate s" by simp
  have "0 \<le> trunc_div (rs_dbr_orig_bitrate s) 10"
    using assms(2) by (simp add: trunc_div_def sgn_if pos_imp_zdiv_nonneg_iff)
  then have inv: "bitrate_inv (rs_dbr_floor_bitrate s) (rs_dbr_orig_bitrate s) s"
    using eqs(1,2,4) fl by (auto simp: bitrate_inv_def bitrate_in_def)
  note levels = encoder_bitrates_rates [of s, unfolded eqs(5)]
  have table: "rs_dbr_interpolation_table s = default_levels (encoder_rate s)" by (simp add: eqs(7) default_levels_def levels)
  show orig: "rs_dbr_orig_bitrate s = sum_list (last (default_levels (encoder_rate s)))"
    by (simp add: eqs(6) default_levels_def levels)
  have few: "encoder_rate s i \<noteq> None \<Longrightarrow> i < MAX_OUTPUT_VIDEO_ENCODERS" for i
    by (auto simp: encoder_rate_def obs_output_get_video_encoder2_def split: if_splits)
  show "session_inv (rs_dbr_floor_bitrate s) (rs_dbr_orig_bitrate s) (encoder_rate s) s"
    unfolding session_inv_def shared_def eqs(1) using inv table default_levels_whole [OF assms(3) orig few] by simp
qed


definition steady_encoder :: "int \<Rightarrow> obs_encoder" where
  "steady_encoder b =
    \<lparr>e_ptr = 1, e_type = OBS_ENCODER_VIDEO, e_codec = ''h264'', e_id = ''x264'', e_name = ''x264'', e_extra_data = None,
     e_settings = \<lparr>set_int = (\<lambda>_. word_of_int b), set_double = (\<lambda>_. double_of_int b), set_json = ''{}''\<rparr>,
     e_scaled_width = 1920, e_scaled_height = 1080, e_samplerate = 0, e_framesize = 0, e_video = None,
     e_fps_override = None, e_audio = None\<rparr>"

definition fresh_stream :: rtmp_stream where
  "fresh_stream = rtmp_stream_create \<lparr>fc_video_encoders = (\<lambda>i. if i = 0 then Some (steady_encoder 6000) else None),
     fc_audio_encoders = (\<lambda>_. None), fc_version = ''1''\<rparr> (connection 4096 [])"

definition quarter_floor :: connect_settings where
  "quarter_floor = \<lparr>cs_service = True, cs_drop_threshold_ms = 700, cs_pframe_drop_threshold_ms = 900,
     cs_max_shutdown_time_sec = 30, cs_dyn_bitrate = True, cs_floor_pct = 25, cs_delay = 0, cs_table_data = None,
     cs_caps = (\<lambda>_. (True, True))\<rparr>"

definition connected_stream :: rtmp_stream where
  "connected_stream = snd (the (init_connect quarter_floor fresh_stream))"

lemma fresh_connects: "init_connect quarter_floor fresh_stream = Some (True, connected_stream)"
  by (simp add: connected_stream_def init_connect_def quarter_floor_def Let_def)

lemma connected_stream_rates:
  "rs_dbr_orig_bitrate connected_stream = 6000" "rs_dbr_floor_bitrate connected_stream = 1500"
  "rs_dbr_cur_bitrate connected_stream = 6000"
  by (simp_all add: connected_stream_def init_connect_def quarter_floor_def Let_def encoder_bitrates_def free_packets_def
      fresh_stream_def rtmp_stream_create_def obs_output_get_video_encoder2_def upt_rec MAX_OUTPUT_VIDEO_ENCODERS_def
      steady_encoder_def trunc_div_def)


text \<open>
  How far it goes down.  When the estimate is less than the bitrate, the new bitrate is the estimate in
  whole hundreds, but 50 at least and the floor at least; without an estimate it is the bitrate before
  the last increase.
\<close>

lemma lowered_to_estimate:
  assumes "0 < rs_dbr_est_bitrate s" "rs_dbr_est_bitrate s < rs_dbr_cur_bitrate s" "dbr_bitrate_lowered now s = (True, s1)"
  shows "rs_dbr_cur_bitrate s1 = max (rs_dbr_floor_bitrate s) (max 50 (rs_dbr_est_bitrate s div 100 * 100))"
  using assms by (auto simp: dbr_bitrate_lowered_def Let_def trunc_div_def sgn_if split: if_splits)

text \<open>
  \<open>init_connect\<close> leaves \<open>dbr_prev_bitrate\<close> as the last session left it: a session with encoders of 2000
  that follows one of 6000 asks them for 5400 when it finds the connection congested.
\<close>

lemma stale_bitrate_raises:
  assumes "init_connect cs s0 = Some (True, s)" "rs_dbr_prev_bitrate s0 = 5400" "rs_dbr_orig_bitrate s = 2000"
  shows "fst (dbr_bitrate_lowered now s)" "rs_dbr_cur_bitrate (snd (dbr_bitrate_lowered now s)) = 5400"
proof -
  have eqs: "rs_dbr_cur_bitrate s = 2000" "rs_dbr_est_bitrate s = 0" "rs_dbr_prev_bitrate s = 5400"
      "rs_dbr_floor_bitrate s = 0 \<or> (\<exists>p. 0 \<le> p \<and> p \<le> 100 \<and> rs_dbr_floor_bitrate s = trunc_div (2000 * p) 100)"
    using assms by (auto simp: init_connect_def Let_def free_packets_def split: if_splits
        intro!: exI [of _ "min 100 (sint (cs_floor_pct cs))"])
  then have "\<not> 5400 < rs_dbr_floor_bitrate s" using floor_of [of 2000] by force
  then show "fst (dbr_bitrate_lowered now s)" "rs_dbr_cur_bitrate (snd (dbr_bitrate_lowered now s)) = 5400"
    using eqs(1-3) by (auto simp: dbr_bitrate_lowered_def Let_def)
qed

end
