(* ===== verification/Rtmp_Session.thy ===== *)
theory Rtmp_Session
  imports Rtmp_Drops Flv_File
begin

text \<open>
  A whole session of the RTMP output, from the meta data to the peer: the tags that leave over the
  connection are the meta data, the headers of all tracks and one tag for each packet that is taken
  from the queue, and a peer that reads the connection gets them back.
\<close>

section \<open>Sending tags\<close>

definition ready :: "rtmp_stream \<Rightarrow> bool" where
  "ready s \<longleftrightarrow> idle (rs_rtmp s) \<and> sb_in (rs_rtmp s) = []"

text \<open>From one state to another, only tags are sent.\<close>

definition sends_tags :: "flv_tag list \<Rightarrow> rtmp_stream \<Rightarrow> rtmp_stream \<Rightarrow> bool" where
  "sends_tags ts s s1 \<longleftrightarrow> list_all media_tag ts \<and>
    (\<exists>r n. s1 = s\<lparr>rs_rtmp := r, rs_total_bytes_sent := n\<rparr> \<and> idle r \<and> sb_in r = [] \<and>
      write_tags ts (rs_rtmp s) = (map (\<lambda>t. Some (int (length (tag_bytes t)))) ts, r))"

lemma write_tags_append:
  "write_tags (ts @ us) r = (let (a, r1) = write_tags ts r; (b, r2) = write_tags us r1 in (a @ b, r2))"
  by (induction ts arbitrary: r) (auto simp: Let_def split: prod.splits)

lemma sends_refl: "ready s \<Longrightarrow> sends_tags [] s s"
  by (auto simp: sends_tags_def ready_def intro!: exI [of _ "rs_rtmp s"] exI [of _ "rs_total_bytes_sent s"])

lemma sends_tags_trans: "sends_tags ts s s1 \<Longrightarrow> sends_tags us s1 s2 \<Longrightarrow> sends_tags (ts @ us) s s2"
  by (auto simp: sends_tags_def write_tags_append)

lemma sends_keeps:
  assumes "sends_tags ts s s1"
  shows "ready s1" "rs_output s1 = rs_output s" "rs_video_codec s1 = rs_video_codec s" "rs_audio_codec s1 = rs_audio_codec s"
    "rs_start_dts_offset s1 = rs_start_dts_offset s" "rs_packets s1 = rs_packets s" "rs_dbr_enabled s1 = rs_dbr_enabled s"
    "rs_sent_headers s1 = rs_sent_headers s" "rs_stop_event s1 = rs_stop_event s" "rs_got_first_packet s1 = rs_got_first_packet s"
    "rs_min_priority s1 = rs_min_priority s" "rs_dropped_frames s1 = rs_dropped_frames s" "same_stream s s1"
  using assms by (auto simp: sends_tags_def ready_def same_stream_def)

lemma sends_count: "sends_tags ts s s1 \<Longrightarrow> sends_tags ts s (count_sent d s1)"
  by (auto simp: sends_tags_def count_sent_def)

lemma rtmp_write_sends:
  assumes "ready s" "media_tag t"
  shows "\<exists>s1. rtmp_write (tag_bytes t) s = Some (int (length (tag_bytes t)), s1) \<and> sends_tags [t] s s1"
proof -
  obtain r1 where r1: "RTMP_Write (tag_bytes t) (rs_rtmp s) = (Some (int (length (tag_bytes t))), r1)" "idle r1"
      "sb_in r1 = sb_in (rs_rtmp s)"
    using RTMP_Write_tag [OF _ assms(2), of "rs_rtmp s"] assms(1) by (auto simp: ready_def)
  have "sends_tags [t] s (s\<lparr>rs_rtmp := r1\<rparr>)"
    using assms r1 by (auto simp: sends_tags_def ready_def Let_def intro!: exI [of _ r1] exI [of _ "rs_total_bytes_sent s"])
  then show ?thesis using r1(1) by (auto simp: rtmp_write_def)
qed

lemma handle_socket_read_ready: "ready s \<Longrightarrow> handle_socket_read s = Some (True, s)"
  by (simp add: handle_socket_read_def ready_def)

section \<open>Packets\<close>

lemma media_mux: "length (p_data p) < MAX_TAG_DATA \<Longrightarrow> media_tag (mux_tag p off hdr)"
  by (auto simp: media_tag_def tag_ok_mux) (auto simp: mux_tag_def split: if_splits)

lemma media_video_ex: "length (p_data p) < MAX_TAG_DATA \<Longrightarrow> media_tag (video_ex_tag p c off type idx)"
  by (auto simp: media_tag_def tag_ok_video_ex) (simp add: video_ex_tag_def)

lemma media_audio_ex: "length (p_data p) < MAX_TAG_DATA \<Longrightarrow> media_tag (audio_ex_tag p c off type idx)"
  by (auto simp: media_tag_def tag_ok_audio_ex) (simp add: audio_ex_tag_def)

lemma send_packet_sends:
  assumes "ready s" "fits (p_data p)"
  shows "\<exists>ret s1. send_packet p hdr s = Some (ret, s1) \<and> 0 \<le> ret \<and>
    sends_tags [mux_tag p (if hdr then 0 else rs_start_dts_offset s) hdr] s s1"
proof -
  have d: "p_data p \<noteq> []" "length (p_data p) < MAX_TAG_DATA" using assms(2) by (auto simp: fits_def)
  note w = rtmp_write_sends [OF assms(1) media_mux [OF d(2)], of "if hdr then 0 else rs_start_dts_offset s" hdr]
  show ?thesis
    using w sends_count by (fastforce simp: send_packet_def handle_socket_read_ready [OF assms(1)] flv_packet_mux_tag [OF d(1)])
qed

definition ex_tag :: "encoder_packet \<Rightarrow> video_id_t \<Rightarrow> s32 \<Rightarrow> bool \<Rightarrow> bool \<Rightarrow> nat \<Rightarrow> flv_tag" where
  "ex_tag p c off is_header is_footer idx =
    (if is_header then video_ex_tag p c 0 PACKETTYPE_SEQ_START idx
     else if is_footer then video_ex_tag p c 0 PACKETTYPE_SEQ_END idx
     else video_ex_tag p c off (frames_type c p) idx)"

lemma send_packet_ex_sends:
  assumes "ready s" "length (p_data p) < MAX_TAG_DATA" "rs_video_codec s idx = c" "c \<noteq> CODEC_NONE"
  shows "\<exists>ret s1. send_packet_ex p (length (p_data p)) is_header is_footer idx s = Some (ret, s1) \<and> 0 \<le> ret \<and>
    sends_tags [ex_tag p c (rs_start_dts_offset s) is_header is_footer idx] s s1"
proof -
  have "media_tag (ex_tag p c (rs_start_dts_offset s) is_header is_footer idx)"
    using assms(2) by (simp add: ex_tag_def media_video_ex)
  note w = rtmp_write_sends [OF assms(1) this]
  have "(if is_header then flv_packet_start p (length (p_data p)) c idx
      else if is_footer then flv_packet_end p c idx
      else flv_packet_frames p c (rs_start_dts_offset s) idx) = tag_bytes (ex_tag p c (rs_start_dts_offset s) is_header is_footer idx)"
    by (simp add: ex_tag_def flv_packet_start_def flv_packet_end_def flv_packet_frames_def frames_type_def Let_def
        flv_packet_ex_tag [OF assms(4)])
  then show ?thesis
    using w sends_count by (fastforce simp: send_packet_ex_def handle_socket_read_ready [OF assms(1)] assms(3))
qed

lemma send_audio_packet_ex_sends:
  assumes "ready s" "fits (p_data p)" "rs_audio_codec s idx = c" "c \<noteq> AUDIO_CODEC_NONE"
  shows "\<exists>ret s1. send_audio_packet_ex p hdr idx s = Some (ret, s1) \<and> 0 \<le> ret \<and>
    sends_tags [audio_ex_tag p c (if hdr then 0 else rs_start_dts_offset s)
      (if hdr then AUDIO_PACKETTYPE_SEQ_START else AUDIO_PACKETTYPE_FRAMES) idx] s s1"
proof -
  have d: "p_data p \<noteq> []" "length (p_data p) < MAX_TAG_DATA" using assms(2) by (auto simp: fits_def)
  note w = rtmp_write_sends [OF assms(1) media_audio_ex [OF d(2)]]
  show ?thesis
    using w by (cases hdr) (fastforce simp: send_audio_packet_ex_def handle_socket_read_ready [OF assms(1)] assms(3)
        flv_packet_audio_start_def flv_packet_audio_frames_def flv_packet_audio_ex_tag [OF assms(4) d(1)])+
qed

section \<open>Headers\<close>

text \<open>Every encoder of the output has a codec of the format and knows its header.\<close>

definition stream_tracks_ok :: "stream_env \<Rightarrow> flv_context \<Rightarrow> bool" where
  "stream_tracks_ok env cx \<longleftrightarrow>
    (\<forall>i e. obs_output_get_video_encoder2 cx i = Some e \<longrightarrow> video_track_ok (se_flv env) e) \<and>
    (\<forall>i e. obs_output_get_audio_encoder cx i = Some e \<longrightarrow> audio_track_ok e \<and> e_extra_data e \<noteq> None)"

definition stream_codecs :: "flv_context \<Rightarrow> rtmp_stream \<Rightarrow> bool" where
  "stream_codecs cx s \<longleftrightarrow>
    (\<forall>i e. obs_output_get_video_encoder2 cx i = Some e \<longrightarrow> rs_video_codec s i = to_video_type (e_codec e)) \<and>
    (\<forall>i e. obs_output_get_audio_encoder cx i = Some e \<longrightarrow> rs_audio_codec s i = to_audio_type (e_codec e))"

definition stream_audio_tags :: "flv_context \<Rightarrow> nat \<Rightarrow> flv_tag list" where
  "stream_audio_tags cx i = (if obs_output_get_audio_encoder cx i = None then [] else audio_header_tags cx i)"

text \<open>The colours of high dynamic range tracks are those of the main video.\<close>

definition stream_color_tags :: "stream_env \<Rightarrow> flv_context \<Rightarrow> nat \<Rightarrow> flv_tag list" where
  "stream_color_tags env cx i =
    (let e = track_video cx i; c = to_video_type (e_codec e); main = se_video env;
         (pri, trc, spc) = color_codes (vo_colorspace main)
     in if vo_colorspace (the (obs_encoder_video (Some e))) \<notin> {VIDEO_CS_2100_PQ, VIDEO_CS_2100_HLG} \<or> c = CODEC_H264 then []
        else [color_tag c (color_bytes (bits_per_raw_sample (vo_format main)) pri trc spc 0
          (if trc = 18 then 1000 else if trc = 16 then fe_hdr_peak (se_flv env) else 0)) i])"

definition stream_video_tags :: "stream_env \<Rightarrow> flv_context \<Rightarrow> nat \<Rightarrow> flv_tag list" where
  "stream_video_tags env cx i =
    (if obs_output_get_video_encoder2 cx i = None then []
     else stream_color_tags env cx i @ [video_header_tag (se_flv env) cx i])"

definition stream_header_tags :: "stream_env \<Rightarrow> flv_context \<Rightarrow> flv_tag list" where
  "stream_header_tags env cx =
    concat (map (stream_audio_tags cx) [0..<MAX_OUTPUT_AUDIO_ENCODERS]) @
    concat (map (stream_video_tags env cx) [0..<MAX_OUTPUT_VIDEO_ENCODERS])"

text \<open>A stream that can send, with the encoders and codecs of \<open>cx\<close>.\<close>

definition streaming :: "flv_context \<Rightarrow> rtmp_stream \<Rightarrow> bool" where
  "streaming cx s \<longleftrightarrow> ready s \<and> rs_output s = cx \<and> stream_codecs cx s"

lemma streaming_sends: "sends_tags ts s s1 \<Longrightarrow> streaming cx s \<Longrightarrow> streaming cx s1"
  using sends_keeps [of ts s s1] by (simp add: streaming_def stream_codecs_def)

lemma send_each_sends:
  assumes "\<And>i s. i \<in> set is \<Longrightarrow> streaming cx s \<Longrightarrow> \<exists>s1. f i s = Some (True, s1) \<and> sends_tags (tags i) s s1"
  shows "streaming cx s \<Longrightarrow> \<exists>s1. send_each f is s = Some (True, s1) \<and> sends_tags (concat (map tags is)) s s1"
  using assms
proof (induction "is" arbitrary: s)
  case Nil
  then show ?case using sends_refl by (simp add: streaming_def)
next
  case (Cons i "is")
  obtain s1 where s1: "f i s = Some (True, s1)" "sends_tags (tags i) s s1" using Cons.prems by auto
  obtain s2 where s2: "send_each f is s1 = Some (True, s2)" "sends_tags (concat (map tags is)) s1 s2"
    using Cons.IH [OF streaming_sends [OF s1(2) Cons.prems(1)]] Cons.prems(2) by auto
  then show ?case using s1(1) sends_tags_trans [OF s1(2) s2(2)] by auto
qed

lemma accepted_sends: "x = Some (ret, s1) \<Longrightarrow> 0 \<le> ret \<Longrightarrow> accepted x = Some (True, s1)"
  by (simp add: accepted_def)

lemma send_audio_track_sends:
  assumes "streaming cx s" "stream_tracks_ok env cx"
  shows "\<exists>s1. send_audio_track i s = Some (True, s1) \<and> sends_tags (stream_audio_tags cx i) s s1"
proof (cases "obs_output_get_audio_encoder cx i")
  case None
  then show ?thesis using assms(1) sends_refl [of s] by (auto simp: send_audio_track_def stream_audio_tags_def streaming_def)
next
  case (Some e)
  then have e: "e_codec e = ''aac''" and out: "rs_output s = cx" and r: "ready s"
    using assms by (auto simp: stream_tracks_ok_def audio_track_ok_def streaming_def)
  obtain d where d: "e_extra_data e = Some d" "fits d" using assms(2) Some by (fastforce simp: stream_tracks_ok_def audio_track_ok_def)
  have te: "track_audio cx i = e" using Some by (auto simp: track_audio_def obs_output_get_audio_encoder_def split: if_splits)
  have c: "rs_audio_codec s i = AUDIO_CODEC_AAC" using assms(1) Some e by (auto simp: streaming_def stream_codecs_def to_audio_type_def)
  have f: "fits (p_data (header_packet OBS_ENCODER_AUDIO False d))" using d(2) by (simp add: header_packet_def)
  have tags: "stream_audio_tags cx i = [if i = 0 then mux_tag (header_packet OBS_ENCODER_AUDIO False d) 0 True
      else audio_ex_tag (header_packet OBS_ENCODER_AUDIO False d) AUDIO_CODEC_AAC 0 AUDIO_PACKETTYPE_SEQ_START i]"
    using Some d te by (simp add: stream_audio_tags_def audio_header_tags_def)
  have track: "send_audio_track i s = (if i = 0 then accepted (send_packet (header_packet OBS_ENCODER_AUDIO False d) True s)
      else accepted (send_audio_packet_ex (header_packet OBS_ENCODER_AUDIO False d) True i s))"
    using Some d out by (simp add: send_audio_track_def send_audio_header_def obs_encoder_get_extra_data_def Let_def)
  show ?thesis
    using send_packet_sends [OF r f, of True] send_audio_packet_ex_sends [OF r f c, of True]
    unfolding track tags by (cases "i = 0") (auto dest!: accepted_sends)
qed

lemma stream_video_track:
  assumes "streaming cx s" "stream_tracks_ok env cx" "obs_output_get_video_encoder2 cx i = Some e"
  obtains d info where "video_config (se_flv env) e = Some d" "fits d" "obs_encoder_video (Some e) = Some info"
    "track_video cx i = e" "rs_video_codec s i = to_video_type (e_codec e)" "to_video_type (e_codec e) \<noteq> CODEC_NONE"
    "ready s" "rs_output s = cx"
proof -
  have "video_track_ok (se_flv env) e" using assms(2,3) by (auto simp: stream_tracks_ok_def)
  then obtain d info where "video_config (se_flv env) e = Some d" "fits d" "obs_encoder_video (Some e) = Some info"
    by (auto simp: video_track_ok_def split: option.splits)
  moreover have "track_video cx i = e" using assms(3) by (auto simp: track_video_def obs_output_get_video_encoder2_def split: if_splits)
  moreover have "to_video_type (e_codec e) \<noteq> CODEC_NONE" using calculation(1) by (auto simp: video_config_def split: option.splits)
  ultimately show thesis using that assms(1,3) by (auto simp: streaming_def stream_codecs_def)
qed

lemma send_video_header_sends:
  assumes "streaming cx s" "stream_tracks_ok env cx" "obs_output_get_video_encoder2 cx i = Some e"
  shows "\<exists>s1. send_video_header env i s = Some (True, s1) \<and> sends_tags [video_header_tag (se_flv env) cx i] s s1"
proof -
  obtain d info where e: "video_config (se_flv env) e = Some d" "fits d" "obs_encoder_video (Some e) = Some info"
      "track_video cx i = e" "rs_video_codec s i = to_video_type (e_codec e)" "to_video_type (e_codec e) \<noteq> CODEC_NONE"
      "ready s" "rs_output s = cx"
    by (rule stream_video_track [OF assms])
  let ?p = "header_packet OBS_ENCODER_VIDEO True d" and ?c = "to_video_type (e_codec e)"
  have f: "fits (p_data ?p)" "length (p_data ?p) < MAX_TAG_DATA" "p_data ?p = d" using e(2) by (simp_all add: header_packet_def fits_def)
  have hdr: "send_video_header env i s = (if ?c = CODEC_H264 \<and> i = 0 then accepted (send_packet ?p True s)
      else accepted (send_packet_ex ?p (length (p_data ?p)) True False i s))"
    using e(1,5,6,8) assms(3)
    by (cases ?c) (auto simp: send_video_header_def video_config_def obs_encoder_get_extra_data_def Let_def header_packet_def
        split: option.splits if_splits)
  show ?thesis
    using send_packet_sends [OF e(7) f(1), of True] send_packet_ex_sends [OF e(7) f(2) e(5,6), of True False]
    unfolding hdr video_header_tag_def e(1,4) Let_def option.sel
    by (cases "?c = CODEC_H264 \<and> i = 0") (auto simp: ex_tag_def dest!: accepted_sends)
qed

lemma media_color: "media_tag (color_tag c (color_bytes bits pri trc spc lo hi) idx)"
  using length_color_bytes [of bits pri trc spc lo hi] length_fourcc_le(1) [of c]
  by (auto simp: media_tag_def tag_ok_def color_tag_def)

lemma send_video_metadata_sends:
  assumes "streaming cx s" "stream_tracks_ok env cx" "obs_output_get_video_encoder2 cx i = Some e"
  shows "\<exists>s1. send_video_metadata env i s = Some (True, s1) \<and> sends_tags (stream_color_tags env cx i) s s1"
proof -
  obtain d info where e: "video_config (se_flv env) e = Some d" "fits d" "obs_encoder_video (Some e) = Some info"
      "track_video cx i = e" "rs_video_codec s i = to_video_type (e_codec e)" "to_video_type (e_codec e) \<noteq> CODEC_NONE"
      "ready s" "rs_output s = cx"
    by (rule stream_video_track [OF assms])
  let ?c = "to_video_type (e_codec e)" and ?main = "se_video env"
  obtain pri trc spc where codes: "color_codes (vo_colorspace ?main) = (pri, trc, spc)" by (cases "color_codes (vo_colorspace ?main)") auto
  define hi where "hi = (if trc = 18 then 1000 else if trc = 16 then fe_hdr_peak (se_flv env) else 0)"
  define t where "t = color_tag ?c (color_bytes (bits_per_raw_sample (vo_format ?main)) pri trc spc 0 hi) i"
  have meta: "flv_packet_metadata ?c (bits_per_raw_sample (vo_format ?main)) pri trc spc 0 hi i = tag_bytes t"
    by (simp add: flv_packet_metadata_tag [OF e(6)] t_def)
  show ?thesis
  proof (cases "vo_colorspace info \<notin> {VIDEO_CS_2100_PQ, VIDEO_CS_2100_HLG} \<or> ?c = CODEC_H264")
    case True
    then show ?thesis
      using sends_refl [OF e(7)] e(3,4,5,8) assms(3)
      by (auto simp: send_video_metadata_def stream_color_tags_def codes handle_socket_read_ready [OF e(7)])
  next
    case False
    have "media_tag t" by (simp add: t_def media_color)
    then obtain s1 where s1: "rtmp_write (tag_bytes t) s = Some (int (length (tag_bytes t)), s1)" "sends_tags [t] s s1"
      using rtmp_write_sends [OF e(7)] by blast
    have "send_video_metadata env i s = Some (True, count_sent (tag_bytes t) s1)"
      using False e(3,5,8) assms(3) s1(1) meta
      by (auto simp: send_video_metadata_def codes handle_socket_read_ready [OF e(7)] hi_def Let_def accepted_def)
    moreover have "stream_color_tags env cx i = [t]"
      using False e(3,4) by (simp add: stream_color_tags_def codes t_def hi_def)
    ultimately show ?thesis using sends_count [OF s1(2)] by auto
  qed
qed

lemma send_video_track_sends:
  assumes "streaming cx s" "stream_tracks_ok env cx"
  shows "\<exists>s1. send_video_track env i s = Some (True, s1) \<and> sends_tags (stream_video_tags env cx i) s s1"
proof (cases "obs_output_get_video_encoder2 cx i")
  case None
  then show ?thesis using assms(1) sends_refl [of s] by (auto simp: send_video_track_def stream_video_tags_def streaming_def)
next
  case (Some e)
  obtain s1 where s1: "send_video_metadata env i s = Some (True, s1)" "sends_tags (stream_color_tags env cx i) s s1"
    using send_video_metadata_sends [OF assms Some] by blast
  obtain s2 where s2: "send_video_header env i s1 = Some (True, s2)" "sends_tags [video_header_tag (se_flv env) cx i] s1 s2"
    using send_video_header_sends [OF streaming_sends [OF s1(2) assms(1)] assms(2) Some] by blast
  show ?thesis
    using s1(1) s2(1) sends_tags_trans [OF s1(2) s2(2)] Some assms(1)
    by (auto simp: send_video_track_def stream_video_tags_def streaming_def)
qed

lemma send_headers_sends:
  assumes "streaming cx s" "stream_tracks_ok env cx"
  shows "\<exists>s1. send_headers env s = Some (True, s1) \<and> sends_tags (stream_header_tags env cx) (s\<lparr>rs_sent_headers := True\<rparr>) s1"
proof -
  define s0 where "s0 = s\<lparr>rs_sent_headers := True\<rparr>"
  have s0: "streaming cx s0" using assms(1) by (simp add: s0_def streaming_def ready_def stream_codecs_def)
  obtain s1 where s1: "send_each send_audio_track [0..<MAX_OUTPUT_AUDIO_ENCODERS] s0 = Some (True, s1)"
      "sends_tags (concat (map (stream_audio_tags cx) [0..<MAX_OUTPUT_AUDIO_ENCODERS])) s0 s1"
    using send_each_sends [of "[0..<MAX_OUTPUT_AUDIO_ENCODERS]" cx send_audio_track "stream_audio_tags cx" s0]
      send_audio_track_sends [OF _ assms(2)] s0 by blast
  obtain s2 where s2: "send_each (send_video_track env) [0..<MAX_OUTPUT_VIDEO_ENCODERS] s1 = Some (True, s2)"
      "sends_tags (concat (map (stream_video_tags env cx) [0..<MAX_OUTPUT_VIDEO_ENCODERS])) s1 s2"
    using send_each_sends [of "[0..<MAX_OUTPUT_VIDEO_ENCODERS]" cx "send_video_track env" "stream_video_tags env cx" s1]
      send_video_track_sends [OF _ assms(2)] streaming_sends [OF s1(2) s0] by blast
  show ?thesis
    using s1(1) s2(1) sends_tags_trans [OF s1(2) s2(2)] by (auto simp: send_headers_def stream_header_tags_def s0_def)
qed

section \<open>Rounds\<close>

text \<open>The tag of a packet in the queue, and the packets that the tracks can send.\<close>

definition stream_tag :: "flv_context \<Rightarrow> s32 \<Rightarrow> encoder_packet \<Rightarrow> flv_tag" where
  "stream_tag cx off q = packet_tag (video_codec_of cx (p_track_idx q)) (audio_codec_of cx (p_track_idx q)) off q q"

definition queued_ok :: "flv_context \<Rightarrow> encoder_packet \<Rightarrow> bool" where
  "queued_ok cx q \<longleftrightarrow> fits (p_data q) \<and>
    (if p_type q = OBS_ENCODER_VIDEO then obs_output_get_video_encoder2 cx (p_track_idx q) \<noteq> None
     else obs_output_get_audio_encoder cx (p_track_idx q) \<noteq> None)"

lemma send_any_sends:
  assumes "streaming cx s" "stream_tracks_ok env cx" "queued_ok cx q"
  shows "\<exists>ret s1. send_any q s = Some (ret, s1) \<and> 0 \<le> ret \<and> sends_tags [stream_tag cx (rs_start_dts_offset s) q] s s1"
proof -
  let ?i = "p_track_idx q" and ?off = "rs_start_dts_offset s"
  have f: "fits (p_data q)" "length (p_data q) < MAX_TAG_DATA" using assms(3) by (auto simp: queued_ok_def fits_def)
  have r: "ready s" using assms(1) by (simp add: streaming_def)
  note mux = send_packet_sends [OF r f(1), of False]
  show ?thesis
  proof (cases "p_type q = OBS_ENCODER_VIDEO")
    case True
    then obtain e where e: "obs_output_get_video_encoder2 cx ?i = Some e" using assms(3) by (auto simp: queued_ok_def)
    have c: "rs_video_codec s ?i = video_codec_of cx ?i" "video_codec_of cx ?i \<noteq> CODEC_NONE"
      by (rule stream_video_track [OF assms(1,2) e], simp add: video_codec_of_def)+
    show ?thesis
      using mux send_packet_ex_sends [OF r f(2) c, of False False] True c(1)
      by (auto simp: send_any_def stream_tag_def packet_tag_def ex_tag_def Let_def)
  next
    case False
    then obtain e where e: "obs_output_get_audio_encoder cx ?i = Some e" and a: "p_type q = OBS_ENCODER_AUDIO"
      using assms(3) by (auto simp: queued_ok_def intro: obs_encoder_type.exhaust)
    have "track_audio cx ?i = e" using e by (auto simp: track_audio_def obs_output_get_audio_encoder_def split: if_splits)
    moreover have "e_codec e = ''aac''" using e assms(2) by (auto simp: stream_tracks_ok_def audio_track_ok_def)
    ultimately have c: "rs_audio_codec s ?i = audio_codec_of cx ?i" "audio_codec_of cx ?i \<noteq> AUDIO_CODEC_NONE"
      using assms(1) e by (auto simp: streaming_def stream_codecs_def audio_codec_of_def to_audio_type_def)
    show ?thesis
      using mux send_audio_packet_ex_sends [OF r f(1) c, of False] False a
      by (auto simp: send_any_def stream_tag_def packet_tag_def Let_def)
  qed
qed

lemma get_next_packet_frame: "get_next_packet s = (out, s1) \<Longrightarrow> \<exists>q. s1 = s\<lparr>rs_packets := q\<rparr>"
  by (auto simp: get_next_packet_def split: if_splits prod.splits intro: exI [of _ "rs_packets s"])

lemma send_round_sends:
  assumes "streaming cx s" "stream_tracks_ok env cx" "\<not> rs_stop_event s" "\<not> rs_dbr_enabled s"
    and "get_next_packet (s\<lparr>rs_send_sem := rs_send_sem s - 1\<rparr>) = (Some q, s1)" "queued_ok cx q"
  shows "\<exists>s2. send_round env now t_beg t_end s = Some (True, s2) \<and>
    sends_tags ((if rs_sent_headers s then [] else stream_header_tags env cx) @ [stream_tag cx (rs_start_dts_offset s) q])
      (s1\<lparr>rs_sent_headers := True\<rparr>) s2"
proof -
  obtain q' where s1: "s1 = s\<lparr>rs_send_sem := rs_send_sem s - 1, rs_packets := q'\<rparr>" using get_next_packet_frame [OF assms(5)] by auto
  define u where "u = s1\<lparr>rs_sent_headers := True\<rparr>"
  have st: "streaming cx s1" "streaming cx u" using assms(1) by (simp_all add: u_def s1 streaming_def ready_def stream_codecs_def)
  have "\<exists>s2. (if rs_sent_headers s1 then Some (True, s1) else send_headers env s1) = Some (True, s2) \<and>
      sends_tags (if rs_sent_headers s then [] else stream_header_tags env cx) u s2"
  proof (cases "rs_sent_headers s")
    case True
    then have "u = s1" by (simp add: u_def s1)
    then show ?thesis using True sends_refl [of s1] st(1) by (auto simp: s1 streaming_def)
  next
    case False
    then show ?thesis using send_headers_sends [OF st(1) assms(2)] by (auto simp: s1 u_def)
  qed
  then obtain s2 where s2: "(if rs_sent_headers s1 then Some (True, s1) else send_headers env s1) = Some (True, s2)"
      "sends_tags (if rs_sent_headers s then [] else stream_header_tags env cx) u s2" by blast
  have off: "rs_start_dts_offset s2 = rs_start_dts_offset s" using sends_keeps(5) [OF s2(2)] by (simp add: u_def s1)
  obtain ret s3 where s3: "send_any q s2 = Some (ret, s3)" "0 \<le> ret" "sends_tags [stream_tag cx (rs_start_dts_offset s) q] s2 s3"
    using send_any_sends [OF streaming_sends [OF s2(2) st(2)] assms(2,6)] off by auto
  note all = sends_tags_trans [OF s2(2) s3(3)]
  have "\<not> rs_dbr_enabled s3" using sends_keeps(7) [OF all] assms(4) by (simp add: u_def s1)
  then have "send_round env now t_beg t_end s = Some (True, s3)"
    unfolding send_round_def Let_def assms(5) prod.case option.case s2(1)
    using assms(3) s3(1,2) by (simp add: s1)
  then show ?thesis using all by (auto simp: u_def)
qed

section \<open>Deliveries\<close>

text \<open>Without dynamic bitrate a delivery leaves the connection and the settings alone.\<close>

definition same_link :: "rtmp_stream \<Rightarrow> rtmp_stream \<Rightarrow> bool" where
  "same_link s s1 \<longleftrightarrow> rs_rtmp s1 = rs_rtmp s \<and> rs_output s1 = rs_output s \<and> rs_video_codec s1 = rs_video_codec s \<and>
    rs_audio_codec s1 = rs_audio_codec s \<and> rs_sent_headers s1 = rs_sent_headers s \<and> rs_stop_event s1 = rs_stop_event s \<and>
    rs_dbr_enabled s1 = rs_dbr_enabled s"

definition same_start :: "rtmp_stream \<Rightarrow> rtmp_stream \<Rightarrow> bool" where
  "same_start s s1 \<longleftrightarrow> same_link s s1 \<and> rs_got_first_packet s1 = rs_got_first_packet s \<and>
    rs_start_dts_offset s1 = rs_start_dts_offset s"

lemma same_start_trans: "same_start s s1 \<Longrightarrow> same_start s1 s2 \<Longrightarrow> same_start s s2"
  by (simp add: same_start_def same_link_def)

lemma check_to_drop_frames_link: "\<not> rs_dbr_enabled s \<Longrightarrow> same_start s (check_to_drop_frames now pframes s)"
  by (auto simp: check_to_drop_frames_def drop_frames_def same_start_def same_link_def Let_def split: option.splits prod.splits)

lemma add_video_packet_link:
  assumes "\<not> rs_dbr_enabled s" "add_video_packet now q s = (b, s1)"
  shows "same_start s s1"
proof -
  define t where "t = check_to_drop_frames now True (check_to_drop_frames now False s)"
  have 1: "same_start s (check_to_drop_frames now False s)" using check_to_drop_frames_link [OF assms(1)] .
  then have "\<not> rs_dbr_enabled (check_to_drop_frames now False s)" using assms(1) by (simp add: same_start_def same_link_def)
  then have "same_start s t" unfolding t_def by (rule same_start_trans [OF 1 check_to_drop_frames_link])
  then show ?thesis
    using assms(2) unfolding add_video_packet_def t_def [symmetric] Let_def
    by (auto simp: same_start_def same_link_def add_packet_def split: if_splits)
qed

lemma rtmp_stream_data_link:
  assumes "\<not> rs_dbr_enabled s" "rs_active s" "\<not> rs_disconnected s" "rtmp_stream_data env now (Some p) s = Some s1"
  shows "same_link s s1" "rs_got_first_packet s1"
    "rs_start_dts_offset s1 = (if rs_got_first_packet s then rs_start_dts_offset s else get_ms_time p (p_dts p))"
proof -
  define s0 where "s0 = (if \<not> rs_got_first_packet s
    then s\<lparr>rs_start_dts_offset := get_ms_time p (p_dts p), rs_got_first_packet := True\<rparr> else s)"
  have s0: "same_link s s0" "rs_got_first_packet s0" "\<not> rs_dbr_enabled s0"
      "rs_start_dts_offset s0 = (if rs_got_first_packet s then rs_start_dts_offset s else get_ms_time p (p_dts p))"
    using assms(1) by (simp_all add: s0_def same_link_def)
  have post: "same_start t (t\<lparr>rs_send_sem := n\<rparr>)" for t n by (simp add: same_start_def same_link_def)
  have aud: "same_start s0 t" if "add_packet q s0 = (b, t)" for q b t
    using that by (auto simp: add_packet_def same_start_def same_link_def)
  have "same_start s0 s1"
    using assms(2-4) unfolding rtmp_stream_data_def Let_def option.case s0_def [symmetric]
    by (auto simp: same_start_def same_link_def split: if_splits option.splits prod.splits
        dest!: add_video_packet_link [OF s0(3)] aud)
  then show "same_link s s1" "rs_got_first_packet s1"
    "rs_start_dts_offset s1 = (if rs_got_first_packet s then rs_start_dts_offset s else get_ms_time p (p_dts p))"
    using s0 by (simp_all add: same_start_def same_link_def)
qed

section \<open>Runs\<close>

datatype session_event = Data u64 encoder_packet | Round u64 u64 u64

text \<open>
  Deliveries of the encoders and rounds of the thread, with the packets that it takes; while the
  semaphore is 0 the thread waits.  \<open>None\<close>: the session ends.
\<close>

fun session_run :: "stream_env \<Rightarrow> session_event list \<Rightarrow> rtmp_stream \<Rightarrow> (encoder_packet list \<times> rtmp_stream) option" where
  "session_run env [] s = Some ([], s)"
| "session_run env (Data now p # es) s =
    (case rtmp_stream_data env now (Some p) s of None \<Rightarrow> None | Some s1 \<Rightarrow> session_run env es s1)"
| "session_run env (Round now t_beg t_end # es) s =
    (if rs_send_sem s = 0 then session_run env es s
     else case send_round env now t_beg t_end s of
       Some (True, s1) \<Rightarrow>
         map_option (\<lambda>(ps, s2). ((case fst (get_next_packet s) of None \<Rightarrow> [] | Some p \<Rightarrow> [p]) @ ps, s2)) (session_run env es s1)
     | _ \<Rightarrow> None)"

fun encoded :: "session_event list \<Rightarrow> encoder_packet list" where
  "encoded [] = []"
| "encoded (Data now p # es) = p # encoded es"
| "encoded (Round now t_beg t_end # es) = encoded es"

definition session_log :: "stream_env \<Rightarrow> flv_context \<Rightarrow> s32 \<Rightarrow> encoder_packet list \<Rightarrow> flv_tag list" where
  "session_log env cx off taken =
    meta_tag cx 0 0 # (if taken = [] then [] else stream_header_tags env cx) @ map (stream_tag cx off) taken"

text \<open>The invariant: what is logged has been written to the connection \<open>r0\<close> of the start.\<close>

definition session_at :: "stream_env \<Rightarrow> flv_context \<Rightarrow> RTMP \<Rightarrow> s32 \<Rightarrow> encoder_packet list \<Rightarrow> fates \<Rightarrow> fates \<Rightarrow> rtmp_stream \<Rightarrow> bool" where
  "session_at env cx r0 off taken past fs s \<longleftrightarrow>
    queue_inv taken past fs s \<and> rs_active s \<and> \<not> rs_disconnected s \<and> \<not> rs_stop_event s \<and> \<not> rs_dbr_enabled s \<and>
    streaming cx s \<and> (rs_got_first_packet s \<longrightarrow> rs_start_dts_offset s = off) \<and> (past @ fs \<noteq> [] \<longrightarrow> rs_got_first_packet s) \<and>
    list_all (queued_ok cx) (map fst (past @ fs)) \<and> rs_sent_headers s = (taken \<noteq> []) \<and>
    list_all media_tag (session_log env cx off taken) \<and>
    write_tags (session_log env cx off taken) r0 =
      (map (\<lambda>t. Some (int (length (tag_bytes t)))) (session_log env cx off taken), rs_rtmp s)"

lemma session_at_data:
  assumes "session_at env cx r0 off taken past fs s" "stream_packet env s p = Some q" "queued_ok cx q"
    and "rs_got_first_packet s \<or> get_ms_time p (p_dts p) = off"
  shows "\<exists>s1 fs1 k. rtmp_stream_data env now (Some p) s = Some s1 \<and> session_at env cx r0 off taken past (fs1 @ [(q, k)]) s1 \<and>
    map fst fs1 = map fst fs \<and> same_stream s s1 \<and> rs_got_first_packet s1"
proof -
  have inv: "queue_inv taken past fs s" "rs_active s" "\<not> rs_disconnected s" "\<not> rs_dbr_enabled s"
    using assms(1) by (simp_all add: session_at_def)
  obtain s1 fs1 k where 1: "rtmp_stream_data env now (Some p) s = Some s1" "queue_inv taken past (fs1 @ [(q, k)]) s1"
      "map fst fs1 = map fst fs" "same_stream s s1"
    using rtmp_stream_data_inv [OF inv(1-3) assms(2)] by blast
  note link = rtmp_stream_data_link [OF inv(4,2,3) 1(1)]
  have "list_all (queued_ok cx) (map fst fs1)" using assms(1) 1(3) by (simp add: session_at_def)
  then have "session_at env cx r0 off taken past (fs1 @ [(q, k)]) s1"
    using assms 1(2,4) link
    by (auto simp: session_at_def same_link_def same_stream_def streaming_def ready_def stream_codecs_def)
  then show ?thesis using 1 link(2) by blast
qed

lemma session_at_round:
  assumes "session_at env cx r0 off taken past fs s" "stream_tracks_ok env cx" "rs_send_sem s \<noteq> 0"
  shows "\<exists>s1 past1 fs1. send_round env now t_beg t_end s = Some (True, s1) \<and> past1 @ fs1 = past @ fs \<and> same_stream s s1 \<and>
    rs_got_first_packet s1 = rs_got_first_packet s \<and>
    session_at env cx r0 off (taken @ (case fst (get_next_packet s) of None \<Rightarrow> [] | Some p \<Rightarrow> [p])) past1 fs1 s1"
proof -
  define s0 where "s0 = s\<lparr>rs_send_sem := rs_send_sem s - 1\<rparr>"
  have at: "queue_inv taken past fs s" "\<not> rs_stop_event s" "\<not> rs_dbr_enabled s" "streaming cx s"
    using assms(1) by (simp_all add: session_at_def)
  have inv: "queue_inv taken past fs s0" using at(1) by (simp add: s0_def queue_inv_def)
  obtain out s1 where nxt: "get_next_packet s0 = (out, s1)" by fastforce
  have out: "fst (get_next_packet s) = out" using nxt by (auto simp: s0_def get_next_packet_def split: prod.splits if_splits)
  obtain q' where s1: "s1 = s0\<lparr>rs_packets := q'\<rparr>" using get_next_packet_frame [OF nxt] by blast
  obtain past1 fs1 where 1: "queue_inv (taken @ (case out of None \<Rightarrow> [] | Some p \<Rightarrow> [p])) past1 fs1 s1" "past1 @ fs1 = past @ fs"
    using get_next_packet_inv [OF inv nxt] by blast
  show ?thesis
  proof (cases out)
    case None
    have "send_round env now t_beg t_end s = Some (True, s1)"
      using nxt at(2) None by (simp add: send_round_def s0_def)
    moreover have "session_at env cx r0 off taken past1 fs1 s1"
      using assms(1) 1 None by (auto simp: session_at_def s1 s0_def streaming_def ready_def stream_codecs_def)
    ultimately show ?thesis using None out 1(2) by (auto simp: s1 s0_def same_stream_def)
  next
    case (Some q)
    have "q \<in> set (kept past1)" using 1(1) Some by (auto simp: queue_inv_def)
    then have mem: "q \<in> set (map fst (past1 @ fs1))" by (auto simp: kept_def)
    then have q: "queued_ok cx q" using assms(1) 1(2) by (auto simp: session_at_def list_all_iff)
    have "past @ fs \<noteq> []" using mem 1(2) by auto
    then have off: "rs_start_dts_offset s = off" using assms(1) by (simp add: session_at_def)
    define ts where "ts = (if rs_sent_headers s then [] else stream_header_tags env cx) @ [stream_tag cx off q]"
    obtain s2 where s2: "send_round env now t_beg t_end s = Some (True, s2)" "sends_tags ts (s1\<lparr>rs_sent_headers := True\<rparr>) s2"
      using send_round_sends [OF at(4) assms(2) at(2,3) nxt [unfolded s0_def Some] q, of now t_beg t_end] off by (auto simp: ts_def)
    note keeps = sends_keeps [OF s2(2)]
    have log: "session_log env cx off (taken @ [q]) = session_log env cx off taken @ ts"
      using assms(1) by (simp add: session_log_def ts_def session_at_def)
    have rtmp: "rs_rtmp (s1\<lparr>rs_sent_headers := True\<rparr>) = rs_rtmp s" by (simp add: s1 s0_def)
    have media: "list_all media_tag (session_log env cx off (taken @ [q]))"
      using assms(1) s2(2) unfolding log by (simp add: session_at_def sends_tags_def)
    have wrote: "write_tags (session_log env cx off (taken @ [q])) r0 =
        (map (\<lambda>t. Some (int (length (tag_bytes t)))) (session_log env cx off (taken @ [q])), rs_rtmp s2)"
      using assms(1) s2(2) unfolding log write_tags_append by (auto simp: session_at_def sends_tags_def rtmp)
    have "streaming cx s2"
      using streaming_sends [OF s2(2)] at(4) by (simp add: s1 s0_def streaming_def ready_def stream_codecs_def)
    moreover have "queue_inv (taken @ [q]) past1 fs1 s2" using 1(1) Some keeps by (simp add: queue_inv_def)
    moreover have "same_stream s s2" using keeps(13) by (simp add: same_stream_def s1 s0_def)
    moreover have "rs_got_first_packet s2 = rs_got_first_packet s" "rs_start_dts_offset s2 = off" "rs_sent_headers s2"
        "\<not> rs_stop_event s2" "\<not> rs_dbr_enabled s2"
      using keeps(5,7-10) at(2,3) off by (simp_all add: s1 s0_def)
    ultimately have "session_at env cx r0 off (taken @ [q]) past1 fs1 s2"
      using assms(1) 1(2) media wrote by (auto simp: session_at_def same_stream_def)
    then show ?thesis using s2(1) Some out 1(2) \<open>same_stream s s2\<close> \<open>rs_got_first_packet s2 = rs_got_first_packet s\<close> by auto
  qed
qed

lemma session_run_at:
  assumes "session_at env cx r0 off taken past fs s" "stream_tracks_ok env cx"
    and "list_all (\<lambda>p. \<exists>q. stream_packet env s p = Some q \<and> queued_ok cx q) (encoded es)"
    and "rs_got_first_packet s \<or> encoded es = [] \<or> get_ms_time (hd (encoded es)) (p_dts (hd (encoded es))) = off"
  shows "\<exists>ps s1 past1 fs1. session_run env es s = Some (ps, s1) \<and> session_at env cx r0 off (taken @ ps) past1 fs1 s1 \<and>
    map fst (past1 @ fs1) = map fst (past @ fs) @ map (\<lambda>p. the (stream_packet env s p)) (encoded es)"
  using assms(1,3,4)
proof (induction es arbitrary: taken past fs s)
  case Nil
  then show ?case by auto
next
  case (Cons e es)
  show ?case
  proof (cases e)
    case (Data now p)
    then obtain q where q: "stream_packet env s p = Some q" "queued_ok cx q" using Cons.prems(2) by auto
    obtain s1 fs1 k where 1: "rtmp_stream_data env now (Some p) s = Some s1"
        "session_at env cx r0 off taken past (fs1 @ [(q, k)]) s1" "map fst fs1 = map fst fs" "same_stream s s1" "rs_got_first_packet s1"
      using session_at_data [OF Cons.prems(1) q, of now] Cons.prems(3) Data by auto
    note same = stream_packet_same [OF 1(4)]
    obtain ps s2 past2 fs2 where
      2: "session_run env es s1 = Some (ps, s2)" "session_at env cx r0 off (taken @ ps) past2 fs2 s2"
        "map fst (past2 @ fs2) = map fst (past @ fs1 @ [(q, k)]) @ map (\<lambda>p. the (stream_packet env s1 p)) (encoded es)"
      using Cons.IH [OF 1(2)] Cons.prems(2) 1(5) Data by (auto simp: same)
    then show ?thesis using Data 1(1,3) q by (auto simp: same)
  next
    case (Round now t_beg t_end)
    show ?thesis
    proof (cases "rs_send_sem s = 0")
      case True
      then show ?thesis using Cons.IH [OF Cons.prems(1)] Cons.prems(2,3) Round by simp
    next
      case False
      let ?o = "case fst (get_next_packet s) of None \<Rightarrow> [] | Some p \<Rightarrow> [p]"
      obtain s1 past1 fs1 where 1: "send_round env now t_beg t_end s = Some (True, s1)" "past1 @ fs1 = past @ fs" "same_stream s s1"
          "rs_got_first_packet s1 = rs_got_first_packet s" "session_at env cx r0 off (taken @ ?o) past1 fs1 s1"
        using session_at_round [OF Cons.prems(1) assms(2) False] by blast
      note same = stream_packet_same [OF 1(3)]
      obtain ps s2 past2 fs2 where
        2: "session_run env es s1 = Some (ps, s2)" "session_at env cx r0 off ((taken @ ?o) @ ps) past2 fs2 s2"
          "map fst (past2 @ fs2) = map fst (past1 @ fs1) @ map (\<lambda>p. the (stream_packet env s1 p)) (encoded es)"
        using Cons.IH [OF 1(5)] Cons.prems(2,3) 1(4) Round by (auto simp: same)
      have "session_run env (e # es) s = Some (?o @ ps, s2)" using Round False 1(1) 2(1) by simp
      moreover have "session_at env cx r0 off (taken @ ?o @ ps) past2 fs2 s2" using 2(2) by simp
      moreover have "map fst (past2 @ fs2) = map fst (past @ fs) @ map (\<lambda>p. the (stream_packet env s p)) (encoded (e # es))"
        using 2(3) unfolding 1(2) by (simp add: same Round)
      ultimately show ?thesis by blast
    qed
  qed
qed

section \<open>The start, and the times of the tags\<close>

lemma session_starts:
  assumes "ready s0" "context_ok cx" "rs_output s0 = cx" "stream_codecs cx s0" "\<not> rs_disconnected s0" "\<not> rs_stop_event s0"
    and "\<not> rs_dbr_enabled s0" "\<not> rs_got_first_packet s0" "\<not> rs_sent_headers s0"
    and "rs_packets s0 = deque_init" "rs_min_priority s0 = 0" "rs_dropped_frames s0 = 0"
  shows "\<exists>s. init_send s0 = Some (True, s) \<and> session_at env cx (rs_rtmp s0) off [] [] [] s \<and> same_stream (s0\<lparr>rs_active := True\<rparr>) s \<and>
    \<not> rs_got_first_packet s"
proof -
  define u where "u = s0\<lparr>rs_send_sem := 0, rs_active := True\<rparr>"
  have u: "ready u" using assms(1) by (simp add: u_def ready_def)
  have "media_tag (meta_tag cx 0 0)" using meta_tag_ok [OF assms(2)] by (simp add: media_tag_def) (simp add: meta_tag_def)
  then obtain s where s: "rtmp_write (tag_bytes (meta_tag cx 0 0)) u = Some (int (length (tag_bytes (meta_tag cx 0 0))), s)"
      "sends_tags [meta_tag cx 0 0] u s"
    using rtmp_write_sends [OF u] by blast
  note keeps = sends_keeps [OF s(2)]
  have "init_send s0 = Some (True, s)"
    using s(1) assms(2,3) flv_meta_data_tag [of cx False]
    by (simp add: init_send_def u_def [symmetric] send_meta_data_def accepted_def) (simp add: u_def)
  moreover have "deque_wf (deque_init :: encoder_packet deque)" "deque_elems (deque_init :: encoder_packet deque) = []"
    using deque_init_rep [where ?'a = encoder_packet] by (auto simp: deque_wf_rep deque_elems_rep)
  then have "queue_inv [] [] [] s"
    using assms(10-12) keeps by (simp add: queue_inv_def kept_def dropped_def OBS_NAL_PRIORITY_HIGHEST_def u_def)
  moreover have "streaming cx s" using assms(3,4) keeps(1-4) by (simp add: streaming_def stream_codecs_def u_def)
  ultimately show ?thesis
    using assms(5-9) keeps(7-10,13) s(2)
    by (auto simp: session_at_def session_log_def u_def same_stream_def sends_tags_def)
qed

lemma steady_sorted:
  "sorted (map tag_time ts) \<Longrightarrow> \<forall>t \<in> set ts. T \<le> tag_time t \<and> tag_time t < 0xFFFFFF \<Longrightarrow> steady (Some T) ts"
  by (induction ts arbitrary: T) auto

lemma steady_zero: "\<forall>t \<in> set hs. tag_time t = 0 \<Longrightarrow> steady (Some 0) ts \<Longrightarrow> steady (Some 0) (hs @ ts)"
  by (induction hs) (auto simp: complete_header_def)

lemma header_times:
  "tag_time (mux_tag (header_packet ty k d) 0 hdr) = 0" "tag_time (audio_ex_tag (header_packet ty k d) ac 0 type i) = 0"
  "tag_time (video_ex_tag (header_packet ty k d) vc 0 type i) = 0"
proof -
  have zero: "packet_time (header_packet ty k d) 0 = 0"
    by (simp add: packet_time_def header_packet_def get_ms_time_def s64_div_def trunc_div_def flv_time_def)
  show "tag_time (mux_tag (header_packet ty k d) 0 hdr) = 0" "tag_time (audio_ex_tag (header_packet ty k d) ac 0 type i) = 0"
    "tag_time (video_ex_tag (header_packet ty k d) vc 0 type i) = 0"
    by (simp_all add: mux_tag_def audio_ex_tag_def video_ex_tag_def zero)
qed

lemma stream_header_tags_zero: "\<forall>t \<in> set (stream_header_tags env cx). tag_time t = 0"
proof -
  have "\<forall>t \<in> set (stream_audio_tags cx i). tag_time t = 0" for i
    by (cases "e_extra_data (track_audio cx i)") (simp_all add: stream_audio_tags_def audio_header_tags_def Let_def header_times)
  moreover have "\<forall>t \<in> set (stream_color_tags env cx i). tag_time t = 0" for i
    by (cases "color_codes (vo_colorspace (se_video env))") (simp add: stream_color_tags_def Let_def color_tag_def)
  moreover have "tag_time (video_header_tag (se_flv env) cx i) = 0" for i
    by (simp add: video_header_tag_def Let_def header_times)
  ultimately show ?thesis by (simp add: stream_header_tags_def stream_video_tags_def ball_Un)
qed

lemma steady_session:
  assumes "queue_inv taken past fs s"
    and "sorted (map (\<lambda>q. tag_time (stream_tag cx off q)) (map fst (past @ fs)))"
    and "\<forall>q \<in> set (map fst (past @ fs)). tag_time (stream_tag cx off q) < 0xFFFFFF"
  shows "steady None (session_log env cx off taken)"
proof -
  have taken: "taken = map fst (filter snd past)" using assms(1) by (simp add: queue_inv_def kept_def)
  have "sorted (map (\<lambda>x. tag_time (stream_tag cx off (fst x))) past)" using assms(2) by (simp add: sorted_append comp_def)
  then have "sorted (map tag_time (map (stream_tag cx off) taken))"
    using sorted_filter [of "\<lambda>x. tag_time (stream_tag cx off (fst x))" past snd] by (simp add: taken comp_def)
  moreover have "\<forall>t \<in> set (map (stream_tag cx off) taken). 0 \<le> tag_time t \<and> tag_time t < 0xFFFFFF" using assms(3) by (auto simp: taken)
  ultimately have "steady (Some 0) (map (stream_tag cx off) taken)" by (rule steady_sorted)
  then have "steady (Some 0) ((if taken = [] then [] else stream_header_tags env cx) @ map (stream_tag cx off) taken)"
    by (intro steady_zero) (simp_all add: stream_header_tags_zero)
  then show ?thesis by (simp add: session_log_def meta_tag_def complete_header_def)
qed

section \<open>Properties\<close>

text \<open>A stream that is connected and has not sent anything, and whose tracks know their headers.\<close>

definition session_start :: "stream_env \<Rightarrow> flv_context \<Rightarrow> rtmp_stream \<Rightarrow> bool" where
  "session_start env cx s \<longleftrightarrow>
    ready s \<and> m_vecChannelsOut (rs_rtmp s) = [] \<and> context_ok cx \<and> stream_tracks_ok env cx \<and> rs_output s = cx \<and>
    stream_codecs cx s \<and> \<not> rs_disconnected s \<and> \<not> rs_stop_event s \<and> \<not> rs_dbr_enabled s \<and> \<not> rs_got_first_packet s \<and>
    \<not> rs_sent_headers s \<and> rs_packets s = deque_init \<and> rs_min_priority s = 0 \<and> rs_dropped_frames s = 0"

text \<open>This is how a new stream is after it connects.\<close>

lemma session_start_connect:
  assumes "init_connect cs (rtmp_stream_create cx r) = Some (True, s)" "\<not> cs_dyn_bitrate cs" "context_ok cx" "stream_tracks_ok env cx"
    and "idle r1" "sb_in r1 = []" "m_vecChannelsOut r1 = []"
  shows "session_start env cx (s\<lparr>rs_rtmp := r1\<rparr>)"
proof -
  have "drain deque_pop_front 0 deque_init = ([], deque_init :: encoder_packet deque)" by simp
  moreover have "dq_size (deque_init :: encoder_packet deque) = 0" by (simp add: deque_init_def)
  ultimately have "free_packets (rtmp_stream_create cx r) = rtmp_stream_create cx r"
    by (simp add: free_packets_def rtmp_stream_create_def)
  then show ?thesis
    using assms by (auto simp: init_connect_def session_start_def ready_def stream_codecs_def rtmp_stream_create_def Let_def
        split: if_splits)
qed


text \<open>An example: an H.264 and an AAC encoder, two packets of sound, and a socket that takes its time.\<close>

definition slow_connection :: RTMP where
  "slow_connection = connection 128 [Sent 1, Interrupted, Sent 3]"

definition plain_settings :: connect_settings where
  "plain_settings = \<lparr>cs_service = True, cs_drop_threshold_ms = 700, cs_pframe_drop_threshold_ms = 900,
     cs_max_shutdown_time_sec = 30, cs_dyn_bitrate = False, cs_floor_pct = 0, cs_delay = 0, cs_table_data = None,
     cs_caps = (\<lambda>_. (True, True))\<rparr>"

definition sound_stream :: rtmp_stream where
  "sound_stream = (snd (the (init_connect plain_settings (rtmp_stream_create flv_example slow_connection))))\<lparr>rs_rtmp := slow_connection\<rparr>"

definition sound_events :: "session_event list" where
  "sound_events = [Data 0 (aac_packet 0), Round 0 0 0, Data 0 (aac_packet 1024), Round 0 0 0, Round 0 0 0]"

lemma sound_stream_start: "session_start example_env flv_example sound_stream"
proof -
  have "init_connect plain_settings (rtmp_stream_create flv_example slow_connection) =
      Some (True, snd (the (init_connect plain_settings (rtmp_stream_create flv_example slow_connection))))"
    by (simp add: init_connect_def plain_settings_def Let_def)
  moreover have "\<not> cs_dyn_bitrate plain_settings" by (simp add: plain_settings_def)
  moreover have "stream_tracks_ok example_env flv_example"
    by (auto simp: stream_tracks_ok_def obs_output_get_video_encoder2_def obs_output_get_audio_encoder_def flv_example_def
        video_track_ok_def audio_track_ok_def av_encoder_def obs_encoder_video_def video_config_def to_video_type_def
        obs_parse_avc_header_def Avc.has_start_code_def fits_def MAX_TAG_DATA_def split: if_splits)
  moreover have "idle slow_connection" "sb_in slow_connection = []" "m_vecChannelsOut slow_connection = []"
    by (simp_all add: slow_connection_def connection_def idle_def live_def healthy_def RTMPPacket_zero_def)
  ultimately show ?thesis unfolding sound_stream_def using session_start_connect flv_example_ok(1) by blast
qed


end
