(* ===== verification/Spec2Isabelle.thy ===== *)
theory Spec2Isabelle
  imports Deque Serializer Encoder Nal Avc Obu Rtmp_Av1_Stream Hevc_Config Mp4_Final Buffered_Live
    Interleave_Flv Rtmp_Bitrate Rtmp_Session
begin

text \<open>
  The path of encoded packets through Braidcast Studio: from the encoders that deliver them to
  the bytes of a recording, or to the peer of a live stream.

  \<^bold>\<open>The program's parts.\<close>  Encoders hand packets to an output.  \<open>obs-output.c\<close> interleaves
  the packets of all tracks by decode time and passes them on to the output plugin.  The plugins
  of \<open>plugins/obs-outputs\<close> turn each packet from the encoder's byte stream into the form of the
  container (\<open>obs-avc.c\<close>, \<open>obs-hevc.c\<close>, \<open>obs-av1.c\<close>, \<open>rtmp-av1.c\<close>, \<open>rtmp-hevc.c\<close>), and a muxer
  (\<open>mp4-mux.c\<close>, \<open>flv-mux.c\<close>) writes it through a serializer into memory or a file.  The muxers
  queue packets in the ring buffer of \<open>util/deque.h\<close>; large files go through the serializer with
  a thread of its own in \<open>util/buffered-file-serializer.c\<close>.  The streaming output
  (\<open>rtmp-stream.c\<close>) queues packets for a thread that sends FLV tags over the chunk streams of
  \<open>librtmp/rtmp.c\<close>; when the connection is too slow it drops frames or lowers the bitrate.

  \<^bold>\<open>Shared ground.\<close>
  \<^item> \<open>Prelude\<close>: machine integers (\<open>u8\<close> to \<open>u64\<close>, \<open>size_t\<close>), byte orders, writes into a buffer.
  \<^item> \<open>Deque\<close> (\<open>util/deque.h\<close>): the ring buffer with start, end, size and capacity as in the
    structure, every operation, and the locale of its contract.  \<open>deque_refines_list\<close>: any
    sequence of operations does to a list what it does to the ring.
  \<^item> \<open>Serializer\<close> (\<open>util/serializer.h\<close>, \<open>array-serializer.c\<close>, the output half of
    \<open>file-serializer.c\<close>): the record of function pointers, the formatted writers, the memory and
    file instances.  The locales of an output that appends and of one that can seek are
    interpreted on these instances; the muxers' lemmas are proved against the locales.
  \<^item> \<open>Encoder\<close> (\<open>obs-encoder.c\<close>, \<open>obs-encoder.h\<close>, \<open>util_uint64.h\<close>): packets, and what the muxers
    query of an encoder.
  \<^item> \<open>Bits\<close>: byte strings as bit strings, the reference of the bit readers.

  \<^bold>\<open>Elementary streams.\<close>
  \<^item> \<open>Nal\<close> (\<open>obs-nal.c\<close>): the start-code scanner with its alignment prologue and its test of four
    bytes at a time, equal to a byte-by-byte search.
  \<^item> \<open>Avc\<close> (\<open>util/bitstream.c\<close>, \<open>obs-avc.c\<close>, \<open>obs-hevc.c\<close>): conversion from start codes to lengths,
    key frames and drop priorities, header extraction, the H.264 configuration record.
  \<^item> \<open>Obu\<close> (\<open>obs-av1.c\<close>): variable-length integers, units, metadata units, key frames.
  \<^item> \<open>Rtmp_Av1\<close>, \<open>Rtmp_Av1_Stream\<close> (\<open>rtmp-av1.c\<close>): the packet filter and the AV1 configuration
    record, their effect on streams of units, and when the unbounded loop of \<open>uvlc\<close> ends.
  \<^item> \<open>Rtmp_Hevc\<close>, \<open>Hevc_Config\<close> (\<open>rtmp-hevc.c\<close>): the cached bit reader, the Golomb decoder, the
    parameter set parsers and the HEVC configuration record.

  \<^bold>\<open>MP4 recordings\<close> (\<open>mp4-mux.c\<close>, \<open>mp4-mux-internal.h\<close>).
  \<^item> \<open>Mp4_Box\<close>, \<open>Mp4_Header\<close>, \<open>Mp4_Sample_Entry\<close>, \<open>Mp4_Tables\<close>, \<open>Mp4_Movie\<close>, \<open>Mp4_Fragment\<close>: the
    data model and every box writer, each with the bytes it appends and a reader of boxes; the
    run-length encoded sample-to-chunk table expands to the chunks.
  \<^item> \<open>Mp4_Mux\<close>, \<open>Mp4_Samples\<close>: queues, packet processing, fragments, chapters, finalisation; the
    sample tables encode exactly the samples seen.
  \<^item> \<open>Mp4_File\<close>, \<open>Mp4_History\<close>, \<open>Mp4_Recording\<close>, \<open>Mp4_Final\<close>, \<open>Mp4_Size\<close>: flushes only append;
    the state machine \<open>recorded\<close> of a whole recording and its invariant; the finalised file parses
    as the boxes it should have, and reading it through its own tables gives back the packets.

  \<^bold>\<open>Buffered files\<close> (\<open>buffered-file-serializer.c\<close>, the automatic events of
  \<open>threading-posix.c\<close>).  \<open>Buffered_File\<close> models the client and the I/O thread as a step relation
  whose steps are the sections under \<open>data_mutex\<close> and the calls between them; \<open>Buffered_Write\<close> has the
  invariant and the refinement of the queue to a list of writes; \<open>Buffered_Live\<close> shows that a closed
  file holds what an unbuffered one would, that memory is bounded, and that calls return unless
  the disk fails while a writer waits (in which case it waits forever).

  \<^bold>\<open>The interleaver\<close> (\<open>obs-output.c\<close> from \<open>interleave_packets\<close> to the \<open>encoded_packet\<close> callback).
  \<open>Interleave\<close> is the model; \<open>Interleave_Order\<close>: the queue is sorted, nothing past it is read, no
  packet is lost after the start; \<open>Interleave_Time\<close>: with one video and one audio track the packets
  leave in order, with two audio tracks they need not, and the first video packet need not be a
  key frame.

  \<^bold>\<open>FLV recordings\<close> (\<open>librtmp/amf.c\<close>, \<open>rtmp-helpers.h\<close>, \<open>flv-mux.c\<close>, \<open>flv-output.c\<close>).  \<open>Amf\<close>,
  \<open>Flv_Mux\<close> and \<open>Flv_Output\<close> are the model; \<open>Flv_Tags\<close> has a reader of tags and the tag each
  writer makes; \<open>Flv_Recording\<close> and \<open>Flv_File\<close> describe the file at every moment and after it is
  closed.  \<open>Interleave_Flv\<close> composes the interleaver with the output: the tags of a recording are
  in order of their time stamps.

  \<^bold>\<open>Live streams\<close> (\<open>librtmp/rtmp.c\<close>, \<open>rtmp-stream.c\<close>).
  \<^item> \<open>Rtmp_Chunk\<close>, \<open>Rtmp_Wire\<close>, \<open>Rtmp_Messages\<close>: messages with compressed headers, cut into chunks,
    over a socket with short writes, interruptions and failures, and the reader of chunks.  A peer
    that reads what was written gets the tags back; and three chunks make the reader write past
    a block.
  \<^item> \<open>Rtmp_Share\<close>, \<open>Rtmp_Stream\<close>: the streaming output, with the encoders' calls and the rounds of its
    thread as steps: queue, frame dropping, dynamic bitrate with its table of levels, headers,
    packets, footers, connecting and stopping.
  \<^item> \<open>Rtmp_Drops\<close>: which packets are dropped, under every interleaving.
  \<^item> \<open>Rtmp_Bitrate\<close>: the bitrate and the encoders' shares of it in every reachable state.
  \<^item> \<open>Rtmp_Session\<close>: the composition; the peer of a session receives the meta data, the headers and
    the tags of the packets that the thread took from the queue.

  \<^bold>\<open>Conventions.\<close>  Where the C code would have undefined behaviour (a null or uninitialised
  pointer, a read past a buffer, an oversized shift, a division by zero) or may never return, the
  definition has an option type and the value \<open>None\<close>; theorems that a call returns say that the
  value is \<open>Some\<close>.  Loops over data are structural recursion or have a termination proof; there
  is no fuel.  \<open>uvlc\<close> may loop forever and is a partial function, with a theorem about exactly
  when it returns.  Allocation is assumed to succeed, as \<open>bmalloc\<close> aborts otherwise.  Sizes in
  theorems are bounded where a 32-bit or 64-bit field of the format would wrap.  Reference counts
  of packets are not modelled: packets are values, and releasing one is dropping it.  The build is
  the default one with HEVC enabled and assertions compiled out, on a little-endian 64-bit machine;
  doubles are bit patterns, or their values where the code computes with them.  Log messages and profiling are left out.

  \<^bold>\<open>Parameters.\<close>  The caption data that \<open>obs-output.c\<close> gets from libcaption, the settings of an
  encoder, the file system (open, rename, and how much a write transfers), what a socket does with each
  call, what the JSON library answers about a table of bitrates, and the clock are arguments of the definitions or nondeterministic choices of the step relations.

  \<^bold>\<open>Not modelled.\<close>  The connection attempt of the streaming output (name lookup, handshake, the
  commands that open a stream) and the socket loop for Windows, the MP4 output plugin's settings and
  file splitting, the output delay, and of \<open>obs-output.c\<close> the life cycle of outputs, reconnection, raw
  outputs, captions and statistics: they are mostly calls into threads, sockets and signals.
  Everything outside the packet path (sources, scenes, graphics, settings, modules, the user
  interface in C++, encoder plugins around third-party libraries, and vendored code such as sqlite
  and the rest of librtmp) is outside the scope of the development.
\<close>

end
